(* ===== verification/Authz_Prelude.thy ===== *)
theory Authz_Prelude
  imports Complex_Main "HOL-Library.Multiset"
begin

text \<open>
  Shared vocabulary of the authorize-svc development: the fact collections the
  component theories feed (\<open>authz_defs\<close> for definitions the automation may unfold,
  \<open>go_eval\<close> for the equations that evaluate the Go library model on closed terms), the
  signed 64-bit wrap-around that Go's \<open>int64\<close>
  arithmetic performs, and generic lemmas on lists and association lists that several
  components use.
\<close>

named_theorems authz_defs \<open>definitions of the model that the automation may unfold\<close>
named_theorems go_eval \<open>equations evaluating the Go library model on closed terms\<close>

section \<open>Signed 64-bit arithmetic\<close>

text \<open>Go's \<open>int64\<close> is kept as an \<open>int\<close> in the range below; every operation that can
  leave the range is followed by an explicit \<open>wrap64\<close>.\<close>

definition wrap64 :: "int \<Rightarrow> int" where
  "wrap64 x = (x + 2 ^ 63) mod 2 ^ 64 - 2 ^ 63"

definition in_int64 :: "int \<Rightarrow> bool" where
  "in_int64 x \<longleftrightarrow> - (2 ^ 63) \<le> x \<and> x < 2 ^ 63"

declare wrap64_def [go_eval] and in_int64_def [go_eval]

lemma wrap64_id: "in_int64 x \<Longrightarrow> wrap64 x = x"
  by (simp add: wrap64_def in_int64_def)

lemma wrap64_range: "in_int64 (wrap64 x)"
proof -
  have "0 \<le> (x + 2 ^ 63) mod 2 ^ 64" and "(x + 2 ^ 63) mod 2 ^ 64 < (2 :: int) ^ 64"
    by simp_all
  then show ?thesis by (simp add: wrap64_def in_int64_def)
qed

lemma wrap64_nonneg_id: "0 \<le> x \<Longrightarrow> x < 2 ^ 63 \<Longrightarrow> wrap64 x = x"
  by (simp add: wrap64_id in_int64_def)

section \<open>Lists\<close>

lemma find_SomeD: "find P xs = Some x \<Longrightarrow> x \<in> set xs \<and> P x"
  by (auto simp: find_Some_iff)

lemma find_None_filter: "find P xs = None \<longleftrightarrow> filter P xs = []"
  by (auto simp: find_None_iff filter_empty_conv)

lemma sum_list_filter_split:
  fixes f :: "'a \<Rightarrow> 'b :: comm_monoid_add"
  shows "sum_list (map f xs) = sum_list (map f (filter P xs)) + sum_list (map f (filter (\<lambda>x. \<not> P x) xs))"
  by (induction xs) (auto simp: algebra_simps)

section \<open>Association lists\<close>

text \<open>A Go map that a loop ranges over, or whose entries are summed, is an association
  list with distinct keys; \<open>alist_put\<close> overwrites in place or appends.\<close>

fun alist_put :: "'k \<Rightarrow> 'v \<Rightarrow> ('k \<times> 'v) list \<Rightarrow> ('k \<times> 'v) list" where
  "alist_put k v [] = [(k, v)]"
| "alist_put k v ((k', v') # xs) = (if k = k' then (k, v) # xs else (k', v') # alist_put k v xs)"

lemma map_of_alist_put [simp]: "map_of (alist_put k v xs) = (map_of xs)(k \<mapsto> v)"
  by (induction xs) (auto simp: fun_eq_iff)

lemma dom_alist_put [simp]: "fst ` set (alist_put k v xs) = insert k (fst ` set xs)"
proof (induction xs)
  case (Cons p xs)
  then show ?case by (cases p) (simp add: insert_commute)
qed simp

lemma distinct_alist_put [simp]:
  "distinct (map fst xs) \<Longrightarrow> distinct (map fst (alist_put k v xs))"
  by (induction xs) (auto simp: image_iff)

lemma set_alist_put: "set (alist_put k v xs) \<subseteq> insert (k, v) (set xs)"
  by (induction k v xs rule: alist_put.induct) auto

text \<open>Summing a weight over the entries: a fresh entry adds its weight, an overwrite
  replaces the old one.\<close>

lemma sum_alist_put_fresh:
  fixes w :: "'v \<Rightarrow> 'b :: comm_monoid_add"
  shows "map_of xs k = None \<Longrightarrow>
    (\<Sum>p\<leftarrow>alist_put k v xs. w (snd p)) = (\<Sum>p\<leftarrow>xs. w (snd p)) + w v"
  by (induction xs) (auto simp: algebra_simps split: if_splits)

lemma sum_alist_put_over:
  fixes w :: "'v \<Rightarrow> int"
  shows "map_of xs k = Some v0 \<Longrightarrow>
    (\<Sum>p\<leftarrow>alist_put k v xs. w (snd p)) = (\<Sum>p\<leftarrow>xs. w (snd p)) - w v0 + w v"
  by (induction xs) (auto split: if_splits)

end
