(* ===== verification/Go_Std.thy ===== *)
theory Go_Std
  imports Authz_Prelude
begin

text \<open>
  The part of Go's standard library the service relies on for its data: decimal
  formatting and parsing (\<open>strconv\<close>), \<open>strings.Cut\<close>, \<open>strings.HasPrefix\<close>, quoting
  (\<open>%q\<close>), hexadecimal, and exact decimals (\<open>big.Rat.SetString\<close>). Go strings are byte
  sequences, so a string or a \<open>[]byte\<close> is a \<open>char list\<close>.
\<close>

section \<open>Decimal digits\<close>

definition is_digit :: "char \<Rightarrow> bool" where
  "is_digit c \<longleftrightarrow> 48 \<le> (of_char c :: nat) \<and> (of_char c :: nat) \<le> 57"

definition digit_val :: "char \<Rightarrow> nat" where
  "digit_val c = of_char c - 48"

definition digit_char :: "nat \<Rightarrow> char" where
  "digit_char n = ''0123456789'' ! n"

lemma of_char_digit_char: "n < 10 \<Longrightarrow> (of_char (digit_char n) :: nat) = 48 + n"
  by (auto simp: digit_char_def less_Suc_eq numeral_eq_Suc)

lemma is_digit_digit_char [simp]: "n < 10 \<Longrightarrow> is_digit (digit_char n)"
  by (simp add: is_digit_def of_char_digit_char)

lemma digit_val_digit_char [simp]: "n < 10 \<Longrightarrow> digit_val (digit_char n) = n"
  by (simp add: digit_val_def of_char_digit_char)

lemma digit_val_less: "is_digit c \<Longrightarrow> digit_val c < 10"
  unfolding is_digit_def digit_val_def by linarith

fun digits_val :: "nat \<Rightarrow> string \<Rightarrow> nat" where
  "digits_val acc [] = acc"
| "digits_val acc (c # cs) = digits_val (acc * 10 + digit_val c) cs"

lemma digits_val_append: "digits_val acc (xs @ ys) = digits_val (digits_val acc xs) ys"
  by (induction xs arbitrary: acc) auto

section \<open>strconv.FormatInt and strconv.ParseInt\<close>

fun nat_str :: "nat \<Rightarrow> string" where
  "nat_str n = (if n < 10 then [digit_char n] else nat_str (n div 10) @ [digit_char (n mod 10)])"

declare nat_str.simps [simp del]

definition FormatInt :: "int \<Rightarrow> string" where
  "FormatInt i = (if i < 0 then ''-'' @ nat_str (nat (- i)) else nat_str (nat i))"

text \<open>\<open>strconv.ParseInt(s, 10, 64)\<close>: an optional sign, then decimal digits only; a value
  outside \<open>int64\<close> is an error.\<close>

definition ParseInt64 :: "string \<Rightarrow> int option" where
  "ParseInt64 s =
     (let (neg, ds) = (case s of c # r \<Rightarrow> if c = CHR ''-'' then (True, r)
                                        else if c = CHR ''+'' then (False, r) else (False, s)
                               | [] \<Rightarrow> (False, []))
      in if ds = [] \<or> \<not> list_all is_digit ds then None
         else let v = (if neg then - int (digits_val 0 ds) else int (digits_val 0 ds))
              in if in_int64 v then Some v else None)"

lemma nat_str_digits: "list_all is_digit (nat_str n) \<and> nat_str n \<noteq> []"
proof (induction n rule: nat_str.induct)
  case (1 n)
  then show ?case by (subst (1 2) nat_str.simps) auto
qed

lemma digits_val_nat_str: "digits_val 0 (nat_str n) = n"
proof (induction n rule: nat_str.induct)
  case (1 n)
  then show ?case by (subst nat_str.simps) (auto simp: digits_val_append)
qed

lemma not_digit_signs [simp]: "\<not> is_digit CHR ''-''" "\<not> is_digit CHR ''+''" "\<not> is_digit CHR ''.''"
  by (simp_all add: is_digit_def)

lemma nat_str_hd: obtains c r where "nat_str n = c # r" and "is_digit c" and "list_all is_digit r"
  using nat_str_digits [of n] by (cases "nat_str n") auto

text \<open>Parsing digits: no sign, so the value is the digit string's.\<close>

lemma ParseInt64_digits:
  assumes "list_all is_digit ds" and "ds \<noteq> []" and "int (digits_val 0 ds) < 2 ^ 63"
  shows "ParseInt64 ds = Some (int (digits_val 0 ds))"
proof -
  from assms(1,2) obtain c r where ds: "ds = c # r" and "is_digit c" by (cases ds) auto
  then have "c \<noteq> CHR ''-''" and "c \<noteq> CHR ''+''" by auto
  with ds assms show ?thesis by (auto simp: ParseInt64_def in_int64_def)
qed

lemma ParseInt64_nat_str: "int n < 2 ^ 63 \<Longrightarrow> ParseInt64 (nat_str n) = Some (int n)"
  using ParseInt64_digits [of "nat_str n"] nat_str_digits [of n] by (simp add: digits_val_nat_str)

lemma ParseInt64_FormatInt: "in_int64 i \<Longrightarrow> ParseInt64 (FormatInt i) = Some i"
proof (cases "i < 0")
  case True
  moreover assume "in_int64 i"
  ultimately show ?thesis using nat_str_digits [of "nat (- i)"]
    by (simp add: FormatInt_def ParseInt64_def digits_val_nat_str)
next
  case False
  moreover assume "in_int64 i"
  ultimately show ?thesis by (simp add: FormatInt_def ParseInt64_nat_str in_int64_def)
qed

section \<open>strings\<close>

definition HasPrefix :: "string \<Rightarrow> string \<Rightarrow> bool" where
  "HasPrefix s p \<longleftrightarrow> take (length p) s = p"

lemma HasPrefix_append [simp]: "HasPrefix (p @ s) p"
  by (simp add: HasPrefix_def)

text \<open>\<open>strings.Cut\<close> around the first occurrence of a one-byte separator.\<close>

fun cut :: "char \<Rightarrow> string \<Rightarrow> string \<times> string \<times> bool" where
  "cut sep [] = ([], [], False)"
| "cut sep (c # cs) =
     (if c = sep then ([], cs, True)
      else let (a, b, found) = cut sep cs in (c # a, b, found))"

lemma cut_none: "sep \<notin> set s \<Longrightarrow> cut sep s = (s, [], False)"
  by (induction s) auto

lemma cut_append: "sep \<notin> set a \<Longrightarrow> cut sep (a @ sep # b) = (a, b, True)"
  by (induction a) auto

text \<open>Composed keys \<open>a ++ sep ++ b\<close> are unambiguous when the first part is free of the
  separator.\<close>

lemma sep_append_inject:
  fixes a b a' b' :: string
  assumes "sep \<notin> set a" and "sep \<notin> set a'" and "a @ sep # b = a' @ sep # b'"
  shows "a = a' \<and> b = b'"
  using arg_cong [where f = "cut sep", OF assms(3)] assms(1,2) by (simp add: cut_append)

section \<open>Quoting and hexadecimal\<close>

definition hex_digit :: "nat \<Rightarrow> char" where
  "hex_digit n = ''0123456789abcdef'' ! n"

definition hex_byte :: "char \<Rightarrow> string" where
  "hex_byte c = [hex_digit (of_char c div 16), hex_digit (of_char c mod 16)]"

text \<open>\<open>hex.EncodeToString\<close>.\<close>

definition hex_encode :: "string \<Rightarrow> string" where
  "hex_encode bs = concat (map hex_byte bs)"

text \<open>\<open>strconv.Quote\<close>, the \<open>%q\<close> verb. Bytes from 128 up belong to UTF-8 sequences and
  are copied, which is what Go does for printable runes.\<close>

definition quote_char :: "char \<Rightarrow> string" where
  "quote_char c =
     (let n = (of_char c :: nat) in
      if n = 34 \<or> n = 92 then [CHR 0x5C, c]
      else if n = 7 then [CHR 0x5C, CHR ''a''] else if n = 8 then [CHR 0x5C, CHR ''b'']
      else if n = 12 then [CHR 0x5C, CHR ''f''] else if n = 10 then [CHR 0x5C, CHR ''n'']
      else if n = 13 then [CHR 0x5C, CHR ''r''] else if n = 9 then [CHR 0x5C, CHR ''t'']
      else if n = 11 then [CHR 0x5C, CHR ''v'']
      else if n < 32 \<or> n = 127 then [CHR 0x5C, CHR ''x''] @ hex_byte c
      else [c])"

definition quote :: "string \<Rightarrow> string" where
  "quote s = [CHR 0x22] @ concat (map quote_char s) @ [CHR 0x22]"

section \<open>Exact decimals\<close>

text \<open>
  \<open>new(big.Rat).SetString(s)\<close> on the spellings the service can hand it: an optional
  sign, decimal digits with an optional fraction part, and an optional decimal
  exponent. A mantissa needs a digit on at least one side of the point. The remaining
  spellings \<open>big.Rat\<close> knows (\<open>a/b\<close>, base prefixes, digit separators) are read as
  unparseable here; the request validator and the policy schema admit none of them.
\<close>

definition rat_exponent :: "string \<Rightarrow> int option" where
  "rat_exponent s = (if s = [] then Some 0 else
     (case s of c # r \<Rightarrow>
        if c = CHR ''e'' \<or> c = CHR ''E''
        then (case ParseInt64 r of Some e \<Rightarrow> if \<bar>e\<bar> \<le> 1000000 then Some e else None | None \<Rightarrow> None)
        else None))"

definition rat_pow10 :: "int \<Rightarrow> rat" where
  "rat_pow10 e = (if 0 \<le> e then 10 ^ nat e else 1 / 10 ^ nat (- e))"

definition rat_SetString :: "string \<Rightarrow> rat option" where
  "rat_SetString s =
     (let (neg, body) = (case s of c # r \<Rightarrow> if c = CHR ''-'' then (True, r)
                                          else if c = CHR ''+'' then (False, r) else (False, s)
                                 | [] \<Rightarrow> (False, []));
          ip = takeWhile is_digit body;
          rest = dropWhile is_digit body;
          (fp, ex) = (case rest of c # r \<Rightarrow> if c = CHR ''.'' then (takeWhile is_digit r, dropWhile is_digit r)
                                            else ([], rest)
                                 | [] \<Rightarrow> ([], []))
      in if ip @ fp = [] then None
         else map_option
                (\<lambda>e. (if neg then - 1 else 1) * of_nat (digits_val 0 (ip @ fp)) / 10 ^ length fp * rat_pow10 e)
                (rat_exponent ex))"

declare is_digit_def [go_eval] and digit_val_def [go_eval] and digit_char_def [go_eval]
  and nat_str.simps [go_eval] and FormatInt_def [go_eval] and ParseInt64_def [go_eval]
  and HasPrefix_def [go_eval] and hex_digit_def [go_eval] and hex_byte_def [go_eval]
  and hex_encode_def [go_eval] and quote_char_def [go_eval] and quote_def [go_eval]
  and rat_exponent_def [go_eval] and rat_pow10_def [go_eval] and rat_SetString_def [go_eval]

end
