(* ===== verification/Go_Time.thy ===== *)
theory Go_Time
  imports Go_Std
begin

text \<open>
  Go's \<open>time\<close> package as the service uses it. An instant is the number of nanoseconds
  since the zero time 0001-01-01T00:00:00Z, so that \<open>IsZero\<close> is \<open>= 0\<close>; a duration is
  an \<open>int64\<close> number of nanoseconds. Subtraction saturates and negation wraps, as in Go.
  The proleptic Gregorian calendar, the layouts the code formats with, and
  \<open>time.Parse(time.RFC3339, _)\<close> with its leniencies are executable functions.
\<close>

type_synonym gotime = int
type_synonym duration = int

abbreviation ns_second :: int where "ns_second \<equiv> 1000000000"
abbreviation ns_minute :: int where "ns_minute \<equiv> 60000000000"
abbreviation ns_hour :: int where "ns_hour \<equiv> 3600000000000"

definition time_IsZero :: "gotime \<Rightarrow> bool" where
  "time_IsZero t \<longleftrightarrow> t = 0"

text \<open>Seconds between the zero time and the Unix epoch.\<close>

abbreviation unixToInternal :: int where "unixToInternal \<equiv> 62135596800"

definition time_Unix :: "gotime \<Rightarrow> int" where
  "time_Unix t = t div ns_second - unixToInternal"

text \<open>\<open>time.Unix(sec, 0)\<close>: the addition of the epoch offset is \<open>int64\<close> arithmetic.\<close>

definition time_of_Unix :: "int \<Rightarrow> gotime" where
  "time_of_Unix sec = wrap64 (sec + unixToInternal) * ns_second"

text \<open>\<open>t.Sub(u)\<close> saturates at the ends of the duration range.\<close>

definition time_Sub :: "gotime \<Rightarrow> gotime \<Rightarrow> duration" where
  "time_Sub t u = max (- (2 ^ 63)) (min (2 ^ 63 - 1) (t - u))"

definition duration_neg :: "duration \<Rightarrow> duration" where
  "duration_neg d = wrap64 (- d)"

lemma time_Sub_exact: "in_int64 (t - u) \<Longrightarrow> time_Sub t u = t - u"
  by (auto simp: time_Sub_def in_int64_def)

section \<open>Clock and calendar\<close>

definition time_Hour :: "gotime \<Rightarrow> int" where
  "time_Hour t = t div ns_hour mod 24"

definition time_Minute :: "gotime \<Rightarrow> int" where
  "time_Minute t = t div ns_minute mod 60"

definition time_Second :: "gotime \<Rightarrow> int" where
  "time_Second t = t div ns_second mod 60"

definition time_days :: "gotime \<Rightarrow> int" where
  "time_days t = t div (24 * ns_hour)"

text \<open>Day 0 was a Monday; Sunday is 0.\<close>

definition time_Weekday :: "gotime \<Rightarrow> int" where
  "time_Weekday t = (time_days t + 1) mod 7"

definition Weekday_String :: "int \<Rightarrow> string" where
  "Weekday_String d = [''Sunday'', ''Monday'', ''Tuesday'', ''Wednesday'', ''Thursday'',
     ''Friday'', ''Saturday''] ! nat (d mod 7)"

definition is_leap :: "int \<Rightarrow> bool" where
  "is_leap y \<longleftrightarrow> y mod 4 = 0 \<and> (y mod 100 \<noteq> 0 \<or> y mod 400 = 0)"

definition daysIn :: "int \<Rightarrow> int \<Rightarrow> int" where
  "daysIn m y = (if m = 2 then (if is_leap y then 29 else 28)
                 else if m \<in> {4, 6, 9, 11} then 30 else 31)"

text \<open>Days from day 0 to 1 January of a year.\<close>

definition days_before_year :: "int \<Rightarrow> int" where
  "days_before_year y = 365 * (y - 1) + (y - 1) div 4 - (y - 1) div 100 + (y - 1) div 400"

definition days_before_month :: "int \<Rightarrow> int \<Rightarrow> int" where
  "days_before_month m y = (\<Sum>k\<leftarrow>take (nat (m - 1)) [1, 2, 3, 4, 5, 6, 7, 8, 9, 10, 11]. daysIn k y)"

definition days_of_date :: "int \<Rightarrow> int \<Rightarrow> int \<Rightarrow> int" where
  "days_of_date y m d = days_before_year y + days_before_month m y + (d - 1)"

text \<open>The year of a day number, by the 400/100/4/1-year cycles; the last day of a leap
  cycle is the 366th day of its last year, hence the \<open>min\<close>.\<close>

definition year_of_days :: "int \<Rightarrow> int" where
  "year_of_days d =
     (let n400 = d div 146097; d1 = d mod 146097;
          n100 = min 3 (d1 div 36524); d2 = d1 - 36524 * n100;
          n4 = d2 div 1461; d3 = d2 mod 1461;
          n1 = min 3 (d3 div 365)
      in 400 * n400 + 100 * n100 + 4 * n4 + n1 + 1)"

fun month_day :: "int \<Rightarrow> int list \<Rightarrow> int \<Rightarrow> int \<times> int" where
  "month_day y [] d = (12, d + 1)"
| "month_day y [m] d = (m, d + 1)"
| "month_day y (m # m' # ms) d =
     (if d < daysIn m y then (m, d + 1) else month_day y (m' # ms) (d - daysIn m y))"

definition date_in_year :: "int \<Rightarrow> int \<Rightarrow> int \<times> int \<times> int" where
  "date_in_year y n =
     (y, month_day y [1, 2, 3, 4, 5, 6, 7, 8, 9, 10, 11, 12] n)"

definition date_of_days :: "int \<Rightarrow> int \<times> int \<times> int" where
  "date_of_days d = date_in_year (year_of_days d) (d - days_before_year (year_of_days d))"

definition time_Date :: "gotime \<Rightarrow> int \<times> int \<times> int" where
  "time_Date t = date_of_days (time_days t)"

section \<open>Formatting\<close>

definition pad_nat :: "nat \<Rightarrow> nat \<Rightarrow> string" where
  "pad_nat w n = (let s = nat_str n in replicate (w - length s) CHR ''0'' @ s)"

text \<open>\<open>time.appendInt\<close> and \<open>%02d\<close> on an \<open>int\<close>: the sign counts towards the width of
  the latter only.\<close>

definition pad_int :: "nat \<Rightarrow> int \<Rightarrow> string" where
  "pad_int w i = (if i < 0 then ''-'' @ pad_nat w (nat (- i)) else pad_nat w (nat i))"

definition fmt_02d :: "int \<Rightarrow> string" where
  "fmt_02d i = (if i < 0 then ''-'' @ pad_nat 1 (nat (- i)) else pad_nat 2 (nat i))"

definition format_date :: "gotime \<Rightarrow> string" where
  "format_date t = (case time_Date t of (y, m, d) \<Rightarrow>
     pad_int 4 y @ ''-'' @ pad_int 2 m @ ''-'' @ pad_int 2 d)"

definition format_month :: "gotime \<Rightarrow> string" where
  "format_month t = (case time_Date t of (y, m, d) \<Rightarrow> pad_int 4 y @ ''-'' @ pad_int 2 m)"

definition format_clock :: "gotime \<Rightarrow> string" where
  "format_clock t = pad_int 2 (time_Hour t) @ '':'' @ pad_int 2 (time_Minute t)"

text \<open>\<open>t.UTC().Format(time.RFC3339)\<close>.\<close>

definition format_RFC3339 :: "gotime \<Rightarrow> string" where
  "format_RFC3339 t = format_date t @ ''T'' @ format_clock t @ '':'' @ pad_int 2 (time_Second t) @ ''Z''"

text \<open>\<open>Duration.String\<close>: the fraction is printed without trailing zeros.\<close>

definition frac_str :: "nat \<Rightarrow> nat \<Rightarrow> string" where
  "frac_str prec v =
     (let ds = rev (dropWhile (\<lambda>c. c = CHR ''0'') (rev (pad_nat prec v)))
      in if ds = [] then [] else ''.'' @ ds)"

definition Duration_String :: "duration \<Rightarrow> string" where
  "Duration_String d =
     (let u = nat \<bar>d\<bar>; sg = (if d < 0 then ''-'' else '''') in
      sg @
      (if u = 0 then ''0s''
       else if u < 1000 then nat_str u @ ''ns''
       else if u < 1000000 then nat_str (u div 1000) @ frac_str 3 (u mod 1000) @ [CHR 0xC2, CHR 0xB5] @ ''s''
       else if u < 1000000000 then nat_str (u div 1000000) @ frac_str 6 (u mod 1000000) @ ''ms''
       else let s = u div 1000000000; m = s div 60; h = m div 60 in
            (if h > 0 then nat_str h @ ''h'' else '''') @
            (if m > 0 then nat_str (m mod 60) @ ''m'' else '''') @
            nat_str (s mod 60) @ frac_str 9 (u mod 1000000000) @ ''s''))"

section \<open>time.Parse(time.RFC3339, value)\<close>

text \<open>The pieces of the layout, left to right. Two-digit fields are fixed width except
  the hour, for which Go accepts one digit; a fraction of a second may follow the
  seconds with a point or a comma; an offset may be up to 24:60.\<close>

definition expect :: "char \<Rightarrow> string \<Rightarrow> string option" where
  "expect c s = (case s of x # r \<Rightarrow> if x = c then Some r else None | [] \<Rightarrow> None)"

definition getnum :: "bool \<Rightarrow> string \<Rightarrow> (int \<times> string) option" where
  "getnum fixed s =
     (case s of
        a # b # r \<Rightarrow>
          if \<not> is_digit a then None
          else if is_digit b then Some (int (digits_val 0 [a, b]), r)
          else if fixed then None else Some (int (digit_val a), b # r)
      | [a] \<Rightarrow> if \<not> is_digit a \<or> fixed then None else Some (int (digit_val a), [])
      | [] \<Rightarrow> None)"

definition getyear :: "string \<Rightarrow> (int \<times> string) option" where
  "getyear s = (if 4 \<le> length s \<and> list_all is_digit (take 4 s)
                then Some (int (digits_val 0 (take 4 s)), drop 4 s) else None)"

definition getfrac :: "string \<Rightarrow> int \<times> string" where
  "getfrac s =
     (case s of
        c # d # r \<Rightarrow>
          if (c = CHR ''.'' \<or> c = CHR '','') \<and> is_digit d
          then (let ds = take 9 (takeWhile is_digit (d # r))
                in (int (digits_val 0 ds) * 10 ^ (9 - length ds), dropWhile is_digit (d # r)))
          else (0, s)
      | _ \<Rightarrow> (0, s))"

text \<open>The zone offset in seconds.\<close>

definition getzone :: "string \<Rightarrow> (int \<times> string) option" where
  "getzone s =
     (case s of
        [] \<Rightarrow> None
      | c # r \<Rightarrow>
          if c = CHR ''Z'' then Some (0, r)
          else if c \<noteq> CHR ''+'' \<and> c \<noteq> CHR ''-'' then None
          else Option.bind (getnum True r) (\<lambda>(hh, r1).
               Option.bind (expect CHR '':'' r1) (\<lambda>r2.
               Option.bind (getnum True r2) (\<lambda>(mm, r3).
                 if hh > 24 \<or> mm > 60 then None
                 else Some ((if c = CHR ''-'' then -1 else 1) * (hh * 3600 + mm * 60), r3)))))"

definition getdate :: "string \<Rightarrow> ((int \<times> int \<times> int) \<times> string) option" where
  "getdate s =
     Option.bind (getyear s) (\<lambda>(y, s1).
     Option.bind (expect CHR ''-'' s1) (\<lambda>s2.
     Option.bind (getnum True s2) (\<lambda>(mo, s3).
     if mo < 1 \<or> 12 < mo then None else
     Option.bind (expect CHR ''-'' s3) (\<lambda>s4.
     Option.bind (getnum True s4) (\<lambda>(d, s5). Some ((y, mo, d), s5))))))"

definition getclock :: "string \<Rightarrow> ((int \<times> int \<times> int \<times> int) \<times> string) option" where
  "getclock s =
     Option.bind (getnum False s) (\<lambda>(h, s1).
     if 24 \<le> h then None else
     Option.bind (expect CHR '':'' s1) (\<lambda>s2.
     Option.bind (getnum True s2) (\<lambda>(mi, s3).
     if 60 \<le> mi then None else
     Option.bind (expect CHR '':'' s3) (\<lambda>s4.
     Option.bind (getnum True s4) (\<lambda>(sec, s5).
     if 60 \<le> sec then None else
     case getfrac s5 of (fr, s6) \<Rightarrow> Some ((h, mi, sec, fr), s6))))))"

definition parse_RFC3339 :: "string \<Rightarrow> gotime option" where
  "parse_RFC3339 s =
     Option.bind (getdate s) (\<lambda>((y, mo, d), s1).
     Option.bind (expect CHR ''T'' s1) (\<lambda>s2.
     Option.bind (getclock s2) (\<lambda>((h, mi, sec, fr), s3).
     Option.bind (getzone s3) (\<lambda>(off, s4).
       if s4 \<noteq> [] \<or> d < 1 \<or> daysIn mo y < d then None
       else Some ((days_of_date y mo d * 86400 + h * 3600 + mi * 60 + sec - off) * ns_second + fr)))))"

lemma parse_RFC3339_Nil [simp]: "parse_RFC3339 [] = None"
  by (simp add: parse_RFC3339_def getdate_def getyear_def)

declare time_IsZero_def [go_eval] and time_Unix_def [go_eval] and time_of_Unix_def [go_eval]
  and time_Sub_def [go_eval] and duration_neg_def [go_eval] and time_Hour_def [go_eval]
  and time_Minute_def [go_eval] and time_Second_def [go_eval] and time_days_def [go_eval]
  and time_Weekday_def [go_eval] and Weekday_String_def [go_eval] and is_leap_def [go_eval]
  and daysIn_def [go_eval] and days_before_year_def [go_eval] and days_before_month_def [go_eval]
  and days_of_date_def [go_eval] and year_of_days_def [go_eval] and date_in_year_def [go_eval]
  and date_of_days_def [go_eval] and time_Date_def [go_eval] and pad_nat_def [go_eval]
  and pad_int_def [go_eval] and fmt_02d_def [go_eval] and format_date_def [go_eval]
  and format_month_def [go_eval] and format_clock_def [go_eval] and format_RFC3339_def [go_eval]
  and frac_str_def [go_eval] and Duration_String_def [go_eval] and expect_def [go_eval]
  and getnum_def [go_eval] and getyear_def [go_eval] and getfrac_def [go_eval]
  and getzone_def [go_eval] and getdate_def [go_eval] and getclock_def [go_eval]
  and parse_RFC3339_def [go_eval]

end
