(* ===== verification/Contracts.thy ===== *)
theory Contracts
  imports Go_Time
begin

text \<open>
  The wire types of \<open>contracts/gen/go/contractsv1/types.go\<close>. A Go string type with
  declared constants is a datatype with one constructor per constant and one for any
  other string; a \<open>map[string]interface{}\<close> is an association list of JSON values in the
  order the code writes the keys; a nil and an empty slice are the same list, as every
  consumer normalises them.
\<close>

datatype jval = JStr string | JInt int | JStrs "string list"

type_synonym jmap = "(string \<times> jval) list"

section \<open>Enumerations\<close>

datatype VerdictC = VerdictApprove | VerdictDeny | VerdictReview | VerdictOther string

datatype PredicateResultC = ResultSatisfied | ResultDenied | ResultReview | ResultUnavailable

datatype PredicateType =
    TypePerTransactionLimit | TypeVendorAllowlist | TypeVendorBlocklist | TypeAgentPermission
  | TypeTimeWindow | TypeJurisdictionCurrency | TypeRollingBudget | TypeSanctionsScreen
  | TypeVendorRisk

datatype TargetType =
  TargetVendor | TargetAccount | TargetAddress | TargetInternal | TargetUnknown | TargetOther string

fun Verdict_str :: "VerdictC \<Rightarrow> string" where
  "Verdict_str VerdictApprove = ''APPROVE''"
| "Verdict_str VerdictDeny = ''DENY''"
| "Verdict_str VerdictReview = ''REVIEW''"
| "Verdict_str (VerdictOther s) = s"

fun PredicateType_str :: "PredicateType \<Rightarrow> string" where
  "PredicateType_str TypePerTransactionLimit = ''per_transaction_limit''"
| "PredicateType_str TypeVendorAllowlist = ''vendor_allowlist''"
| "PredicateType_str TypeVendorBlocklist = ''vendor_blocklist''"
| "PredicateType_str TypeAgentPermission = ''agent_permission''"
| "PredicateType_str TypeTimeWindow = ''time_window''"
| "PredicateType_str TypeJurisdictionCurrency = ''jurisdiction_currency''"
| "PredicateType_str TypeRollingBudget = ''rolling_budget''"
| "PredicateType_str TypeSanctionsScreen = ''sanctions_screen''"
| "PredicateType_str TypeVendorRisk = ''vendor_risk''"

lemma PredicateType_str_inject [simp]: "PredicateType_str a = PredicateType_str b \<longleftrightarrow> a = b"
  by (cases a; cases b) simp_all

fun PredicateResult_str :: "PredicateResultC \<Rightarrow> string" where
  "PredicateResult_str ResultSatisfied = ''SATISFIED''"
| "PredicateResult_str ResultDenied = ''DENIED''"
| "PredicateResult_str ResultReview = ''REVIEW''"
| "PredicateResult_str ResultUnavailable = ''UNAVAILABLE''"

lemma PredicateResult_str_inject [simp]: "PredicateResult_str a = PredicateResult_str b \<longleftrightarrow> a = b"
  by (cases a; cases b) simp_all

fun TargetType_str :: "TargetType \<Rightarrow> string" where
  "TargetType_str TargetVendor = ''vendor''"
| "TargetType_str TargetAccount = ''account''"
| "TargetType_str TargetAddress = ''address''"
| "TargetType_str TargetInternal = ''internal''"
| "TargetType_str TargetUnknown = ''unknown''"
| "TargetType_str (TargetOther s) = s"

section \<open>Requests\<close>

record Target =
  tgt_Type :: TargetType
  tgt_ID :: string

record CounterReading =
  cr_ID :: string
  cr_Window :: string
  cr_WindowKey :: string
  cr_SpendToDate :: string
  cr_Limit :: string
  cr_Currency :: string

record CounterSnapshot =
  cs_AsOf :: string
  cs_Counters :: "CounterReading list"

record AuthorizeRequest =
  req_AgentID :: string
  req_Action :: string
  req_Amount :: string
  req_Currency :: string
  req_Target :: Target
  req_Jurisdiction :: string
  req_Context :: jmap
  req_IdempotencyKey :: string
  req_EvaluatedAt :: string
  req_CounterSnapshot :: "CounterSnapshot option"

section \<open>Decisions\<close>

record MatchedRule =
  mr_RuleID :: string
  mr_Type :: PredicateType
  mr_Result :: PredicateResultC
  mr_Detail :: string
  mr_Evidence :: jmap

record Explanation =
  ex_Summary :: string
  ex_MatchedRules :: "MatchedRule list"

record Obligation =
  ob_Type :: string
  ob_Detail :: string
  ob_Params :: jmap

definition ObligationCaptureWithin :: string where
  "ObligationCaptureWithin = ''capture_within''"

record Signature =
  sig_Algorithm :: string
  sig_KeyID :: string
  sig_Value :: string
  sig_Canonicalization :: string

record Decision =
  dec_DecisionID :: string
  dec_Verdict :: VerdictC
  dec_PolicyVersionHash :: string
  dec_Explanation :: Explanation
  dec_Obligations :: "Obligation list"
  dec_LatencyMs :: int
  dec_EvaluatedAt :: string
  dec_Signature :: Signature
  dec_Shadow :: bool
  dec_RecordHash :: string
  dec_SignatureVerified :: "bool option"

record ValidationItem =
  vi_Pointer :: string
  vi_Detail :: string

record Problem =
  prob_Type :: string
  prob_Title :: string
  prob_Status :: int
  prob_Detail :: string
  prob_Instance :: string
  prob_Code :: string
  prob_Errors :: "ValidationItem list"

end
