(* ===== verification/Verdict.thy ===== *)
theory Verdict
  imports Contracts
begin

text \<open>
  \<open>internal/engine/verdict.go\<close>: the algebra that folds predicate results into one
  verdict. The loop of \<open>Combine\<close> is a recursion carrying \<open>sawFlag\<close>. The lemmas
  characterise it as a function of the multiset of effective outcomes.
\<close>

datatype Verdict = Approve | Deny | Review

datatype Outcome = Satisfied | Denied | Flagged | Unavailable | OutcomeOther string

datatype FailMode = FailClosedReview | FailClosedDeny | FailOpen | FailModeOther string

abbreviation FailModeUnset :: FailMode where "FailModeUnset \<equiv> FailModeOther []"

record PredicateResult =
  pr_RuleID :: string
  pr_Enriched :: bool
  pr_Outcome :: Outcome
  pr_FailMode :: FailMode

definition effectiveOutcome :: "PredicateResult \<Rightarrow> Outcome" where
  "effectiveOutcome r =
     (if pr_Outcome r \<noteq> Unavailable then pr_Outcome r
      else case pr_FailMode r of
             FailClosedDeny \<Rightarrow> Denied
           | FailOpen \<Rightarrow> Satisfied
           | FailClosedReview \<Rightarrow> Flagged
           | FailModeOther _ \<Rightarrow> Flagged)"

fun Combine_loop :: "bool \<Rightarrow> PredicateResult list \<Rightarrow> Verdict" where
  "Combine_loop sawFlag [] = (if sawFlag then Review else Approve)"
| "Combine_loop sawFlag (r # rs) =
     (case effectiveOutcome r of
        Denied \<Rightarrow> Deny
      | Flagged \<Rightarrow> Combine_loop True rs
      | _ \<Rightarrow> Combine_loop sawFlag rs)"

definition Combine :: "PredicateResult list \<Rightarrow> Verdict" where
  "Combine results = (if results = [] then Deny else Combine_loop False results)"

section \<open>Specification\<close>

text \<open>The documented precedence, over the multiset of effective outcomes: the package comment gives no verdict
  for a multiset with no denied and no flagged outcome in which something else than \<open>Satisfied\<close> occurs.\<close>

definition verdict_spec :: "Outcome multiset \<Rightarrow> Verdict option" where
  "verdict_spec os =
     (if os = {#} then Some Deny
      else if Denied \<in># os then Some Deny
      else if Flagged \<in># os then Some Review
      else if \<forall>x \<in># os. x = Satisfied then Some Approve
      else None)"

definition documented :: "Outcome \<Rightarrow> bool" where
  "documented x \<longleftrightarrow> x \<in> {Satisfied, Denied, Flagged, Unavailable}"

definition outcomes :: "PredicateResult list \<Rightarrow> Outcome multiset" where
  "outcomes rs = mset (map effectiveOutcome rs)"

lemma Combine_loop_spec:
  "Combine_loop f rs =
     (if \<exists>r\<in>set rs. effectiveOutcome r = Denied then Deny
      else if f \<or> (\<exists>r\<in>set rs. effectiveOutcome r = Flagged) then Review else Approve)"
  by (induction rs arbitrary: f) (auto split: Outcome.splits)

lemma outcomes_mem: "x \<in># outcomes rs \<longleftrightarrow> (\<exists>r\<in>set rs. effectiveOutcome r = x)"
  by (auto simp: outcomes_def)

lemma effectiveOutcome_resolved: "effectiveOutcome r \<noteq> Unavailable"
  by (auto simp: effectiveOutcome_def split: FailMode.splits)

lemma effectiveOutcome_documented: "documented (pr_Outcome r) \<Longrightarrow> effectiveOutcome r \<in> {Satisfied, Denied, Flagged}"
  by (auto simp: effectiveOutcome_def documented_def split: FailMode.splits)

lemma effective_satisfied_unavailable:
  "pr_Outcome r = Unavailable \<Longrightarrow> effectiveOutcome r = Satisfied \<longleftrightarrow> pr_FailMode r = FailOpen"
  by (auto simp: effectiveOutcome_def split: FailMode.splits)

lemma Combine_Approve_iff:
  "Combine rs = Approve \<longleftrightarrow>
     rs \<noteq> [] \<and> (\<forall>r\<in>set rs. effectiveOutcome r \<noteq> Denied \<and> effectiveOutcome r \<noteq> Flagged)"
  by (auto simp: Combine_def Combine_loop_spec)

lemma Combine_Deny_iff:
  "Combine rs = Deny \<longleftrightarrow> rs = [] \<or> (\<exists>r\<in>set rs. effectiveOutcome r = Denied)"
  by (auto simp: Combine_def Combine_loop_spec)

lemma Combine_Review_iff:
  "Combine rs = Review \<longleftrightarrow>
     (\<exists>r\<in>set rs. effectiveOutcome r = Flagged) \<and> (\<forall>r\<in>set rs. effectiveOutcome r \<noteq> Denied)"
  by (auto simp: Combine_def Combine_loop_spec)

lemmas Combine_iffs = Combine_Approve_iff Combine_Deny_iff Combine_Review_iff

lemma outcomes_empty [simp]: "outcomes rs = {#} \<longleftrightarrow> rs = []"
  by (simp add: outcomes_def)

lemma Combine_meets_spec: "verdict_spec (outcomes rs) = Some v \<Longrightarrow> Combine rs = v"
  by (auto simp: verdict_spec_def outcomes_mem Combine_iffs split: if_splits)

lemma spec_defined:
  assumes "\<forall>r \<in> set rs. documented (pr_Outcome r)"
  shows "\<exists>v. verdict_spec (outcomes rs) = Some v"
proof -
  have "\<forall>x \<in># outcomes rs. x \<in> {Satisfied, Denied, Flagged}"
    using assms effectiveOutcome_documented by (auto simp: outcomes_def)
  then show ?thesis unfolding verdict_spec_def by auto
qed

lemma Combine_mset_cong: "mset rs = mset rs' \<Longrightarrow> Combine rs = Combine rs'"
  using mset_eq_setD [of rs rs'] by (auto simp: Combine_def Combine_loop_spec)

text \<open>An outcome outside the four constants counts as a satisfied one: the switch of \<open>Combine\<close> has no default case.\<close>

lemma undocumented_outcome_approves:
  "Combine [\<lparr>pr_RuleID = i, pr_Enriched = e, pr_Outcome = OutcomeOther x, pr_FailMode = m\<rparr>] = Approve \<and>
   verdict_spec (outcomes [\<lparr>pr_RuleID = i, pr_Enriched = e, pr_Outcome = OutcomeOther x, pr_FailMode = m\<rparr>]) = None"
  by (simp add: Combine_def effectiveOutcome_def verdict_spec_def outcomes_def)

text \<open>Appending one more result to an approving set: the new result alone decides.\<close>

lemma Combine_snoc_Approve:
  "Combine rs = Approve \<Longrightarrow>
   Combine (rs @ [r]) = (case effectiveOutcome r of Denied \<Rightarrow> Deny | Flagged \<Rightarrow> Review | _ \<Rightarrow> Approve)"
  by (auto simp: Combine_def Combine_loop_spec split: Outcome.splits if_splits)

section \<open>Properties\<close>

text \<open>C1: \<open>Combine\<close> implements the documented algebra. Wherever the algebra gives a verdict, \<open>Combine\<close> returns it: DENY for
  an empty set or with any denied effective outcome, else REVIEW with any flagged one, else APPROVE when all are
  satisfied; it gives one for every set of results with the four documented outcomes; and the verdict depends on
  the multiset of the results only, not on their order.\<close>

theorem Combine_refines_spec:
  "(verdict_spec (outcomes rs) = Some v \<longrightarrow> Combine rs = v) \<and>
   ((\<forall>r \<in> set rs. documented (pr_Outcome r)) \<longrightarrow> verdict_spec (outcomes rs) = Some (Combine rs)) \<and>
   (mset rs = mset rs' \<longrightarrow> Combine rs = Combine rs')"
  using Combine_meets_spec spec_defined Combine_mset_cong by metis

theorem Combine_refines_spec_witness:
  "let a = \<lparr>pr_RuleID = ''a'', pr_Enriched = False, pr_Outcome = Satisfied, pr_FailMode = FailModeUnset\<rparr>;
       b = \<lparr>pr_RuleID = ''b'', pr_Enriched = True, pr_Outcome = Unavailable, pr_FailMode = FailClosedReview\<rparr>
   in verdict_spec (outcomes [a, b]) = Some Review \<and> Combine [a, b] = Review \<and> Combine [a, b] = Combine [b, a]"
proof -
  define a where "a = \<lparr>pr_RuleID = ''a'', pr_Enriched = False, pr_Outcome = Satisfied, pr_FailMode = FailModeUnset\<rparr>"
  define b where "b = \<lparr>pr_RuleID = ''b'', pr_Enriched = True, pr_Outcome = Unavailable, pr_FailMode = FailClosedReview\<rparr>"
  have "mset [a, b] = mset [b, a]" by simp
  then have "Combine [a, b] = Combine [b, a]"
    using Combine_refines_spec [of "[a, b]" _ "[b, a]"] by blast
  moreover have "verdict_spec (outcomes [a, b]) = Some Review"
    by (simp add: verdict_spec_def outcomes_def effectiveOutcome_def a_def b_def)
  moreover from this have "Combine [a, b] = Review" using Combine_refines_spec [of "[a, b]" Review "[a, b]"] by blast
  ultimately show ?thesis by (simp add: a_def b_def)
qed

text \<open>The governing safety invariant. An APPROVE contains no predicate that failed to
  complete, unless that predicate's declared fail mode is the customer opt-in FailOpen;
  and a predicate that failed to complete under any other mode forces REVIEW or DENY.\<close>

theorem Combine_never_fabricates:
  assumes "r \<in> set rs" and "pr_Outcome r = Unavailable" and "pr_FailMode r \<noteq> FailOpen"
  shows "Combine rs \<in> {Review, Deny} \<and> (pr_FailMode r = FailClosedDeny \<longrightarrow> Combine rs = Deny)"
proof -
  have "effectiveOutcome r = Denied \<or> effectiveOutcome r = Flagged"
    using assms(2,3) by (auto simp: effectiveOutcome_def split: FailMode.splits)
  with assms(1) have "Combine rs \<noteq> Approve" by (auto simp: Combine_Approve_iff)
  moreover have "Combine rs = Deny" if "pr_FailMode r = FailClosedDeny"
    using that assms(1,2) by (auto simp: Combine_Deny_iff effectiveOutcome_def intro!: bexI [of _ r])
  ultimately show ?thesis by (cases "Combine rs") auto
qed

theorem Combine_never_fabricates_witness:
  "Combine [\<lparr>pr_RuleID = ''b'', pr_Enriched = True, pr_Outcome = Unavailable, pr_FailMode = FailClosedDeny\<rparr>]
     \<in> {Review, Deny}"
  using Combine_never_fabricates
    [of "\<lparr>pr_RuleID = ''b'', pr_Enriched = True, pr_Outcome = Unavailable, pr_FailMode = FailClosedDeny\<rparr>"
        "[\<lparr>pr_RuleID = ''b'', pr_Enriched = True, pr_Outcome = Unavailable, pr_FailMode = FailClosedDeny\<rparr>]"]
  by simp

end
