(* ===== verification/Predicates.thy ===== *)
theory Predicates
  imports Verdict
begin

text \<open>
  \<open>internal/engine/predicate.go\<close>, \<open>predicates.go\<close> and \<open>construct.go\<close>: the evaluation
  vector, the shared agent scope, the six local predicates with their reasons and
  evidence, and the constructors. The Go interface \<open>Predicate\<close> with its six
  implementations is a datatype.
\<close>

section \<open>Input and results\<close>

record Input =
  in_AgentID :: string
  in_Action :: string
  in_AmountRaw :: string
  in_Amount :: "rat option"
  in_Currency :: string
  in_Target :: Target
  in_Jurisdiction :: string
  in_EvaluatedAt :: gotime
  in_Context :: jmap

record PResult =
  res_Outcome :: Outcome
  res_Reason :: string
  res_Evidence :: jmap

record rule_base =
  base_ID :: string
  base_Agents :: "string list"

fun contains :: "string list \<Rightarrow> string \<Rightarrow> bool" where
  "contains [] v = False"
| "contains (s # xs) v = (if s = v then True else contains xs v)"

fun containsInt :: "int list \<Rightarrow> int \<Rightarrow> bool" where
  "containsInt [] v = False"
| "containsInt (s # xs) v = (if s = v then True else containsInt xs v)"

lemma contains_iff [simp]: "contains xs v \<longleftrightarrow> v \<in> set xs"
  by (induction xs) auto

lemma containsInt_iff [simp]: "containsInt xs v \<longleftrightarrow> v \<in> set xs"
  by (induction xs) auto

definition base_AppliesTo :: "rule_base \<Rightarrow> string \<Rightarrow> bool" where
  "base_AppliesTo b agentID = (if base_Agents b = [] then True else contains (base_Agents b) agentID)"

definition parseMoney :: "string \<Rightarrow> rat option" where
  "parseMoney s = rat_SetString s"

section \<open>The six local predicates\<close>

datatype Predicate =
    PerTransactionLimit rule_base string string
  | VendorAllowlist rule_base "string list"
  | VendorBlocklist rule_base "string list"
  | AgentPermission rule_base "string list" "string list"
  | TimeWindow rule_base int int "int list"
  | JurisdictionCurrency rule_base "(string \<times> string list) list"

fun Predicate_base :: "Predicate \<Rightarrow> rule_base" where
  "Predicate_base (PerTransactionLimit b _ _) = b"
| "Predicate_base (VendorAllowlist b _) = b"
| "Predicate_base (VendorBlocklist b _) = b"
| "Predicate_base (AgentPermission b _ _) = b"
| "Predicate_base (TimeWindow b _ _ _) = b"
| "Predicate_base (JurisdictionCurrency b _) = b"

definition RuleID :: "Predicate \<Rightarrow> string" where
  "RuleID p = base_ID (Predicate_base p)"

definition AppliesTo :: "Predicate \<Rightarrow> string \<Rightarrow> bool" where
  "AppliesTo p agentID = base_AppliesTo (Predicate_base p) agentID"

fun Predicate_Type :: "Predicate \<Rightarrow> PredicateType" where
  "Predicate_Type (PerTransactionLimit _ _ _) = TypePerTransactionLimit"
| "Predicate_Type (VendorAllowlist _ _) = TypeVendorAllowlist"
| "Predicate_Type (VendorBlocklist _ _) = TypeVendorBlocklist"
| "Predicate_Type (AgentPermission _ _ _) = TypeAgentPermission"
| "Predicate_Type (TimeWindow _ _ _ _) = TypeTimeWindow"
| "Predicate_Type (JurisdictionCurrency _ _) = TypeJurisdictionCurrency"

text \<open>\<open>withinWindow\<close>: \<open>[start, end)\<close>, wrapping midnight when \<open>end < start\<close>, the full day
  when they are equal.\<close>

definition withinWindow :: "int \<Rightarrow> int \<Rightarrow> int \<Rightarrow> bool" where
  "withinWindow minute start end =
     (if start = end then True
      else if start < end then start \<le> minute \<and> minute < end
      else start \<le> minute \<or> minute < end)"

text \<open>Go's integer division and remainder truncate towards zero.\<close>

definition go_div :: "int \<Rightarrow> int \<Rightarrow> int" where
  "go_div a b = (if (a < 0) \<noteq> (b < 0) then - (\<bar>a\<bar> div \<bar>b\<bar>) else \<bar>a\<bar> div \<bar>b\<bar>)"

definition go_mod :: "int \<Rightarrow> int \<Rightarrow> int" where
  "go_mod a b = a - b * go_div a b"

lemma go_div_nonneg [simp]: "0 \<le> a \<Longrightarrow> 0 < b \<Longrightarrow> go_div a b = a div b"
  by (simp add: go_div_def)

lemma go_mod_nonneg [simp]: "0 \<le> a \<Longrightarrow> 0 < b \<Longrightarrow> go_mod a b = a mod b"
  by (simp add: go_mod_def minus_mult_div_eq_mod)

definition Evaluate_PerTransactionLimit :: "string \<Rightarrow> string \<Rightarrow> Input \<Rightarrow> PResult" where
  "Evaluate_PerTransactionLimit MaxRaw Currency i =
     (case parseMoney MaxRaw of
        None \<Rightarrow> \<lparr>res_Outcome = Flagged,
                 res_Reason = ''per-transaction limit is misconfigured (unparseable amount)'',
                 res_Evidence = [(''limit'', JStr MaxRaw)]\<rparr>
      | Some mx \<Rightarrow>
          if Currency \<noteq> [] \<and> Currency \<noteq> in_Currency i
          then \<lparr>res_Outcome = Flagged,
                res_Reason = ''limit is in '' @ Currency @ '' but transaction is in '' @ in_Currency i @ ''; cannot compare'',
                res_Evidence = [(''limit_currency'', JStr Currency), (''txn_currency'', JStr (in_Currency i))]\<rparr>
          else (case in_Amount i of
                  None \<Rightarrow> \<lparr>res_Outcome = Flagged,
                           res_Reason = ''transaction amount is unparseable'',
                           res_Evidence = [(''amount'', JStr (in_AmountRaw i))]\<rparr>
                | Some amount \<Rightarrow>
                    let ev = [(''amount'', JStr (in_AmountRaw i)), (''limit'', JStr MaxRaw), (''currency'', JStr (in_Currency i))]
                    in if amount > mx
                       then \<lparr>res_Outcome = Denied,
                             res_Reason = ''amount='' @ in_AmountRaw i @ '' exceeds per-transaction limit='' @ MaxRaw @ '' '' @ in_Currency i,
                             res_Evidence = ev\<rparr>
                       else \<lparr>res_Outcome = Satisfied,
                             res_Reason = ''amount='' @ in_AmountRaw i @ '' within per-transaction limit='' @ MaxRaw @ '' '' @ in_Currency i,
                             res_Evidence = ev\<rparr>))"

definition Evaluate_VendorAllowlist :: "string list \<Rightarrow> Input \<Rightarrow> PResult" where
  "Evaluate_VendorAllowlist Vendors i =
     (if tgt_Type (in_Target i) \<noteq> TargetVendor
      then \<lparr>res_Outcome = Satisfied, res_Reason = ''target is not a vendor; allowlist not applicable'',
            res_Evidence = [(''target_type'', JStr (TargetType_str (tgt_Type (in_Target i))))]\<rparr>
      else let vid = tgt_ID (in_Target i); ev = [(''vendor'', JStr vid)]
           in if contains Vendors vid
              then \<lparr>res_Outcome = Satisfied, res_Reason = ''vendor '' @ quote vid @ '' is allowlisted'', res_Evidence = ev\<rparr>
              else \<lparr>res_Outcome = Denied, res_Reason = ''vendor '' @ quote vid @ '' is not on the allowlist'', res_Evidence = ev\<rparr>)"

definition Evaluate_VendorBlocklist :: "string list \<Rightarrow> Input \<Rightarrow> PResult" where
  "Evaluate_VendorBlocklist Vendors i =
     (if tgt_Type (in_Target i) \<noteq> TargetVendor
      then \<lparr>res_Outcome = Satisfied, res_Reason = ''target is not a vendor; blocklist not applicable'',
            res_Evidence = [(''target_type'', JStr (TargetType_str (tgt_Type (in_Target i))))]\<rparr>
      else let vid = tgt_ID (in_Target i); ev = [(''vendor'', JStr vid)]
           in if contains Vendors vid
              then \<lparr>res_Outcome = Denied, res_Reason = ''vendor '' @ quote vid @ '' is blocklisted'', res_Evidence = ev\<rparr>
              else \<lparr>res_Outcome = Satisfied, res_Reason = ''vendor '' @ quote vid @ '' is not blocklisted'', res_Evidence = ev\<rparr>)"

definition Evaluate_AgentPermission :: "string list \<Rightarrow> string list \<Rightarrow> Input \<Rightarrow> PResult" where
  "Evaluate_AgentPermission AllowedActions AllowedTargets i =
     (if AllowedActions \<noteq> [] \<and> \<not> contains AllowedActions (in_Action i)
      then \<lparr>res_Outcome = Denied,
            res_Reason = ''agent '' @ quote (in_AgentID i) @ '' may not perform action '' @ quote (in_Action i),
            res_Evidence = [(''action'', JStr (in_Action i)), (''allowed_actions'', JStrs AllowedActions)]\<rparr>
      else if AllowedTargets \<noteq> [] \<and> \<not> contains AllowedTargets (tgt_ID (in_Target i))
      then \<lparr>res_Outcome = Denied,
            res_Reason = ''agent '' @ quote (in_AgentID i) @ '' may not act on target '' @ quote (tgt_ID (in_Target i)),
            res_Evidence = [(''target'', JStr (tgt_ID (in_Target i))), (''allowed_targets'', JStrs AllowedTargets)]\<rparr>
      else \<lparr>res_Outcome = Satisfied,
            res_Reason = ''agent '' @ quote (in_AgentID i) @ '' is permitted action '' @ quote (in_Action i)
                           @ '' on target '' @ quote (tgt_ID (in_Target i)),
            res_Evidence = [(''action'', JStr (in_Action i)), (''target'', JStr (tgt_ID (in_Target i)))]\<rparr>)"

definition Evaluate_TimeWindow :: "int \<Rightarrow> int \<Rightarrow> int list \<Rightarrow> Input \<Rightarrow> PResult" where
  "Evaluate_TimeWindow StartMinute EndMinute Weekdays i =
     (let t = in_EvaluatedAt i;
          minute = time_Hour t * 60 + time_Minute t;
          ev = [(''evaluated_at'', JStr (format_clock t)),
                (''window'', JStr (fmt_02d (go_div StartMinute 60) @ '':'' @ fmt_02d (go_mod StartMinute 60) @ ''-''
                                   @ fmt_02d (go_div EndMinute 60) @ '':'' @ fmt_02d (go_mod EndMinute 60))),
                (''weekday'', JStr (Weekday_String (time_Weekday t)))]
      in if Weekdays \<noteq> [] \<and> \<not> containsInt Weekdays (time_Weekday t)
         then \<lparr>res_Outcome = Denied,
               res_Reason = Weekday_String (time_Weekday t) @ '' is outside the allowed weekdays'', res_Evidence = ev\<rparr>
         else if \<not> withinWindow minute StartMinute EndMinute
         then \<lparr>res_Outcome = Denied, res_Reason = format_clock t @ '' is outside the allowed time window'', res_Evidence = ev\<rparr>
         else \<lparr>res_Outcome = Satisfied, res_Reason = format_clock t @ '' is within the allowed time window'', res_Evidence = ev\<rparr>)"

definition Evaluate_JurisdictionCurrency :: "(string \<times> string list) list \<Rightarrow> Input \<Rightarrow> PResult" where
  "Evaluate_JurisdictionCurrency Allowed i =
     (let j = in_Jurisdiction i; cur = in_Currency i;
          unconstrained = \<lparr>res_Outcome = Satisfied, res_Reason = ''jurisdiction is unconstrained'',
                           res_Evidence = [(''jurisdiction'', JStr j), (''currency'', JStr cur)]\<rparr>
      in case map_of Allowed j of
           None \<Rightarrow> unconstrained
         | Some allowed \<Rightarrow>
             if j = [] then unconstrained
             else let ev = [(''jurisdiction'', JStr j), (''currency'', JStr cur), (''allowed'', JStrs allowed)]
                  in if contains allowed cur
                     then \<lparr>res_Outcome = Satisfied, res_Reason = ''currency '' @ cur @ '' is permitted in '' @ j, res_Evidence = ev\<rparr>
                     else \<lparr>res_Outcome = Denied, res_Reason = ''currency '' @ cur @ '' is not permitted in '' @ j, res_Evidence = ev\<rparr>)"

fun Predicate_Evaluate :: "Predicate \<Rightarrow> Input \<Rightarrow> PResult" where
  "Predicate_Evaluate (PerTransactionLimit _ MaxRaw Currency) i = Evaluate_PerTransactionLimit MaxRaw Currency i"
| "Predicate_Evaluate (VendorAllowlist _ Vendors) i = Evaluate_VendorAllowlist Vendors i"
| "Predicate_Evaluate (VendorBlocklist _ Vendors) i = Evaluate_VendorBlocklist Vendors i"
| "Predicate_Evaluate (AgentPermission _ AllowedActions AllowedTargets) i = Evaluate_AgentPermission AllowedActions AllowedTargets i"
| "Predicate_Evaluate (TimeWindow _ StartMinute EndMinute Weekdays) i = Evaluate_TimeWindow StartMinute EndMinute Weekdays i"
| "Predicate_Evaluate (JurisdictionCurrency _ Allowed) i = Evaluate_JurisdictionCurrency Allowed i"

lemmas Evaluate_defs = Evaluate_PerTransactionLimit_def Evaluate_VendorAllowlist_def
  Evaluate_VendorBlocklist_def Evaluate_AgentPermission_def Evaluate_TimeWindow_def
  Evaluate_JurisdictionCurrency_def

section \<open>Constructors\<close>

definition NewPerTransactionLimit :: "string \<Rightarrow> string list \<Rightarrow> string \<Rightarrow> string \<Rightarrow> Predicate" where
  "NewPerTransactionLimit i agents maxRaw currency = PerTransactionLimit \<lparr>base_ID = i, base_Agents = agents\<rparr> maxRaw currency"

definition NewVendorAllowlist :: "string \<Rightarrow> string list \<Rightarrow> string list \<Rightarrow> Predicate" where
  "NewVendorAllowlist i agents vendors = VendorAllowlist \<lparr>base_ID = i, base_Agents = agents\<rparr> vendors"

definition NewVendorBlocklist :: "string \<Rightarrow> string list \<Rightarrow> string list \<Rightarrow> Predicate" where
  "NewVendorBlocklist i agents vendors = VendorBlocklist \<lparr>base_ID = i, base_Agents = agents\<rparr> vendors"

definition NewAgentPermission :: "string \<Rightarrow> string list \<Rightarrow> string list \<Rightarrow> string list \<Rightarrow> Predicate" where
  "NewAgentPermission i agents allowedActions allowedTargets =
     AgentPermission \<lparr>base_ID = i, base_Agents = agents\<rparr> allowedActions allowedTargets"

definition NewTimeWindow :: "string \<Rightarrow> string list \<Rightarrow> int \<Rightarrow> int \<Rightarrow> int list \<Rightarrow> Predicate" where
  "NewTimeWindow i agents startMinute endMinute weekdays =
     TimeWindow \<lparr>base_ID = i, base_Agents = agents\<rparr> startMinute endMinute weekdays"

definition NewJurisdictionCurrency :: "string \<Rightarrow> string list \<Rightarrow> (string \<times> string list) list \<Rightarrow> Predicate" where
  "NewJurisdictionCurrency i agents allowed = JurisdictionCurrency \<lparr>base_ID = i, base_Agents = agents\<rparr> allowed"

lemmas New_defs = NewPerTransactionLimit_def NewVendorAllowlist_def NewVendorBlocklist_def
  NewAgentPermission_def NewTimeWindow_def NewJurisdictionCurrency_def

section \<open>Behaviour of the predicates\<close>

lemma Evaluate_PTL_outcome:
  "res_Outcome (Evaluate_PerTransactionLimit MaxRaw Currency i) =
     (case parseMoney MaxRaw of
        None \<Rightarrow> Flagged
      | Some mx \<Rightarrow> if Currency \<noteq> [] \<and> Currency \<noteq> in_Currency i then Flagged
                    else case in_Amount i of None \<Rightarrow> Flagged
                         | Some a \<Rightarrow> if mx < a then Denied else Satisfied)"
  by (simp add: Evaluate_PerTransactionLimit_def Let_def split: option.split)

text \<open>Every rule type answers one of the three local outcomes: no local predicate is ever
  unavailable.\<close>

lemma local_outcomes:
  "res_Outcome (Predicate_Evaluate p i) \<in> {Satisfied, Denied, Flagged}"
  by (cases p) (simp_all add: Evaluate_defs Let_def split: option.split)

lemma only_limits_flag:
  "res_Outcome (Predicate_Evaluate p i) = Flagged \<Longrightarrow> Predicate_Type p = TypePerTransactionLimit"
  by (cases p) (simp_all add: Evaluate_defs Let_def split: option.splits if_splits)

lemma withinWindow_complement:
  "s \<noteq> e \<Longrightarrow> withinWindow m s e \<longleftrightarrow> \<not> withinWindow m e s"
  by (auto simp: withinWindow_def)

lemma minute_of_day_eq: "time_Hour t * 60 + time_Minute t = t div ns_minute mod 1440"
proof -
  have "t div ns_hour = t div ns_minute div 60"
    by (simp add: zdiv_zmult2_eq [symmetric])
  then have "time_Hour t = (t div ns_minute) div 60 mod 24" by (simp add: time_Hour_def)
  then show ?thesis
    using mod_mult2_eq' [of "t div ns_minute" 60 24] by (simp add: time_Minute_def algebra_simps)
qed

lemma Evaluate_TimeWindow_outcome:
  "res_Outcome (Evaluate_TimeWindow s e ds i) =
     (if (ds = [] \<or> time_Weekday (in_EvaluatedAt i) \<in> set ds)
         \<and> withinWindow (in_EvaluatedAt i div ns_minute mod 1440) s e then Satisfied else Denied)"
  by (auto simp: Evaluate_TimeWindow_def Let_def minute_of_day_eq)

section \<open>Properties\<close>

text \<open>The per-transaction limit compares exact rationals. It satisfies exactly when the
  limit and the amount parse, the currencies agree (or the rule has none) and the amount is
  at most the limit; it denies exactly when they parse, agree and the amount is greater;
  every unparseable or cross-currency comparison is routed to review, never compared.\<close>

theorem per_transaction_limit_exact:
  "let r = Predicate_Evaluate (NewPerTransactionLimit rid agents MaxRaw Currency) i;
       comparable = (Currency = [] \<or> Currency = in_Currency i)
   in (res_Outcome r = Satisfied \<longleftrightarrow>
         (\<exists>m a. parseMoney MaxRaw = Some m \<and> in_Amount i = Some a \<and> comparable \<and> a \<le> m))
    \<and> (res_Outcome r = Denied \<longleftrightarrow>
         (\<exists>m a. parseMoney MaxRaw = Some m \<and> in_Amount i = Some a \<and> comparable \<and> m < a))
    \<and> (res_Outcome r = Flagged \<longleftrightarrow>
         \<not> (\<exists>m a. parseMoney MaxRaw = Some m \<and> in_Amount i = Some a \<and> comparable))"
  by (auto simp: NewPerTransactionLimit_def Evaluate_PTL_outcome Let_def split: option.split)

text \<open>The vendor, agent and jurisdiction rules decide exactly by their lists. An
  allowlist denies a vendor target iff it is not listed and a blocklist iff it is, neither
  ever denies another target type; an agent permission denies iff the action or the target
  is outside a non-empty list; a jurisdiction rule denies iff the jurisdiction is
  constrained and the currency is not among its currencies.\<close>

theorem list_rules_exact:
  "(res_Outcome (Predicate_Evaluate (NewVendorAllowlist rid agents vs) i) = Denied \<longleftrightarrow>
      tgt_Type (in_Target i) = TargetVendor \<and> tgt_ID (in_Target i) \<notin> set vs)
 \<and> (res_Outcome (Predicate_Evaluate (NewVendorBlocklist rid agents vs) i) = Denied \<longleftrightarrow>
      tgt_Type (in_Target i) = TargetVendor \<and> tgt_ID (in_Target i) \<in> set vs)
 \<and> (res_Outcome (Predicate_Evaluate (NewAgentPermission rid agents acts tgts) i) = Denied \<longleftrightarrow>
      (acts \<noteq> [] \<and> in_Action i \<notin> set acts) \<or> (tgts \<noteq> [] \<and> tgt_ID (in_Target i) \<notin> set tgts))
 \<and> (res_Outcome (Predicate_Evaluate (NewJurisdictionCurrency rid agents allowed) i) = Denied \<longleftrightarrow>
      in_Jurisdiction i \<noteq> [] \<and>
      (\<exists>cs. map_of allowed (in_Jurisdiction i) = Some cs \<and> in_Currency i \<notin> set cs))"
proof (intro conjI)
  show "(res_Outcome (Predicate_Evaluate (NewJurisdictionCurrency rid agents allowed) i) = Denied) =
      (in_Jurisdiction i \<noteq> [] \<and>
      (\<exists>cs. map_of allowed (in_Jurisdiction i) = Some cs \<and> in_Currency i \<notin> set cs))"
    by (simp add: New_defs Evaluate_JurisdictionCurrency_def Let_def split: option.split)
qed (simp_all add: New_defs Evaluate_VendorAllowlist_def Evaluate_VendorBlocklist_def
       Evaluate_AgentPermission_def Let_def)

text \<open>A time window is evaluated on the minute of the UTC day of the injected instant,
  a window that wraps midnight included: for two different bounds, a rule without weekday
  restriction permits an instant exactly when the rule with the bounds exchanged denies it,
  and equal bounds permit the whole day.\<close>

theorem time_window_wraps:
  "let permits = (\<lambda>s e. res_Outcome (Predicate_Evaluate (NewTimeWindow rid agents s e []) i) = Satisfied);
       m = in_EvaluatedAt i div ns_minute mod 1440
   in permits s s
    \<and> (s \<noteq> e \<longrightarrow> permits s e = (\<not> permits e s))
    \<and> (s < e \<longrightarrow> permits s e = (s \<le> m \<and> m < e))"
  by (auto simp: New_defs Evaluate_TimeWindow_outcome Let_def withinWindow_def)

theorem time_window_wraps_witness:
  "let i = \<lparr>in_AgentID = ''a'', in_Action = ''pay'', in_AmountRaw = ''1'', in_Amount = Some 1,
            in_Currency = ''USD'', in_Target = \<lparr>tgt_Type = TargetVendor, tgt_ID = ''v''\<rparr>,
            in_Jurisdiction = [], in_EvaluatedAt = 23 * ns_hour, in_Context = []\<rparr>;
       permits = (\<lambda>s e. res_Outcome (Predicate_Evaluate (NewTimeWindow ''tw'' [] s e []) i) = Satisfied)
   in permits 1320 360 \<and> \<not> permits 360 1320"
proof -
  define i where "i = \<lparr>in_AgentID = ''a'', in_Action = ''pay'', in_AmountRaw = ''1'', in_Amount = Some 1,
            in_Currency = ''USD'', in_Target = \<lparr>tgt_Type = TargetVendor, tgt_ID = ''v''\<rparr>,
            in_Jurisdiction = [], in_EvaluatedAt = 23 * ns_hour, in_Context = []\<rparr>"
  show ?thesis
    using time_window_wraps [where rid = "''tw''" and agents = "[]" and i = i and s = 1320 and e = 360]
      time_window_wraps [where rid = "''tw''" and agents = "[]" and i = i and s = 360 and e = 1320]
    unfolding i_def Let_def by simp
qed

end
