(* ===== verification/Go_Base64.thy ===== *)
theory Go_Base64
  imports Go_Std
begin

text \<open>
  \<open>base64.RawURLEncoding\<close>: the encoding of signature values, public keys and encrypted
  audit fields. Decoding follows Go: carriage returns and line feeds are skipped, a
  character outside the alphabet or a dangling single character is an error, and
  trailing bits of an incomplete group are ignored. The section ends with the round trip.
\<close>

definition b64_alphabet :: string where
  "b64_alphabet = ''ABCDEFGHIJKLMNOPQRSTUVWXYZabcdefghijklmnopqrstuvwxyz0123456789-_''"

fun index_of :: "'a \<Rightarrow> 'a list \<Rightarrow> nat option" where
  "index_of x [] = None"
| "index_of x (y # ys) = (if x = y then Some 0 else map_option Suc (index_of x ys))"

definition b64_char :: "nat \<Rightarrow> char" where
  "b64_char n = b64_alphabet ! n"

definition b64_val :: "char \<Rightarrow> nat option" where
  "b64_val c = index_of c b64_alphabet"

abbreviation byte_val :: "char \<Rightarrow> nat" where "byte_val c \<equiv> of_char c"

fun b64_encode :: "string \<Rightarrow> string" where
  "b64_encode [] = []"
| "b64_encode [a] = [b64_char (byte_val a div 4), b64_char (byte_val a mod 4 * 16)]"
| "b64_encode [a, b] = [b64_char (byte_val a div 4), b64_char (byte_val a mod 4 * 16 + byte_val b div 16),
     b64_char (byte_val b mod 16 * 4)]"
| "b64_encode (a # b # c # r) =
     [b64_char (byte_val a div 4), b64_char (byte_val a mod 4 * 16 + byte_val b div 16),
      b64_char (byte_val b mod 16 * 4 + byte_val c div 64), b64_char (byte_val c mod 64)] @ b64_encode r"

fun b64_groups :: "nat list \<Rightarrow> string option" where
  "b64_groups [] = Some []"
| "b64_groups [w] = None"
| "b64_groups [w, x] = Some [char_of (w * 4 + x div 16)]"
| "b64_groups [w, x, y] = Some [char_of (w * 4 + x div 16), char_of (x mod 16 * 16 + y div 4)]"
| "b64_groups (w # x # y # z # r) =
     map_option (\<lambda>bs. [char_of (w * 4 + x div 16), char_of (x mod 16 * 16 + y div 4),
                       char_of (y mod 4 * 64 + z)] @ bs) (b64_groups r)"

fun b64_vals :: "string \<Rightarrow> nat list option" where
  "b64_vals [] = Some []"
| "b64_vals (c # cs) =
     (if byte_val c = 10 \<or> byte_val c = 13 then b64_vals cs
      else case b64_val c of None \<Rightarrow> None | Some n \<Rightarrow> map_option (\<lambda>ns. n # ns) (b64_vals cs))"

definition b64_decode :: "string \<Rightarrow> string option" where
  "b64_decode s = Option.bind (b64_vals s) b64_groups"

section \<open>Round trip\<close>

lemma index_of_nth: "distinct xs \<Longrightarrow> n < length xs \<Longrightarrow> index_of (xs ! n) xs = Some n"
  by (induction xs arbitrary: n) (auto simp: nth_Cons split: nat.split)

lemma index_of_less: "index_of x xs = Some n \<Longrightarrow> n < length xs"
  by (induction xs arbitrary: n) (auto split: if_splits)

lemma b64_alphabet_facts: "distinct b64_alphabet" "length b64_alphabet = 64"
  "list_all (\<lambda>c. byte_val c \<noteq> 10 \<and> byte_val c \<noteq> 13) b64_alphabet"
  by (simp_all add: b64_alphabet_def)

lemma b64_val_char: "n < 64 \<Longrightarrow> b64_val (b64_char n) = Some n"
  by (simp add: b64_val_def b64_char_def index_of_nth b64_alphabet_facts)

lemma b64_char_no_newline: "n < 64 \<Longrightarrow> byte_val (b64_char n) \<noteq> 10 \<and> byte_val (b64_char n) \<noteq> 13"
  using b64_alphabet_facts by (simp add: b64_char_def list_all_length)

lemma b64_vals_Cons [simp]:
  "n < 64 \<Longrightarrow> b64_vals (b64_char n # cs) = map_option (\<lambda>ns. n # ns) (b64_vals cs)"
  using b64_char_no_newline [of n] by (simp add: b64_val_char)

lemma byte_val_less: "byte_val c < 256"
  using of_char_mod_256 [where ?'a = nat, of c] mod_less_divisor [of 256 "byte_val c"] by simp

lemma sextets: "byte_val a div 4 < 64" "byte_val a mod 4 * 16 < 64"
  "byte_val a mod 4 * 16 + byte_val b div 16 < 64" "byte_val b mod 16 * 4 < 64"
  "byte_val b mod 16 * 4 + byte_val c div 64 < 64" "byte_val c mod 64 < 64"
  using byte_val_less [of a] byte_val_less [of b] byte_val_less [of c] by linarith+

lemma join_16: "y < 16 \<Longrightarrow> (x * 16 + y) div 16 = (x :: nat)" "y < 16 \<Longrightarrow> (x * 16 + y) mod 16 = (y :: nat)"
  by simp_all

lemma join_4: "y < 4 \<Longrightarrow> (x * 4 + y) div 4 = (x :: nat)" "y < 4 \<Longrightarrow> (x * 4 + y) mod 4 = (y :: nat)"
  by simp_all

lemma high_bits: "byte_val b div 16 < 16" "byte_val c div 64 < 4"
  using byte_val_less [of b] byte_val_less [of c] by linarith+

lemma regroup:
  "byte_val a div 4 * 4 + (byte_val a mod 4 * 16) div 16 = byte_val a"
  "byte_val a div 4 * 4 + (byte_val a mod 4 * 16 + byte_val b div 16) div 16 = byte_val a"
  "(byte_val a mod 4 * 16 + byte_val b div 16) mod 16 * 16 + (byte_val b mod 16 * 4) div 4 = byte_val b"
  "(byte_val a mod 4 * 16 + byte_val b div 16) mod 16 * 16
     + (byte_val b mod 16 * 4 + byte_val c div 64) div 4 = byte_val b"
  "(byte_val b mod 16 * 4 + byte_val c div 64) mod 4 * 64 + byte_val c mod 64 = byte_val c"
  by (simp_all only: join_16 join_4 high_bits nonzero_mult_div_cancel_right div_mult_mod_eq
        zero_neq_numeral not_False_eq_True rel_simps)

lemmas b64_step = b64_encode.simps append.simps b64_vals_Cons sextets b64_vals.simps(1)
  b64_groups.simps regroup option.map option.simps char_of_char

lemma b64_decode_encode [simp]: "b64_decode (b64_encode s) = Some s"
proof -
  have "\<exists>ns. b64_vals (b64_encode s) = Some ns \<and> b64_groups ns = Some s"
  proof (induction s rule: b64_encode.induct)
    case (4 a b c r)
    then obtain ns where "b64_vals (b64_encode r) = Some ns" and "b64_groups ns = Some r" by blast
    then show ?case by (simp only: b64_step ex_simps simp_thms)
  qed (simp_all only: b64_step ex_simps simp_thms)
  then show ?thesis by (auto simp: b64_decode_def)
qed

lemma b64_encode_inject [simp]: "b64_encode a = b64_encode b \<longleftrightarrow> a = b"
  using b64_decode_encode by (metis option.inject)

declare b64_alphabet_def [go_eval] and b64_char_def [go_eval] and b64_val_def [go_eval]
  and b64_decode_def [go_eval]

end
