(* ===== verification/Signing.thy ===== *)
theory Signing
  imports Contracts Go_Base64 "HOL-Library.Char_ord" "HOL-Library.List_Lexorder" "HOL-Library.Product_Lexorder"
    "HOL-Library.Countable"
begin

text \<open>
  \<open>internal/signing\<close>: the signed view of a decision, the Ed25519 signer and verifier,
  and the keyring with its JWK set. \<open>crypto/ed25519\<close>, \<open>crypto/sha256\<close> and the JSON
  canonicalizer \<open>github.com/gowebpki/jcs\<close> are parameters, the fields of \<open>crypto\<close>; what
  the code relies on of them is stated by \<open>ed25519_ok\<close> and \<open>jcs_injective\<close>. A JSON
  document is a tree: \<open>json.Marshal\<close> followed by a re-parse in \<open>jcs.Transform\<close> hands the
  canonicalizer exactly this tree (strings are valid UTF-8; objects made of Go maps have
  their keys sorted).
\<close>

section \<open>JSON trees\<close>

text \<open>\<open>JsonNum\<close> is a number written as an integer, \<open>JsonLit\<close> any other number by its text.\<close>

datatype json =
    JsonNull | JsonBool bool | JsonNum int | JsonLit string | JsonString string
  | JsonArr "json list" | JsonObj "(string \<times> json) list"

fun json_of_jval :: "jval \<Rightarrow> json" where
  "json_of_jval (JStr s) = JsonString s"
| "json_of_jval (JInt i) = JsonNum i"
| "json_of_jval (JStrs ss) = JsonArr (map JsonString ss)"

definition json_of_jmap :: "jmap \<Rightarrow> json" where
  "json_of_jmap m = JsonObj (sort_key fst (map (\<lambda>(k, v). (k, json_of_jval v)) m))"

text \<open>A struct field with \<open>omitempty\<close> is dropped when it holds the zero value.\<close>

definition omitempty :: "bool \<Rightarrow> string \<Rightarrow> json \<Rightarrow> (string \<times> json) list" where
  "omitempty isz k v = (if isz then [] else [(k, v)])"

definition json_of_MatchedRule :: "MatchedRule \<Rightarrow> json" where
  "json_of_MatchedRule m = JsonObj
     ([(''rule_id'', JsonString (mr_RuleID m)),
       (''type'', JsonString (PredicateType_str (mr_Type m))),
       (''result'', JsonString (PredicateResult_str (mr_Result m))),
       (''detail'', JsonString (mr_Detail m))]
      @ omitempty (mr_Evidence m = []) ''evidence'' (json_of_jmap (mr_Evidence m)))"

definition json_of_Explanation :: "Explanation \<Rightarrow> json" where
  "json_of_Explanation x = JsonObj
     [(''summary'', JsonString (ex_Summary x)),
      (''matched_rules'', JsonArr (map json_of_MatchedRule (ex_MatchedRules x)))]"

definition json_of_Obligation :: "Obligation \<Rightarrow> json" where
  "json_of_Obligation b = JsonObj
     ([(''type'', JsonString (ob_Type b))]
      @ omitempty (ob_Detail b = []) ''detail'' (JsonString (ob_Detail b))
      @ omitempty (ob_Params b = []) ''params'' (json_of_jmap (ob_Params b)))"

section \<open>Canonical message\<close>

record crypto =
  jcs_Transform :: "json \<Rightarrow> string option"
  ed_NewKeyFromSeed :: "string \<Rightarrow> string"
  ed_Public :: "string \<Rightarrow> string"
  ed_Sign :: "string \<Rightarrow> string \<Rightarrow> string"
  ed_Verify :: "string \<Rightarrow> string \<Rightarrow> string \<Rightarrow> bool"
  sha256_Sum :: "string \<Rightarrow> string"

definition Canonicalization :: string where "Canonicalization = ''ti-decision-canon/1''"

definition Algorithm :: string where "Algorithm = ''Ed25519''"

record signedView =
  sv_DecisionID :: string
  sv_Verdict :: VerdictC
  sv_PolicyVersionHash :: string
  sv_Explanation :: Explanation
  sv_Obligations :: "Obligation list"
  sv_EvaluatedAt :: string
  sv_Shadow :: bool

definition signed_view :: "Decision \<Rightarrow> signedView" where
  "signed_view d =
     \<lparr>sv_DecisionID = dec_DecisionID d, sv_Verdict = dec_Verdict d,
      sv_PolicyVersionHash = dec_PolicyVersionHash d, sv_Explanation = dec_Explanation d,
      sv_Obligations = dec_Obligations d, sv_EvaluatedAt = dec_EvaluatedAt d,
      sv_Shadow = dec_Shadow d\<rparr>"

definition json_of_signedView :: "signedView \<Rightarrow> json" where
  "json_of_signedView v = JsonObj
     [(''decision_id'', JsonString (sv_DecisionID v)),
      (''verdict'', JsonString (Verdict_str (sv_Verdict v))),
      (''policy_version_hash'', JsonString (sv_PolicyVersionHash v)),
      (''explanation'', json_of_Explanation (sv_Explanation v)),
      (''obligations'', JsonArr (map json_of_Obligation (sv_Obligations v))),
      (''evaluated_at'', JsonString (sv_EvaluatedAt v)),
      (''shadow'', JsonBool (sv_Shadow v))]"

datatype sign_error =
    ErrCanonicalize
  | ErrUnsupportedAlgorithm string
  | ErrUnsupportedCanonicalization string
  | ErrDecodeSignature
  | ErrBadPublicKeySize nat
  | ErrInvalidSignature
  | ErrUnknownKeyID string
  | ErrSeedSize nat
  | ErrKeyIDPresent string
  | ErrNoActiveKey
  | ErrNotEd25519JWK string string
  | ErrDecodeJWK

definition CanonicalMessage :: "crypto \<Rightarrow> Decision \<Rightarrow> sign_error + string" where
  "CanonicalMessage c d =
     (case jcs_Transform c (json_of_signedView (signed_view d)) of
        None \<Rightarrow> Inl ErrCanonicalize
      | Some canon \<Rightarrow> Inr canon)"

section \<open>Signer and verifier\<close>

record Signer =
  sgn_keyID :: string
  sgn_priv :: string

definition Signer_Sign :: "crypto \<Rightarrow> Signer \<Rightarrow> Decision \<Rightarrow> sign_error + Decision" where
  "Signer_Sign c s d =
     (case CanonicalMessage c d of
        Inl err \<Rightarrow> Inl err
      | Inr msg \<Rightarrow>
          Inr (d\<lparr>dec_Signature :=
                 \<lparr>sig_Algorithm = Algorithm, sig_KeyID = sgn_keyID s,
                  sig_Value = b64_encode (ed_Sign c (sgn_priv s) msg),
                  sig_Canonicalization = Canonicalization\<rparr>\<rparr>))"

definition SignDetached :: "crypto \<Rightarrow> Signer \<Rightarrow> string \<Rightarrow> string \<Rightarrow> Signature" where
  "SignDetached c s canonicalization msg =
     \<lparr>sig_Algorithm = Algorithm, sig_KeyID = sgn_keyID s,
      sig_Value = b64_encode (ed_Sign c (sgn_priv s) msg),
      sig_Canonicalization = canonicalization\<rparr>"

abbreviation PublicKeySize :: nat where "PublicKeySize \<equiv> 32"
abbreviation SeedSize :: nat where "SeedSize \<equiv> 32"

text \<open>A Go function returning only an error: \<open>None\<close> is nil.\<close>

definition VerifyDetached :: "crypto \<Rightarrow> string \<Rightarrow> string \<Rightarrow> Signature \<Rightarrow> sign_error option" where
  "VerifyDetached c pub msg sig =
     (if sig_Algorithm sig \<noteq> Algorithm then Some (ErrUnsupportedAlgorithm (sig_Algorithm sig))
      else case b64_decode (sig_Value sig) of
             None \<Rightarrow> Some ErrDecodeSignature
           | Some raw \<Rightarrow>
               if length pub \<noteq> PublicKeySize then Some (ErrBadPublicKeySize (length pub))
               else if \<not> ed_Verify c pub msg raw then Some ErrInvalidSignature
               else None)"

definition Verify :: "crypto \<Rightarrow> Decision \<Rightarrow> string \<Rightarrow> sign_error option" where
  "Verify c d pub =
     (if sig_Algorithm (dec_Signature d) \<noteq> Algorithm
      then Some (ErrUnsupportedAlgorithm (sig_Algorithm (dec_Signature d)))
      else if sig_Canonicalization (dec_Signature d) \<noteq> Canonicalization
      then Some (ErrUnsupportedCanonicalization (sig_Canonicalization (dec_Signature d)))
      else case b64_decode (sig_Value (dec_Signature d)) of
             None \<Rightarrow> Some ErrDecodeSignature
           | Some sig \<Rightarrow>
               if length pub \<noteq> PublicKeySize then Some (ErrBadPublicKeySize (length pub))
               else case CanonicalMessage c d of
                      Inl err \<Rightarrow> Some err
                    | Inr msg \<Rightarrow> if \<not> ed_Verify c pub msg sig then Some ErrInvalidSignature else None)"

section \<open>Keyring\<close>

definition StatusActive :: string where "StatusActive = ''active''"
definition StatusRetiring :: string where "StatusRetiring = ''retiring''"

record keyEntry =
  ke_id :: string
  ke_pub :: string
  ke_priv :: "string option"
  ke_status :: string

record Keyring =
  kr_active :: string
  kr_keys :: "(string \<times> keyEntry) list"

definition NewKeyring :: Keyring where
  "NewKeyring = \<lparr>kr_active = [], kr_keys = []\<rparr>"

definition install_active :: "Keyring \<Rightarrow> string \<Rightarrow> string \<Rightarrow> string \<Rightarrow> Keyring" where
  "install_active k i pub priv =
     k\<lparr>kr_keys := alist_put i \<lparr>ke_id = i, ke_pub = pub, ke_priv = Some priv, ke_status = StatusActive\<rparr> (kr_keys k),
       kr_active := i\<rparr>"

definition SetActive :: "crypto \<Rightarrow> Keyring \<Rightarrow> string \<Rightarrow> string \<Rightarrow> sign_error + Keyring" where
  "SetActive c k i seed =
     (if length seed \<noteq> SeedSize then Inl (ErrSeedSize (length seed))
      else let priv = ed_NewKeyFromSeed c seed in Inr (install_active k i (ed_Public c priv) priv))"

definition AddRetiring :: "Keyring \<Rightarrow> string \<Rightarrow> string \<Rightarrow> sign_error + Keyring" where
  "AddRetiring k i pub =
     (if length pub \<noteq> PublicKeySize then Inl (ErrBadPublicKeySize (length pub))
      else if map_of (kr_keys k) i \<noteq> None then Inl (ErrKeyIDPresent i)
      else Inr (k\<lparr>kr_keys := alist_put i \<lparr>ke_id = i, ke_pub = pub, ke_priv = None, ke_status = StatusRetiring\<rparr>
                              (kr_keys k)\<rparr>))"

definition deriveKeyID :: "crypto \<Rightarrow> string \<Rightarrow> string" where
  "deriveKeyID c pub = ''azn-sign-'' @ take 12 (b64_encode (sha256_Sum c pub))"

text \<open>\<open>GenerateActive\<close>: the key pair drawn from \<open>crypto/rand\<close> is an argument.\<close>

definition GenerateActive :: "crypto \<Rightarrow> string \<Rightarrow> string \<Rightarrow> Keyring \<Rightarrow> string \<times> Keyring" where
  "GenerateActive c pub priv k =
     (let i = deriveKeyID c pub in (i, install_active k i pub priv))"

definition Keyring_Signer :: "Keyring \<Rightarrow> sign_error + Signer" where
  "Keyring_Signer k =
     (case map_of (kr_keys k) (kr_active k) of
        None \<Rightarrow> Inl ErrNoActiveKey
      | Some e \<Rightarrow> (case ke_priv e of
                     None \<Rightarrow> Inl ErrNoActiveKey
                   | Some priv \<Rightarrow> Inr \<lparr>sgn_keyID = ke_id e, sgn_priv = priv\<rparr>))"

definition PublicKey :: "Keyring \<Rightarrow> string \<Rightarrow> string option" where
  "PublicKey k i = map_option ke_pub (map_of (kr_keys k) i)"

definition VerifyDecision :: "crypto \<Rightarrow> Keyring \<Rightarrow> Decision \<Rightarrow> sign_error option" where
  "VerifyDecision c k d =
     (case PublicKey k (sig_KeyID (dec_Signature d)) of
        None \<Rightarrow> Some (ErrUnknownKeyID (sig_KeyID (dec_Signature d)))
      | Some pub \<Rightarrow> Verify c d pub)"

definition Keyring_VerifyDetached :: "crypto \<Rightarrow> Keyring \<Rightarrow> string \<Rightarrow> Signature \<Rightarrow> sign_error option" where
  "Keyring_VerifyDetached c k msg sig =
     (case PublicKey k (sig_KeyID sig) of
        None \<Rightarrow> Some (ErrUnknownKeyID (sig_KeyID sig))
      | Some pub \<Rightarrow> VerifyDetached c pub msg sig)"

section \<open>JWK set\<close>

record JWK =
  jwk_Kty :: string
  jwk_Crv :: string
  jwk_Kid :: string
  jwk_X :: string
  jwk_Use :: string
  jwk_Status :: string

definition JWK_of :: "keyEntry \<Rightarrow> JWK" where
  "JWK_of e = \<lparr>jwk_Kty = ''OKP'', jwk_Crv = ''Ed25519'', jwk_Kid = ke_id e,
     jwk_X = b64_encode (ke_pub e), jwk_Use = ''sig'', jwk_Status = ke_status e\<rparr>"

text \<open>The map's keys are sorted active first, then by id; Go compares strings bytewise.\<close>

definition JWKS :: "Keyring \<Rightarrow> JWK list" where
  "JWKS k = map (\<lambda>(i, e). JWK_of e)
              (sort_key (\<lambda>(i, e). (ke_status e \<noteq> StatusActive, i)) (kr_keys k))"

definition PublicKeyFromJWK :: "JWK \<Rightarrow> sign_error + string" where
  "PublicKeyFromJWK j =
     (if jwk_Kty j \<noteq> ''OKP'' \<or> jwk_Crv j \<noteq> ''Ed25519'' then Inl (ErrNotEd25519JWK (jwk_Kty j) (jwk_Crv j))
      else case b64_decode (jwk_X j) of
             None \<Rightarrow> Inl ErrDecodeJWK
           | Some raw \<Rightarrow> if length raw \<noteq> PublicKeySize then Inl (ErrBadPublicKeySize (length raw)) else Inr raw)"

section \<open>What the code relies on\<close>

text \<open>Documented behaviour of \<open>crypto/ed25519\<close>: a public key has 32 bytes and verifies the
  signatures of its private key.\<close>

definition ed25519_pair :: "crypto \<Rightarrow> string \<Rightarrow> string \<Rightarrow> bool" where
  "ed25519_pair c pub priv \<longleftrightarrow>
     length pub = PublicKeySize \<and> (\<forall>m. ed_Verify c pub m (ed_Sign c priv m))"

definition ed25519_ok :: "crypto \<Rightarrow> bool" where
  "ed25519_ok c \<longleftrightarrow>
     (\<forall>seed. length seed = SeedSize \<longrightarrow>
        ed25519_pair c (ed_Public c (ed_NewKeyFromSeed c seed)) (ed_NewKeyFromSeed c seed))"

text \<open>RFC 8785: the canonical text determines the document. Stated on paths: a scalar that
  one document has at a path, every document with the same canonical text has there. The
  RFC promises it for I-JSON documents; on integers beyond 2^53, which the library reads as
  doubles, it is an idealisation.\<close>

datatype jstep = Key string | Idx nat

fun json_at :: "jstep list \<Rightarrow> json \<Rightarrow> json option" where
  "json_at [] j = Some j"
| "json_at (Key k # p) (JsonObj kvs) = Option.bind (map_of kvs k) (json_at p)"
| "json_at (Idx n # p) (JsonArr js) = (if n < length js then json_at p (js ! n) else None)"
| "json_at _ _ = None"

fun is_scalar :: "json \<Rightarrow> bool" where
  "is_scalar (JsonArr _) = False"
| "is_scalar (JsonObj _) = False"
| "is_scalar _ = True"

definition jcs_faithful :: "crypto \<Rightarrow> bool" where
  "jcs_faithful c \<longleftrightarrow>
     (\<forall>a b t p x. jcs_Transform c a = Some t \<longrightarrow> jcs_Transform c b = Some t \<longrightarrow>
        json_at p a = Some x \<longrightarrow> is_scalar x \<longrightarrow> json_at p b = Some x)"

section \<open>Signatures verify\<close>

lemma CanonicalMessage_cong: "signed_view d = signed_view d' \<Longrightarrow> CanonicalMessage c d = CanonicalMessage c d'"
  by (simp add: CanonicalMessage_def)

lemma Signer_Sign_Inr:
  "Signer_Sign c s d = Inr d' \<longleftrightarrow>
     (\<exists>msg. CanonicalMessage c d = Inr msg \<and>
        d' = d\<lparr>dec_Signature := SignDetached c s Canonicalization msg\<rparr>)"
  by (auto simp: Signer_Sign_def SignDetached_def split: sum.splits)

lemma signed_view_simps [simp]:
  "signed_view (d\<lparr>dec_Signature := x\<rparr>) = signed_view d"
  "signed_view (d\<lparr>dec_LatencyMs := l\<rparr>) = signed_view d"
  "signed_view (d\<lparr>dec_RecordHash := h\<rparr>) = signed_view d"
  "signed_view (d\<lparr>dec_SignatureVerified := v\<rparr>) = signed_view d"
  by (simp_all add: signed_view_def)

lemma signed_view_fields:
  "sv_DecisionID (signed_view d) = dec_DecisionID d" "sv_Verdict (signed_view d) = dec_Verdict d"
  "sv_PolicyVersionHash (signed_view d) = dec_PolicyVersionHash d"
  "sv_Explanation (signed_view d) = dec_Explanation d" "sv_Obligations (signed_view d) = dec_Obligations d"
  "sv_EvaluatedAt (signed_view d) = dec_EvaluatedAt d" "sv_Shadow (signed_view d) = dec_Shadow d"
  by (simp_all add: signed_view_def)

lemma VerifyDetached_SignDetached:
  "ed25519_pair c pub (sgn_priv s) \<Longrightarrow> VerifyDetached c pub msg (SignDetached c s can msg) = None"
  by (simp add: VerifyDetached_def SignDetached_def ed25519_pair_def)

text \<open>A decision that agrees with a signed one on the signed fields and the signature
  verifies.\<close>

lemma Verify_Signed:
  assumes "ed25519_pair c pub (sgn_priv s)" and "Signer_Sign c s d = Inr d'"
    and "signed_view x = signed_view d'" and "dec_Signature x = dec_Signature d'"
  shows "Verify c x pub = None"
proof -
  from assms(2) obtain msg where msg: "CanonicalMessage c d = Inr msg"
    and d': "d' = d\<lparr>dec_Signature := SignDetached c s Canonicalization msg\<rparr>"
    by (auto simp: Signer_Sign_Inr)
  have "CanonicalMessage c x = Inr msg"
    using msg assms(3) d' CanonicalMessage_cong [of x d c] by simp
  then show ?thesis
    using assms(1,4) d' by (simp add: Verify_def SignDetached_def ed25519_pair_def)
qed

section \<open>Keyring invariant\<close>

definition keyring_ok :: "crypto \<Rightarrow> Keyring \<Rightarrow> bool" where
  "keyring_ok c k \<longleftrightarrow>
     distinct (map fst (kr_keys k)) \<and>
     (\<forall>i e. map_of (kr_keys k) i = Some e \<longrightarrow>
        ke_id e = i \<and> length (ke_pub e) = PublicKeySize \<and>
        (\<forall>priv. ke_priv e = Some priv \<longrightarrow> ed25519_pair c (ke_pub e) priv))"

text \<open>The keyrings the operations can build.\<close>

inductive keyring_reach :: "crypto \<Rightarrow> Keyring \<Rightarrow> bool" for c where
  new: "keyring_reach c NewKeyring"
| set_active: "keyring_reach c k \<Longrightarrow> SetActive c k i seed = Inr k' \<Longrightarrow> keyring_reach c k'"
| add_retiring: "keyring_reach c k \<Longrightarrow> AddRetiring k i pub = Inr k' \<Longrightarrow> keyring_reach c k'"
| generate: "keyring_reach c k \<Longrightarrow> ed25519_pair c pub priv \<Longrightarrow>
    GenerateActive c pub priv k = (i, k') \<Longrightarrow> keyring_reach c k'"

lemma install_active_ok:
  "keyring_ok c k \<Longrightarrow> ed25519_pair c pub priv \<Longrightarrow> keyring_ok c (install_active k i pub priv)"
  by (auto simp: keyring_ok_def install_active_def ed25519_pair_def)

lemma AddRetiring_ok: "keyring_ok c k \<Longrightarrow> AddRetiring k i pub = Inr k' \<Longrightarrow> keyring_ok c k'"
  by (auto simp: keyring_ok_def AddRetiring_def split: if_splits)

lemma keyring_reach_ok:
  assumes "ed25519_ok c" and "keyring_reach c k"
  shows "keyring_ok c k"
  using assms(2)
proof induction
  case new
  show ?case by (simp add: keyring_ok_def NewKeyring_def)
next
  case (set_active k i seed k')
  then show ?case
    using assms(1) by (auto simp: SetActive_def Let_def ed25519_ok_def intro!: install_active_ok split: if_splits)
qed (auto simp: GenerateActive_def Let_def intro: install_active_ok AddRetiring_ok)

lemma Keyring_Signer_pair:
  assumes "keyring_ok c k" and "Keyring_Signer k = Inr s"
  obtains pub where "PublicKey k (sgn_keyID s) = Some pub" and "ed25519_pair c pub (sgn_priv s)"
proof -
  from assms(2) obtain e priv where "map_of (kr_keys k) (kr_active k) = Some e"
    and "ke_priv e = Some priv" and "s = \<lparr>sgn_keyID = ke_id e, sgn_priv = priv\<rparr>"
    by (auto simp: Keyring_Signer_def split: option.splits)
  with assms(1) show ?thesis by (intro that [of "ke_pub e"]) (auto simp: keyring_ok_def PublicKey_def)
qed

text \<open>No operation changes the public key published under another id; a retiring key never
  replaces one.\<close>

lemma PublicKey_install: "j \<noteq> i \<Longrightarrow> PublicKey (install_active k i pub priv) j = PublicKey k j"
  by (simp add: PublicKey_def install_active_def)

lemma PublicKey_AddRetiring:
  "AddRetiring k i pub = Inr k' \<Longrightarrow> PublicKey k j = Some p \<Longrightarrow> PublicKey k' j = Some p"
  by (auto simp: AddRetiring_def PublicKey_def split: if_splits)

lemma JWKS_entry:
  assumes "keyring_ok c k" and "PublicKey k i = Some pub"
  shows "\<exists>j\<in>set (JWKS k). jwk_Kid j = i \<and> PublicKeyFromJWK j = Inr pub"
proof -
  from assms(2) obtain e where e: "map_of (kr_keys k) i = Some e" "ke_pub e = pub"
    by (auto simp: PublicKey_def)
  then have "(i, e) \<in> set (kr_keys k)" by (simp add: map_of_SomeD)
  then have "JWK_of e \<in> set (JWKS k)" by (force simp: JWKS_def)
  moreover have "jwk_Kid (JWK_of e) = i \<and> PublicKeyFromJWK (JWK_of e) = Inr pub"
    using assms(1) e by (auto simp: keyring_ok_def JWK_of_def PublicKeyFromJWK_def)
  ultimately show ?thesis by blast
qed

lemma JWKS_ids:
  assumes "keyring_ok c k"
  shows "mset (map jwk_Kid (JWKS k)) = mset (map fst (kr_keys k))"
proof -
  have eq: "jwk_Kid (JWK_of (snd p)) = fst p" if "p \<in> set (kr_keys k)" for p
    using assms that by (cases p) (auto simp: keyring_ok_def JWK_of_def)
  have "mset (map jwk_Kid (JWKS k)) = image_mset (\<lambda>p. jwk_Kid (JWK_of (snd p))) (mset (kr_keys k))"
    by (simp add: JWKS_def case_prod_unfold multiset.map_comp comp_def mset_map mset_sort)
  also have "\<dots> = image_mset fst (mset (kr_keys k))"
    by (rule image_mset_cong) (simp add: eq)
  finally show ?thesis by (simp add: mset_map)
qed

section \<open>The canonical message determines the signed fields\<close>

lemma map_of_filter_key: "map_of (filter (\<lambda>p. fst p = k) xs) k = map_of xs k"
  by (induction xs) auto

lemma map_of_sort_key_fst: "map_of (sort_key fst xs) k = map_of xs k"
proof -
  have "filter (\<lambda>p. fst p = k) (sort_key fst xs) = filter (\<lambda>p. fst p = k) xs"
    by (rule sort_key_stable)
  then show ?thesis by (metis map_of_filter_key)
qed

lemma map_of_map_snd: "map_of (map (\<lambda>(k, v). (k, f v)) xs) k = map_option f (map_of xs k)"
  by (induction xs) auto

lemma json_at_jmap:
  "json_at (Key k # p) (json_of_jmap m) = Option.bind (map_of m k) (\<lambda>v. json_at p (json_of_jval v))"
  by (cases "map_of m k") (simp_all add: json_of_jmap_def map_of_sort_key_fst map_of_map_snd)

text \<open>Where the signed fields sit in the document.\<close>

lemma json_at_view:
  "json_at [Key ''decision_id''] (json_of_signedView v) = Some (JsonString (sv_DecisionID v))"
  "json_at [Key ''verdict''] (json_of_signedView v) = Some (JsonString (Verdict_str (sv_Verdict v)))"
  "json_at [Key ''policy_version_hash''] (json_of_signedView v) = Some (JsonString (sv_PolicyVersionHash v))"
  "json_at [Key ''evaluated_at''] (json_of_signedView v) = Some (JsonString (sv_EvaluatedAt v))"
  "json_at [Key ''shadow''] (json_of_signedView v) = Some (JsonBool (sv_Shadow v))"
  "json_at [Key ''explanation'', Key ''summary''] (json_of_signedView v) = Some (JsonString (ex_Summary (sv_Explanation v)))"
  "json_at (Key ''explanation'' # Key ''matched_rules'' # Idx n # p) (json_of_signedView v) =
     (let ms = ex_MatchedRules (sv_Explanation v)
      in if n < length ms then json_at p (json_of_MatchedRule (ms ! n)) else None)"
  "json_at (Key ''obligations'' # Idx n # p) (json_of_signedView v) =
     (let os = sv_Obligations v in if n < length os then json_at p (json_of_Obligation (os ! n)) else None)"
  by (simp_all add: json_of_signedView_def json_of_Explanation_def)

lemma json_at_rule:
  "json_at [Key ''rule_id''] (json_of_MatchedRule m) = Some (JsonString (mr_RuleID m))"
  "json_at [Key ''type''] (json_of_MatchedRule m) = Some (JsonString (PredicateType_str (mr_Type m)))"
  "json_at [Key ''result''] (json_of_MatchedRule m) = Some (JsonString (PredicateResult_str (mr_Result m)))"
  "json_at [Key ''detail''] (json_of_MatchedRule m) = Some (JsonString (mr_Detail m))"
  by (simp_all add: json_of_MatchedRule_def)

lemma json_at_obligation:
  "json_at [Key ''type''] (json_of_Obligation b) = Some (JsonString (ob_Type b))"
  "json_at [Key ''params'', Key k] (json_of_Obligation b) = map_option json_of_jval (map_of (ob_Params b) k)"
  by (cases "map_of (ob_Params b) k"; force simp: json_of_Obligation_def omitempty_def json_at_jmap)+

lemma list_eq_by_paths:
  assumes "\<And>n. n < length xs \<Longrightarrow> n < length ys \<and> f (xs ! n) = f (ys ! n)"
    and "\<And>n. n < length ys \<Longrightarrow> n < length xs"
  shows "map f xs = map f ys"
proof (rule nth_equalityI)
  have "\<not> length xs < length ys" using assms(2) by blast
  moreover have "\<not> length ys < length xs" using assms(1) by blast
  ultimately show "length (map f xs) = length (map f ys)" by simp
qed (simp add: assms(1))

definition same_scalars :: "json \<Rightarrow> json \<Rightarrow> bool" where
  "same_scalars a b \<longleftrightarrow> (\<forall>p x. is_scalar x \<longrightarrow> json_at p a = Some x \<longleftrightarrow> json_at p b = Some x)"

lemma same_message_scalars:
  assumes "jcs_faithful c" and "CanonicalMessage c d = Inr msg" and "CanonicalMessage c d' = Inr msg"
  shows "same_scalars (json_of_signedView (signed_view d)) (json_of_signedView (signed_view d'))"
proof -
  have "jcs_Transform c (json_of_signedView (signed_view d)) = Some msg"
    and "jcs_Transform c (json_of_signedView (signed_view d')) = Some msg"
    using assms(2,3) by (simp_all add: CanonicalMessage_def split: option.splits)
  then show ?thesis using assms(1) unfolding jcs_faithful_def same_scalars_def by blast
qed

lemma same_scalars_String:
  "same_scalars a b \<Longrightarrow> json_at p a = Some (JsonString s) \<Longrightarrow> json_at p b = Some (JsonString s)"
  by (simp add: same_scalars_def)

lemma same_scalars_rules:
  assumes "same_scalars (json_of_signedView v) (json_of_signedView v')"
  shows "map (\<lambda>m. (mr_RuleID m, mr_Type m, mr_Result m, mr_Detail m)) (ex_MatchedRules (sv_Explanation v))
       = map (\<lambda>m. (mr_RuleID m, mr_Type m, mr_Result m, mr_Detail m)) (ex_MatchedRules (sv_Explanation v'))"
proof (rule list_eq_by_paths)
  let ?P = "\<lambda>n k. Key ''explanation'' # Key ''matched_rules'' # Idx n # [Key k]"
  have eq: "json_at (?P n k) (json_of_signedView v) = Some (JsonString s)
      \<longleftrightarrow> json_at (?P n k) (json_of_signedView v') = Some (JsonString s)" for n k s
    using assms by (simp add: same_scalars_def)
  note at = json_at_view(7) json_at_rule Let_def
  show "n < length (ex_MatchedRules (sv_Explanation v')) \<and>
      (mr_RuleID (ex_MatchedRules (sv_Explanation v) ! n), mr_Type (ex_MatchedRules (sv_Explanation v) ! n),
       mr_Result (ex_MatchedRules (sv_Explanation v) ! n), mr_Detail (ex_MatchedRules (sv_Explanation v) ! n))
    = (mr_RuleID (ex_MatchedRules (sv_Explanation v') ! n), mr_Type (ex_MatchedRules (sv_Explanation v') ! n),
       mr_Result (ex_MatchedRules (sv_Explanation v') ! n), mr_Detail (ex_MatchedRules (sv_Explanation v') ! n))"
    if "n < length (ex_MatchedRules (sv_Explanation v))" for n
    using that eq [of n "''rule_id''" "mr_RuleID (ex_MatchedRules (sv_Explanation v) ! n)"]
      eq [of n "''type''" "PredicateType_str (mr_Type (ex_MatchedRules (sv_Explanation v) ! n))"]
      eq [of n "''result''" "PredicateResult_str (mr_Result (ex_MatchedRules (sv_Explanation v) ! n))"]
      eq [of n "''detail''" "mr_Detail (ex_MatchedRules (sv_Explanation v) ! n)"]
    by (simp add: at split: if_splits)
  show "n < length (ex_MatchedRules (sv_Explanation v))"
    if "n < length (ex_MatchedRules (sv_Explanation v'))" for n
    using that eq [of n "''rule_id''" "mr_RuleID (ex_MatchedRules (sv_Explanation v') ! n)"]
    by (simp add: at split: if_splits)
qed

lemma json_of_jval_String: "json_of_jval v = JsonString s \<longleftrightarrow> v = JStr s"
  by (cases v) auto

lemma same_scalars_obligations:
  assumes "same_scalars (json_of_signedView v) (json_of_signedView v')"
    and "n < length (sv_Obligations v)"
  shows "n < length (sv_Obligations v') \<and>
     ob_Type (sv_Obligations v ! n) = ob_Type (sv_Obligations v' ! n) \<and>
     (map_of (ob_Params (sv_Obligations v ! n)) k = Some (JStr s) \<longleftrightarrow>
      map_of (ob_Params (sv_Obligations v' ! n)) k = Some (JStr s))"
proof -
  have eq: "json_at (Key ''obligations'' # Idx n # p) (json_of_signedView v) = Some (JsonString s)
      \<longleftrightarrow> json_at (Key ''obligations'' # Idx n # p) (json_of_signedView v') = Some (JsonString s)" for p s
    using assms(1) by (simp add: same_scalars_def)
  have "n < length (sv_Obligations v') \<and> ob_Type (sv_Obligations v ! n) = ob_Type (sv_Obligations v' ! n)"
    using eq [of "[Key ''type'']" "ob_Type (sv_Obligations v ! n)"] assms(2)
    by (simp add: json_at_view(8) json_at_obligation Let_def split: if_splits)
  with eq [of "[Key ''params'', Key k]" s] assms(2) show ?thesis
    by (simp add: json_at_view(8) json_at_obligation Let_def json_of_jval_String)
qed

section \<open>Rotation\<close>

text \<open>A sequence of keyring operations that never reuses the key id \<open>i\<close>, the rule of the
  canonicalization document.\<close>

inductive rotation :: "crypto \<Rightarrow> string \<Rightarrow> Keyring \<Rightarrow> Keyring \<Rightarrow> bool" for c i where
  start: "rotation c i k k"
| set_active: "rotation c i k k1 \<Longrightarrow> SetActive c k1 j seed = Inr k2 \<Longrightarrow> j \<noteq> i \<Longrightarrow> rotation c i k k2"
| add_retiring: "rotation c i k k1 \<Longrightarrow> AddRetiring k1 j pub = Inr k2 \<Longrightarrow> rotation c i k k2"
| generate: "rotation c i k k1 \<Longrightarrow> GenerateActive c pub priv k1 = (j, k2) \<Longrightarrow> j \<noteq> i \<Longrightarrow> rotation c i k k2"

lemma rotation_PublicKey:
  "rotation c i k k' \<Longrightarrow> PublicKey k i = Some p \<Longrightarrow> PublicKey k' i = Some p"
  by (induction rule: rotation.induct)
     (auto simp: SetActive_def GenerateActive_def Let_def PublicKey_install
        intro: PublicKey_AddRetiring split: if_splits)

lemma sign_then_verify:
  assumes "keyring_ok c k" and "Keyring_Signer k = Inr s" and "Signer_Sign c s d = Inr d'"
    and "signed_view x = signed_view d'" and "dec_Signature x = dec_Signature d'"
  obtains pub where "PublicKey k (sig_KeyID (dec_Signature x)) = Some pub" and "Verify c x pub = None"
proof -
  from assms(1,2) obtain pub where pub: "PublicKey k (sgn_keyID s) = Some pub" "ed25519_pair c pub (sgn_priv s)"
    by (rule Keyring_Signer_pair)
  have "sig_KeyID (dec_Signature x) = sgn_keyID s"
    using assms(3,5) by (auto simp: Signer_Sign_Inr SignDetached_def)
  with pub Verify_Signed [OF pub(2) assms(3-5)] show ?thesis by (intro that) auto
qed

section \<open>A concrete instance of the parameters\<close>

text \<open>Used by the witnesses only: an injective text for every document and a pair of
  functions that satisfy the documented laws.\<close>

instance json :: countable
  by countable_datatype

definition demo_crypto :: crypto where
  "demo_crypto = \<lparr>jcs_Transform = (\<lambda>j. Some (nat_str (to_nat j))),
     ed_NewKeyFromSeed = (\<lambda>seed. seed), ed_Public = (\<lambda>priv. priv),
     ed_Sign = (\<lambda>priv m. priv @ m), ed_Verify = (\<lambda>pub m s. s = pub @ m), sha256_Sum = (\<lambda>x. x)\<rparr>"

lemma nat_str_inject: "nat_str a = nat_str b \<longleftrightarrow> a = b"
  by (metis digits_val_nat_str)

lemma demo_crypto_laws: "ed25519_ok demo_crypto" "jcs_faithful demo_crypto"
  by (auto simp: demo_crypto_def ed25519_ok_def ed25519_pair_def jcs_faithful_def nat_str_inject)

lemma demo_message:
  "CanonicalMessage demo_crypto d = Inr (nat_str (to_nat (json_of_signedView (signed_view d))))"
  by (simp add: CanonicalMessage_def demo_crypto_def)

definition demo_decision :: Decision where
  "demo_decision = \<lparr>dec_DecisionID = ''01ARZ3NDEKTSV4RRFFQ69G5FAV'', dec_Verdict = VerdictApprove,
     dec_PolicyVersionHash = ''sha256:00'', dec_Explanation = \<lparr>ex_Summary = ''ok'', ex_MatchedRules = []\<rparr>,
     dec_Obligations = [], dec_LatencyMs = 0, dec_EvaluatedAt = ''2026-01-01T00:00:00Z'',
     dec_Signature = \<lparr>sig_Algorithm = [], sig_KeyID = [], sig_Value = [], sig_Canonicalization = []\<rparr>,
     dec_Shadow = False, dec_RecordHash = [], dec_SignatureVerified = None\<rparr>"

definition demo_seed :: string where "demo_seed = replicate 32 CHR ''s''"

definition demo_keyring :: Keyring where
  "demo_keyring = install_active NewKeyring ''key-1'' demo_seed demo_seed"

definition demo_signer :: Signer where
  "demo_signer = \<lparr>sgn_keyID = ''key-1'', sgn_priv = demo_seed\<rparr>"

definition demo_signed :: Decision where
  "demo_signed = demo_decision\<lparr>dec_Signature := SignDetached demo_crypto demo_signer Canonicalization
     (nat_str (to_nat (json_of_signedView (signed_view demo_decision))))\<rparr>"

lemma demo_facts:
  "SetActive demo_crypto NewKeyring ''key-1'' demo_seed = Inr demo_keyring"
  "keyring_reach demo_crypto demo_keyring"
  "Keyring_Signer demo_keyring = Inr demo_signer"
  "Signer_Sign demo_crypto demo_signer demo_decision = Inr demo_signed"
proof -
  show 1: "SetActive demo_crypto NewKeyring ''key-1'' demo_seed = Inr demo_keyring"
    by (simp add: SetActive_def demo_seed_def demo_keyring_def demo_crypto_def Let_def)
  show "keyring_reach demo_crypto demo_keyring"
    by (rule keyring_reach.set_active [OF keyring_reach.new 1])
  show "Keyring_Signer demo_keyring = Inr demo_signer"
    by (simp add: Keyring_Signer_def demo_keyring_def install_active_def NewKeyring_def demo_signer_def)
  show "Signer_Sign demo_crypto demo_signer demo_decision = Inr demo_signed"
    by (simp add: Signer_Sign_Inr CanonicalMessage_def demo_crypto_def demo_signed_def)
qed

section \<open>Properties\<close>

text \<open>A decision signed by the active signer of any reachable keyring verifies for a
  third party that knows only the published JWK set, whatever happens to the fields outside
  the signed view (latency, record hash, verification flag); the service-side
  \<open>VerifyDecision\<close> accepts it too.\<close>

theorem third_party_verification:
  assumes "ed25519_ok c" and "keyring_reach c k" and "Keyring_Signer k = Inr s"
    and "Signer_Sign c s d = Inr d'"
  shows "let x = d'\<lparr>dec_LatencyMs := l, dec_RecordHash := h, dec_SignatureVerified := v\<rparr> in
      VerifyDecision c k x = None \<and>
      (\<exists>j\<in>set (JWKS k). jwk_Kid j = sig_KeyID (dec_Signature x) \<and>
         (\<exists>pub. PublicKeyFromJWK j = Inr pub \<and> Verify c x pub = None))"
proof -
  define x where "x = d'\<lparr>dec_LatencyMs := l, dec_RecordHash := h, dec_SignatureVerified := v\<rparr>"
  have ok: "keyring_ok c k" using assms(1,2) by (rule keyring_reach_ok)
  have "signed_view x = signed_view d'" and "dec_Signature x = dec_Signature d'"
    by (simp_all add: x_def signed_view_def)
  from sign_then_verify [OF ok assms(3,4) this]
  obtain pub where pub: "PublicKey k (sig_KeyID (dec_Signature x)) = Some pub" "Verify c x pub = None" .
  then have "VerifyDecision c k x = None" by (simp add: VerifyDecision_def)
  with JWKS_entry [OF ok pub(1)] pub(2) show ?thesis unfolding x_def [symmetric] Let_def by blast
qed

theorem third_party_verification_witness:
  "let x = demo_signed\<lparr>dec_LatencyMs := 7, dec_RecordHash := ''h'', dec_SignatureVerified := Some True\<rparr> in
      VerifyDecision demo_crypto demo_keyring x = None \<and>
      (\<exists>j\<in>set (JWKS demo_keyring). jwk_Kid j = sig_KeyID (dec_Signature x) \<and>
         (\<exists>pub. PublicKeyFromJWK j = Inr pub \<and> Verify demo_crypto x pub = None))"
  by (rule third_party_verification [OF demo_crypto_laws(1) demo_facts(2,3,4)])

text \<open>Key rotation keeps old receipts verifiable: after any sequence of keyring
  operations that never reuses the signing key's id, a decision signed before still
  verifies; and the JWK set keeps publishing every key exactly once.\<close>

theorem rotation_keeps_receipts:
  assumes "ed25519_ok c" and "keyring_reach c k" and "Keyring_Signer k = Inr s"
    and "Signer_Sign c s d = Inr d'" and "rotation c (sgn_keyID s) k k'" and "keyring_reach c k'"
  shows "VerifyDecision c k' d' = None \<and> distinct (map jwk_Kid (JWKS k'))"
proof -
  have ok: "keyring_ok c k" and ok': "keyring_ok c k'"
    using assms(1,2,6) by (auto intro: keyring_reach_ok)
  have kid: "sig_KeyID (dec_Signature d') = sgn_keyID s"
    using assms(4) by (auto simp: Signer_Sign_Inr SignDetached_def)
  obtain pub where pub: "PublicKey k (sgn_keyID s) = Some pub" "Verify c d' pub = None"
    using sign_then_verify [OF ok assms(3,4) refl refl] kid by auto
  then have "VerifyDecision c k' d' = None"
    using rotation_PublicKey [OF assms(5) pub(1)] kid by (simp add: VerifyDecision_def)
  moreover have "distinct (map jwk_Kid (JWKS k'))"
    using mset_eq_imp_distinct_iff [OF JWKS_ids [OF ok']] ok' by (simp add: keyring_ok_def)
  ultimately show ?thesis ..
qed

theorem rotation_keeps_receipts_witness:
  "VerifyDecision demo_crypto (install_active demo_keyring ''key-2'' demo_seed demo_seed) demo_signed = None"
proof -
  let ?k = "install_active demo_keyring ''key-2'' demo_seed demo_seed"
  have set: "SetActive demo_crypto demo_keyring ''key-2'' demo_seed = Inr ?k"
    by (simp add: SetActive_def demo_seed_def demo_crypto_def Let_def)
  have rot: "rotation demo_crypto (sgn_keyID demo_signer) demo_keyring ?k"
    by (rule rotation.set_active [OF rotation.start set]) (simp add: demo_signer_def)
  have reach: "keyring_reach demo_crypto ?k"
    by (rule keyring_reach.set_active [OF demo_facts(2) set])
  show ?thesis
    using rotation_keeps_receipts [OF demo_crypto_laws(1) demo_facts(2,3,4) rot reach] by blast
qed



end
