(* ===== verification/Engine.thy ===== *)
theory Engine
  imports Predicates Signing
begin

text \<open>
  \<open>internal/engine/engine.go\<close> and \<open>authorize.go\<close>: policies with their budget
  declarations, the local evaluation, the two-phase budget reservation, the assembled
  decision with its explanation and obligation, and the whole \<open>Authorize\<close> operation. The
  state behind the \<open>BundleProvider\<close> and \<open>BudgetReserver\<close> interfaces is a world of type
  \<open>'w\<close> that \<open>Authorize\<close> threads through the calls; the values drawn from the clock and
  from \<open>ulid.New\<close> are arguments.
\<close>

section \<open>Policies and budgets\<close>

record BudgetDecl =
  bd_ID :: string
  bd_Agents :: "string list"
  bd_Window :: string
  bd_Limit :: string
  bd_Currency :: string

record Policy =
  pol_Version :: string
  pol_Predicates :: "Predicate list"
  pol_Budgets :: "BudgetDecl list"

definition BudgetDecl_appliesTo :: "BudgetDecl \<Rightarrow> string \<Rightarrow> bool" where
  "BudgetDecl_appliesTo b agentID = (if bd_Agents b = [] then True else contains (bd_Agents b) agentID)"

fun first_budget :: "BudgetDecl list \<Rightarrow> string \<Rightarrow> BudgetDecl option" where
  "first_budget [] agentID = None"
| "first_budget (b # bs) agentID = (if BudgetDecl_appliesTo b agentID then Some b else first_budget bs agentID)"

definition applicableBudget :: "Policy \<Rightarrow> string \<Rightarrow> BudgetDecl option" where
  "applicableBudget p agentID = first_budget (pol_Budgets p) agentID"

datatype BudgetOutcome = BudgetWithinLimit | BudgetExceeded | BudgetUnavailable

record BudgetResult =
  br_Outcome :: BudgetOutcome
  br_SpendToDate :: string
  br_Limit :: string
  br_WindowKey :: string

section \<open>The engine\<close>

datatype engine_error =
    ErrNoActiveBundle
  | ErrProvider string
  | ErrSign sign_error

type_synonym 'w bundle_provider = "string \<Rightarrow> 'w \<Rightarrow> (engine_error + Policy) \<times> 'w"
type_synonym 'w budget_reserver =
  "string \<Rightarrow> string \<Rightarrow> AuthorizeRequest \<Rightarrow> BudgetDecl \<Rightarrow> 'w \<Rightarrow> BudgetResult \<times> 'w"

record 'w Engine =
  eng_Policy :: Policy
  eng_SigningKeyID :: string
  eng_Signer :: "Signer option"
  eng_Provider :: "'w bundle_provider option"
  eng_HoldTTL :: duration
  eng_Reserver :: "'w budget_reserver option"

definition DefaultHoldTTL :: duration where
  "DefaultHoldTTL = 15 * ns_minute"

definition NewEngine :: "Policy \<Rightarrow> string \<Rightarrow> 'w Engine" where
  "NewEngine policy signingKeyID =
     \<lparr>eng_Policy = policy, eng_SigningKeyID = signingKeyID, eng_Signer = None, eng_Provider = None,
      eng_HoldTTL = 0, eng_Reserver = None\<rparr>"

definition WithSigner :: "'w Engine \<Rightarrow> Signer \<Rightarrow> 'w Engine" where
  "WithSigner e s = e\<lparr>eng_Signer := Some s\<rparr>"

definition WithProvider :: "'w Engine \<Rightarrow> 'w bundle_provider \<Rightarrow> 'w Engine" where
  "WithProvider e p = e\<lparr>eng_Provider := Some p\<rparr>"

definition WithHoldTTL :: "'w Engine \<Rightarrow> duration \<Rightarrow> 'w Engine" where
  "WithHoldTTL e ttl = e\<lparr>eng_HoldTTL := ttl\<rparr>"

definition WithReserver :: "'w Engine \<Rightarrow> 'w budget_reserver \<Rightarrow> 'w Engine" where
  "WithReserver e r = e\<lparr>eng_Reserver := Some r\<rparr>"

definition holdTTL :: "'w Engine \<Rightarrow> duration" where
  "holdTTL e = (if eng_HoldTTL e > 0 then eng_HoldTTL e else DefaultHoldTTL)"

section \<open>Local evaluation\<close>

fun toContractResult :: "Outcome \<Rightarrow> PredicateResultC" where
  "toContractResult Satisfied = ResultSatisfied"
| "toContractResult Denied = ResultDenied"
| "toContractResult Flagged = ResultReview"
| "toContractResult Unavailable = ResultUnavailable"
| "toContractResult (OutcomeOther _) = ResultReview"

fun toContractVerdict :: "Verdict \<Rightarrow> VerdictC" where
  "toContractVerdict Approve = VerdictApprove"
| "toContractVerdict Deny = VerdictDeny"
| "toContractVerdict Review = VerdictReview"

definition buildInput :: "AuthorizeRequest \<Rightarrow> string \<Rightarrow> Input" where
  "buildInput req evaluatedAt =
     \<lparr>in_AgentID = req_AgentID req, in_Action = req_Action req, in_AmountRaw = req_Amount req,
      in_Amount = parseMoney (req_Amount req), in_Currency = req_Currency req, in_Target = req_Target req,
      in_Jurisdiction = req_Jurisdiction req,
      in_EvaluatedAt = (case parse_RFC3339 evaluatedAt of Some t \<Rightarrow> t | None \<Rightarrow> 0),
      in_Context = req_Context req\<rparr>"

fun evalLocal_loop :: "Predicate list \<Rightarrow> Input \<Rightarrow> PredicateResult list \<Rightarrow> MatchedRule list
    \<Rightarrow> PredicateResult list \<times> MatchedRule list" where
  "evalLocal_loop [] i results matched = (results, matched)"
| "evalLocal_loop (p # ps) i results matched =
     (if \<not> AppliesTo p (in_AgentID i) then evalLocal_loop ps i results matched
      else evalLocal_loop ps i
             (results @ [\<lparr>pr_RuleID = RuleID p, pr_Enriched = False,
                          pr_Outcome = res_Outcome (Predicate_Evaluate p i), pr_FailMode = FailModeUnset\<rparr>])
             (matched @ [\<lparr>mr_RuleID = RuleID p, mr_Type = Predicate_Type p,
                          mr_Result = toContractResult (res_Outcome (Predicate_Evaluate p i)),
                          mr_Detail = res_Reason (Predicate_Evaluate p i),
                          mr_Evidence = res_Evidence (Predicate_Evaluate p i)\<rparr>]))"

definition evalLocal :: "Policy \<Rightarrow> Input \<Rightarrow> PredicateResult list \<times> MatchedRule list" where
  "evalLocal pol i = evalLocal_loop (pol_Predicates pol) i [] []"

section \<open>Explanation and assembly\<close>

fun firstWithResult :: "MatchedRule list \<Rightarrow> PredicateResultC \<Rightarrow> MatchedRule option" where
  "firstWithResult [] want = None"
| "firstWithResult (m # ms) want = (if mr_Result m = want then Some m else firstWithResult ms want)"

definition summarize :: "Verdict \<Rightarrow> MatchedRule list \<Rightarrow> string" where
  "summarize v matched =
     (case v of
        Deny \<Rightarrow>
          if matched = [] then ''No applicable policy rule granted authority; denied by default.''
          else (case firstWithResult matched ResultDenied of
                  Some r \<Rightarrow> ''Denied by rule '' @ quote (mr_RuleID r) @ '': '' @ mr_Detail r
                | None \<Rightarrow>
                    (case firstWithResult matched ResultUnavailable of
                       Some r \<Rightarrow> ''Denied: rule '' @ quote (mr_RuleID r) @ '' could not complete and is fail-closed.''
                     | None \<Rightarrow> ''Denied.''))
      | Review \<Rightarrow>
          (case firstWithResult matched ResultReview of
             Some r \<Rightarrow> ''Flagged for review by rule '' @ quote (mr_RuleID r) @ '': '' @ mr_Detail r
           | None \<Rightarrow>
               (case firstWithResult matched ResultUnavailable of
                  Some r \<Rightarrow> ''Flagged for review: rule '' @ quote (mr_RuleID r) @ '' could not complete.''
                | None \<Rightarrow> ''Flagged for review.''))
      | Approve \<Rightarrow> ''Approved: all '' @ FormatInt (int (length matched)) @ '' applicable rule(s) satisfied.'')"

definition assembleExplanation :: "Verdict \<Rightarrow> MatchedRule list \<Rightarrow> Explanation" where
  "assembleExplanation v matched = \<lparr>ex_Summary = summarize v matched, ex_MatchedRules = matched\<rparr>"

definition assembleDecision :: "string \<Rightarrow> Verdict \<Rightarrow> string \<Rightarrow> MatchedRule list \<Rightarrow> string \<Rightarrow> Decision" where
  "assembleDecision i verdict version matched evaluatedAt =
     \<lparr>dec_DecisionID = i, dec_Verdict = toContractVerdict verdict, dec_PolicyVersionHash = version,
      dec_Explanation = assembleExplanation verdict matched, dec_Obligations = [], dec_LatencyMs = 0,
      dec_EvaluatedAt = evaluatedAt,
      dec_Signature = \<lparr>sig_Algorithm = [], sig_KeyID = [], sig_Value = [], sig_Canonicalization = []\<rparr>,
      dec_Shadow = False, dec_RecordHash = [], dec_SignatureVerified = None\<rparr>"

text \<open>\<open>Evaluate\<close>: the pure core the simulator uses; \<open>decID\<close> is the fresh id.\<close>

definition Evaluate :: "string \<Rightarrow> Policy \<Rightarrow> AuthorizeRequest \<Rightarrow> string \<Rightarrow> Decision" where
  "Evaluate decID pol req evaluatedAt =
     (let (results, matched) = evalLocal pol (buildInput req evaluatedAt)
      in assembleDecision decID (Combine results) (pol_Version pol) matched evaluatedAt)"

section \<open>Budget rows and obligation\<close>

definition budgetPredicateResult :: "BudgetDecl \<Rightarrow> BudgetResult \<Rightarrow> PredicateResult" where
  "budgetPredicateResult b res =
     (case br_Outcome res of
        BudgetWithinLimit \<Rightarrow> \<lparr>pr_RuleID = bd_ID b, pr_Enriched = True, pr_Outcome = Satisfied, pr_FailMode = FailModeUnset\<rparr>
      | BudgetExceeded \<Rightarrow> \<lparr>pr_RuleID = bd_ID b, pr_Enriched = True, pr_Outcome = Denied, pr_FailMode = FailModeUnset\<rparr>
      | BudgetUnavailable \<Rightarrow> \<lparr>pr_RuleID = bd_ID b, pr_Enriched = True, pr_Outcome = Unavailable, pr_FailMode = FailClosedReview\<rparr>)"

definition budgetMatchedRule :: "BudgetDecl \<Rightarrow> AuthorizeRequest \<Rightarrow> BudgetResult \<Rightarrow> MatchedRule" where
  "budgetMatchedRule b req res =
     (let ev = [(''budget_id'', JStr (bd_ID b)), (''window'', JStr (bd_Window b)),
                (''amount'', JStr (req_Amount req)), (''currency'', JStr (req_Currency req))]
               @ (if br_WindowKey res \<noteq> [] then [(''window_key'', JStr (br_WindowKey res))] else [])
               @ (if br_SpendToDate res \<noteq> [] then [(''spend_to_date'', JStr (br_SpendToDate res))] else [])
               @ (if br_Limit res \<noteq> [] then [(''limit'', JStr (br_Limit res))] else []);
          numbers = (\<lambda>cmp. ''spend_to_date='' @ br_SpendToDate res @ '' + amount='' @ req_Amount req @ cmp
                       @ br_Limit res @ '' '' @ req_Currency req @ '' (window='' @ br_WindowKey res @ '')'');
          (result, detail) =
            (case br_Outcome res of
               BudgetWithinLimit \<Rightarrow> (ResultSatisfied, numbers '' <= limit='')
             | BudgetExceeded \<Rightarrow> (ResultDenied, numbers '' > limit='')
             | BudgetUnavailable \<Rightarrow>
                 (ResultUnavailable, ''budget '' @ quote (bd_ID b) @ '' counter unavailable; fail-closed to REVIEW''))
      in \<lparr>mr_RuleID = bd_ID b, mr_Type = TypeRollingBudget, mr_Result = result, mr_Detail = detail, mr_Evidence = ev\<rparr>)"

text \<open>\<open>int(ttl.Seconds())\<close> truncates; the float64 that carries it is exact to the
  nanosecond for every lifetime below 2^23 seconds.\<close>

definition captureWithinObligation ::
  "'w Engine \<Rightarrow> gotime \<Rightarrow> BudgetDecl \<Rightarrow> AuthorizeRequest \<Rightarrow> string \<Rightarrow> string \<Rightarrow> Obligation" where
  "captureWithinObligation e now b req evaluatedAt decisionID =
     (let ttl = holdTTL e;
          bs = (case parse_RFC3339 evaluatedAt of Some t \<Rightarrow> t | None \<Rightarrow> now)
      in \<lparr>ob_Type = ObligationCaptureWithin,
          ob_Detail = ''Budget '' @ quote (bd_ID b) @ '' hold placed for '' @ req_Amount req @ '' '' @ req_Currency req
            @ ''; capture on payment success or void on failure within '' @ Duration_String ttl
            @ '' (else it auto-expires).'',
          ob_Params =
            [(''budget_id'', JStr (bd_ID b)), (''window'', JStr (bd_Window b)), (''amount'', JStr (req_Amount req)),
             (''currency'', JStr (req_Currency req)), (''ttl_seconds'', JInt (ttl div ns_second)),
             (''expires_at'', JStr (format_RFC3339 (bs + ttl))), (''hold_ref'', JStr decisionID)]\<rparr>)"

section \<open>Authorize\<close>

definition signatureCanonicalization :: string where
  "signatureCanonicalization = ''ti-decision-canon/1''"

definition stubSignatureValue :: string where
  "stubSignatureValue = ''c3R1Yi1kZWNpc2lvbi1zaWduYXR1cmUtbm90LXlldC1yZWFs''"

definition stubSignature :: "string \<Rightarrow> Signature" where
  "stubSignature kid = \<lparr>sig_Algorithm = ''Ed25519'', sig_KeyID = kid, sig_Value = stubSignatureValue,
     sig_Canonicalization = signatureCanonicalization\<rparr>"

text \<open>Signing with the configured signer, or keeping the placeholder.\<close>

definition sign_decision :: "crypto \<Rightarrow> Signer option \<Rightarrow> Decision \<Rightarrow> engine_error + Decision" where
  "sign_decision c signer dec =
     (case signer of
        None \<Rightarrow> Inr dec
      | Some s \<Rightarrow> (case Signer_Sign c s dec of Inl err \<Rightarrow> Inl (ErrSign err) | Inr d \<Rightarrow> Inr d))"

text \<open>Policy resolution: the first switch of \<open>Authorize\<close>.\<close>

definition resolve_policy :: "'w Engine \<Rightarrow> string \<Rightarrow> 'w \<Rightarrow> (engine_error + Policy) \<times> 'w" where
  "resolve_policy e orgID w =
     (case eng_Provider e of
        None \<Rightarrow> (Inr (eng_Policy e), w)
      | Some active \<Rightarrow>
          (case active orgID w of
             (Inr resolved, w') \<Rightarrow> (Inr resolved, w')
           | (Inl err, w') \<Rightarrow>
               if err = ErrNoActiveBundle \<and> pol_Predicates (eng_Policy e) \<noteq> [] then (Inr (eng_Policy e), w')
               else (Inl err, w')))"

text \<open>The budget phase: results and matched rules with the budget row, and the budget whose
  hold the decision must declare.\<close>

definition budget_phase ::
  "'w Engine \<Rightarrow> Policy \<Rightarrow> string \<Rightarrow> string \<Rightarrow> AuthorizeRequest \<Rightarrow> bool \<Rightarrow>
   PredicateResult list \<Rightarrow> MatchedRule list \<Rightarrow> 'w \<Rightarrow>
   (PredicateResult list \<times> MatchedRule list \<times> BudgetDecl option) \<times> 'w" where
  "budget_phase e pol orgID decID req shadow results matched w =
     (if \<not> shadow \<and> Combine results = Approve then
        (case applicableBudget pol (req_AgentID req) of
           None \<Rightarrow> ((results, matched, None), w)
         | Some b \<Rightarrow>
             (case eng_Reserver e of
                Some reserve \<Rightarrow>
                  (case reserve orgID decID req b w of (res, w') \<Rightarrow>
                     ((results @ [budgetPredicateResult b res], matched @ [budgetMatchedRule b req res],
                       if br_Outcome res = BudgetWithinLimit then Some b else None), w'))
              | None \<Rightarrow> ((results, matched, Some b), w)))
      else ((results, matched, None), w))"

text \<open>\<open>start\<close> is \<open>time.Now()\<close> at entry, \<open>now\<close> the clock read inside the obligation,
  \<open>elapsed\<close> is \<open>time.Since(start)\<close> at the end, \<open>decID\<close> the fresh ULID.\<close>

definition Authorize ::
  "crypto \<Rightarrow> gotime \<Rightarrow> gotime \<Rightarrow> duration \<Rightarrow> string \<Rightarrow> 'w Engine \<Rightarrow> string \<Rightarrow> AuthorizeRequest \<Rightarrow> bool \<Rightarrow> 'w
   \<Rightarrow> (engine_error + Decision) \<times> 'w" where
  "Authorize c start now elapsed decID e orgID req shadow w =
     (case resolve_policy e orgID w of
        (Inl err, w1) \<Rightarrow> (Inl err, w1)
      | (Inr pol, w1) \<Rightarrow>
          let evaluatedAt = (if req_EvaluatedAt req = [] then format_RFC3339 start else req_EvaluatedAt req);
              (results0, matched0) = evalLocal pol (buildInput req evaluatedAt);
              ((results, matched, held), w2) = budget_phase e pol orgID decID req shadow results0 matched0 w1;
              dec = (assembleDecision decID (Combine results) (pol_Version pol) matched evaluatedAt)
                      \<lparr>dec_Shadow := shadow,
                       dec_Obligations := (case held of
                           None \<Rightarrow> []
                         | Some b \<Rightarrow> [captureWithinObligation e now b req evaluatedAt decID]),
                       dec_Signature := stubSignature (eng_SigningKeyID e)\<rparr>
          in (case sign_decision c (eng_Signer e) dec of
                Inl err \<Rightarrow> (Inl err, w2)
              | Inr d \<Rightarrow> (Inr (d\<lparr>dec_LatencyMs := elapsed div 1000000\<rparr>), w2)))"

section \<open>The stub authorizer\<close>

record Stub =
  stub_PolicyVersionHash :: string
  stub_SigningKeyID :: string
  stub_Signer :: "Signer option"

definition Stub_Authorize ::
  "crypto \<Rightarrow> gotime \<Rightarrow> duration \<Rightarrow> string \<Rightarrow> Stub \<Rightarrow> AuthorizeRequest \<Rightarrow> bool \<Rightarrow> engine_error + Decision" where
  "Stub_Authorize c start elapsed decID s req shadow =
     (let evaluatedAt = (if req_EvaluatedAt req = [] then format_RFC3339 start else req_EvaluatedAt req);
          dec = \<lparr>dec_DecisionID = decID, dec_Verdict = VerdictApprove,
                 dec_PolicyVersionHash = stub_PolicyVersionHash s,
                 dec_Explanation = \<lparr>ex_Summary = ''Stub authorizer: APPROVE (no policy evaluated).'', ex_MatchedRules = []\<rparr>,
                 dec_Obligations = [], dec_LatencyMs = 0, dec_EvaluatedAt = evaluatedAt,
                 dec_Signature = stubSignature (stub_SigningKeyID s), dec_Shadow = shadow,
                 dec_RecordHash = [], dec_SignatureVerified = None\<rparr>
      in (case sign_decision c (stub_Signer s) dec of
            Inl err \<Rightarrow> Inl err
          | Inr d \<Rightarrow> Inr (d\<lparr>dec_LatencyMs := elapsed div 1000000\<rparr>)))"

section \<open>Local evaluation, lemmas\<close>

definition applicable :: "Policy \<Rightarrow> string \<Rightarrow> Predicate list" where
  "applicable pol agentID = filter (\<lambda>p. AppliesTo p agentID) (pol_Predicates pol)"

definition local_result :: "Input \<Rightarrow> Predicate \<Rightarrow> PredicateResult" where
  "local_result i p = \<lparr>pr_RuleID = RuleID p, pr_Enriched = False,
     pr_Outcome = res_Outcome (Predicate_Evaluate p i), pr_FailMode = FailModeUnset\<rparr>"

definition local_rule :: "Input \<Rightarrow> Predicate \<Rightarrow> MatchedRule" where
  "local_rule i p = \<lparr>mr_RuleID = RuleID p, mr_Type = Predicate_Type p,
     mr_Result = toContractResult (res_Outcome (Predicate_Evaluate p i)),
     mr_Detail = res_Reason (Predicate_Evaluate p i), mr_Evidence = res_Evidence (Predicate_Evaluate p i)\<rparr>"

lemma evalLocal_loop_eq:
  "evalLocal_loop ps i rs ms =
     (rs @ map (local_result i) (filter (\<lambda>p. AppliesTo p (in_AgentID i)) ps),
      ms @ map (local_rule i) (filter (\<lambda>p. AppliesTo p (in_AgentID i)) ps))"
  by (induction ps arbitrary: rs ms) (simp_all add: local_result_def local_rule_def)

lemma evalLocal_eq:
  "evalLocal pol i =
     (map (local_result i) (applicable pol (in_AgentID i)), map (local_rule i) (applicable pol (in_AgentID i)))"
  by (simp add: evalLocal_def evalLocal_loop_eq applicable_def)

lemma effective_local [simp]:
  "effectiveOutcome (local_result i p) = res_Outcome (Predicate_Evaluate p i)"
  using local_outcomes [of p i] by (auto simp: effectiveOutcome_def local_result_def)

text \<open>The verdict of the local rules.\<close>

definition local_verdict :: "Policy \<Rightarrow> Input \<Rightarrow> Verdict" where
  "local_verdict pol i = Combine (map (local_result i) (applicable pol (in_AgentID i)))"

lemma local_verdict_Approve:
  "local_verdict pol i = Approve \<longleftrightarrow>
     applicable pol (in_AgentID i) \<noteq> [] \<and>
     (\<forall>p\<in>set (applicable pol (in_AgentID i)). res_Outcome (Predicate_Evaluate p i) = Satisfied)"
proof -
  have "x \<noteq> Denied \<and> x \<noteq> Flagged \<longleftrightarrow> x = Satisfied" if "x \<in> {Satisfied, Denied, Flagged}" for x
    using that by auto
  then show ?thesis using local_outcomes by (simp add: local_verdict_def Combine_Approve_iff)
qed

lemma local_verdict_Deny:
  "local_verdict pol i = Deny \<longleftrightarrow>
     applicable pol (in_AgentID i) = [] \<or>
     (\<exists>p\<in>set (applicable pol (in_AgentID i)). res_Outcome (Predicate_Evaluate p i) = Denied)"
  by (simp add: local_verdict_def Combine_Deny_iff)

lemma local_verdict_Review:
  "local_verdict pol i = Review \<longleftrightarrow>
     (\<exists>p\<in>set (applicable pol (in_AgentID i)). res_Outcome (Predicate_Evaluate p i) = Flagged) \<and>
     (\<forall>p\<in>set (applicable pol (in_AgentID i)). res_Outcome (Predicate_Evaluate p i) \<noteq> Denied)"
  by (simp add: local_verdict_def Combine_Review_iff)

lemma toContractVerdict_inject [simp]: "toContractVerdict a = toContractVerdict b \<longleftrightarrow> a = b"
  by (cases a; cases b) simp_all

lemma toContractVerdict_Approve [simp]:
  "toContractVerdict a = VerdictApprove \<longleftrightarrow> a = Approve"
  "toContractVerdict a = VerdictDeny \<longleftrightarrow> a = Deny"
  "toContractVerdict a = VerdictReview \<longleftrightarrow> a = Review"
  by (cases a; simp)+

lemma toContractResult_iffs [simp]:
  "toContractResult a = ResultDenied \<longleftrightarrow> a = Denied"
  "toContractResult a = ResultSatisfied \<longleftrightarrow> a = Satisfied"
  "toContractResult a = ResultUnavailable \<longleftrightarrow> a = Unavailable"
  by (cases a; simp)+

section \<open>The budget phase, lemmas\<close>

lemma effective_budget:
  "effectiveOutcome (budgetPredicateResult b res) =
     (case br_Outcome res of BudgetWithinLimit \<Rightarrow> Satisfied | BudgetExceeded \<Rightarrow> Denied | BudgetUnavailable \<Rightarrow> Flagged)"
  by (cases "br_Outcome res") (simp_all add: budgetPredicateResult_def effectiveOutcome_def)

definition budget_verdict :: "BudgetOutcome \<Rightarrow> Verdict" where
  "budget_verdict x = (case x of BudgetWithinLimit \<Rightarrow> Approve | BudgetExceeded \<Rightarrow> Deny | BudgetUnavailable \<Rightarrow> Review)"

lemma Combine_budget:
  "Combine rs = Approve \<Longrightarrow> Combine (rs @ [budgetPredicateResult b res]) = budget_verdict (br_Outcome res)"
  by (cases "br_Outcome res") (simp_all add: Combine_snoc_Approve effective_budget budget_verdict_def)

lemma budget_phase_skip:
  "shadow \<or> Combine results \<noteq> Approve \<Longrightarrow>
   budget_phase e pol orgID decID req shadow results matched w = ((results, matched, None), w)"
  by (auto simp: budget_phase_def)

lemma first_budget_applies: "first_budget bs a = Some b \<Longrightarrow> b \<in> set bs \<and> BudgetDecl_appliesTo b a"
  by (induction bs) (auto split: if_splits)

lemma budgetMatchedRule_Result:
  "mr_Result (budgetMatchedRule b req res) =
     (case br_Outcome res of BudgetWithinLimit \<Rightarrow> ResultSatisfied | BudgetExceeded \<Rightarrow> ResultDenied
                           | BudgetUnavailable \<Rightarrow> ResultUnavailable)"
  "mr_RuleID (budgetMatchedRule b req res) = bd_ID b"
  "mr_Type (budgetMatchedRule b req res) = TypeRollingBudget"
  by (cases "br_Outcome res"; simp add: budgetMatchedRule_def Let_def)+

section \<open>What Authorize returns\<close>

text \<open>A returned decision in terms of the phases: everything but signature and latency is
  the assembled decision.\<close>

lemma sign_decision_view:
  "sign_decision c signer dec = Inr d \<Longrightarrow> \<exists>sig. d = dec\<lparr>dec_Signature := sig\<rparr>"
proof (cases signer)
  case None
  moreover assume "sign_decision c signer dec = Inr d"
  ultimately have "d = dec\<lparr>dec_Signature := dec_Signature dec\<rparr>" by (simp add: sign_decision_def)
  then show ?thesis ..
qed (auto simp: sign_decision_def Signer_Sign_Inr split: sum.splits)

lemma Authorize_Inr:
  assumes "Authorize c start now elapsed decID e orgID req shadow w = (Inr d, w')"
  obtains pol w1 results matched held i where
    "resolve_policy e orgID w = (Inr pol, w1)"
    "i = buildInput req (dec_EvaluatedAt d)"
    "budget_phase e pol orgID decID req shadow (map (local_result i) (applicable pol (req_AgentID req)))
       (map (local_rule i) (applicable pol (req_AgentID req))) w1 = ((results, matched, held), w')"
    "dec_DecisionID d = decID" "dec_Verdict d = toContractVerdict (Combine results)"
    "dec_PolicyVersionHash d = pol_Version pol"
    "dec_Explanation d = assembleExplanation (Combine results) matched"
    "dec_Obligations d = (case held of None \<Rightarrow> []
       | Some b \<Rightarrow> [captureWithinObligation e now b req (dec_EvaluatedAt d) decID])"
    "dec_Shadow d = shadow"
    "dec_EvaluatedAt d = (if req_EvaluatedAt req = [] then format_RFC3339 start else req_EvaluatedAt req)"
proof -
  define ea where "ea = (if req_EvaluatedAt req = [] then format_RFC3339 start else req_EvaluatedAt req)"
  obtain pol w1 where pol: "resolve_policy e orgID w = (Inr pol, w1)"
    using assms by (auto simp: Authorize_def split: sum.splits prod.splits)
  obtain results matched held w2 where bp:
    "budget_phase e pol orgID decID req shadow (fst (evalLocal pol (buildInput req ea)))
       (snd (evalLocal pol (buildInput req ea))) w1 = ((results, matched, held), w2)"
    by (metis prod.collapse)
  have agent: "in_AgentID (buildInput req ea) = req_AgentID req" by (simp add: buildInput_def)
  let ?dec = "(assembleDecision decID (Combine results) (pol_Version pol) matched ea)
     \<lparr>dec_Shadow := shadow,
      dec_Obligations := (case held of None \<Rightarrow> [] | Some b \<Rightarrow> [captureWithinObligation e now b req ea decID]),
      dec_Signature := stubSignature (eng_SigningKeyID e)\<rparr>"
  from assms obtain d0 where d0: "sign_decision c (eng_Signer e) ?dec = Inr d0"
    and d: "d = d0\<lparr>dec_LatencyMs := elapsed div 1000000\<rparr>" "w' = w2"
    unfolding Authorize_def ea_def [symmetric] using bp
    by (auto simp: pol Let_def case_prod_unfold split: sum.splits)
  obtain sig where "d0 = ?dec\<lparr>dec_Signature := sig\<rparr>" using sign_decision_view [OF d0] by blast
  then have fields: "dec_EvaluatedAt d = ea" "dec_DecisionID d = decID"
    "dec_Verdict d = toContractVerdict (Combine results)" "dec_PolicyVersionHash d = pol_Version pol"
    "dec_Explanation d = assembleExplanation (Combine results) matched" "dec_Shadow d = shadow"
    "dec_Obligations d = (case held of None \<Rightarrow> [] | Some b \<Rightarrow> [captureWithinObligation e now b req ea decID])"
    by (simp_all add: d assembleDecision_def)
  have "budget_phase e pol orgID decID req shadow (map (local_result (buildInput req ea)) (applicable pol (req_AgentID req)))
      (map (local_rule (buildInput req ea)) (applicable pol (req_AgentID req))) w1 = ((results, matched, held), w')"
    using bp d by (simp add: evalLocal_eq agent)
  from that [OF pol refl, unfolded fields, OF this] show ?thesis by (simp add: fields ea_def)
qed

text \<open>The local verdict is what \<open>Combine\<close> sees before the budget phase.\<close>

lemma budget_phase_cases:
  assumes "budget_phase e pol orgID decID req shadow rs ms w = ((results, matched, held), w')"
  obtains (skip) "shadow \<or> Combine rs \<noteq> Approve" "results = rs" "matched = ms" "held = None" "w' = w"
  | (no_budget) "\<not> shadow" "Combine rs = Approve" "applicableBudget pol (req_AgentID req) = None"
      "results = rs" "matched = ms" "held = None" "w' = w"
  | (declared) b where "\<not> shadow" "Combine rs = Approve" "applicableBudget pol (req_AgentID req) = Some b"
      "eng_Reserver e = None" "results = rs" "matched = ms" "held = Some b" "w' = w"
  | (reserved) b r res where "\<not> shadow" "Combine rs = Approve" "applicableBudget pol (req_AgentID req) = Some b"
      "eng_Reserver e = Some r" "r orgID decID req b w = (res, w')"
      "results = rs @ [budgetPredicateResult b res]" "matched = ms @ [budgetMatchedRule b req res]"
      "held = (if br_Outcome res = BudgetWithinLimit then Some b else None)"
proof (cases "shadow \<or> Combine rs \<noteq> Approve")
  case True
  with assms show ?thesis by (auto simp: budget_phase_skip intro: skip)
next
  case False
  show ?thesis
  proof (cases "applicableBudget pol (req_AgentID req)")
    case None
    with False assms show ?thesis by (auto simp: budget_phase_def intro: no_budget)
  next
    case (Some b)
    show ?thesis
    proof (cases "eng_Reserver e")
      case None
      with False Some assms show ?thesis by (intro declared [of b]) (auto simp: budget_phase_def)
    next
      case (Some r)
      with False \<open>applicableBudget pol (req_AgentID req) = Some b\<close> assms show ?thesis
        by (cases "r orgID decID req b w") (auto simp: budget_phase_def intro: reserved)
    qed
  qed
qed

text \<open>Algebra inputs and explanation rows stay in step.\<close>

definition row_agrees :: "PredicateResult \<Rightarrow> MatchedRule \<Rightarrow> bool" where
  "row_agrees r m \<longleftrightarrow> pr_RuleID r = mr_RuleID m \<and>
     (effectiveOutcome r = Denied \<longleftrightarrow> mr_Result m = ResultDenied) \<and>
     (effectiveOutcome r = Flagged \<longleftrightarrow> mr_Result m \<in> {ResultReview, ResultUnavailable}) \<and>
     (effectiveOutcome r = Satisfied \<longleftrightarrow> mr_Result m = ResultSatisfied)"

lemma row_agrees_local: "row_agrees (local_result i p) (local_rule i p)"
  using local_outcomes [of p i] by (auto simp: row_agrees_def local_rule_def) (auto simp: local_result_def)

lemma row_agrees_budget: "row_agrees (budgetPredicateResult b res) (budgetMatchedRule b req res)"
  by (cases "br_Outcome res")
     (simp_all add: row_agrees_def budgetMatchedRule_Result budgetPredicateResult_def effectiveOutcome_def)

lemma budget_phase_rows:
  assumes "budget_phase e pol orgID decID req shadow rs ms w = ((results, matched, held), w')"
    and "list_all2 row_agrees rs ms"
  shows "list_all2 row_agrees results matched"
  using assms(1)
proof (cases rule: budget_phase_cases)
  case (reserved b r res)
  with assms(2) show ?thesis by (simp add: list_all2_appendI row_agrees_budget)
qed (use assms(2) in simp_all)

lemma rows_local: "list_all2 row_agrees (map (local_result i) ps) (map (local_rule i) ps)"
  by (simp add: list.rel_map list.rel_refl row_agrees_local)

lemma firstWithResult_eq: "firstWithResult ms want = find (\<lambda>m. mr_Result m = want) ms"
  by (induction ms) auto

lemma row_exists:
  assumes "list_all2 row_agrees rs ms"
  shows "(\<exists>r\<in>set rs. effectiveOutcome r = Denied) \<longleftrightarrow> (\<exists>m\<in>set ms. mr_Result m = ResultDenied)"
    and "(\<exists>r\<in>set rs. effectiveOutcome r = Flagged) \<longleftrightarrow> (\<exists>m\<in>set ms. mr_Result m \<in> {ResultReview, ResultUnavailable})"
  using assms by (induction rule: list_all2_induct) (auto simp: row_agrees_def)

section \<open>The reserver interface\<close>

text \<open>What the engine relies on of a \<open>BudgetReserver\<close>: a within-limit answer for a fresh
  decision id has placed an active hold under it, any other answer leaves the hold ledger as
  it was. The
  conclusion for the engine's clients: a decision declares a capture-within obligation only
  for a hold that exists, and a decision without one left the ledger alone.\<close>

locale budget_reserver =
  fixes reserve :: "'w budget_reserver" and ledger :: "'w \<Rightarrow> 'l"
    and fresh :: "'w \<Rightarrow> string \<Rightarrow> string \<Rightarrow> bool" and held :: "'l \<Rightarrow> string \<Rightarrow> string \<Rightarrow> bool"
  assumes within_places:
      "fresh w orgID decID \<Longrightarrow> reserve orgID decID req b w = (res, w') \<Longrightarrow>
       br_Outcome res = BudgetWithinLimit \<Longrightarrow> held (ledger w') orgID decID"
    and otherwise_untouched:
      "reserve orgID decID req b w = (res, w') \<Longrightarrow> br_Outcome res \<noteq> BudgetWithinLimit \<Longrightarrow>
       ledger w' = ledger w"
begin

lemma obligation_backed:
  assumes "Authorize c start now elapsed decID e orgID req shadow w = (Inr d, w')"
    and "eng_Reserver e = Some reserve" and "resolve_policy e orgID w = (Inr pol, w1)"
    and "fresh w1 orgID decID"
  shows "(dec_Obligations d \<noteq> [] \<longrightarrow> held (ledger w') orgID (dec_DecisionID d) \<and> dec_Verdict d = VerdictApprove \<and> \<not> shadow)
    \<and> (dec_Obligations d = [] \<longrightarrow> ledger w' = ledger w1)"
  using assms(1)
proof (rule Authorize_Inr)
  fix pol' w1' results matched hd i
  assume res: "resolve_policy e orgID w = (Inr pol', w1')"
    and bp: "budget_phase e pol' orgID decID req shadow (map (local_result i) (applicable pol' (req_AgentID req)))
       (map (local_rule i) (applicable pol' (req_AgentID req))) w1' = ((results, matched, hd), w')"
    and d: "dec_DecisionID d = decID" "dec_Verdict d = toContractVerdict (Combine results)"
      "dec_Obligations d = (case hd of None \<Rightarrow> []
         | Some b \<Rightarrow> [captureWithinObligation e now b req (dec_EvaluatedAt d) decID])"
  from bp show ?thesis
  proof (cases rule: budget_phase_cases)
    case (reserved b r res')
    then have r: "reserve orgID decID req b w1' = (res', w')" using assms(2) by simp
    with reserved d assms(3) res show ?thesis
      using within_places [OF _ r] otherwise_untouched [OF r] assms(4) by (auto simp: Combine_budget budget_verdict_def)
  qed (use d assms(2,3) res in auto)
qed

end

section \<open>A concrete engine\<close>

text \<open>Used by the witnesses: two rules, a daily budget, and a reserver that counts its calls
  and grants every reservation.\<close>

definition demo_policy :: Policy where
  "demo_policy = \<lparr>pol_Version = ''v1'',
     pol_Predicates = [NewPerTransactionLimit ''ptl'' [] ''100'' ''USD'', NewVendorBlocklist ''bl'' [] [''evil'']],
     pol_Budgets = [\<lparr>bd_ID = ''daily'', bd_Agents = [], bd_Window = ''day'', bd_Limit = ''500'', bd_Currency = ''USD''\<rparr>]\<rparr>"

definition demo_request :: "string \<Rightarrow> AuthorizeRequest" where
  "demo_request vendor = \<lparr>req_AgentID = ''agent'', req_Action = ''pay'', req_Amount = ''40'', req_Currency = ''USD'',
     req_Target = \<lparr>tgt_Type = TargetVendor, tgt_ID = vendor\<rparr>, req_Jurisdiction = [], req_Context = [],
     req_IdempotencyKey = ''idem-0001'', req_EvaluatedAt = [], req_CounterSnapshot = None\<rparr>"

definition demo_reserver :: "BudgetOutcome \<Rightarrow> nat budget_reserver" where
  "demo_reserver x orgID decID req b n =
     (\<lparr>br_Outcome = x, br_SpendToDate = ''0.00'', br_Limit = ''500.00'', br_WindowKey = ''2026-01-01''\<rparr>, Suc n)"

definition demo_engine :: "BudgetOutcome \<Rightarrow> nat Engine" where
  "demo_engine x = WithReserver (WithSigner (NewEngine demo_policy ''key-1'') demo_signer) (demo_reserver x)"

definition demo_run :: "BudgetOutcome \<Rightarrow> string \<Rightarrow> bool \<Rightarrow> (engine_error + Decision) \<times> nat" where
  "demo_run x vendor shadow =
     Authorize demo_crypto 0 0 0 ''d1'' (demo_engine x) ''org'' (demo_request vendor) shadow 0"

lemma demo_sign: "\<exists>d. sign_decision demo_crypto (Some demo_signer) dec = Inr d"
  by (simp add: sign_decision_def Signer_Sign_def demo_message)

lemma demo_resolve: "resolve_policy (demo_engine x) ''org'' w = (Inr demo_policy, w)"
  by (simp add: resolve_policy_def demo_engine_def WithReserver_def WithSigner_def NewEngine_def)

lemma Authorize_returns:
  assumes "resolve_policy e orgID w = (Inr pol, w1)"
    and "\<And>dec. \<exists>d. sign_decision c (eng_Signer e) dec = Inr d"
  shows "\<exists>d w'. Authorize c start now elapsed decID e orgID req shadow w = (Inr d, w')"
proof -
  from assms(2) obtain f where "\<And>dec. sign_decision c (eng_Signer e) dec = Inr (f dec)" by metis
  then show ?thesis by (simp add: Authorize_def assms(1) Let_def case_prod_unfold)
qed

lemma fst_case_sum_Inl:
  "fst (case x of Inl a \<Rightarrow> (Inl a, u) | Inr b \<Rightarrow> (Inr (f b), v)) = Inl err \<Longrightarrow> x = Inl err"
  by (cases x) simp_all

lemma Authorize_error:
  assumes "resolve_policy e orgID w = (Inr pol, w1)"
    and "fst (Authorize c start now elapsed decID e orgID req shadow w) = Inl err"
  shows "\<exists>dec. sign_decision c (eng_Signer e) dec = Inl err"
  using assms(2) unfolding Authorize_def assms(1) Let_def case_prod_unfold fst_conv snd_conv sum.case
  by (intro exI) (erule fst_case_sum_Inl)

lemma Authorize_signed:
  assumes "eng_Signer e = Some s"
    and "Authorize c start now elapsed decID e orgID req shadow w = (Inr d, w')"
  obtains dec d0 where "Signer_Sign c s dec = Inr d0" "d = d0\<lparr>dec_LatencyMs := elapsed div 1000000\<rparr>"
proof -
  obtain pol w1 where "resolve_policy e orgID w = (Inr pol, w1)"
    using assms(2) by (rule Authorize_Inr)
  with assms(2) obtain dec d0 where "sign_decision c (eng_Signer e) dec = Inr d0"
    and "d = d0\<lparr>dec_LatencyMs := elapsed div 1000000\<rparr>"
    by (auto simp: Authorize_def Let_def case_prod_unfold split: sum.splits)
  with assms(1) show ?thesis by (auto simp: sign_decision_def split: sum.splits intro: that)
qed

lemma demo_run_returns: "\<exists>d n. demo_run x vendor shadow = (Inr d, n)"
proof -
  have "eng_Signer (demo_engine x) = Some demo_signer"
    by (simp add: demo_engine_def WithReserver_def WithSigner_def)
  then show ?thesis
    unfolding demo_run_def by (intro Authorize_returns [OF demo_resolve]) (simp add: demo_sign)
qed

lemma demo_local:
  "local_verdict demo_policy (buildInput (demo_request ''shop'') t) = Approve"
  "local_verdict demo_policy (buildInput (demo_request ''evil'') t) = Deny"
  by (simp_all add: local_verdict_def applicable_def demo_policy_def New_defs AppliesTo_def base_AppliesTo_def
      Combine_def local_result_def effectiveOutcome_def Evaluate_defs buildInput_def demo_request_def
      parseMoney_def go_eval)

section \<open>Properties\<close>

text \<open>C2: a returned decision cites the policy that was resolved for the organisation and
  its verdict is backed by the rules of that policy: APPROVE needs at least one applicable
  rule and every applicable rule satisfied; no applicable rule, or one that denies, is DENY
  whatever the budget says; otherwise a flagging rule is REVIEW. The explanation lists
  exactly the applicable rules, in policy order, with at most the budget row after them.\<close>

theorem Authorize_verdict_sound:
  assumes "Authorize c start now elapsed decID e orgID req shadow w = (Inr d, w')"
  shows "\<exists>pol w1. resolve_policy e orgID w = (Inr pol, w1) \<and> dec_PolicyVersionHash d = pol_Version pol \<and>
     (let i = buildInput req (dec_EvaluatedAt d); ps = applicable pol (req_AgentID req);
          ms = ex_MatchedRules (dec_Explanation d)
      in (dec_Verdict d = VerdictApprove \<longrightarrow>
            ps \<noteq> [] \<and> (\<forall>p\<in>set ps. res_Outcome (Predicate_Evaluate p i) = Satisfied))
       \<and> (ps = [] \<or> (\<exists>p\<in>set ps. res_Outcome (Predicate_Evaluate p i) = Denied) \<longrightarrow> dec_Verdict d = VerdictDeny)
       \<and> ((\<exists>p\<in>set ps. res_Outcome (Predicate_Evaluate p i) = Flagged)
            \<and> (\<forall>p\<in>set ps. res_Outcome (Predicate_Evaluate p i) \<noteq> Denied) \<longrightarrow> dec_Verdict d = VerdictReview)
       \<and> take (length ps) ms = map (local_rule i) ps \<and> length ms \<le> Suc (length ps))"
  using assms
proof (rule Authorize_Inr)
  fix pol w1 results matched held i
  assume res: "resolve_policy e orgID w = (Inr pol, w1)" and i: "i = buildInput req (dec_EvaluatedAt d)"
    and bp: "budget_phase e pol orgID decID req shadow (map (local_result i) (applicable pol (req_AgentID req)))
       (map (local_rule i) (applicable pol (req_AgentID req))) w1 = ((results, matched, held), w')"
    and d: "dec_Verdict d = toContractVerdict (Combine results)" "dec_PolicyVersionHash d = pol_Version pol"
      "dec_Explanation d = assembleExplanation (Combine results) matched"
  have lv: "local_verdict pol i = Combine (map (local_result i) (applicable pol (req_AgentID req)))"
    by (simp add: local_verdict_def i buildInput_def)
  have agent: "in_AgentID i = req_AgentID req" by (simp add: i buildInput_def)
  let ?ps = "applicable pol (req_AgentID req)"
  have "(Combine results = Approve \<longrightarrow> local_verdict pol i = Approve)
      \<and> (local_verdict pol i \<noteq> Approve \<longrightarrow> Combine results = local_verdict pol i)
      \<and> take (length ?ps) matched = map (local_rule i) ?ps \<and> length matched \<le> Suc (length ?ps)"
    using bp by (cases rule: budget_phase_cases) (auto simp: lv)
  then have 1: "dec_Verdict d = VerdictApprove \<Longrightarrow> local_verdict pol i = Approve"
    and 2: "local_verdict pol i = Deny \<Longrightarrow> dec_Verdict d = VerdictDeny"
    and 3: "local_verdict pol i = Review \<Longrightarrow> dec_Verdict d = VerdictReview"
    and 4: "take (length ?ps) (ex_MatchedRules (dec_Explanation d)) = map (local_rule i) ?ps"
    and 5: "length (ex_MatchedRules (dec_Explanation d)) \<le> Suc (length ?ps)"
    by (simp_all add: d assembleExplanation_def)
  note lvs = local_verdict_Approve [of pol i, unfolded agent] local_verdict_Deny [of pol i, unfolded agent]
    local_verdict_Review [of pol i, unfolded agent]
  show ?thesis
    unfolding Let_def i [symmetric]
    by (intro exI [of _ pol] exI [of _ w1] conjI impI res d(2) 4 5) (use 1 2 3 lvs in blast)+
qed

theorem Authorize_verdict_sound_witness:
  "\<exists>d n. demo_run BudgetWithinLimit ''evil'' False = (Inr d, n) \<and> dec_PolicyVersionHash d = ''v1''"
proof -
  obtain d n where run: "demo_run BudgetWithinLimit ''evil'' False = (Inr d, n)"
    using demo_run_returns by blast
  from Authorize_verdict_sound [OF this [unfolded demo_run_def]] have "dec_PolicyVersionHash d = ''v1''"
    by (auto simp: demo_resolve) (simp add: demo_policy_def)
  with run show ?thesis by blast
qed

text \<open>C22: a shadow call, or a call the local rules do not approve, has no side effect on
  the budget: the world is the one policy resolution left, the verdict is the local one,
  no obligation is declared.\<close>

theorem Authorize_no_side_effect:
  assumes "Authorize c start now elapsed decID e orgID req shadow w = (Inr d, w')"
    and "resolve_policy e orgID w = (Inr pol, w1)"
    and "shadow \<or> local_verdict pol (buildInput req (dec_EvaluatedAt d)) \<noteq> Approve"
  shows "w' = w1 \<and> dec_Obligations d = []
    \<and> dec_Verdict d = toContractVerdict (local_verdict pol (buildInput req (dec_EvaluatedAt d)))"
  using assms(1)
proof (rule Authorize_Inr)
  fix pol' w1' results matched held i
  assume res: "resolve_policy e orgID w = (Inr pol', w1')" and i: "i = buildInput req (dec_EvaluatedAt d)"
    and bp: "budget_phase e pol' orgID decID req shadow (map (local_result i) (applicable pol' (req_AgentID req)))
       (map (local_rule i) (applicable pol' (req_AgentID req))) w1' = ((results, matched, held), w')"
    and d: "dec_Verdict d = toContractVerdict (Combine results)"
      "dec_Obligations d = (case held of None \<Rightarrow> []
         | Some b \<Rightarrow> [captureWithinObligation e now b req (dec_EvaluatedAt d) decID])"
  have "local_verdict pol' i = Combine (map (local_result i) (applicable pol' (req_AgentID req)))"
    by (simp add: local_verdict_def i buildInput_def)
  with bp res assms(2,3) d i show ?thesis by (auto simp: budget_phase_skip)
qed

theorem Authorize_no_side_effect_witness:
  "\<exists>d. demo_run BudgetWithinLimit ''evil'' False = (Inr d, 0) \<and> dec_Verdict d = VerdictDeny"
proof -
  obtain d n where run: "demo_run BudgetWithinLimit ''evil'' False = (Inr d, n)"
    using demo_run_returns by blast
  from Authorize_no_side_effect [OF this [unfolded demo_run_def] demo_resolve] run show ?thesis
    by (simp add: demo_local)
qed

text \<open>C23: an enforcing call whose local rules approve and whose policy declares a budget
  for the agent consults the reserver exactly once, for the first such budget, and the
  outcome decides: within the limit is APPROVE, exceeded is DENY, unavailable is REVIEW. A
  capture-within obligation, addressed by the decision id, is declared exactly when the
  amount was reserved.\<close>

theorem Authorize_budget_gate:
  assumes "Authorize c start now elapsed decID e orgID req False w = (Inr d, w')"
    and "resolve_policy e orgID w = (Inr pol, w1)"
    and "local_verdict pol (buildInput req (dec_EvaluatedAt d)) = Approve"
    and "applicableBudget pol (req_AgentID req) = Some b"
    and "eng_Reserver e = Some r" and "r orgID decID req b w1 = (res, w2)"
  shows "w' = w2 \<and> dec_Verdict d = toContractVerdict (budget_verdict (br_Outcome res))
    \<and> (dec_Obligations d \<noteq> [] \<longleftrightarrow> br_Outcome res = BudgetWithinLimit)
    \<and> (\<forall>x\<in>set (dec_Obligations d). ob_Type x = ObligationCaptureWithin \<and>
         map_of (ob_Params x) ''hold_ref'' = Some (JStr (dec_DecisionID d)) \<and>
         map_of (ob_Params x) ''amount'' = Some (JStr (req_Amount req)))
    \<and> last (ex_MatchedRules (dec_Explanation d)) = budgetMatchedRule b req res"
  using assms(1)
proof (rule Authorize_Inr)
  fix pol' w1' results matched held i
  assume res: "resolve_policy e orgID w = (Inr pol', w1')" and i: "i = buildInput req (dec_EvaluatedAt d)"
    and bp: "budget_phase e pol' orgID decID req False (map (local_result i) (applicable pol' (req_AgentID req)))
       (map (local_rule i) (applicable pol' (req_AgentID req))) w1' = ((results, matched, held), w')"
    and d: "dec_DecisionID d = decID" "dec_Verdict d = toContractVerdict (Combine results)"
      "dec_Explanation d = assembleExplanation (Combine results) matched"
      "dec_Obligations d = (case held of None \<Rightarrow> []
         | Some b \<Rightarrow> [captureWithinObligation e now b req (dec_EvaluatedAt d) decID])"
  have ap: "Combine (map (local_result i) (applicable pol' (req_AgentID req))) = Approve"
    using assms(2,3) res by (simp add: local_verdict_def i buildInput_def)
  from bp have "w' = w2 \<and> Combine results = budget_verdict (br_Outcome res)
      \<and> matched = map (local_rule i) (applicable pol' (req_AgentID req)) @ [budgetMatchedRule b req res]
      \<and> held = (if br_Outcome res = BudgetWithinLimit then Some b else None)"
    using assms(2,4-6) res ap by (cases rule: budget_phase_cases) (auto simp: Combine_budget)
  then show ?thesis
    by (simp add: d assembleExplanation_def captureWithinObligation_def Let_def)
qed

theorem Authorize_budget_gate_witness:
  "\<exists>d. demo_run BudgetExceeded ''shop'' False = (Inr d, 1) \<and> dec_Verdict d = VerdictDeny \<and> dec_Obligations d = []"
proof -
  obtain d n where run: "demo_run BudgetExceeded ''shop'' False = (Inr d, n)"
    using demo_run_returns by blast
  let ?b = "\<lparr>bd_ID = ''daily'', bd_Agents = [], bd_Window = ''day'', bd_Limit = ''500'', bd_Currency = ''USD''\<rparr>"
  have "applicableBudget demo_policy (req_AgentID (demo_request ''shop'')) = Some ?b"
    by (simp add: applicableBudget_def demo_policy_def BudgetDecl_appliesTo_def)
  moreover have "eng_Reserver (demo_engine BudgetExceeded) = Some (demo_reserver BudgetExceeded)"
    by (simp add: demo_engine_def WithReserver_def)
  moreover have "demo_reserver BudgetExceeded ''org'' ''d1'' (demo_request ''shop'') ?b 0 =
      (\<lparr>br_Outcome = BudgetExceeded, br_SpendToDate = ''0.00'', br_Limit = ''500.00'', br_WindowKey = ''2026-01-01''\<rparr>, 1)"
    by (simp add: demo_reserver_def)
  ultimately show ?thesis
    using Authorize_budget_gate [OF run [unfolded demo_run_def] demo_resolve demo_local(1)] run
    by (fastforce simp: budget_verdict_def)
qed

text \<open>C24: \<open>Authorize\<close> fails only in a controlled way. An error is the policy
  resolution's, with no reservation made, or the signer's; resolution fails exactly with
  the provider's error, except that an organisation without a bundle is served the static
  policy when one is configured. Every other call returns a decision.\<close>

theorem Authorize_controlled_failure:
  "(fst (resolve_policy e orgID w) = Inl err \<longrightarrow>
      Authorize c start now elapsed decID e orgID req shadow w = (Inl err, snd (resolve_policy e orgID w)))
 \<and> (fst (Authorize c start now elapsed decID e orgID req shadow w) = Inl err \<longrightarrow>
      fst (resolve_policy e orgID w) = Inl err \<or>
      (\<exists>s serr dec. eng_Signer e = Some s \<and> Signer_Sign c s dec = Inl serr \<and> err = ErrSign serr))
 \<and> (fst (resolve_policy e orgID w) = Inl err \<longleftrightarrow>
      (\<exists>active. eng_Provider e = Some active \<and> fst (active orgID w) = Inl err \<and>
         \<not> (err = ErrNoActiveBundle \<and> pol_Predicates (eng_Policy e) \<noteq> [])))"
proof (intro conjI impI)
  assume "fst (resolve_policy e orgID w) = Inl err"
  then show "Authorize c start now elapsed decID e orgID req shadow w = (Inl err, snd (resolve_policy e orgID w))"
    by (cases "resolve_policy e orgID w") (simp add: Authorize_def)
next
  assume err: "fst (Authorize c start now elapsed decID e orgID req shadow w) = Inl err"
  show "fst (resolve_policy e orgID w) = Inl err \<or>
      (\<exists>s serr dec. eng_Signer e = Some s \<and> Signer_Sign c s dec = Inl serr \<and> err = ErrSign serr)"
  proof (cases "fst (resolve_policy e orgID w)")
    case (Inl e')
    with err show ?thesis by (cases "resolve_policy e orgID w") (simp add: Authorize_def)
  next
    case (Inr pol)
    with err obtain dec where "sign_decision c (eng_Signer e) dec = Inl err"
      using Authorize_error by (metis prod.collapse)
    then show ?thesis by (auto simp: sign_decision_def split: option.splits sum.splits)
  qed
next
  show "fst (resolve_policy e orgID w) = Inl err \<longleftrightarrow>
      (\<exists>active. eng_Provider e = Some active \<and> fst (active orgID w) = Inl err \<and>
         \<not> (err = ErrNoActiveBundle \<and> pol_Predicates (eng_Policy e) \<noteq> []))"
    by (auto simp: resolve_policy_def split: option.split prod.split sum.split)
qed

theorem Authorize_controlled_failure_witness:
  "let e = WithProvider (NewEngine \<lparr>pol_Version = [], pol_Predicates = [], pol_Budgets = []\<rparr> ''k'')
             (\<lambda>orgID w. (Inl ErrNoActiveBundle, Suc w))
   in Authorize demo_crypto 0 0 0 ''d1'' e ''org'' (demo_request ''shop'') False 0 = (Inl ErrNoActiveBundle, 1)"
  using Authorize_controlled_failure [of "WithProvider (NewEngine \<lparr>pol_Version = [], pol_Predicates = [], pol_Budgets = []\<rparr> ''k'')
       (\<lambda>orgID w. (Inl ErrNoActiveBundle, Suc w))" "''org''" 0 ErrNoActiveBundle
       demo_crypto 0 0 0 "''d1''" "demo_request ''shop''" False]
  by (simp add: WithProvider_def NewEngine_def resolve_policy_def)

text \<open>The summary names the rule that decided. On DENY it is the first denying rule, or
  the default-deny sentence when no rule applied; on REVIEW the first flagging rule, else
  the budget that could not complete; on APPROVE every listed rule is satisfied and the
  summary counts them. The generic fall-back sentences are never produced.\<close>

theorem Authorize_summary_names_decider:
  assumes "Authorize c start now elapsed decID e orgID req shadow w = (Inr d, w')"
  shows "let ms = ex_MatchedRules (dec_Explanation d); su = ex_Summary (dec_Explanation d) in
     (dec_Verdict d = VerdictDeny \<longrightarrow>
        (ms = [] \<and> su = ''No applicable policy rule granted authority; denied by default.'') \<or>
        (\<exists>m. find (\<lambda>m. mr_Result m = ResultDenied) ms = Some m \<and>
             su = ''Denied by rule '' @ quote (mr_RuleID m) @ '': '' @ mr_Detail m))
   \<and> (dec_Verdict d = VerdictReview \<longrightarrow>
        (\<exists>m. find (\<lambda>m. mr_Result m = ResultReview) ms = Some m \<and>
             su = ''Flagged for review by rule '' @ quote (mr_RuleID m) @ '': '' @ mr_Detail m) \<or>
        (\<exists>m. find (\<lambda>m. mr_Result m = ResultUnavailable) ms = Some m \<and>
             su = ''Flagged for review: rule '' @ quote (mr_RuleID m) @ '' could not complete.''))
   \<and> (dec_Verdict d = VerdictApprove \<longrightarrow>
        ms \<noteq> [] \<and> (\<forall>m\<in>set ms. mr_Result m = ResultSatisfied) \<and>
        su = ''Approved: all '' @ FormatInt (int (length ms)) @ '' applicable rule(s) satisfied.'')"
  using assms
proof (rule Authorize_Inr)
  fix pol w1 results matched held i
  assume bp: "budget_phase e pol orgID decID req shadow (map (local_result i) (applicable pol (req_AgentID req)))
       (map (local_rule i) (applicable pol (req_AgentID req))) w1 = ((results, matched, held), w')"
    and d: "dec_Verdict d = toContractVerdict (Combine results)"
      "dec_Explanation d = assembleExplanation (Combine results) matched"
  have rows: "list_all2 row_agrees results matched" using bp rows_local by (rule budget_phase_rows)
  have den: "Combine results = Deny \<longrightarrow> matched = [] \<or> find (\<lambda>m. mr_Result m = ResultDenied) matched \<noteq> None"
    using row_exists(1) [OF rows] rows by (auto simp: Combine_Deny_iff find_None_iff)
  have rev: "Combine results = Review \<longrightarrow> find (\<lambda>m. mr_Result m = ResultReview) matched \<noteq> None
      \<or> find (\<lambda>m. mr_Result m = ResultUnavailable) matched \<noteq> None"
    using row_exists(2) [OF rows] by (auto simp: Combine_Review_iff find_None_iff)
  have app: "Combine results = Approve \<longrightarrow> matched \<noteq> [] \<and> (\<forall>m\<in>set matched. mr_Result m = ResultSatisfied)"
  proof
    assume ap: "Combine results = Approve"
    with rows have "matched \<noteq> []" by (auto simp: Combine_Approve_iff)
    moreover have "mr_Result m = ResultSatisfied" if "m \<in> set matched" for m
      using row_exists [OF rows] ap that by (cases "mr_Result m") (auto simp: Combine_Approve_iff)
    ultimately show "matched \<noteq> [] \<and> (\<forall>m\<in>set matched. mr_Result m = ResultSatisfied)" by blast
  qed
  show ?thesis
    unfolding Let_def d assembleExplanation_def Explanation.simps
    using den rev app by (auto simp: summarize_def firstWithResult_eq split: option.split)
qed

theorem Authorize_summary_names_decider_witness:
  "\<exists>d n. demo_run BudgetUnavailable ''evil'' False = (Inr d, n) \<and>
     ((ex_MatchedRules (dec_Explanation d) = [] \<and>
       ex_Summary (dec_Explanation d) = ''No applicable policy rule granted authority; denied by default.'') \<or>
      (\<exists>m. find (\<lambda>m. mr_Result m = ResultDenied) (ex_MatchedRules (dec_Explanation d)) = Some m \<and>
         ex_Summary (dec_Explanation d) = ''Denied by rule '' @ quote (mr_RuleID m) @ '': '' @ mr_Detail m))"
proof -
  obtain d n where run: "demo_run BudgetUnavailable ''evil'' False = (Inr d, n)"
    using demo_run_returns by blast
  from run [unfolded demo_run_def] have "dec_Verdict d = VerdictDeny"
  proof (rule Authorize_Inr)
    fix pol w1 results matched held i
    assume res: "resolve_policy (demo_engine BudgetUnavailable) ''org'' 0 = (Inr pol, w1)"
      and i: "i = buildInput (demo_request ''evil'') (dec_EvaluatedAt d)"
      and bp: "budget_phase (demo_engine BudgetUnavailable) pol ''org'' ''d1'' (demo_request ''evil'') False
         (map (local_result i) (applicable pol (req_AgentID (demo_request ''evil''))))
         (map (local_rule i) (applicable pol (req_AgentID (demo_request ''evil'')))) w1 = ((results, matched, held), n)"
      and d: "dec_Verdict d = toContractVerdict (Combine results)"
    have "in_AgentID i = req_AgentID (demo_request ''evil'')" by (simp add: i buildInput_def)
    then have "Combine (map (local_result i) (applicable pol (req_AgentID (demo_request ''evil'')))) = Deny"
      using demo_local(2) [of "dec_EvaluatedAt d"] res i by (simp add: demo_resolve local_verdict_def)
    with bp d show ?thesis by (auto simp: budget_phase_skip)
  qed
  from conjI [OF run Authorize_summary_names_decider [OF run [unfolded demo_run_def], unfolded Let_def,
      THEN conjunct1, rule_format, OF this]]
  show ?thesis by (intro exI) assumption
qed

text \<open>Shadow mode and the simulator agree: a shadow decision has the verdict, the
  explanation, the policy version and the (empty) obligations that \<open>Evaluate\<close>, the pure
  core behind dry runs, computes for the same policy, request and time.\<close>

theorem shadow_equals_Evaluate:
  assumes "Authorize c start now elapsed decID e orgID req True w = (Inr d, w')"
    and "resolve_policy e orgID w = (Inr pol, w1)"
  shows "let s = Evaluate simID pol req (dec_EvaluatedAt d) in
     dec_Verdict d = dec_Verdict s \<and> dec_Explanation d = dec_Explanation s
     \<and> dec_PolicyVersionHash d = dec_PolicyVersionHash s \<and> dec_Obligations d = dec_Obligations s
     \<and> dec_EvaluatedAt d = dec_EvaluatedAt s \<and> dec_Shadow d \<and> \<not> dec_Shadow s"
  using assms(1)
proof (rule Authorize_Inr)
  fix pol' w1' results matched held i
  assume res: "resolve_policy e orgID w = (Inr pol', w1')" and i: "i = buildInput req (dec_EvaluatedAt d)"
    and bp: "budget_phase e pol' orgID decID req True (map (local_result i) (applicable pol' (req_AgentID req)))
       (map (local_rule i) (applicable pol' (req_AgentID req))) w1' = ((results, matched, held), w')"
    and d: "dec_Verdict d = toContractVerdict (Combine results)" "dec_PolicyVersionHash d = pol_Version pol'"
      "dec_Explanation d = assembleExplanation (Combine results) matched"
      "dec_Obligations d = (case held of None \<Rightarrow> []
         | Some b \<Rightarrow> [captureWithinObligation e now b req (dec_EvaluatedAt d) decID])" "dec_Shadow d = True"
  have "in_AgentID i = req_AgentID req" by (simp add: i buildInput_def)
  with bp res assms(2) d show ?thesis
    by (auto simp: budget_phase_skip Evaluate_def evalLocal_eq assembleDecision_def i [symmetric])
qed

theorem shadow_equals_Evaluate_witness:
  "\<exists>d n. demo_run BudgetWithinLimit ''shop'' True = (Inr d, n) \<and>
     dec_Verdict d = dec_Verdict (Evaluate ''sim'' demo_policy (demo_request ''shop'') (dec_EvaluatedAt d))"
proof -
  obtain d n where run: "demo_run BudgetWithinLimit ''shop'' True = (Inr d, n)"
    using demo_run_returns by blast
  from shadow_equals_Evaluate [OF run [unfolded demo_run_def] demo_resolve] run show ?thesis
    by (metis (no_types, lifting))
qed

text \<open>A receipt keeps verifying when only unsigned fields change.\<close>

lemma receipt_verifies:
  assumes "ed25519_ok c" and "keyring_reach c k" and "Keyring_Signer k = Inr s"
    and "eng_Signer e = Some s"
    and "Authorize c start now elapsed decID e orgID req shadow w = (Inr d, w')"
    and "signed_view d' = signed_view d" and "dec_Signature d' = dec_Signature d"
  shows "VerifyDecision c k d' = None"
proof -
  from assms(4,5) obtain dec d0 where "Signer_Sign c s dec = Inr d0"
    and d: "d = d0\<lparr>dec_LatencyMs := elapsed div 1000000\<rparr>"
    by (elim Authorize_signed)
  moreover have "signed_view d' = signed_view d0" and "dec_Signature d' = dec_Signature d0"
    using assms(6,7) by (simp_all add: d)
  ultimately obtain pub where "PublicKey k (sig_KeyID (dec_Signature d')) = Some pub" and "Verify c d' pub = None"
    using sign_then_verify [OF keyring_reach_ok [OF assms(1,2)] assms(3)] by metis
  then show ?thesis by (simp add: VerifyDecision_def)
qed

text \<open>Every decision the service returns is a verifiable receipt: with the active
  signer of a reachable keyring installed, the returned decision - latency stamped after
  signing included - verifies against the keyring.\<close>

theorem Authorize_receipt_verifies:
  assumes "ed25519_ok c" and "keyring_reach c k" and "Keyring_Signer k = Inr s"
    and "eng_Signer e = Some s"
    and "Authorize c start now elapsed decID e orgID req shadow w = (Inr d, w')"
  shows "VerifyDecision c k d = None"
  by (rule receipt_verifies [OF assms refl refl])

theorem Authorize_receipt_verifies_witness:
  "\<exists>d n. demo_run BudgetWithinLimit ''shop'' False = (Inr d, n) \<and> VerifyDecision demo_crypto demo_keyring d = None"
proof -
  obtain d n where run: "demo_run BudgetWithinLimit ''shop'' False = (Inr d, n)"
    using demo_run_returns by blast
  have "eng_Signer (demo_engine BudgetWithinLimit) = Some demo_signer"
    by (simp add: demo_engine_def WithReserver_def WithSigner_def)
  from Authorize_receipt_verifies [OF demo_crypto_laws(1) demo_facts(2,3) this run [unfolded demo_run_def]] run
  show ?thesis by blast
qed

end
