(* ===== verification/Hold.thy ===== *)
theory Hold
  imports Go_Time
begin

text \<open>
  \<open>internal/hold\<close>: the two-phase reservation ledger. \<open>MemStore\<close> (hold.go) keeps holds
  under the composed key \<open>org|decision\<close>; \<open>PostgresStore\<close> (postgres.go) is a table keyed
  by (org, decision) whose SQL statements run one at a time - before each of them another
  session may change the table or the statement may fail, which the schedule of the
  state says. Both implement the interface \<open>Store\<close>, the record \<open>hold_ops\<close>, whose contract
  is the locale \<open>hold_store\<close>.
\<close>

section \<open>Holds\<close>

datatype State = StateHeld | StateCaptured | StateVoided | StateExpired | StateOther string

abbreviation StateUnset :: State where "StateUnset \<equiv> StateOther []"

record Hold =
  h_DecisionID :: string
  h_OrgID :: string
  h_AgentID :: string
  h_BudgetID :: string
  h_Window :: string
  h_WindowKey :: string
  h_Amount :: string
  h_Currency :: string
  h_State :: State
  h_CreatedAt :: gotime
  h_ExpiresAt :: gotime
  h_CapturedAt :: gotime
  h_VoidedAt :: gotime

datatype hold_error = ErrNotFound | ConflictError State string string | ErrStore string

definition conflict :: "State \<Rightarrow> string \<Rightarrow> string \<Rightarrow> hold_error" where
  "conflict from action reason = ConflictError from action reason"

text \<open>The expiry test every reader applies: held, with a deadline, and not before it.\<close>

definition hold_due :: "gotime \<Rightarrow> Hold \<Rightarrow> bool" where
  "hold_due now h \<longleftrightarrow> h_State h = StateHeld \<and> \<not> time_IsZero (h_ExpiresAt h) \<and> \<not> now < h_ExpiresAt h"

definition hold_active :: "Hold \<Rightarrow> bool" where
  "hold_active h \<longleftrightarrow> h_State h = StateHeld \<or> h_State h = StateCaptured"

text \<open>The interface \<open>Store\<close>; every operation reads the clock it is handed.\<close>

record 's hold_ops =
  ho_Place :: "gotime \<Rightarrow> Hold \<Rightarrow> 's \<Rightarrow> hold_error option \<times> 's"
  ho_Capture :: "gotime \<Rightarrow> string \<Rightarrow> string \<Rightarrow> 's \<Rightarrow> (hold_error + Hold) \<times> 's"
  ho_Void :: "gotime \<Rightarrow> string \<Rightarrow> string \<Rightarrow> 's \<Rightarrow> (hold_error + Hold \<times> bool) \<times> 's"
  ho_Get :: "gotime \<Rightarrow> string \<Rightarrow> string \<Rightarrow> 's \<Rightarrow> (hold_error + Hold) \<times> 's"
  ho_ExpireDue :: "gotime \<Rightarrow> int \<Rightarrow> 's \<Rightarrow> (hold_error + Hold list) \<times> 's"
  ho_ListActiveByWindow :: "string \<Rightarrow> string \<Rightarrow> string \<Rightarrow> 's \<Rightarrow> (hold_error + Hold list) \<times> 's"

section \<open>MemStore\<close>

text \<open>The map of holds in iteration order; Go leaves that order open, and no lemma below
  depends on it.\<close>

type_synonym MemStore = "(string \<times> Hold) list"

definition hold_key :: "string \<Rightarrow> string \<Rightarrow> string" where
  "hold_key org i = org @ ''|'' @ i"

definition MemStore_Place :: "gotime \<Rightarrow> Hold \<Rightarrow> MemStore \<Rightarrow> hold_error option \<times> MemStore" where
  "MemStore_Place now h m =
     (let k = hold_key (h_OrgID h) (h_DecisionID h) in
      case map_of m k of
        Some _ \<Rightarrow> (None, m)
      | None \<Rightarrow>
          let cp = (if h_State h = StateUnset then h\<lparr>h_State := StateHeld\<rparr> else h);
              cp = (if time_IsZero (h_CreatedAt cp) then cp\<lparr>h_CreatedAt := now\<rparr> else cp)
          in (None, alist_put k cp m))"

definition MemStore_resolve :: "gotime \<Rightarrow> string \<Rightarrow> string \<Rightarrow> MemStore \<Rightarrow> Hold option \<times> MemStore" where
  "MemStore_resolve now org i m =
     (case map_of m (hold_key org i) of
        None \<Rightarrow> (None, m)
      | Some h \<Rightarrow>
          if hold_due now h
          then (let h' = h\<lparr>h_State := StateExpired\<rparr> in (Some h', alist_put (hold_key org i) h' m))
          else (Some h, m))"

definition MemStore_Capture :: "gotime \<Rightarrow> string \<Rightarrow> string \<Rightarrow> MemStore \<Rightarrow> (hold_error + Hold) \<times> MemStore" where
  "MemStore_Capture now org i m =
     (case MemStore_resolve now org i m of
        (None, m1) \<Rightarrow> (Inl ErrNotFound, m1)
      | (Some h, m1) \<Rightarrow>
          (case h_State h of
             StateHeld \<Rightarrow>
               let h' = h\<lparr>h_State := StateCaptured, h_CapturedAt := now\<rparr>
               in (Inr h', alist_put (hold_key org i) h' m1)
           | StateCaptured \<Rightarrow> (Inr h, m1)
           | StateVoided \<Rightarrow> (Inl (conflict StateVoided ''capture'' ''the hold was voided''), m1)
           | StateExpired \<Rightarrow> (Inl (conflict StateExpired ''capture'' ''the hold expired before capture''), m1)
           | StateOther _ \<Rightarrow> (Inr h, m1)))"

definition MemStore_Void :: "gotime \<Rightarrow> string \<Rightarrow> string \<Rightarrow> MemStore \<Rightarrow> (hold_error + Hold \<times> bool) \<times> MemStore" where
  "MemStore_Void now org i m =
     (case MemStore_resolve now org i m of
        (None, m1) \<Rightarrow> (Inl ErrNotFound, m1)
      | (Some h, m1) \<Rightarrow>
          (let h' = h\<lparr>h_State := StateVoided, h_VoidedAt := now\<rparr> in
           case h_State h of
             StateHeld \<Rightarrow> (Inr (h', True), alist_put (hold_key org i) h' m1)
           | StateVoided \<Rightarrow> (Inr (h, False), m1)
           | StateExpired \<Rightarrow> (Inr (h', False), alist_put (hold_key org i) h' m1)
           | StateCaptured \<Rightarrow> (Inl (conflict StateCaptured ''void'' ''the hold was already captured''), m1)
           | StateOther _ \<Rightarrow> (Inr (h, False), m1)))"

text \<open>The loop of \<open>ExpireDue\<close>: the visited prefix of the map with due holds expired, up to
  the limit.\<close>

fun ExpireDue_loop :: "gotime \<Rightarrow> int \<Rightarrow> Hold list \<Rightarrow> MemStore \<Rightarrow> Hold list \<times> MemStore" where
  "ExpireDue_loop now limit out [] = (out, [])"
| "ExpireDue_loop now limit out ((k, h) # m) =
     (if limit > 0 \<and> int (length out) \<ge> limit then (out, (k, h) # m)
      else if hold_due now h
      then (let h' = h\<lparr>h_State := StateExpired\<rparr>;
                (out', m') = ExpireDue_loop now limit (out @ [h']) m in (out', (k, h') # m'))
      else (let (out', m') = ExpireDue_loop now limit out m in (out', (k, h) # m')))"

definition MemStore_ExpireDue :: "gotime \<Rightarrow> int \<Rightarrow> MemStore \<Rightarrow> (hold_error + Hold list) \<times> MemStore" where
  "MemStore_ExpireDue now limit m = (case ExpireDue_loop now limit [] m of (out, m') \<Rightarrow> (Inr out, m'))"

definition in_window :: "string \<Rightarrow> string \<Rightarrow> string \<Rightarrow> Hold \<Rightarrow> bool" where
  "in_window org budgetID windowKey h \<longleftrightarrow>
     h_OrgID h = org \<and> h_BudgetID h = budgetID \<and> h_WindowKey h = windowKey \<and> hold_active h"

definition MemStore_ListActiveByWindow ::
  "string \<Rightarrow> string \<Rightarrow> string \<Rightarrow> MemStore \<Rightarrow> (hold_error + Hold list) \<times> MemStore" where
  "MemStore_ListActiveByWindow org budgetID windowKey m =
     (Inr (filter (in_window org budgetID windowKey) (map snd m)), m)"

definition MemStore_Get :: "gotime \<Rightarrow> string \<Rightarrow> string \<Rightarrow> MemStore \<Rightarrow> (hold_error + Hold) \<times> MemStore" where
  "MemStore_Get now org i m =
     (case MemStore_resolve now org i m of
        (None, m1) \<Rightarrow> (Inl ErrNotFound, m1)
      | (Some h, m1) \<Rightarrow> (Inr h, m1))"

definition mem_hold_ops :: "MemStore hold_ops" where
  "mem_hold_ops = \<lparr>ho_Place = MemStore_Place, ho_Capture = MemStore_Capture, ho_Void = MemStore_Void,
     ho_Get = MemStore_Get, ho_ExpireDue = MemStore_ExpireDue,
     ho_ListActiveByWindow = MemStore_ListActiveByWindow\<rparr>"

section \<open>PostgresStore\<close>

text \<open>The table \<open>budget_reservations\<close>, primary key (org_id, decision_id). Every statement
  first consumes one event of the schedule: it runs, it fails without effect, or another
  session's transaction runs just before it.\<close>

type_synonym pg_table = "((string \<times> string) \<times> Hold) list"

datatype pg_event = PgOk | PgFail | PgRace "pg_table \<Rightarrow> pg_table"

record PostgresStore =
  pg_rows :: pg_table
  pg_sched :: "pg_event list"

definition pg_begin :: "PostgresStore \<Rightarrow> bool \<times> PostgresStore" where
  "pg_begin s =
     (case pg_sched s of
        [] \<Rightarrow> (True, s)
      | PgOk # r \<Rightarrow> (True, s\<lparr>pg_sched := r\<rparr>)
      | PgFail # r \<Rightarrow> (False, s\<lparr>pg_sched := r\<rparr>)
      | PgRace f # r \<Rightarrow> (True, s\<lparr>pg_rows := f (pg_rows s), pg_sched := r\<rparr>))"

definition Postgres_Place :: "gotime \<Rightarrow> Hold \<Rightarrow> PostgresStore \<Rightarrow> hold_error option \<times> PostgresStore" where
  "Postgres_Place now h s =
     (let created = (if time_IsZero (h_CreatedAt h) then now else h_CreatedAt h);
          k = (h_OrgID h, h_DecisionID h) in
      case pg_begin s of
        (False, s1) \<Rightarrow> (Some (ErrStore ''hold: place''), s1)
      | (True, s1) \<Rightarrow>
          (case map_of (pg_rows s1) k of
             Some _ \<Rightarrow> (None, s1)
           | None \<Rightarrow>
               (None, s1\<lparr>pg_rows := alist_put k
                  (h\<lparr>h_State := StateHeld, h_CreatedAt := created, h_CapturedAt := 0, h_VoidedAt := 0\<rparr>)
                  (pg_rows s1)\<rparr>)))"

definition effective :: "gotime \<Rightarrow> Hold \<Rightarrow> Hold" where
  "effective now h = (if hold_due now h then h\<lparr>h_State := StateExpired\<rparr> else h)"

definition Postgres_Get :: "gotime \<Rightarrow> string \<Rightarrow> string \<Rightarrow> PostgresStore \<Rightarrow> (hold_error + Hold) \<times> PostgresStore" where
  "Postgres_Get now org i s =
     (case pg_begin s of
        (False, s1) \<Rightarrow> (Inl (ErrStore ''hold: get''), s1)
      | (True, s1) \<Rightarrow>
          (case map_of (pg_rows s1) (org, i) of
             None \<Rightarrow> (Inl ErrNotFound, s1)
           | Some h \<Rightarrow> (Inr (effective now h), s1)))"

text \<open>\<open>UPDATE ... SET state = ... WHERE org_id = .. AND decision_id = .. AND state = from\<close>:
  \<open>None\<close> when the statement failed, else whether a row was affected.\<close>

definition pg_update :: "State \<Rightarrow> (Hold \<Rightarrow> Hold) \<Rightarrow> string \<Rightarrow> string \<Rightarrow> PostgresStore \<Rightarrow> bool option \<times> PostgresStore" where
  "pg_update from f org i s =
     (case pg_begin s of
        (False, s1) \<Rightarrow> (None, s1)
      | (True, s1) \<Rightarrow>
          (case map_of (pg_rows s1) (org, i) of
             None \<Rightarrow> (Some False, s1)
           | Some h \<Rightarrow> if h_State h = from
                        then (Some True, s1\<lparr>pg_rows := alist_put (org, i) (f h) (pg_rows s1)\<rparr>)
                        else (Some False, s1)))"

definition set_captured :: "gotime \<Rightarrow> Hold \<Rightarrow> Hold" where
  "set_captured now h = h\<lparr>h_State := StateCaptured, h_CapturedAt := now\<rparr>"

definition set_voided :: "gotime \<Rightarrow> Hold \<Rightarrow> Hold" where
  "set_voided now h = h\<lparr>h_State := StateVoided, h_VoidedAt := now\<rparr>"

text \<open>\<open>Capture\<close> and \<open>Void\<close> call themselves when the conditional update found the row
  changed; \<open>None\<close> is a recursion deeper than the fuel.\<close>

fun Postgres_Capture :: "nat \<Rightarrow> gotime \<Rightarrow> string \<Rightarrow> string \<Rightarrow> PostgresStore
    \<Rightarrow> ((hold_error + Hold) \<times> PostgresStore) option" where
  "Postgres_Capture 0 now org i s = None"
| "Postgres_Capture (Suc n) now org i s =
     (case Postgres_Get now org i s of
        (Inl err, s1) \<Rightarrow> Some (Inl err, s1)
      | (Inr h, s1) \<Rightarrow>
          (case h_State h of
             StateCaptured \<Rightarrow> Some (Inr h, s1)
           | StateVoided \<Rightarrow> Some (Inl (conflict StateVoided ''capture'' ''the hold was voided''), s1)
           | StateExpired \<Rightarrow> Some (Inl (conflict StateExpired ''capture'' ''the hold expired before capture''), s1)
           | _ \<Rightarrow>
               (case pg_update StateHeld (set_captured now) org i s1 of
                  (None, s2) \<Rightarrow> Some (Inl (ErrStore ''hold: capture''), s2)
                | (Some False, s2) \<Rightarrow> Postgres_Capture n now org i s2
                | (Some True, s2) \<Rightarrow> Some (Postgres_Get now org i s2))))"

text \<open>The last read of \<open>Void\<close> on an expired hold drops its error: a failed read yields a
  nil hold with no error, modelled by \<open>hold_nil\<close>.\<close>

definition hold_nil :: Hold where
  "hold_nil = \<lparr>h_DecisionID = [], h_OrgID = [], h_AgentID = [], h_BudgetID = [], h_Window = [], h_WindowKey = [],
     h_Amount = [], h_Currency = [], h_State = StateUnset, h_CreatedAt = 0, h_ExpiresAt = 0, h_CapturedAt = 0,
     h_VoidedAt = 0\<rparr>"

fun Postgres_Void :: "nat \<Rightarrow> gotime \<Rightarrow> string \<Rightarrow> string \<Rightarrow> PostgresStore
    \<Rightarrow> ((hold_error + Hold \<times> bool) \<times> PostgresStore) option" where
  "Postgres_Void 0 now org i s = None"
| "Postgres_Void (Suc n) now org i s =
     (case Postgres_Get now org i s of
        (Inl err, s1) \<Rightarrow> Some (Inl err, s1)
      | (Inr h, s1) \<Rightarrow>
          (case h_State h of
             StateVoided \<Rightarrow> Some (Inr (h, False), s1)
           | StateExpired \<Rightarrow>
               (case pg_update StateExpired (set_voided now) org i s1 of
                  (None, s2) \<Rightarrow> Some (Inl (ErrStore ''hold: void(expired)''), s2)
                | (Some _, s2) \<Rightarrow>
                    (case Postgres_Get now org i s2 of
                       (Inl _, s3) \<Rightarrow> Some (Inr (hold_nil, False), s3)
                     | (Inr out, s3) \<Rightarrow> Some (Inr (out, False), s3)))
           | StateCaptured \<Rightarrow> Some (Inl (conflict StateCaptured ''void'' ''the hold was already captured''), s1)
           | _ \<Rightarrow>
               (case pg_update StateHeld (set_voided now) org i s1 of
                  (None, s2) \<Rightarrow> Some (Inl (ErrStore ''hold: void''), s2)
                | (Some False, s2) \<Rightarrow> Postgres_Void n now org i s2
                | (Some True, s2) \<Rightarrow>
                    (case Postgres_Get now org i s2 of
                       (Inl err, s3) \<Rightarrow> Some (Inl err, s3)
                     | (Inr out, s3) \<Rightarrow> Some (Inr (out, True), s3)))))"

text \<open>\<open>ExpireDue\<close>: the sub-select picks the due rows in order of their deadline.\<close>

definition pg_due_keys :: "gotime \<Rightarrow> int \<Rightarrow> pg_table \<Rightarrow> (string \<times> string) list" where
  "pg_due_keys now limit rows =
     map fst (take (nat limit) (sort_key (\<lambda>(k, h). h_ExpiresAt h)
       (filter (\<lambda>(k, h). h_State h = StateHeld \<and> h_ExpiresAt h \<le> now) rows)))"

definition Postgres_ExpireDue :: "gotime \<Rightarrow> int \<Rightarrow> PostgresStore \<Rightarrow> (hold_error + Hold list) \<times> PostgresStore" where
  "Postgres_ExpireDue now limit s =
     (case pg_begin s of
        (False, s1) \<Rightarrow> (Inl (ErrStore ''hold: expire due''), s1)
      | (True, s1) \<Rightarrow>
          (let ks = pg_due_keys now limit (pg_rows s1);
               expire = (\<lambda>h. h\<lparr>h_State := StateExpired\<rparr>) in
           (Inr (map (\<lambda>(k, h). expire h) (filter (\<lambda>(k, h). k \<in> set ks) (pg_rows s1))),
            s1\<lparr>pg_rows := map (\<lambda>(k, h). if k \<in> set ks then (k, expire h) else (k, h)) (pg_rows s1)\<rparr>)))"

definition Postgres_ListActiveByWindow ::
  "string \<Rightarrow> string \<Rightarrow> string \<Rightarrow> PostgresStore \<Rightarrow> (hold_error + Hold list) \<times> PostgresStore" where
  "Postgres_ListActiveByWindow org budgetID windowKey s =
     (case pg_begin s of
        (False, s1) \<Rightarrow> (Inl (ErrStore ''hold: list active''), s1)
      | (True, s1) \<Rightarrow> (Inr (filter (in_window org budgetID windowKey) (map snd (pg_rows s1))), s1))"

text \<open>The interface with the retry depth two, which lemma \<open>Postgres_Capture_returns\<close> shows
  to be enough.\<close>

definition pg_hold_ops :: "PostgresStore hold_ops" where
  "pg_hold_ops = \<lparr>ho_Place = Postgres_Place,
     ho_Capture = (\<lambda>now org i s. case Postgres_Capture 2 now org i s of Some r \<Rightarrow> r | None \<Rightarrow> (Inl (ErrStore ''retry''), s)),
     ho_Void = (\<lambda>now org i s. case Postgres_Void 2 now org i s of Some r \<Rightarrow> r | None \<Rightarrow> (Inl (ErrStore ''retry''), s)),
     ho_Get = Postgres_Get, ho_ExpireDue = Postgres_ExpireDue,
     ho_ListActiveByWindow = Postgres_ListActiveByWindow\<rparr>"

section \<open>The contract of a hold store\<close>

text \<open>What a hold counts for: organisation, budget, window and amount never change after it
  is placed. \<open>active_sum g\<close> adds a weight of these over the held and captured holds.\<close>

definition hold_core :: "Hold \<Rightarrow> string \<times> string \<times> string \<times> string" where
  "hold_core h = (h_OrgID h, h_BudgetID h, h_WindowKey h, h_Amount h)"

definition nonneg :: "('a \<Rightarrow> int) \<Rightarrow> bool" where
  "nonneg g \<longleftrightarrow> (\<forall>c. 0 \<le> g c)"

lemma nonnegD [simp]: "nonneg g \<Longrightarrow> 0 \<le> g c"
  by (simp only: nonneg_def)

definition active_weight :: "(string \<times> string \<times> string \<times> string \<Rightarrow> int) \<Rightarrow> Hold \<Rightarrow> int" where
  "active_weight g h = (if hold_active h then g (hold_core h) else 0)"

definition active_sum :: "(string \<times> string \<times> string \<times> string \<Rightarrow> int) \<Rightarrow> ('k \<times> Hold) list \<Rightarrow> int" where
  "active_sum g m = (\<Sum>p\<leftarrow>m. active_weight g (snd p))"

text \<open>The laws the reservation accounting relies on: placing adds at most the new hold's
  weight, a releasing void and an expiry remove at least the weight they report, nothing
  else adds weight, and the window listing is exactly the active holds of the window.\<close>

locale hold_store =
  fixes ops :: "'s hold_ops"
    and total :: "(string \<times> string \<times> string \<times> string \<Rightarrow> int) \<Rightarrow> 's \<Rightarrow> int"
    and inv :: "'s \<Rightarrow> bool"
  assumes place: "inv s \<Longrightarrow> nonneg g \<Longrightarrow> ho_Place ops now h s = (r, s') \<Longrightarrow>
      inv s' \<and> total g s' \<le> total g s + (if r = None then g (hold_core h) else 0)"
    and capture: "inv s \<Longrightarrow> nonneg g \<Longrightarrow> ho_Capture ops now org i s = (rc, s') \<Longrightarrow>
      inv s' \<and> total g s' \<le> total g s"
    and void: "inv s \<Longrightarrow> nonneg g \<Longrightarrow> ho_Void ops now org i s = (rv, s') \<Longrightarrow>
      inv s' \<and> total g s' + (case rv of Inr (h, True) \<Rightarrow> g (hold_core h) | _ \<Rightarrow> 0) \<le> total g s"
    and expire: "inv s \<Longrightarrow> nonneg g \<Longrightarrow> ho_ExpireDue ops now limit s = (re, s') \<Longrightarrow>
      inv s' \<and> total g s' + (case re of Inr hs \<Rightarrow> \<Sum>h\<leftarrow>hs. g (hold_core h) | Inl _ \<Rightarrow> 0) \<le> total g s"
    and get: "inv s \<Longrightarrow> nonneg g \<Longrightarrow> ho_Get ops now org i s = (rc, s') \<Longrightarrow>
      inv s' \<and> total g s' \<le> total g s"
    and list_active: "inv s \<Longrightarrow> ho_ListActiveByWindow ops org b wk s = (Inr hs, s') \<Longrightarrow>
      inv s' \<and> total g s' = total g s \<and>
      (\<Sum>h\<leftarrow>hs. g (hold_core h)) = total (\<lambda>(o', b', w', a). if o' = org \<and> b' = b \<and> w' = wk then g (o', b', w', a) else 0) s"
    and total_nonneg: "nonneg g \<Longrightarrow> 0 \<le> total g s"

section \<open>Sums over the ledger\<close>

lemma hold_core_simps [simp]:
  "hold_core (h\<lparr>h_State := st\<rparr>) = hold_core h" "hold_core (h\<lparr>h_CapturedAt := t\<rparr>) = hold_core h"
  "hold_core (h\<lparr>h_VoidedAt := t\<rparr>) = hold_core h" "hold_core (h\<lparr>h_CreatedAt := t\<rparr>) = hold_core h"
  "hold_core (set_captured now h) = hold_core h" "hold_core (set_voided now h) = hold_core h"
  "hold_core (effective now h) = hold_core h"
  by (simp_all add: hold_core_def set_captured_def set_voided_def effective_def)

lemma active_weight_simps [simp]:
  "active_weight g (h\<lparr>h_State := StateExpired\<rparr>) = 0"
  "active_weight g (set_voided now h) = 0"
  "active_weight g (set_captured now h) = g (hold_core h)"
  by (simp_all add: active_weight_def hold_active_def set_voided_def set_captured_def hold_core_def)

lemma active_weight_held: "h_State h = StateHeld \<Longrightarrow> active_weight g h = g (hold_core h)"
  by (simp add: active_weight_def hold_active_def)

lemma active_weight_nonneg: "nonneg g \<Longrightarrow> 0 \<le> active_weight g h"
  by (simp add: active_weight_def)

lemma active_weight_le: "nonneg g \<Longrightarrow> active_weight g h \<le> g (hold_core h)"
  by (simp add: active_weight_def)

lemma active_sum_nonneg: "nonneg g \<Longrightarrow> 0 \<le> active_sum g m"
  unfolding active_sum_def by (intro sum_list_nonneg) (auto intro: active_weight_nonneg)

lemma active_sum_fresh: "map_of m k = None \<Longrightarrow> active_sum g (alist_put k h m) = active_sum g m + active_weight g h"
  by (simp add: active_sum_def sum_alist_put_fresh)

lemma active_sum_over:
  "map_of m k = Some h0 \<Longrightarrow> active_sum g (alist_put k h m) = active_sum g m - active_weight g h0 + active_weight g h"
  by (simp add: active_sum_def sum_alist_put_over)

lemma list_active_sum:
  "(\<Sum>h\<leftarrow>filter (in_window org b wk) (map snd m). g (hold_core h)) =
     active_sum (\<lambda>(o', b', w', a). if o' = org \<and> b' = b \<and> w' = wk then g (o', b', w', a) else 0) m"
proof (induction m)
  case (Cons p m)
  then show ?case
    by (cases p) (auto simp: active_sum_def active_weight_def in_window_def hold_core_def)
qed (simp add: active_sum_def)

section \<open>MemStore implements the contract\<close>

lemma resolve_facts:
  assumes "nonneg g" and "MemStore_resolve now org i m = (r, m1)"
  shows "active_sum g m1 \<le> active_sum g m" and "r = map_of m1 (hold_key org i)"
proof -
  have w: "0 \<le> active_weight g h" for h using assms(1) by (rule active_weight_nonneg)
  show "active_sum g m1 \<le> active_sum g m" "r = map_of m1 (hold_key org i)"
    using assms(2) w by (auto simp: MemStore_resolve_def Let_def active_sum_over split: option.splits if_splits)
qed

lemma MemStore_Place_sum:
  assumes "nonneg g" and "MemStore_Place now h m = (r, m')"
  shows "active_sum g m' \<le> active_sum g m + (if r = None then g (hold_core h) else 0)"
proof (cases "map_of m (hold_key (h_OrgID h) (h_DecisionID h))")
  case None
  have "active_weight g (if time_IsZero (h_CreatedAt cp) then cp\<lparr>h_CreatedAt := now\<rparr> else cp) \<le> g (hold_core h)"
    if "hold_core cp = hold_core h" for cp
    using that active_weight_le [of g cp] active_weight_le [of g "cp\<lparr>h_CreatedAt := now\<rparr>"] assms(1) by simp
  from this [of "if h_State h = StateUnset then h\<lparr>h_State := StateHeld\<rparr> else h"] None assms(2) show ?thesis
    by (auto simp: MemStore_Place_def Let_def active_sum_fresh)
qed (use assms in \<open>auto simp: MemStore_Place_def Let_def\<close>)

lemma MemStore_Capture_sum:
  assumes "nonneg g" and "MemStore_Capture now org i m = (r, m')"
  shows "active_sum g m' \<le> active_sum g m"
proof -
  obtain h m1 where res: "MemStore_resolve now org i m = (h, m1)" by fastforce
  note f = resolve_facts [OF assms(1) res]
  show ?thesis
    using assms(2) f res
    by (auto simp: MemStore_Capture_def Let_def active_sum_over active_weight_held set_captured_def [symmetric]
        split: option.splits State.splits)
qed

lemma MemStore_Void_sum:
  assumes "nonneg g" and "MemStore_Void now org i m = (r, m')"
  shows "active_sum g m' + (case r of Inr (h, True) \<Rightarrow> g (hold_core h) | _ \<Rightarrow> 0) \<le> active_sum g m"
proof -
  obtain h m1 where res: "MemStore_resolve now org i m = (h, m1)" by fastforce
  note f = resolve_facts [OF assms(1) res]
  have "active_sum g m1 - active_weight g x \<le> active_sum g m" for x
    using f(1) active_weight_nonneg [OF assms(1), of x] by linarith
  with assms(2) f res show ?thesis
    by (auto simp: MemStore_Void_def Let_def active_sum_over active_weight_held set_voided_def [symmetric]
        split: option.splits State.splits)
qed

lemma ExpireDue_loop_sum:
  "ExpireDue_loop now limit out m = (out', m') \<Longrightarrow>
   active_sum g m' + (\<Sum>h\<leftarrow>out'. g (hold_core h)) = active_sum g m + (\<Sum>h\<leftarrow>out. g (hold_core h))"
proof (induction now limit out m arbitrary: out' m' rule: ExpireDue_loop.induct)
  case (2 now limit out k h m)
  show ?case
  proof (cases "limit > 0 \<and> int (length out) \<ge> limit")
    case False
    show ?thesis
    proof (cases "hold_due now h")
      case True
      obtain o2 m2 where rec: "ExpireDue_loop now limit (out @ [h\<lparr>h_State := StateExpired\<rparr>]) m = (o2, m2)" by fastforce
      have "active_weight g h = g (hold_core h)" using True by (simp add: hold_due_def active_weight_held)
      with 2(1) [OF False True refl rec] 2(3) False True rec show ?thesis
        by (auto simp: Let_def active_sum_def)
    next
      case nd: False
      obtain o2 m2 where rec: "ExpireDue_loop now limit out m = (o2, m2)" by fastforce
      with 2(2) [OF False nd rec] 2(3) False nd show ?thesis by (auto simp: active_sum_def)
    qed
  qed (use 2 in auto)
qed simp

lemma MemStore_Get_sum:
  assumes "nonneg g" and "MemStore_Get now org i m = (r, m')"
  shows "active_sum g m' \<le> active_sum g m"
proof -
  obtain h m1 where res: "MemStore_resolve now org i m = (h, m1)" by fastforce
  with resolve_facts(1) [OF assms(1) res] assms(2) show ?thesis
    by (auto simp: MemStore_Get_def split: option.splits)
qed

interpretation mem_store: hold_store mem_hold_ops active_sum "\<lambda>m. True"
proof
  show "True \<and> active_sum g s' + (case re of Inr hs \<Rightarrow> \<Sum>h\<leftarrow>hs. g (hold_core h) | Inl _ \<Rightarrow> 0) \<le> active_sum g s"
    if "ho_ExpireDue mem_hold_ops now limit s = (re, s')" for g now limit s re s'
    using that ExpireDue_loop_sum [of now limit "[]" s]
    by (auto simp: mem_hold_ops_def MemStore_ExpireDue_def split: prod.splits)
qed (auto simp: mem_hold_ops_def MemStore_ListActiveByWindow_def list_active_sum
      intro: active_sum_nonneg MemStore_Capture_sum MemStore_Void_sum MemStore_Get_sum dest: MemStore_Place_sum)

section \<open>PostgresStore implements the contract\<close>

text \<open>No other session interferes between two statements of an operation: interleavings of
  whole operations are the subject of the reservation system.\<close>

definition pg_quiet :: "PostgresStore \<Rightarrow> bool" where
  "pg_quiet s \<longleftrightarrow> distinct (map fst (pg_rows s)) \<and> (\<forall>e\<in>set (pg_sched s). e = PgOk \<or> e = PgFail)"

definition pg_total :: "(string \<times> string \<times> string \<times> string \<Rightarrow> int) \<Rightarrow> PostgresStore \<Rightarrow> int" where
  "pg_total g s = active_sum g (pg_rows s)"

lemma pg_begin_quiet:
  "pg_quiet s \<Longrightarrow> pg_begin s = (ok, s1) \<Longrightarrow> pg_quiet s1 \<and> pg_rows s1 = pg_rows s"
  by (auto simp: pg_begin_def pg_quiet_def split: list.splits pg_event.splits)

lemma Postgres_Get_quiet:
  assumes "pg_quiet s" and "Postgres_Get now org i s = (r, s1)"
  shows "pg_quiet s1 \<and> pg_rows s1 = pg_rows s \<and>
     (\<forall>h. r = Inr h \<longrightarrow> (\<exists>h0. map_of (pg_rows s) (org, i) = Some h0 \<and> h = effective now h0))"
proof -
  obtain ok s0 where b: "pg_begin s = (ok, s0)" by fastforce
  with pg_begin_quiet [OF assms(1) b] assms(2) show ?thesis
    by (auto simp: Postgres_Get_def split: bool.splits option.splits)
qed

lemma pg_update_quiet:
  assumes "pg_quiet s" and "pg_update from f org i s = (r, s1)"
  shows "pg_quiet s1 \<and>
     (if r = Some True
      then \<exists>h. map_of (pg_rows s) (org, i) = Some h \<and> h_State h = from \<and> pg_rows s1 = alist_put (org, i) (f h) (pg_rows s)
      else pg_rows s1 = pg_rows s)"
proof -
  obtain ok s0 where b: "pg_begin s = (ok, s0)" by fastforce
  with pg_begin_quiet [OF assms(1) b] assms(2) show ?thesis
    by (auto simp: pg_update_def pg_quiet_def split: bool.splits option.splits if_splits)
qed

lemma pg_update_None_or_hit:
  assumes "pg_quiet s" and "pg_update from f org i s = (Some False, s1)"
    and "map_of (pg_rows s) (org, i) = Some h"
  shows "h_State h \<noteq> from"
proof -
  obtain ok s0 where b: "pg_begin s = (ok, s0)" by fastforce
  with pg_begin_quiet [OF assms(1) b] assms(2,3) show ?thesis
    by (auto simp: pg_update_def split: bool.splits if_splits)
qed

lemma effective_State: "h_State (effective now h) = StateHeld \<Longrightarrow> h_State h = StateHeld"
  "h_State h \<noteq> StateHeld \<Longrightarrow> effective now h = h"
  by (auto simp: effective_def hold_due_def split: if_splits)

lemma Postgres_Place_quiet:
  assumes "pg_quiet s" and "nonneg g" and "Postgres_Place now h s = (r, s')"
  shows "pg_quiet s' \<and> pg_total g s' \<le> pg_total g s + (if r = None then g (hold_core h) else 0)"
proof -
  obtain ok s1 where b: "pg_begin s = (ok, s1)" by fastforce
  have "active_weight g (h\<lparr>h_State := StateHeld, h_CreatedAt := c, h_CapturedAt := 0, h_VoidedAt := 0\<rparr>) = g (hold_core h)" for c
    by (simp add: active_weight_def hold_active_def hold_core_def)
  with pg_begin_quiet [OF assms(1) b] b assms(2,3) show ?thesis
    by (auto simp: Postgres_Place_def Let_def pg_total_def active_sum_fresh pg_quiet_def
        split: bool.splits option.splits)
qed

lemma active_sum_update_held:
  assumes "map_of m k = Some h" and "h_State h = StateHeld"
  shows "active_sum g (alist_put k (set_captured now h) m) = active_sum g m"
    and "active_sum g (alist_put k (set_voided now h) m) = active_sum g m - g (hold_core h)"
  using assms by (simp_all add: active_sum_over active_weight_held)

lemma active_sum_void_expired:
  assumes "map_of m k = Some h" and "h_State h = StateExpired"
  shows "active_sum g (alist_put k (set_voided now h) m) = active_sum g m"
  using assms by (simp add: active_sum_over active_weight_def [of g h] hold_active_def)

lemma Postgres_Capture_quiet:
  "Postgres_Capture n now org i s = Some (r, s') \<Longrightarrow> pg_quiet s \<Longrightarrow> pg_quiet s' \<and> pg_total g s' = pg_total g s"
proof (induction n arbitrary: s)
  case (Suc n)
  obtain rg s1 where get: "Postgres_Get now org i s = (rg, s1)" by fastforce
  note q1 = Postgres_Get_quiet [OF Suc.prems(2) get]
  obtain u s2 where up: "pg_update StateHeld (set_captured now) org i s1 = (u, s2)" by fastforce
  note q2 = pg_update_quiet [OF conjunct1 [OF q1] up]
  obtain rg3 s3 where get3: "Postgres_Get now org i s2 = (rg3, s3)" by fastforce
  note q3 = Postgres_Get_quiet [OF conjunct1 [OF q2] get3]
  have hit: "u = Some True \<Longrightarrow> pg_total g s2 = pg_total g s"
    using q1 q2 by (auto simp: pg_total_def active_sum_update_held)
  have miss: "u \<noteq> Some True \<Longrightarrow> pg_total g s2 = pg_total g s"
    using q1 q2 by (auto simp: pg_total_def)
  show ?case
    using Suc.prems(1) get up get3 q1 q2 q3 hit miss Suc.IH [of s2]
    by (auto simp: pg_total_def split: sum.splits State.splits option.splits bool.splits)
qed simp

lemma Postgres_Void_quiet:
  "Postgres_Void n now org i s = Some (r, s') \<Longrightarrow> pg_quiet s \<Longrightarrow> nonneg g \<Longrightarrow>
   pg_quiet s' \<and> pg_total g s' + (case r of Inr (h, True) \<Rightarrow> g (hold_core h) | _ \<Rightarrow> 0) \<le> pg_total g s"
proof (induction n arbitrary: s)
  case (Suc n)
  obtain rg s1 where get: "Postgres_Get now org i s = (rg, s1)" by fastforce
  note q1 = Postgres_Get_quiet [OF Suc.prems(2) get]
  obtain u s2 where up: "pg_update StateHeld (set_voided now) org i s1 = (u, s2)" by fastforce
  note q2 = pg_update_quiet [OF conjunct1 [OF q1] up]
  obtain rg3 s3 where get3: "Postgres_Get now org i s2 = (rg3, s3)" by fastforce
  note q3 = Postgres_Get_quiet [OF conjunct1 [OF q2] get3]
  obtain ue se where upe: "pg_update StateExpired (set_voided now) org i s1 = (ue, se)" by fastforce
  note qe = pg_update_quiet [OF conjunct1 [OF q1] upe]
  obtain rg4 s4 where get4: "Postgres_Get now org i se = (rg4, s4)" by fastforce
  note q4 = Postgres_Get_quiet [OF conjunct1 [OF qe] get4]
  have hit: "u = Some True \<Longrightarrow> rg3 = Inr out \<Longrightarrow> pg_total g s3 + g (hold_core out) = pg_total g s" for out
    using q1 q2 q3 by (auto simp: pg_total_def active_sum_update_held)
  have hit': "u = Some True \<Longrightarrow> pg_total g s3 \<le> pg_total g s"
    using q1 q2 q3 Suc.prems(3) by (auto simp: pg_total_def active_sum_update_held)
  have miss: "u \<noteq> Some True \<Longrightarrow> pg_total g s2 = pg_total g s"
    using q1 q2 by (auto simp: pg_total_def)
  have exp: "pg_total g s4 = pg_total g s" "pg_total g se = pg_total g s"
    using q1 qe q4 by (auto simp: pg_total_def active_sum_void_expired split: if_splits)
  have q: "pg_quiet s1" "pg_quiet s2" "pg_quiet s3" "pg_quiet se" "pg_quiet s4" "pg_total g s1 = pg_total g s"
    using q1 q2 q3 qe q4 by (simp_all add: pg_total_def)
  show ?case
    using Suc.prems(1) get up get3 upe get4 q hit hit' miss exp Suc.IH [of s2, OF _ q(2) Suc.prems(3)]
    by (auto split: sum.splits State.splits option.splits bool.splits)
qed simp

lemma pg_expire_sum:
  "active_sum g (map (\<lambda>(k, h). if P k \<and> h_State h = StateHeld then (k, h\<lparr>h_State := StateExpired\<rparr>) else (k, h)) m)
     + (\<Sum>h\<leftarrow>map (\<lambda>(k, h). h\<lparr>h_State := StateExpired\<rparr>) (filter (\<lambda>(k, h). P k \<and> h_State h = StateHeld) m). g (hold_core h))
   = active_sum g m"
proof (induction m)
  case (Cons p m)
  then show ?case by (cases p) (auto simp: active_sum_def active_weight_held)
qed (simp add: active_sum_def)

text \<open>Keys are unique, so a row whose key the sub-select returned is the row it selected.\<close>

lemma pg_due_keys_held:
  assumes "distinct (map fst rows)" and "(k, h) \<in> set rows" and "k \<in> set (pg_due_keys now limit rows)"
  shows "h_State h = StateHeld \<and> h_ExpiresAt h \<le> now"
proof -
  from assms(3) obtain h' where "(k, h') \<in> set rows" and "h_State h' = StateHeld \<and> h_ExpiresAt h' \<le> now"
    unfolding pg_due_keys_def by (auto dest!: in_set_takeD)
  with assms(1,2) show ?thesis using eq_key_imp_eq_value by fastforce
qed

lemma Postgres_ExpireDue_quiet:
  assumes "pg_quiet s" and "Postgres_ExpireDue now limit s = (r, s')"
  shows "pg_quiet s' \<and> pg_total g s' + (case r of Inr hs \<Rightarrow> \<Sum>h\<leftarrow>hs. g (hold_core h) | Inl _ \<Rightarrow> 0) = pg_total g s"
proof -
  obtain ok s1 where b: "pg_begin s = (ok, s1)" by fastforce
  let ?ks = "set (pg_due_keys now limit (pg_rows s))"
  have held: "k \<in> ?ks \<longleftrightarrow> k \<in> ?ks \<and> h_State h = StateHeld" if "(k, h) \<in> set (pg_rows s)" for k h
    using assms(1) that pg_due_keys_held unfolding pg_quiet_def by blast
  have m: "map (\<lambda>(k, h). if k \<in> ?ks then (k, h\<lparr>h_State := StateExpired\<rparr>) else (k, h)) (pg_rows s) =
      map (\<lambda>(k, h). if k \<in> ?ks \<and> h_State h = StateHeld then (k, h\<lparr>h_State := StateExpired\<rparr>) else (k, h)) (pg_rows s)"
    using held by (intro map_cong) auto
  have f: "filter (\<lambda>(k, h). k \<in> ?ks) (pg_rows s) = filter (\<lambda>(k, h). k \<in> ?ks \<and> h_State h = StateHeld) (pg_rows s)"
    using held by (intro filter_cong) auto
  have d: "map fst (map (\<lambda>(k, h). if P k h then (k, h\<lparr>h_State := StateExpired\<rparr>) else (k, h)) rows) = map fst rows"
    for P and rows :: pg_table by (induction rows) auto
  show ?thesis
    using pg_begin_quiet [OF assms(1) b] b assms(2) pg_expire_sum [of g "\<lambda>k. k \<in> ?ks" "pg_rows s"]
    by (auto simp: Postgres_ExpireDue_def Let_def m f pg_total_def pg_quiet_def d simp del: map_map split: bool.splits)
qed

lemma pg_ops_Capture:
  assumes "pg_quiet s" and "ho_Capture pg_hold_ops now org i s = (r, s')"
  shows "pg_quiet s' \<and> pg_total g s' = pg_total g s"
proof (cases "Postgres_Capture 2 now org i s")
  case (Some x)
  with assms Postgres_Capture_quiet [of 2 now org i s] show ?thesis by (cases x) (auto simp: pg_hold_ops_def)
qed (use assms in \<open>auto simp: pg_hold_ops_def\<close>)

lemma pg_ops_Void:
  assumes "pg_quiet s" and "nonneg g" and "ho_Void pg_hold_ops now org i s = (r, s')"
  shows "pg_quiet s' \<and> pg_total g s' + (case r of Inr (h, True) \<Rightarrow> g (hold_core h) | _ \<Rightarrow> 0) \<le> pg_total g s"
proof (cases "Postgres_Void 2 now org i s")
  case (Some x)
  with assms Postgres_Void_quiet [of 2 now org i s] show ?thesis by (cases x) (auto simp: pg_hold_ops_def)
qed (use assms in \<open>auto simp: pg_hold_ops_def\<close>)

lemma pg_ops_List:
  assumes "pg_quiet s" and "Postgres_ListActiveByWindow org b wk s = (Inr hs, s')"
  shows "pg_quiet s' \<and> pg_total g s' = pg_total g s \<and>
      (\<Sum>h\<leftarrow>hs. g (hold_core h)) = pg_total (\<lambda>(o', b', w', a). if o' = org \<and> b' = b \<and> w' = wk then g (o', b', w', a) else 0) s"
proof -
  obtain ok s1 where b: "pg_begin s = (ok, s1)" by fastforce
  with pg_begin_quiet [OF assms(1) b] assms(2) show ?thesis
    by (cases ok) (auto simp: Postgres_ListActiveByWindow_def pg_total_def list_active_sum simp del: map_map filter_map)
qed

interpretation pg_store: hold_store pg_hold_ops pg_total pg_quiet
proof
  show "0 \<le> pg_total g s" if "nonneg g" for g s
    using that by (simp add: pg_total_def active_sum_nonneg)
  show "pg_quiet s' \<and> pg_total g s' + (case re of Inr hs \<Rightarrow> \<Sum>h\<leftarrow>hs. g (hold_core h) | Inl _ \<Rightarrow> 0) \<le> pg_total g s"
    if "pg_quiet s" "ho_ExpireDue pg_hold_ops now limit s = (re, s')" for g now limit s re s'
    using Postgres_ExpireDue_quiet [OF that(1), of now limit re s' g] that(2) by (simp add: pg_hold_ops_def)
  show "pg_quiet s' \<and> pg_total g s' \<le> pg_total g s"
    if "pg_quiet s" "ho_Capture pg_hold_ops now org i s = (rc, s')" for s g now org i rc s'
    using pg_ops_Capture [OF that, of g] by simp
  show "pg_quiet s' \<and> pg_total g s' + (case rv of Inr (h, True) \<Rightarrow> g (hold_core h) | _ \<Rightarrow> 0) \<le> pg_total g s"
    if "pg_quiet s" "nonneg g" "ho_Void pg_hold_ops now org i s = (rv, s')" for s g now org i rv s'
    using that by (rule pg_ops_Void)
  show "pg_quiet s' \<and> pg_total g s' = pg_total g s \<and>
      (\<Sum>h\<leftarrow>hs. g (hold_core h)) = pg_total (\<lambda>(o', b', w', a). if o' = org \<and> b' = b \<and> w' = wk then g (o', b', w', a) else 0) s"
    if "pg_quiet s" "ho_ListActiveByWindow pg_hold_ops org b wk s = (Inr hs, s')" for s org b wk hs s' g
    using that pg_ops_List [of s org b wk hs s' g] by (simp add: pg_hold_ops_def)
  show "pg_quiet s' \<and> pg_total g s' \<le> pg_total g s"
    if "pg_quiet s" "ho_Get pg_hold_ops now org i s = (rc, s')" for s g now org i rc s'
    using that Postgres_Get_quiet [of s now org i rc s'] by (simp add: pg_hold_ops_def pg_total_def)
qed (simp add: pg_hold_ops_def Postgres_Place_quiet)

section \<open>Retries\<close>

text \<open>What a concurrent session may do to the table: it keeps every row, in a legal state, and
  never turns a released or captured hold back into a held one.\<close>

definition proper_states :: "pg_table \<Rightarrow> bool" where
  "proper_states rows \<longleftrightarrow>
     (\<forall>k h. map_of rows k = Some h \<longrightarrow> h_State h \<in> {StateHeld, StateCaptured, StateVoided, StateExpired})"

definition well_behaved :: "(pg_table \<Rightarrow> pg_table) \<Rightarrow> bool" where
  "well_behaved f \<longleftrightarrow>
     (\<forall>rows. proper_states rows \<longrightarrow> proper_states (f rows) \<and>
       (\<forall>k h. map_of rows k = Some h \<longrightarrow>
          (\<exists>h'. map_of (f rows) k = Some h' \<and> (h_State h \<noteq> StateHeld \<longrightarrow> h_State h' \<noteq> StateHeld))))"

definition pg_sane :: "PostgresStore \<Rightarrow> bool" where
  "pg_sane s \<longleftrightarrow> proper_states (pg_rows s) \<and> (\<forall>f. PgRace f \<in> set (pg_sched s) \<longrightarrow> well_behaved f)"

definition released_row :: "string \<Rightarrow> string \<Rightarrow> PostgresStore \<Rightarrow> bool" where
  "released_row org i s \<longleftrightarrow> (\<exists>h. map_of (pg_rows s) (org, i) = Some h \<and> h_State h \<noteq> StateHeld)"

lemma pg_begin_sane:
  assumes "pg_sane s" and "pg_begin s = (ok, s1)"
  shows "pg_sane s1"
    and "map_of (pg_rows s) (org, i) \<noteq> None \<Longrightarrow> map_of (pg_rows s1) (org, i) \<noteq> None"
    and "released_row org i s \<Longrightarrow> released_row org i s1"
proof -
  have "pg_sane s1 \<and> (map_of (pg_rows s) (org, i) \<noteq> None \<longrightarrow> map_of (pg_rows s1) (org, i) \<noteq> None)
      \<and> (released_row org i s \<longrightarrow> released_row org i s1)"
  proof (cases "pg_sched s")
    case Nil
    with assms show ?thesis by (auto simp: pg_begin_def)
  next
    case (Cons e r)
    show ?thesis
    proof (cases e)
      case (PgRace f)
      with assms Cons have "well_behaved f" and "proper_states (pg_rows s)" by (auto simp: pg_sane_def)
      with assms Cons PgRace show ?thesis
        by (fastforce simp: pg_begin_def pg_sane_def well_behaved_def released_row_def)
    qed (use assms Cons in \<open>auto simp: pg_begin_def pg_sane_def released_row_def\<close>)
  qed
  then show "pg_sane s1"
    and "map_of (pg_rows s) (org, i) \<noteq> None \<Longrightarrow> map_of (pg_rows s1) (org, i) \<noteq> None"
    and "released_row org i s \<Longrightarrow> released_row org i s1" by blast+
qed

lemma Postgres_Get_sane:
  assumes "pg_sane s" and "Postgres_Get now org i s = (Inr h, s1)"
  shows "pg_sane s1" and "h_State h \<in> {StateHeld, StateCaptured, StateVoided, StateExpired}"
    and "map_of (pg_rows s1) (org, i) \<noteq> None" and "released_row org i s \<Longrightarrow> h_State h \<noteq> StateHeld"
proof -
  obtain ok s0 where b: "pg_begin s = (ok, s0)" by fastforce
  note sane = pg_begin_sane [OF assms(1) b]
  from b assms(2) obtain h0 where h0: "map_of (pg_rows s0) (org, i) = Some h0" "h = effective now h0" "s1 = s0"
    by (auto simp: Postgres_Get_def split: bool.splits option.splits)
  then have "h_State h0 \<in> {StateHeld, StateCaptured, StateVoided, StateExpired}"
    using sane(1) unfolding pg_sane_def proper_states_def by blast
  then show "h_State h \<in> {StateHeld, StateCaptured, StateVoided, StateExpired}"
    by (auto simp: h0(2) effective_def)
  show "pg_sane s1" "map_of (pg_rows s1) (org, i) \<noteq> None" using sane(1) h0 by simp_all
  show "h_State h \<noteq> StateHeld" if "released_row org i s"
    using sane(3) [OF that] h0 effective_State(1) [of now h0] by (auto simp: released_row_def)
qed

lemma pg_update_sane:
  assumes "pg_sane s" and "pg_update StateHeld f org i s = (Some False, s1)"
    and "map_of (pg_rows s) (org, i) \<noteq> None"
  shows "pg_sane s1 \<and> released_row org i s1"
proof -
  obtain ok s0 where b: "pg_begin s = (ok, s0)" by fastforce
  with pg_begin_sane(1) [OF assms(1) b] pg_begin_sane(2) [OF assms(1) b assms(3)] assms(2) show ?thesis
    by (auto simp: pg_update_def released_row_def split: bool.splits option.splits if_splits)
qed

lemma Postgres_Capture_released:
  assumes "pg_sane s" and "released_row org i s"
  shows "\<exists>x. Postgres_Capture (Suc n) now org i s = Some x"
proof -
  obtain r s1 where get: "Postgres_Get now org i s = (r, s1)" by fastforce
  show ?thesis
  proof (cases r)
    case (Inr h)
    with get have g: "Postgres_Get now org i s = (Inr h, s1)" by simp
    have "h_State h \<in> {StateCaptured, StateVoided, StateExpired}"
      using Postgres_Get_sane(2) [OF assms(1) g] Postgres_Get_sane(4) [OF assms(1) g assms(2)] by blast
    with g show ?thesis by (auto split: option.split)
  qed (use get in simp)
qed

lemma Postgres_Capture_returns:
  assumes "pg_sane s"
  shows "\<exists>x. Postgres_Capture (Suc (Suc n)) now org i s = Some x"
proof -
  obtain r s1 where get: "Postgres_Get now org i s = (r, s1)" by fastforce
  obtain u s2 where up: "pg_update StateHeld (set_captured now) org i s1 = (u, s2)" by fastforce
  note step = Postgres_Capture.simps(2) [of "Suc n" now org i s]
  show ?thesis
  proof (cases r)
    case (Inr h)
    with get have g: "Postgres_Get now org i s = (Inr h, s1)" by simp
    note sane = Postgres_Get_sane [OF assms g]
    show ?thesis
    proof (cases "h_State h = StateHeld \<and> u = Some False")
      case True
      then have "pg_sane s2 \<and> released_row org i s2" using pg_update_sane [OF sane(1) _ sane(3)] up by blast
      with Postgres_Capture_released [of s2 org i n now] g up True show ?thesis by (simp only: step) simp
    next
      case False
      with sane(2) g up show ?thesis
        by (simp only: step) (auto split: option.split bool.split option.split)
    qed
  qed (use get in \<open>simp only: step, simp\<close>)
qed

lemma Postgres_Void_released:
  assumes "pg_sane s" and "released_row org i s"
  shows "\<exists>x. Postgres_Void (Suc n) now org i s = Some x"
proof -
  obtain r s1 where get: "Postgres_Get now org i s = (r, s1)" by fastforce
  show ?thesis
  proof (cases r)
    case (Inr h)
    with get have g: "Postgres_Get now org i s = (Inr h, s1)" by simp
    have "h_State h \<in> {StateCaptured, StateVoided, StateExpired}"
      using Postgres_Get_sane(2) [OF assms(1) g] Postgres_Get_sane(4) [OF assms(1) g assms(2)] by blast
    with g show ?thesis by (auto split: option.split prod.split sum.split)
  qed (use get in simp)
qed

lemma Postgres_Void_returns:
  assumes "pg_sane s"
  shows "\<exists>x. Postgres_Void (Suc (Suc n)) now org i s = Some x"
proof -
  obtain r s1 where get: "Postgres_Get now org i s = (r, s1)" by fastforce
  obtain u s2 where up: "pg_update StateHeld (set_voided now) org i s1 = (u, s2)" by fastforce
  note step = Postgres_Void.simps(2) [of "Suc n" now org i s]
  show ?thesis
  proof (cases r)
    case (Inr h)
    with get have g: "Postgres_Get now org i s = (Inr h, s1)" by simp
    note sane = Postgres_Get_sane [OF assms g]
    show ?thesis
    proof (cases "h_State h = StateHeld \<and> u = Some False")
      case True
      then have "pg_sane s2 \<and> released_row org i s2" using pg_update_sane [OF sane(1) _ sane(3)] up by blast
      with Postgres_Void_released [of s2 org i n now] g up True show ?thesis by (simp only: step) simp
    next
      case False
      with sane(2) g up show ?thesis
        by (simp only: step) (auto split: option.split bool.split option.split prod.split sum.split)
    qed
  qed (use get in \<open>simp only: step, simp\<close>)
qed

section \<open>Lifecycle\<close>

text \<open>The state machine of the package comment.\<close>

definition legal_change :: "State \<Rightarrow> State \<Rightarrow> bool" where
  "legal_change a b \<longleftrightarrow> a = b \<or> (a = StateHeld \<and> b \<in> {StateCaptured, StateVoided, StateExpired})
     \<or> (a = StateExpired \<and> b = StateVoided)"

lemma legal_change_trans: "legal_change a b \<Longrightarrow> legal_change b c \<Longrightarrow> legal_change a c"
  by (auto simp: legal_change_def)

inductive mem_step :: "MemStore \<Rightarrow> MemStore \<Rightarrow> bool" where
  place: "MemStore_Place now h m = (r, m') \<Longrightarrow> mem_step m m'"
| capture: "MemStore_Capture now org i m = (rc, m') \<Longrightarrow> mem_step m m'"
| void: "MemStore_Void now org i m = (rv, m') \<Longrightarrow> mem_step m m'"
| get: "MemStore_Get now org i m = (rc, m') \<Longrightarrow> mem_step m m'"
| expire: "MemStore_ExpireDue now limit m = (re, m') \<Longrightarrow> mem_step m m'"

text \<open>Every hold of the first store is in the second, legally changed and counting for the
  same.\<close>

definition evolves :: "('k \<Rightarrow> Hold option) \<Rightarrow> ('k \<Rightarrow> Hold option) \<Rightarrow> bool" where
  "evolves m m' \<longleftrightarrow>
     (\<forall>k h. m k = Some h \<longrightarrow>
        (\<exists>h'. m' k = Some h' \<and> legal_change (h_State h) (h_State h') \<and> hold_core h' = hold_core h))"

lemma evolves_refl [simp]: "evolves m m"
  by (simp add: evolves_def legal_change_def)

lemma evolves_trans: "evolves m m' \<Longrightarrow> evolves m' m'' \<Longrightarrow> evolves m m''"
  unfolding evolves_def using legal_change_trans by fastforce

lemma evolves_put:
  "(\<And>h. m k = Some h \<Longrightarrow> legal_change (h_State h) (h_State x) \<and> hold_core x = hold_core h) \<Longrightarrow>
   evolves m (m(k \<mapsto> x))"
  by (simp add: evolves_def legal_change_def)

lemma resolve_evolves: "MemStore_resolve now org i m = (r, m') \<Longrightarrow> evolves (map_of m) (map_of m')"
  by (auto simp: MemStore_resolve_def Let_def hold_due_def legal_change_def intro!: evolves_put
      split: option.splits if_splits)

lemma resolve_lookup: "MemStore_resolve now org i m = (r, m') \<Longrightarrow> map_of m' (hold_key org i) = r"
  by (auto simp: MemStore_resolve_def Let_def split: option.splits if_splits)

lemma ExpireDue_evolves:
  "ExpireDue_loop now limit out m = (out', m') \<Longrightarrow> evolves (map_of m) (map_of m')"
proof (induction now limit out m arbitrary: out' m' rule: ExpireDue_loop.induct)
  case (2 now limit out k h m)
  then show ?case
    by (fastforce simp: Let_def evolves_def legal_change_def hold_due_def split: if_splits prod.splits)
qed simp

lemma mem_step_evolves: "mem_step m m' \<Longrightarrow> evolves (map_of m) (map_of m')"
proof (induction rule: mem_step.cases)
  case (place now h m r m')
  then show ?case by (auto simp: MemStore_Place_def Let_def intro!: evolves_put split: option.splits)
next
  case (capture now org i m rc m')
  obtain r m1 where res: "MemStore_resolve now org i m = (r, m1)" by fastforce
  have "evolves (map_of m1) (map_of m')"
    using capture res resolve_lookup [OF res]
    by (auto simp: MemStore_Capture_def Let_def legal_change_def intro!: evolves_put split: option.splits State.splits)
  with resolve_evolves [OF res] capture show ?case by (auto intro: evolves_trans)
next
  case (void now org i m rv m')
  obtain r m1 where res: "MemStore_resolve now org i m = (r, m1)" by fastforce
  have "evolves (map_of m1) (map_of m')"
    using void res resolve_lookup [OF res]
    by (auto simp: MemStore_Void_def Let_def legal_change_def intro!: evolves_put split: option.splits State.splits)
  with resolve_evolves [OF res] void show ?case by (auto intro: evolves_trans)
next
  case (get now org i m rc m')
  then show ?case by (auto simp: MemStore_Get_def intro: resolve_evolves split: prod.splits option.splits)
next
  case (expire now limit m re m')
  then show ?case by (auto simp: MemStore_ExpireDue_def intro: ExpireDue_evolves split: prod.splits)
qed

inductive pg_step :: "PostgresStore \<Rightarrow> PostgresStore \<Rightarrow> bool" where
  place: "Postgres_Place now h s = (r, s') \<Longrightarrow> pg_step s s'"
| capture: "Postgres_Capture n now org i s = Some (rc, s') \<Longrightarrow> pg_step s s'"
| void: "Postgres_Void n now org i s = Some (rv, s') \<Longrightarrow> pg_step s s'"
| get: "Postgres_Get now org i s = (rc, s') \<Longrightarrow> pg_step s s'"
| expire: "Postgres_ExpireDue now limit s = (re, s') \<Longrightarrow> pg_step s s'"
| listing: "Postgres_ListActiveByWindow org b wk s = (re, s') \<Longrightarrow> pg_step s s'"

lemma pg_update_evolves:
  assumes "pg_quiet s" and "pg_update from f org i s = (u, s')"
    and "\<And>h. h_State h = from \<Longrightarrow> legal_change from (h_State (f h)) \<and> hold_core (f h) = hold_core h"
  shows "evolves (map_of (pg_rows s)) (map_of (pg_rows s'))"
  using pg_update_quiet [OF assms(1,2)] assms(3) by (auto intro!: evolves_put split: if_splits)

lemma set_changes_legal:
  "h_State h = StateHeld \<Longrightarrow> legal_change StateHeld (h_State (set_captured now h)) \<and> hold_core (set_captured now h) = hold_core h"
  "h_State h = StateHeld \<Longrightarrow> legal_change StateHeld (h_State (set_voided now h)) \<and> hold_core (set_voided now h) = hold_core h"
  "h_State h = StateExpired \<Longrightarrow> legal_change StateExpired (h_State (set_voided now h)) \<and> hold_core (set_voided now h) = hold_core h"
  by (simp_all add: legal_change_def) (simp_all add: set_captured_def set_voided_def)

lemma Postgres_Capture_evolves:
  "Postgres_Capture n now org i s = Some (r, s') \<Longrightarrow> pg_quiet s \<Longrightarrow> evolves (map_of (pg_rows s)) (map_of (pg_rows s'))"
proof (induction n arbitrary: s)
  case (Suc n)
  obtain rg s1 where get: "Postgres_Get now org i s = (rg, s1)" by fastforce
  note q1 = Postgres_Get_quiet [OF Suc.prems(2) get]
  obtain u s2 where up: "pg_update StateHeld (set_captured now) org i s1 = (u, s2)" by fastforce
  note q2 = pg_update_quiet [OF conjunct1 [OF q1] up]
  have e: "evolves (map_of (pg_rows s)) (map_of (pg_rows s2))"
    using pg_update_evolves [OF conjunct1 [OF q1] up set_changes_legal(1)] q1 by simp
  obtain rg3 s3 where get3: "Postgres_Get now org i s2 = (rg3, s3)" by fastforce
  have rows: "pg_rows s1 = pg_rows s" "pg_rows s3 = pg_rows s2"
    using q1 Postgres_Get_quiet [OF conjunct1 [OF q2] get3] by simp_all
  show ?case
    using Suc.prems(1) get up get3 rows e evolves_trans [OF e Suc.IH [of s2, OF _ conjunct1 [OF q2]]]
    by (auto split: sum.splits State.splits option.splits bool.splits)
qed simp

lemma Postgres_Void_evolves:
  "Postgres_Void n now org i s = Some (r, s') \<Longrightarrow> pg_quiet s \<Longrightarrow> evolves (map_of (pg_rows s)) (map_of (pg_rows s'))"
proof (induction n arbitrary: s)
  case (Suc n)
  obtain rg s1 where get: "Postgres_Get now org i s = (rg, s1)" by fastforce
  note q1 = Postgres_Get_quiet [OF Suc.prems(2) get]
  obtain u s2 where up: "pg_update StateHeld (set_voided now) org i s1 = (u, s2)" by fastforce
  note q2 = pg_update_quiet [OF conjunct1 [OF q1] up]
  have e: "evolves (map_of (pg_rows s)) (map_of (pg_rows s2))"
    using pg_update_evolves [OF conjunct1 [OF q1] up set_changes_legal(2)] q1 by simp
  obtain rg3 s3 where get3: "Postgres_Get now org i s2 = (rg3, s3)" by fastforce
  note q3 = Postgres_Get_quiet [OF conjunct1 [OF q2] get3]
  obtain ue se where upe: "pg_update StateExpired (set_voided now) org i s1 = (ue, se)" by fastforce
  note qe = pg_update_quiet [OF conjunct1 [OF q1] upe]
  have e': "evolves (map_of (pg_rows s)) (map_of (pg_rows se))"
    using pg_update_evolves [OF conjunct1 [OF q1] upe set_changes_legal(3)] q1 by simp
  obtain rg4 s4 where get4: "Postgres_Get now org i se = (rg4, s4)" by fastforce
  note q4 = Postgres_Get_quiet [OF conjunct1 [OF qe] get4]
  have rows: "pg_rows s1 = pg_rows s" "pg_rows s3 = pg_rows s2" "pg_rows s4 = pg_rows se"
    using q1 q3 q4 by simp_all
  show ?case
    using Suc.prems(1) get up get3 upe get4 rows e e' evolves_trans [OF e Suc.IH [of s2, OF _ conjunct1 [OF q2]]]
    by (auto split: sum.splits State.splits option.splits bool.splits)
qed simp

lemma Postgres_Place_evolves:
  assumes "pg_quiet s" and "Postgres_Place now h s = (r, s')"
  shows "evolves (map_of (pg_rows s)) (map_of (pg_rows s'))"
proof -
  obtain ok s1 where b: "pg_begin s = (ok, s1)" by fastforce
  with pg_begin_quiet [OF assms(1) b] assms(2) show ?thesis
    by (auto simp: Postgres_Place_def Let_def intro!: evolves_put split: bool.splits option.splits)
qed

lemma map_of_map_vals: "map_of (map (\<lambda>(k, h). if P k then (k, f h) else (k, h)) m) k =
    map_option (\<lambda>h. if P k then f h else h) (map_of m k)"
  by (induction m) auto

lemma Postgres_ExpireDue_evolves:
  assumes "pg_quiet s" and "Postgres_ExpireDue now limit s = (r, s')"
  shows "evolves (map_of (pg_rows s)) (map_of (pg_rows s'))"
proof -
  obtain ok s1 where b: "pg_begin s = (ok, s1)" by fastforce
  have "h_State h = StateHeld" if "map_of (pg_rows s) k = Some h" "k \<in> set (pg_due_keys now limit (pg_rows s))" for k h
    using pg_due_keys_held [OF _ map_of_SomeD [OF that(1)] that(2)] assms(1) by (simp add: pg_quiet_def)
  with pg_begin_quiet [OF assms(1) b] b assms(2) show ?thesis
    by (auto simp: Postgres_ExpireDue_def Let_def evolves_def legal_change_def map_of_map_vals split: bool.splits)
qed

lemma pg_step_evolves: "pg_step s s' \<Longrightarrow> pg_quiet s \<Longrightarrow> pg_quiet s' \<and> evolves (map_of (pg_rows s)) (map_of (pg_rows s'))"
proof (induction rule: pg_step.cases)
  case (place now h s r s')
  then show ?case using Postgres_Place_quiet [of s "\<lambda>_. 0"] Postgres_Place_evolves by (simp add: nonneg_def)
next
  case (capture n now org i s rc s')
  then show ?case using Postgres_Capture_quiet Postgres_Capture_evolves by metis
next
  case (void n now org i s rv s')
  then show ?case using Postgres_Void_quiet [of n now org i s rv s' "\<lambda>_. 0"] Postgres_Void_evolves
    by (simp add: nonneg_def)
next
  case (get now org i s rc s')
  then show ?case using Postgres_Get_quiet [of s now org i rc s'] by simp
next
  case (expire now limit s re s')
  then show ?case using Postgres_ExpireDue_quiet Postgres_ExpireDue_evolves by metis
next
  case (listing org b wk s re s')
  obtain ok s1 where b: "pg_begin s = (ok, s1)" by fastforce
  with listing have "s' = s1" by (cases ok) (auto simp: Postgres_ListActiveByWindow_def)
  with pg_begin_quiet [OF _ b] listing show ?case by simp
qed

lemma mem_steps_evolve: "mem_step\<^sup>*\<^sup>* m m' \<Longrightarrow> evolves (map_of m) (map_of m')"
  by (induction rule: rtranclp_induct) (auto intro: evolves_trans mem_step_evolves)

lemma pg_steps_evolve:
  "pg_step\<^sup>*\<^sup>* s s' \<Longrightarrow> pg_quiet s \<Longrightarrow> pg_quiet s' \<and> evolves (map_of (pg_rows s)) (map_of (pg_rows s'))"
  by (induction rule: rtranclp_induct) (auto intro: evolves_trans dest: pg_step_evolves)

section \<open>An example ledger\<close>

definition demo_hold :: Hold where
  "demo_hold = hold_nil\<lparr>h_DecisionID := ''d1'', h_OrgID := ''org'', h_BudgetID := ''daily'', h_Window := ''day'',
     h_WindowKey := ''2026-01-01'', h_Amount := ''40.00'', h_State := StateHeld, h_CreatedAt := 1, h_ExpiresAt := 100\<rparr>"

definition demo_pg :: "pg_event list \<Rightarrow> PostgresStore" where
  "demo_pg sched = \<lparr>pg_rows = [((''org'', ''d1''), demo_hold)], pg_sched = sched\<rparr>"

text \<open>Another session voids the row.\<close>

definition demo_race :: pg_event where
  "demo_race = PgRace (map (\<lambda>(k, h). (k, set_voided 5 h)))"

lemma map_of_set_voided: "map_of (map (\<lambda>(k, h). (k, set_voided t h)) rows) k = map_option (set_voided t) (map_of rows k)"
  by (induction rows) auto

lemma demo_race_sane: "pg_sane (demo_pg [PgOk, demo_race])"
  by (auto simp: pg_sane_def demo_pg_def demo_race_def demo_hold_def proper_states_def well_behaved_def
      map_of_set_voided) (simp_all add: set_voided_def)

section \<open>Properties\<close>

text \<open>C27: the lifecycle of a hold. Whatever sequence of operations runs, in memory or on the
  Postgres ledger, a hold once placed stays, keeps its organisation, budget, window and
  amount, and changes state only along held to captured, voided or expired and expired to
  voided: a captured hold is never released and a released one never counts again.\<close>

theorem hold_lifecycle:
  "(mem_step\<^sup>*\<^sup>* m m' \<longrightarrow> evolves (map_of m) (map_of m'))
 \<and> (pg_step\<^sup>*\<^sup>* s s' \<longrightarrow> pg_quiet s \<longrightarrow> evolves (map_of (pg_rows s)) (map_of (pg_rows s')))"
  using mem_steps_evolve pg_steps_evolve by blast

theorem hold_lifecycle_witness:
  "\<exists>s'. pg_step\<^sup>*\<^sup>* (demo_pg []) s' \<and> evolves (map_of (pg_rows (demo_pg []))) (map_of (pg_rows s'))
     \<and> h_State (the (map_of (pg_rows s') (''org'', ''d1''))) = StateCaptured"
proof -
  let ?s' = "\<lparr>pg_rows = [((''org'', ''d1''), set_captured 50 demo_hold)], pg_sched = []\<rparr>"
  have "Postgres_Capture 2 50 ''org'' ''d1'' (demo_pg []) = Some (Inr (set_captured 50 demo_hold), ?s')"
    by (simp add: numeral_2_eq_2 Postgres_Get_def pg_begin_def demo_pg_def pg_update_def effective_def hold_due_def
        demo_hold_def set_captured_def time_IsZero_def)
  then have "pg_step\<^sup>*\<^sup>* (demo_pg []) ?s'" by (blast intro: pg_step.capture)
  moreover have "pg_quiet (demo_pg [])" by (simp add: pg_quiet_def demo_pg_def)
  ultimately have "pg_step\<^sup>*\<^sup>* (demo_pg []) ?s' \<and> evolves (map_of (pg_rows (demo_pg []))) (map_of (pg_rows ?s'))"
    using hold_lifecycle [of "[]" "[]" "demo_pg []" ?s'] by blast
  moreover have "h_State (the (map_of (pg_rows ?s') (''org'', ''d1''))) = StateCaptured"
    by (simp add: set_captured_def)
  ultimately show ?thesis by blast
qed

text \<open>C28: capture and void on the Postgres ledger always return: when the conditional update
  loses a race against other sessions that obey the lifecycle, one retry is enough.\<close>

theorem capture_void_retry_bounded:
  assumes "pg_sane s" and "2 \<le> n"
  shows "(\<exists>r. Postgres_Capture n now org i s = Some r) \<and> (\<exists>r. Postgres_Void n now org i s = Some r)"
proof -
  obtain k where "n = Suc (Suc k)" using assms(2) by (metis Suc_le_D numeral_2_eq_2 Suc_le_mono)
  then show ?thesis using Postgres_Capture_returns [OF assms(1)] Postgres_Void_returns [OF assms(1)] by simp
qed

theorem capture_void_retry_bounded_witness:
  "(\<exists>r. Postgres_Capture 2 50 ''org'' ''d1'' (demo_pg [PgOk, demo_race]) = Some r)
 \<and> Postgres_Capture 1 50 ''org'' ''d1'' (demo_pg [PgOk, demo_race]) = None"
proof
  show "\<exists>r. Postgres_Capture 2 50 ''org'' ''d1'' (demo_pg [PgOk, demo_race]) = Some r"
    using capture_void_retry_bounded [OF demo_race_sane, of 2] by blast
  show "Postgres_Capture 1 50 ''org'' ''d1'' (demo_pg [PgOk, demo_race]) = None"
    by (simp add: Postgres_Get_def pg_begin_def demo_pg_def pg_update_def effective_def hold_due_def
        demo_hold_def demo_race_def set_voided_def time_IsZero_def)
qed

text \<open>The two stores are interchangeable: on the same hold, an undisturbed Postgres
  ledger answers capture exactly as the in-memory store does, and void too unless the hold
  is past its deadline and not yet reconciled - there the in-memory store reports it voided
  and Postgres leaves it to the reconciler; neither reports a release.\<close>

theorem stores_agree:
  assumes "map_of m (hold_key org i) = map_of rows (org, i)" and "proper_states rows"
  shows "let s = \<lparr>pg_rows = rows, pg_sched = []\<rparr>;
             rm = MemStore_Void now org i m; rp = the (Postgres_Void 2 now org i s) in
     fst (MemStore_Capture now org i m) = fst (the (Postgres_Capture 2 now org i s))
   \<and> (if \<exists>h. map_of rows (org, i) = Some h \<and> hold_due now h
      then (\<exists>h h'. fst rm = Inr (h, False) \<and> fst rp = Inr (h', False) \<and> h_State h = StateVoided \<and> h_State h' = StateExpired)
      else fst rm = fst rp)"
proof (cases "map_of rows (org, i)")
  case None
  with assms(1) show ?thesis
    by (simp add: numeral_2_eq_2 Let_def MemStore_Capture_def MemStore_Void_def MemStore_resolve_def
        Postgres_Get_def pg_begin_def)
next
  case (Some h)
  have st: "h_State h \<in> {StateHeld, StateCaptured, StateVoided, StateExpired}"
    using assms(2) Some unfolding proper_states_def by blast
  show ?thesis
  proof (cases "hold_due now h")
    case True
    then have "h_State h = StateHeld" by (simp add: hold_due_def)
    with True Some assms(1) show ?thesis
      by (simp add: numeral_2_eq_2 Let_def MemStore_Capture_def MemStore_Void_def MemStore_resolve_def
          Postgres_Get_def pg_begin_def pg_update_def effective_def)
  next
    case False
    then have "\<not> hold_due now (set_captured now h)" "\<not> hold_due now (set_voided now h)"
      by (simp_all add: hold_due_def set_captured_def set_voided_def)
    with False Some assms(1) st show ?thesis
      by (auto simp: numeral_2_eq_2 Let_def MemStore_Capture_def MemStore_Void_def MemStore_resolve_def
          Postgres_Get_def pg_begin_def pg_update_def effective_def)
         (simp_all add: set_captured_def set_voided_def)
  qed
qed

theorem stores_agree_witness:
  "fst (MemStore_Capture 50 ''org'' ''d1'' [(''org|d1'', demo_hold)])
     = fst (the (Postgres_Capture 2 50 ''org'' ''d1'' \<lparr>pg_rows = [((''org'', ''d1''), demo_hold)], pg_sched = []\<rparr>))"
proof -
  have "proper_states [((''org'', ''d1''), demo_hold)]"
    by (simp add: proper_states_def demo_hold_def)
  with stores_agree [of "[(''org|d1'', demo_hold)]" "''org''" "''d1''" "[((''org'', ''d1''), demo_hold)]" 50]
  show ?thesis by (simp add: hold_key_def Let_def)
qed

text \<open>A read that meets a hold past its deadline marks it expired in place; the reconciler's
  \<open>ExpireDue\<close>, which only returns holds it expires itself, then never sees it, and a void no
  longer releases it either.\<close>

lemma mem_lazy_expiry_skips_release:
  "let m = [(''org|d1'', demo_hold)]; m1 = snd (MemStore_Get 200 ''org'' ''d1'' m) in
     fst (MemStore_ExpireDue 200 0 m) = Inr [demo_hold\<lparr>h_State := StateExpired\<rparr>]
   \<and> fst (MemStore_ExpireDue 200 0 m1) = Inr []
   \<and> (\<exists>h. fst (MemStore_Void 200 ''org'' ''d1'' m1) = Inr (h, False))"
  by (simp add: MemStore_Get_def MemStore_resolve_def MemStore_ExpireDue_def MemStore_Void_def hold_key_def
      hold_due_def demo_hold_def time_IsZero_def Let_def)

text \<open>A void whose read-back fails has released the hold in the ledger but reports an error,
  and the repeated void reports no release.\<close>

lemma pg_void_readback_loses_release:
  "\<exists>s1 h. Postgres_Void 2 50 ''org'' ''d1'' (demo_pg [PgOk, PgOk, PgFail]) = Some (Inl (ErrStore ''hold: get''), s1)
     \<and> h_State (the (map_of (pg_rows s1) (''org'', ''d1''))) = StateVoided
     \<and> Postgres_Void 2 60 ''org'' ''d1'' s1 = Some (Inr (h, False), s1)"
  by (simp add: numeral_2_eq_2 Postgres_Get_def pg_begin_def demo_pg_def pg_update_def effective_def hold_due_def
      demo_hold_def set_voided_def time_IsZero_def)

end
