(* ===== verification/Calendar.thy ===== *)
theory Calendar
  imports Go_Time
begin

text \<open>
  The calendar of \<open>Go_Time\<close> is correct: the year of a day number is the one whose days
  enclose it, the date determines the day, and the printed date or month determines the day
  or the month. Budget windows are named by these strings.
\<close>

section \<open>Days, years, months\<close>

lemma year_of_days_enclosing:
  assumes "0 \<le> d" and "y = year_of_days d" and "n = d - days_before_year y"
  shows "1 \<le> y \<and> 0 \<le> n \<and> n < (if is_leap y then 366 else 365)"
proof -
  define n400 d1 where "n400 = d div 146097" and "d1 = d mod 146097"
  define n100 d2 where "n100 = min 3 (d1 div 36524)" and "d2 = d1 - 36524 * n100"
  define n4 d3 where "n4 = d2 div 1461" and "d3 = d2 mod 1461"
  define n1 where "n1 = min 3 (d3 div 365)"
  have y: "y = 400 * n400 + 100 * n100 + 4 * n4 + n1 + 1"
    by (simp add: assms(2) year_of_days_def Let_def n400_def d1_def n100_def d2_def n4_def d3_def n1_def)
  have r1: "d = 146097 * n400 + d1" "0 \<le> d1" "d1 < 146097" "0 \<le> n400" using assms(1) by (auto simp: n400_def d1_def)
  have r2: "0 \<le> n100" "n100 \<le> 3" "d1 = 36524 * n100 + d2" "0 \<le> d2" "d2 < 36524 \<or> n100 = 3 \<and> d2 < 36525"
    using r1 by (auto simp: n100_def d2_def min_def)
  have r3: "0 \<le> n4" "n4 \<le> 24" "d2 = 1461 * n4 + d3" "0 \<le> d3" "d3 < 1461" "n4 = 24 \<Longrightarrow> n100 < 3 \<Longrightarrow> d3 < 1460"
    using r2 mult_div_mod_eq [of 1461 d2] by (auto simp: n4_def d3_def)
  have r4: "0 \<le> n1" "n1 \<le> 3" "365 * n1 \<le> d3" "d3 - 365 * n1 < 365 \<or> n1 = 3 \<and> d3 = 1460"
    using r3 by (auto simp: n1_def min_def)
  have q: "(y - 1) div 4 = 100 * n400 + 25 * n100 + n4" "(y - 1) div 100 = 4 * n400 + n100" "(y - 1) div 400 = n400"
    using r2 r3 r4 by (auto simp: y)
  have n: "n = d3 - 365 * n1"
    by (simp add: assms(3) days_before_year_def q r1(1) r2(3) r3(3)) (simp add: y)
  have "is_leap y" if "n1 = 3" "d3 = 1460"
  proof -
    have "y mod 4 = 0" using that by (simp add: y)
    moreover have "y mod 100 \<noteq> 0 \<or> y mod 400 = 0"
    proof (cases "n4 = 24")
      case True
      then have "n100 = 3" using r3(6) r2(2) that by fastforce
      with True that show ?thesis by (simp add: y)
    next
      case False
      then have "4 * n4 + 4 < 100" "0 < 4 * n4 + 4" using r3 by auto
      then have "(4 * n4 + 4) mod 100 = 4 * n4 + 4" by simp
      moreover have "y mod 100 = (4 * n4 + 4) mod 100"
      proof -
        have "y = (4 * n4 + 4) + 100 * (4 * n400 + n100)" using that by (simp add: y)
        then show ?thesis by (simp only: mod_mult_self2)
      qed
      ultimately show ?thesis using \<open>0 < 4 * n4 + 4\<close> by linarith
    qed
    ultimately show ?thesis by (simp add: is_leap_def)
  qed
  with n r1 r2 r3 r4 y show ?thesis by auto
qed

lemma daysIn_bounds: "28 \<le> daysIn m y" "daysIn m y \<le> 31"
  by (simp_all add: daysIn_def)

lemma month_day_exact:
  assumes "0 \<le> n" and "n < (if is_leap y then 366 else 365)" and "month_day y [1, 2, 3, 4, 5, 6, 7, 8, 9, 10, 11, 12] n = (m, d)"
  shows "1 \<le> m \<and> m \<le> 12 \<and> 1 \<le> d \<and> d \<le> 31 \<and> n = days_before_month m y + (d - 1)"
  using assms by (auto simp: days_before_month_def daysIn_def split: if_splits)

lemma time_Date_exact:
  assumes "0 \<le> t" and "time_Date t = (y, m, d)"
  shows "1 \<le> y \<and> 1 \<le> m \<and> m \<le> 12 \<and> 1 \<le> d \<and> d \<le> 31 \<and> time_days t = days_of_date y m d"
proof -
  have "0 \<le> time_days t" using assms(1) by (simp add: time_days_def)
  have "y = year_of_days (time_days t)" and md: "month_day y [1, 2, 3, 4, 5, 6, 7, 8, 9, 10, 11, 12] (time_days t - days_before_year y) = (m, d)"
    using assms(2) by (auto simp: time_Date_def date_of_days_def date_in_year_def simp del: month_day.simps)
  then have "1 \<le> y \<and> 0 \<le> time_days t - days_before_year y \<and>
      time_days t - days_before_year y < (if is_leap y then 366 else 365)"
    using year_of_days_enclosing [OF \<open>0 \<le> time_days t\<close> _ refl] by blast
  with md have "1 \<le> y \<and> 1 \<le> m \<and> m \<le> 12 \<and> 1 \<le> d \<and> d \<le> 31 \<and> time_days t - days_before_year y = days_before_month m y + (d - 1)"
    using month_day_exact by blast
  then show ?thesis unfolding days_of_date_def by linarith
qed

section \<open>Printed dates\<close>

lemma pad_nat_digits: "list_all is_digit (pad_nat w n)"
  using nat_str_digits [of n] by (auto simp: pad_nat_def Let_def list_all_iff is_digit_def)

lemma digits_val_zeros: "digits_val 0 (replicate k CHR ''0'' @ ds) = digits_val 0 ds"
  by (induction k) (simp_all add: digit_val_def)

lemma pad_int_inject: "0 \<le> i \<Longrightarrow> 0 \<le> j \<Longrightarrow> pad_int w i = pad_int w j \<Longrightarrow> i = j"
proof -
  assume ij: "0 \<le> i" "0 \<le> j" "pad_int w i = pad_int w j"
  then have "digits_val 0 (pad_nat w (nat i)) = digits_val 0 (pad_nat w (nat j))" by (simp add: pad_int_def)
  with ij show ?thesis by (simp add: pad_nat_def Let_def digits_val_zeros digits_val_nat_str)
qed

lemma pad_int_no: "1 \<le> i \<Longrightarrow> CHR ''-'' \<notin> set (pad_int w i)" "1 \<le> i \<Longrightarrow> CHR '':'' \<notin> set (pad_int w i)"
  using pad_nat_digits [of w "nat i"] by (auto simp: pad_int_def list_all_iff is_digit_def)

lemma append_sep_inject:
  assumes "c \<notin> set xs" and "c \<notin> set ys" and "xs @ c # r = ys @ c # r'"
  shows "xs = ys \<and> r = r'"
proof -
  have "xs = takeWhile (\<lambda>x. x \<noteq> c) (xs @ c # r)" using assms(1) by (simp add: takeWhile_append takeWhile_eq_all_conv [THEN iffD2])
  moreover have "ys = takeWhile (\<lambda>x. x \<noteq> c) (ys @ c # r')" using assms(2) by (simp add: takeWhile_append takeWhile_eq_all_conv [THEN iffD2])
  ultimately show ?thesis using assms(3) by simp
qed

lemma format_month_inject:
  assumes "0 \<le> t" "0 \<le> u" "format_month t = format_month u" "time_Date t = (y, m, d)" "time_Date u = (y', m', d')"
  shows "y = y' \<and> m = m'"
proof -
  note ds = time_Date_exact [OF assms(1,4)] time_Date_exact [OF assms(2,5)]
  from assms(3-5) have "pad_int 4 y @ CHR ''-'' # pad_int 2 m = pad_int 4 y' @ CHR ''-'' # pad_int 2 m'"
    by (simp add: format_month_def)
  then have "pad_int 4 y = pad_int 4 y' \<and> pad_int 2 m = pad_int 2 m'"
    by (rule append_sep_inject [rotated 2]) (use ds in \<open>auto dest: pad_int_no\<close>)
  with ds show ?thesis using pad_int_inject [of y y' 4] pad_int_inject [of m m' 2] by auto
qed

lemma format_date_inject:
  assumes "0 \<le> t" "0 \<le> u" "format_date t = format_date u"
  shows "time_days t = time_days u"
proof -
  obtain y m d where t: "time_Date t = (y, m, d)" by (metis prod.exhaust)
  obtain y' m' d' where u: "time_Date u = (y', m', d')" by (metis prod.exhaust)
  note ds = time_Date_exact [OF assms(1) t] time_Date_exact [OF assms(2) u]
  from assms(3) t u have eq: "pad_int 4 y @ CHR ''-'' # (pad_int 2 m @ CHR ''-'' # pad_int 2 d) =
      pad_int 4 y' @ CHR ''-'' # (pad_int 2 m' @ CHR ''-'' # pad_int 2 d')"
    by (simp add: format_date_def)
  have one: "pad_int 4 y = pad_int 4 y' \<and> pad_int 2 m @ CHR ''-'' # pad_int 2 d = pad_int 2 m' @ CHR ''-'' # pad_int 2 d'"
    by (rule append_sep_inject [OF _ _ eq]) (use ds in \<open>auto dest: pad_int_no\<close>)
  have two: "pad_int 2 m = pad_int 2 m' \<and> pad_int 2 d = pad_int 2 d'"
    by (rule append_sep_inject [OF _ _ conjunct2 [OF one]]) (use ds in \<open>auto dest: pad_int_no\<close>)
  have "y = y'" "m = m'" "d = d'"
    using pad_int_inject [of y y' 4] pad_int_inject [of m m' 2] pad_int_inject [of d d' 2] one two ds by auto
  with ds show ?thesis by simp
qed

lemma format_date_not_month:
  assumes "0 \<le> t" "0 \<le> u"
  shows "format_date t \<noteq> format_month u"
proof
  assume eq: "format_date t = format_month u"
  obtain y m d where t: "time_Date t = (y, m, d)" by (metis prod.exhaust)
  obtain y' m' d' where u: "time_Date u = (y', m', d')" by (metis prod.exhaust)
  note ds = time_Date_exact [OF assms(1) t] time_Date_exact [OF assms(2) u]
  from eq t u have eq: "pad_int 4 y @ CHR ''-'' # (pad_int 2 m @ CHR ''-'' # pad_int 2 d) = pad_int 4 y' @ CHR ''-'' # pad_int 2 m'"
    by (simp add: format_date_def format_month_def)
  have "pad_int 4 y = pad_int 4 y' \<and> pad_int 2 m @ CHR ''-'' # pad_int 2 d = pad_int 2 m'"
    by (rule append_sep_inject [OF _ _ eq]) (use ds in \<open>auto dest: pad_int_no\<close>)
  then have "CHR ''-'' \<in> set (pad_int 2 m')" by (metis in_set_conv_decomp)
  with pad_int_no(1) [of m' 2] ds show False by simp
qed

section \<open>The span of a printed date\<close>

text \<open>All instants with one printed date lie in one day, all with one printed month in one
  stretch of 31 days.\<close>

abbreviation ns_day :: int where "ns_day \<equiv> 24 * ns_hour"

lemma time_days_span: "ns_day * time_days t \<le> t" "t < ns_day * time_days t + ns_day"
  by (simp_all add: time_days_def)

lemma date_span:
  assumes "0 \<le> u"
  shows "\<exists>z. \<forall>t\<ge>0. format_date t = format_date u \<longrightarrow> z \<le> t \<and> t < z + ns_day"
  using format_date_inject [OF _ assms] time_days_span by metis

lemma month_span:
  assumes "0 \<le> u"
  shows "\<exists>z. \<forall>t\<ge>0. format_month t = format_month u \<longrightarrow> z \<le> t \<and> t < z + 31 * ns_day"
proof -
  obtain y m d where u: "time_Date u = (y, m, d)" by (metis prod.exhaust)
  have "ns_day * days_of_date y m 1 \<le> t \<and> t < ns_day * days_of_date y m 1 + 31 * ns_day"
    if t: "0 \<le> t" "format_month t = format_month u" for t
  proof -
    obtain y' m' d' where t': "time_Date t = (y', m', d')" by (metis prod.exhaust)
    have "y' = y \<and> m' = m" using format_month_inject [OF t(1) assms t(2) t' u] .
    with time_Date_exact [OF t(1) t'] have "time_days t = days_of_date y m 1 + (d' - 1)" "1 \<le> d'" "d' \<le> 31"
      by (auto simp: days_of_date_def)
    with time_days_span [of t] show ?thesis by auto
  qed
  then show ?thesis by blast
qed

end
