(* ===== verification/Budget.thy ===== *)
theory Budget
  imports Engine Hold Calendar
begin

text \<open>
  \<open>internal/budget\<close>: money in minor units, window keys, the atomic counters (in memory and
  Redis), the reserver that combines a counter with the hold ledger, and the reconciler.
  \<open>int64\<close> arithmetic wraps as in Go. The interface \<open>Counter\<close> is the record \<open>counter_ops\<close>
  with the contract \<open>atomic_counter\<close>; the last part is the reservation system, an interleaving of the
  atomic steps of any number of concurrent calls, with its no-oversell invariant.
\<close>

section \<open>Keys, windows, money\<close>

definition counterKey :: "string \<Rightarrow> string \<Rightarrow> string \<Rightarrow> string" where
  "counterKey orgID budgetID windowKey = ''budget:'' @ orgID @ '':'' @ budgetID @ '':'' @ windowKey"

definition WindowKey :: "string \<Rightarrow> gotime \<Rightarrow> string" where
  "WindowKey window t =
     (if window = ''day'' then format_date t
      else if window = ''rolling'' then ''rolling''
      else format_month t)"

definition windowTTL :: "string \<Rightarrow> duration" where
  "windowTTL window =
     (if window = ''day'' then 48 * ns_hour
      else if window = ''rolling'' then 30 * 24 * ns_hour
      else 32 * 24 * ns_hour)"

definition windowSticky :: "string \<Rightarrow> bool" where
  "windowSticky window \<longleftrightarrow> window \<noteq> ''rolling''"

definition toCents :: "string \<Rightarrow> int option" where
  "toCents s =
     (if s = [] \<or> HasPrefix s ''-'' then None
      else case cut CHR ''.'' s of (intPart, fr, hasDot) \<Rightarrow>
        (case ParseInt64 intPart of
           None \<Rightarrow> None
         | Some whole \<Rightarrow>
             let cents = wrap64 (whole * 100) in
             if \<not> hasDot then Some cents
             else if length fr = 0 \<or> length fr > 2 then None
             else let fr = (if length fr = 1 then fr @ ''0'' else fr) in
                  (case ParseInt64 fr of
                     None \<Rightarrow> None
                   | Some f \<Rightarrow> Some (wrap64 (cents + f)))))"

definition pad2 :: "int \<Rightarrow> string" where
  "pad2 n = (if n < 10 then ''0'' @ FormatInt n else FormatInt n)"

definition centsToStr :: "int \<Rightarrow> string" where
  "centsToStr c = FormatInt (go_div c 100) @ ''.'' @ pad2 (go_mod c 100)"

section \<open>Counters\<close>

text \<open>The interface \<open>Counter\<close>; the first argument is the server's clock.\<close>

record 'c counter_ops =
  co_Reserve :: "gotime \<Rightarrow> string \<Rightarrow> int \<Rightarrow> int \<Rightarrow> duration \<Rightarrow> bool \<Rightarrow> 'c \<Rightarrow> (string + bool \<times> int) \<times> 'c"
  co_Release :: "gotime \<Rightarrow> string \<Rightarrow> int \<Rightarrow> 'c \<Rightarrow> string option \<times> 'c"
  co_Set :: "gotime \<Rightarrow> string \<Rightarrow> int \<Rightarrow> duration \<Rightarrow> 'c \<Rightarrow> string option \<times> 'c"
  co_Get :: "gotime \<Rightarrow> string \<Rightarrow> 'c \<Rightarrow> string + int"

text \<open>\<open>MemCounter\<close>: an absent key reads 0.\<close>

type_synonym MemCounter = "string \<Rightarrow> int"

definition NewMemCounter :: MemCounter where
  "NewMemCounter = (\<lambda>_. 0)"

definition MemCounter_Reserve ::
  "gotime \<Rightarrow> string \<Rightarrow> int \<Rightarrow> int \<Rightarrow> duration \<Rightarrow> bool \<Rightarrow> MemCounter \<Rightarrow> (string + bool \<times> int) \<times> MemCounter" where
  "MemCounter_Reserve now key amount limit ttl sticky m =
     (let prior = m key in
      if wrap64 (prior + amount) > limit then (Inr (False, prior), m)
      else (Inr (True, prior), m(key := wrap64 (prior + amount))))"

definition MemCounter_Release :: "gotime \<Rightarrow> string \<Rightarrow> int \<Rightarrow> MemCounter \<Rightarrow> string option \<times> MemCounter" where
  "MemCounter_Release now key amount m =
     (let v = wrap64 (m key - amount); v = (if v < 0 then 0 else v) in (None, m(key := v)))"

definition MemCounter_Set :: "gotime \<Rightarrow> string \<Rightarrow> int \<Rightarrow> duration \<Rightarrow> MemCounter \<Rightarrow> string option \<times> MemCounter" where
  "MemCounter_Set now key cents ttl m = (None, m(key := cents))"

definition MemCounter_Get :: "gotime \<Rightarrow> string \<Rightarrow> MemCounter \<Rightarrow> string + int" where
  "MemCounter_Get now key m = Inr (m key)"

definition mem_counter_ops :: "MemCounter counter_ops" where
  "mem_counter_ops = \<lparr>co_Reserve = MemCounter_Reserve, co_Release = MemCounter_Release,
     co_Set = MemCounter_Set, co_Get = MemCounter_Get\<rparr>"

text \<open>
  \<open>RedisCounter\<close>: the server's keys with their values and expiry times in milliseconds, and
  whether it can be reached. The two Lua scripts run atomically; Lua numbers are IEEE
  doubles, so a value is rounded to 53 significant bits when a script reads it. (From
  10^17 on a Lua number is also printed with an exponent, which no theorem here reaches.)
\<close>

fun dbl_exp :: "nat \<Rightarrow> nat" where
  "dbl_exp n = (if n < 2 ^ 53 then 0 else Suc (dbl_exp (n div 2)))"

declare dbl_exp.simps [simp del]

definition round53 :: "nat \<Rightarrow> nat" where
  "round53 n =
     (let e = dbl_exp n; q = n div 2 ^ e; r = n mod 2 ^ e in
      if 2 * r > 2 ^ e \<or> (2 * r = 2 ^ e \<and> 0 < e \<and> odd q) then (q + 1) * 2 ^ e else q * 2 ^ e)"

definition lua_num :: "int \<Rightarrow> int" where
  "lua_num x = (if x < 0 then - int (round53 (nat (- x))) else int (round53 (nat x)))"

record RedisCounter =
  rc_up :: bool
  rc_keys :: "(string \<times> (int \<times> int option)) list"

abbreviation ns_milli :: int where "ns_milli \<equiv> 1000000"

definition redis_live :: "gotime \<Rightarrow> int \<times> int option \<Rightarrow> bool" where
  "redis_live now e \<longleftrightarrow> (case snd e of None \<Rightarrow> True | Some ex \<Rightarrow> now div ns_milli \<le> ex)"

definition redis_find :: "gotime \<Rightarrow> string \<Rightarrow> RedisCounter \<Rightarrow> (int \<times> int option) option" where
  "redis_find now key c =
     (case map_of (rc_keys c) key of None \<Rightarrow> None | Some e \<Rightarrow> if redis_live now e then Some e else None)"

definition redis_put :: "string \<Rightarrow> int \<times> int option \<Rightarrow> RedisCounter \<Rightarrow> RedisCounter" where
  "redis_put key e c = c\<lparr>rc_keys := alist_put key e (rc_keys c)\<rparr>"

definition RedisCounter_Reserve ::
  "gotime \<Rightarrow> string \<Rightarrow> int \<Rightarrow> int \<Rightarrow> duration \<Rightarrow> bool \<Rightarrow> RedisCounter \<Rightarrow> (string + bool \<times> int) \<times> RedisCounter" where
  "RedisCounter_Reserve now key amount limit ttl sticky c =
     (if \<not> rc_up c then (Inl ''budget: reserve'', c)
      else let found = redis_find now key c;
               cur = lua_num (case found of None \<Rightarrow> 0 | Some e \<Rightarrow> fst e);
               amt = lua_num amount; lim = lua_num limit in
           if lua_num (cur + amt) > lim then (Inr (False, cur), c)
           else let v = (case found of None \<Rightarrow> 0 | Some e \<Rightarrow> fst e) + amt;
                    ex = (case found of None \<Rightarrow> None | Some e \<Rightarrow> snd e) in
                if \<not> in_int64 v then (Inl ''budget: reserve'', c)
                else (Inr (True, cur),
                      redis_put key (v, if \<not> sticky \<or> found = None
                                         then Some (now div ns_milli + ttl div ns_milli) else ex) c))"

definition RedisCounter_Release :: "gotime \<Rightarrow> string \<Rightarrow> int \<Rightarrow> RedisCounter \<Rightarrow> string option \<times> RedisCounter" where
  "RedisCounter_Release now key amount c =
     (if \<not> rc_up c then (Some ''budget: release'', c)
      else case redis_find now key c of
             None \<Rightarrow> (None, c)
           | Some e \<Rightarrow>
               let nv = lua_num (lua_num (fst e) - lua_num amount) in
               (None, redis_put key (if nv < 0 then 0 else nv, snd e) c))"

definition RedisCounter_Set :: "gotime \<Rightarrow> string \<Rightarrow> int \<Rightarrow> duration \<Rightarrow> RedisCounter \<Rightarrow> string option \<times> RedisCounter" where
  "RedisCounter_Set now key cents ttl c =
     (if \<not> rc_up c then (Some ''budget: set'', c)
      else (None, redis_put key (cents, if ttl > 0 then Some (now div ns_milli + ttl div ns_milli) else None) c))"

definition RedisCounter_Get :: "gotime \<Rightarrow> string \<Rightarrow> RedisCounter \<Rightarrow> string + int" where
  "RedisCounter_Get now key c =
     (if \<not> rc_up c then Inl ''budget: get''
      else case redis_find now key c of None \<Rightarrow> Inr 0 | Some e \<Rightarrow> Inr (fst e))"

definition redis_counter_ops :: "RedisCounter counter_ops" where
  "redis_counter_ops = \<lparr>co_Reserve = RedisCounter_Reserve, co_Release = RedisCounter_Release,
     co_Set = RedisCounter_Set, co_Get = RedisCounter_Get\<rparr>"

section \<open>Reserver\<close>

record ('c, 's) Reserver =
  rs_counter :: "'c counter_ops"
  rs_holds :: "'s hold_ops"
  rs_holdTTL :: duration

text \<open>The state behind a reserver: the counter's and the ledger's.\<close>

record ('c, 's) budget_world =
  bw_counter :: 'c
  bw_holds :: 's

definition NewReserver :: "'c counter_ops \<Rightarrow> 's hold_ops \<Rightarrow> duration \<Rightarrow> ('c, 's) Reserver" where
  "NewReserver counter holds ttl =
     \<lparr>rs_counter = counter, rs_holds = holds, rs_holdTTL = (if ttl \<le> 0 then DefaultHoldTTL else ttl)\<rparr>"

definition new_hold :: "string \<Rightarrow> string \<Rightarrow> AuthorizeRequest \<Rightarrow> BudgetDecl \<Rightarrow> string \<Rightarrow> gotime \<Rightarrow> duration \<Rightarrow> Hold" where
  "new_hold orgID decisionID req b wk t ttl =
     \<lparr>h_DecisionID = decisionID, h_OrgID = orgID, h_AgentID = req_AgentID req, h_BudgetID = bd_ID b,
      h_Window = bd_Window b, h_WindowKey = wk, h_Amount = req_Amount req, h_Currency = req_Currency req,
      h_State = StateHeld, h_CreatedAt = t, h_ExpiresAt = t + ttl, h_CapturedAt = 0, h_VoidedAt = 0\<rparr>"

lemma new_hold_fields [simp]:
  "h_DecisionID (new_hold orgID decisionID req b wk t ttl) = decisionID"
  "h_OrgID (new_hold orgID decisionID req b wk t ttl) = orgID"
  "h_Amount (new_hold orgID decisionID req b wk t ttl) = req_Amount req"
  "h_BudgetID (new_hold orgID decisionID req b wk t ttl) = bd_ID b"
  "h_WindowKey (new_hold orgID decisionID req b wk t ttl) = wk"
  by (simp_all add: new_hold_def)

definition Reserver_Reserve ::
  "('c, 's) Reserver \<Rightarrow> gotime \<Rightarrow> string \<Rightarrow> string \<Rightarrow> AuthorizeRequest \<Rightarrow> BudgetDecl \<Rightarrow> ('c, 's) budget_world
   \<Rightarrow> BudgetResult \<times> ('c, 's) budget_world" where
  "Reserver_Reserve r now orgID decisionID req b w =
     (let t = (case parse_RFC3339 (req_EvaluatedAt req) of Some parsed \<Rightarrow> parsed | None \<Rightarrow> now);
          wk = WindowKey (bd_Window b) t;
          unavailable = \<lparr>br_Outcome = BudgetUnavailable, br_SpendToDate = [], br_Limit = [], br_WindowKey = wk\<rparr>
      in case (toCents (req_Amount req), toCents (bd_Limit b)) of
           (Some amount, Some limit) \<Rightarrow>
             let key = counterKey orgID (bd_ID b) wk in
             (case co_Reserve (rs_counter r) now key amount limit (windowTTL (bd_Window b)) (windowSticky (bd_Window b)) (bw_counter w) of
                (Inl _, c1) \<Rightarrow> (unavailable, w\<lparr>bw_counter := c1\<rparr>)
              | (Inr (reserved, prior), c1) \<Rightarrow>
                  let res = (\<lambda>x. \<lparr>br_Outcome = x, br_SpendToDate = centsToStr prior, br_Limit = bd_Limit b, br_WindowKey = wk\<rparr>) in
                  if \<not> reserved then (res BudgetExceeded, w\<lparr>bw_counter := c1\<rparr>)
                  else (case ho_Place (rs_holds r) now (new_hold orgID decisionID req b wk t (rs_holdTTL r)) (bw_holds w) of
                          (Some _, s1) \<Rightarrow>
                            (unavailable, w\<lparr>bw_counter := snd (co_Release (rs_counter r) now key amount c1), bw_holds := s1\<rparr>)
                        | (None, s1) \<Rightarrow> (res BudgetWithinLimit, w\<lparr>bw_counter := c1, bw_holds := s1\<rparr>)))
         | _ \<Rightarrow> (unavailable, w))"

definition Reserver_Capture :: "('c, 's) Reserver \<Rightarrow> gotime \<Rightarrow> string \<Rightarrow> string \<Rightarrow> ('c, 's) budget_world
    \<Rightarrow> (hold_error + Hold) \<times> ('c, 's) budget_world" where
  "Reserver_Capture r now orgID decisionID w =
     (case ho_Capture (rs_holds r) now orgID decisionID (bw_holds w) of (res, s1) \<Rightarrow> (res, w\<lparr>bw_holds := s1\<rparr>))"

definition Reserver_Void :: "('c, 's) Reserver \<Rightarrow> gotime \<Rightarrow> string \<Rightarrow> string \<Rightarrow> ('c, 's) budget_world
    \<Rightarrow> (hold_error + Hold) \<times> ('c, 's) budget_world" where
  "Reserver_Void r now orgID decisionID w =
     (case ho_Void (rs_holds r) now orgID decisionID (bw_holds w) of
        (Inl err, s1) \<Rightarrow> (Inl err, w\<lparr>bw_holds := s1\<rparr>)
      | (Inr (h, released), s1) \<Rightarrow>
          (Inr h,
           (case (released, toCents (h_Amount h)) of
              (True, Some amount) \<Rightarrow>
                w\<lparr>bw_counter := snd (co_Release (rs_counter r) now
                     (counterKey (h_OrgID h) (h_BudgetID h) (h_WindowKey h)) amount (bw_counter w)),
                  bw_holds := s1\<rparr>
            | _ \<Rightarrow> w\<lparr>bw_holds := s1\<rparr>)))"

definition Reserver_Get :: "('c, 's) Reserver \<Rightarrow> gotime \<Rightarrow> string \<Rightarrow> string \<Rightarrow> ('c, 's) budget_world
    \<Rightarrow> (hold_error + Hold) \<times> ('c, 's) budget_world" where
  "Reserver_Get r now orgID decisionID w =
     (case ho_Get (rs_holds r) now orgID decisionID (bw_holds w) of (res, s1) \<Rightarrow> (res, w\<lparr>bw_holds := s1\<rparr>))"

section \<open>Reconciler\<close>

record ('c, 's) Reconciler =
  rec_counter :: "'c counter_ops"
  rec_holds :: "'s hold_ops"
  rec_batch :: int

definition NewReconciler :: "'c counter_ops \<Rightarrow> 's hold_ops \<Rightarrow> int \<Rightarrow> ('c, 's) Reconciler" where
  "NewReconciler counter holds batch =
     \<lparr>rec_counter = counter, rec_holds = holds, rec_batch = (if batch \<le> 0 then 256 else batch)\<rparr>"

fun release_all :: "'c counter_ops \<Rightarrow> gotime \<Rightarrow> Hold list \<Rightarrow> 'c \<Rightarrow> 'c" where
  "release_all ops now [] c = c"
| "release_all ops now (h # hs) c =
     (case toCents (h_Amount h) of
        None \<Rightarrow> release_all ops now hs c
      | Some amount \<Rightarrow>
          release_all ops now hs
            (snd (co_Release ops now (counterKey (h_OrgID h) (h_BudgetID h) (h_WindowKey h)) amount c)))"

definition ReleaseExpired :: "('c, 's) Reconciler \<Rightarrow> gotime \<Rightarrow> ('c, 's) budget_world
    \<Rightarrow> (hold_error + int) \<times> ('c, 's) budget_world" where
  "ReleaseExpired rc now w =
     (case ho_ExpireDue (rec_holds rc) now (rec_batch rc) (bw_holds w) of
        (Inl err, s1) \<Rightarrow> (Inl err, w\<lparr>bw_holds := s1\<rparr>)
      | (Inr due, s1) \<Rightarrow>
          (Inr (int (length due)),
           w\<lparr>bw_counter := release_all (rec_counter rc) now due (bw_counter w), bw_holds := s1\<rparr>))"

fun sum_cents :: "int \<Rightarrow> Hold list \<Rightarrow> int" where
  "sum_cents acc [] = acc"
| "sum_cents acc (h # hs) =
     (case toCents (h_Amount h) of None \<Rightarrow> sum_cents acc hs | Some c \<Rightarrow> sum_cents (wrap64 (acc + c)) hs)"

definition RebuildWindow :: "('c, 's) Reconciler \<Rightarrow> gotime \<Rightarrow> string \<Rightarrow> string \<Rightarrow> string \<Rightarrow> string \<Rightarrow> ('c, 's) budget_world
    \<Rightarrow> string option \<times> ('c, 's) budget_world" where
  "RebuildWindow rc now orgID budgetID windowKey window w =
     (case ho_ListActiveByWindow (rec_holds rc) orgID budgetID windowKey (bw_holds w) of
        (Inl _, s1) \<Rightarrow> (Some ''list'', w\<lparr>bw_holds := s1\<rparr>)
      | (Inr active, s1) \<Rightarrow>
          (case co_Set (rec_counter rc) now (counterKey orgID budgetID windowKey) (sum_cents 0 active) (windowTTL window) (bw_counter w) of
             (e, c1) \<Rightarrow> (e, w\<lparr>bw_counter := c1, bw_holds := s1\<rparr>)))"

section \<open>Money, lemmas\<close>

lemma cut_digits: "list_all is_digit ds \<Longrightarrow> cut CHR ''.'' ds = (ds, [], False)"
proof (rule cut_none)
  assume "list_all is_digit ds"
  then show "CHR ''.'' \<notin> set ds" using not_digit_signs(3) by (auto simp: list_all_iff)
qed

lemma cut_money: "list_all is_digit ds \<Longrightarrow> cut CHR ''.'' (ds @ CHR ''.'' # f) = (ds, f, True)"
proof (rule cut_append)
  assume "list_all is_digit ds"
  then show "CHR ''.'' \<notin> set ds" using not_digit_signs(3) by (auto simp: list_all_iff)
qed

lemma no_minus: "list_all is_digit ds \<Longrightarrow> ds \<noteq> [] \<Longrightarrow> \<not> HasPrefix (ds @ x) ''-''"
  by (cases ds) (auto simp: HasPrefix_def)

lemma toCents_whole:
  assumes "list_all is_digit ip" and "ip \<noteq> []" and "100 * int (digits_val 0 ip) < 2 ^ 63"
  shows "toCents ip = Some (100 * int (digits_val 0 ip))"
  using assms no_minus [OF assms(1,2), of "[]"] ParseInt64_digits [OF assms(1,2)]
  by (simp add: toCents_def cut_digits wrap64_nonneg_id mult.commute)

lemma toCents_frac:
  assumes "list_all is_digit ip" and "ip \<noteq> []" and "list_all is_digit f" and "length f = 1 \<or> length f = 2"
    and "100 * int (digits_val 0 ip) + 99 < 2 ^ 63"
  shows "toCents (ip @ ''.'' @ f) =
     Some (100 * int (digits_val 0 ip) + int (digits_val 0 (if length f = 1 then f @ ''0'' else f)))"
proof -
  define f2 where "f2 = (if length f = 1 then f @ ''0'' else f)"
  have f2: "list_all is_digit f2" "f2 \<noteq> []" "length f2 = 2"
    using assms(3,4) by (auto simp: f2_def is_digit_def)
  obtain a b where ab: "f2 = [a, b]" using f2(3) by (auto simp: length_Suc_conv numeral_2_eq_2)
  then have "digit_val a < 10" "digit_val b < 10" using f2(1) by (auto intro: digit_val_less)
  then have lt: "digits_val 0 f2 < 100" by (simp add: ab)
  then have "ParseInt64 f2 = Some (int (digits_val 0 f2))"
    using ParseInt64_digits [OF f2(1,2)] by simp
  moreover have "ParseInt64 ip = Some (int (digits_val 0 ip))"
    using ParseInt64_digits [OF assms(1,2)] assms(5) by simp
  moreover have "\<not> HasPrefix (ip @ CHR ''.'' # f) ''-''" using no_minus [OF assms(1,2)] by simp
  moreover have "wrap64 (int (digits_val 0 ip) * 100) = int (digits_val 0 ip) * 100"
    using assms(5) by (intro wrap64_nonneg_id) simp_all
  moreover have "wrap64 (int (digits_val 0 ip) * 100 + int (digits_val 0 f2)) = int (digits_val 0 ip) * 100 + int (digits_val 0 f2)"
    using assms(5) lt by (intro wrap64_nonneg_id) simp_all
  ultimately show ?thesis
    using assms(4) unfolding f2_def by (auto simp: toCents_def cut_money assms(1) Let_def)
qed

lemma pad2_digits:
  assumes "0 \<le> n" and "n < 100"
  shows "list_all is_digit (pad2 n) \<and> length (pad2 n) = 2 \<and> digits_val 0 (pad2 n) = nat n"
proof (cases "n < 10")
  case True
  with assms show ?thesis
    by (simp add: pad2_def FormatInt_def nat_str.simps) (simp add: is_digit_def digit_val_def)
next
  case False
  then have n: "\<not> nat n < 10" "nat n div 10 < 10" using assms by auto
  with assms False show ?thesis
    by (simp add: pad2_def FormatInt_def) (subst (1 2 3) nat_str.simps, simp add: nat_str.simps [of "nat n div 10"])
qed

lemma toCents_centsToStr:
  assumes "0 \<le> c" and "c < 2 ^ 63 - 100"
  shows "toCents (centsToStr c) = Some c"
proof -
  have d: "go_div c 100 = c div 100" "go_mod c 100 = c mod 100" using assms by simp_all
  have nn: "0 \<le> c div 100" using assms(1) by linarith
  have "0 \<le> c mod 100 \<and> c mod 100 < 100" by simp
  then have p: "list_all is_digit (pad2 (c mod 100))" "length (pad2 (c mod 100)) = 2"
    "digits_val 0 (pad2 (c mod 100)) = nat (c mod 100)" using pad2_digits by blast+
  have "FormatInt (c div 100) = nat_str (nat (c div 100))" using assms by (simp add: FormatInt_def)
  moreover have "100 * int (digits_val 0 (nat_str (nat (c div 100)))) + 99 < 2 ^ 63"
  proof -
    have "100 * (c div 100) \<le> c" by linarith
    then show ?thesis using assms by (simp add: digits_val_nat_str)
  qed
  ultimately show ?thesis
    using toCents_frac [of "nat_str (nat (c div 100))" "pad2 (c mod 100)"] p nat_str_digits [of "nat (c div 100)"] assms nn
    by (simp add: centsToStr_def d digits_val_nat_str)
qed

text \<open>Exact agreement with the rational value of the decimal.\<close>

lemma rat_SetString_whole:
  assumes "list_all is_digit ip" and "ip \<noteq> []"
  shows "rat_SetString ip = Some (of_nat (digits_val 0 ip))"
proof -
  from assms obtain c r where ip: "ip = c # r" and "is_digit c" by (cases ip) auto
  then have c: "c \<noteq> CHR ''-''" "c \<noteq> CHR ''+''" by auto
  have tw: "takeWhile is_digit (c # r) = c # r" "dropWhile is_digit (c # r) = []"
    using assms(1) ip by (auto simp: list_all_iff takeWhile_eq_all_conv dropWhile_eq_Nil_conv)
  show ?thesis
    unfolding ip rat_SetString_def by (simp add: c tw rat_exponent_def rat_pow10_def Let_def del: takeWhile.simps dropWhile.simps)
qed

lemma rat_SetString_frac:
  assumes "list_all is_digit ip" and "ip \<noteq> []" and "list_all is_digit f"
  shows "rat_SetString (ip @ ''.'' @ f) = Some (of_nat (digits_val 0 (ip @ f)) / 10 ^ length f)"
proof -
  from assms obtain c r where ip: "ip = c # r" and "is_digit c" by (cases ip) auto
  then have c: "c \<noteq> CHR ''-''" "c \<noteq> CHR ''+''" by auto
  have tw: "takeWhile is_digit (c # r @ CHR ''.'' # f) = c # r" "dropWhile is_digit (c # r @ CHR ''.'' # f) = CHR ''.'' # f"
    using assms(1) ip by (auto simp: list_all_iff takeWhile_append2 dropWhile_append2)
  have tf: "takeWhile is_digit f = f" "dropWhile is_digit f = []"
    using assms(3) by (auto simp: list_all_iff takeWhile_eq_all_conv dropWhile_eq_Nil_conv)
  show ?thesis
    unfolding ip rat_SetString_def
    by (simp add: c tw tf rat_exponent_def rat_pow10_def Let_def del: takeWhile.simps dropWhile.simps)
qed

lemma digits_val_shift: "digits_val acc ds = acc * 10 ^ length ds + digits_val 0 ds"
proof (induction ds arbitrary: acc)
  case (Cons d ds)
  show ?case using Cons [of "acc * 10 + digit_val d"] Cons [of "digit_val d"] by (simp add: algebra_simps)
qed simp

section \<open>The contract of a counter\<close>

text \<open>
  Every counter key has a period, from \<open>t0 key\<close> to \<open>t1 key\<close>, no longer than its lifetime in
  the store. In it the counter behaves as a map from keys to amounts: \<open>Reserve\<close> is an
  atomic check-and-add, \<open>Release\<close> subtracts down to zero, an error changes nothing. A
  release may come later: it then subtracts, or finds the key gone and leaves it. Amounts
  stay below 2^53, where Go's integers and Lua's doubles both are exact.
\<close>

locale atomic_counter =
  fixes cops :: "'c counter_ops" and val :: "'c \<Rightarrow> string \<Rightarrow> int" and cinv :: "'c \<Rightarrow> bool"
    and t0 t1 :: "string \<Rightarrow> gotime"
  assumes reserve: "cinv c \<Longrightarrow> t0 key \<le> now \<Longrightarrow> now \<le> t1 key \<Longrightarrow> t1 key - t0 key + ns_milli \<le> ttl \<Longrightarrow>
      0 \<le> val c key \<Longrightarrow> 0 \<le> a \<Longrightarrow> val c key + a < 2 ^ 53 \<Longrightarrow> 0 \<le> l \<Longrightarrow> l < 2 ^ 53 \<Longrightarrow>
      co_Reserve cops now key a l ttl sticky c = (r, c') \<Longrightarrow>
      cinv c' \<and> (case r of Inl _ \<Rightarrow> val c' = val c
        | Inr (ok, p) \<Rightarrow> p = val c key \<and> (ok \<longleftrightarrow> p + a \<le> l) \<and> val c' = (if ok then (val c)(key := p + a) else val c))"
    and release: "cinv c \<Longrightarrow> 0 \<le> val c key \<Longrightarrow> val c key < 2 ^ 53 \<Longrightarrow>
      0 \<le> a \<Longrightarrow> a < 2 ^ 53 \<Longrightarrow> co_Release cops now key a c = (e, c') \<Longrightarrow>
      cinv c' \<and> (val c' = (val c)(key := max 0 (val c key - a)) \<or> val c' = val c \<and> (e \<noteq> None \<or> t1 key < now))"
    and set_value: "cinv c \<Longrightarrow> t0 key \<le> now \<Longrightarrow> now \<le> t1 key \<Longrightarrow> t1 key - t0 key + ns_milli \<le> ttl \<Longrightarrow>
      co_Set cops now key v ttl c = (e, c') \<Longrightarrow>
      cinv c' \<and> val c' = (if e = None then (val c)(key := v) else val c)"
    and get_value: "cinv c \<Longrightarrow> t0 key \<le> now \<Longrightarrow> now \<le> t1 key \<Longrightarrow> co_Get cops now key c = Inr v \<Longrightarrow> v = val c key"

interpretation mem_counter: atomic_counter mem_counter_ops "\<lambda>c. c" "\<lambda>c. True" t0 t1
proof
  fix c :: MemCounter and now ttl key a l sticky r c'
  assume "0 \<le> c key" "0 \<le> a" "c key + a < 2 ^ 53" "co_Reserve mem_counter_ops now key a l ttl sticky c = (r, c')"
  moreover from this(1-3) have "wrap64 (c key + a) = c key + a" by (intro wrap64_nonneg_id) simp_all
  ultimately show "True \<and> (case r of Inl _ \<Rightarrow> c' = c
      | Inr (ok, p) \<Rightarrow> p = c key \<and> (ok \<longleftrightarrow> p + a \<le> l) \<and> c' = (if ok then c(key := p + a) else c))"
    by (auto simp: mem_counter_ops_def MemCounter_Reserve_def Let_def split: if_splits)
next
  fix c :: MemCounter and now key a e c'
  assume "0 \<le> c key" "c key < 2 ^ 53" "0 \<le> a" "a < 2 ^ 53" "co_Release mem_counter_ops now key a c = (e, c')"
  moreover from this(1-4) have "wrap64 (c key - a) = c key - a" by (intro wrap64_id) (simp add: in_int64_def)
  ultimately show "True \<and> (c' = c(key := max 0 (c key - a)) \<or> c' = c \<and> (e \<noteq> None \<or> t1 key < now))"
    by (auto simp: mem_counter_ops_def MemCounter_Release_def Let_def max_def)
qed (auto simp: mem_counter_ops_def MemCounter_Set_def MemCounter_Get_def)

definition redis_val :: "RedisCounter \<Rightarrow> string \<Rightarrow> int" where
  "redis_val c key = (case map_of (rc_keys c) key of None \<Rightarrow> 0 | Some e \<Rightarrow> fst e)"

text \<open>No key expires before the end of its period.\<close>

definition redis_inv :: "(string \<Rightarrow> gotime) \<Rightarrow> RedisCounter \<Rightarrow> bool" where
  "redis_inv t1 c \<longleftrightarrow> (\<forall>key e. map_of (rc_keys c) key = Some e \<longrightarrow> redis_live (t1 key) e)"

lemma round53_small: "n < 2 ^ 53 \<Longrightarrow> round53 n = n"
  by (simp add: round53_def dbl_exp.simps [of n])

lemma lua_num_exact: "\<bar>x\<bar> < 2 ^ 53 \<Longrightarrow> lua_num x = x"
  by (auto simp: lua_num_def round53_small nat_less_iff)

lemma redis_live_mono: "redis_live t e \<Longrightarrow> now \<le> t \<Longrightarrow> redis_live now e"
  using zdiv_mono1 [of now t ns_milli] by (auto simp: redis_live_def split: option.splits)

lemma redis_find_inv: "redis_inv t1 c \<Longrightarrow> now \<le> t1 key \<Longrightarrow> redis_find now key c = map_of (rc_keys c) key"
  by (auto simp: redis_find_def redis_inv_def intro: redis_live_mono split: option.split)

lemma redis_new_expiry:
  "a \<le> now \<Longrightarrow> z - a + ns_milli \<le> ttl \<Longrightarrow> redis_live z (v, Some (now div ns_milli + ttl div ns_milli))"
  by (simp add: redis_live_def)

lemma redis_put_facts:
  "redis_inv t1 c \<Longrightarrow> redis_live (t1 key) e \<Longrightarrow> redis_inv t1 (redis_put key e c)"
  "redis_val (redis_put key e c) = (redis_val c)(key := fst e)"
  by (auto simp: redis_inv_def redis_put_def redis_val_def fun_eq_iff)

lemma redis_val_find: "redis_val c key = (case map_of (rc_keys c) key of None \<Rightarrow> 0 | Some e \<Rightarrow> fst e)"
  by (simp add: redis_val_def)

interpretation redis_counter: atomic_counter redis_counter_ops redis_val "redis_inv t1" t0 t1
proof
  fix c now ttl key a l sticky r c'
  assume inv: "redis_inv t1 c" and t: "t0 key \<le> now" "now \<le> t1 key" "t1 key - t0 key + ns_milli \<le> ttl"
    and v: "0 \<le> redis_val c key" "0 \<le> a" "redis_val c key + a < 2 ^ 53" "0 \<le> l" "l < 2 ^ 53"
    and res: "co_Reserve redis_counter_ops now key a l ttl sticky c = (r, c')"
  have nums: "lua_num (redis_val c key) = redis_val c key" "lua_num a = a" "lua_num l = l"
    "lua_num (redis_val c key + a) = redis_val c key + a" "in_int64 (redis_val c key + a)"
    using v by (auto intro!: lua_num_exact simp: in_int64_def)
  define e where "e = (if \<not> sticky \<or> map_of (rc_keys c) key = None then Some (now div ns_milli + ttl div ns_milli)
      else case map_of (rc_keys c) key of None \<Rightarrow> None | Some e \<Rightarrow> snd e)"
  have live: "redis_live (t1 key) (x, e)" for x
    using redis_new_expiry [OF t(1,3)] inv unfolding e_def redis_inv_def
    by (auto simp: redis_live_def split: option.splits)
  from res have "r = Inl ''budget: reserve'' \<and> c' = c \<or>
      (if redis_val c key + a > l then r = Inr (False, redis_val c key) \<and> c' = c
       else r = Inr (True, redis_val c key) \<and> c' = redis_put key (redis_val c key + a, e) c)"
    by (auto simp: redis_counter_ops_def RedisCounter_Reserve_def Let_def redis_find_inv [OF inv t(2)]
        redis_val_find [symmetric] nums e_def split: if_splits)
  with inv live show "redis_inv t1 c' \<and> (case r of Inl _ \<Rightarrow> redis_val c' = redis_val c
      | Inr (ok, p) \<Rightarrow> p = redis_val c key \<and> (ok \<longleftrightarrow> p + a \<le> l)
          \<and> redis_val c' = (if ok then (redis_val c)(key := p + a) else redis_val c))"
    by (auto simp: redis_put_facts split: if_splits)
next
  fix c now key a e c'
  assume inv: "redis_inv t1 c"
    and v: "0 \<le> redis_val c key" "redis_val c key < 2 ^ 53" "0 \<le> a" "a < 2 ^ 53"
    and rel: "co_Release redis_counter_ops now key a c = (e, c')"
  have nums: "lua_num (redis_val c key) = redis_val c key" "lua_num a = a"
    "lua_num (redis_val c key - a) = redis_val c key - a"
    using v by (auto intro!: lua_num_exact)
  show "redis_inv t1 c' \<and> (redis_val c' = (redis_val c)(key := max 0 (redis_val c key - a))
      \<or> redis_val c' = redis_val c \<and> (e \<noteq> None \<or> t1 key < now))"
  proof (cases "redis_find now key c")
    case None
    then have gone: "t1 key < now \<or> redis_val c key = 0"
      using redis_find_inv [OF inv, of now key] by (cases "t1 key < now") (auto simp: redis_val_def)
    from None rel have "c' = c \<and> (e \<noteq> None \<longleftrightarrow> \<not> rc_up c)"
      by (auto simp: redis_counter_ops_def RedisCounter_Release_def split: if_splits)
    with gone inv v show ?thesis by (auto simp: fun_eq_iff)
  next
    case (Some x)
    then have m: "map_of (rc_keys c) key = Some x" by (auto simp: redis_find_def split: option.splits if_splits)
    then have x: "fst x = redis_val c key" by (simp add: redis_val_def)
    have "redis_live (t1 key) (y, snd x)" for y
      using inv m unfolding redis_inv_def redis_live_def by (cases x) fastforce
    with Some rel inv show ?thesis
      by (auto simp: redis_counter_ops_def RedisCounter_Release_def x nums Let_def
          redis_put_facts max_def split: if_splits)
  qed
next
  fix c now ttl key v e c'
  assume inv: "redis_inv t1 c" and t: "t0 key \<le> now" "now \<le> t1 key" "t1 key - t0 key + ns_milli \<le> ttl"
    and st: "co_Set redis_counter_ops now key v ttl c = (e, c')"
  have "ttl > 0" using t by linarith
  with st inv redis_new_expiry [OF t(1,3)]
  show "redis_inv t1 c' \<and> redis_val c' = (if e = None then (redis_val c)(key := v) else redis_val c)"
    by (auto simp: redis_counter_ops_def RedisCounter_Set_def redis_put_facts split: if_splits)
next
  fix c now key v
  assume "redis_inv t1 c" "now \<le> t1 key" "co_Get redis_counter_ops now key c = Inr v"
  then show "v = redis_val c key"
    by (auto simp: redis_counter_ops_def RedisCounter_Get_def redis_find_inv redis_val_def split: if_splits option.splits)
qed

section \<open>The reservation system\<close>

text \<open>
  Any number of authorize, capture, void and reconcile calls run concurrently. Each of
  their effects on shared state is atomic - a Lua script, an SQL statement, a critical
  section - so a run is a sequence of the steps below. A hold whose amount the counter has
  accepted but the ledger does not record yet is in flight; one the ledger has released
  (or refused) but the counter still carries is pending. A reservation on a key is tried
  in the key's period against the limit then in force, which \<open>L\<close> bounds, so that a policy
  may change during the window; everything else may happen at any time. Amounts and limits
  are below 2^52 minor units.
\<close>

record ('c, 's) sys =
  sy_counter :: 'c
  sy_ledger :: 's
  sy_inflight :: "Hold list"
  sy_pending :: "Hold list"

definition hold_counter_key :: "Hold \<Rightarrow> string" where
  "hold_counter_key h = counterKey (h_OrgID h) (h_BudgetID h) (h_WindowKey h)"

definition reservable :: "Hold \<Rightarrow> int \<Rightarrow> bool" where
  "reservable h a \<longleftrightarrow> toCents (h_Amount h) = Some a \<and> 0 \<le> a \<and> a < 2 ^ 52"

inductive sys_step :: "'c counter_ops \<Rightarrow> 's hold_ops \<Rightarrow> (string \<Rightarrow> int) \<Rightarrow> (string \<Rightarrow> gotime) \<Rightarrow> (string \<Rightarrow> gotime)
    \<Rightarrow> ('c, 's) sys \<Rightarrow> ('c, 's) sys \<Rightarrow> bool" for cops hops L t0 t1 where
  reserve: "reservable h a \<Longrightarrow> 0 \<le> l \<Longrightarrow> l \<le> L (hold_counter_key h) \<Longrightarrow>
    t0 (hold_counter_key h) \<le> now \<Longrightarrow> now \<le> t1 (hold_counter_key h) \<Longrightarrow>
    t1 (hold_counter_key h) - t0 (hold_counter_key h) + ns_milli \<le> ttl \<Longrightarrow>
    co_Reserve cops now (hold_counter_key h) a l ttl sticky (sy_counter s) = (r, c') \<Longrightarrow>
    sys_step cops hops L t0 t1 s (s\<lparr>sy_counter := c',
      sy_inflight := (case r of Inr (True, _) \<Rightarrow> h # sy_inflight s | _ \<Rightarrow> sy_inflight s)\<rparr>)"
| place: "h \<in> set (sy_inflight s) \<Longrightarrow> ho_Place hops now h (sy_ledger s) = (e, l') \<Longrightarrow>
    sys_step cops hops L t0 t1 s (s\<lparr>sy_ledger := l', sy_inflight := remove1 h (sy_inflight s),
      sy_pending := (if e = None then sy_pending s else h # sy_pending s)\<rparr>)"
| capture: "ho_Capture hops now org i (sy_ledger s) = (rc, l') \<Longrightarrow>
    sys_step cops hops L t0 t1 s (s\<lparr>sy_ledger := l'\<rparr>)"
| void: "ho_Void hops now org i (sy_ledger s) = (rv, l') \<Longrightarrow>
    sys_step cops hops L t0 t1 s (s\<lparr>sy_ledger := l',
      sy_pending := (case rv of Inr (h, True) \<Rightarrow> h # sy_pending s | _ \<Rightarrow> sy_pending s)\<rparr>)"
| expire: "ho_ExpireDue hops now limit (sy_ledger s) = (re, l') \<Longrightarrow>
    sys_step cops hops L t0 t1 s (s\<lparr>sy_ledger := l',
      sy_pending := (case re of Inr hs \<Rightarrow> hs @ sy_pending s | Inl _ \<Rightarrow> sy_pending s)\<rparr>)"
| get: "ho_Get hops now org i (sy_ledger s) = (rc, l') \<Longrightarrow>
    sys_step cops hops L t0 t1 s (s\<lparr>sy_ledger := l'\<rparr>)"
| release: "h \<in> set (sy_pending s) \<Longrightarrow> reservable h a \<Longrightarrow>
    co_Release cops now (hold_counter_key h) a (sy_counter s) = (e, c') \<Longrightarrow>
    sys_step cops hops L t0 t1 s (s\<lparr>sy_counter := c', sy_pending := remove1 h (sy_pending s)\<rparr>)"
| skip: "h \<in> set (sy_pending s) \<Longrightarrow>
    sys_step cops hops L t0 t1 s (s\<lparr>sy_pending := remove1 h (sy_pending s)\<rparr>)"

text \<open>What a hold counts for against the key \<open>k\<close>, in minor units.\<close>

definition cents_of :: "string \<Rightarrow> int" where
  "cents_of s = (case toCents s of Some c \<Rightarrow> max 0 c | None \<Rightarrow> 0)"

definition key_weight :: "string \<Rightarrow> string \<times> string \<times> string \<times> string \<Rightarrow> int" where
  "key_weight k = (\<lambda>(org, b, wk, a). if counterKey org b wk = k then cents_of a else 0)"

definition holds_weight :: "string \<Rightarrow> Hold list \<Rightarrow> int" where
  "holds_weight k hs = (\<Sum>h\<leftarrow>hs. key_weight k (hold_core h))"

lemma key_weight_nonneg [simp]: "nonneg (key_weight k)"
  by (simp add: nonneg_def key_weight_def cents_of_def split: option.split)

lemma holds_weight_simps [simp]:
  "holds_weight k [] = 0" "holds_weight k (h # hs) = key_weight k (hold_core h) + holds_weight k hs"
  "holds_weight k (xs @ ys) = holds_weight k xs + holds_weight k ys"
  by (simp_all add: holds_weight_def)

lemma holds_weight_nonneg: "0 \<le> holds_weight k hs"
  unfolding holds_weight_def by (rule sum_list_nonneg) (auto intro: nonnegD [OF key_weight_nonneg])

lemma holds_weight_remove1:
  "h \<in> set hs \<Longrightarrow> holds_weight k (remove1 h hs) = holds_weight k hs - key_weight k (hold_core h)"
  by (induction hs) auto

lemma reservable_weight:
  "reservable h a \<Longrightarrow> key_weight k (hold_core h) = (if hold_counter_key h = k then a else 0)"
  by (auto simp: reservable_def key_weight_def hold_core_def hold_counter_key_def cents_of_def)

definition proper_limits :: "(string \<Rightarrow> int) \<Rightarrow> bool" where
  "proper_limits L \<longleftrightarrow> (\<forall>k. 0 \<le> L k \<and> L k < 2 ^ 52)"

lemma proper_limitsD: "proper_limits L \<Longrightarrow> 0 \<le> L k" "proper_limits L \<Longrightarrow> L k < 2 ^ 52"
  by (simp_all add: proper_limits_def)

locale reservation_system = atomic_counter cops val cinv t0 t1 + hold_store hops total inv
  for cops :: "'c counter_ops" and val cinv t0 t1
    and hops :: "'s hold_ops" and total inv
begin

text \<open>The counter covers everything outstanding and respects the limit.\<close>

definition covered :: "(string \<Rightarrow> int) \<Rightarrow> ('c, 's) sys \<Rightarrow> bool" where
  "covered L s \<longleftrightarrow> cinv (sy_counter s) \<and> inv (sy_ledger s) \<and>
     (\<forall>k. total (key_weight k) (sy_ledger s) + holds_weight k (sy_inflight s) + holds_weight k (sy_pending s)
            \<le> val (sy_counter s) k \<and> val (sy_counter s) k \<le> L k)"

lemma covered_nonneg: "covered L s \<Longrightarrow> 0 \<le> val (sy_counter s) k"
proof -
  assume "covered L s"
  then have "total (key_weight k) (sy_ledger s) + holds_weight k (sy_inflight s) + holds_weight k (sy_pending s)
      \<le> val (sy_counter s) k" by (simp add: covered_def)
  moreover have "0 \<le> total (key_weight k) (sy_ledger s)" by (rule total_nonneg) simp
  ultimately show ?thesis
    using holds_weight_nonneg [of k "sy_inflight s"] holds_weight_nonneg [of k "sy_pending s"] by linarith
qed

lemma covered_ledger:
  assumes "covered L s" and "inv l'"
    and "\<And>k. total (key_weight k) l' + holds_weight k fl + holds_weight k pe
        \<le> total (key_weight k) (sy_ledger s) + holds_weight k (sy_inflight s) + holds_weight k (sy_pending s)"
  shows "covered L (s\<lparr>sy_ledger := l', sy_inflight := fl, sy_pending := pe\<rparr>)"
  using assms unfolding covered_def by (simp, meson order_trans)

lemma covered_step:
  assumes "sys_step cops hops L t0 t1 s s'" and "covered L s" and "proper_limits L"
  shows "covered L s'"
  using assms(1)
proof cases
  case (reserve h a l now ttl sticky r c')
  let ?k = "hold_counter_key h"
  note limits = proper_limitsD [OF assms(3), of ?k]
  have v: "0 \<le> val (sy_counter s) ?k" "val (sy_counter s) ?k \<le> L ?k"
    using covered_nonneg [OF assms(2)] assms(2) by (simp_all add: covered_def)
  have a: "0 \<le> a" "a < 2 ^ 52" using reserve(2) by (simp_all add: reservable_def)
  have sum: "val (sy_counter s) ?k + a < 2 ^ 53" using v a limits by simp
  have R: "cinv c' \<and> (case r of Inl _ \<Rightarrow> val c' = val (sy_counter s)
      | Inr (ok, p) \<Rightarrow> p = val (sy_counter s) ?k \<and> (ok \<longleftrightarrow> p + a \<le> l)
          \<and> val c' = (if ok then (val (sy_counter s))(?k := p + a) else val (sy_counter s)))"
    using assms(2) reserve v a sum limits by (intro atomic_counter.reserve [OF atomic_counter_axioms]) (auto simp: covered_def)
  show ?thesis
  proof (cases "\<exists>p. r = Inr (True, p)")
    case True
    then have "val c' = (val (sy_counter s))(?k := val (sy_counter s) ?k + a)" "val (sy_counter s) ?k + a \<le> L ?k" "cinv c'"
      using R reserve(4) by auto
    with True assms(2) reserve(1) reservable_weight [OF reserve(2)] show ?thesis
      by (auto simp: covered_def add.assoc)
  next
    case False
    then have "val c' = val (sy_counter s)" "cinv c'" using R by (auto split: sum.splits prod.splits)
    with False assms(2) reserve(1) show ?thesis by (auto simp: covered_def split: sum.split prod.split bool.split)
  qed
next
  case (place h now e l')
  have p: "inv l' \<and> total (key_weight k) l' \<le> total (key_weight k) (sy_ledger s) + (if e = None then key_weight k (hold_core h) else 0)" for k
    using assms(2) place by (intro hold_store.place [OF hold_store_axioms]) (auto simp: covered_def)
  have "total (key_weight k) l' + holds_weight k (remove1 h (sy_inflight s))
      + holds_weight k (if e = None then sy_pending s else h # sy_pending s)
      \<le> total (key_weight k) (sy_ledger s) + holds_weight k (sy_inflight s) + holds_weight k (sy_pending s)" for k
    using p [of k] by (cases e) (simp_all add: holds_weight_remove1 [OF place(2)])
  with covered_ledger [OF assms(2), of l'] p place(1) show ?thesis by blast
next
  case (capture now org i rc l')
  have "inv l' \<and> total (key_weight k) l' \<le> total (key_weight k) (sy_ledger s)" for k
    using assms(2) capture by (intro hold_store.capture [OF hold_store_axioms]) (auto simp: covered_def)
  with covered_ledger [OF assms(2), of l' "sy_inflight s" "sy_pending s"] capture(1) show ?thesis by simp
next
  case (void now org i rv l')
  have "inv l' \<and> total (key_weight k) l' + (case rv of Inr (h, True) \<Rightarrow> key_weight k (hold_core h) | _ \<Rightarrow> 0)
      \<le> total (key_weight k) (sy_ledger s)" for k
    using assms(2) void by (intro hold_store.void [OF hold_store_axioms]) (auto simp: covered_def)
  with covered_ledger [OF assms(2), of l' "sy_inflight s" "case rv of Inr (h, True) \<Rightarrow> h # sy_pending s | _ \<Rightarrow> sy_pending s"]
    void(1) show ?thesis by (auto split: sum.splits prod.splits bool.splits)
next
  case (expire now limit re l')
  have "inv l' \<and> total (key_weight k) l' + (case re of Inr hs \<Rightarrow> \<Sum>h\<leftarrow>hs. key_weight k (hold_core h) | Inl _ \<Rightarrow> 0)
      \<le> total (key_weight k) (sy_ledger s)" for k
    using assms(2) expire by (intro hold_store.expire [OF hold_store_axioms]) (auto simp: covered_def)
  with covered_ledger [OF assms(2), of l' "sy_inflight s" "case re of Inr hs \<Rightarrow> hs @ sy_pending s | Inl _ \<Rightarrow> sy_pending s"]
    expire(1) show ?thesis by (auto simp: holds_weight_def split: sum.splits)
next
  case (get now org i rc l')
  have "inv l' \<and> total (key_weight k) l' \<le> total (key_weight k) (sy_ledger s)" for k
    using assms(2) get by (intro hold_store.get [OF hold_store_axioms]) (auto simp: covered_def)
  with covered_ledger [OF assms(2), of l' "sy_inflight s" "sy_pending s"] get(1) show ?thesis by simp
next
  case (release h a now e c')
  let ?k = "hold_counter_key h"
  note limits = proper_limitsD [OF assms(3), of ?k]
  have v: "0 \<le> val (sy_counter s) ?k" "val (sy_counter s) ?k \<le> L ?k"
    using covered_nonneg [OF assms(2)] assms(2) by (simp_all add: covered_def)
  have a: "0 \<le> a" "a < 2 ^ 52" using release(3) by (simp_all add: reservable_def)
  have small: "val (sy_counter s) ?k < 2 ^ 53" "a < 2 ^ 53" using v a limits by simp_all
  have "cinv (sy_counter s)" using assms(2) by (simp add: covered_def)
  from atomic_counter.release [OF atomic_counter_axioms this v(1) small(1) a(1) small(2) release(4)]
  have R: "cinv c' \<and> (val c' = (val (sy_counter s))(?k := max 0 (val (sy_counter s) ?k - a)) \<or> val c' = val (sy_counter s))"
    by blast
  have w: "holds_weight k (remove1 h (sy_pending s)) = holds_weight k (sy_pending s) - (if ?k = k then a else 0)" for k
    using holds_weight_remove1 [OF release(2)] reservable_weight [OF release(3)] by simp
  have cov: "total (key_weight k) (sy_ledger s) + holds_weight k (sy_inflight s) + holds_weight k (sy_pending s)
      \<le> val (sy_counter s) k \<and> val (sy_counter s) k \<le> L k" for k using assms(2) by (simp add: covered_def)
  have "total (key_weight k) (sy_ledger s) + holds_weight k (sy_inflight s) + holds_weight k (remove1 h (sy_pending s))
      \<le> val c' k \<and> val c' k \<le> L k" for k
    using R w [of k] a cov [of k] proper_limitsD(1) [OF assms(3), of k] by (elim conjE disjE) (simp_all add: max_def split: if_splits)
  with R assms(2) release(1) show ?thesis by (simp add: covered_def)
next
  case (skip h)
  have "holds_weight k (remove1 h (sy_pending s)) \<le> holds_weight k (sy_pending s)" for k
    using holds_weight_remove1 [OF skip(2), of k] nonnegD [OF key_weight_nonneg] by simp
  moreover have "inv (sy_ledger s)" using assms(2) by (simp add: covered_def)
  ultimately show ?thesis
    using covered_ledger [OF assms(2), of "sy_ledger s" "sy_inflight s" "remove1 h (sy_pending s)"] skip(1) by simp
qed

lemma covered_steps:
  "(sys_step cops hops L t0 t1)\<^sup>*\<^sup>* s s' \<Longrightarrow> covered L s \<Longrightarrow> proper_limits L \<Longrightarrow> covered L s'"
  by (induction rule: rtranclp_induct) (auto intro: covered_step)

end

interpretation redis_pg: reservation_system redis_counter_ops redis_val "redis_inv t1" t0 t1
    pg_hold_ops pg_total pg_quiet
  by unfold_locales

interpretation mem_mem: reservation_system mem_counter_ops "\<lambda>c. c" "\<lambda>c. True" t0 t1
    mem_hold_ops active_sum "\<lambda>m. True"
  by unfold_locales

text \<open>
  The production system goes one level down: \<open>Capture\<close> and \<open>Void\<close> of the Postgres ledger
  are several statements, and the statements of concurrent calls interleave. Reads are the
  step \<open>get\<close>; the conditional updates are steps of their own, possible at any time, whatever
  the call that issues them has read before. A releasing void learns its hold by reading
  the row back; when that read fails the release is dropped, which is the step \<open>skip\<close>.
\<close>

inductive stmt_step :: "(string \<Rightarrow> int) \<Rightarrow> (string \<Rightarrow> gotime) \<Rightarrow> (string \<Rightarrow> gotime)
    \<Rightarrow> (RedisCounter, PostgresStore) sys \<Rightarrow> (RedisCounter, PostgresStore) sys \<Rightarrow> bool" for L t0 t1 where
  call: "sys_step redis_counter_ops pg_hold_ops L t0 t1 s s' \<Longrightarrow> stmt_step L t0 t1 s s'"
| capture_row: "pg_update StateHeld (set_captured now) org i (sy_ledger s) = (u, l') \<Longrightarrow>
    stmt_step L t0 t1 s (s\<lparr>sy_ledger := l'\<rparr>)"
| void_row: "pg_update StateHeld (set_voided now) org i (sy_ledger s) = (u, l') \<Longrightarrow>
    stmt_step L t0 t1 s (s\<lparr>sy_ledger := l', sy_pending :=
      (case (u, map_of (pg_rows l') (org, i)) of (Some True, Some h) \<Rightarrow> h # sy_pending s | _ \<Rightarrow> sy_pending s)\<rparr>)"
| void_expired_row: "pg_update StateExpired (set_voided now) org i (sy_ledger s) = (u, l') \<Longrightarrow>
    stmt_step L t0 t1 s (s\<lparr>sy_ledger := l'\<rparr>)"

lemma pg_update_total:
  assumes "pg_quiet s" and "pg_update from f org i s = (u, s')"
    and "f = set_captured now \<and> from = StateHeld \<or> f = set_voided now \<and> from = StateExpired"
  shows "pg_quiet s' \<and> pg_total g s' = pg_total g s"
  using pg_update_quiet [OF assms(1,2)] assms(3)
  by (auto simp: pg_total_def active_sum_update_held active_sum_void_expired split: if_splits)

lemma pg_void_total:
  assumes "pg_quiet s" and "pg_update StateHeld (set_voided now) org i s = (u, s')"
  shows "pg_quiet s' \<and> pg_total g s' + (case (u, map_of (pg_rows s') (org, i)) of (Some True, Some h) \<Rightarrow> g (hold_core h) | _ \<Rightarrow> 0)
      = pg_total g s"
  using pg_update_quiet [OF assms] by (auto simp: pg_total_def active_sum_update_held split: if_splits option.splits bool.splits)

lemma stmt_covered:
  assumes "stmt_step L t0 t1 s s'" and "redis_pg.covered t1 L s" and "proper_limits L"
  shows "redis_pg.covered t1 L s'"
  using assms(1)
proof cases
  case call
  then show ?thesis using assms(2,3) by (rule redis_pg.covered_step)
next
  case (capture_row now org i u l')
  have "pg_quiet l' \<and> pg_total (key_weight k) l' = pg_total (key_weight k) (sy_ledger s)" for k
    using capture_row(2) assms(2) by (intro pg_update_total) (auto simp: redis_pg.covered_def)
  with redis_pg.covered_ledger [OF assms(2), of l' "sy_inflight s" "sy_pending s"] capture_row(1) show ?thesis by simp
next
  case (void_row now org i u l')
  have "pg_quiet l' \<and> pg_total (key_weight k) l' + (case (u, map_of (pg_rows l') (org, i)) of
      (Some True, Some h) \<Rightarrow> key_weight k (hold_core h) | _ \<Rightarrow> 0) = pg_total (key_weight k) (sy_ledger s)" for k
    using void_row(2) assms(2) by (intro pg_void_total) (auto simp: redis_pg.covered_def)
  with redis_pg.covered_ledger [OF assms(2), of l' "sy_inflight s" "case (u, map_of (pg_rows l') (org, i)) of
      (Some True, Some h) \<Rightarrow> h # sy_pending s | _ \<Rightarrow> sy_pending s"] void_row(1)
  show ?thesis by (force split: option.splits bool.splits)
next
  case (void_expired_row now org i u l')
  have "pg_quiet l' \<and> pg_total (key_weight k) l' = pg_total (key_weight k) (sy_ledger s)" for k
    using void_expired_row(2) assms(2) by (intro pg_update_total) (auto simp: redis_pg.covered_def)
  with redis_pg.covered_ledger [OF assms(2), of l' "sy_inflight s" "sy_pending s"] void_expired_row(1) show ?thesis by simp
qed

lemma stmt_steps_covered:
  "(stmt_step L t0 t1)\<^sup>*\<^sup>* s s' \<Longrightarrow> redis_pg.covered t1 L s \<Longrightarrow> proper_limits L \<Longrightarrow> redis_pg.covered t1 L s'"
  by (induction rule: rtranclp_induct) (auto intro: stmt_covered)

section \<open>The calls are sequences of steps\<close>

text \<open>\<open>Reserve\<close> as steps of the system: the counter's check-and-add, then the ledger write,
  and the release when that write failed.\<close>

definition sys_of :: "('c, 's) budget_world \<Rightarrow> ('c, 's) sys" where
  "sys_of w = \<lparr>sy_counter = bw_counter w, sy_ledger = bw_holds w, sy_inflight = [], sy_pending = []\<rparr>"

text \<open>The instant and the counter key of a request, and when a call is one of the system:
  in the key's period, the limit of the policy below the bound, a representable amount.\<close>

definition req_time :: "gotime \<Rightarrow> AuthorizeRequest \<Rightarrow> gotime" where
  "req_time now req = (case parse_RFC3339 (req_EvaluatedAt req) of Some parsed \<Rightarrow> parsed | None \<Rightarrow> now)"

definition req_key :: "gotime \<Rightarrow> string \<Rightarrow> AuthorizeRequest \<Rightarrow> BudgetDecl \<Rightarrow> string" where
  "req_key now orgID req b = counterKey orgID (bd_ID b) (WindowKey (bd_Window b) (req_time now req))"

definition budget_fits :: "(string \<Rightarrow> int) \<Rightarrow> (string \<Rightarrow> gotime) \<Rightarrow> (string \<Rightarrow> gotime) \<Rightarrow> gotime \<Rightarrow> string
    \<Rightarrow> AuthorizeRequest \<Rightarrow> BudgetDecl \<Rightarrow> bool" where
  "budget_fits L t0 t1 now orgID req b \<longleftrightarrow>
     (let key = req_key now orgID req b in
      t0 key \<le> now \<and> now \<le> t1 key \<and> t1 key - t0 key + ns_milli \<le> windowTTL (bd_Window b)
      \<and> (case toCents (req_Amount req) of Some a \<Rightarrow> 0 \<le> a \<and> a < 2 ^ 52 | None \<Rightarrow> True)
      \<and> (case toCents (bd_Limit b) of Some l \<Rightarrow> 0 \<le> l \<and> l \<le> L key | None \<Rightarrow> True))"

lemma Reserver_Reserve_steps:
  assumes "Reserver_Reserve r now orgID decID req b w = (res, w')"
    and "budget_fits L t0 t1 now orgID req b"
  shows "(sys_step (rs_counter r) (rs_holds r) L t0 t1)\<^sup>*\<^sup>* (sys_of w) (sys_of w')"
proof (cases "toCents (req_Amount req) = None \<or> toCents (bd_Limit b) = None")
  case True
  with assms(1) show ?thesis by (auto simp: Reserver_Reserve_def Let_def split: option.splits)
next
  case False
  then obtain a l where Some: "toCents (req_Amount req) = Some a" and lim: "toCents (bd_Limit b) = Some l" by auto
  define t where "t = (case parse_RFC3339 (req_EvaluatedAt req) of Some parsed \<Rightarrow> parsed | None \<Rightarrow> now)"
  define wk where "wk = WindowKey (bd_Window b) t"
  define h where "h = new_hold orgID decID req b wk t (rs_holdTTL r)"
  define key where "key = counterKey orgID (bd_ID b) wk"
  have key: "req_key now orgID req b = key" by (simp add: req_key_def req_time_def key_def wk_def t_def)
  have fit: "t0 key \<le> now" "now \<le> t1 key" "t1 key - t0 key + ns_milli \<le> windowTTL (bd_Window b)" "0 \<le> l" "l \<le> L key"
    using assms(2) lim by (auto simp: budget_fits_def key Let_def)
  have hk: "hold_counter_key h = key" by (simp add: hold_counter_key_def h_def key_def)
  have ra: "reservable h a" using assms(2) Some by (simp add: budget_fits_def Let_def reservable_def h_def)
  obtain x c1 where cr: "co_Reserve (rs_counter r) now key a l (windowTTL (bd_Window b)) (windowSticky (bd_Window b))
      (bw_counter w) = (x, c1)" by fastforce
  obtain e s1 where pl: "ho_Place (rs_holds r) now h (bw_holds w) = (e, s1)" by fastforce
  obtain e2 c2 where rl: "co_Release (rs_counter r) now key a c1 = (e2, c2)" by fastforce
  have w': "w' = (if (\<exists>p. x = Inr (True, p)) then
       (if e = None then w\<lparr>bw_counter := c1, bw_holds := s1\<rparr> else w\<lparr>bw_counter := c2, bw_holds := s1\<rparr>)
       else w\<lparr>bw_counter := c1\<rparr>)"
    using assms(1) Some cr pl rl lim
    by (auto simp: Reserver_Reserve_def Let_def t_def [symmetric] wk_def [symmetric] key_def [symmetric] h_def [symmetric]
        split: sum.splits prod.splits option.splits if_splits)
  let ?step = "sys_step (rs_counter r) (rs_holds r) L t0 t1"
  let ?s1 = "(sys_of w)\<lparr>sy_counter := c1,
    sy_inflight := (case x of Inr (True, _) \<Rightarrow> h # sy_inflight (sys_of w) | _ \<Rightarrow> sy_inflight (sys_of w))\<rparr>"
  have 1: "?step (sys_of w) ?s1"
    using cr fit by (intro sys_step.reserve [OF ra, of l]) (simp_all add: sys_of_def hk)
  show ?thesis
  proof (cases "\<exists>p. x = Inr (True, p)")
    case True
    let ?s2 = "?s1\<lparr>sy_ledger := s1, sy_inflight := [], sy_pending := (if e = None then [] else [h])\<rparr>"
    have 2: "?step ?s1 ?s2"
      using sys_step.place [of h ?s1 "rs_holds r" now e s1 "rs_counter r" L t0 t1] True pl by (auto simp: sys_of_def)
    show ?thesis
    proof (cases e)
      case None
      with 1 2 w' True show ?thesis by (auto simp: sys_of_def intro: converse_rtranclp_into_rtranclp)
    next
      case (Some err)
      have "?step ?s2 (?s2\<lparr>sy_counter := c2, sy_pending := []\<rparr>)"
        using sys_step.release [of h ?s2 a "rs_counter r" now e2 c2 "rs_holds r" L t0 t1] Some ra rl hk
        by (auto simp: sys_of_def)
      with 1 2 w' True Some show ?thesis by (auto simp: sys_of_def intro: converse_rtranclp_into_rtranclp)
    qed
  next
    case False
    with 1 w' show ?thesis by (auto simp: sys_of_def split: sum.splits prod.splits bool.splits)
  qed
qed

lemma Reserver_Void_steps:
  assumes "Reserver_Void r now orgID decID w = (res, w')"
    and "\<And>a h s1. ho_Void (rs_holds r) now orgID decID (bw_holds w) = (Inr (h, True), s1) \<Longrightarrow>
           toCents (h_Amount h) = Some a \<Longrightarrow> 0 \<le> a \<and> a < 2 ^ 52"
  shows "(sys_step (rs_counter r) (rs_holds r) L t0 t1)\<^sup>*\<^sup>* (sys_of w) (sys_of w')"
proof -
  obtain rv s1 where v: "ho_Void (rs_holds r) now orgID decID (bw_holds w) = (rv, s1)" by fastforce
  let ?step = "sys_step (rs_counter r) (rs_holds r) L t0 t1"
  let ?s1 = "(sys_of w)\<lparr>sy_ledger := s1,
    sy_pending := (case rv of Inr (h, True) \<Rightarrow> h # sy_pending (sys_of w) | _ \<Rightarrow> sy_pending (sys_of w))\<rparr>"
  have 1: "?step (sys_of w) ?s1"
    using v by (intro sys_step.void) (simp add: sys_of_def)
  show ?thesis
  proof (cases "\<exists>h. rv = Inr (h, True)")
    case True
    then obtain h where h: "rv = Inr (h, True)" by blast
    show ?thesis
    proof (cases "toCents (h_Amount h)")
      case None
      have "?step ?s1 (?s1\<lparr>sy_pending := []\<rparr>)"
        using sys_step.skip [of h ?s1 "rs_counter r" "rs_holds r" L t0 t1] h by (simp add: sys_of_def)
      moreover have "w' = w\<lparr>bw_holds := s1\<rparr>" using assms(1) v h None by (auto simp: Reserver_Void_def)
      ultimately show ?thesis using 1 h by (auto simp: sys_of_def intro: converse_rtranclp_into_rtranclp)
    next
      case (Some a)
      obtain e c' where rel: "co_Release (rs_counter r) now (hold_counter_key h) a (bw_counter w) = (e, c')" by fastforce
      have "reservable h a" using assms(2) v h Some by (simp add: reservable_def)
      then have "?step ?s1 (?s1\<lparr>sy_counter := c', sy_pending := []\<rparr>)"
        using sys_step.release [of h ?s1 a "rs_counter r" now e c' "rs_holds r" L t0 t1] h rel by (simp add: sys_of_def)
      moreover have "w' = w\<lparr>bw_counter := c', bw_holds := s1\<rparr>"
        using assms(1) v h Some rel by (auto simp: Reserver_Void_def hold_counter_key_def)
      ultimately show ?thesis using 1 h by (auto simp: sys_of_def intro: converse_rtranclp_into_rtranclp)
    qed
  next
    case False
    then have "w' = w\<lparr>bw_holds := s1\<rparr>" using assms(1) v by (auto simp: Reserver_Void_def split: sum.splits prod.splits bool.splits)
    with 1 False show ?thesis by (auto simp: sys_of_def split: sum.splits prod.splits bool.splits)
  qed
qed

section \<open>The reserver satisfies the engine's interface\<close>

text \<open>The production reserver at the instant \<open>now\<close>: Redis counter, Postgres ledger.\<close>

definition prod_reserver :: "gotime \<Rightarrow> duration \<Rightarrow> (RedisCounter, PostgresStore) budget_world budget_reserver" where
  "prod_reserver now ttl orgID decID req b w =
     Reserver_Reserve (NewReserver redis_counter_ops pg_hold_ops ttl) now orgID decID req b w"

definition pg_fresh :: "(RedisCounter, PostgresStore) budget_world \<Rightarrow> string \<Rightarrow> string \<Rightarrow> bool" where
  "pg_fresh w orgID decID \<longleftrightarrow> pg_quiet (bw_holds w) \<and> map_of (pg_rows (bw_holds w)) (orgID, decID) = None"

definition pg_held :: "pg_table \<Rightarrow> string \<Rightarrow> string \<Rightarrow> bool" where
  "pg_held rows orgID decID \<longleftrightarrow> (\<exists>h. map_of rows (orgID, decID) = Some h \<and> h_State h = StateHeld)"

lemma Postgres_Place_outcome:
  assumes "Postgres_Place now h s = (e, s')"
  shows "e \<noteq> None \<Longrightarrow> pg_rows s' = pg_rows s"
    and "e = None \<Longrightarrow> pg_quiet s \<Longrightarrow> map_of (pg_rows s) (h_OrgID h, h_DecisionID h) = None \<Longrightarrow>
      pg_held (pg_rows s') (h_OrgID h) (h_DecisionID h)"
proof -
  obtain ok s1 where b: "pg_begin s = (ok, s1)" by fastforce
  have "\<not> ok \<Longrightarrow> pg_rows s1 = pg_rows s"
    using b by (auto simp: pg_begin_def split: list.splits pg_event.splits)
  with b assms show "e \<noteq> None \<Longrightarrow> pg_rows s' = pg_rows s"
    by (auto simp: Postgres_Place_def Let_def split: bool.splits option.splits)
  show "pg_held (pg_rows s') (h_OrgID h) (h_DecisionID h)"
    if "e = None" "pg_quiet s" "map_of (pg_rows s) (h_OrgID h, h_DecisionID h) = None"
    using pg_begin_quiet [OF that(2) b] b assms that
    by (auto simp: Postgres_Place_def Let_def pg_held_def split: bool.splits option.splits)
qed

lemma Reserver_Reserve_outcome:
  assumes "Reserver_Reserve r now orgID decID req b w = (res, w')"
  obtains (placed) wk t where "br_Outcome res = BudgetWithinLimit"
      "ho_Place (rs_holds r) now (new_hold orgID decID req b wk t (rs_holdTTL r)) (bw_holds w) = (None, bw_holds w')"
  | (refused) h e where "br_Outcome res = BudgetUnavailable" "ho_Place (rs_holds r) now h (bw_holds w) = (Some e, bw_holds w')"
  | (early) "br_Outcome res \<noteq> BudgetWithinLimit" "bw_holds w' = bw_holds w"
  using assms
  by (auto simp: Reserver_Reserve_def Let_def intro: that split: option.splits sum.splits prod.splits if_splits)

interpretation prod: budget_reserver "prod_reserver now ttl" "\<lambda>w. pg_rows (bw_holds w)" pg_fresh pg_held
proof
  fix w orgID decID req b res w'
  assume f: "pg_fresh w orgID decID" and r: "prod_reserver now ttl orgID decID req b w = (res, w')"
    and o: "br_Outcome res = BudgetWithinLimit"
  from r [unfolded prod_reserver_def] show "pg_held (pg_rows (bw_holds w')) orgID decID"
    by (cases rule: Reserver_Reserve_outcome)
       (use f o in \<open>auto simp: NewReserver_def pg_hold_ops_def pg_fresh_def dest: Postgres_Place_outcome(2)\<close>)
next
  fix orgID decID req b w res w'
  assume r: "prod_reserver now ttl orgID decID req b w = (res, w')" and o: "br_Outcome res \<noteq> BudgetWithinLimit"
  from r [unfolded prod_reserver_def] show "pg_rows (bw_holds w') = pg_rows (bw_holds w)"
    by (cases rule: Reserver_Reserve_outcome)
       (use o Postgres_Place_outcome(1) in \<open>auto simp: NewReserver_def pg_hold_ops_def\<close>)
qed

section \<open>Calendar windows fit the lifetime of their counters\<close>

text \<open>The window key of a counter key can be read off it, and the instants at which a calendar
  window has a given key lie closer together than its counter lives. (The server clears
  the request's own time before it authorizes, so the window key is that of the clock.)\<close>

lemma WindowKey_no_colon: "0 \<le> t \<Longrightarrow> CHR '':'' \<notin> set (WindowKey w t)"
proof -
  assume t: "0 \<le> t"
  obtain y m d where D: "time_Date t = (y, m, d)" by (metis prod.exhaust)
  note ds = time_Date_exact [OF t D]
  then have "CHR '':'' \<notin> set (pad_int 4 y)" "CHR '':'' \<notin> set (pad_int 2 m)" "CHR '':'' \<notin> set (pad_int 2 d)"
    by (auto dest: pad_int_no)
  with D show ?thesis by (simp add: WindowKey_def format_date_def format_month_def)
qed

lemma counterKey_window:
  assumes "counterKey o1 b1 k1 = counterKey o2 b2 k2" and "CHR '':'' \<notin> set k1" and "CHR '':'' \<notin> set k2"
  shows "k1 = k2"
proof -
  from assms(1) have "rev k1 @ CHR '':'' # rev (''budget:'' @ o1 @ '':'' @ b1) = rev k2 @ CHR '':'' # rev (''budget:'' @ o2 @ '':'' @ b2)"
    by (simp add: counterKey_def del: rev_append) (metis append_Cons append_Nil append_assoc rev_append rev_singleton_conv)
  with append_sep_inject [of "CHR '':''" "rev k1" "rev k2"] assms(2,3) show ?thesis by (metis rev_is_rev_conv set_rev)
qed

lemma WindowKey_span:
  assumes "w \<noteq> ''rolling''" and "0 \<le> u"
  shows "\<exists>z0 z1. \<forall>w' t. w' \<noteq> ''rolling'' \<longrightarrow> 0 \<le> t \<longrightarrow> WindowKey w' t = WindowKey w u \<longrightarrow>
     z0 \<le> t \<and> t \<le> z1 \<and> z1 - z0 + ns_milli \<le> windowTTL w'"
proof (cases "w = ''day''")
  case True
  obtain z where z: "\<forall>t\<ge>0. format_date t = format_date u \<longrightarrow> z \<le> t \<and> t < z + ns_day" using date_span [OF assms(2)] by blast
  have "z \<le> t \<and> t \<le> z + ns_day \<and> z + ns_day - z + ns_milli \<le> windowTTL w'"
    if "w' \<noteq> ''rolling''" "0 \<le> t" "WindowKey w' t = WindowKey w u" for w' t
    using that z True format_date_not_month [OF assms(2) that(2)]
    by (cases "w' = ''day''") (auto simp: WindowKey_def windowTTL_def)
  then show ?thesis by blast
next
  case False
  obtain z where z: "\<forall>t\<ge>0. format_month t = format_month u \<longrightarrow> z \<le> t \<and> t < z + 31 * ns_day" using month_span [OF assms(2)] by blast
  have "z \<le> t \<and> t \<le> z + 31 * ns_day \<and> z + 31 * ns_day - z + ns_milli \<le> windowTTL w'"
    if "w' \<noteq> ''rolling''" "0 \<le> t" "WindowKey w' t = WindowKey w u" for w' t
    using that z False assms(1) format_date_not_month [OF that(2) assms(2)]
    by (cases "w' = ''day''") (auto simp: WindowKey_def windowTTL_def)
  then show ?thesis by blast
qed

lemma calendar_periods:
  "\<exists>t0 t1. \<forall>orgID budgetID w now. w \<noteq> ''rolling'' \<longrightarrow> 0 \<le> now \<longrightarrow>
     (let key = counterKey orgID budgetID (WindowKey w now)
      in t0 key \<le> now \<and> now \<le> t1 key \<and> t1 key - t0 key + ns_milli \<le> windowTTL w)"
proof -
  have "\<exists>z0 z1. \<forall>orgID budgetID w now. w \<noteq> ''rolling'' \<longrightarrow> 0 \<le> now \<longrightarrow> counterKey orgID budgetID (WindowKey w now) = key \<longrightarrow>
      z0 \<le> now \<and> now \<le> z1 \<and> z1 - z0 + ns_milli \<le> windowTTL w" for key
  proof (cases "\<exists>orgID budgetID w now. w \<noteq> ''rolling'' \<and> 0 \<le> now \<and> counterKey orgID budgetID (WindowKey w now) = key")
    case True
    then obtain o1 b1 w1 u where u: "w1 \<noteq> ''rolling''" "0 \<le> u" "counterKey o1 b1 (WindowKey w1 u) = key" by blast
    have "WindowKey w now = WindowKey w1 u" if "0 \<le> now" "counterKey o2 b2 (WindowKey w now) = key" for o2 b2 w now
      using counterKey_window [of o2 b2 _ o1 b1] that u WindowKey_no_colon by auto
    with WindowKey_span [OF u(1,2)] show ?thesis by meson
  qed blast
  then obtain t0 t1 where "\<forall>key orgID budgetID w now. w \<noteq> ''rolling'' \<longrightarrow> 0 \<le> now \<longrightarrow>
      counterKey orgID budgetID (WindowKey w now) = key \<longrightarrow> t0 key \<le> now \<and> now \<le> t1 key \<and> t1 key - t0 key + ns_milli \<le> windowTTL w"
    by metis
  then show ?thesis by (intro exI [of _ t0] exI [of _ t1]) (simp add: Let_def)
qed

section \<open>The outcomes of a reservation\<close>

lemma Postgres_Place_fresh:
  assumes "Postgres_Place now h s = (e, s')" and "pg_quiet s" and "map_of (pg_rows s) (h_OrgID h, h_DecisionID h) = None"
  shows "case e of Some _ \<Rightarrow> hd (pg_sched s) = PgFail \<and> pg_rows s' = pg_rows s
    | None \<Rightarrow> \<exists>c. map_of (pg_rows s') = (map_of (pg_rows s))((h_OrgID h, h_DecisionID h) \<mapsto>
          h\<lparr>h_State := StateHeld, h_CreatedAt := c, h_CapturedAt := 0, h_VoidedAt := 0\<rparr>)"
proof -
  obtain ok s1 where b: "pg_begin s = (ok, s1)" by fastforce
  have "\<not> ok \<Longrightarrow> hd (pg_sched s) = PgFail" using b by (auto simp: pg_begin_def split: list.splits pg_event.splits)
  with pg_begin_quiet [OF assms(2) b] b assms(1,3) show ?thesis
    by (auto simp: Postgres_Place_def Let_def fun_eq_iff split: bool.splits option.splits)
qed

text \<open>The counter's part, and why it may fail.\<close>

lemma redis_reserve_law:
  assumes "redis_inv t1 c" and "t0 key \<le> now" and "now \<le> t1 key" and "t1 key - t0 key + ns_milli \<le> ttl"
    and "0 \<le> redis_val c key" and "0 \<le> a" and "redis_val c key + a < 2 ^ 53" and "0 \<le> l" and "l < 2 ^ 53"
    and "RedisCounter_Reserve now key a l ttl sticky c = (r, c')"
  shows "redis_inv t1 c' \<and> (case r of Inl _ \<Rightarrow> \<not> rc_up c \<and> c' = c
        | Inr (ok, p) \<Rightarrow> p = redis_val c key \<and> (ok \<longleftrightarrow> p + a \<le> l) \<and> (if ok then redis_val c' = (redis_val c)(key := p + a) else c' = c))"
proof -
  have "redis_inv t1 c' \<and> (case r of Inl _ \<Rightarrow> redis_val c' = redis_val c
        | Inr (ok, p) \<Rightarrow> p = redis_val c key \<and> (ok \<longleftrightarrow> p + a \<le> l) \<and> redis_val c' = (if ok then (redis_val c)(key := p + a) else redis_val c))"
    using assms by (intro redis_counter.reserve [where ?t0.0 = t0 and ?t1.0 = t1]) (auto simp: redis_counter_ops_def)
  moreover have "in_int64 (redis_val c key + lua_num a)"
    using assms(5-7) lua_num_exact [of a] by (simp add: in_int64_def)
  then have "case r of Inl _ \<Rightarrow> \<not> rc_up c \<and> c' = c | Inr (ok, p) \<Rightarrow> ok \<or> c' = c"
    using assms(10) by (auto simp: RedisCounter_Reserve_def Let_def redis_find_inv [OF assms(1,3)] redis_val_find [symmetric] split: if_splits)
  ultimately show ?thesis by (auto split: sum.splits)
qed

text \<open>A reservation just accepted is undone exactly: the key is live and carries at least the
  amount.\<close>

lemma redis_reserve_release:
  assumes "redis_inv t1 c" and "t0 key \<le> now" and "now \<le> t1 key" and "t1 key - t0 key + ns_milli \<le> ttl"
    and "0 \<le> redis_val c key" and "0 \<le> a" and "redis_val c key + a < 2 ^ 53" and "0 \<le> l" and "l < 2 ^ 53"
    and "RedisCounter_Reserve now key a l ttl sticky c = (Inr (True, p), c1)"
  shows "redis_val (snd (RedisCounter_Release now key a c1)) = redis_val c"
proof -
  obtain e c2 where rel: "RedisCounter_Release now key a c1 = (e, c2)" by fastforce
  have c1: "redis_inv t1 c1" "redis_val c1 = (redis_val c)(key := redis_val c key + a)"
    using redis_reserve_law [where ?t0.0 = t0, OF assms] by simp_all
  have "rc_up c1" using assms(10) by (auto simp: RedisCounter_Reserve_def redis_put_def Let_def split: if_splits)
  then have "e = None" using rel by (auto simp: RedisCounter_Release_def Let_def split: option.splits)
  with redis_counter.release [OF c1(1), of key a now e c2] c1 assms(3,5-7) rel show ?thesis
    by (auto simp: redis_counter_ops_def fun_eq_iff)
qed

lemma Reserver_Reserve_cases:
  assumes "Reserver_Reserve (NewReserver redis_counter_ops pg_hold_ops ttl) now orgID decID req b w = (res, w')"
    and "budget_fits L t0 t1 now orgID req b" and "proper_limits L" and "pg_fresh w orgID decID"
    and "redis_inv t1 (bw_counter w)" and "key = req_key now orgID req b"
    and "0 \<le> redis_val (bw_counter w) key" and "redis_val (bw_counter w) key \<le> L key"
  obtains (within) a l h where "br_Outcome res = BudgetWithinLimit" "toCents (req_Amount req) = Some a"
      "toCents (bd_Limit b) = Some l" "redis_val (bw_counter w) key + a \<le> l"
      "redis_val (bw_counter w') = (redis_val (bw_counter w))(key := redis_val (bw_counter w) key + a)"
      "map_of (pg_rows (bw_holds w')) = (map_of (pg_rows (bw_holds w)))((orgID, decID) \<mapsto> h)"
      "h_State h = StateHeld" "h_Amount h = req_Amount req" "hold_counter_key h = key"
  | (exceeded) a l where "br_Outcome res = BudgetExceeded" "toCents (req_Amount req) = Some a"
      "toCents (bd_Limit b) = Some l" "l < redis_val (bw_counter w) key + a" "w' = w"
  | (unavailable) "br_Outcome res = BudgetUnavailable"
      "toCents (req_Amount req) = None \<or> toCents (bd_Limit b) = None \<or> \<not> rc_up (bw_counter w) \<or> hd (pg_sched (bw_holds w)) = PgFail"
      "redis_val (bw_counter w') = redis_val (bw_counter w)" "pg_rows (bw_holds w') = pg_rows (bw_holds w)"
proof (cases "toCents (req_Amount req) = None \<or> toCents (bd_Limit b) = None")
  case True
  with assms(1) have "br_Outcome res = BudgetUnavailable \<and> w' = w"
    by (auto simp: Reserver_Reserve_def Let_def split: option.splits)
  with True show ?thesis by (intro unavailable) auto
next
  case False
  then obtain a l where am: "toCents (req_Amount req) = Some a" and lim: "toCents (bd_Limit b) = Some l" by auto
  define wk where "wk = WindowKey (bd_Window b) (req_time now req)"
  define h where "h = new_hold orgID decID req b wk (req_time now req) (if ttl \<le> 0 then DefaultHoldTTL else ttl)"
  have key: "key = counterKey orgID (bd_ID b) wk" using assms(6) by (simp add: req_key_def wk_def)
  have fit: "t0 key \<le> now" "now \<le> t1 key" "t1 key - t0 key + ns_milli \<le> windowTTL (bd_Window b)" "0 \<le> l" "l \<le> L key"
      "0 \<le> a" "a < 2 ^ 52"
    using assms(2) lim am by (auto simp: budget_fits_def assms(6) Let_def)
  have bounds: "redis_val (bw_counter w) key + a < 2 ^ 53" "l < 2 ^ 53"
    using fit proper_limitsD(2) [OF assms(3), of key] assms(8) by simp_all
  obtain x c1 where cr: "RedisCounter_Reserve now key a l (windowTTL (bd_Window b)) (windowSticky (bd_Window b)) (bw_counter w) = (x, c1)"
    by fastforce
  note counted = redis_reserve_law [where ?t0.0 = t0, OF assms(5) fit(1-3) assms(7) fit(6) bounds(1) fit(4) bounds(2) cr]
  obtain e s1 where pl: "Postgres_Place now h (bw_holds w) = (e, s1)" by fastforce
  note run = assms(1) [unfolded Reserver_Reserve_def NewReserver_def Let_def req_time_def [symmetric]]
  note parts = am lim cr pl wk_def [symmetric] key [symmetric] h_def [symmetric] redis_counter_ops_def pg_hold_ops_def
  show ?thesis
  proof (cases x)
    case (Inl err)
    with counted have "\<not> rc_up (bw_counter w) \<and> c1 = bw_counter w" by simp
    with run Inl show ?thesis by (intro unavailable) (auto simp: parts)
  next
    case (Inr y)
    then obtain ok p where x: "x = Inr (ok, p)" by (cases y) auto
    with counted have ok: "p = redis_val (bw_counter w) key" "ok \<longleftrightarrow> p + a \<le> l"
        "if ok then redis_val c1 = (redis_val (bw_counter w))(key := p + a) else c1 = bw_counter w"
      by simp_all
    show ?thesis
    proof (cases ok)
      case False
      with ok have "c1 = bw_counter w" by simp
      with run x False ok am lim show ?thesis by (intro exceeded [of a l]) (auto simp: parts)
    next
      case True
      have fresh: "pg_quiet (bw_holds w)" "map_of (pg_rows (bw_holds w)) (h_OrgID h, h_DecisionID h) = None"
        using assms(4) by (simp_all add: pg_fresh_def h_def)
      have hf: "h_Amount h = req_Amount req" "counterKey (h_OrgID h) (h_BudgetID h) (h_WindowKey h) = key"
        by (simp_all add: h_def key)
      note placed = Postgres_Place_fresh [OF pl fresh]
      show ?thesis
      proof (cases e)
        case None
        with placed obtain c where "map_of (pg_rows s1) = (map_of (pg_rows (bw_holds w)))((orgID, decID) \<mapsto>
            h\<lparr>h_State := StateHeld, h_CreatedAt := c, h_CapturedAt := 0, h_VoidedAt := 0\<rparr>)" by (auto simp: h_def)
        with run x True None ok am lim show ?thesis
          by (intro within [of a l]) (auto simp: parts hold_counter_key_def hf)
      next
        case (Some err)
        have "redis_val (snd (RedisCounter_Release now key a c1)) = redis_val (bw_counter w)"
          using redis_reserve_release [where ?t0.0 = t0, OF assms(5) fit(1-3) assms(7) fit(6) bounds(1) fit(4) bounds(2)] cr x True by simp
        with run x True Some placed show ?thesis by (intro unavailable) (auto simp: parts)
      qed
    qed
  qed
qed

section \<open>An example\<close>

definition demo_limits :: "string \<Rightarrow> int" where
  "demo_limits k = 50000"

definition demo_sys0 :: "(RedisCounter, PostgresStore) sys" where
  "demo_sys0 = \<lparr>sy_counter = \<lparr>rc_up = True, rc_keys = []\<rparr>, sy_ledger = \<lparr>pg_rows = [], pg_sched = []\<rparr>,
     sy_inflight = [], sy_pending = []\<rparr>"

definition demo_sys1 :: "(RedisCounter, PostgresStore) sys" where
  "demo_sys1 = demo_sys0\<lparr>sy_counter := \<lparr>rc_up = True, rc_keys = [(''budget:org:daily:2026-01-01'', (4000, Some 172800000))]\<rparr>,
     sy_inflight := [demo_hold]\<rparr>"

lemma demo_reserve_step: "sys_step redis_counter_ops pg_hold_ops demo_limits (\<lambda>_. 0) (\<lambda>_. 0) demo_sys0 demo_sys1"
proof -
  have key: "hold_counter_key demo_hold = ''budget:org:daily:2026-01-01''"
    by (simp add: hold_counter_key_def counterKey_def demo_hold_def)
  have "reservable demo_hold 4000"
    by (simp add: reservable_def toCents_def demo_hold_def go_eval)
  moreover have "co_Reserve redis_counter_ops 0 (hold_counter_key demo_hold) 4000
      (demo_limits (hold_counter_key demo_hold)) (48 * ns_hour) True (sy_counter demo_sys0) =
      (Inr (True, 0), sy_counter demo_sys1)"
    by (simp add: redis_counter_ops_def RedisCounter_Reserve_def demo_sys0_def demo_sys1_def redis_find_def key
        demo_limits_def lua_num_exact in_int64_def redis_put_def)
  ultimately show ?thesis
    using sys_step.reserve [of demo_hold 4000 "demo_limits (hold_counter_key demo_hold)" demo_limits "\<lambda>_. 0" 0 "\<lambda>_. 0"
        "48 * ns_hour" redis_counter_ops True demo_sys0 "Inr (True, 0)" "sy_counter demo_sys1" pg_hold_ops]
    by (simp add: demo_sys0_def demo_sys1_def demo_limits_def)
qed

text \<open>Then the row is inserted and captured.\<close>

definition demo_sys3 :: "(RedisCounter, PostgresStore) sys" where
  "demo_sys3 = demo_sys1\<lparr>sy_ledger := \<lparr>pg_rows = [((''org'', ''d1''), set_captured 7 demo_hold)], pg_sched = []\<rparr>,
     sy_inflight := []\<rparr>"

lemma demo_sys_run: "(stmt_step demo_limits (\<lambda>_. 0) (\<lambda>_. 0))\<^sup>*\<^sup>* demo_sys0 demo_sys3"
proof -
  let ?s2 = "demo_sys1\<lparr>sy_ledger := \<lparr>pg_rows = [((''org'', ''d1''), demo_hold)], pg_sched = []\<rparr>, sy_inflight := []\<rparr>"
  have mem: "demo_hold \<in> set (sy_inflight demo_sys1)" by (simp add: demo_sys1_def)
  have pl: "ho_Place pg_hold_ops 5 demo_hold (sy_ledger demo_sys1) = (None, sy_ledger ?s2)"
    by (simp add: demo_sys1_def demo_sys0_def pg_hold_ops_def Postgres_Place_def pg_begin_def demo_hold_def hold_nil_def time_IsZero_def)
  have held: "h_State demo_hold = StateHeld" by (simp add: demo_hold_def)
  have up: "pg_update StateHeld (set_captured 7) ''org'' ''d1'' (sy_ledger ?s2) = (Some True, sy_ledger demo_sys3)"
    by (simp add: demo_sys3_def pg_update_def pg_begin_def held)
  have "sys_step redis_counter_ops pg_hold_ops demo_limits (\<lambda>_. 0) (\<lambda>_. 0) demo_sys1 ?s2"
    using sys_step.place [OF mem pl, of redis_counter_ops demo_limits "\<lambda>_. 0" "\<lambda>_. 0"]
    by (simp add: demo_sys1_def demo_sys0_def)
  moreover have "stmt_step demo_limits (\<lambda>_. 0) (\<lambda>_. 0) ?s2 demo_sys3"
    using stmt_step.capture_row [OF up, of demo_limits "\<lambda>_. 0" "\<lambda>_. 0"] by (simp add: demo_sys3_def demo_sys1_def demo_sys0_def)
  ultimately show ?thesis
    using demo_reserve_step by (meson stmt_step.call rtranclp.rtrancl_into_rtrancl rtranclp.rtrancl_refl)
qed

text \<open>A whole reservation of 40.00 against a daily limit of 500, with the ledger up or down.\<close>

definition demo_budget :: BudgetDecl where
  "demo_budget = \<lparr>bd_ID = ''daily'', bd_Agents = [], bd_Window = ''day'', bd_Limit = ''500'', bd_Currency = ''USD''\<rparr>"

definition demo_budget_world :: "pg_event list \<Rightarrow> (RedisCounter, PostgresStore) budget_world" where
  "demo_budget_world sched = \<lparr>bw_counter = \<lparr>rc_up = True, rc_keys = []\<rparr>, bw_holds = \<lparr>pg_rows = [], pg_sched = sched\<rparr>\<rparr>"

definition demo_reserve :: "pg_event list \<Rightarrow> BudgetResult \<times> (RedisCounter, PostgresStore) budget_world" where
  "demo_reserve sched = Reserver_Reserve (NewReserver redis_counter_ops pg_hold_ops 0) 0 ''org'' ''d1'' (demo_request ''shop'')
     demo_budget (demo_budget_world sched)"

lemma demo_fits:
  "req_key 0 ''org'' (demo_request ''shop'') demo_budget = ''budget:org:daily:0001-01-01''"
  "budget_fits demo_limits (\<lambda>_. 0) (\<lambda>_. 0) 0 ''org'' (demo_request ''shop'') demo_budget"
  "toCents (req_Amount (demo_request ''shop'')) = Some 4000"
proof -
  show k: "req_key 0 ''org'' (demo_request ''shop'') demo_budget = ''budget:org:daily:0001-01-01''"
    by (simp add: req_key_def req_time_def counterKey_def demo_budget_def demo_request_def WindowKey_def go_eval numeral_3_eq_3)
  show a: "toCents (req_Amount (demo_request ''shop'')) = Some 4000"
    by (simp add: toCents_def demo_request_def go_eval)
  have "toCents (bd_Limit demo_budget) = Some 50000"
    by (simp add: toCents_def demo_budget_def go_eval)
  with a show "budget_fits demo_limits (\<lambda>_. 0) (\<lambda>_. 0) 0 ''org'' (demo_request ''shop'') demo_budget"
    by (simp add: budget_fits_def demo_limits_def windowTTL_def demo_budget_def)
qed

lemma demo_outcomes:
  "br_Outcome (fst (demo_reserve [])) = BudgetWithinLimit" "br_Outcome (fst (demo_reserve [PgFail])) = BudgetUnavailable"
proof -
  have "toCents (bd_Limit demo_budget) = Some 50000" by (simp add: toCents_def demo_budget_def go_eval)
  then show "br_Outcome (fst (demo_reserve [])) = BudgetWithinLimit" "br_Outcome (fst (demo_reserve [PgFail])) = BudgetUnavailable"
    by (simp_all add: demo_reserve_def Reserver_Reserve_def NewReserver_def Let_def demo_fits(3) demo_budget_world_def
        redis_counter_ops_def RedisCounter_Reserve_def redis_find_def lua_num_exact in_int64_def
        pg_hold_ops_def Postgres_Place_def pg_begin_def split: option.split)
qed

section \<open>Properties\<close>





text \<open>An obligation is backed by a hold. With the production reserver installed and a
  fresh decision id, a decision that declares a capture-within obligation is an enforced
  APPROVE and the Postgres ledger then holds an active reservation under its id; a decision
  without one left the ledger's rows as they were.\<close>

theorem obligation_backed_by_hold:
  assumes "Authorize c start now elapsed decID e orgID req shadow w = (Inr d, w')"
    and "eng_Reserver e = Some (prod_reserver now ttl)" and "resolve_policy e orgID w = (Inr pol, w1)"
    and "pg_fresh w1 orgID decID"
  shows "(dec_Obligations d \<noteq> [] \<longrightarrow> pg_held (pg_rows (bw_holds w')) orgID (dec_DecisionID d)
        \<and> dec_Verdict d = VerdictApprove \<and> \<not> shadow)
    \<and> (dec_Obligations d = [] \<longrightarrow> pg_rows (bw_holds w') = pg_rows (bw_holds w1))"
  by (rule prod.obligation_backed [OF assms])

theorem obligation_backed_by_hold_witness:
  "\<exists>d w'. Authorize demo_crypto 0 0 0 ''d1''
        (WithReserver (NewEngine demo_policy ''k'') (prod_reserver 0 0)) ''org'' (demo_request ''shop'') True
        \<lparr>bw_counter = \<lparr>rc_up = True, rc_keys = []\<rparr>, bw_holds = \<lparr>pg_rows = [], pg_sched = []\<rparr>\<rparr> = (Inr d, w')
     \<and> (dec_Obligations d \<noteq> [] \<or> pg_rows (bw_holds w') = [])"
proof -
  let ?e = "WithReserver (NewEngine demo_policy ''k'') (prod_reserver 0 0)"
  let ?w = "\<lparr>bw_counter = \<lparr>rc_up = True, rc_keys = []\<rparr>, bw_holds = \<lparr>pg_rows = [], pg_sched = []\<rparr>\<rparr>"
  have r: "resolve_policy ?e ''org'' ?w = (Inr demo_policy, ?w)"
    by (simp add: resolve_policy_def WithReserver_def NewEngine_def)
  have "\<exists>d w'. Authorize demo_crypto 0 0 0 ''d1'' ?e ''org'' (demo_request ''shop'') True ?w = (Inr d, w')"
    by (rule Authorize_returns [OF r]) (simp add: sign_decision_def WithReserver_def NewEngine_def)
  then obtain d w' where run: "Authorize demo_crypto 0 0 0 ''d1'' ?e ''org'' (demo_request ''shop'') True ?w = (Inr d, w')"
    by blast
  have "eng_Reserver ?e = Some (prod_reserver 0 0)" by (simp add: WithReserver_def)
  moreover have "pg_fresh ?w ''org'' ''d1''" by (simp add: pg_fresh_def pg_quiet_def)
  ultimately have "dec_Obligations d \<noteq> [] \<or> pg_rows (bw_holds w') = []"
    using obligation_backed_by_hold [OF run _ r] by simp
  with run show ?thesis by blast
qed

text \<open>The sum the reconciler computes, when no amount is negative and it fits.\<close>

lemma sum_cents_exact:
  assumes "\<forall>h\<in>set hs. \<forall>c. toCents (h_Amount h) = Some c \<longrightarrow> 0 \<le> c"
    and "0 \<le> acc" and "acc + (\<Sum>h\<leftarrow>hs. cents_of (h_Amount h)) < 2 ^ 63"
  shows "sum_cents acc hs = acc + (\<Sum>h\<leftarrow>hs. cents_of (h_Amount h))"
  using assms
proof (induction hs arbitrary: acc)
  case (Cons h hs)
  have rest: "0 \<le> (\<Sum>h\<leftarrow>hs. cents_of (h_Amount h))"
    by (rule sum_list_nonneg) (auto simp: cents_of_def split: option.split)
  show ?case
  proof (cases "toCents (h_Amount h)")
    case None
    with Cons show ?thesis by (simp add: cents_of_def)
  next
    case (Some c)
    then have c: "0 \<le> c" "cents_of (h_Amount h) = c" using Cons.prems(1) by (auto simp: cents_of_def)
    then have "wrap64 (acc + c) = acc + c" using Cons.prems rest by (intro wrap64_nonneg_id) simp_all
    with Some c Cons.prems Cons.IH [of "acc + c"] show ?thesis by simp
  qed
qed simp

text \<open>Rebuilding a drifted counter restores it to the ledger: when \<open>RebuildWindow\<close>
  succeeds, the counter of the window holds exactly the sum, in minor units, of the held and
  captured reservations of that organisation, budget and window, and no other counter
  changes.\<close>

theorem RebuildWindow_restores:
  assumes "RebuildWindow (NewReconciler redis_counter_ops pg_hold_ops batch) now orgID budgetID wk window w = (None, w')"
    and "pg_quiet (bw_holds w)" and "redis_inv (\<lambda>_. now) (bw_counter w)"
    and "\<And>h. h \<in> snd ` set (pg_rows (bw_holds w)) \<Longrightarrow> \<forall>c. toCents (h_Amount h) = Some c \<longrightarrow> 0 \<le> c"
    and "active_sum (\<lambda>(o', b', w', a). if o' = orgID \<and> b' = budgetID \<and> w' = wk then cents_of a else 0)
           (pg_rows (bw_holds w)) < 2 ^ 63"
  shows "redis_val (bw_counter w') = (redis_val (bw_counter w))
      (counterKey orgID budgetID wk :=
         active_sum (\<lambda>(o', b', w', a). if o' = orgID \<and> b' = budgetID \<and> w' = wk then cents_of a else 0)
           (pg_rows (bw_holds w)))"
proof -
  let ?g = "\<lambda>(o', b', w', a). cents_of a"
  let ?S = "active_sum (\<lambda>(o', b', w', a). if o' = orgID \<and> b' = budgetID \<and> w' = wk then cents_of a else 0) (pg_rows (bw_holds w))"
  from assms(1) obtain hs s1 c1 where l: "Postgres_ListActiveByWindow orgID budgetID wk (bw_holds w) = (Inr hs, s1)"
    and st: "co_Set redis_counter_ops now (counterKey orgID budgetID wk) (sum_cents 0 hs) (windowTTL window) (bw_counter w) = (None, c1)"
    and w': "bw_counter w' = c1"
    by (auto simp: RebuildWindow_def NewReconciler_def pg_hold_ops_def split: sum.splits prod.splits)
  have hs: "hs = filter (in_window orgID budgetID wk) (map snd (pg_rows (bw_holds w)))"
  proof -
    obtain ok s0 where b: "pg_begin (bw_holds w) = (ok, s0)" by fastforce
    with pg_begin_quiet [OF assms(2) b] l show ?thesis by (cases ok) (auto simp: Postgres_ListActiveByWindow_def)
  qed
  have core: "?g (hold_core h) = cents_of (h_Amount h)" for h by (simp add: hold_core_def)
  have "(\<Sum>h\<leftarrow>hs. cents_of (h_Amount h)) = ?S"
    using list_active_sum [where g = ?g and org = orgID and b = budgetID and wk = wk and m = "pg_rows (bw_holds w)"]
    unfolding core hs by (simp only: prod.case)
  moreover have "\<forall>h\<in>set hs. \<forall>c. toCents (h_Amount h) = Some c \<longrightarrow> 0 \<le> c"
    using assms(4) unfolding hs by auto
  ultimately have sum: "sum_cents 0 hs = ?S" using sum_cents_exact [of hs 0] assms(5) by simp
  have "ns_milli \<le> windowTTL window" by (simp add: windowTTL_def)
  from redis_counter.set_value [where ?t0.0 = "\<lambda>_. now", OF assms(3) order_refl order_refl _ st] this sum w' show ?thesis by simp
qed

theorem RebuildWindow_restores_witness:
  "redis_val (bw_counter (snd (RebuildWindow (NewReconciler redis_counter_ops pg_hold_ops 0) 0 ''org'' ''daily'' ''2026-01-01'' ''day''
      \<lparr>bw_counter = \<lparr>rc_up = True, rc_keys = []\<rparr>, bw_holds = demo_pg []\<rparr>)))
     (counterKey ''org'' ''daily'' ''2026-01-01'') =
   active_sum (\<lambda>(o', b', w', a). if o' = ''org'' \<and> b' = ''daily'' \<and> w' = ''2026-01-01'' then cents_of a else 0)
     (pg_rows (demo_pg []))"
proof -
  let ?w = "\<lparr>bw_counter = \<lparr>rc_up = True, rc_keys = []\<rparr>, bw_holds = demo_pg []\<rparr>"
  let ?R = "RebuildWindow (NewReconciler redis_counter_ops pg_hold_ops 0) 0 ''org'' ''daily'' ''2026-01-01'' ''day'' ?w"
  let ?S = "active_sum (\<lambda>(o', b', w', a). if o' = ''org'' \<and> b' = ''daily'' \<and> w' = ''2026-01-01'' then cents_of a else 0)
     (pg_rows (demo_pg []))"
  have c: "toCents ''40.00'' = Some 4000" by (simp add: toCents_def go_eval)
  have "?R = (None, snd ?R)"
    by (simp add: RebuildWindow_def NewReconciler_def pg_hold_ops_def redis_counter_ops_def RedisCounter_Set_def
        Postgres_ListActiveByWindow_def pg_begin_def demo_pg_def)
  moreover have "pg_quiet (bw_holds ?w)" by (simp add: pg_quiet_def demo_pg_def)
  moreover have "redis_inv (\<lambda>_. 0) (bw_counter ?w)" by (simp add: redis_inv_def)
  moreover have "\<forall>x. toCents (h_Amount h) = Some x \<longrightarrow> 0 \<le> x" if "h \<in> snd ` set (pg_rows (bw_holds ?w))" for h
    using that c by (simp add: demo_pg_def demo_hold_def)
  moreover have "?S < 2 ^ 63"
    by (simp add: active_sum_def active_weight_def demo_pg_def demo_hold_def hold_active_def hold_core_def cents_of_def c)
  ultimately have "redis_val (bw_counter (snd ?R)) =
      (redis_val (bw_counter ?w))(counterKey ''org'' ''daily'' ''2026-01-01'' := ?S)"
    using RebuildWindow_restores [of 0 0 "''org''" "''daily''" "''2026-01-01''" "''day''" ?w "snd ?R"] by simp
  then show ?thesis by simp
qed

text \<open>Minor units are exact. A non-negative decimal with at most two fraction digits whose
  value in minor units fits \<open>int64\<close> converts to exactly a hundred times the rational the
  engine compares against per-transaction limits; and printing minor units and reading them
  back is the identity.\<close>

theorem toCents_exact:
  assumes "list_all is_digit ip" and "ip \<noteq> []" and "list_all is_digit f" and "length f \<in> {1, 2}"
    and "100 * int (digits_val 0 ip) + 99 < 2 ^ 63" and "0 \<le> c" and "c < 2 ^ 63 - 100"
  shows "(\<exists>x. toCents (ip @ ''.'' @ f) = Some x \<and> parseMoney (ip @ ''.'' @ f) = Some (of_int x / 100))
    \<and> (\<exists>x. toCents ip = Some x \<and> parseMoney ip = Some (of_int x / 100))
    \<and> toCents (centsToStr c) = Some c"
proof (intro conjI)
  let ?f2 = "if length f = 1 then f @ ''0'' else f"
  have len: "length f = 1 \<or> length f = 2" using assms(4) by auto
  have "rat_of_nat (digits_val 0 (ip @ f)) / 10 ^ length f = of_int (100 * int (digits_val 0 ip) + int (digits_val 0 ?f2)) / 100"
  proof (cases "length f = 1")
    case True
    then obtain a where "f = [a]" by (auto simp: length_Suc_conv)
    then show ?thesis by (simp add: digits_val_append digit_val_def field_simps)
  next
    case False
    with len obtain a b where "f = [a, b]" by (auto simp: length_Suc_conv numeral_2_eq_2)
    then show ?thesis by (simp add: digits_val_append field_simps)
  qed
  then show "\<exists>x. toCents (ip @ ''.'' @ f) = Some x \<and> parseMoney (ip @ ''.'' @ f) = Some (of_int x / 100)"
    using toCents_frac [OF assms(1-3) len assms(5)] rat_SetString_frac [OF assms(1-3)] by (simp add: parseMoney_def)
  show "\<exists>x. toCents ip = Some x \<and> parseMoney ip = Some (of_int x / 100)"
    using toCents_whole [OF assms(1,2)] rat_SetString_whole [OF assms(1,2)] assms(5) by (simp add: parseMoney_def)
  show "toCents (centsToStr c) = Some c" using assms(6,7) by (rule toCents_centsToStr)
qed

theorem toCents_exact_witness:
  "(\<exists>x. toCents ''12.5'' = Some x \<and> parseMoney ''12.5'' = Some (of_int x / 100)) \<and> toCents (centsToStr 1250) = Some 1250"
  using toCents_exact [of "''12''" "''5''" 1250] by (simp add: is_digit_def digit_val_def)

text \<open>Beyond that range the product by 100 wraps: an amount of more than 10^17 is counted as
  84 minor units, while the per-transaction rule sees its true value.\<close>

lemma toCents_overflow:
  "toCents ''184467440737095517'' = Some 84 \<and> parseMoney ''184467440737095517'' = Some 184467440737095517"
  by (simp add: toCents_def parseMoney_def go_eval)

text \<open>A rolling window has one key for all time, and every accepted reservation pushes its
  expiry out again.\<close>

lemma rolling_never_rolls:
  "WindowKey ''rolling'' t = WindowKey ''rolling'' t' \<and> \<not> windowSticky ''rolling''"
  by (simp add: WindowKey_def windowSticky_def)

end
