(* ===== verification/Reconcile.thy ===== *)
theory Reconcile
  imports Budget
begin

text \<open>
  The loop of the budget reconciler, \<open>Reconciler.Run\<close>: a tick releases one batch of expired holds.
  Shown: the loop catches up. Of the holds that were due when it started none is left held once it has had
  as many successful ticks as there are batches of them.
\<close>

section \<open>The loop\<close>

definition tick_interval :: "duration \<Rightarrow> duration" where
  "tick_interval interval = (if interval \<le> 0 then ns_minute else interval)"

text \<open>The loop started at \<open>start\<close> and cancelled after \<open>n\<close> ticks. A failed release is logged and the loop goes on.\<close>

fun Reconciler_Run :: "('c, 's) Reconciler \<Rightarrow> duration \<Rightarrow> gotime \<Rightarrow> nat \<Rightarrow> ('c, 's) budget_world \<Rightarrow> ('c, 's) budget_world" where
  "Reconciler_Run rc interval start 0 w = w"
| "Reconciler_Run rc interval start (Suc n) w =
     (let t = start + tick_interval interval
      in Reconciler_Run rc interval t n (snd (ReleaseExpired rc t w)))"

section \<open>Progress\<close>

text \<open>The holds that are due at \<open>T\<close> and still held.\<close>

definition due_set :: "gotime \<Rightarrow> pg_table \<Rightarrow> (string \<times> string) set" where
  "due_set T rows = {k. \<exists>h. map_of rows k = Some h \<and> h_State h = StateHeld \<and> h_ExpiresAt h \<le> T}"

lemma due_set_finite [simp]: "finite (due_set T rows)"
  by (rule finite_subset [OF _ finite_dom_map_of [of rows]]) (auto simp: due_set_def)

lemma sorted_split: "sorted (map f xs) \<Longrightarrow> xs = filter (\<lambda>x. f x \<le> t) xs @ filter (\<lambda>x. \<not> f x \<le> t) xs"
proof (induction xs)
  case (Cons a xs)
  show ?case
  proof (cases "f a \<le> t")
    case True
    with Cons show ?thesis by simp
  next
    case False
    then have "\<forall>x\<in>set xs. \<not> f x \<le> t" using Cons.prems by fastforce
    then show ?thesis using False by (simp add: filter_empty_conv filter_id_conv)
  qed
qed simp

text \<open>The rows are taken in the order of their deadline, so a batch at a later time takes the holds due at
  \<open>T\<close> first.\<close>

lemma batch_takes_due:
  assumes "distinct (map fst rows)" and "T \<le> now"
  shows "card (due_set T rows - set (pg_due_keys now limit rows)) \<le> card (due_set T rows) - nat limit"
proof -
  let ?d = "\<lambda>T (k, h). h_State h = StateHeld \<and> h_ExpiresAt h \<le> T" and ?f = "\<lambda>(k :: string \<times> string, h). h_ExpiresAt h"
  define S where "S = sort_key ?f (filter (?d now) rows)"
  define A where "A = filter (\<lambda>x. ?f x \<le> T) S"
  have S: "S = A @ filter (\<lambda>x. \<not> ?f x \<le> T) S"
    unfolding A_def by (rule sorted_split) (simp add: S_def)
  have setA: "set A = {p \<in> set rows. ?d T p}" using assms(2) by (auto simp: A_def S_def)
  have due: "due_set T rows = fst ` set A"
    using assms(1) by (force simp: due_set_def setA image_iff)
  have "distinct (map fst (filter (?d now) rows))" using assms(1) by (rule distinct_map_filter)
  then have "distinct (map fst S)" by (simp add: S_def distinct_map)
  then have dA: "distinct (map fst A)" unfolding A_def by (rule distinct_map_filter)
  have "take (nat limit) S = take (nat limit) A @ take (nat limit - length A) (filter (\<lambda>x. \<not> ?f x \<le> T) S)"
    by (subst (1) S) (rule take_append)
  then have "set (take (nat limit) A) \<subseteq> set (take (nat limit) S)" by simp
  then have "set (map fst (take (nat limit) A)) \<subseteq> set (pg_due_keys now limit rows)"
    by (auto simp: pg_due_keys_def S_def)
  then have "card (due_set T rows - set (pg_due_keys now limit rows)) \<le> card (due_set T rows - set (map fst (take (nat limit) A)))"
    by (intro card_mono) auto
  also have "\<dots> = card (due_set T rows) - card (set (map fst (take (nat limit) A)))"
    by (intro card_Diff_subset) (auto simp: due dest: in_set_takeD)
  also have "card (set (map fst (take (nat limit) A))) = min (length A) (nat limit)"
    using dA by (simp add: distinct_card take_map [symmetric] del: set_map)
  also have "card (due_set T rows) = length A"
    using distinct_card [OF dA] by (simp add: due)
  finally show ?thesis using \<open>card (due_set T rows) = length A\<close> by simp
qed

text \<open>One tick: a failing statement uses up one of the failures ahead, any other takes a batch.\<close>

definition failures :: "PostgresStore \<Rightarrow> nat" where
  "failures s = count_list (pg_sched s) PgFail"

lemma pg_begin_failures:
  "pg_quiet s \<Longrightarrow> pg_begin s = (ok, s1) \<Longrightarrow> if ok then failures s1 = failures s else failures s1 < failures s"
  by (auto simp: pg_begin_def pg_quiet_def failures_def split: list.splits pg_event.splits)

lemma tick_progress:
  assumes "pg_quiet s" and "T \<le> now" and "Postgres_ExpireDue now limit s = (r, s')"
  shows "pg_quiet s'"
    and "failures s' < failures s \<and> due_set T (pg_rows s') = due_set T (pg_rows s) \<or>
     failures s' = failures s \<and> card (due_set T (pg_rows s')) \<le> card (due_set T (pg_rows s)) - nat limit"
proof -
  show "pg_quiet s'" using Postgres_ExpireDue_quiet [OF assms(1,3)] by blast
  obtain ok s1 where b: "pg_begin s = (ok, s1)" by fastforce
  have s1: "pg_rows s1 = pg_rows s" using pg_begin_quiet [OF assms(1) b] by blast
  show "failures s' < failures s \<and> due_set T (pg_rows s') = due_set T (pg_rows s) \<or>
     failures s' = failures s \<and> card (due_set T (pg_rows s')) \<le> card (due_set T (pg_rows s)) - nat limit"
  proof (cases ok)
    case True
    let ?ks = "set (pg_due_keys now limit (pg_rows s))"
    have s': "s' = s1\<lparr>pg_rows := map (\<lambda>(k, h). if k \<in> ?ks then (k, h\<lparr>h_State := StateExpired\<rparr>) else (k, h)) (pg_rows s)\<rparr>"
      using assms(3) by (simp add: Postgres_ExpireDue_def b True Let_def s1)
    have "due_set T (pg_rows s') \<subseteq> due_set T (pg_rows s) - ?ks"
      by (auto simp: due_set_def s' map_of_map_vals dest: arg_cong [where f = h_State] split: if_splits)
    then have "card (due_set T (pg_rows s')) \<le> card (due_set T (pg_rows s) - ?ks)" by (intro card_mono) auto
    also have "\<dots> \<le> card (due_set T (pg_rows s)) - nat limit"
      using assms(1,2) by (intro batch_takes_due) (simp_all add: pg_quiet_def)
    finally show ?thesis using pg_begin_failures [OF assms(1) b] True by (simp add: s' failures_def)
  next
    case False
    then show ?thesis
      using assms(3) pg_begin_failures [OF assms(1) b] by (auto simp: Postgres_ExpireDue_def b s1 [symmetric])
  qed
qed

lemma ReleaseExpired_holds:
  "bw_holds (snd (ReleaseExpired rc now w)) = snd (ho_ExpireDue (rec_holds rc) now (rec_batch rc) (bw_holds w))"
  by (simp add: ReleaseExpired_def split: prod.split sum.split)

lemma run_catches_up:
  assumes "rec_holds rc = pg_hold_ops" and "0 < rec_batch rc" and "pg_quiet (bw_holds w)" and "T \<le> start"
    and "card (due_set T (pg_rows (bw_holds w))) \<le> nat (rec_batch rc) * (n - failures (bw_holds w))"
  shows "due_set T (pg_rows (bw_holds (Reconciler_Run rc interval start n w))) = {}"
  using assms
proof (induction n arbitrary: start w)
  case 0
  then show ?case by (simp add: card_eq_0_iff)
next
  case (Suc n)
  let ?t = "start + tick_interval interval" and ?b = "nat (rec_batch rc)"
  let ?w = "snd (ReleaseExpired rc ?t w)"
  obtain r s' where e: "Postgres_ExpireDue ?t (rec_batch rc) (bw_holds w) = (r, s')" by fastforce
  have s': "bw_holds ?w = s'" using Suc.prems(1) e by (simp add: ReleaseExpired_holds pg_hold_ops_def)
  have t: "T \<le> ?t" using Suc.prems(4) by (simp add: tick_interval_def)
  note p = tick_progress [OF Suc.prems(3) t e]
  have "card (due_set T (pg_rows s')) \<le> ?b * (n - failures s')"
    using p(2)
  proof
    assume f: "failures s' < failures (bw_holds w) \<and> due_set T (pg_rows s') = due_set T (pg_rows (bw_holds w))"
    then have "?b * (Suc n - failures (bw_holds w)) \<le> ?b * (n - failures s')" by (intro mult_le_mono) auto
    with f Suc.prems(5) show ?thesis by (metis le_trans)
  next
    assume f: "failures s' = failures (bw_holds w) \<and> card (due_set T (pg_rows s')) \<le> card (due_set T (pg_rows (bw_holds w))) - ?b"
    have "?b * (Suc n - failures s') - ?b \<le> ?b * (n - failures s')"
      by (cases "failures s' \<le> n") (simp_all add: Suc_diff_le)
    with f Suc.prems(5) show ?thesis by (metis diff_le_mono le_trans)
  qed
  from Suc.IH [OF Suc.prems(1,2) _ t, of ?w] p(1) this show ?case by (simp add: s' Let_def)
qed

section \<open>Property\<close>

text \<open>C19: the reconciler catches up: at most as many statements fail as the schedule of the database has
  failures, and when the other ticks make enough batches for the holds that were due at the start,
  none of these is held any more. The interval and the batch size may be misconfigured (zero or negative).\<close>

theorem reconciler_catches_up:
  assumes "pg_quiet (bw_holds w)" and "T \<le> start"
    and "card (due_set T (pg_rows (bw_holds w))) \<le> nat (if batch \<le> 0 then 256 else batch) * (n - failures (bw_holds w))"
  shows "due_set T (pg_rows (bw_holds (Reconciler_Run (NewReconciler redis_counter_ops pg_hold_ops batch) interval start n w))) = {}"
  using assms by (intro run_catches_up) (simp_all add: NewReconciler_def)

theorem reconciler_catches_up_witness:
  "(''org'', ''d1'') \<in> due_set 100 (pg_rows (demo_pg [PgFail])) \<and>
   (\<forall>c. due_set 100 (pg_rows (bw_holds (Reconciler_Run (NewReconciler redis_counter_ops pg_hold_ops 0) 0 200 2
      \<lparr>bw_counter = c, bw_holds = demo_pg [PgFail]\<rparr>))) = {})"
proof -
  have due: "due_set 100 (pg_rows (demo_pg [PgFail])) = {(''org'', ''d1'')}"
    by (auto simp: due_set_def demo_pg_def demo_hold_def)
  have "pg_quiet (demo_pg [PgFail])" "failures (demo_pg [PgFail]) = 1"
    by (simp_all add: pg_quiet_def demo_pg_def failures_def)
  then show ?thesis
    using reconciler_catches_up [of "\<lparr>bw_counter = c, bw_holds = demo_pg [PgFail]\<rparr>" 100 200 0 2 0 for c]
    by (simp add: due)
qed

end
