(* ===== verification/Rate_Limit.thy ===== *)
theory Rate_Limit
  imports Predicates
begin

text \<open>
  \<open>internal/ratelimit\<close>: tiers, the two-layer fixed-window limiter in memory and on Redis.
  A request consumes the per-second burst counter first and the per-minute window only when
  the burst layer lets it pass. The lemmas bound what a key can get through in any minute
  and any second, for any interleaving with other keys.
\<close>

section \<open>Limits, decisions, tiers\<close>

record Limits =
  lim_PerMinute :: int
  lim_PerSecond :: int

definition ScopeWindow :: string where "ScopeWindow = ''window''"
definition ScopeBurst :: string where "ScopeBurst = ''burst''"

record RLDecision =
  rl_Allowed :: bool
  rl_RetryAfter :: duration
  rl_Scope :: string
  rl_Limit :: int
  rl_Remaining :: int

type_synonym TierTable = "(string \<times> Limits) list"

definition DefaultTiers :: TierTable where
  "DefaultTiers =
     [(''default'', \<lparr>lim_PerMinute = 60, lim_PerSecond = 10\<rparr>),
      (''pro'', \<lparr>lim_PerMinute = 600, lim_PerSecond = 50\<rparr>),
      (''free'', \<lparr>lim_PerMinute = 20, lim_PerSecond = 5\<rparr>)]"

definition TierTable_Resolve :: "TierTable \<Rightarrow> string \<Rightarrow> Limits" where
  "TierTable_Resolve t tier =
     (case map_of t tier of
        Some l \<Rightarrow> l
      | None \<Rightarrow> (case map_of t ''default'' of
                   Some l \<Rightarrow> l
                 | None \<Rightarrow> \<lparr>lim_PerMinute = 60, lim_PerSecond = 10\<rparr>))"

definition retryAfterForMinute :: "gotime \<Rightarrow> duration" where
  "retryAfterForMinute now =
     (let rem = 60 - go_mod (time_Unix now) 60; rem = (if rem \<le> 0 then 1 else rem) in rem * ns_second)"

definition rl_reject_burst :: "Limits \<Rightarrow> RLDecision" where
  "rl_reject_burst lm = \<lparr>rl_Allowed = False, rl_RetryAfter = ns_second, rl_Scope = ScopeBurst,
     rl_Limit = lim_PerSecond lm, rl_Remaining = 0\<rparr>"

definition rl_reject_window :: "Limits \<Rightarrow> gotime \<Rightarrow> RLDecision" where
  "rl_reject_window lm now = \<lparr>rl_Allowed = False, rl_RetryAfter = retryAfterForMinute now, rl_Scope = ScopeWindow,
     rl_Limit = lim_PerMinute lm, rl_Remaining = 0\<rparr>"

definition rl_allow :: "int \<Rightarrow> int \<Rightarrow> RLDecision" where
  "rl_allow limit remaining = \<lparr>rl_Allowed = True, rl_RetryAfter = 0, rl_Scope = [], rl_Limit = limit, rl_Remaining = remaining\<rparr>"

section \<open>MemLimiter\<close>

type_synonym counters = "string \<Rightarrow> (int \<times> int) option"

record MemLimiter =
  ml_windows :: counters
  ml_bursts :: counters

definition NewMemLimiter :: MemLimiter where
  "NewMemLimiter = \<lparr>ml_windows = (\<lambda>_. None), ml_bursts = (\<lambda>_. None)\<rparr>"

definition hit :: "counters \<Rightarrow> string \<Rightarrow> int \<Rightarrow> int \<times> counters" where
  "hit m key epoch =
     (let c = (case m key of Some (e, n) \<Rightarrow> if e \<noteq> epoch then 0 else n | None \<Rightarrow> 0)
      in (c + 1, m(key \<mapsto> (epoch, c + 1))))"

definition MemLimiter_Allow :: "gotime \<Rightarrow> string \<Rightarrow> Limits \<Rightarrow> MemLimiter \<Rightarrow> RLDecision \<times> MemLimiter" where
  "MemLimiter_Allow now keyID lm l =
     (let (rejected, l1) =
            (if lim_PerSecond lm > 0
             then (case hit (ml_bursts l) keyID (time_Unix now) of (n, b) \<Rightarrow>
                     (n > lim_PerSecond lm, l\<lparr>ml_bursts := b\<rparr>))
             else (False, l))
      in if rejected then (rl_reject_burst lm, l1)
         else if lim_PerMinute lm > 0
         then (case hit (ml_windows l1) keyID (go_div (time_Unix now) 60) of (n, m) \<Rightarrow>
                 if n > lim_PerMinute lm then (rl_reject_window lm now, l1\<lparr>ml_windows := m\<rparr>)
                 else (rl_allow (lim_PerMinute lm) (lim_PerMinute lm - n), l1\<lparr>ml_windows := m\<rparr>))
         else (rl_allow 0 0, l1))"

section \<open>RedisLimiter\<close>

text \<open>The counters with their expiry in milliseconds; the script increments and sets the
  expiry on creation, in one step.\<close>

record RedisLimiter =
  rlr_up :: bool
  rlr_keys :: "string \<Rightarrow> (int \<times> int) option"

definition rl_incr :: "gotime \<Rightarrow> string \<Rightarrow> int \<Rightarrow> RedisLimiter \<Rightarrow> int option \<times> RedisLimiter" where
  "rl_incr now key ttl_seconds r =
     (if \<not> rlr_up r then (None, r)
      else let (c, ex) = (case rlr_keys r key of
                            Some (n, e) \<Rightarrow> if now div 1000000 \<le> e then (n, Some e) else (0, None)
                          | None \<Rightarrow> (0, None));
               ex' = (case ex of Some e \<Rightarrow> e | None \<Rightarrow> now div 1000000 + ttl_seconds * 1000)
           in (Some (c + 1), r\<lparr>rlr_keys := (rlr_keys r)(key \<mapsto> (c + 1, ex'))\<rparr>))"

definition sec_key :: "string \<Rightarrow> int \<Rightarrow> string" where
  "sec_key keyID sec = ''rl:sec:'' @ keyID @ '':'' @ FormatInt sec"

definition min_key :: "string \<Rightarrow> int \<Rightarrow> string" where
  "min_key keyID m = ''rl:min:'' @ keyID @ '':'' @ FormatInt m"

definition rl_window :: "gotime \<Rightarrow> string \<Rightarrow> Limits \<Rightarrow> RedisLimiter \<Rightarrow> RLDecision option \<times> RedisLimiter" where
  "rl_window now keyID lm r =
     (if lim_PerMinute lm > 0
      then (case rl_incr now (min_key keyID (go_div (time_Unix now) 60)) 61 r of
              (None, r1) \<Rightarrow> (None, r1)
            | (Some n, r1) \<Rightarrow>
                if n > lim_PerMinute lm then (Some (rl_reject_window lm now), r1)
                else (Some (rl_allow (lim_PerMinute lm) (lim_PerMinute lm - n)), r1))
      else (Some (rl_allow 0 0), r))"

text \<open>\<open>None\<close> is the error of an unreachable Redis.\<close>

definition RedisLimiter_Allow :: "gotime \<Rightarrow> string \<Rightarrow> Limits \<Rightarrow> RedisLimiter \<Rightarrow> RLDecision option \<times> RedisLimiter" where
  "RedisLimiter_Allow now keyID lm r =
     (if lim_PerSecond lm > 0
      then (case rl_incr now (sec_key keyID (time_Unix now)) 2 r of
              (None, r1) \<Rightarrow> (None, r1)
            | (Some n, r1) \<Rightarrow>
                if n > lim_PerSecond lm then (Some (rl_reject_burst lm), r1)
                else rl_window now keyID lm r1)
      else rl_window now keyID lm r)"

section \<open>Reference limiter\<close>

text \<open>The behaviour both limiters promise, over plain counters that are never reset and
  never expire: one counter per key and second, one per key and minute.\<close>

definition minute_of :: "gotime \<Rightarrow> int" where
  "minute_of t = go_div (time_Unix t) 60"

type_synonym rl_counts = "(string \<Rightarrow> int \<Rightarrow> int) \<times> (string \<Rightarrow> int \<Rightarrow> int)"

definition bump :: "(string \<Rightarrow> int \<Rightarrow> int) \<Rightarrow> string \<Rightarrow> int \<Rightarrow> string \<Rightarrow> int \<Rightarrow> int" where
  "bump f k e = f(k := (f k)(e := f k e + 1))"

definition spec_window :: "gotime \<Rightarrow> string \<Rightarrow> Limits \<Rightarrow> rl_counts \<Rightarrow> RLDecision \<times> rl_counts" where
  "spec_window now k lm c =
     (if lim_PerMinute lm > 0
      then (if snd c k (minute_of now) + 1 > lim_PerMinute lm then rl_reject_window lm now
            else rl_allow (lim_PerMinute lm) (lim_PerMinute lm - (snd c k (minute_of now) + 1)),
            (fst c, bump (snd c) k (minute_of now)))
      else (rl_allow 0 0, c))"

definition spec_allow :: "gotime \<Rightarrow> string \<Rightarrow> Limits \<Rightarrow> rl_counts \<Rightarrow> RLDecision \<times> rl_counts" where
  "spec_allow now k lm c =
     (if lim_PerSecond lm > 0
      then let c' = (bump (fst c) k (time_Unix now), snd c)
           in if fst c k (time_Unix now) + 1 > lim_PerSecond lm then (rl_reject_burst lm, c')
              else spec_window now k lm c'
      else spec_window now k lm c)"

definition spec_init :: rl_counts where
  "spec_init = (\<lambda>_ _. 0, \<lambda>_ _. 0)"

section \<open>Runs\<close>

text \<open>Requests in arrival order, each with its time, key and limits; a run is the list of
  decisions and the final state.\<close>

type_synonym rl_request = "gotime \<times> string \<times> Limits"

fun rl_run :: "(gotime \<Rightarrow> string \<Rightarrow> Limits \<Rightarrow> 's \<Rightarrow> 'd \<times> 's) \<Rightarrow> rl_request list \<Rightarrow> 's \<Rightarrow> 'd list \<times> 's" where
  "rl_run allow [] s = ([], s)"
| "rl_run allow ((t, k, lm) # rs) s =
     (case allow t k lm s of (d, s1) \<Rightarrow>
        (case rl_run allow rs s1 of (ds, s2) \<Rightarrow> (d # ds, s2)))"

text \<open>Against a reachable Redis the limiter's answer is a decision.\<close>

definition redis_allow :: "gotime \<Rightarrow> string \<Rightarrow> Limits \<Rightarrow> RedisLimiter \<Rightarrow> RLDecision option \<times> RedisLimiter" where
  "redis_allow t k lm r = RedisLimiter_Allow t k lm (r\<lparr>rlr_up := True\<rparr>)"

section \<open>Both limiters refine the reference\<close>

text \<open>What a limiter owes its clients: started in a state related to the reference
  counters, it answers as the reference does and stays related, as long as its clock does
  not run backwards.\<close>

locale limiter =
  fixes allow :: "gotime \<Rightarrow> string \<Rightarrow> Limits \<Rightarrow> 's \<Rightarrow> 'd \<times> 's"
    and dec :: "RLDecision \<Rightarrow> 'd"
    and rel :: "gotime \<Rightarrow> 's \<Rightarrow> rl_counts \<Rightarrow> bool"
  assumes step: "rel t s c \<Longrightarrow> t \<le> t' \<Longrightarrow> spec_allow t' k lm c = (d, c') \<Longrightarrow>
      \<exists>s'. allow t' k lm s = (dec d, s') \<and> rel t' s' c'"
begin

lemma run_refines:
  "rel t s c \<Longrightarrow> sorted (map fst rs) \<Longrightarrow> (\<And>r. r \<in> set rs \<Longrightarrow> t \<le> fst r) \<Longrightarrow>
   fst (rl_run allow rs s) = map dec (fst (rl_run spec_allow rs c))"
proof (induction rs arbitrary: t s c)
  case (Cons r rs)
  obtain t' k lm where r: "r = (t', k, lm)" by (cases r)
  obtain d c' where d: "spec_allow t' k lm c = (d, c')" by (cases "spec_allow t' k lm c")
  from Cons.prems(3) [of r] r have "t \<le> t'" by simp
  from step [OF Cons.prems(1) this d] obtain s'
    where s': "allow t' k lm s = (dec d, s')" and "rel t' s' c'" by blast
  from Cons.prems(2) r have "sorted (map fst rs)" and "\<And>x. x \<in> set rs \<Longrightarrow> t' \<le> fst x" by auto
  from Cons.IH [OF \<open>rel t' s' c'\<close> this] show ?case by (simp add: r d s' case_prod_beta)
qed simp

end

subsection \<open>In memory\<close>

definition mem_count :: "counters \<Rightarrow> string \<Rightarrow> int \<Rightarrow> int" where
  "mem_count m k e = (case m k of Some (e', n) \<Rightarrow> if e' = e then n else 0 | None \<Rightarrow> 0)"

text \<open>A one-epoch-per-key table represents the counters from epoch \<open>e0\<close> on.\<close>

definition tracks :: "counters \<Rightarrow> (string \<Rightarrow> int \<Rightarrow> int) \<Rightarrow> int \<Rightarrow> bool" where
  "tracks m f e0 \<longleftrightarrow> (\<forall>k e. e0 \<le> e \<longrightarrow> mem_count m k e = f k e) \<and> (\<forall>k e n. m k = Some (e, n) \<longrightarrow> e \<le> e0)"

lemma tracks_mono: "tracks m f e0 \<Longrightarrow> e0 \<le> e1 \<Longrightarrow> tracks m f e1"
  unfolding tracks_def by (meson order_trans)

lemma hit_count: "fst (hit m k e) = mem_count m k e + 1"
  by (auto simp: hit_def mem_count_def Let_def split: option.splits)

lemma hit_state: "snd (hit m k e) = m(k \<mapsto> (e, mem_count m k e + 1))"
  by (auto simp: hit_def mem_count_def Let_def split: option.splits)

lemma tracks_hit:
  assumes "tracks m f e"
  shows "hit m k e = (f k e + 1, snd (hit m k e))" and "tracks (snd (hit m k e)) (bump f k e) e"
proof -
  from assms have cnt: "mem_count m k' e' = f k' e'" if "e \<le> e'" for k' e' using that by (simp add: tracks_def)
  then show "hit m k e = (f k e + 1, snd (hit m k e))" by (simp add: hit_count prod_eq_iff)
  have "f k e' = 0" if "e < e'" for e'
  proof -
    from assms have "\<forall>e'' n. m k = Some (e'', n) \<longrightarrow> e'' \<le> e" by (simp add: tracks_def)
    with that have "mem_count m k e' = 0" by (cases "m k") (auto simp: mem_count_def)
    with that cnt [of e' k] show ?thesis by simp
  qed
  with assms cnt show "tracks (snd (hit m k e)) (bump f k e) e"
    by (auto simp: tracks_def hit_state bump_def mem_count_def)
qed

lemma go_div_mono: "a \<le> b \<Longrightarrow> go_div a 60 \<le> go_div b 60"
proof (cases "a < 0 \<and> 0 \<le> b")
  case True
  then have "go_div a 60 \<le> 0" and "0 \<le> go_div b 60" by (simp_all add: go_div_def pos_imp_zdiv_nonneg_iff)
  then show ?thesis by simp
next
  case False
  assume "a \<le> b"
  with False show ?thesis by (auto simp: go_div_def zdiv_mono1)
qed

lemma time_Unix_mono: "t \<le> t' \<Longrightarrow> time_Unix t \<le> time_Unix t'"
  by (simp add: time_Unix_def zdiv_mono1)

lemma minute_of_mono: "t \<le> t' \<Longrightarrow> minute_of t \<le> minute_of t'"
  by (simp add: minute_of_def go_div_mono time_Unix_mono)

definition mem_rel :: "gotime \<Rightarrow> MemLimiter \<Rightarrow> rl_counts \<Rightarrow> bool" where
  "mem_rel t l c \<longleftrightarrow> tracks (ml_bursts l) (fst c) (time_Unix t) \<and> tracks (ml_windows l) (snd c) (minute_of t)"

lemma mem_rel_window:
  assumes "mem_rel t l c" and "spec_window t k lm c = (d, c')"
  shows "\<exists>l'. (if lim_PerMinute lm > 0
         then (case hit (ml_windows l) k (go_div (time_Unix t) 60) of (n, m) \<Rightarrow>
                 if n > lim_PerMinute lm then (rl_reject_window lm t, l\<lparr>ml_windows := m\<rparr>)
                 else (rl_allow (lim_PerMinute lm) (lim_PerMinute lm - n), l\<lparr>ml_windows := m\<rparr>))
         else (rl_allow 0 0, l)) = (d, l') \<and> mem_rel t l' c'"
proof (cases "lim_PerMinute lm > 0")
  case True
  from assms(1) have t: "tracks (ml_windows l) (snd c) (minute_of t)" by (simp add: mem_rel_def)
  let ?m = "snd (hit (ml_windows l) k (minute_of t))"
  have h: "hit (ml_windows l) k (go_div (time_Unix t) 60) = (snd c k (minute_of t) + 1, ?m)"
    using tracks_hit(1) [OF t, of k] by (simp add: minute_of_def)
  have "mem_rel t (l\<lparr>ml_windows := ?m\<rparr>) (fst c, bump (snd c) k (minute_of t))"
    using assms(1) tracks_hit(2) [OF t] by (simp add: mem_rel_def)
  with True assms(2) show ?thesis
    unfolding h by (auto simp: spec_window_def split: if_splits)
next
  case False
  with assms show ?thesis by (simp add: spec_window_def)
qed

lemma mem_step:
  assumes "mem_rel t l c" and "t \<le> t'" and "spec_allow t' k lm c = (d, c')"
  shows "\<exists>l'. MemLimiter_Allow t' k lm l = (id d, l') \<and> mem_rel t' l' c'"
proof -
  from assms(1,2) have r: "mem_rel t' l c"
    using tracks_mono time_Unix_mono minute_of_mono unfolding mem_rel_def by blast
  show ?thesis
  proof (cases "lim_PerSecond lm > 0")
    case True
    from r have t: "tracks (ml_bursts l) (fst c) (time_Unix t')" by (simp add: mem_rel_def)
    let ?b = "snd (hit (ml_bursts l) k (time_Unix t'))"
    have h: "hit (ml_bursts l) k (time_Unix t') = (fst c k (time_Unix t') + 1, ?b)"
      by (rule tracks_hit(1) [OF t])
    have r': "mem_rel t' (l\<lparr>ml_bursts := ?b\<rparr>) (bump (fst c) k (time_Unix t'), snd c)"
      using r tracks_hit(2) [OF t] by (simp add: mem_rel_def)
    show ?thesis
    proof (cases "fst c k (time_Unix t') + 1 > lim_PerSecond lm")
      case rej: True
      with True assms(3) r' show ?thesis
        by (subst MemLimiter_Allow_def, subst h) (auto simp: spec_allow_def)
    next
      case False
      with True assms(3) have "spec_window t' k lm (bump (fst c) k (time_Unix t'), snd c) = (d, c')"
        by (simp add: spec_allow_def)
      from mem_rel_window [OF r' this] True False show ?thesis
        by (subst MemLimiter_Allow_def, subst h) auto
    qed
  next
    case False
    with assms(3) have "spec_window t' k lm c = (d, c')" by (simp add: spec_allow_def)
    from mem_rel_window [OF r this] False show ?thesis by (simp add: MemLimiter_Allow_def)
  qed
qed

interpretation mem_limiter: limiter MemLimiter_Allow id mem_rel
  by unfold_locales (rule mem_step)

lemma mem_rel_init: "mem_rel t NewMemLimiter spec_init"
  by (simp add: mem_rel_def tracks_def NewMemLimiter_def spec_init_def mem_count_def)

subsection \<open>On Redis\<close>

text \<open>The key of an epoch counter determines its key id and epoch, whatever bytes the key
  id holds: the digits behind the last colon are the epoch.\<close>

lemma FormatInt_no_colon: "CHR '':'' \<notin> set (FormatInt i)"
proof
  assume *: "CHR '':'' \<in> set (FormatInt i)"
  have "\<not> is_digit CHR '':''" by (simp add: is_digit_def)
  with * nat_str_digits [of "nat i"] nat_str_digits [of "nat (- i)"] show False
    by (auto simp: FormatInt_def list_all_iff split: if_splits)
qed

lemma FormatInt_inject: "0 \<le> i \<Longrightarrow> 0 \<le> j \<Longrightarrow> FormatInt i = FormatInt j \<Longrightarrow> i = j"
  by (simp add: FormatInt_def) (metis digits_val_nat_str nat_eq_iff2 nat_0_le)

lemma epoch_key_inject:
  assumes "k @ '':'' @ FormatInt e = k' @ '':'' @ FormatInt e'" and "0 \<le> e" and "0 \<le> e'"
  shows "k = k' \<and> e = e'"
proof -
  have "rev (FormatInt e) @ CHR '':'' # rev k = rev (FormatInt e') @ CHR '':'' # rev k'"
    using arg_cong [where f = rev, OF assms(1)] by simp
  from sep_append_inject [OF _ _ this] have "FormatInt e = FormatInt e'" and "k = k'"
    by (simp_all add: FormatInt_no_colon)
  with assms(2,3) FormatInt_inject show ?thesis by blast
qed

text \<open>\<open>covers ep key\<close>: the stored counters of one layer are the reference counters, and no
  stored counter expires within its own epoch.\<close>

definition covers :: "(gotime \<Rightarrow> int) \<Rightarrow> (string \<Rightarrow> int \<Rightarrow> string) \<Rightarrow> (string \<Rightarrow> (int \<times> int) option)
    \<Rightarrow> (string \<Rightarrow> int \<Rightarrow> int) \<Rightarrow> bool" where
  "covers ep key m f \<longleftrightarrow> (\<forall>k e. 0 \<le> e \<longrightarrow>
     (case m (key k e) of
        Some (n, x) \<Rightarrow> n = f k e \<and> (\<forall>t. 0 \<le> time_Unix t \<longrightarrow> ep t = e \<longrightarrow> t div 1000000 \<le> x)
      | None \<Rightarrow> f k e = 0))"

lemma incr_covers:
  assumes c: "covers ep key (rlr_keys r) f" and up: "rlr_up r"
    and t: "0 \<le> time_Unix t" "0 \<le> ep t"
    and ttl: "\<And>t'. 0 \<le> time_Unix t' \<Longrightarrow> ep t' = ep t \<Longrightarrow> t' div 1000000 \<le> t div 1000000 + ttl * 1000"
    and inj: "\<And>k e k' e'. key k e = key k' e' \<Longrightarrow> 0 \<le> e \<Longrightarrow> 0 \<le> e' \<Longrightarrow> k = k' \<and> e = e'"
  obtains x where "rl_incr t (key k (ep t)) ttl r =
      (Some (f k (ep t) + 1), r\<lparr>rlr_keys := (rlr_keys r)(key k (ep t) \<mapsto> (f k (ep t) + 1, x))\<rparr>)"
    and "covers ep key ((rlr_keys r)(key k (ep t) \<mapsto> (f k (ep t) + 1, x))) (bump f k (ep t))"
proof -
  have cov: "covers ep key ((rlr_keys r)(key k (ep t) \<mapsto> (f k (ep t) + 1, x))) (bump f k (ep t))"
    if "\<And>t'. 0 \<le> time_Unix t' \<Longrightarrow> ep t' = ep t \<Longrightarrow> t' div 1000000 \<le> x" for x
    unfolding covers_def
  proof (intro allI impI)
    fix k' e' assume e': "(0 :: int) \<le> e'"
    show "case ((rlr_keys r)(key k (ep t) \<mapsto> (f k (ep t) + 1, x))) (key k' e') of
        None \<Rightarrow> bump f k (ep t) k' e' = 0
      | Some (n, x) \<Rightarrow> n = bump f k (ep t) k' e' \<and> (\<forall>t. 0 \<le> time_Unix t \<longrightarrow> ep t = e' \<longrightarrow> t div 1000000 \<le> x)"
    proof (cases "key k' e' = key k (ep t)")
      case True
      with inj e' t(2) have "k' = k \<and> e' = ep t" by blast
      with that show ?thesis by (auto simp: bump_def)
    next
      case False
      then have "\<not> (k' = k \<and> e' = ep t)" by auto
      then have "bump f k (ep t) k' e' = f k' e'" by (auto simp: bump_def)
      then show ?thesis using False c e' by (simp only: covers_def fun_upd_other not_False_eq_True)
    qed
  qed
  from c t have entry: "case rlr_keys r (key k (ep t)) of
      Some (n, x) \<Rightarrow> n = f k (ep t) \<and> (\<forall>t'. 0 \<le> time_Unix t' \<longrightarrow> ep t' = ep t \<longrightarrow> t' div 1000000 \<le> x)
    | None \<Rightarrow> f k (ep t) = 0" by (simp add: covers_def)
  show ?thesis
  proof (cases "rlr_keys r (key k (ep t))")
    case None
    with entry up have "rl_incr t (key k (ep t)) ttl r = (Some (f k (ep t) + 1),
        r\<lparr>rlr_keys := (rlr_keys r)(key k (ep t) \<mapsto> (f k (ep t) + 1, t div 1000000 + ttl * 1000))\<rparr>)"
      by (simp add: rl_incr_def)
    with cov ttl show ?thesis by (intro that) auto
  next
    case (Some p)
    obtain n x where "p = (n, x)" by (cases p)
    with Some entry t have n: "rlr_keys r (key k (ep t)) = Some (f k (ep t), x)"
      and x: "\<And>t'. 0 \<le> time_Unix t' \<Longrightarrow> ep t' = ep t \<Longrightarrow> t' div 1000000 \<le> x" by auto
    from x [of t] t n up have "rl_incr t (key k (ep t)) ttl r = (Some (f k (ep t) + 1),
        r\<lparr>rlr_keys := (rlr_keys r)(key k (ep t) \<mapsto> (f k (ep t) + 1, x))\<rparr>)"
      by (simp add: rl_incr_def)
    with cov x show ?thesis by (intro that) auto
  qed
qed

lemma covers_other:
  "covers ep key m f \<Longrightarrow> (\<And>k e. key k e \<noteq> s) \<Longrightarrow> covers ep key (m(s := v)) f"
  by (simp add: covers_def)

lemma key_families: "sec_key k e \<noteq> min_key k' e'" "min_key k e \<noteq> sec_key k' e'"
  by (simp_all add: sec_key_def min_key_def)

lemma sec_key_inject: "sec_key k e = sec_key k' e' \<Longrightarrow> 0 \<le> e \<Longrightarrow> 0 \<le> e' \<Longrightarrow> k = k' \<and> e = e'"
  using epoch_key_inject [of k e k' e'] by (simp add: sec_key_def)

lemma min_key_inject: "min_key k e = min_key k' e' \<Longrightarrow> 0 \<le> e \<Longrightarrow> 0 \<le> e' \<Longrightarrow> k = k' \<and> e = e'"
  using epoch_key_inject [of k e k' e'] by (simp add: min_key_def)

lemma ms_within:
  assumes "time_Unix t' \<le> time_Unix t + d"
  shows "t' div 1000000 \<le> t div 1000000 + (d + 1) * 1000"
proof -
  have "t' \<le> t' div ns_second * ns_second + ns_second" and "t div ns_second * ns_second \<le> t" by linarith+
  moreover from assms have "t' div ns_second * ns_second \<le> (t div ns_second + d) * ns_second"
    unfolding time_Unix_def by simp
  ultimately have "t' \<le> t + (d + 1) * 1000 * 1000000" by (simp add: algebra_simps)
  then have "t' div 1000000 \<le> (t + (d + 1) * 1000 * 1000000) div 1000000" by (rule zdiv_mono1) simp
  then show ?thesis by simp
qed

lemma second_ttl: "time_Unix t' = time_Unix t \<Longrightarrow> t' div 1000000 \<le> t div 1000000 + 2 * 1000"
  using ms_within [of t' t 1] by simp

lemma minute_ttl:
  assumes "0 \<le> time_Unix t" and "0 \<le> time_Unix t'" and "minute_of t' = minute_of t"
  shows "t' div 1000000 \<le> t div 1000000 + 61 * 1000"
proof -
  from assms have "time_Unix t' div 60 = time_Unix t div 60" by (simp add: minute_of_def)
  then have "time_Unix t' \<le> time_Unix t + 60" by linarith
  from ms_within [OF this] show ?thesis by simp
qed

definition redis_rel :: "gotime \<Rightarrow> RedisLimiter \<Rightarrow> rl_counts \<Rightarrow> bool" where
  "redis_rel t r c \<longleftrightarrow> 0 \<le> time_Unix t \<and> covers time_Unix sec_key (rlr_keys r) (fst c)
     \<and> covers minute_of min_key (rlr_keys r) (snd c)"

lemma redis_rel_window:
  assumes "redis_rel t r c" and "rlr_up r" and "spec_window t k lm c = (d, c')"
  shows "\<exists>r'. rl_window t k lm r = (Some d, r') \<and> redis_rel t r' c'"
proof (cases "lim_PerMinute lm > 0")
  case True
  from assms(1) have t: "0 \<le> time_Unix t" and c: "covers minute_of min_key (rlr_keys r) (snd c)"
    by (simp_all add: redis_rel_def)
  then have "0 \<le> minute_of t" by (simp add: minute_of_def)
  from incr_covers [OF c assms(2) t this minute_ttl [OF t] min_key_inject, of k] obtain x
    where h: "rl_incr t (min_key k (minute_of t)) 61 r = (Some (snd c k (minute_of t) + 1),
        r\<lparr>rlr_keys := (rlr_keys r)(min_key k (minute_of t) \<mapsto> (snd c k (minute_of t) + 1, x))\<rparr>)"
    and "covers minute_of min_key ((rlr_keys r)(min_key k (minute_of t) \<mapsto> (snd c k (minute_of t) + 1, x)))
        (bump (snd c) k (minute_of t))" by blast
  then have "redis_rel t (r\<lparr>rlr_keys := (rlr_keys r)(min_key k (minute_of t) \<mapsto> (snd c k (minute_of t) + 1, x))\<rparr>)
      (fst c, bump (snd c) k (minute_of t))"
    using assms(1) by (simp add: redis_rel_def covers_other key_families)
  with True assms(3) show ?thesis
    by (subst rl_window_def, subst minute_of_def [symmetric], subst h)
       (auto simp: spec_window_def split: if_splits)
next
  case False
  with assms show ?thesis by (simp add: spec_window_def rl_window_def)
qed

lemma redis_step:
  assumes "redis_rel t r c" and "t \<le> t'" and "spec_allow t' k lm c = (d, c')"
  shows "\<exists>r'. redis_allow t' k lm r = (Some d, r') \<and> redis_rel t' r' c'"
proof -
  let ?r = "r\<lparr>rlr_up := True\<rparr>"
  from assms(1,2) time_Unix_mono [of t t'] have rel: "redis_rel t' ?r c" by (simp add: redis_rel_def)
  then have t: "0 \<le> time_Unix t'" and c: "covers time_Unix sec_key (rlr_keys ?r) (fst c)"
    by (simp_all add: redis_rel_def)
  show ?thesis
  proof (cases "lim_PerSecond lm > 0")
    case True
    from incr_covers [OF c _ t t second_ttl sec_key_inject, of k] obtain x
      where h: "rl_incr t' (sec_key k (time_Unix t')) 2 ?r = (Some (fst c k (time_Unix t') + 1),
          ?r\<lparr>rlr_keys := (rlr_keys ?r)(sec_key k (time_Unix t') \<mapsto> (fst c k (time_Unix t') + 1, x))\<rparr>)"
      and "covers time_Unix sec_key ((rlr_keys ?r)(sec_key k (time_Unix t') \<mapsto> (fst c k (time_Unix t') + 1, x)))
          (bump (fst c) k (time_Unix t'))" by auto
    let ?r' = "?r\<lparr>rlr_keys := (rlr_keys ?r)(sec_key k (time_Unix t') \<mapsto> (fst c k (time_Unix t') + 1, x))\<rparr>"
    have rel': "redis_rel t' ?r' (bump (fst c) k (time_Unix t'), snd c)"
      using rel \<open>covers time_Unix sec_key _ (bump _ _ _)\<close> by (simp add: redis_rel_def covers_other key_families)
    show ?thesis
    proof (cases "fst c k (time_Unix t') + 1 > lim_PerSecond lm")
      case rej: True
      with True assms(3) rel' show ?thesis
        unfolding redis_allow_def by (subst RedisLimiter_Allow_def, subst h) (auto simp: spec_allow_def)
    next
      case False
      with True assms(3) have "spec_window t' k lm (bump (fst c) k (time_Unix t'), snd c) = (d, c')"
        by (simp add: spec_allow_def)
      from redis_rel_window [OF rel' _ this] True False show ?thesis
        unfolding redis_allow_def by (subst RedisLimiter_Allow_def, subst h) auto
    qed
  next
    case False
    with assms(3) have "spec_window t' k lm c = (d, c')" by (simp add: spec_allow_def)
    from redis_rel_window [OF rel _ this] False show ?thesis
      by (simp add: redis_allow_def RedisLimiter_Allow_def)
  qed
qed

interpretation redis_limiter: limiter redis_allow Some redis_rel
  by unfold_locales (rule redis_step)

lemma redis_rel_init: "0 \<le> time_Unix t \<Longrightarrow> redis_rel t \<lparr>rlr_up = up, rlr_keys = (\<lambda>_. None)\<rparr> spec_init"
  by (simp add: redis_rel_def covers_def spec_init_def)

section \<open>What the reference limiter lets through\<close>

definition seen_in :: "string \<Rightarrow> int \<Rightarrow> rl_request list \<Rightarrow> int" where
  "seen_in k s rs = int (length (filter (\<lambda>(t, k', _). k' = k \<and> time_Unix t = s) rs))"

definition passed_in :: "string \<Rightarrow> int \<Rightarrow> rl_request list \<Rightarrow> RLDecision list \<Rightarrow> int" where
  "passed_in k m rs ds =
     int (length (filter (\<lambda>((t, k', _), d). k' = k \<and> minute_of t = m \<and> rl_Allowed d) (zip rs ds)))"

lemma rl_run_length [simp]: "length (fst (rl_run allow rs s)) = length rs"
  by (induction rs arbitrary: s) (auto simp: case_prod_beta)

lemma rl_run_snoc:
  "rl_run allow (rs @ [(t, k, lm)]) s =
     (case rl_run allow rs s of (ds, s1) \<Rightarrow> (case allow t k lm s1 of (d, s2) \<Rightarrow> (ds @ [d], s2)))"
  by (induction rs arbitrary: s) (auto simp: case_prod_beta)

lemma seen_in_snoc: "seen_in k s (rs @ [(t, k', lm)]) = seen_in k s rs + (if k' = k \<and> time_Unix t = s then 1 else 0)"
  by (simp add: seen_in_def)

lemma passed_in_snoc: "length ds = length rs \<Longrightarrow>
    passed_in k m (rs @ [(t, k', lm)]) (ds @ [d]) =
      passed_in k m rs ds + (if k' = k \<and> minute_of t = m \<and> rl_Allowed d then 1 else 0)"
  by (simp add: passed_in_def)

lemma rl_Allowed_simps [simp]:
  "\<not> rl_Allowed (rl_reject_burst lm)" "\<not> rl_Allowed (rl_reject_window lm t)" "rl_Allowed (rl_allow a b)"
  by (simp_all add: rl_reject_burst_def rl_reject_window_def rl_allow_def)

lemma spec_allow_Allowed:
  "rl_Allowed (fst (spec_allow t k lm c)) \<longleftrightarrow>
     (0 < lim_PerSecond lm \<longrightarrow> fst c k (time_Unix t) < lim_PerSecond lm) \<and>
     (0 < lim_PerMinute lm \<longrightarrow> snd c k (minute_of t) < lim_PerMinute lm)"
  by (auto simp: spec_allow_def spec_window_def Let_def)

lemma spec_allow_seconds:
  "fst (snd (spec_allow t k' lm c)) k s =
     fst c k s + (if k' = k \<and> time_Unix t = s \<and> 0 < lim_PerSecond lm then 1 else 0)"
  by (auto simp: spec_allow_def spec_window_def bump_def Let_def)

text \<open>The minute counter, cut at the limit, moves exactly with the allowed requests.\<close>

lemma spec_allow_minutes:
  assumes "0 < lim_PerMinute lm"
  shows "min (snd (snd (spec_allow t k' lm c)) k m) (lim_PerMinute lm) =
     min (snd c k m) (lim_PerMinute lm) + (if k' = k \<and> minute_of t = m \<and> rl_Allowed (fst (spec_allow t k' lm c)) then 1 else 0)"
  using assms by (auto simp: spec_allow_def spec_window_def bump_def Let_def)

lemma spec_allow_other: "k' \<noteq> k \<Longrightarrow> snd (snd (spec_allow t k' lm c)) k = snd c k"
  by (auto simp: spec_allow_def spec_window_def bump_def Let_def)

lemma spec_run_counts:
  assumes "\<forall>(t', k', l') \<in> set rs. k' = k \<longrightarrow> l' = lm"
  shows "(0 < lim_PerSecond lm \<longrightarrow> fst (snd (rl_run spec_allow rs spec_init)) k s = seen_in k s rs) \<and>
    (0 < lim_PerMinute lm \<longrightarrow> min (snd (snd (rl_run spec_allow rs spec_init)) k m) (lim_PerMinute lm) =
       passed_in k m rs (fst (rl_run spec_allow rs spec_init)))"
  using assms
proof (induction rs rule: rev_induct)
  case Nil
  then show ?case by (simp add: spec_init_def seen_in_def passed_in_def)
next
  case (snoc r rs)
  obtain t k' l where r: "r = (t, k', l)" by (cases r)
  let ?c = "snd (rl_run spec_allow rs spec_init)"
  from snoc.prems r have l: "k' = k \<Longrightarrow> l = lm" by simp
  from snoc.IH snoc.prems have IH:
    "0 < lim_PerSecond lm \<Longrightarrow> fst ?c k s = seen_in k s rs"
    "0 < lim_PerMinute lm \<Longrightarrow> min (snd ?c k m) (lim_PerMinute lm) = passed_in k m rs (fst (rl_run spec_allow rs spec_init))"
    by auto
  have run: "rl_run spec_allow (rs @ [(t, k', l)]) spec_init =
      (fst (rl_run spec_allow rs spec_init) @ [fst (spec_allow t k' l ?c)], snd (spec_allow t k' l ?c))"
    by (simp add: rl_run_snoc case_prod_beta)
  show ?case
  proof (cases "k' = k")
    case True
    with l IH show ?thesis
      unfolding r run by (simp add: seen_in_snoc passed_in_snoc spec_allow_seconds spec_allow_minutes)
  next
    case False
    with IH show ?thesis
      unfolding r run by (simp add: seen_in_snoc passed_in_snoc spec_allow_seconds spec_allow_other)
  qed
qed

section \<open>Properties\<close>

text \<open>C29: the in-memory limiter and the Redis limiter are the same limiter. On every
  sequence of requests in clock order (from 1970 on), over any number of keys and tiers,
  against a reachable Redis, they return the same decisions, allowed or not, with the same scope, retry hint, limit and
  remaining count, and these are the decisions of the reference limiter whose counters are
  never reset or expired. In particular the expiry the script sets never ends a counter
  within its own second or minute, and no two (key id, epoch) pairs share a Redis key.\<close>

theorem limiters_agree:
  assumes "sorted (map fst rs)" and "\<forall>r \<in> set rs. 0 \<le> time_Unix (fst r)"
  shows "fst (rl_run MemLimiter_Allow rs NewMemLimiter) = fst (rl_run spec_allow rs spec_init)
    \<and> fst (rl_run redis_allow rs \<lparr>rlr_up = up, rlr_keys = (\<lambda>_. None)\<rparr>)
           = map Some (fst (rl_run MemLimiter_Allow rs NewMemLimiter))"
proof -
  obtain t where t: "0 \<le> time_Unix t" "\<And>r. r \<in> set rs \<Longrightarrow> t \<le> fst r"
  proof (cases rs)
    case Nil
    then show ?thesis using that [of "unixToInternal * ns_second"] by (simp add: time_Unix_def)
  next
    case (Cons r rs')
    with assms show ?thesis by (intro that [of "fst r"]) auto
  qed
  from mem_limiter.run_refines [OF mem_rel_init assms(1) t(2)]
  have mem: "fst (rl_run MemLimiter_Allow rs NewMemLimiter) = fst (rl_run spec_allow rs spec_init)" by simp
  from redis_limiter.run_refines [OF redis_rel_init [OF t(1)] assms(1) t(2)]
  show ?thesis by (simp add: mem)
qed

theorem limiters_agree_witness:
  "fst (rl_run redis_allow
      [(unixToInternal * ns_second, ''k'', \<lparr>lim_PerMinute = 1, lim_PerSecond = 2\<rparr>),
       (unixToInternal * ns_second, ''k'', \<lparr>lim_PerMinute = 1, lim_PerSecond = 2\<rparr>),
       (unixToInternal * ns_second + 5, ''k'', \<lparr>lim_PerMinute = 1, lim_PerSecond = 2\<rparr>)]
      \<lparr>rlr_up = False, rlr_keys = (\<lambda>_. None)\<rparr>) =
    [Some (rl_allow 1 0), Some (rl_reject_window \<lparr>lim_PerMinute = 1, lim_PerSecond = 2\<rparr> (unixToInternal * ns_second)),
     Some (rl_reject_burst \<lparr>lim_PerMinute = 1, lim_PerSecond = 2\<rparr>)]"
  by (subst limiters_agree [THEN conjunct2])
     (simp_all add: time_Unix_def MemLimiter_Allow_def NewMemLimiter_def hit_def)

text \<open>C30: exactness of the limits. When every earlier request of a key carried the same
  limits, the next request (in clock order) is allowed if and only if fewer than
  \<open>PerSecond\<close> requests of that key, allowed or not, were seen in the current second and
  fewer than \<open>PerMinute\<close> of its requests were allowed in the current minute; a limit of
  zero or less disables its layer. Hence no minute ever lets more than \<open>PerMinute\<close>
  requests of a key through, and requests of other keys have no influence.\<close>

theorem rate_limit_exact:
  assumes "sorted (map fst rs @ [t])"
    and "\<forall>(t', k', l') \<in> set rs. k' = k \<longrightarrow> l' = lm"
    and "rl_run MemLimiter_Allow rs NewMemLimiter = (ds, l)"
  shows "(rl_Allowed (fst (MemLimiter_Allow t k lm l)) \<longleftrightarrow>
      (0 < lim_PerSecond lm \<longrightarrow> seen_in k (time_Unix t) rs < lim_PerSecond lm) \<and>
      (0 < lim_PerMinute lm \<longrightarrow> passed_in k (minute_of t) rs ds < lim_PerMinute lm))
    \<and> (0 < lim_PerMinute lm \<longrightarrow> passed_in k m rs ds \<le> lim_PerMinute lm)"
proof -
  let ?rs = "rs @ [(t, k, lm)]" and ?c = "snd (rl_run spec_allow rs spec_init)"
  have same: "fst (rl_run MemLimiter_Allow xs NewMemLimiter) = fst (rl_run spec_allow xs spec_init)"
    if "sorted (map fst xs)" and "\<And>r. r \<in> set xs \<Longrightarrow> Min (insert t (fst ` set rs)) \<le> fst r" for xs
    using mem_limiter.run_refines [OF mem_rel_init that] by simp
  from assms(1) have ds: "ds = fst (rl_run spec_allow rs spec_init)"
    using same [of rs] assms(3) by (simp add: sorted_append)
  have "fst (rl_run MemLimiter_Allow ?rs NewMemLimiter) = fst (rl_run spec_allow ?rs spec_init)"
    using assms(1) by (intro same) (auto simp: image_iff intro!: Min_le)
  then have d: "fst (MemLimiter_Allow t k lm l) = fst (spec_allow t k lm ?c)"
    by (simp add: rl_run_snoc assms(3) case_prod_beta ds)
  note counts = spec_run_counts [OF assms(2)]
  have "rl_Allowed (fst (MemLimiter_Allow t k lm l)) \<longleftrightarrow>
      (0 < lim_PerSecond lm \<longrightarrow> seen_in k (time_Unix t) rs < lim_PerSecond lm) \<and>
      (0 < lim_PerMinute lm \<longrightarrow> passed_in k (minute_of t) rs ds < lim_PerMinute lm)"
    using counts [where s = "time_Unix t" and m = "minute_of t"] by (auto simp: d spec_allow_Allowed ds [symmetric])
  moreover have "passed_in k m rs ds \<le> lim_PerMinute lm" if "0 < lim_PerMinute lm"
    using counts [where s = 0 and m = m] that by (auto simp: ds [symmetric] min_def split: if_splits)
  ultimately show ?thesis by blast
qed

theorem rate_limit_exact_witness:
  "\<not> rl_Allowed (fst (MemLimiter_Allow (unixToInternal * ns_second) ''k'' \<lparr>lim_PerMinute = 1, lim_PerSecond = 0\<rparr>
     (snd (rl_run MemLimiter_Allow [(unixToInternal * ns_second, ''k'', \<lparr>lim_PerMinute = 1, lim_PerSecond = 0\<rparr>)] NewMemLimiter))))"
  using rate_limit_exact [of "[(unixToInternal * ns_second, ''k'', \<lparr>lim_PerMinute = 1, lim_PerSecond = 0\<rparr>)]"
      "unixToInternal * ns_second" "''k''" "\<lparr>lim_PerMinute = 1, lim_PerSecond = 0\<rparr>"]
  by (simp add: time_Unix_def MemLimiter_Allow_def NewMemLimiter_def hit_def passed_in_def rl_allow_def minute_of_def)

end
