(* ===== verification/Ulid.thy ===== *)
theory Ulid
  imports Authz_Prelude "HOL-Library.Word"
begin

unbundle bit_operations_syntax

text \<open>
  \<open>internal/ulid\<close>: decision ids. The sixteen bytes (48 bits of millisecond clock, 80 bits
  of entropy) and the unrolled Crockford base32 encoding at the width of the code, with
  the proof that the text is well formed, injective and sorts by creation time.
\<close>

definition crockford :: string where
  "crockford = ''0123456789ABCDEFGHJKMNPQRSTVWXYZ''"

definition crock :: "8 word \<Rightarrow> char" where
  "crock w = crockford ! unat w"

definition encode :: "8 word list \<Rightarrow> string" where
  "encode b =
     [crock (drop_bit 5 (b ! 0 AND 224)),
      crock (b ! 0 AND 31),
      crock (drop_bit 3 (b ! 1 AND 248)),
      crock (push_bit 2 (b ! 1 AND 7) OR drop_bit 6 (b ! 2 AND 192)),
      crock (drop_bit 1 (b ! 2 AND 62)),
      crock (push_bit 4 (b ! 2 AND 1) OR drop_bit 4 (b ! 3 AND 240)),
      crock (push_bit 1 (b ! 3 AND 15) OR drop_bit 7 (b ! 4 AND 128)),
      crock (drop_bit 2 (b ! 4 AND 124)),
      crock (push_bit 3 (b ! 4 AND 3) OR drop_bit 5 (b ! 5 AND 224)),
      crock (b ! 5 AND 31),
      crock (drop_bit 3 (b ! 6 AND 248)),
      crock (push_bit 2 (b ! 6 AND 7) OR drop_bit 6 (b ! 7 AND 192)),
      crock (drop_bit 1 (b ! 7 AND 62)),
      crock (push_bit 4 (b ! 7 AND 1) OR drop_bit 4 (b ! 8 AND 240)),
      crock (push_bit 1 (b ! 8 AND 15) OR drop_bit 7 (b ! 9 AND 128)),
      crock (drop_bit 2 (b ! 9 AND 124)),
      crock (push_bit 3 (b ! 9 AND 3) OR drop_bit 5 (b ! 10 AND 224)),
      crock (b ! 10 AND 31),
      crock (drop_bit 3 (b ! 11 AND 248)),
      crock (push_bit 2 (b ! 11 AND 7) OR drop_bit 6 (b ! 12 AND 192)),
      crock (drop_bit 1 (b ! 12 AND 62)),
      crock (push_bit 4 (b ! 12 AND 1) OR drop_bit 4 (b ! 13 AND 240)),
      crock (push_bit 1 (b ! 13 AND 15) OR drop_bit 7 (b ! 14 AND 128)),
      crock (drop_bit 2 (b ! 14 AND 124)),
      crock (push_bit 3 (b ! 14 AND 3) OR drop_bit 5 (b ! 15 AND 224)),
      crock (b ! 15 AND 31)]"

text \<open>\<open>New\<close>: the clock in milliseconds and the ten bytes of entropy are arguments.\<close>

definition ulid_bytes :: "64 word \<Rightarrow> 8 word list \<Rightarrow> 8 word list" where
  "ulid_bytes ms entropy =
     [ucast (drop_bit 40 ms), ucast (drop_bit 32 ms), ucast (drop_bit 24 ms), ucast (drop_bit 16 ms),
      ucast (drop_bit 8 ms), ucast ms] @ entropy"

definition New :: "64 word \<Rightarrow> 8 word list \<Rightarrow> string" where
  "New ms entropy = encode (ulid_bytes ms entropy)"

section \<open>Digits\<close>

lemma byte_less: "unat (w :: 8 word) < 256"
  using unsigned_less [of w, where ?'a = nat] by simp

text \<open>The two shapes of the unrolled expressions, as arithmetic on byte values: a field of
  \<open>k\<close> bits above bit \<open>n\<close> of one byte, and low bits of one byte next to high bits of the next.\<close>

lemma unat_field:
  fixes w :: "8 word"
  assumes "m = push_bit n (mask k)"
  shows "unat (drop_bit n (w AND m)) = unat w div 2 ^ n mod 2 ^ k"
proof -
  have "drop_bit n (w AND m) = take_bit k (drop_bit n w)"
    by (rule bit_word_eqI) (auto simp: assms bit_simps dest: bit_imp_le_length)
  then have "unat (drop_bit n (w AND m)) = take_bit k (drop_bit n (take_bit 8 (unat w)))"
    by (simp only: unsigned_take_bit_eq unsigned_drop_bit_eq) simp
  also have "take_bit 8 (unat w) = unat w" using byte_less [of w] by (simp add: take_bit_nat_eq_self)
  finally show ?thesis by (simp add: drop_bit_eq_div take_bit_eq_mod)
qed

lemma unat_low: "unat ((w :: 8 word) AND mask k) = unat w mod 2 ^ k"
proof -
  have "unat (w AND mask k) = unat (take_bit k w)" by (simp only: take_bit_eq_mask)
  then show ?thesis by (simp only: unsigned_take_bit_eq) (simp add: take_bit_eq_mod)
qed

lemma nat_or_add: "(v :: nat) < 2 ^ j \<Longrightarrow> push_bit j u OR v = u * 2 ^ j + v"
proof -
  assume "v < 2 ^ j"
  then have v: "take_bit j v = v" by (simp add: take_bit_nat_eq_self)
  have "push_bit j u AND take_bit j v = 0" by (rule bit_eqI) (auto simp: bit_simps)
  with v have "push_bit j u AND v = 0" by simp
  then show ?thesis by (simp add: disjunctive_add_eq_or [symmetric] push_bit_eq_mult)
qed

lemma unat_join:
  fixes a b :: "8 word"
  assumes "m = push_bit n (mask j)" and "p + j \<le> 8" and "n + j = 8"
  shows "unat (push_bit j (a AND mask p) OR drop_bit n (b AND m)) = unat a mod 2 ^ p * 2 ^ j + unat b div 2 ^ n"
proof -
  have "(2 :: nat) ^ j * 2 ^ n = 2 ^ 8" using assms(3) by (simp add: add.commute flip: power_add)
  then have b: "unat b div 2 ^ n < 2 ^ j"
    using byte_less [of b] by (intro less_mult_imp_div_less) simp
  have "unat (push_bit j (a AND mask p)) = take_bit 8 (push_bit j (unat a mod 2 ^ p))"
    by (simp only: unsigned_push_bit_eq unat_low) simp
  also have "\<dots> = push_bit j (unat a mod 2 ^ p)"
  proof (rule take_bit_nat_eq_self)
    have "unat a mod 2 ^ p < 2 ^ p" by simp
    then have "unat a mod 2 ^ p * 2 ^ j < 2 ^ p * 2 ^ j" by simp
    also have "\<dots> \<le> (2 :: nat) ^ 8" unfolding power_add [symmetric] using assms(2) by (intro power_increasing) auto
    finally show "push_bit j (unat a mod 2 ^ p) < 2 ^ 8" by (simp add: push_bit_eq_mult)
  qed
  finally have a: "unat (push_bit j (a AND mask p)) = push_bit j (unat a mod 2 ^ p)" .
  have "unat (drop_bit n (b AND m)) = unat b div 2 ^ n" using unat_field [OF assms(1), of b] b by simp
  then show ?thesis using nat_or_add [OF b, of "unat a mod 2 ^ p"] by (simp only: unsigned_or_eq a)
qed

text \<open>The digits of a byte and of a block of five bytes.\<close>

definition head_digits :: "nat \<Rightarrow> nat list" where
  "head_digits a = [a div 32, a mod 32]"

definition block_digits :: "nat \<Rightarrow> nat \<Rightarrow> nat \<Rightarrow> nat \<Rightarrow> nat \<Rightarrow> nat list" where
  "block_digits a b c d e =
     [a div 8, a mod 8 * 4 + b div 64, b div 2 mod 32, b mod 2 * 16 + c div 16,
      c mod 16 * 2 + d div 128, d div 4 mod 32, d mod 4 * 8 + e div 32, e mod 32]"

definition ulid_digits :: "nat list \<Rightarrow> nat list" where
  "ulid_digits b = head_digits (b ! 0) @ block_digits (b ! 1) (b ! 2) (b ! 3) (b ! 4) (b ! 5)
     @ block_digits (b ! 6) (b ! 7) (b ! 8) (b ! 9) (b ! 10) @ block_digits (b ! 11) (b ! 12) (b ! 13) (b ! 14) (b ! 15)"

lemma masks:
  "(224 :: 8 word) = push_bit 5 (mask 3)" "(31 :: 8 word) = mask 5" "(248 :: 8 word) = push_bit 3 (mask 5)"
  "(7 :: 8 word) = mask 3" "(192 :: 8 word) = push_bit 6 (mask 2)" "(62 :: 8 word) = push_bit 1 (mask 5)"
  "(1 :: 8 word) = mask 1" "(240 :: 8 word) = push_bit 4 (mask 4)" "(15 :: 8 word) = mask 4"
  "(128 :: 8 word) = push_bit 7 (mask 1)" "(124 :: 8 word) = push_bit 2 (mask 5)" "(3 :: 8 word) = mask 2"
  by (simp_all add: mask_eq_exp_minus_1 push_bit_eq_mult)

lemma crock_high: "crock (drop_bit 5 (w AND 224)) = crockford ! (unat w div 32)"
  using unat_field [OF masks(1), of w] byte_less [of w] by (simp add: crock_def less_mult_imp_div_less)

lemma crock_fields:
  "crock (w AND 31) = crockford ! (unat w mod 32)"
  "crock (drop_bit 3 (w AND 248)) = crockford ! (unat w div 8)"
  "crock (drop_bit 1 (w AND 62)) = crockford ! (unat w div 2 mod 32)"
  "crock (drop_bit 2 (w AND 124)) = crockford ! (unat w div 4 mod 32)"
  using unat_low [of w 5] unat_field [OF masks(3), of w] unat_field [OF masks(6), of w] unat_field [OF masks(11), of w] byte_less [of w]
  by (simp_all add: crock_def less_mult_imp_div_less masks(2))

lemma crock_joins:
  "crock (push_bit 2 (v AND 7) OR drop_bit 6 (w AND 192)) = crockford ! (unat v mod 8 * 4 + unat w div 64)"
  "crock (push_bit 4 (v AND 1) OR drop_bit 4 (w AND 240)) = crockford ! (unat v mod 2 * 16 + unat w div 16)"
  "crock (push_bit 1 (v AND 15) OR drop_bit 7 (w AND 128)) = crockford ! (unat v mod 16 * 2 + unat w div 128)"
  "crock (push_bit 3 (v AND 3) OR drop_bit 5 (w AND 224)) = crockford ! (unat v mod 4 * 8 + unat w div 32)"
proof -
  have "unat (push_bit 2 (v AND 7) OR drop_bit 6 (w AND 192)) = unat v mod 2 ^ 3 * 2 ^ 2 + unat w div 2 ^ 6"
    by (subst masks(4), rule unat_join [OF masks(5)]) simp_all
  then show "crock (push_bit 2 (v AND 7) OR drop_bit 6 (w AND 192)) = crockford ! (unat v mod 8 * 4 + unat w div 64)"
    unfolding crock_def by (simp only:) simp
  have "unat (push_bit 4 (v AND 1) OR drop_bit 4 (w AND 240)) = unat v mod 2 ^ 1 * 2 ^ 4 + unat w div 2 ^ 4"
    by (subst masks(7), rule unat_join [OF masks(8)]) simp_all
  then show "crock (push_bit 4 (v AND 1) OR drop_bit 4 (w AND 240)) = crockford ! (unat v mod 2 * 16 + unat w div 16)"
    unfolding crock_def by (simp only:) simp
  have "unat (push_bit 1 (v AND 15) OR drop_bit 7 (w AND 128)) = unat v mod 2 ^ 4 * 2 ^ 1 + unat w div 2 ^ 7"
    by (subst masks(9), rule unat_join [OF masks(10)]) simp_all
  then show "crock (push_bit 1 (v AND 15) OR drop_bit 7 (w AND 128)) = crockford ! (unat v mod 16 * 2 + unat w div 128)"
    unfolding crock_def by (simp only:) simp
  have "unat (push_bit 3 (v AND 3) OR drop_bit 5 (w AND 224)) = unat v mod 2 ^ 2 * 2 ^ 3 + unat w div 2 ^ 5"
    by (subst masks(12), rule unat_join [OF masks(1)]) simp_all
  then show "crock (push_bit 3 (v AND 3) OR drop_bit 5 (w AND 224)) = crockford ! (unat v mod 4 * 8 + unat w div 32)"
    unfolding crock_def by (simp only:) simp
qed

lemma encode_digits: "length b = 16 \<Longrightarrow> encode b = map ((!) crockford) (ulid_digits (map unat b))"
  unfolding encode_def crock_high crock_fields crock_joins
  by (simp only: ulid_digits_def head_digits_def block_digits_def nth_map list.map append.simps)

section \<open>Order\<close>

definition digits_value :: "nat \<Rightarrow> nat list \<Rightarrow> nat" where
  "digits_value B ds = foldl (\<lambda>v d. v * B + d) 0 ds"

lemma digits_value_append: "digits_value B (xs @ ys) = digits_value B xs * B ^ length ys + digits_value B ys"
proof -
  have *: "foldl (\<lambda>v d. v * B + d) a ys = a * B ^ length ys + foldl (\<lambda>v d. v * B + d) 0 ys" for a
  proof (induction ys arbitrary: a)
    case (Cons y ys)
    from Cons [of "a * B + y"] Cons [of y] show ?case by (simp add: algebra_simps)
  qed simp
  show ?thesis unfolding digits_value_def foldl_append by (rule *)
qed

lemma digits_value_Cons: "digits_value B (x # xs) = x * B ^ length xs + digits_value B xs"
  using digits_value_append [of B "[x]" xs] by (simp add: digits_value_def)

lemma digits_value_less: "\<forall>d \<in> set ds. d < B \<Longrightarrow> digits_value B ds < B ^ length ds"
proof (induction ds)
  case (Cons d ds)
  then have "digits_value B ds < B ^ length ds" and "d + 1 \<le> B" by auto
  then have "d * B ^ length ds + digits_value B ds < (d + 1) * B ^ length ds" by simp
  also have "\<dots> \<le> B * B ^ length ds" using \<open>d + 1 \<le> B\<close> by (rule mult_right_mono) simp
  finally show ?case by (simp add: digits_value_Cons)
qed (simp add: digits_value_def)

text \<open>On digit lists of one length, the lexicographic order is the order of the values.\<close>

lemma digits_value_lexordp:
  "length xs = length ys \<Longrightarrow> \<forall>d \<in> set xs. d < B \<Longrightarrow> \<forall>d \<in> set ys. d < B \<Longrightarrow>
   digits_value B xs < digits_value B ys \<longleftrightarrow> ord_class.lexordp xs ys"
proof (induction xs ys rule: list_induct2)
  case (Cons x xs y ys)
  let ?n = "length ys" and ?X = "digits_value B xs" and ?Y = "digits_value B ys"
  have X: "?X < B ^ ?n" and Y: "?Y < B ^ ?n" using Cons digits_value_less [of xs B] digits_value_less [of ys B] by auto
  have below: "a * B ^ ?n + u < b * B ^ ?n + v" if "a < b" "u < B ^ ?n" for a b u v
  proof -
    have "a * B ^ ?n + u < (a + 1) * B ^ ?n" using that(2) by simp
    also have "\<dots> \<le> b * B ^ ?n" using that(1) by (intro mult_right_mono) auto
    finally show ?thesis by simp
  qed
  show ?case
  proof (cases x y rule: linorder_cases)
    case less
    then show ?thesis using below [OF less X] Cons.hyps by (simp add: digits_value_Cons)
  next
    case equal
    then show ?thesis using Cons by (simp add: digits_value_Cons)
  next
    case greater
    then show ?thesis using below [OF greater Y, of ?X] Cons.hyps by (auto simp: digits_value_Cons)
  qed
qed (simp add: digits_value_def)

lemma block_poly:
  "digits_value 32 [a1, a0 * 4 + b2, b1, b0 * 16 + c1, c0 * 2 + d2, d1, d0 * 8 + e1, e0] =
   digits_value 256 [8 * a1 + a0, 64 * b2 + (2 * b1 + b0), 16 * c1 + c0, 128 * d2 + (4 * d1 + d0), 32 * e1 + e0]"
  by (simp add: digits_value_def algebra_simps)

lemma div_split: "B * A * (n div (B * A)) + (B * (n div B mod A) + n mod B) = (n :: nat)"
proof -
  have "B * A * (n div (B * A)) + (B * (n div B mod A) + n mod B) = B * (A * (n div B div A) + n div B mod A) + n mod B"
    by (simp only: div_mult2_eq distrib_left mult.assoc add.assoc)
  then show ?thesis by simp
qed

lemma block_value:
  "digits_value 32 (block_digits a b c d e) = digits_value 256 [a, b, c, d, e]"
proof -
  have b: "64 * (b div 64) + (2 * (b div 2 mod 32) + b mod 2) = b" using div_split [of 2 32 b] by simp
  have d: "128 * (d div 128) + (4 * (d div 4 mod 32) + d mod 4) = d" using div_split [of 4 32 d] by simp
  show ?thesis
    using block_poly [of "a div 8" "a mod 8" "b div 64" "b div 2 mod 32" "b mod 2" "c div 16" "c mod 16"
        "d div 128" "d div 4 mod 32" "d mod 4" "e div 32" "e mod 32"]
    unfolding block_digits_def b d by simp
qed

lemma head_value: "digits_value 32 (head_digits a) = a"
  by (simp add: head_digits_def digits_value_def)

lemma ulid_digits_value:
  assumes "length b = 16"
  shows "digits_value 32 (ulid_digits b) = digits_value 256 b"
proof -
  have b: "b = [b ! 0] @ [b ! 1, b ! 2, b ! 3, b ! 4, b ! 5] @ [b ! 6, b ! 7, b ! 8, b ! 9, b ! 10]
      @ [b ! 11, b ! 12, b ! 13, b ! 14, b ! 15]"
    using assms by (intro nth_equalityI) (auto simp: less_Suc_eq numeral_eq_Suc)
  have len: "length (block_digits x1 x2 x3 x4 x5) = 8" for x1 x2 x3 x4 x5 by (simp add: block_digits_def)
  have "digits_value 32 (ulid_digits b) = digits_value 256 ([b ! 0] @ [b ! 1, b ! 2, b ! 3, b ! 4, b ! 5]
      @ [b ! 6, b ! 7, b ! 8, b ! 9, b ! 10] @ [b ! 11, b ! 12, b ! 13, b ! 14, b ! 15])"
    unfolding ulid_digits_def digits_value_append block_value head_value
    by (simp add: len digits_value_Cons [of _ "b ! 0"]) (simp add: digits_value_def)
  then show ?thesis using b by simp
qed

lemma digit_join:
  "(x :: nat) < 8 \<Longrightarrow> y < 4 \<Longrightarrow> x * 4 + y < 32" "x < 2 \<Longrightarrow> y < 16 \<Longrightarrow> x * 16 + y < 32"
  "x < 16 \<Longrightarrow> y < 2 \<Longrightarrow> x * 2 + y < 32" "x < 4 \<Longrightarrow> y < 8 \<Longrightarrow> x * 8 + y < 32"
  by simp_all

lemma block_digits_less: "a < 256 \<Longrightarrow> b < 256 \<Longrightarrow> c < 256 \<Longrightarrow> d < 256 \<Longrightarrow> e < 256 \<Longrightarrow>
    \<forall>x \<in> set (block_digits a b c d e). x < 32"
proof -
  assume "a < 256" "b < 256" "c < 256" "d < 256" "e < 256"
  then have a: "a div 8 < 32" and "b div 64 < 4" "c div 16 < 16" "d div 128 < 2" "e div 32 < 8"
    by (simp_all add: less_mult_imp_div_less)
  then have "a mod 8 * 4 + b div 64 < 32" "b mod 2 * 16 + c div 16 < 32" "c mod 16 * 2 + d div 128 < 32"
    "d mod 4 * 8 + e div 32 < 32"
    by (intro digit_join; simp)+
  moreover have "b div 2 mod 32 < 32" "d div 4 mod 32 < 32" "e mod 32 < 32" by simp_all
  ultimately show ?thesis using a unfolding block_digits_def list.set by blast
qed

lemma ulid_digits_less:
  assumes "length b = 16" and "\<forall>x \<in> set b. x < 256"
  shows "\<forall>x \<in> set (ulid_digits b). x < 32"
proof -
  have less: "b ! i < 256" if "i < 16" for i using assms that by simp
  from less [of 0] have "b ! 0 div 32 < 32" by (simp add: less_mult_imp_div_less)
  with less show ?thesis unfolding ulid_digits_def
    by (auto simp: head_digits_def less_mult_imp_div_less dest!: bspec [OF block_digits_less, rotated 5])
qed

lemma length_ulid_digits: "length (ulid_digits b) = 26"
  by (simp add: ulid_digits_def head_digits_def block_digits_def)

text \<open>The alphabet is sorted by byte value, so digit order is text order.\<close>

lemma crockford_length: "length crockford = 32"
  by (simp add: crockford_def)

lemma crockford_mono: "i < j \<Longrightarrow> j < 32 \<Longrightarrow> (of_char (crockford ! i) :: nat) < of_char (crockford ! j)"
proof -
  assume "i < j" and "j < 32"
  have "sorted_wrt (<) (map of_char crockford :: nat list)" by (simp add: crockford_def)
  from sorted_wrt_nth_less [OF this, of i j] \<open>i < j\<close> \<open>j < 32\<close> show ?thesis
    by (simp add: crockford_length)
qed

definition text_of :: "nat list \<Rightarrow> nat list" where
  "text_of ds = map (\<lambda>d. of_char (crockford ! d)) ds"

lemma crockford_lexordp:
  "\<forall>d \<in> set xs. d < 32 \<Longrightarrow> \<forall>d \<in> set ys. d < 32 \<Longrightarrow> ord_class.lexordp (text_of xs) (text_of ys) \<longleftrightarrow> ord_class.lexordp xs ys"
proof (induction xs arbitrary: ys)
  case Nil
  then show ?case by (cases ys) (simp_all add: text_of_def)
next
  case (Cons x xs)
  show ?case
  proof (cases ys)
    case (Cons y zs)
    with Cons.prems have "x < 32" "y < 32" by auto
    with crockford_mono [of x y] crockford_mono [of y x] have
      "(of_char (crockford ! x) :: nat) < of_char (crockford ! y) \<longleftrightarrow> x < y"
      "(of_char (crockford ! y) :: nat) < of_char (crockford ! x) \<longleftrightarrow> y < x"
      by (cases x y rule: linorder_cases; fastforce)+
    with Cons Cons.IH [of zs] Cons.prems show ?thesis by (simp add: text_of_def)
  qed (simp add: text_of_def)
qed

definition text_less :: "string \<Rightarrow> string \<Rightarrow> bool" where
  "text_less s t \<longleftrightarrow> ord_class.lexordp (map of_char s :: nat list) (map of_char t)"

lemma encode_less:
  assumes "length b = 16" and "length b' = 16"
  shows "text_less (encode b) (encode b') \<longleftrightarrow> digits_value 256 (map unat b) < digits_value 256 (map unat b')"
proof -
  let ?d = "ulid_digits (map unat b)" and ?d' = "ulid_digits (map unat b')"
  have "\<forall>x \<in> set ?d. x < 32" "\<forall>x \<in> set ?d'. x < 32"
    using assms by (intro ulid_digits_less; simp add: byte_less)+
  moreover have "map of_char (encode b) = text_of ?d" "map of_char (encode b') = text_of ?d'"
    using assms by (simp_all add: encode_digits text_of_def)
  ultimately show ?thesis unfolding text_less_def
    using crockford_lexordp [of ?d ?d'] digits_value_lexordp [of ?d ?d' 32] assms
    by (simp add: length_ulid_digits ulid_digits_value)
qed

lemma clock_bytes:
  "digits_value 256 (map unat (ulid_bytes ms entropy)) =
     unat ms mod 2 ^ 48 * 256 ^ length entropy + digits_value 256 (map unat entropy)"
proof -
  let ?m = "unat ms"
  have shift: "unat (ucast (drop_bit n ms) :: 8 word) = ?m div 2 ^ n mod 256" if "n < 64" for n
  proof -
    have "take_bit 64 ?m = ?m" using unsigned_less [of ms, where ?'a = nat] by (simp add: take_bit_nat_eq_self)
    then show ?thesis
      by (simp only: unsigned_ucast_eq unsigned_drop_bit_eq) (simp add: drop_bit_eq_div take_bit_eq_mod)
  qed
  have "unat (ucast ms :: 8 word) = ?m mod 256"
    using shift [of 0] by simp
  moreover have "digits_value 256 [?m div 2 ^ 40 mod 256, ?m div 2 ^ 32 mod 256, ?m div 2 ^ 24 mod 256,
      ?m div 2 ^ 16 mod 256, ?m div 2 ^ 8 mod 256, ?m mod 256] = ?m mod 2 ^ 48"
  proof -
    have step: "n mod (2 ^ k * 256) = (n div 2 ^ k mod 256) * 2 ^ k + n mod 2 ^ k" for n k :: nat
      by (simp add: mod_mult2_eq)
    from step [of ?m 40] step [of ?m 32] step [of ?m 24] step [of ?m 16] step [of ?m 8] show ?thesis
      by (simp add: digits_value_def)
  qed
  ultimately show ?thesis unfolding ulid_bytes_def map_append digits_value_append by (simp add: shift)
qed

section \<open>Properties\<close>

text \<open>Decision ids are well formed, unique per input and sort by creation time. Every id
  has 26 characters of the Crockford alphabet, the first at most 7; two ids are equal only
  when their bytes are; and of two ids minted at different milliseconds (below \<open>2 ^ 48\<close>) the
  earlier one is the smaller text, whatever the entropy.\<close>

theorem ulid_sortable:
  assumes "length e = 10" and "length e' = 10" and "unat ms < 2 ^ 48" and "unat ms' < 2 ^ 48"
  shows "length (New ms e) = 26 \<and> set (New ms e) \<subseteq> set crockford \<and> hd (New ms e) \<in> set ''01234567''
    \<and> (New ms e = New ms' e' \<longleftrightarrow> ulid_bytes ms e = ulid_bytes ms' e')
    \<and> (unat ms < unat ms' \<longrightarrow> text_less (New ms e) (New ms' e'))"
proof -
  have len: "length (ulid_bytes ms e) = 16" "length (ulid_bytes ms' e') = 16" using assms by (simp_all add: ulid_bytes_def)
  let ?b = "map unat (ulid_bytes ms e)" and ?b' = "map unat (ulid_bytes ms' e')"
  have small: "\<forall>x \<in> set ?b. x < 256" "\<forall>x \<in> set ?b'. x < 256" by (simp_all add: byte_less)
  have d: "\<forall>x \<in> set (ulid_digits ?b). x < 32" using len small by (intro ulid_digits_less) auto
  have chars: "set (New ms e) \<subseteq> set crockford"
    using d len by (auto simp: New_def encode_digits crockford_length)
  have "?b ! 0 div 32 < 8" using small(1) len by (intro less_mult_imp_div_less) simp
  then have "crockford ! (?b ! 0 div 32) \<in> set (take 8 crockford)"
    by (simp add: crockford_length in_set_conv_nth) (metis crockford_length length_take min.commute nth_take)
  then have hd: "hd (New ms e) \<in> set ''01234567''"
    using len by (simp add: New_def encode_digits ulid_digits_def head_digits_def) (simp add: crockford_def)
  have "ulid_bytes ms e = ulid_bytes ms' e'" if "New ms e = New ms' e'"
  proof -
    have "\<not> text_less (New ms e) (New ms' e')" "\<not> text_less (New ms' e') (New ms e)"
      using that by (simp_all add: text_less_def lexordp_irreflexive')
    then have "digits_value 256 ?b = digits_value 256 ?b'" using len by (simp add: New_def encode_less)
    then have "\<not> ord_class.lexordp ?b ?b'" "\<not> ord_class.lexordp ?b' ?b"
      using digits_value_lexordp [of ?b ?b' 256] digits_value_lexordp [of ?b' ?b 256] len small by auto
    then have "?b = ?b'" using lexordp_linear [of ?b ?b'] by auto
    then show ?thesis by (rule map_injective) (simp add: inj_def word_unat_eq_iff)
  qed
  moreover have "text_less (New ms e) (New ms' e')" if "unat ms < unat ms'"
  proof -
    have "digits_value 256 (map unat e) < 256 ^ 10" using digits_value_less [of "map unat e" 256] assms(1) by (simp add: byte_less)
    then have "unat ms * 256 ^ 10 + digits_value 256 (map unat e) < (unat ms + 1) * 256 ^ 10" by simp
    also have "\<dots> \<le> unat ms' * 256 ^ 10" using that by (intro mult_right_mono) auto
    finally show ?thesis using len assms by (simp add: New_def encode_less clock_bytes)
  qed
  moreover have "length (New ms e) = 26" using len by (simp add: New_def encode_digits length_ulid_digits)
  moreover have "New ms e = New ms' e'" if "ulid_bytes ms e = ulid_bytes ms' e'" using that by (simp add: New_def)
  ultimately show ?thesis using chars hd by blast
qed

theorem ulid_sortable_witness:
  "text_less (New 1 (replicate 10 255)) (New 2 (replicate 10 0))"
  using ulid_sortable [of "replicate 10 255" "replicate 10 0" 1 2] by simp

end
