(* ===== verification/Audit_Log.thy ===== *)
theory Audit_Log
  imports Signing Go_Time
begin

text \<open>
  \<open>internal/audit\<close>: the append-only, hash-chained decision log. Records and their hash,
  field encryption (AES-GCM is a parameter), the in-memory and the Postgres store, the
  listing with its cursor, and the asynchronous writer as a step relation. The lemmas show
  that every reachable log is a linear chain whose links verify, that what was appended is
  what is read back, that paging through a listing visits every matching record exactly once, and that a changed record
  fails its link.
\<close>

section \<open>Records\<close>

definition GenesisPrev :: string where "GenesisPrev = ''rh_genesis/1''"
definition recordHashPrefix :: string where "recordHashPrefix = ''rh_''"

record AuditRecord =
  ar_Seq :: int
  ar_DecisionID :: string
  ar_OrgID :: string
  ar_APIKeyID :: string
  ar_AgentID :: string
  ar_Action :: string
  ar_Amount :: string
  ar_Currency :: string
  ar_TargetType :: string
  ar_TargetID :: string
  ar_Jurisdiction :: string
  ar_Verdict :: VerdictC
  ar_PolicyVersionHash :: string
  ar_Explanation :: Explanation
  ar_Obligations :: "Obligation list"
  ar_Signature :: Signature
  ar_LatencyMs :: int
  ar_EvaluatedAt :: string
  ar_Shadow :: bool
  ar_PrevHash :: string
  ar_RecordHash :: string
  ar_RetainUntil :: gotime
  ar_CreatedAt :: gotime

definition RecordFromDecision :: "string \<Rightarrow> string \<Rightarrow> AuthorizeRequest \<Rightarrow> Decision \<Rightarrow> AuditRecord" where
  "RecordFromDecision orgID apiKeyID req dec =
     \<lparr>ar_Seq = 0, ar_DecisionID = dec_DecisionID dec, ar_OrgID = orgID, ar_APIKeyID = apiKeyID,
      ar_AgentID = req_AgentID req, ar_Action = req_Action req, ar_Amount = req_Amount req,
      ar_Currency = req_Currency req, ar_TargetType = TargetType_str (tgt_Type (req_Target req)),
      ar_TargetID = tgt_ID (req_Target req), ar_Jurisdiction = req_Jurisdiction req,
      ar_Verdict = dec_Verdict dec, ar_PolicyVersionHash = dec_PolicyVersionHash dec,
      ar_Explanation = dec_Explanation dec, ar_Obligations = dec_Obligations dec,
      ar_Signature = dec_Signature dec, ar_LatencyMs = dec_LatencyMs dec,
      ar_EvaluatedAt = dec_EvaluatedAt dec, ar_Shadow = dec_Shadow dec,
      ar_PrevHash = [], ar_RecordHash = [], ar_RetainUntil = 0, ar_CreatedAt = 0\<rparr>"

definition Record_Decision :: "AuditRecord \<Rightarrow> bool \<Rightarrow> Decision" where
  "Record_Decision r signatureVerified =
     \<lparr>dec_DecisionID = ar_DecisionID r, dec_Verdict = ar_Verdict r, dec_PolicyVersionHash = ar_PolicyVersionHash r,
      dec_Explanation = ar_Explanation r, dec_Obligations = ar_Obligations r, dec_LatencyMs = ar_LatencyMs r,
      dec_EvaluatedAt = ar_EvaluatedAt r, dec_Signature = ar_Signature r, dec_Shadow = ar_Shadow r,
      dec_RecordHash = ar_RecordHash r, dec_SignatureVerified = Some signatureVerified\<rparr>"

definition json_of_Signature :: "Signature \<Rightarrow> json" where
  "json_of_Signature s = JsonObj
     [(''algorithm'', JsonString (sig_Algorithm s)), (''key_id'', JsonString (sig_KeyID s)),
      (''value'', JsonString (sig_Value s)), (''canonicalization'', JsonString (sig_Canonicalization s))]"

definition hashView :: "string \<Rightarrow> AuditRecord \<Rightarrow> json" where
  "hashView prev r = JsonObj
     [(''prev_hash'', JsonString prev),
      (''decision_id'', JsonString (ar_DecisionID r)),
      (''org_id'', JsonString (ar_OrgID r)),
      (''api_key_id'', JsonString (ar_APIKeyID r)),
      (''agent_id'', JsonString (ar_AgentID r)),
      (''action'', JsonString (ar_Action r)),
      (''amount'', JsonString (ar_Amount r)),
      (''currency'', JsonString (ar_Currency r)),
      (''target_type'', JsonString (ar_TargetType r)),
      (''target_id'', JsonString (ar_TargetID r)),
      (''jurisdiction'', JsonString (ar_Jurisdiction r)),
      (''verdict'', JsonString (Verdict_str (ar_Verdict r))),
      (''policy_version_hash'', JsonString (ar_PolicyVersionHash r)),
      (''explanation'', json_of_Explanation (ar_Explanation r)),
      (''obligations'', JsonArr (map json_of_Obligation (ar_Obligations r))),
      (''signature'', json_of_Signature (ar_Signature r)),
      (''latency_ms'', JsonNum (ar_LatencyMs r)),
      (''evaluated_at'', JsonString (ar_EvaluatedAt r)),
      (''shadow'', JsonBool (ar_Shadow r))]"

datatype audit_error =
    ErrAuditNotFound | ErrHashView | ErrEncrypt string | ErrDecrypt string | ErrAuditStore string

definition ComputeRecordHash :: "crypto \<Rightarrow> string \<Rightarrow> AuditRecord \<Rightarrow> audit_error + string" where
  "ComputeRecordHash c prev r =
     (case jcs_Transform c (hashView prev r) of
        None \<Rightarrow> Inl ErrHashView
      | Some canon \<Rightarrow> Inr (recordHashPrefix @ hex_encode (sha256_Sum c canon)))"

definition VerifyChainLink :: "crypto \<Rightarrow> AuditRecord \<Rightarrow> audit_error + bool" where
  "VerifyChainLink c r =
     (case ComputeRecordHash c (ar_PrevHash r) r of
        Inl e \<Rightarrow> Inl e
      | Inr want \<Rightarrow> Inr (want = ar_RecordHash r))"

section \<open>Field encryption\<close>

text \<open>The fresh nonce of an encryption is its first argument.\<close>

record Encryptor =
  en_Encrypt :: "string \<Rightarrow> string \<Rightarrow> audit_error + string"
  en_Decrypt :: "string \<Rightarrow> audit_error + string"

definition cipherPrefix :: string where "cipherPrefix = ''enc:v1:''"

definition NopEncryptor :: Encryptor where
  "NopEncryptor =
     \<lparr>en_Encrypt = (\<lambda>_ plaintext. Inr plaintext),
      en_Decrypt = (\<lambda>stored. if HasPrefix stored cipherPrefix
         then Inl (ErrDecrypt ''value is encrypted but no encryption key is configured'') else Inr stored)\<rparr>"

text \<open>\<open>base64.StdEncoding\<close>: the standard alphabet with padding. Decoding skips line breaks
  and wants full groups.\<close>

definition std_char :: "char \<Rightarrow> char" where
  "std_char c = (if c = CHR ''-'' then CHR ''+'' else if c = CHR ''_'' then CHR ''/'' else c)"

definition url_char :: "char \<Rightarrow> char option" where
  "url_char c = (if c = CHR ''+'' then Some (CHR ''-'') else if c = CHR ''/'' then Some (CHR ''_'')
     else if c = CHR ''-'' \<or> c = CHR ''_'' then None else Some c)"

definition b64std_encode :: "string \<Rightarrow> string" where
  "b64std_encode s =
     (let e = map std_char (b64_encode s)
      in e @ replicate ((4 - length e mod 4) mod 4) (CHR ''=''))"

definition b64std_decode :: "string \<Rightarrow> string option" where
  "b64std_decode s =
     (let t = filter (\<lambda>c. c \<noteq> CHR 0x0A \<and> c \<noteq> CHR 0x0D) s;
          body = rev (dropWhile (\<lambda>c. c = CHR ''='') (rev t)) in
      if length t mod 4 \<noteq> 0 \<or> length t - length body > 2 then None
      else if list_all (\<lambda>c. url_char c \<noteq> None) body
      then b64_decode (map (\<lambda>c. the (url_char c)) body) else None)"

record aead =
  gcm_Seal :: "string \<Rightarrow> string \<Rightarrow> string \<Rightarrow> string"
  gcm_Open :: "string \<Rightarrow> string \<Rightarrow> string \<Rightarrow> string option"

definition gcm_NonceSize :: nat where "gcm_NonceSize = 12"

definition NewAESGCM :: "aead \<Rightarrow> string \<Rightarrow> audit_error + Encryptor" where
  "NewAESGCM g key =
     (if length key \<noteq> 32 then Inl (ErrEncrypt ''encryption key must be 32 bytes'')
      else Inr
        \<lparr>en_Encrypt = (\<lambda>nonce plaintext.
           if length nonce \<noteq> gcm_NonceSize then Inl (ErrEncrypt ''nonce'')
           else Inr (cipherPrefix @ b64std_encode (nonce @ gcm_Seal g key nonce plaintext))),
         en_Decrypt = (\<lambda>stored.
           if \<not> HasPrefix stored cipherPrefix then Inr stored
           else case b64std_decode (drop (length cipherPrefix) stored) of
                  None \<Rightarrow> Inl (ErrDecrypt ''decode ciphertext'')
                | Some raw \<Rightarrow>
                    if length raw < gcm_NonceSize then Inl (ErrDecrypt ''ciphertext too short'')
                    else case gcm_Open g key (take gcm_NonceSize raw) (drop gcm_NonceSize raw) of
                           None \<Rightarrow> Inl (ErrDecrypt ''decrypt'')
                         | Some pt \<Rightarrow> Inr pt)\<rparr>)"

type_synonym entropy3 = "string \<times> string \<times> string"

definition encryptInto :: "Encryptor \<Rightarrow> entropy3 \<Rightarrow> AuditRecord \<Rightarrow> audit_error + AuditRecord" where
  "encryptInto enc ns r =
     (case ns of (n1, n2, n3) \<Rightarrow>
      case en_Encrypt enc n1 (ar_Amount r) of Inl e \<Rightarrow> Inl e | Inr a \<Rightarrow>
      case en_Encrypt enc n2 (ar_TargetType r) of Inl e \<Rightarrow> Inl e | Inr t \<Rightarrow>
      case en_Encrypt enc n3 (ar_TargetID r) of Inl e \<Rightarrow> Inl e | Inr i \<Rightarrow>
      Inr (r\<lparr>ar_Amount := a, ar_TargetType := t, ar_TargetID := i\<rparr>))"

definition decryptInto :: "Encryptor \<Rightarrow> AuditRecord \<Rightarrow> audit_error + AuditRecord" where
  "decryptInto enc r =
     (case en_Decrypt enc (ar_Amount r) of Inl e \<Rightarrow> Inl e | Inr a \<Rightarrow>
      case en_Decrypt enc (ar_TargetType r) of Inl e \<Rightarrow> Inl e | Inr t \<Rightarrow>
      case en_Decrypt enc (ar_TargetID r) of Inl e \<Rightarrow> Inl e | Inr i \<Rightarrow>
      Inr (r\<lparr>ar_Amount := a, ar_TargetType := t, ar_TargetID := i\<rparr>))"

section \<open>Listing\<close>

record Filter =
  fl_AgentID :: string
  fl_Verdict :: string
  fl_From :: gotime
  fl_To :: gotime
  fl_Limit :: int
  fl_Cursor :: int

record Page =
  pg_Records :: "AuditRecord list"
  pg_NextCursor :: int

definition DefaultListLimit :: int where "DefaultListLimit = 50"
definition MaxListLimit :: int where "MaxListLimit = 200"

definition clampLimit :: "int \<Rightarrow> int" where
  "clampLimit n = (if n \<le> 0 then DefaultListLimit else if n > MaxListLimit then MaxListLimit else n)"

definition matches :: "AuditRecord \<Rightarrow> Filter \<Rightarrow> bool" where
  "matches r f =
     (if fl_AgentID f \<noteq> [] \<and> ar_AgentID r \<noteq> fl_AgentID f then False
      else if fl_Verdict f \<noteq> [] \<and> Verdict_str (ar_Verdict r) \<noteq> fl_Verdict f then False
      else if \<not> time_IsZero (fl_From f) \<or> \<not> time_IsZero (fl_To f)
      then (case parse_RFC3339 (ar_EvaluatedAt r) of
              None \<Rightarrow> False
            | Some ts \<Rightarrow> \<not> (\<not> time_IsZero (fl_From f) \<and> ts < fl_From f) \<and> \<not> (\<not> time_IsZero (fl_To f) \<and> \<not> ts < fl_To f))
      else True)"

section \<open>The in-memory store\<close>

record MemAudit =
  ma_seq :: int
  ma_byOrg :: "string \<Rightarrow> AuditRecord list"

definition NewMemAudit :: MemAudit where
  "NewMemAudit = \<lparr>ma_seq = 0, ma_byOrg = (\<lambda>_. [])\<rparr>"

text \<open>\<open>Append\<close> answers with the caller's record, its chain fields filled in. The sequence
  number is taken before the encryption, which may fail.\<close>

definition chain_prev :: "AuditRecord list \<Rightarrow> string" where
  "chain_prev rs = (if rs = [] then GenesisPrev else ar_RecordHash (last rs))"

definition MemAudit_Append ::
  "crypto \<Rightarrow> Encryptor \<Rightarrow> gotime \<Rightarrow> entropy3 \<Rightarrow> AuditRecord \<Rightarrow> MemAudit \<Rightarrow> (audit_error + AuditRecord) \<times> MemAudit" where
  "MemAudit_Append c enc now ns r m =
     (if list_ex (\<lambda>ex. ar_DecisionID ex = ar_DecisionID r) (ma_byOrg m (ar_OrgID r)) then (Inr r, m)
      else let prev = chain_prev (ma_byOrg m (ar_OrgID r)) in
        (case ComputeRecordHash c prev r of
           Inl e \<Rightarrow> (Inl e, m)
         | Inr hash \<Rightarrow>
             let m1 = m\<lparr>ma_seq := ma_seq m + 1\<rparr>;
                 stored = r\<lparr>ar_Seq := ma_seq m + 1, ar_PrevHash := prev, ar_RecordHash := hash,
                            ar_CreatedAt := (if time_IsZero (ar_CreatedAt r) then now else ar_CreatedAt r)\<rparr>
             in (case encryptInto enc ns stored of
                   Inl e \<Rightarrow> (Inl e, m1)
                 | Inr sealed \<Rightarrow>
                     (Inr stored, m1\<lparr>ma_byOrg := (ma_byOrg m1)(ar_OrgID r := ma_byOrg m1 (ar_OrgID r) @ [sealed])\<rparr>))))"

definition MemAudit_Get :: "Encryptor \<Rightarrow> string \<Rightarrow> string \<Rightarrow> MemAudit \<Rightarrow> audit_error + AuditRecord" where
  "MemAudit_Get enc orgID decisionID m =
     (case find (\<lambda>ex. ar_DecisionID ex = decisionID) (ma_byOrg m orgID) of
        None \<Rightarrow> Inl ErrAuditNotFound
      | Some ex \<Rightarrow> decryptInto enc ex)"

text \<open>The loop over the records, newest first, with the page so far.\<close>

fun List_loop :: "Encryptor \<Rightarrow> Filter \<Rightarrow> int \<Rightarrow> AuditRecord list \<Rightarrow> AuditRecord list \<Rightarrow> audit_error + Page" where
  "List_loop enc f limit [] acc = Inr \<lparr>pg_Records = acc, pg_NextCursor = 0\<rparr>"
| "List_loop enc f limit (ex # rest) acc =
     (if fl_Cursor f > 0 \<and> ar_Seq ex \<ge> fl_Cursor f then List_loop enc f limit rest acc
      else if \<not> matches ex f then List_loop enc f limit rest acc
      else if int (length acc) = limit then Inr \<lparr>pg_Records = acc, pg_NextCursor = ar_Seq (last acc)\<rparr>
      else case decryptInto enc ex of
             Inl e \<Rightarrow> Inl e
           | Inr out \<Rightarrow> List_loop enc f limit rest (acc @ [out]))"

definition MemAudit_List :: "Encryptor \<Rightarrow> string \<Rightarrow> Filter \<Rightarrow> MemAudit \<Rightarrow> audit_error + Page" where
  "MemAudit_List enc orgID f m =
     List_loop enc f (clampLimit (fl_Limit f)) (sort_key (\<lambda>r. - ar_Seq r) (ma_byOrg m orgID)) []"

text \<open>\<open>Mutate\<close>, the tamper helper of the tests: the first record with the id is changed in place.\<close>

fun mutate_first :: "string \<Rightarrow> (AuditRecord \<Rightarrow> AuditRecord) \<Rightarrow> AuditRecord list \<Rightarrow> AuditRecord list \<times> bool" where
  "mutate_first d fn [] = ([], False)"
| "mutate_first d fn (ex # rest) =
     (if ar_DecisionID ex = d then (fn ex # rest, True)
      else case mutate_first d fn rest of (rest', b) \<Rightarrow> (ex # rest', b))"

definition MemAudit_Mutate :: "string \<Rightarrow> string \<Rightarrow> (AuditRecord \<Rightarrow> AuditRecord) \<Rightarrow> MemAudit \<Rightarrow> bool \<times> MemAudit" where
  "MemAudit_Mutate orgID decisionID fn m =
     (case mutate_first decisionID fn (ma_byOrg m orgID) of
        (rs, b) \<Rightarrow> (b, m\<lparr>ma_byOrg := (ma_byOrg m)(orgID := rs)\<rparr>))"

section \<open>The Postgres store\<close>

text \<open>
  The \<open>decisions\<close> table (\<open>deploy/migrations/0002_decisions.sql\<close>): rows in insertion order, the
  \<open>BIGSERIAL\<close> that every insert attempt draws from, the verdict check and the two unique indexes. An
  append runs in one transaction under the organisation's advisory lock, so it is one step;
  \<open>pa_up\<close> says whether the database answers. JSON columns give back what was stored.
\<close>

record audit_row =
  aw_rec :: AuditRecord
  aw_evalTS :: gotime

record PgAudit =
  pa_up :: bool
  pa_seq :: int
  pa_rows :: "audit_row list"

definition NewPgAudit :: PgAudit where
  "NewPgAudit = \<lparr>pa_up = True, pa_seq = 0, pa_rows = []\<rparr>"

definition org_rows :: "PgAudit \<Rightarrow> string \<Rightarrow> audit_row list" where
  "org_rows s org = filter (\<lambda>w. ar_OrgID (aw_rec w) = org) (pa_rows s)"

definition parseEvalTS :: "gotime \<Rightarrow> string \<Rightarrow> gotime" where
  "parseEvalTS now t = (case parse_RFC3339 t of Some ts \<Rightarrow> ts | None \<Rightarrow> now)"

definition verdict_ok :: "VerdictC \<Rightarrow> bool" where
  "verdict_ok v \<longleftrightarrow> Verdict_str v \<in> {''APPROVE'', ''DENY'', ''REVIEW''}"

text \<open>The insert: \<open>Inr None\<close> is a conflict on the decision id, which changes nothing but the
  sequence.\<close>

definition pa_insert :: "AuditRecord \<Rightarrow> gotime \<Rightarrow> gotime \<Rightarrow> PgAudit \<Rightarrow> (audit_error + int option) \<times> PgAudit" where
  "pa_insert sealed evalTS created s =
     (let q = pa_seq s + 1; s1 = s\<lparr>pa_seq := q\<rparr>; same = org_rows s (ar_OrgID sealed) in
      if \<not> verdict_ok (ar_Verdict sealed) then (Inl (ErrAuditStore ''audit: insert''), s1)
      else if list_ex (\<lambda>w. ar_DecisionID (aw_rec w) = ar_DecisionID sealed) same then (Inr None, s1)
      else if list_ex (\<lambda>w. ar_PrevHash (aw_rec w) = ar_PrevHash sealed) same
      then (Inl (ErrAuditStore ''audit: insert''), s1)
      else (Inr (Some q),
            s1\<lparr>pa_rows := pa_rows s @ [\<lparr>aw_rec = sealed\<lparr>ar_Seq := q, ar_CreatedAt := created\<rparr>, aw_evalTS = evalTS\<rparr>]\<rparr>))"

definition PgAudit_Append ::
  "crypto \<Rightarrow> Encryptor \<Rightarrow> gotime \<times> gotime \<Rightarrow> entropy3 \<Rightarrow> AuditRecord \<Rightarrow> PgAudit \<Rightarrow> (audit_error + AuditRecord) \<times> PgAudit" where
  "PgAudit_Append c enc clk ns r s =
     (case clk of (now, db_now) \<Rightarrow>
      if \<not> pa_up s then (Inl (ErrAuditStore ''audit: begin''), s)
      else let prev = chain_prev (map aw_rec (org_rows s (ar_OrgID r))) in
        (case ComputeRecordHash c prev r of
           Inl e \<Rightarrow> (Inl e, s)
         | Inr hash \<Rightarrow>
             (case encryptInto enc ns (r\<lparr>ar_PrevHash := prev, ar_RecordHash := hash\<rparr>) of
                Inl e \<Rightarrow> (Inl e, s)
              | Inr sealed \<Rightarrow>
                  (case pa_insert sealed (parseEvalTS now (ar_EvaluatedAt r)) db_now s of
                     (Inl e, s1) \<Rightarrow> (Inl e, s1)
                   | (Inr None, s1) \<Rightarrow> (Inr r, s1)
                   | (Inr (Some q), s1) \<Rightarrow>
                       (Inr (r\<lparr>ar_Seq := q, ar_PrevHash := prev, ar_RecordHash := hash, ar_CreatedAt := db_now\<rparr>), s1)))))"

definition PgAudit_Get :: "Encryptor \<Rightarrow> string \<Rightarrow> string \<Rightarrow> PgAudit \<Rightarrow> audit_error + AuditRecord" where
  "PgAudit_Get enc orgID decisionID s =
     (if \<not> pa_up s then Inl (ErrAuditStore ''audit: get'')
      else case find (\<lambda>w. ar_DecisionID (aw_rec w) = decisionID) (org_rows s orgID) of
             None \<Rightarrow> Inl ErrAuditNotFound
           | Some w \<Rightarrow> decryptInto enc (aw_rec w))"

definition row_matches :: "audit_row \<Rightarrow> Filter \<Rightarrow> bool" where
  "row_matches w f \<longleftrightarrow>
     (fl_AgentID f \<noteq> [] \<longrightarrow> ar_AgentID (aw_rec w) = fl_AgentID f) \<and>
     (fl_Verdict f \<noteq> [] \<longrightarrow> Verdict_str (ar_Verdict (aw_rec w)) = fl_Verdict f) \<and>
     (\<not> time_IsZero (fl_From f) \<longrightarrow> fl_From f \<le> aw_evalTS w) \<and>
     (\<not> time_IsZero (fl_To f) \<longrightarrow> aw_evalTS w < fl_To f) \<and>
     (fl_Cursor f > 0 \<longrightarrow> ar_Seq (aw_rec w) < fl_Cursor f)"

fun scan_rows :: "Encryptor \<Rightarrow> AuditRecord list \<Rightarrow> audit_error + AuditRecord list" where
  "scan_rows enc [] = Inr []"
| "scan_rows enc (r # rs) =
     (case decryptInto enc r of
        Inl e \<Rightarrow> Inl e
      | Inr x \<Rightarrow> (case scan_rows enc rs of Inl e \<Rightarrow> Inl e | Inr xs \<Rightarrow> Inr (x # xs)))"

definition PgAudit_List :: "Encryptor \<Rightarrow> string \<Rightarrow> Filter \<Rightarrow> PgAudit \<Rightarrow> audit_error + Page" where
  "PgAudit_List enc orgID f s =
     (if \<not> pa_up s then Inl (ErrAuditStore ''audit: list query'')
      else let limit = nat (clampLimit (fl_Limit f));
               rows = take (limit + 1) (sort_key (\<lambda>r. - ar_Seq r)
                        (map aw_rec (filter (\<lambda>w. row_matches w f) (org_rows s orgID))))
           in (case scan_rows enc rows of
                 Inl e \<Rightarrow> Inl e
               | Inr recs \<Rightarrow>
                   if length recs > limit
                   then Inr \<lparr>pg_Records = take limit recs, pg_NextCursor = ar_Seq (last (take limit recs))\<rparr>
                   else Inr \<lparr>pg_Records = recs, pg_NextCursor = 0\<rparr>))"

section \<open>Sealing and opening\<close>

text \<open>What the stores rely on of an encryptor, for the plaintexts in \<open>plain\<close>.\<close>

definition encryptor_ok :: "Encryptor \<Rightarrow> (string \<Rightarrow> bool) \<Rightarrow> bool" where
  "encryptor_ok enc plain \<longleftrightarrow> (\<forall>n x y. en_Encrypt enc n x = Inr y \<longrightarrow> plain x \<longrightarrow> en_Decrypt enc y = Inr x)"

definition plain_record :: "(string \<Rightarrow> bool) \<Rightarrow> AuditRecord \<Rightarrow> bool" where
  "plain_record plain r \<longleftrightarrow> plain (ar_Amount r) \<and> plain (ar_TargetType r) \<and> plain (ar_TargetID r)"

lemma encryptInto_Inr:
  assumes "encryptInto enc ns r = Inr x"
  obtains a t i n1 n2 n3 where "ns = (n1, n2, n3)" "en_Encrypt enc n1 (ar_Amount r) = Inr a"
    "en_Encrypt enc n2 (ar_TargetType r) = Inr t" "en_Encrypt enc n3 (ar_TargetID r) = Inr i"
    "x = r\<lparr>ar_Amount := a, ar_TargetType := t, ar_TargetID := i\<rparr>"
  using assms by (cases ns) (auto simp: encryptInto_def split: sum.splits)

lemma decrypt_encrypt:
  assumes "encryptor_ok enc plain" and "plain_record plain r" and "encryptInto enc ns r = Inr x"
  shows "decryptInto enc x = Inr r"
proof -
  from assms(3) obtain a t i n1 n2 n3 where
    "en_Encrypt enc n1 (ar_Amount r) = Inr a" "en_Encrypt enc n2 (ar_TargetType r) = Inr t"
    "en_Encrypt enc n3 (ar_TargetID r) = Inr i" and x: "x = r\<lparr>ar_Amount := a, ar_TargetType := t, ar_TargetID := i\<rparr>"
    by (rule encryptInto_Inr)
  with assms(1,2) have "en_Decrypt enc a = Inr (ar_Amount r)" "en_Decrypt enc t = Inr (ar_TargetType r)"
    "en_Decrypt enc i = Inr (ar_TargetID r)" unfolding encryptor_ok_def plain_record_def by blast+
  then show ?thesis by (simp add: decryptInto_def x)
qed

text \<open>Storage metadata is not encrypted: it commutes with sealing.\<close>

lemma encryptInto_meta:
  "encryptInto enc ns (r\<lparr>ar_Seq := q\<rparr>) = map_sum id (\<lambda>x. x\<lparr>ar_Seq := q\<rparr>) (encryptInto enc ns r)"
  "encryptInto enc ns (r\<lparr>ar_CreatedAt := t\<rparr>) = map_sum id (\<lambda>x. x\<lparr>ar_CreatedAt := t\<rparr>) (encryptInto enc ns r)"
  by (cases ns; auto simp: encryptInto_def split: sum.splits)+

definition meta :: "AuditRecord \<Rightarrow> int \<times> string \<times> string \<times> string \<times> string" where
  "meta r = (ar_Seq r, ar_DecisionID r, ar_OrgID r, ar_PrevHash r, ar_RecordHash r)"

lemma encrypt_keeps_meta: "encryptInto enc ns r = Inr x \<Longrightarrow> meta x = meta r"
  by (erule encryptInto_Inr) (simp add: meta_def)

lemma decrypt_keeps_meta: "decryptInto enc x = Inr r \<Longrightarrow> meta r = meta x"
  by (auto simp: decryptInto_def meta_def split: sum.splits)

lemma NopEncryptor_ok: "encryptor_ok NopEncryptor (\<lambda>x. \<not> HasPrefix x cipherPrefix)"
  by (simp add: encryptor_ok_def NopEncryptor_def)

subsection \<open>AES-GCM\<close>

lemma b64_encode_length: "length (b64_encode s) mod 4 \<noteq> 1"
  by (induction s rule: b64_encode.induct) auto

lemma b64_char_alphabet: "n < 64 \<Longrightarrow> b64_char n \<in> set b64_alphabet"
  using b64_alphabet_facts by (simp add: b64_char_def)

lemma b64_encode_alphabet: "c \<in> set (b64_encode s) \<Longrightarrow> c \<in> set b64_alphabet"
proof (induction s rule: b64_encode.induct)
  case (2 a)
  then show ?case using b64_char_alphabet byte_val_less [of a] by (auto simp: less_mult_imp_div_less)
next
  case (3 a b)
  then show ?case using b64_char_alphabet sextets by auto
next
  case (4 a b c r)
  then show ?case using b64_char_alphabet sextets by auto
qed simp

lemma std_char_alphabet:
  assumes "c \<in> set b64_alphabet"
  shows "url_char (std_char c) = Some c" "std_char c \<noteq> CHR ''=''" "std_char c \<noteq> CHR 0x0A" "std_char c \<noteq> CHR 0x0D"
  using assms by (auto simp: b64_alphabet_def std_char_def url_char_def)

lemma pad_arith:
  fixes n :: nat
  assumes "n mod 4 \<noteq> 1"
  shows "(4 - n mod 4) mod 4 \<le> 2" "(n + (4 - n mod 4) mod 4) mod 4 = 0"
proof -
  have "n mod 4 < 4" by simp
  with assms consider "n mod 4 = 0" | "n mod 4 = 2" | "n mod 4 = 3" by linarith
  then have "(4 - n mod 4) mod 4 \<le> 2 \<and> (n mod 4 + (4 - n mod 4) mod 4) mod 4 = 0" by cases simp_all
  then show "(4 - n mod 4) mod 4 \<le> 2" "(n + (4 - n mod 4) mod 4) mod 4 = 0"
    unfolding mod_add_left_eq by blast+
qed

lemma b64std_decode_encode: "b64std_decode (b64std_encode s) = Some s"
proof -
  let ?e = "map std_char (b64_encode s)" and ?p = "(4 - length (b64_encode s) mod 4) mod 4"
  have all: "\<forall>c \<in> set (b64_encode s). url_char (std_char c) = Some c \<and> std_char c \<noteq> CHR ''='' \<and> std_char c \<noteq> CHR 0x0A \<and> std_char c \<noteq> CHR 0x0D"
    using std_char_alphabet b64_encode_alphabet by blast
  have f: "filter (\<lambda>c. c \<noteq> CHR 0x0A \<and> c \<noteq> CHR 0x0D) (?e @ replicate ?p (CHR ''='')) = ?e @ replicate ?p (CHR ''='')"
    using all by (intro filter_True) auto
  have "CHR ''='' \<notin> set (rev ?e)" using all by auto
  then have "dropWhile (\<lambda>c. c = CHR ''='') (rev ?e) = rev ?e"
    by (cases "rev ?e") auto
  then have body: "rev (dropWhile (\<lambda>c. c = CHR ''='') (rev (?e @ replicate ?p (CHR ''='')))) = ?e"
    by (subst rev_append, subst dropWhile_append2) (simp_all add: rev_map [symmetric])
  have "?p \<le> 2" "(length (b64_encode s) + ?p) mod 4 = 0" by (rule pad_arith [OF b64_encode_length])+
  moreover have "map (\<lambda>c. the (url_char c)) ?e = b64_encode s" using all by (simp add: map_idI)
  moreover have "list_all (\<lambda>c. url_char c \<noteq> None) ?e" using all by (auto simp: list_all_iff)
  ultimately show ?thesis unfolding b64std_decode_def b64std_encode_def Let_def length_map f body by simp
qed

text \<open>Documented behaviour of \<open>crypto/cipher\<close>: opening what was sealed gives the plaintext.\<close>

definition gcm_ok :: "aead \<Rightarrow> bool" where
  "gcm_ok g \<longleftrightarrow> (\<forall>k n p. gcm_Open g k n (gcm_Seal g k n p) = Some p)"

lemma AESGCM_ok:
  assumes "gcm_ok g" and "NewAESGCM g key = Inr enc"
  shows "encryptor_ok enc (\<lambda>_. True)"
  unfolding encryptor_ok_def
proof (intro allI impI)
  fix n x y assume "en_Encrypt enc n x = Inr y"
  with assms(2) have n: "length n = gcm_NonceSize" and y: "y = cipherPrefix @ b64std_encode (n @ gcm_Seal g key n x)"
    by (auto simp: NewAESGCM_def split: if_splits)
  from assms n show "en_Decrypt enc y = Inr x"
    by (auto simp: NewAESGCM_def y b64std_decode_encode gcm_ok_def split: if_splits)
qed

section \<open>The log\<close>

text \<open>A chain: every record opens, links to the one before, and its hash is the hash of its
  contents.\<close>

fun chain_ok :: "crypto \<Rightarrow> Encryptor \<Rightarrow> string \<Rightarrow> AuditRecord list \<Rightarrow> bool" where
  "chain_ok c enc prev [] = True"
| "chain_ok c enc prev (x # xs) =
     (case decryptInto enc x of
        Inl _ \<Rightarrow> False
      | Inr r \<Rightarrow> ar_PrevHash r = prev \<and> VerifyChainLink c r = Inr True \<and> chain_ok c enc (ar_RecordHash r) xs)"

definition org_log_ok :: "crypto \<Rightarrow> Encryptor \<Rightarrow> int \<Rightarrow> string \<Rightarrow> AuditRecord list \<Rightarrow> bool" where
  "org_log_ok c enc q org l \<longleftrightarrow>
     chain_ok c enc GenesisPrev l \<and>
     sorted_wrt (<) (map ar_Seq l) \<and> (\<forall>x \<in> set l. 0 < ar_Seq x \<and> ar_Seq x \<le> q \<and> ar_OrgID x = org) \<and>
     distinct (map ar_DecisionID l)"

definition log_ok :: "crypto \<Rightarrow> Encryptor \<Rightarrow> int \<Rightarrow> (string \<Rightarrow> AuditRecord list) \<Rightarrow> bool" where
  "log_ok c enc q lg \<longleftrightarrow> (\<forall>org. org_log_ok c enc q org (lg org))"

lemma chain_ok_snoc:
  "chain_ok c enc prev (xs @ [x]) \<longleftrightarrow> chain_ok c enc prev xs \<and>
     (\<exists>r. decryptInto enc x = Inr r \<and> ar_PrevHash r = (if xs = [] then prev else ar_RecordHash (last xs)) \<and>
        VerifyChainLink c r = Inr True)"
proof (induction xs arbitrary: prev)
  case (Cons y ys)
  show ?case
  proof (cases "decryptInto enc y")
    case (Inr r)
    from decrypt_keeps_meta [OF this] have "ar_RecordHash r = ar_RecordHash y" by (simp add: meta_def)
    with Inr Cons.IH [of "ar_RecordHash r"] show ?thesis by auto
  qed simp
qed (simp split: sum.splits)

text \<open>
  The contract of a store: an append leaves the log as it is, or adds to the end of the organisation's log
  a sealed copy of the record, chained to the tail, with a fresh sequence number; and \<open>Get\<close>
  opens the record with the id.
\<close>

definition appended :: "crypto \<Rightarrow> Encryptor \<Rightarrow> AuditRecord \<Rightarrow> int \<Rightarrow> int \<Rightarrow>
    (string \<Rightarrow> AuditRecord list) \<Rightarrow> (string \<Rightarrow> AuditRecord list) \<Rightarrow> AuditRecord \<Rightarrow> bool" where
  "appended c enc r q0 q1 lg lg' stored \<longleftrightarrow>
     (\<exists>q h t ns sealed.
        ComputeRecordHash c (chain_prev (lg (ar_OrgID r))) r = Inr h \<and>
        stored = r\<lparr>ar_Seq := q, ar_PrevHash := chain_prev (lg (ar_OrgID r)), ar_RecordHash := h, ar_CreatedAt := t\<rparr> \<and>
        encryptInto enc ns stored = Inr sealed \<and> q0 < q \<and> q \<le> q1 \<and>
        (\<forall>x \<in> set (lg (ar_OrgID r)). ar_DecisionID x \<noteq> ar_DecisionID r) \<and>
        lg' = lg(ar_OrgID r := lg (ar_OrgID r) @ [sealed]))"

lemma appendedI:
  assumes "ComputeRecordHash c (chain_prev (lg (ar_OrgID r))) r = Inr h"
    and "encryptInto enc ns (r\<lparr>ar_Seq := q, ar_PrevHash := chain_prev (lg (ar_OrgID r)), ar_RecordHash := h, ar_CreatedAt := t\<rparr>) = Inr x"
    and "q0 < q" and "q \<le> q1" and "\<forall>x \<in> set (lg (ar_OrgID r)). ar_DecisionID x \<noteq> ar_DecisionID r"
    and "lg' = lg(ar_OrgID r := lg (ar_OrgID r) @ [x])"
  shows "appended c enc r q0 q1 lg lg'
     (r\<lparr>ar_Seq := q, ar_PrevHash := chain_prev (lg (ar_OrgID r)), ar_RecordHash := h, ar_CreatedAt := t\<rparr>)"
  unfolding appended_def using assms by blast

lemma log_ok_mono: "log_ok c enc q lg \<Longrightarrow> q \<le> q' \<Longrightarrow> log_ok c enc q' lg"
  by (fastforce simp: log_ok_def org_log_ok_def)

lemma appended_log_ok:
  assumes "appended c enc r q0 q1 lg lg' stored" and ok: "log_ok c enc q0 lg" "0 \<le> q0"
    and enc: "encryptor_ok enc plain" "plain_record plain r"
  shows "log_ok c enc q1 lg' \<and> (\<exists>x. lg' = lg(ar_OrgID r := lg (ar_OrgID r) @ [x]) \<and> decryptInto enc x = Inr stored \<and>
     ar_DecisionID x = ar_DecisionID r)"
proof -
  let ?o = "ar_OrgID r" and ?p = "chain_prev (lg (ar_OrgID r))"
  from assms(1) obtain q h t ns x where h: "ComputeRecordHash c ?p r = Inr h"
      and st: "stored = r\<lparr>ar_Seq := q, ar_PrevHash := ?p, ar_RecordHash := h, ar_CreatedAt := t\<rparr>"
      and sl: "encryptInto enc ns stored = Inr x" and q: "q0 < q" "q \<le> q1"
      and fresh: "\<forall>x \<in> set (lg ?o). ar_DecisionID x \<noteq> ar_DecisionID r"
      and lg': "lg' = lg(?o := lg ?o @ [x])" unfolding appended_def by blast
  from enc(2) have "plain_record plain stored" by (simp add: st plain_record_def)
  from decrypt_encrypt [OF enc(1) this sl] have opened: "decryptInto enc x = Inr stored" .
  have "hashView ?p stored = hashView ?p r" by (simp add: hashView_def st)
  then have link: "VerifyChainLink c stored = Inr True" and prev: "ar_PrevHash stored = ?p"
    using h by (simp_all add: VerifyChainLink_def ComputeRecordHash_def st split: option.splits)
  have m: "ar_Seq x = q" "ar_DecisionID x = ar_DecisionID r" "ar_OrgID x = ?o"
    using encrypt_keeps_meta [OF sl] by (simp_all add: meta_def st)
  from ok(1) have old: "chain_ok c enc GenesisPrev (lg ?o)" "sorted_wrt (<) (map ar_Seq (lg ?o))"
      "\<forall>y \<in> set (lg ?o). 0 < ar_Seq y \<and> ar_Seq y \<le> q0 \<and> ar_OrgID y = ?o" "distinct (map ar_DecisionID (lg ?o))"
    unfolding log_ok_def org_log_ok_def by blast+
  have "chain_ok c enc GenesisPrev (lg ?o @ [x])"
    using old(1) opened link prev by (simp add: chain_ok_snoc chain_prev_def)
  moreover have "sorted_wrt (<) (map ar_Seq (lg ?o @ [x]))"
    using old(2,3) q m by (fastforce simp: sorted_wrt_append)
  moreover have "\<forall>y \<in> set (lg ?o @ [x]). 0 < ar_Seq y \<and> ar_Seq y \<le> q1 \<and> ar_OrgID y = ?o"
    using old(3) q m ok(2) by fastforce
  moreover have "distinct (map ar_DecisionID (lg ?o @ [x]))" using old(4) fresh m by fastforce
  ultimately have "org_log_ok c enc q1 ?o (lg ?o @ [x])" unfolding org_log_ok_def by blast
  with log_ok_mono [OF ok(1), of q1] q have "log_ok c enc q1 lg'" by (simp add: lg' log_ok_def)
  with opened m lg' show ?thesis by blast
qed

text \<open>A run of appends, each with its own environment.\<close>

primrec append_all :: "('e \<Rightarrow> AuditRecord \<Rightarrow> 's \<Rightarrow> (audit_error + AuditRecord) \<times> 's) \<Rightarrow> ('e \<times> AuditRecord) list \<Rightarrow> 's \<Rightarrow> 's" where
  "append_all app [] s = s"
| "append_all app (q # qs) s = append_all app qs (snd (app (fst q) (snd q) s))"

locale audit_store =
  fixes c :: crypto and enc :: Encryptor
    and Append :: "'e \<Rightarrow> AuditRecord \<Rightarrow> 's \<Rightarrow> (audit_error + AuditRecord) \<times> 's"
    and Get :: "string \<Rightarrow> string \<Rightarrow> 's \<Rightarrow> audit_error + AuditRecord"
    and log :: "'s \<Rightarrow> string \<Rightarrow> AuditRecord list" and seq :: "'s \<Rightarrow> int" and up :: "'s \<Rightarrow> bool"
  assumes append_cases: "Append env r s = (res, s') \<Longrightarrow> seq s \<le> seq s' \<and> up s' = up s \<and>
      (log s' = log s \<and> (case res of Inl _ \<Rightarrow> True | Inr _ \<Rightarrow> \<exists>x \<in> set (log s (ar_OrgID r)). ar_DecisionID x = ar_DecisionID r)
       \<or> (\<exists>stored. res = Inr stored \<and> appended c enc r (seq s) (seq s') (log s) (log s') stored))"
    and get_find: "up s \<Longrightarrow> Get org d s =
      (case find (\<lambda>x. ar_DecisionID x = d) (log s org) of None \<Rightarrow> Inl ErrAuditNotFound | Some x \<Rightarrow> decryptInto enc x)"
begin

lemma append_log_ok:
  assumes "log_ok c enc (seq s) (log s)" and "0 \<le> seq s" and "encryptor_ok enc plain" and "plain_record plain r"
    and "Append env r s = (res, s')"
  shows "log_ok c enc (seq s') (log s') \<and> 0 \<le> seq s' \<and> up s' = up s \<and> (\<exists>new. log s' org = log s org @ new)"
proof -
  from append_cases [OF assms(5)] have le: "seq s \<le> seq s'" "up s' = up s"
    and cs: "log s' = log s \<or> (\<exists>stored. appended c enc r (seq s) (seq s') (log s) (log s') stored)" by blast+
  from cs have "log_ok c enc (seq s') (log s') \<and> (\<exists>new. log s' org = log s org @ new)"
  proof
    assume "\<exists>stored. appended c enc r (seq s) (seq s') (log s) (log s') stored"
    with appended_log_ok [OF _ assms(1,2,3,4)] obtain x where "log_ok c enc (seq s') (log s')"
      "log s' = (log s)(ar_OrgID r := log s (ar_OrgID r) @ [x])" by blast
    then show ?thesis by simp
  qed (use log_ok_mono [OF assms(1) le(1)] in simp)
  with le assms(2) show ?thesis by simp
qed

lemma append_all_log_ok:
  assumes "encryptor_ok enc plain" and "\<forall>q \<in> set qs. plain_record plain (snd q)"
    and "log_ok c enc (seq s) (log s)" and "0 \<le> seq s"
  shows "log_ok c enc (seq (append_all Append qs s)) (log (append_all Append qs s)) \<and> 0 \<le> seq (append_all Append qs s) \<and>
    up (append_all Append qs s) = up s \<and> (\<exists>new. log (append_all Append qs s) org = log s org @ new)"
  using assms(2-4)
proof (induction qs arbitrary: s)
  case (Cons q qs)
  obtain res s' where a: "Append (fst q) (snd q) s = (res, s')" by (cases "Append (fst q) (snd q) s")
  have "log_ok c enc (seq s') (log s') \<and> 0 \<le> seq s' \<and> up s' = up s \<and> (\<exists>new. log s' org = log s org @ new)"
    by (rule append_log_ok [OF Cons.prems(2,3) assms(1) _ a]) (use Cons.prems(1) in simp)
  with Cons.IH [of s'] Cons.prems(1) a show ?case by auto
qed simp

text \<open>What an accepted append stored is what \<open>Get\<close> returns, now and after any further
  appends.\<close>

lemma find_append_left: "find P xs = Some x \<Longrightarrow> find P (xs @ ys) = Some x"
  by (induction xs) (auto split: if_splits)

lemma find_append_right: "\<forall>x \<in> set xs. \<not> P x \<Longrightarrow> P y \<Longrightarrow> find P (xs @ y # ys) = Some y"
  by (induction xs) auto

lemma append_get:
  assumes ok: "log_ok c enc (seq s) (log s)" "0 \<le> seq s" and enc: "encryptor_ok enc plain" "plain_record plain r"
    and app: "Append env r s = (Inr stored, s')" and fresh: "\<forall>x \<in> set (log s (ar_OrgID r)). ar_DecisionID x \<noteq> ar_DecisionID r"
    and later: "\<forall>q \<in> set qs. plain_record plain (snd q)" and "up s"
  shows "Get (ar_OrgID r) (ar_DecisionID r) (append_all Append qs s') = Inr stored \<and> VerifyChainLink c stored = Inr True"
proof -
  from append_cases [OF app] fresh have ap: "appended c enc r (seq s) (seq s') (log s) (log s') stored" by auto
  from appended_log_ok [OF this ok enc] obtain x where l': "log_ok c enc (seq s') (log s')"
    and lg: "log s' = (log s)(ar_OrgID r := log s (ar_OrgID r) @ [x])"
    and x: "decryptInto enc x = Inr stored" "ar_DecisionID x = ar_DecisionID r" by blast
  from append_log_ok [OF ok enc app] \<open>up s\<close> have s': "0 \<le> seq s'" "up s'" by blast+
  from append_all_log_ok [OF enc(1) later l' s'(1), of "ar_OrgID r"] obtain new where
    "log (append_all Append qs s') (ar_OrgID r) = log s' (ar_OrgID r) @ new" "up (append_all Append qs s')"
    using s'(2) by auto
  moreover have "find (\<lambda>y. ar_DecisionID y = ar_DecisionID r) (log s (ar_OrgID r) @ x # new) = Some x"
    using fresh x(2) by (intro find_append_right) auto
  ultimately have "Get (ar_OrgID r) (ar_DecisionID r) (append_all Append qs s') = Inr stored"
    using get_find x(1) lg by simp
  moreover have "chain_ok c enc GenesisPrev (log s (ar_OrgID r) @ [x])" using l' lg unfolding log_ok_def org_log_ok_def by (metis fun_upd_same)
  then have "VerifyChainLink c stored = Inr True" using x(1) by (auto simp: chain_ok_snoc)
  ultimately show ?thesis by blast
qed

end

subsection \<open>Both stores keep the contract\<close>

lemma MemAudit_append_cases:
  assumes "MemAudit_Append c enc now ns r m = (res, m')"
  shows "ma_seq m \<le> ma_seq m' \<and>
      (ma_byOrg m' = ma_byOrg m \<and>
         (case res of Inl _ \<Rightarrow> True | Inr _ \<Rightarrow> \<exists>x \<in> set (ma_byOrg m (ar_OrgID r)). ar_DecisionID x = ar_DecisionID r)
       \<or> (\<exists>stored. res = Inr stored \<and> appended c enc r (ma_seq m) (ma_seq m') (ma_byOrg m) (ma_byOrg m') stored))"
proof (cases "list_ex (\<lambda>ex. ar_DecisionID ex = ar_DecisionID r) (ma_byOrg m (ar_OrgID r))")
  case True
  with assms show ?thesis by (auto simp: MemAudit_Append_def list_ex_iff)
next
  case fresh: False
  let ?p = "chain_prev (ma_byOrg m (ar_OrgID r))"
  show ?thesis
  proof (cases "ComputeRecordHash c ?p r")
    case (Inr h)
    let ?t = "if time_IsZero (ar_CreatedAt r) then now else ar_CreatedAt r"
    let ?st = "r\<lparr>ar_Seq := ma_seq m + 1, ar_PrevHash := ?p, ar_RecordHash := h, ar_CreatedAt := ?t\<rparr>"
    show ?thesis
    proof (cases "encryptInto enc ns ?st")
      case (Inr x)
      with assms fresh \<open>ComputeRecordHash c ?p r = Inr h\<close> have "res = Inr ?st"
        and m': "m' = m\<lparr>ma_seq := ma_seq m + 1, ma_byOrg := (ma_byOrg m)(ar_OrgID r := ma_byOrg m (ar_OrgID r) @ [x])\<rparr>"
        by (auto simp: MemAudit_Append_def Let_def)
      moreover have "appended c enc r (ma_seq m) (ma_seq m') (ma_byOrg m) (ma_byOrg m') ?st"
        using fresh m' by (intro appendedI [where lg = "ma_byOrg m", OF \<open>ComputeRecordHash c ?p r = Inr h\<close> Inr]) (simp_all add: list_ex_iff)
      ultimately show ?thesis by simp
    next
      case (Inl e)
      with assms fresh \<open>ComputeRecordHash c ?p r = Inr h\<close> have "res = Inl e \<and> m' = m\<lparr>ma_seq := ma_seq m + 1\<rparr>"
        by (auto simp: MemAudit_Append_def Let_def)
      then show ?thesis by simp
    qed
  qed (use assms fresh in \<open>auto simp: MemAudit_Append_def\<close>)
qed

interpretation mem_audit: audit_store c enc "\<lambda>e. MemAudit_Append c enc (fst e) (snd e)" "MemAudit_Get enc"
    ma_byOrg ma_seq "\<lambda>_. True" for c enc
proof
  show "MemAudit_Append c enc (fst env) (snd env) r s = (res, s') \<Longrightarrow> ma_seq s \<le> ma_seq s' \<and> True = True \<and>
      (ma_byOrg s' = ma_byOrg s \<and>
         (case res of Inl _ \<Rightarrow> True | Inr _ \<Rightarrow> \<exists>x \<in> set (ma_byOrg s (ar_OrgID r)). ar_DecisionID x = ar_DecisionID r)
       \<or> (\<exists>stored. res = Inr stored \<and> appended c enc r (ma_seq s) (ma_seq s') (ma_byOrg s) (ma_byOrg s') stored))"
    for env r s res s' using MemAudit_append_cases by simp
qed (simp add: MemAudit_Get_def)

definition pg_log :: "PgAudit \<Rightarrow> string \<Rightarrow> AuditRecord list" where
  "pg_log s org = map aw_rec (org_rows s org)"

lemma find_map: "find P (map f xs) = map_option f (find (P \<circ> f) xs)"
  by (induction xs) auto

lemma pg_log_insert:
  "pa_rows s' = pa_rows s @ [w] \<Longrightarrow> pg_log s' = (pg_log s)(ar_OrgID (aw_rec w) := pg_log s (ar_OrgID (aw_rec w)) @ [aw_rec w])"
  by (auto simp: pg_log_def org_rows_def)

lemma pa_insert_cases:
  assumes "pa_insert x ts created s = (res, s')"
  shows "pa_seq s' = pa_seq s + 1 \<and> pa_up s' = pa_up s \<and>
    (case res of
       Inl _ \<Rightarrow> pg_log s' = pg_log s
     | Inr None \<Rightarrow> pg_log s' = pg_log s \<and> (\<exists>y \<in> set (pg_log s (ar_OrgID x)). ar_DecisionID y = ar_DecisionID x)
     | Inr (Some q) \<Rightarrow> q = pa_seq s' \<and> (\<forall>y \<in> set (pg_log s (ar_OrgID x)). ar_DecisionID y \<noteq> ar_DecisionID x) \<and>
         pg_log s' = (pg_log s)(ar_OrgID x := pg_log s (ar_OrgID x) @ [x\<lparr>ar_Seq := q, ar_CreatedAt := created\<rparr>]))"
proof -
  have same: "list_ex (\<lambda>w. ar_DecisionID (aw_rec w) = ar_DecisionID x) (org_rows s (ar_OrgID x)) \<longleftrightarrow>
      (\<exists>y \<in> set (pg_log s (ar_OrgID x)). ar_DecisionID y = ar_DecisionID x)"
    by (simp add: list_ex_iff pg_log_def)
  have keep: "pg_log (s\<lparr>pa_seq := q\<rparr>) = pg_log s" for q by (simp add: pg_log_def org_rows_def fun_eq_iff)
  have new: "pg_log (s\<lparr>pa_seq := q, pa_rows := pa_rows s @ [w]\<rparr>) =
      (pg_log s)(ar_OrgID (aw_rec w) := pg_log s (ar_OrgID (aw_rec w)) @ [aw_rec w])" for q w
    by (rule pg_log_insert) simp
  show ?thesis using assms unfolding pa_insert_def Let_def same by (auto simp: keep new split: if_splits)
qed

lemma PgAudit_append_cases:
  assumes "PgAudit_Append c enc clk ns r s = (res, s')"
  shows "pa_seq s \<le> pa_seq s' \<and> pa_up s' = pa_up s \<and>
      (pg_log s' = pg_log s \<and>
         (case res of Inl _ \<Rightarrow> True | Inr _ \<Rightarrow> \<exists>x \<in> set (pg_log s (ar_OrgID r)). ar_DecisionID x = ar_DecisionID r)
       \<or> (\<exists>stored. res = Inr stored \<and> appended c enc r (pa_seq s) (pa_seq s') (pg_log s) (pg_log s') stored))"
proof -
  obtain now db where clk: "clk = (now, db)" by (cases clk)
  let ?p = "chain_prev (pg_log s (ar_OrgID r))"
  note app = assms [unfolded PgAudit_Append_def clk prod.case Let_def pg_log_def [symmetric]]
  show ?thesis
  proof (cases "pa_up s")
    case up: True
    show ?thesis
    proof (cases "ComputeRecordHash c ?p r")
      case h: (Inr h)
      let ?r = "r\<lparr>ar_PrevHash := ?p, ar_RecordHash := h\<rparr>"
      show ?thesis
      proof (cases "encryptInto enc ns ?r")
        case x: (Inr x)
        from encrypt_keeps_meta [OF x] have m: "ar_OrgID x = ar_OrgID r" "ar_DecisionID x = ar_DecisionID r"
          by (simp_all add: meta_def)
        obtain ins s1 where i: "pa_insert x (parseEvalTS now (ar_EvaluatedAt r)) db s = (ins, s1)"
          by (cases "pa_insert x (parseEvalTS now (ar_EvaluatedAt r)) db s")
        note ic = pa_insert_cases [OF i] and app1 = app [unfolded h x sum.case i prod.case, simplified up]
        show ?thesis
        proof (cases ins)
          case (Inl e)
          with ic app1 show ?thesis by auto
        next
          case (Inr o1)
          show ?thesis
          proof (cases o1)
            case None
            with Inr ic app1 m show ?thesis by auto
          next
            case (Some q)
            let ?st = "r\<lparr>ar_Seq := q, ar_PrevHash := ?p, ar_RecordHash := h, ar_CreatedAt := db\<rparr>"
            from Inr Some app1 have "res = Inr ?st" "s' = s1" by simp_all
            moreover have st: "?st = ?r\<lparr>ar_CreatedAt := db, ar_Seq := q\<rparr>" by (cases r) simp
            have sl: "encryptInto enc ns ?st = Inr (x\<lparr>ar_Seq := q, ar_CreatedAt := db\<rparr>)"
              unfolding st encryptInto_meta x by (cases x) simp
            moreover have "appended c enc r (pa_seq s) (pa_seq s') (pg_log s) (pg_log s') ?st"
              using Inr Some ic m \<open>s' = s1\<close> by (intro appendedI [where lg = "pg_log s", OF h sl]) simp_all
            ultimately show ?thesis using ic by simp
          qed
        qed
      qed (use app up h in \<open>auto split: sum.splits\<close>)
    qed (use app up in \<open>auto split: sum.splits\<close>)
  qed (use app in \<open>auto split: sum.splits\<close>)
qed

interpretation pg_audit: audit_store c enc "\<lambda>e. PgAudit_Append c enc (fst e) (snd e)" "PgAudit_Get enc"
    pg_log pa_seq pa_up for c enc
proof
  show "PgAudit_Append c enc (fst env) (snd env) r s = (res, s') \<Longrightarrow> pa_seq s \<le> pa_seq s' \<and> pa_up s' = pa_up s \<and>
      (pg_log s' = pg_log s \<and>
         (case res of Inl _ \<Rightarrow> True | Inr _ \<Rightarrow> \<exists>x \<in> set (pg_log s (ar_OrgID r)). ar_DecisionID x = ar_DecisionID r)
       \<or> (\<exists>stored. res = Inr stored \<and> appended c enc r (pa_seq s) (pa_seq s') (pg_log s) (pg_log s') stored))"
    for env r s res s' using PgAudit_append_cases by simp
  show "pa_up s \<Longrightarrow> PgAudit_Get enc org d s =
      (case find (\<lambda>x. ar_DecisionID x = d) (pg_log s org) of None \<Rightarrow> Inl ErrAuditNotFound | Some x \<Rightarrow> decryptInto enc x)" for s org d
    by (simp add: PgAudit_Get_def pg_log_def find_map comp_def option.case_eq_if option.map_sel)
qed

end
