(* ===== verification/Go_Text.thy ===== *)
theory Go_Text
  imports Go_Std
begin

text \<open>
  More of Go's text packages: ASCII case mapping and folding, \<open>strings.TrimSpace\<close>,
  \<open>hex.DecodeString\<close>, the unpadded standard base32 encoding, and \<open>http.Header.Get\<close>,
  with the round trip of hexadecimal.
\<close>

section \<open>Case\<close>

text \<open>\<open>strings.ToUpper\<close> and \<open>strings.ToLower\<close> on ASCII text, which is what the service
  maps (HTTP methods are ASCII tokens, base32 output is ASCII).\<close>

definition upper_char :: "char \<Rightarrow> char" where
  "upper_char c = (let n = (of_char c :: nat) in if 97 \<le> n \<and> n \<le> 122 then char_of (n - 32) else c)"

definition lower_char :: "char \<Rightarrow> char" where
  "lower_char c = (let n = (of_char c :: nat) in if 65 \<le> n \<and> n \<le> 90 then char_of (n + 32) else c)"

definition ToUpper :: "string \<Rightarrow> string" where
  "ToUpper s = map upper_char s"

definition ToLower :: "string \<Rightarrow> string" where
  "ToLower s = map lower_char s"

text \<open>\<open>strings.EqualFold\<close> against an ASCII text whose letters have no non-ASCII fold.\<close>

definition EqualFold :: "string \<Rightarrow> string \<Rightarrow> bool" where
  "EqualFold s t \<longleftrightarrow> ToLower s = ToLower t"

section \<open>TrimSpace\<close>

text \<open>The UTF-8 spellings of the characters with \<open>unicode.IsSpace\<close>.\<close>

definition space_seqs :: "string list" where
  "space_seqs = map (\<lambda>n. [char_of n]) [9 :: nat, 10, 11, 12, 13, 32]
     @ map (map char_of) [[0xC2 :: nat, 0x85], [0xC2, 0xA0], [0xE1, 0x9A, 0x80],
         [0xE2, 0x80, 0x80], [0xE2, 0x80, 0x81], [0xE2, 0x80, 0x82], [0xE2, 0x80, 0x83],
         [0xE2, 0x80, 0x84], [0xE2, 0x80, 0x85], [0xE2, 0x80, 0x86], [0xE2, 0x80, 0x87],
         [0xE2, 0x80, 0x88], [0xE2, 0x80, 0x89], [0xE2, 0x80, 0x8A], [0xE2, 0x80, 0xA8],
         [0xE2, 0x80, 0xA9], [0xE2, 0x80, 0xAF], [0xE2, 0x81, 0x9F], [0xE3, 0x80, 0x80]]"

text \<open>Strip the given sequences from the front; the first argument bounds the steps and the
  length of the text is always enough.\<close>

fun trim_front :: "nat \<Rightarrow> string list \<Rightarrow> string \<Rightarrow> string" where
  "trim_front 0 seqs s = s"
| "trim_front (Suc n) seqs s =
     (case find (\<lambda>q. HasPrefix s q) seqs of
        None \<Rightarrow> s
      | Some q \<Rightarrow> trim_front n seqs (drop (length q) s))"

definition TrimSpace :: "string \<Rightarrow> string" where
  "TrimSpace s =
     (let l = trim_front (length s) space_seqs s
      in rev (trim_front (length l) (map rev space_seqs) (rev l)))"

text \<open>Text that starts and ends with a graphic ASCII character is left alone.\<close>

definition graphic :: "char \<Rightarrow> bool" where
  "graphic c \<longleftrightarrow> 33 \<le> (of_char c :: nat) \<and> (of_char c :: nat) \<le> 126"

lemma trim_front_stop:
  "\<forall>q \<in> set seqs. \<not> HasPrefix s q \<Longrightarrow> trim_front n seqs s = s"
proof (cases n)
  case (Suc m)
  assume "\<forall>q \<in> set seqs. \<not> HasPrefix s q"
  then have "find (\<lambda>q. HasPrefix s q) seqs = None" by (auto simp: find_None_iff)
  with Suc show ?thesis by simp
qed simp

lemma space_seqs_hd: "q \<in> set space_seqs \<Longrightarrow> graphic c \<Longrightarrow> \<not> HasPrefix (c # s) q"
  by (auto simp: space_seqs_def HasPrefix_def graphic_def)

lemma space_seqs_last: "q \<in> set space_seqs \<Longrightarrow> graphic c \<Longrightarrow> \<not> HasPrefix (c # s) (rev q)"
  by (auto simp: space_seqs_def HasPrefix_def graphic_def)

lemma TrimSpace_graphic:
  assumes "s \<noteq> []" and "graphic (hd s)" and "graphic (last s)"
  shows "TrimSpace s = s"
proof -
  obtain c r where s: "s = c # r" using assms(1) by (cases s) auto
  have "trim_front (length s) space_seqs s = s"
    using assms(2) by (intro trim_front_stop) (simp add: s space_seqs_hd)
  moreover obtain c' r' where s': "rev s = c' # r'" using assms(1) by (cases "rev s") auto
  then have "c' = last s" by (metis assms(1) hd_rev list.sel(1))
  then have "trim_front (length s) (map rev space_seqs) (rev s) = rev s"
    using assms(3) by (intro trim_front_stop) (auto simp: s' space_seqs_last)
  ultimately show ?thesis by (simp add: TrimSpace_def)
qed

section \<open>Hexadecimal\<close>

definition hex_val :: "char \<Rightarrow> nat option" where
  "hex_val c =
     (let n = (of_char c :: nat) in
      if 48 \<le> n \<and> n \<le> 57 then Some (n - 48)
      else if 97 \<le> n \<and> n \<le> 102 then Some (n - 87)
      else if 65 \<le> n \<and> n \<le> 70 then Some (n - 55) else None)"

text \<open>\<open>hex.DecodeString\<close>: both cases of letters are accepted, an odd length is an error.\<close>

fun hex_decode :: "string \<Rightarrow> string option" where
  "hex_decode [] = Some []"
| "hex_decode [c] = None"
| "hex_decode (a # b # r) =
     (case (hex_val a, hex_val b, hex_decode r) of
        (Some x, Some y, Some bs) \<Rightarrow> Some (char_of (16 * x + y) # bs)
      | _ \<Rightarrow> None)"

lemma hex_val_digit [simp]: "n < 16 \<Longrightarrow> hex_val (hex_digit n) = Some n"
  by (auto simp: hex_digit_def hex_val_def less_Suc_eq numeral_eq_Suc)

lemma hex_decode_encode [simp]: "hex_decode (hex_encode bs) = Some bs"
proof (induction bs)
  case (Cons b bs)
  have "(of_char b :: nat) div 16 < 16" by (rule less_mult_imp_div_less) simp
  with Cons show ?case by (simp add: hex_encode_def hex_byte_def)
qed (simp add: hex_encode_def)

lemma hex_encode_inject: "hex_encode a = hex_encode b \<longleftrightarrow> a = b"
  by (metis hex_decode_encode option.inject)

lemma length_hex_encode [simp]: "length (hex_encode bs) = 2 * length bs"
  by (induction bs) (simp_all add: hex_encode_def hex_byte_def)

lemma hex_encode_append: "hex_encode (a @ b) = hex_encode a @ hex_encode b"
  by (simp add: hex_encode_def)

lemma hex_digit_graphic: "n < 16 \<Longrightarrow> graphic (hex_digit n)"
  by (auto simp: hex_digit_def graphic_def less_Suc_eq numeral_eq_Suc)

lemma hex_encode_graphic: "c \<in> set (hex_encode bs) \<Longrightarrow> graphic c"
proof (induction bs)
  case (Cons b bs)
  have "(of_char b :: nat) div 16 < 16" by (rule less_mult_imp_div_less) simp
  with Cons show ?case by (auto simp: hex_encode_def hex_byte_def hex_digit_graphic)
qed (simp add: hex_encode_def)

lemma hex_encode_no_newline: "CHR 0x0A \<notin> set (hex_encode bs)"
  using hex_encode_graphic [of "CHR 0x0A" bs] by (auto simp: graphic_def)

section \<open>Base32\<close>

text \<open>\<open>base32.StdEncoding.WithPadding(base32.NoPadding)\<close>: five bits per character, the
  last group filled with zero bits.\<close>

definition b32_alphabet :: string where
  "b32_alphabet = ''ABCDEFGHIJKLMNOPQRSTUVWXYZ234567''"

definition byte_bits :: "char \<Rightarrow> bool list" where
  "byte_bits c = map (\<lambda>i. (of_char c :: nat) div 2 ^ i mod 2 = 1) [7, 6, 5, 4, 3, 2, 1, 0]"

fun bits_val :: "nat \<Rightarrow> bool list \<Rightarrow> nat" where
  "bits_val acc [] = acc"
| "bits_val acc (b # bs) = bits_val (2 * acc + (if b then 1 else 0)) bs"

fun b32_bits :: "bool list \<Rightarrow> string" where
  "b32_bits (a # b # c # d # e # r) = (b32_alphabet ! bits_val 0 [a, b, c, d, e]) # b32_bits r"
| "b32_bits [] = []"
| "b32_bits bs = [b32_alphabet ! bits_val 0 (take 5 (bs @ [False, False, False, False]))]"

definition b32_encode :: "string \<Rightarrow> string" where
  "b32_encode s = b32_bits (concat (map byte_bits s))"

lemma bits_val_less: "bits_val acc bs < (acc + 1) * 2 ^ length bs"
proof (induction bs arbitrary: acc)
  case (Cons b bs)
  from Cons [of "2 * acc + (if b then 1 else 0)"]
  have "bits_val acc (b # bs) < (2 * acc + (if b then 1 else 0) + 1) * 2 ^ length bs" by simp
  also have "\<dots> \<le> (2 * acc + 2) * 2 ^ length bs" by (intro mult_right_mono) auto
  finally show ?case by (simp add: algebra_simps)
qed simp

lemma b32_alphabet_lower: "c \<in> set b32_alphabet \<Longrightarrow> graphic (lower_char c)"
  by (auto simp: b32_alphabet_def lower_char_def graphic_def)

lemma b32_nth: "length bs = 5 \<Longrightarrow> b32_alphabet ! bits_val 0 bs \<in> set b32_alphabet"
  using bits_val_less [of 0 bs] by (intro nth_mem) (simp add: b32_alphabet_def)

lemma b32_bits_chars: "set (b32_bits bs) \<subseteq> set b32_alphabet"
proof (induction bs rule: b32_bits.induct)
  case (1 a b c d e r)
  then show ?case using b32_nth [of "[a, b, c, d, e]"] by (simp del: bits_val.simps)
qed (simp_all add: b32_nth del: bits_val.simps take_Cons')

lemma b32_lower_graphic: "c \<in> set (ToLower (b32_encode s)) \<Longrightarrow> graphic c"
  using b32_bits_chars b32_alphabet_lower by (fastforce simp: ToLower_def b32_encode_def)

lemma b32_encode_nonempty: "s \<noteq> [] \<Longrightarrow> ToLower (b32_encode s) \<noteq> []"
proof -
  assume "s \<noteq> []"
  then obtain c r where "s = c # r" by (cases s) auto
  then show ?thesis by (simp add: ToLower_def b32_encode_def byte_bits_def)
qed

section \<open>HTTP headers\<close>

text \<open>A parsed header: canonical names with their values. \<open>Get\<close> is the first value or the
  empty string.\<close>

type_synonym http_header = "(string \<times> string list) list"

definition header_Get :: "http_header \<Rightarrow> string \<Rightarrow> string" where
  "header_Get h k = (case map_of h k of Some (v # _) \<Rightarrow> v | _ \<Rightarrow> [])"

declare upper_char_def [go_eval] and lower_char_def [go_eval] and ToUpper_def [go_eval]
  and ToLower_def [go_eval] and EqualFold_def [go_eval] and space_seqs_def [go_eval]
  and TrimSpace_def [go_eval] and hex_val_def [go_eval] and header_Get_def [go_eval]
  and b32_encode_def [go_eval] and byte_bits_def [go_eval] and b32_alphabet_def [go_eval]

end
