(* ===== verification/Audit_History.thy ===== *)
theory Audit_History
  imports Audit_Log Go_Text
begin

text \<open>
  What a reader of the decision log may rely on, for the in-memory and the Postgres store of
  \<open>internal/audit\<close>: the chain is intact and append-only, an appended decision is
  read back as it was, two histories with the same tail hash are the same history, and
  following the cursors of a listing visits every matching record exactly once.
\<close>

section \<open>Paging\<close>

text \<open>A client that follows the cursors; \<open>None\<close> when a page fails or the fuel runs out.\<close>

fun walk :: "(Filter \<Rightarrow> audit_error + Page) \<Rightarrow> nat \<Rightarrow> Filter \<Rightarrow> AuditRecord list option" where
  "walk lst 0 f = None"
| "walk lst (Suc n) f =
     (case lst f of
        Inl _ \<Rightarrow> None
      | Inr p \<Rightarrow>
          if pg_NextCursor p = 0 then Some (pg_Records p)
          else map_option (\<lambda>rs. pg_Records p @ rs) (walk lst n (f\<lparr>fl_Cursor := pg_NextCursor p\<rparr>)))"

text \<open>The page of a list of opened records, newest first.\<close>

definition below :: "int \<Rightarrow> AuditRecord list \<Rightarrow> AuditRecord list" where
  "below cur rs = (if cur > 0 then filter (\<lambda>r. ar_Seq r < cur) rs else rs)"

definition page_of :: "nat \<Rightarrow> AuditRecord list \<Rightarrow> Page" where
  "page_of limit rs =
     (if length rs > limit then \<lparr>pg_Records = take limit rs, pg_NextCursor = ar_Seq (last (take limit rs))\<rparr>
      else \<lparr>pg_Records = rs, pg_NextCursor = 0\<rparr>)"

definition descending :: "AuditRecord list \<Rightarrow> bool" where
  "descending rs \<longleftrightarrow> sorted_wrt (\<lambda>a b. ar_Seq b < ar_Seq a) rs \<and> (\<forall>r \<in> set rs. 0 < ar_Seq r)"

lemma descending_drop: "descending rs \<Longrightarrow> descending (drop n rs)"
  by (auto simp: descending_def sorted_wrt_drop dest: in_set_dropD)

lemma filter_after:
  assumes "descending (xs @ ys)" and "xs \<noteq> []"
  shows "filter (\<lambda>r. ar_Seq r < ar_Seq (last xs)) (xs @ ys) = ys"
proof -
  from assms(1) have s: "sorted_wrt (\<lambda>a b. ar_Seq b < ar_Seq a) xs"
    and xy: "\<forall>x \<in> set xs. \<forall>y \<in> set ys. ar_Seq y < ar_Seq x" by (auto simp: descending_def sorted_wrt_append)
  from s assms(2) have "\<forall>x \<in> set xs. ar_Seq (last xs) \<le> ar_Seq x"
    by (cases xs rule: rev_cases) (auto simp: sorted_wrt_append intro: less_imp_le)
  moreover have "\<forall>y \<in> set ys. ar_Seq y < ar_Seq (last xs)" using xy assms(2) by simp
  ultimately show ?thesis by (auto simp: filter_id_conv filter_empty_conv)
qed

lemma walk_pages:
  assumes page: "\<And>cur. 0 \<le> cur \<Longrightarrow> lst (f\<lparr>fl_Cursor := cur\<rparr>) = Inr (page_of limit (below cur rs))"
    and "0 < limit" and "descending rs" and "0 \<le> cur" and "length (below cur rs) < n"
    and suffix: "\<exists>k. below cur rs = drop k rs"
  shows "walk lst n (f\<lparr>fl_Cursor := cur\<rparr>) = Some (below cur rs)"
  using assms(4-)
proof (induction n arbitrary: cur)
  case (Suc n)
  let ?b = "below cur rs"
  from Suc.prems(3) obtain k where k: "?b = drop k rs" by blast
  show ?case
  proof (cases "limit < length ?b")
    case True
    let ?xs = "take limit ?b" and ?c = "ar_Seq (last (take limit (below cur rs)))"
    have ne: "?xs \<noteq> []" using True assms(2) by auto
    have split: "rs = (take k rs @ ?xs) @ drop limit ?b"
      unfolding append_assoc append_take_drop_id k ..
    have "filter (\<lambda>r. ar_Seq r < ?c) rs = drop limit ?b"
      using filter_after [of "take k rs @ ?xs" "drop limit ?b", folded split, OF assms(3)] ne
      by (simp add: last_append del: append_take_drop_id)
    moreover have "last ?xs \<in> set rs" using last_in_set [OF ne] by (metis in_set_dropD in_set_takeD k)
    then have pos: "0 < ?c" using assms(3) by (simp add: descending_def)
    ultimately have nxt: "below ?c rs = drop limit ?b" by (simp add: below_def)
    have "walk lst n (f\<lparr>fl_Cursor := ?c\<rparr>) = Some (below ?c rs)"
    proof (rule Suc.IH)
      show "length (below ?c rs) < n" using nxt True Suc.prems(2) assms(2) by simp
      show "\<exists>k. below ?c rs = drop k rs" using nxt unfolding k drop_drop by blast
    qed (use pos in simp)
    then show ?thesis using True page [OF Suc.prems(1)] pos nxt by (simp add: page_of_def)
  next
    case False
    then show ?thesis using page [OF Suc.prems(1)] by (simp add: page_of_def)
  qed
qed simp

text \<open>Both listings compute that page.\<close>

definition opened :: "Encryptor \<Rightarrow> AuditRecord \<Rightarrow> AuditRecord" where
  "opened enc x = (case decryptInto enc x of Inr r \<Rightarrow> r | Inl _ \<Rightarrow> x)"

lemma opened_Seq [simp]: "ar_Seq (opened enc x) = ar_Seq x"
  by (auto simp: opened_def meta_def dest: decrypt_keeps_meta split: sum.splits)

lemma below_map_opened: "below cur (map (opened enc) xs) = map (opened enc) (below cur xs)"
  by (simp add: below_def filter_map comp_def)

lemma insort_key_last: "\<forall>y \<in> set ys. f y < f x \<Longrightarrow> insort_key f x ys = ys @ [x]"
  by (induction ys) (auto simp: not_le)

lemma sort_desc_rev: "sorted_wrt (<) (map ar_Seq xs) \<Longrightarrow> sort_key (\<lambda>r. - ar_Seq r) xs = rev xs"
  by (induction xs) (simp_all add: insort_key_last)

lemma scan_rows_opened:
  "\<forall>x \<in> set xs. \<exists>r. decryptInto enc x = Inr r \<Longrightarrow> scan_rows enc xs = Inr (map (opened enc) xs)"
  by (induction xs) (auto simp: opened_def)

lemma chain_ok_opens: "chain_ok c enc prev xs \<Longrightarrow> x \<in> set xs \<Longrightarrow> \<exists>r. decryptInto enc x = Inr r"
  by (induction xs arbitrary: prev) (auto split: sum.splits)

lemma List_loop_page:
  assumes "\<forall>x \<in> set xs. \<exists>r. decryptInto enc x = Inr r" and "int (length acc) \<le> int limit" and "0 < limit"
  shows "List_loop enc f (int limit) xs acc =
    Inr (page_of limit (acc @ map (opened enc) (filter (\<lambda>x. \<not> (fl_Cursor f > 0 \<and> ar_Seq x \<ge> fl_Cursor f) \<and> matches x f) xs)))"
  using assms(1,2)
proof (induction xs arbitrary: acc)
  case (Cons x xs)
  obtain r where r: "decryptInto enc x = Inr r" using Cons.prems(1) by auto
  then have o: "opened enc x = r" by (simp add: opened_def)
  have IH: "List_loop enc f (int limit) xs a =
    Inr (page_of limit (a @ map (opened enc) (filter (\<lambda>x. \<not> (fl_Cursor f > 0 \<and> ar_Seq x \<ge> fl_Cursor f) \<and> matches x f) xs)))"
    if "length a \<le> limit" for a using Cons.IH [of a] Cons.prems(1) that by simp
  show ?case
  proof (cases "fl_Cursor f > 0 \<and> ar_Seq x \<ge> fl_Cursor f \<or> \<not> matches x f")
    case False
    then show ?thesis
      using IH [of "acc @ [r]"] Cons.prems(2) assms(3) r o by (cases "length acc = limit") (auto simp: page_of_def)
  qed (use IH [of acc] Cons.prems(2) in auto)
qed (simp add: page_of_def)

lemma clampLimit_pos: "0 < nat (clampLimit n)" "int (nat (clampLimit n)) = clampLimit n"
  by (simp_all add: clampLimit_def DefaultListLimit_def MaxListLimit_def)

lemma matches_cursor [simp]: "matches x (f\<lparr>fl_Cursor := cur\<rparr>) = matches x f"
  by (simp add: matches_def cong: if_cong option.case_cong)

lemma filter_descending:
  assumes "org_log_ok c enc q org l"
  shows "descending (map (opened enc) (rev (filter P l)))"
proof -
  from assms have "sorted_wrt (<) (map ar_Seq l)" "\<forall>x \<in> set l. 0 < ar_Seq x" by (auto simp: org_log_ok_def)
  then show ?thesis
    by (auto simp: descending_def sorted_wrt_map sorted_wrt_rev rev_map [symmetric] sorted_wrt_filter)
qed

lemma MemAudit_List_page:
  assumes "org_log_ok c enc q org (ma_byOrg m org)" and "0 \<le> cur"
  shows "MemAudit_List enc org (f\<lparr>fl_Cursor := cur\<rparr>) m =
    Inr (page_of (nat (clampLimit (fl_Limit f)))
      (below cur (map (opened enc) (rev (filter (\<lambda>x. matches x f) (ma_byOrg m org))))))"
proof -
  let ?l = "ma_byOrg m org" and ?n = "nat (clampLimit (fl_Limit f))"
  have srt: "sort_key (\<lambda>r. - ar_Seq r) ?l = rev ?l" using assms(1) by (intro sort_desc_rev) (simp add: org_log_ok_def)
  have op: "\<forall>x \<in> set (rev ?l). \<exists>r. decryptInto enc x = Inr r"
    using assms(1) chain_ok_opens by (auto simp: org_log_ok_def)
  have flt: "filter (\<lambda>x. (0 < cur \<longrightarrow> \<not> cur \<le> ar_Seq x) \<and> matches x f) (rev ?l) = below cur (rev (filter (\<lambda>x. matches x f) ?l))"
    by (auto simp: below_def rev_filter [symmetric] not_le intro: filter_cong)
  show ?thesis
    using List_loop_page [OF op, of "[]" ?n "f\<lparr>fl_Cursor := cur\<rparr>"] clampLimit_pos [of "fl_Limit f"]
    by (simp add: MemAudit_List_def srt flt below_map_opened del: not_le not_less)
qed

lemma row_matches_cursor:
  "row_matches w (f\<lparr>fl_Cursor := cur\<rparr>) \<longleftrightarrow> row_matches w (f\<lparr>fl_Cursor := 0\<rparr>) \<and> (cur > 0 \<longrightarrow> ar_Seq (aw_rec w) < cur)"
  by (auto simp: row_matches_def)

lemma PgAudit_List_page:
  assumes "org_log_ok c enc q org (pg_log s org)" and "0 \<le> cur" and "pa_up s"
  shows "PgAudit_List enc org (f\<lparr>fl_Cursor := cur\<rparr>) s =
    Inr (page_of (nat (clampLimit (fl_Limit f)))
      (below cur (map (opened enc) (rev (map aw_rec (filter (\<lambda>w. row_matches w (f\<lparr>fl_Cursor := 0\<rparr>)) (org_rows s org)))))))"
proof -
  let ?n = "nat (clampLimit (fl_Limit f))"
  let ?ws = "filter (\<lambda>w. row_matches w (f\<lparr>fl_Cursor := 0\<rparr>)) (org_rows s org)"
    and ?wc = "filter (\<lambda>w. row_matches w (f\<lparr>fl_Cursor := cur\<rparr>)) (org_rows s org)"
  have "sorted_wrt (<) (map ar_Seq (pg_log s org))" using assms(1) by (simp add: org_log_ok_def)
  then have "sorted_wrt (<) (map ar_Seq (map aw_rec ?wc))"
    by (simp add: pg_log_def sorted_wrt_map sorted_wrt_filter)
  then have srt: "sort_key (\<lambda>r. - ar_Seq r) (map aw_rec ?wc) = rev (map aw_rec ?wc)" by (rule sort_desc_rev)
  have flt: "rev (map aw_rec ?wc) = below cur (rev (map aw_rec ?ws))"
    using assms(2) by (auto simp: below_def rev_filter [symmetric] rev_map [symmetric] filter_map comp_def row_matches_cursor [where f = f and cur = cur] conj_commute)
  have "\<forall>x \<in> set (pg_log s org). \<exists>r. decryptInto enc x = Inr r"
    using assms(1) chain_ok_opens by (auto simp: org_log_ok_def)
  then have "\<forall>x \<in> set (take (Suc ?n) (rev (map aw_rec ?wc))). \<exists>r. decryptInto enc x = Inr r"
    by (auto simp: pg_log_def dest!: in_set_takeD)
  from scan_rows_opened [OF this] show ?thesis
    using assms(3) unfolding PgAudit_List_def Let_def
    by (simp add: srt flt below_map_opened page_of_def take_map min_absorb1 min_absorb2)
qed

section \<open>Histories\<close>

text \<open>The scalar contents a record hash covers.\<close>

definition content :: "AuditRecord \<Rightarrow> string list \<times> int \<times> bool" where
  "content r = ([ar_DecisionID r, ar_OrgID r, ar_APIKeyID r, ar_AgentID r, ar_Action r, ar_Amount r, ar_Currency r,
      ar_TargetType r, ar_TargetID r, ar_Jurisdiction r, Verdict_str (ar_Verdict r), ar_PolicyVersionHash r,
      ex_Summary (ar_Explanation r), sig_Value (ar_Signature r), sig_KeyID (ar_Signature r), ar_EvaluatedAt r],
     ar_LatencyMs r, ar_Shadow r)"

definition record_view :: "AuditRecord \<Rightarrow> json" where
  "record_view r = hashView (ar_PrevHash r) r"

lemma hashView_scalars:
  "json_at [Key ''prev_hash''] (hashView p r) = Some (JsonString p)"
  "json_at [Key ''decision_id''] (hashView p r) = Some (JsonString (ar_DecisionID r))"
  "json_at [Key ''org_id''] (hashView p r) = Some (JsonString (ar_OrgID r))"
  "json_at [Key ''api_key_id''] (hashView p r) = Some (JsonString (ar_APIKeyID r))"
  "json_at [Key ''agent_id''] (hashView p r) = Some (JsonString (ar_AgentID r))"
  "json_at [Key ''action''] (hashView p r) = Some (JsonString (ar_Action r))"
  "json_at [Key ''amount''] (hashView p r) = Some (JsonString (ar_Amount r))"
  "json_at [Key ''currency''] (hashView p r) = Some (JsonString (ar_Currency r))"
  "json_at [Key ''target_type''] (hashView p r) = Some (JsonString (ar_TargetType r))"
  "json_at [Key ''target_id''] (hashView p r) = Some (JsonString (ar_TargetID r))"
  "json_at [Key ''jurisdiction''] (hashView p r) = Some (JsonString (ar_Jurisdiction r))"
  "json_at [Key ''verdict''] (hashView p r) = Some (JsonString (Verdict_str (ar_Verdict r)))"
  "json_at [Key ''policy_version_hash''] (hashView p r) = Some (JsonString (ar_PolicyVersionHash r))"
  "json_at [Key ''explanation'', Key ''summary''] (hashView p r) = Some (JsonString (ex_Summary (ar_Explanation r)))"
  "json_at [Key ''signature'', Key ''value''] (hashView p r) = Some (JsonString (sig_Value (ar_Signature r)))"
  "json_at [Key ''signature'', Key ''key_id''] (hashView p r) = Some (JsonString (sig_KeyID (ar_Signature r)))"
  "json_at [Key ''evaluated_at''] (hashView p r) = Some (JsonString (ar_EvaluatedAt r))"
  "json_at [Key ''latency_ms''] (hashView p r) = Some (JsonNum (ar_LatencyMs r))"
  "json_at [Key ''shadow''] (hashView p r) = Some (JsonBool (ar_Shadow r))"
  by (simp_all add: hashView_def json_of_Explanation_def json_of_Signature_def)

lemma same_view_content:
  assumes "same_scalars (hashView p r) (hashView p' r')"
  shows "p = p' \<and> content r = content r'"
proof -
  have eq: "json_at k (hashView p r) = Some y \<Longrightarrow> is_scalar y \<Longrightarrow> json_at k (hashView p' r') = Some y" for k y
    using assms by (simp add: same_scalars_def)
  show ?thesis unfolding content_def
    using eq [OF hashView_scalars(1)] eq [OF hashView_scalars(2)] eq [OF hashView_scalars(3)] eq [OF hashView_scalars(4)]
      eq [OF hashView_scalars(5)] eq [OF hashView_scalars(6)] eq [OF hashView_scalars(7)] eq [OF hashView_scalars(8)]
      eq [OF hashView_scalars(9)] eq [OF hashView_scalars(10)] eq [OF hashView_scalars(11)] eq [OF hashView_scalars(12)]
      eq [OF hashView_scalars(13)] eq [OF hashView_scalars(14)] eq [OF hashView_scalars(15)] eq [OF hashView_scalars(16)]
      eq [OF hashView_scalars(17)] eq [OF hashView_scalars(18)] eq [OF hashView_scalars(19)]
    by (simp add: hashView_scalars)
qed

text \<open>SHA-256 has no collision among the canonical texts of the given records.\<close>

definition no_collision :: "crypto \<Rightarrow> AuditRecord list \<Rightarrow> AuditRecord list \<Rightarrow> bool" where
  "no_collision c rs rs' \<longleftrightarrow>
     (\<forall>r \<in> set rs. \<forall>r' \<in> set rs'. \<forall>a b. jcs_Transform c (record_view r) = Some a \<longrightarrow> jcs_Transform c (record_view r') = Some b \<longrightarrow>
        sha256_Sum c a = sha256_Sum c b \<longrightarrow> a = b)"

lemma no_collisionD:
  "no_collision c rs rs' \<Longrightarrow> r \<in> set rs \<Longrightarrow> r' \<in> set rs' \<Longrightarrow> jcs_Transform c (record_view r) = Some a \<Longrightarrow>
     jcs_Transform c (record_view r') = Some b \<Longrightarrow> sha256_Sum c a = sha256_Sum c b \<Longrightarrow> a = b"
  unfolding no_collision_def by blast

lemma no_collision_mono:
  "no_collision c rs rs' \<Longrightarrow> set us \<subseteq> set rs \<Longrightarrow> set us' \<subseteq> set rs' \<Longrightarrow> no_collision c us us'"
  unfolding no_collision_def by blast

lemma link_hash:
  assumes "VerifyChainLink c r = Inr True"
  obtains t where "jcs_Transform c (record_view r) = Some t" "ar_RecordHash r = recordHashPrefix @ hex_encode (sha256_Sum c t)"
  using assms by (auto simp: VerifyChainLink_def ComputeRecordHash_def record_view_def split: option.splits)

lemma hash_not_genesis: "recordHashPrefix @ hex_encode bs \<noteq> GenesisPrev"
proof
  assume "recordHashPrefix @ hex_encode bs = GenesisPrev"
  then have "length (hex_encode bs) = 9" by (auto simp: recordHashPrefix_def GenesisPrev_def dest: arg_cong [where f = length])
  then have "2 * length bs = 9" by simp
  then show False by presburger
qed

lemma same_hash_content:
  assumes "jcs_faithful c" and "no_collision c [r] [r']" and "VerifyChainLink c r = Inr True" and "VerifyChainLink c r' = Inr True"
    and "ar_RecordHash r = ar_RecordHash r'"
  shows "ar_PrevHash r = ar_PrevHash r' \<and> content r = content r' \<and> same_scalars (record_view r) (record_view r')"
proof -
  from assms(3) obtain t where t: "jcs_Transform c (record_view r) = Some t"
    "ar_RecordHash r = recordHashPrefix @ hex_encode (sha256_Sum c t)" by (rule link_hash)
  from assms(4) obtain t' where t': "jcs_Transform c (record_view r') = Some t'"
    "ar_RecordHash r' = recordHashPrefix @ hex_encode (sha256_Sum c t')" by (rule link_hash)
  from t(2) t'(2) assms(5) have "sha256_Sum c t = sha256_Sum c t'" by (simp add: hex_encode_inject)
  with no_collisionD [OF assms(2) _ _ t(1) t'(1)] have "t = t'" by simp
  with t t' assms(1) have "same_scalars (record_view r) (record_view r')"
    unfolding same_scalars_def jcs_faithful_def by blast
  with same_view_content show ?thesis unfolding record_view_def by blast
qed

lemma chain_tail:
  assumes "chain_ok c enc GenesisPrev xs"
  shows "xs = [] \<longleftrightarrow> chain_prev xs = GenesisPrev"
proof (cases xs rule: rev_cases)
  case (snoc ys x)
  with assms obtain r where r: "decryptInto enc x = Inr r" "VerifyChainLink c r = Inr True"
    by (auto simp: chain_ok_snoc)
  moreover from decrypt_keeps_meta [OF r(1)] have "ar_RecordHash x = ar_RecordHash r" by (simp add: meta_def)
  ultimately show ?thesis using snoc by (elim link_hash) (simp add: chain_prev_def hash_not_genesis)
qed (simp add: chain_prev_def)

lemma same_tail_same_history:
  assumes "jcs_faithful c"
  shows "\<lbrakk>chain_ok c enc GenesisPrev xs; chain_ok c enc' GenesisPrev ys; chain_prev xs = chain_prev ys;
     no_collision c (map (opened enc) xs) (map (opened enc') ys)\<rbrakk> \<Longrightarrow>
     list_all2 (\<lambda>x y. content (opened enc x) = content (opened enc' y) \<and>
       same_scalars (record_view (opened enc x)) (record_view (opened enc' y))) xs ys"
proof (induction xs arbitrary: ys rule: rev_induct)
  case Nil
  from chain_tail [OF Nil.prems(1)] chain_tail [OF Nil.prems(2)] Nil.prems(3) show ?case by simp
next
  case (snoc x xs)
  from chain_tail [OF snoc.prems(1)] chain_tail [OF snoc.prems(2)] snoc.prems(3) obtain ys' y where ys: "ys = ys' @ [y]"
    by (cases ys rule: rev_cases) auto
  from snoc.prems(1) obtain r where x: "decryptInto enc x = Inr r" "ar_PrevHash r = chain_prev xs" "VerifyChainLink c r = Inr True"
    "chain_ok c enc GenesisPrev xs" by (auto simp: chain_ok_snoc chain_prev_def)
  from snoc.prems(2) obtain r' where y: "decryptInto enc' y = Inr r'" "ar_PrevHash r' = chain_prev ys'"
    "VerifyChainLink c r' = Inr True" "chain_ok c enc' GenesisPrev ys'" by (auto simp: ys chain_ok_snoc chain_prev_def)
  have o: "opened enc x = r" "opened enc' y = r'" using x(1) y(1) by (simp_all add: opened_def)
  have "ar_RecordHash r = ar_RecordHash r'"
    using snoc.prems(3) decrypt_keeps_meta [OF x(1)] decrypt_keeps_meta [OF y(1)] by (simp add: ys chain_prev_def meta_def)
  moreover have nc: "no_collision c [r] [r']" "no_collision c (map (opened enc) xs) (map (opened enc') ys')"
    by (rule no_collision_mono [OF snoc.prems(4)]; auto simp: ys o)+
  ultimately have same: "ar_PrevHash r = ar_PrevHash r' \<and> content r = content r' \<and> same_scalars (record_view r) (record_view r')"
    using same_hash_content [OF assms _ x(3) y(3)] by blast
  from snoc.IH [OF x(4) y(4) _ nc(2)] same x(2) y(2) show ?case by (simp add: ys o list_all2_appendI)
qed

section \<open>Properties\<close>

abbreviation pg_appends :: "crypto \<Rightarrow> Encryptor \<Rightarrow> (((gotime \<times> gotime) \<times> entropy3) \<times> AuditRecord) list \<Rightarrow> PgAudit" where
  "pg_appends c enc qs \<equiv> append_all (\<lambda>e. PgAudit_Append c enc (fst e) (snd e)) qs NewPgAudit"

abbreviation mem_appends :: "crypto \<Rightarrow> Encryptor \<Rightarrow> ((gotime \<times> entropy3) \<times> AuditRecord) list \<Rightarrow> MemAudit" where
  "mem_appends c enc qs \<equiv> append_all (\<lambda>e. MemAudit_Append c enc (fst e) (snd e)) qs NewMemAudit"

lemma empty_logs:
  "log_ok c enc (pa_seq NewPgAudit) (pg_log NewPgAudit)" "log_ok c enc (ma_seq NewMemAudit) (ma_byOrg NewMemAudit)"
  "0 \<le> pa_seq NewPgAudit" "0 \<le> ma_seq NewMemAudit" "pa_up NewPgAudit"
  by (simp_all add: log_ok_def org_log_ok_def NewPgAudit_def NewMemAudit_def pg_log_def org_rows_def)

lemma append_all_append: "append_all app (xs @ ys) s = append_all app ys (append_all app xs s)"
  by (induction xs arbitrary: s) simp_all

lemma plain_any: "\<forall>q \<in> set qs. plain_record (\<lambda>_. True) (snd q)" "plain_record (\<lambda>_. True) r"
  by (simp_all add: plain_record_def)

lemma reachable_logs:
  assumes "gcm_ok g" and "NewAESGCM g key = Inr enc"
  shows "log_ok c enc (pa_seq (pg_appends c enc qs)) (pg_log (pg_appends c enc qs))" "0 \<le> pa_seq (pg_appends c enc qs)"
    "pa_up (pg_appends c enc qs)"
    "log_ok c enc (ma_seq (mem_appends c enc ms)) (ma_byOrg (mem_appends c enc ms))" "0 \<le> ma_seq (mem_appends c enc ms)"
  using pg_audit.append_all_log_ok [OF AESGCM_ok [OF assms] plain_any(1) empty_logs(1,3)]
    mem_audit.append_all_log_ok [OF AESGCM_ok [OF assms] plain_any(1) empty_logs(2,4)] empty_logs(5)
  by simp_all

definition demo_gcm :: aead where
  "demo_gcm = \<lparr>gcm_Seal = (\<lambda>k n p. p), gcm_Open = (\<lambda>k n ct. Some ct)\<rparr>"

definition demo_key :: string where "demo_key = replicate 32 (CHR ''k'')"

definition demo_enc :: Encryptor where
  "demo_enc = (case NewAESGCM demo_gcm demo_key of Inr e \<Rightarrow> e | Inl _ \<Rightarrow> NopEncryptor)"

lemma demo_enc: "gcm_ok demo_gcm" "NewAESGCM demo_gcm demo_key = Inr demo_enc"
  by (simp_all add: gcm_ok_def demo_gcm_def demo_enc_def NewAESGCM_def demo_key_def)

definition demo_record :: AuditRecord where
  "demo_record = RecordFromDecision ''org'' ''key''
     \<lparr>req_AgentID = ''agent'', req_Action = ''pay'', req_Amount = ''40'', req_Currency = ''USD'',
      req_Target = \<lparr>tgt_Type = TargetVendor, tgt_ID = ''shop''\<rparr>, req_Jurisdiction = [], req_Context = [],
      req_IdempotencyKey = ''idem-0001'', req_EvaluatedAt = [], req_CounterSnapshot = None\<rparr> demo_decision"

definition demo_nonces :: entropy3 where
  "demo_nonces = (replicate 12 (CHR ''a''), replicate 12 (CHR ''b''), replicate 12 (CHR ''c''))"

lemma demo_Encrypt: "length n = 12 \<Longrightarrow> \<exists>y. en_Encrypt demo_enc n x = Inr y"
  by (simp add: demo_enc_def NewAESGCM_def demo_key_def gcm_NonceSize_def)

lemma demo_encryptInto: "\<exists>x. encryptInto demo_enc demo_nonces r = Inr x"
proof -
  obtain a b d where "en_Encrypt demo_enc (replicate 12 (CHR ''a'')) (ar_Amount r) = Inr a"
    "en_Encrypt demo_enc (replicate 12 (CHR ''b'')) (ar_TargetType r) = Inr b"
    "en_Encrypt demo_enc (replicate 12 (CHR ''c'')) (ar_TargetID r) = Inr d"
    using demo_Encrypt by (metis length_replicate)
  then show ?thesis by (simp add: encryptInto_def demo_nonces_def)
qed

lemma demo_append:
  "\<exists>stored s'. PgAudit_Append demo_crypto demo_enc clk demo_nonces demo_record NewPgAudit = (Inr stored, s') \<and>
     Inr (chain_prev (pg_log s' ''org'')) = ComputeRecordHash demo_crypto GenesisPrev demo_record"
proof -
  obtain h where h: "ComputeRecordHash demo_crypto GenesisPrev demo_record = Inr h"
    by (simp add: ComputeRecordHash_def demo_crypto_def)
  obtain x where x: "encryptInto demo_enc demo_nonces (demo_record\<lparr>ar_PrevHash := GenesisPrev, ar_RecordHash := h\<rparr>) = Inr x"
    using demo_encryptInto by blast
  then have "ar_Verdict x = VerdictApprove" "ar_OrgID x = ''org''" "ar_RecordHash x = h"
    by (rule encryptInto_Inr; simp add: demo_record_def RecordFromDecision_def demo_decision_def)+
  then show ?thesis using h x
    by (simp add: PgAudit_Append_def NewPgAudit_def org_rows_def chain_prev_def pa_insert_def Let_def verdict_ok_def
        pg_log_def case_prod_beta)
qed

lemma demo_append_any:
  assumes "verdict_ok (ar_Verdict r)"
  shows "\<exists>stored s'. PgAudit_Append demo_crypto demo_enc clk demo_nonces r NewPgAudit = (Inr stored, s')"
proof -
  obtain h where h: "ComputeRecordHash demo_crypto GenesisPrev r = Inr h"
    by (simp add: ComputeRecordHash_def demo_crypto_def)
  obtain x where x: "encryptInto demo_enc demo_nonces (r\<lparr>ar_PrevHash := GenesisPrev, ar_RecordHash := h\<rparr>) = Inr x"
    using demo_encryptInto by blast
  then have "ar_Verdict x = ar_Verdict r" by (rule encryptInto_Inr) simp
  then show ?thesis using h x assms
    by (simp add: PgAudit_Append_def NewPgAudit_def org_rows_def chain_prev_def pa_insert_def Let_def case_prod_beta)
qed

lemma demo_no_collision: "no_collision demo_crypto rs rs'"
  by (simp add: no_collision_def demo_crypto_def)

text \<open>C9: with the AES-GCM encryptor, after any sequence of appends, to any organisations, with any
  clock and entropy and including the refused and failed ones, every organisation's log in both
  stores is a chain that starts at the genesis value, each record opens, carries the hash of the
  record before it and verifies, sequence numbers ascend and decision ids are distinct; and
  further appends only extend each log: nothing is rewritten.\<close>

theorem audit_chain_intact:
  assumes "gcm_ok g" and "NewAESGCM g key = Inr enc"
  shows "log_ok c enc (pa_seq (pg_appends c enc qs)) (pg_log (pg_appends c enc qs)) \<and>
    log_ok c enc (ma_seq (mem_appends c enc ms)) (ma_byOrg (mem_appends c enc ms)) \<and>
    (\<exists>new. pg_log (pg_appends c enc (qs @ qs')) org = pg_log (pg_appends c enc qs) org @ new) \<and>
    (\<exists>new. ma_byOrg (mem_appends c enc (ms @ ms')) org = ma_byOrg (mem_appends c enc ms) org @ new)"
  unfolding append_all_append
  using reachable_logs [OF assms, of c] pg_audit.append_all_log_ok [OF AESGCM_ok [OF assms] plain_any(1), of c]
    mem_audit.append_all_log_ok [OF AESGCM_ok [OF assms] plain_any(1), of c] by blast

theorem audit_chain_intact_witness:
  "log_ok demo_crypto demo_enc (pa_seq (pg_appends demo_crypto demo_enc [(((0, 0), demo_nonces), demo_record)]))
     (pg_log (pg_appends demo_crypto demo_enc [(((0, 0), demo_nonces), demo_record)]))"
  using audit_chain_intact [OF demo_enc] by blast

lemma logged_record:
  assumes "gcm_ok g" and "NewAESGCM g key = Inr enc"
    and fresh: "\<forall>x \<in> set (pg_log (pg_appends c enc qs) (ar_OrgID r)). ar_DecisionID x \<noteq> ar_DecisionID r"
    and app: "PgAudit_Append c enc clk ns r (pg_appends c enc qs) = (Inr stored, s')"
  shows "PgAudit_Get enc (ar_OrgID r) (ar_DecisionID r) (append_all (\<lambda>e. PgAudit_Append c enc (fst e) (snd e)) later s') = Inr stored \<and>
    VerifyChainLink c stored = Inr True \<and>
    stored = r\<lparr>ar_Seq := ar_Seq stored, ar_PrevHash := ar_PrevHash stored, ar_RecordHash := ar_RecordHash stored,
               ar_CreatedAt := ar_CreatedAt stored\<rparr>"
proof -
  have get: "PgAudit_Get enc (ar_OrgID r) (ar_DecisionID r) (append_all (\<lambda>e. PgAudit_Append c enc (fst e) (snd e)) later s') = Inr stored \<and>
    VerifyChainLink c stored = Inr True"
    using pg_audit.append_get [OF reachable_logs(1,2) [OF assms(1,2)] AESGCM_ok [OF assms(1,2)] plain_any(2) _ fresh plain_any(1)
        reachable_logs(3) [OF assms(1,2)], of "(clk, ns)"] app by simp
  from PgAudit_append_cases [OF app] fresh obtain q h t where
    "stored = r\<lparr>ar_Seq := q, ar_PrevHash := chain_prev (pg_log (pg_appends c enc qs) (ar_OrgID r)), ar_RecordHash := h, ar_CreatedAt := t\<rparr>"
    by (auto simp: appended_def)
  with get show ?thesis by simp
qed

text \<open>The decision a record gives back depends on the fields of the decision only.\<close>

lemma Record_Decision_stored:
  assumes "stored = (RecordFromDecision orgID apiKeyID req dec)\<lparr>ar_RetainUntil := u, ar_Seq := q, ar_PrevHash := p, ar_RecordHash := h, ar_CreatedAt := t\<rparr>"
  shows "Record_Decision stored ok = dec\<lparr>dec_RecordHash := h, dec_SignatureVerified := Some ok\<rparr>"
  unfolding assms by (cases dec) (simp add: Record_Decision_def RecordFromDecision_def)

text \<open>C31: a decision that the log accepted is read back, now and after any later appends, with
  exactly the fields it had, its link verifies, and the decision rebuilt from the record is the original
  with the record hash and the verification flag filled in.\<close>

theorem audit_roundtrip:
  assumes "gcm_ok g" and "NewAESGCM g key = Inr enc"
    and "r = RecordFromDecision orgID apiKeyID req dec"
    and "\<forall>x \<in> set (pg_log (pg_appends c enc qs) orgID). ar_DecisionID x \<noteq> dec_DecisionID dec"
    and "PgAudit_Append c enc clk ns r (pg_appends c enc qs) = (Inr stored, s')"
  shows "PgAudit_Get enc orgID (dec_DecisionID dec) (append_all (\<lambda>e. PgAudit_Append c enc (fst e) (snd e)) later s') = Inr stored \<and>
    VerifyChainLink c stored = Inr True \<and>
    stored = r\<lparr>ar_Seq := ar_Seq stored, ar_PrevHash := ar_PrevHash stored, ar_RecordHash := ar_RecordHash stored,
               ar_CreatedAt := ar_CreatedAt stored\<rparr> \<and>
    Record_Decision stored ok = dec\<lparr>dec_RecordHash := ar_RecordHash stored, dec_SignatureVerified := Some ok\<rparr>"
proof -
  have r: "ar_OrgID r = orgID" "ar_DecisionID r = dec_DecisionID dec" by (simp_all add: assms(3) RecordFromDecision_def)
  note log = logged_record [OF assms(1,2) _ assms(5), unfolded r, OF assms(4), of later]
  have "r = r\<lparr>ar_RetainUntil := ar_RetainUntil r\<rparr>" by simp
  with log have "stored = (RecordFromDecision orgID apiKeyID req dec)\<lparr>ar_RetainUntil := ar_RetainUntil r, ar_Seq := ar_Seq stored,
      ar_PrevHash := ar_PrevHash stored, ar_RecordHash := ar_RecordHash stored, ar_CreatedAt := ar_CreatedAt stored\<rparr>"
    unfolding assms(3) by metis
  from Record_Decision_stored [OF this] log show ?thesis by blast
qed

theorem audit_roundtrip_witness:
  "\<exists>stored s'. PgAudit_Append demo_crypto demo_enc (0, 0) demo_nonces demo_record NewPgAudit = (Inr stored, s') \<and>
     PgAudit_Get demo_enc ''org'' (dec_DecisionID demo_decision) s' = Inr stored"
proof -
  obtain stored s' where a: "PgAudit_Append demo_crypto demo_enc (0, 0) demo_nonces demo_record NewPgAudit = (Inr stored, s')"
    using demo_append by blast
  then show ?thesis
    using audit_roundtrip [OF demo_enc demo_record_def, where qs = "[]" and later = "[]" and c = demo_crypto]
    by (simp add: pg_log_def org_rows_def NewPgAudit_def)
qed

text \<open>C32: tamper evidence. Two histories of an organisation whose chains both verify and that end in the same record hash
  are the same history: as long, and record by record equal in every field the hash covers, unless
  SHA-256 collides on two of their canonical texts. So who keeps the last hash detects any later
  change, removal or reordering.\<close>

theorem tamper_evidence:
  assumes "jcs_faithful c" and "chain_ok c enc GenesisPrev xs" and "chain_ok c enc' GenesisPrev ys"
    and "chain_prev xs = chain_prev ys" and "no_collision c (map (opened enc) xs) (map (opened enc') ys)"
  shows "length xs = length ys \<and> map (content \<circ> opened enc) xs = map (content \<circ> opened enc') ys \<and>
    list_all2 (\<lambda>x y. same_scalars (record_view (opened enc x)) (record_view (opened enc' y))) xs ys"
proof -
  from same_tail_same_history [OF assms(1-5)] have
    "list_all2 (\<lambda>x y. content (opened enc x) = content (opened enc' y)) xs ys"
    "list_all2 (\<lambda>x y. same_scalars (record_view (opened enc x)) (record_view (opened enc' y))) xs ys"
    by (auto elim: list_all2_mono)
  moreover from this(1) have "length xs = length ys" by (rule list_all2_lengthD)
  ultimately show ?thesis by (simp add: list_all2_conv_all_nth list_eq_iff_nth_eq)
qed

theorem tamper_evidence_witness:
  "let l = (\<lambda>clk. pg_log (pg_appends demo_crypto demo_enc [((clk, demo_nonces), demo_record)]) ''org'')
   in map (content \<circ> opened demo_enc) (l (0, 0)) = map (content \<circ> opened demo_enc) (l (5, 7))"
proof -
  let ?l = "\<lambda>clk. pg_log (pg_appends demo_crypto demo_enc [((clk, demo_nonces), demo_record)]) ''org''"
  have ok: "chain_ok demo_crypto demo_enc GenesisPrev (?l clk)" for clk
    using reachable_logs(1) [OF demo_enc, of demo_crypto] unfolding log_ok_def org_log_ok_def by blast
  have h: "(Inr (chain_prev (?l clk)) :: audit_error + string) = ComputeRecordHash demo_crypto GenesisPrev demo_record" for clk
    using demo_append [of clk] by fastforce
  have tail: "chain_prev (?l (0, 0)) = chain_prev (?l (5, 7))"
    using trans [OF h h [symmetric]] by (simp only: sum.inject)
  from tamper_evidence [OF demo_crypto_laws(2) ok ok tail demo_no_collision] show ?thesis by (simp add: Let_def)
qed

text \<open>C33: paging is complete and exact. For any reachable log and any filter, a client that follows the
  cursors from the first page gets every matching record exactly once, newest first, opened,
  and after at most one page per record and a last one; in both stores.\<close>

theorem paging_exact:
  assumes "gcm_ok g" and "NewAESGCM g key = Inr enc"
    and "s = pg_appends c enc qs" and "m = mem_appends c enc ms"
  shows "walk (\<lambda>f. PgAudit_List enc org f s) (Suc (length (pg_log s org))) (f\<lparr>fl_Cursor := 0\<rparr>) =
      Some (map (opened enc) (rev (map aw_rec (filter (\<lambda>w. row_matches w (f\<lparr>fl_Cursor := 0\<rparr>)) (org_rows s org))))) \<and>
    walk (\<lambda>f. MemAudit_List enc org f m) (Suc (length (ma_byOrg m org))) (f\<lparr>fl_Cursor := 0\<rparr>) =
      Some (map (opened enc) (rev (filter (\<lambda>x. matches x f) (ma_byOrg m org))))"
proof -
  have ok: "org_log_ok c enc (pa_seq s) org (pg_log s org)" "org_log_ok c enc (ma_seq m) org (ma_byOrg m org)" "pa_up s"
    using reachable_logs [OF assms(1,2)] unfolding assms(3,4) log_ok_def by blast+
  let ?P = "map (opened enc) (rev (map aw_rec (filter (\<lambda>w. row_matches w (f\<lparr>fl_Cursor := 0\<rparr>)) (org_rows s org))))"
  let ?M = "map (opened enc) (rev (filter (\<lambda>x. matches x f) (ma_byOrg m org)))"
  have b0: "below 0 rs = rs" for rs by (simp add: below_def)
  have "descending ?P"
    using sorted_wrt_filter [of _ "org_rows s org" "\<lambda>w. row_matches w (f\<lparr>fl_Cursor := 0\<rparr>)"] ok(1)
    by (auto simp: descending_def org_log_ok_def pg_log_def rev_map [symmetric] sorted_wrt_rev sorted_wrt_map)
  moreover have "length ?P < Suc (length (pg_log s org))" by (simp add: pg_log_def less_Suc_eq_le)
  ultimately have "walk (\<lambda>f. PgAudit_List enc org f s) (Suc (length (pg_log s org))) (f\<lparr>fl_Cursor := 0\<rparr>) = Some (below 0 ?P)"
    using PgAudit_List_page [OF ok(1) _ ok(3)] clampLimit_pos(1) drop_0
    by (intro walk_pages [where limit = "nat (clampLimit (fl_Limit f))"]) (auto simp: b0 intro: exI [of _ 0])
  moreover have "length ?M < Suc (length (ma_byOrg m org))" by (simp add: less_Suc_eq_le)
  then have "walk (\<lambda>f. MemAudit_List enc org f m) (Suc (length (ma_byOrg m org))) (f\<lparr>fl_Cursor := 0\<rparr>) = Some (below 0 ?M)"
    using MemAudit_List_page [OF ok(2)] filter_descending [OF ok(2)] clampLimit_pos(1)
    by (intro walk_pages [where limit = "nat (clampLimit (fl_Limit f))"]) (auto simp: b0 intro: exI [of _ 0])
  ultimately show ?thesis unfolding b0 by blast
qed

theorem paging_exact_witness:
  "walk (\<lambda>f. MemAudit_List demo_enc ''org'' f NewMemAudit) 1
     \<lparr>fl_AgentID = [], fl_Verdict = [], fl_From = 0, fl_To = 0, fl_Limit = 0, fl_Cursor = 0\<rparr> = Some []"
  using paging_exact [OF demo_enc refl refl, where ms = "[]" and qs = "[]" and org = "''org''" and c = demo_crypto
      and f = "\<lparr>fl_AgentID = [], fl_Verdict = [], fl_From = 0, fl_To = 0, fl_Limit = 0, fl_Cursor = 0\<rparr>"]
  by (simp add: NewMemAudit_def)

end
