(* ===== verification/Audit_Writer.thy ===== *)
theory Audit_Writer
  imports Audit_Log
begin

text \<open>
  \<open>internal/audit/writer.go\<close>: the asynchronous writer between the request path and the audit
  store, as a step relation over the channel, the worker and concurrent callers, labelled by the
  calls of \<open>Enqueue\<close> and \<open>Close\<close> that completed. The record holds what the code holds and no history: what is
  shown relates the calls of a trace to what the store has become. Every record passed to \<open>Enqueue\<close> is
  handed to \<open>Append\<close> once, in the channel's order, or is still held or queued; and the worker
  always gets to it. A record whose \<open>Append\<close> fails is logged by \<open>persist\<close> and not retried: it
  is lost, here as there.
\<close>

section \<open>The asynchronous writer\<close>

text \<open>
  The channel, the record the worker holds between receiving and persisting it, the closed
  flag, whether the worker has exited, the counter \<open>inflt\<close> and the store.
\<close>

record 's Writer =
  aq_size :: nat
  aq_ch :: "AuditRecord list"
  aq_held :: "AuditRecord option"
  aq_closed :: bool
  aq_exited :: bool
  aq_inflt :: nat
  aq_store :: 's

type_synonym 's appender = "AuditRecord \<Rightarrow> 's \<Rightarrow> (audit_error + AuditRecord) \<times> 's"

definition DefaultQueueSize :: nat where "DefaultQueueSize = 1024"

definition NewWriter :: "'s \<Rightarrow> int \<Rightarrow> 's Writer" where
  "NewWriter store queueSize =
     \<lparr>aq_size = (if queueSize \<le> 0 then DefaultQueueSize else nat queueSize), aq_ch = [], aq_held = None,
      aq_closed = False, aq_exited = False, aq_inflt = 0, aq_store = store\<rparr>"

text \<open>\<open>persist\<close> hands a record to the store; an error is logged and the record dropped.\<close>

definition persist :: "'s appender \<Rightarrow> AuditRecord \<Rightarrow> 's Writer \<Rightarrow> 's Writer" where
  "persist app r w = w\<lparr>aq_store := snd (app r (aq_store w))\<rparr>"

text \<open>\<open>Enqueue\<close>: \<open>None\<close> is a send that blocks because the buffer is full. The read lock held
  across the send keeps \<open>Close\<close> out, so the send is one step.\<close>

definition Enqueue :: "'s appender \<Rightarrow> AuditRecord \<Rightarrow> 's Writer \<Rightarrow> 's Writer option" where
  "Enqueue app r w =
     (if aq_closed w then Some (persist app r w)
      else if length (aq_ch w) < aq_size w
      then Some (w\<lparr>aq_inflt := Suc (aq_inflt w), aq_ch := aq_ch w @ [r]\<rparr>)
      else None)"

definition Close :: "'s Writer \<Rightarrow> 's Writer" where
  "Close w = w\<lparr>aq_closed := True\<rparr>"

text \<open>The worker of \<open>Start\<close>: one iteration of its loop in two steps, and its exit on the closed, empty
  channel. \<open>None\<close>: the worker waits, or is gone.\<close>

definition worker_step :: "'s appender \<Rightarrow> 's Writer \<Rightarrow> 's Writer option" where
  "worker_step app w =
     (if aq_exited w then None
      else case aq_held w of
             Some r \<Rightarrow> Some ((persist app r w)\<lparr>aq_held := None, aq_inflt := aq_inflt w - 1\<rparr>)
           | None \<Rightarrow>
               (case aq_ch w of
                  r # rest \<Rightarrow> Some (w\<lparr>aq_ch := rest, aq_held := Some r\<rparr>)
                | [] \<Rightarrow> if aq_closed w then Some (w\<lparr>aq_exited := True\<rparr>) else None))"

text \<open>\<open>Flush\<close> returns when the counter is zero.\<close>

definition Flush_returns :: "'s Writer \<Rightarrow> bool" where
  "Flush_returns w \<longleftrightarrow> aq_inflt w = 0"

text \<open>What happens from outside: a call of \<open>Enqueue\<close> that completes, a call of \<open>Close\<close>, a move of the worker.\<close>

datatype writer_event = EnqueueCall AuditRecord | WorkerMove | CloseCall

inductive writer_step :: "'s appender \<Rightarrow> 's Writer \<Rightarrow> writer_event \<Rightarrow> 's Writer \<Rightarrow> bool" for app where
  enqueue: "Enqueue app r w = Some w' \<Longrightarrow> writer_step app w (EnqueueCall r) w'"
| work: "worker_step app w = Some w' \<Longrightarrow> writer_step app w WorkerMove w'"
| close: "writer_step app w CloseCall (Close w)"

inductive_simps writer_step_simps:
  "writer_step app w (EnqueueCall r) w'" "writer_step app w WorkerMove w'" "writer_step app w CloseCall w'"

inductive writer_trace :: "'s appender \<Rightarrow> 's \<Rightarrow> int \<Rightarrow> writer_event list \<Rightarrow> 's Writer \<Rightarrow> bool" for app store q where
  new: "writer_trace app store q [] (NewWriter store q)"
| step: "writer_trace app store q evs w \<Longrightarrow> writer_step app w e w' \<Longrightarrow> writer_trace app store q (evs @ [e]) w'"

text \<open>The records of the \<open>Enqueue\<close> calls of a trace, in order; those of the calls up to \<open>Close\<close> and from it on.\<close>

fun called :: "writer_event \<Rightarrow> AuditRecord list" where
  "called (EnqueueCall r) = [r]"
| "called e = []"

definition calls :: "writer_event list \<Rightarrow> AuditRecord list" where
  "calls evs = concat (map called evs)"

definition early_calls :: "writer_event list \<Rightarrow> AuditRecord list" where
  "early_calls evs = calls (takeWhile (\<lambda>e. e \<noteq> CloseCall) evs)"

definition late_calls :: "writer_event list \<Rightarrow> AuditRecord list" where
  "late_calls evs = calls (dropWhile (\<lambda>e. e \<noteq> CloseCall) evs)"

definition append_each :: "'s appender \<Rightarrow> AuditRecord list \<Rightarrow> 's \<Rightarrow> 's" where
  "append_each app rs s = fold (\<lambda>r s. snd (app r s)) rs s"

lemma append_each_snoc [simp]: "append_each app (rs @ [r]) s = snd (app r (append_each app rs s))"
  by (simp add: append_each_def)

lemma append_each_Nil [simp]: "append_each app [] s = s"
  by (simp add: append_each_def)

lemma calls_Nil [simp]: "calls [] = []" "early_calls [] = []" "late_calls [] = []"
  by (simp_all add: calls_def early_calls_def late_calls_def)

lemma calls_split: "calls evs = early_calls evs @ late_calls evs"
  unfolding early_calls_def late_calls_def calls_def
  by (metis concat_append map_append takeWhile_dropWhile_id)

lemma calls_snoc [simp]: "calls (evs @ [e]) = calls evs @ called e"
  by (simp add: calls_def)

lemma early_calls_snoc [simp]:
  "early_calls (evs @ [e]) = (if CloseCall \<in> set evs then early_calls evs else early_calls evs @ called e)"
  by (induction evs) (auto simp: early_calls_def calls_def)

lemma late_calls_snoc [simp]:
  "late_calls (evs @ [e]) = (if CloseCall \<in> set evs then late_calls evs @ called e else late_calls evs)"
proof (induction evs)
  case Nil
  show ?case by (cases e) (simp_all add: late_calls_def calls_def)
qed (auto simp: late_calls_def calls_def)

lemma late_calls_open: "CloseCall \<notin> set evs \<Longrightarrow> late_calls evs = []"
  by (induction evs) (auto simp: late_calls_def)

lemma snoc_in_shuffles_left: "zs \<in> shuffles xs ys \<Longrightarrow> zs @ [x] \<in> shuffles (xs @ [x]) ys"
proof (induction xs ys arbitrary: zs rule: shuffles.induct)
  case (1 ys)
  have "ys @ [x] \<in> shuffles [x] ys" by (induction ys) (auto simp: Cons_in_shuffles_iff)
  with 1 show ?case by simp
qed (auto simp: Cons_in_shuffles_iff)

lemma snoc_in_shuffles_right: "zs \<in> shuffles xs ys \<Longrightarrow> zs @ [y] \<in> shuffles xs (ys @ [y])"
  using snoc_in_shuffles_left [of zs ys xs y] by (simp add: shuffles_commutes)

section \<open>The invariant\<close>

definition held_list :: "'s Writer \<Rightarrow> AuditRecord list" where
  "held_list w = (case aq_held w of None \<Rightarrow> [] | Some r \<Rightarrow> [r])"

text \<open>\<open>drained\<close> is what the worker has handed to the store, \<open>handed\<close> everything the store was given, in
  the order of the \<open>Append\<close> calls.\<close>

definition accounted :: "'s appender \<Rightarrow> 's \<Rightarrow> writer_event list \<Rightarrow> 's Writer \<Rightarrow> AuditRecord list \<Rightarrow> AuditRecord list \<Rightarrow> bool" where
  "accounted app store evs w drained handed \<longleftrightarrow>
     early_calls evs = drained @ held_list w @ aq_ch w \<and>
     handed \<in> shuffles drained (late_calls evs) \<and>
     aq_store w = append_each app handed store"

definition writer_inv :: "'s appender \<Rightarrow> 's \<Rightarrow> writer_event list \<Rightarrow> 's Writer \<Rightarrow> bool" where
  "writer_inv app store evs w \<longleftrightarrow>
     (\<exists>drained handed. accounted app store evs w drained handed) \<and>
     0 < aq_size w \<and> length (aq_ch w) \<le> aq_size w \<and>
     aq_inflt w = length (held_list w) + length (aq_ch w) \<and>
     (aq_closed w \<longleftrightarrow> CloseCall \<in> set evs) \<and>
     (\<not> aq_exited w \<or> aq_closed w \<and> aq_ch w = [] \<and> aq_held w = None)"

lemma writer_inv_new: "writer_inv app store [] (NewWriter store q)"
  by (simp add: writer_inv_def accounted_def NewWriter_def held_list_def DefaultQueueSize_def)

lemma accounted_enqueue:
  assumes "Enqueue app r w = Some w'" and "aq_closed w \<longleftrightarrow> CloseCall \<in> set evs"
    and "accounted app store evs w drained handed"
  shows "accounted app store (evs @ [EnqueueCall r]) w' drained (if aq_closed w then handed @ [r] else handed)"
  using assms
  by (auto simp: accounted_def Enqueue_def persist_def held_list_def snoc_in_shuffles_right split: if_splits)

lemma accounted_work:
  assumes "worker_step app w = Some w'" and "accounted app store evs w drained handed"
  shows "accounted app store (evs @ [WorkerMove]) w' (drained @ held_list w) (handed @ held_list w)"
  using assms
  by (auto simp: accounted_def worker_step_def persist_def held_list_def snoc_in_shuffles_left
      split: if_splits option.splits list.splits)

lemma accounted_close:
  assumes "accounted app store evs w drained handed"
  shows "accounted app store (evs @ [CloseCall]) (Close w) drained handed"
  using assms by (auto simp: accounted_def Close_def held_list_def)

lemma writer_inv_step:
  assumes "writer_step app w e w'" and inv: "writer_inv app store evs w"
  shows "writer_inv app store (evs @ [e]) w'"
proof -
  from inv obtain drained handed where acc: "accounted app store evs w drained handed" by (auto simp: writer_inv_def)
  from assms(1) show ?thesis
  proof cases
    case (enqueue r)
    with inv accounted_enqueue [OF _ _ acc, of r w'] show ?thesis
      by (auto simp: writer_inv_def Enqueue_def persist_def held_list_def split: if_splits)
  next
    case work
    with inv accounted_work [OF _ acc] show ?thesis
      by (auto simp: writer_inv_def worker_step_def persist_def held_list_def split: if_splits option.splits list.splits)
  next
    case close
    with inv accounted_close [OF acc] show ?thesis by (auto simp: writer_inv_def Close_def held_list_def)
  qed
qed

lemma writer_trace_inv: "writer_trace app store q evs w \<Longrightarrow> writer_inv app store evs w"
  by (induction rule: writer_trace.induct) (simp_all add: writer_inv_new writer_inv_step)

lemma pending_enabled:
  assumes "writer_inv app store evs w" and "0 < aq_inflt w"
  shows "worker_step app w \<noteq> None \<and> (worker_step app w = Some w' \<longrightarrow> aq_exited w' = aq_exited w)"
  using assms by (auto simp: writer_inv_def worker_step_def persist_def held_list_def split: option.splits list.splits)

lemma blocked_pending:
  assumes "writer_inv app store evs w" and "Enqueue app r w = None"
  shows "\<not> aq_closed w \<and> 0 < aq_inflt w"
  using assms by (auto simp: writer_inv_def Enqueue_def split: if_splits)

section \<open>Fair runs\<close>

text \<open>An endless run with its events, in which the worker is not starved: infinitely often it is idle or moves.\<close>

definition fair_run :: "'s appender \<Rightarrow> (nat \<Rightarrow> 's Writer) \<Rightarrow> (nat \<Rightarrow> writer_event) \<Rightarrow> bool" where
  "fair_run app run ev \<longleftrightarrow>
     (\<forall>n. writer_step app (run n) (ev n) (run (Suc n))) \<and>
     (\<forall>n. \<exists>m \<ge> n. worker_step app (run m) = None \<or> ev m = WorkerMove)"

definition upto_event :: "(nat \<Rightarrow> writer_event) \<Rightarrow> nat \<Rightarrow> writer_event list" where
  "upto_event ev n = map ev [0..<n]"

lemma upto_event_Suc [simp]: "upto_event ev (Suc n) = upto_event ev n @ [ev n]"
  by (simp add: upto_event_def)

lemma fair_run_step: "fair_run app run ev \<Longrightarrow> writer_step app (run n) (ev n) (run (Suc n))"
  by (simp add: fair_run_def)

lemma fair_run_trace:
  assumes "fair_run app run ev" and "run 0 = NewWriter store q"
  shows "writer_trace app store q (upto_event ev n) (run n)"
proof (induction n)
  case 0
  then show ?case using writer_trace.new [of app store q] assms(2) by (simp add: upto_event_def)
next
  case (Suc n)
  from writer_trace.step [OF this fair_run_step [OF assms(1)]] show ?case by simp
qed

lemmas fair_run_inv = writer_trace_inv [OF fair_run_trace]

text \<open>Progress: a measure that no step raises and that every move of the worker lowers until the goal
  holds forces the goal.\<close>

lemma fair_leads_to:
  fixes mu :: "nat \<Rightarrow> nat"
  assumes fair: "fair_run app run ev"
    and mono: "\<And>m. n \<le> m \<Longrightarrow> mu (Suc m) \<le> mu m"
    and enabled: "\<And>m. n \<le> m \<Longrightarrow> \<not> goal m \<Longrightarrow> worker_step app (run m) \<noteq> None"
    and less: "\<And>m. n \<le> m \<Longrightarrow> \<not> goal m \<Longrightarrow> ev m = WorkerMove \<Longrightarrow> mu (Suc m) < mu m"
  shows "\<exists>m \<ge> n. goal m"
proof -
  have le: "mu k' \<le> mu k" if "n \<le> k" "k \<le> k'" for k k'
    using that(2) by (induction k' rule: dec_induct) (use mono that(1) in \<open>auto intro: order_trans\<close>)
  have "\<exists>m \<ge> k. goal m" if "n \<le> k" for k
    using that
  proof (induction "mu k" arbitrary: k rule: less_induct)
    case less
    from fair obtain m where m: "k \<le> m" "worker_step app (run m) = None \<or> ev m = WorkerMove"
      unfolding fair_run_def by blast
    show ?case
    proof (cases "goal m")
      case False
      with enabled [of m] m less.prems have "ev m = WorkerMove" by auto
      with assms(4) [of m] False m less.prems le [of k m] have "mu (Suc m) < mu k" by simp
      from less.hyps [OF this] m less.prems show ?thesis by (meson le_SucI order_trans)
    qed (use m in blast)
  qed
  then show ?thesis by blast
qed

text \<open>How far the worker is: twice the records it has handed over, plus one for the record it holds.\<close>

definition worker_pos :: "writer_event list \<Rightarrow> 's Writer \<Rightarrow> nat" where
  "worker_pos evs w = 2 * (length (early_calls evs) - aq_inflt w) + length (held_list w)"

lemma inflt_le_calls: "writer_inv app store evs w \<Longrightarrow> aq_inflt w \<le> length (early_calls evs)"
  by (auto simp: writer_inv_def accounted_def)

lemma worker_pos_le: "writer_inv app store evs w \<Longrightarrow> worker_pos evs w \<le> 2 * length (early_calls evs)"
  using inflt_le_calls [of app store evs w] by (auto simp: worker_pos_def writer_inv_def)

lemma step_progress:
  assumes "writer_step app w e w'" and inv: "writer_inv app store evs w"
  shows "worker_pos evs w \<le> worker_pos (evs @ [e]) w' \<and> (aq_exited w \<longrightarrow> aq_exited w') \<and>
    (e = WorkerMove \<longrightarrow> worker_pos evs w < worker_pos (evs @ [e]) w' \<or> aq_exited w' \<and> \<not> aq_exited w)"
  using assms(1)
proof cases
  case (enqueue r)
  with inv inflt_le_calls [OF inv] show ?thesis
    by (auto simp: worker_pos_def writer_inv_def Enqueue_def persist_def held_list_def split: if_splits)
next
  case work
  with inv inflt_le_calls [OF inv] show ?thesis
    by (auto simp: worker_pos_def writer_inv_def worker_step_def persist_def held_list_def
        split: if_splits option.splits list.splits)
next
  case close
  then show ?thesis by (simp add: Close_def worker_pos_def held_list_def)
qed

lemma early_calls_mono:
  assumes "n \<le> m"
  shows "(\<exists>new. early_calls (upto_event ev m) = early_calls (upto_event ev n) @ new) \<and>
    (CloseCall \<in> set (upto_event ev n) \<longrightarrow>
      CloseCall \<in> set (upto_event ev m) \<and> early_calls (upto_event ev m) = early_calls (upto_event ev n))"
  using assms
proof (induction m rule: dec_induct)
  case (step m)
  then show ?case by (auto split: if_splits)
qed simp

lemma fair_drains:
  assumes fair: "fair_run app run ev" and new: "run 0 = NewWriter store q"
  shows "\<exists>m \<ge> n. 2 * length (early_calls (upto_event ev n)) \<le> worker_pos (upto_event ev m) (run m)"
proof (rule fair_leads_to [OF fair, where mu = "\<lambda>m. 2 * length (early_calls (upto_event ev n)) - worker_pos (upto_event ev m) (run m)"])
  fix m assume "n \<le> m"
  note inv = fair_run_inv [OF fair new, of m]
  note p = step_progress [OF fair_run_step [OF fair, of m] inv]
  show "2 * length (early_calls (upto_event ev n)) - worker_pos (upto_event ev (Suc m)) (run (Suc m))
      \<le> 2 * length (early_calls (upto_event ev n)) - worker_pos (upto_event ev m) (run m)"
    using p by (intro diff_le_mono2) simp
  assume lt: "\<not> 2 * length (early_calls (upto_event ev n)) \<le> worker_pos (upto_event ev m) (run m)"
  from early_calls_mono [OF \<open>n \<le> m\<close>, of ev]
  have "length (early_calls (upto_event ev n)) \<le> length (early_calls (upto_event ev m))" by auto
  with lt have "0 < aq_inflt (run m)" by (cases "aq_inflt (run m)") (auto simp: worker_pos_def)
  note en = pending_enabled [OF inv this]
  from en show "worker_step app (run m) \<noteq> None" by blast
  assume w: "ev m = WorkerMove"
  with fair_run_step [OF fair, of m] have "worker_step app (run m) = Some (run (Suc m))" by (simp add: writer_step_simps)
  with en p w have "worker_pos (upto_event ev m) (run m) < worker_pos (upto_event ev (Suc m)) (run (Suc m))" by auto
  with lt show "2 * length (early_calls (upto_event ev n)) - worker_pos (upto_event ev (Suc m)) (run (Suc m))
      < 2 * length (early_calls (upto_event ev n)) - worker_pos (upto_event ev m) (run m)" by linarith
qed

lemma fair_exits:
  assumes fair: "fair_run app run ev" and new: "run 0 = NewWriter store q" and closed: "aq_closed (run n)"
  shows "\<exists>m \<ge> n. aq_exited (run m)"
proof (rule fair_leads_to [OF fair, where
    mu = "\<lambda>m. (2 * length (early_calls (upto_event ev n)) - worker_pos (upto_event ev m) (run m)) + (if aq_exited (run m) then 0 else 1)"])
  let ?d = "\<lambda>m. 2 * length (early_calls (upto_event ev n)) - worker_pos (upto_event ev m) (run m)"
  fix m assume "n \<le> m"
  note inv = fair_run_inv [OF fair new, of m]
  note h = step_progress [OF fair_run_step [OF fair, of m] inv]
  from closed fair_run_inv [OF fair new, of n] have "CloseCall \<in> set (upto_event ev n)" by (simp add: writer_inv_def)
  with early_calls_mono [OF \<open>n \<le> m\<close>, of ev] early_calls_mono [OF le_SucI [OF \<open>n \<le> m\<close>], of ev]
  have c: "CloseCall \<in> set (upto_event ev m)" "early_calls (upto_event ev (Suc m)) = early_calls (upto_event ev n)" by blast+
  show "?d (Suc m) + (if aq_exited (run (Suc m)) then 0 else 1) \<le> ?d m + (if aq_exited (run m) then 0 else 1)"
    using h by auto
  assume n: "\<not> aq_exited (run m)"
  moreover from c(1) inv have "aq_closed (run m)" by (simp add: writer_inv_def)
  ultimately show "worker_step app (run m) \<noteq> None" by (auto simp: worker_step_def split: option.splits list.splits)
  assume w: "ev m = WorkerMove"
  have "worker_pos (upto_event ev (Suc m)) (run (Suc m)) \<le> 2 * length (early_calls (upto_event ev n))"
    using worker_pos_le [OF fair_run_inv [OF fair new, of "Suc m"]] c(2) by simp
  with h n w show "?d (Suc m) + (if aq_exited (run (Suc m)) then 0 else 1) < ?d m + (if aq_exited (run m) then 0 else 1)"
    by auto
qed

text \<open>At that position everything sent before has been handed to the store.\<close>

lemma drained_at:
  assumes inv: "writer_inv app store evs w" and pos: "2 * length sent \<le> worker_pos evs w"
    and pre: "early_calls evs = sent @ new"
  shows "\<exists>rest handed. accounted app store evs w (sent @ rest) handed"
proof -
  from inv obtain drained handed where acc: "accounted app store evs w drained handed" by (auto simp: writer_inv_def)
  with inv have "length drained = length (early_calls evs) - aq_inflt w" by (auto simp: writer_inv_def accounted_def)
  moreover have "length (held_list w) \<le> 1" by (simp add: held_list_def split: option.splits)
  ultimately have "length sent \<le> length drained" using pos by (simp add: worker_pos_def)
  moreover have "drained @ held_list w @ aq_ch w = sent @ new" using acc pre by (simp add: accounted_def)
  ultimately obtain rest where "drained = sent @ rest" by (metis append_eq_append_conv_if append_take_drop_id)
  with acc show ?thesis by blast
qed

section \<open>Properties\<close>

text \<open>C34: nothing passed to \<open>Enqueue\<close> is dropped, duplicated or reordered. In every state the writer can reach, whatever
  the interleaving of callers, worker and \<open>Close\<close>: the records of all completed \<open>Enqueue\<close> calls are, in order, those
  the worker has handed to \<open>Append\<close>, the one it holds, those in the channel and, after \<open>Close\<close>, those their
  callers persisted inline; the store is what \<open>Append\<close> makes of the handed records, each once, in an order that keeps
  that of the worker and that of the late callers; the buffer is bounded, a call blocks only while the worker can move,
  and when \<open>Flush\<close> returns nothing is held or queued. A record whose \<open>Append\<close> fails is logged and lost.\<close>

theorem writer_no_loss:
  assumes "writer_trace app store q evs w"
  shows "\<exists>drained late handed.
    calls evs = drained @ held_list w @ aq_ch w @ late \<and> (aq_closed w \<or> late = []) \<and>
    handed \<in> shuffles drained late \<and> aq_store w = append_each app handed store \<and>
    length (aq_ch w) \<le> aq_size w \<and>
    (Enqueue app r w = None \<longrightarrow> worker_step app w \<noteq> None) \<and>
    (Flush_returns w \<longrightarrow> calls evs = drained @ late)"
proof -
  from writer_trace_inv [OF assms] have inv: "writer_inv app store evs w" .
  then obtain drained handed where acc: "accounted app store evs w drained handed" by (auto simp: writer_inv_def)
  have "aq_closed w \<or> late_calls evs = []" using inv late_calls_open by (auto simp: writer_inv_def)
  moreover have "worker_step app w \<noteq> None" if "Enqueue app r w = None"
    using pending_enabled [OF inv] blocked_pending [OF inv that] by blast
  moreover have "calls evs = drained @ late_calls evs" if "Flush_returns w"
    using that inv acc calls_split [of evs] by (simp add: writer_inv_def Flush_returns_def accounted_def)
  ultimately show ?thesis using inv acc calls_split [of evs]
    by (intro exI [of _ drained] exI [of _ "late_calls evs"] exI [of _ handed]) (simp add: writer_inv_def accounted_def)
qed

text \<open>C35: the queue drains into the store. In every run in which the worker is not starved: the records of all
  \<open>Enqueue\<close> calls completed so far are eventually handed to \<open>Append\<close>, the store being the result of appending them
  with the later ones; once \<open>Close\<close> has been called the worker eventually exits with every record of every call handed over,
  so that \<open>Close\<close> and \<open>Flush\<close> return; and an \<open>Enqueue\<close> that finds the buffer full eventually finds room. An \<open>Append\<close> that
  fails is not retried.\<close>

theorem writer_drains:
  assumes "fair_run app run ev" and "run 0 = NewWriter store q"
  shows "(\<exists>m \<ge> n. \<exists>more handed. handed \<in> shuffles (early_calls (upto_event ev n) @ more) (late_calls (upto_event ev m)) \<and>
      aq_store (run m) = append_each app handed store) \<and>
    (aq_closed (run n) \<longrightarrow> (\<exists>m \<ge> n. \<exists>handed. aq_exited (run m) \<and> Flush_returns (run m) \<and>
      mset handed = mset (calls (upto_event ev m)) \<and> aq_store (run m) = append_each app handed store)) \<and>
    (Enqueue app r (run n) = None \<longrightarrow> (\<exists>m \<ge> n. Enqueue app r (run m) \<noteq> None))"
proof -
  note inv = fair_run_inv [OF assms]
  have drains: "\<exists>m \<ge> n. \<exists>more handed. accounted app store (upto_event ev m) (run m) (early_calls (upto_event ev n) @ more) handed"
    using fair_drains [OF assms] early_calls_mono drained_at [OF inv] by meson
  have closes: "\<exists>m \<ge> n. \<exists>handed. aq_exited (run m) \<and> Flush_returns (run m) \<and>
      mset handed = mset (calls (upto_event ev m)) \<and> aq_store (run m) = append_each app handed store" if c: "aq_closed (run n)"
  proof -
    from fair_exits [OF assms c] obtain k where k: "n \<le> k" "aq_exited (run k)" by blast
    with inv [of k] obtain drained handed where "accounted app store (upto_event ev k) (run k) drained handed"
      and "aq_ch (run k) = []" "held_list (run k) = []" "Flush_returns (run k)"
      by (auto simp: writer_inv_def Flush_returns_def held_list_def)
    with k show ?thesis
      by (intro exI [of _ k] conjI exI [of _ handed]) (auto simp: accounted_def calls_split [of "upto_event ev k"] mset_shuffles)
  qed
  have unblocks: "\<exists>m \<ge> n. Enqueue app r (run m) \<noteq> None"
  proof (rule ccontr)
    assume "\<not> ?thesis"
    then have full: "Enqueue app r (run m) = None" if "n \<le> m" for m using that by blast
    have blocked: "called (ev m) = []" if "n \<le> m" for m
    proof (cases "ev m")
      case (EnqueueCall r')
      with fair_run_step [OF assms(1), of m] have "Enqueue app r' (run m) \<noteq> None" by (simp add: writer_step_simps)
      with full [OF that] show ?thesis by (simp add: Enqueue_def split: if_splits)
    qed simp_all
    have same: "early_calls (upto_event ev m) = early_calls (upto_event ev n)" if "n \<le> m" for m
      using that by (induction m rule: dec_induct) (simp_all add: blocked)
    from drains obtain m more handed where m: "n \<le> m"
      "accounted app store (upto_event ev m) (run m) (early_calls (upto_event ev n) @ more) handed" by blast
    with same [OF m(1)] have "held_list (run m) = []" "aq_ch (run m) = []" by (simp_all add: accounted_def)
    with blocked_pending [OF inv full [OF m(1)]] inv [of m] show False by (simp add: writer_inv_def)
  qed
  from drains closes unblocks show ?thesis unfolding accounted_def by blast
qed

text \<open>A store that records what it is given, and a run of one record through a buffer of one, closed at the end.\<close>

definition demo_app :: "AuditRecord list appender" where
  "demo_app r s = (Inr r, s @ [r])"

definition demo_rec :: AuditRecord where
  "demo_rec = RecordFromDecision ''org'' ''key''
     \<lparr>req_AgentID = ''agent'', req_Action = ''pay'', req_Amount = ''40'', req_Currency = ''USD'',
      req_Target = \<lparr>tgt_Type = TargetVendor, tgt_ID = ''shop''\<rparr>, req_Jurisdiction = [], req_Context = [],
      req_IdempotencyKey = ''idem-0001'', req_EvaluatedAt = [], req_CounterSnapshot = None\<rparr> demo_decision"

definition demo_events :: "nat \<Rightarrow> writer_event" where
  "demo_events n = (if n = 0 then EnqueueCall demo_rec else if n \<in> {1, 2, 4} then WorkerMove else CloseCall)"

fun demo_writer_run :: "nat \<Rightarrow> AuditRecord list Writer" where
  "demo_writer_run 0 = NewWriter [] 1"
| "demo_writer_run (Suc n) =
     (case demo_events n of
        EnqueueCall r \<Rightarrow> the (Enqueue demo_app r (demo_writer_run n))
      | WorkerMove \<Rightarrow> the (worker_step demo_app (demo_writer_run n))
      | CloseCall \<Rightarrow> Close (demo_writer_run n))"

lemma demo_writer_states:
  "demo_writer_run 0 = NewWriter [] 1"
  "demo_writer_run 1 = (NewWriter [] 1)\<lparr>aq_ch := [demo_rec], aq_inflt := 1\<rparr>"
  "demo_writer_run 2 = (NewWriter [] 1)\<lparr>aq_held := Some demo_rec, aq_inflt := 1\<rparr>"
  "demo_writer_run 3 = (NewWriter [] 1)\<lparr>aq_store := [demo_rec]\<rparr>"
  "demo_writer_run 4 = Close (demo_writer_run 3)"
  "demo_writer_run 5 = (Close (demo_writer_run 3))\<lparr>aq_exited := True\<rparr>"
  by (simp_all add: numeral_eq_Suc Enqueue_def NewWriter_def worker_step_def persist_def demo_app_def demo_events_def Close_def)

lemma demo_writer_end: "demo_writer_run (5 + n) = demo_writer_run 5"
proof (induction n)
  case (Suc n)
  have "demo_writer_run (5 + Suc n) = Close (demo_writer_run (5 + n))"
    by (simp only: add_Suc_right demo_writer_run.simps) (simp add: demo_events_def)
  then show ?case using Suc demo_writer_states(6) by (simp add: Close_def)
qed simp

lemma demo_writer_fair: "fair_run demo_app demo_writer_run demo_events"
proof -
  have late: "demo_writer_run n = demo_writer_run 5" if "5 \<le> n" for n
    using demo_writer_end [of "n - 5"] that by simp
  have idle: "worker_step demo_app (demo_writer_run 5) = None" by (simp add: demo_writer_states worker_step_def)
  have "writer_step demo_app (demo_writer_run n) (demo_events n) (demo_writer_run (Suc n))" for n
  proof -
    consider "n = 0" | "n = 1" | "n = 2" | "n = 4" | "n \<notin> {0, 1, 2, 4}" by blast
    then show ?thesis
    proof cases
      case 5
      then show ?thesis using writer_step.close [of demo_app "demo_writer_run n"] by (simp add: demo_events_def)
    qed (use demo_writer_states in \<open>simp_all add: writer_step_simps demo_events_def Enqueue_def NewWriter_def worker_step_def
          persist_def demo_app_def Close_def numeral_eq_Suc del: demo_writer_run.simps\<close>)
  qed
  moreover have "\<exists>m \<ge> n. worker_step demo_app (demo_writer_run m) = None" for n
    using late [of "n + 5"] idle by (intro exI [of _ "n + 5"]) simp
  ultimately show ?thesis unfolding fair_run_def by blast
qed

theorem writer_no_loss_witness:
  "\<exists>drained late handed. [demo_rec] = drained @ [demo_rec] @ late \<and> aq_store (demo_writer_run 2) = append_each demo_app handed []"
proof -
  note t = fair_run_trace [OF demo_writer_fair demo_writer_states(1), of 2]
  have "calls (upto_event demo_events 2) = [demo_rec]" by (simp add: numeral_eq_Suc upto_event_def calls_def demo_events_def)
  moreover have "held_list (demo_writer_run 2) @ aq_ch (demo_writer_run 2) = [demo_rec]"
    by (simp add: demo_writer_states held_list_def NewWriter_def del: demo_writer_run.simps)
  ultimately show ?thesis using writer_no_loss [OF t, of demo_rec] by (metis append_assoc)
qed

theorem writer_drains_witness:
  "\<exists>m \<ge> 4. \<exists>handed. aq_exited (demo_writer_run m) \<and> mset handed = mset (calls (upto_event demo_events m)) \<and>
     aq_store (demo_writer_run m) = append_each demo_app handed []"
proof -
  have "aq_closed (demo_writer_run 4)" by (simp add: demo_writer_states Close_def del: demo_writer_run.simps)
  with writer_drains [OF demo_writer_fair demo_writer_states(1), of 4] show ?thesis by blast
qed

end
