(* ===== verification/Auth_Stores.thy ===== *)
theory Auth_Stores
  imports Go_Text Go_Time
begin

text \<open>
  \<open>internal/auth\<close>, the stores: the key record, the in-memory, Postgres and Redis-cached
  key stores with their management operations (create, list, revoke, invalidate), and the
  in-memory and Redis nonce stores. The two nonce stores are shown to keep one contract,
  the locale \<open>nonce_store\<close>, which the authenticator's replay protection rests on; the
  Postgres store is shown to refine the in-memory one.
\<close>

section \<open>Key records\<close>

definition EnvLive :: string where "EnvLive = ''live''"
definition EnvTest :: string where "EnvTest = ''test''"
definition KeyStatusActive :: string where "KeyStatusActive = ''active''"
definition KeyStatusRevoked :: string where "KeyStatusRevoked = ''revoked''"

record KeyRecord =
  kr_KeyID :: string
  kr_KeyHashHex :: string
  kr_OrgID :: string
  kr_Tier :: string
  kr_Env :: string
  kr_Status :: string
  kr_Shadow :: bool

record KeyInfo =
  ki_KeyID :: string
  ki_OrgID :: string
  ki_Tier :: string
  ki_Env :: string
  ki_Status :: string
  ki_Shadow :: bool
  ki_CreatedAt :: gotime
  ki_RevokedAt :: "gotime option"

datatype key_error = ErrKeyNotFound | KeyStoreErr string

section \<open>The in-memory key store\<close>

record memInfo =
  mi_createdAt :: gotime
  mi_revokedAt :: "gotime option"

text \<open>The maps as association lists; Go's iteration order is the list order, any order is
  possible.\<close>

record MemKeyStore =
  mk_keys :: "(string \<times> KeyRecord) list"
  mk_info :: "(string \<times> memInfo) list"

definition memInfo_zero :: memInfo where
  "memInfo_zero = \<lparr>mi_createdAt = 0, mi_revokedAt = None\<rparr>"

definition memInfo_at :: "MemKeyStore \<Rightarrow> string \<Rightarrow> memInfo" where
  "memInfo_at m kid = (case map_of (mk_info m) kid of Some i \<Rightarrow> i | None \<Rightarrow> memInfo_zero)"

fun NewMemKeyStore :: "gotime \<Rightarrow> KeyRecord list \<Rightarrow> MemKeyStore \<Rightarrow> MemKeyStore" where
  "NewMemKeyStore now [] m = m"
| "NewMemKeyStore now (r # rs) m =
     NewMemKeyStore now rs
       (m\<lparr>mk_keys := alist_put (kr_KeyID r) r (mk_keys m),
          mk_info := alist_put (kr_KeyID r) \<lparr>mi_createdAt = now, mi_revokedAt = None\<rparr> (mk_info m)\<rparr>)"

definition MemKeyStore_Put :: "KeyRecord \<Rightarrow> MemKeyStore \<Rightarrow> MemKeyStore" where
  "MemKeyStore_Put r m = m\<lparr>mk_keys := alist_put (kr_KeyID r) r (mk_keys m)\<rparr>"

definition MemKeyStore_LookupByID :: "string \<Rightarrow> MemKeyStore \<Rightarrow> key_error + KeyRecord" where
  "MemKeyStore_LookupByID keyID m =
     (case map_of (mk_keys m) keyID of None \<Rightarrow> Inl ErrKeyNotFound | Some r \<Rightarrow> Inr r)"

definition MemKeyStore_CreateKey :: "KeyRecord \<Rightarrow> gotime \<Rightarrow> MemKeyStore \<Rightarrow> MemKeyStore" where
  "MemKeyStore_CreateKey rec createdAt m =
     m\<lparr>mk_keys := alist_put (kr_KeyID rec) rec (mk_keys m),
       mk_info := alist_put (kr_KeyID rec) \<lparr>mi_createdAt = createdAt, mi_revokedAt = None\<rparr> (mk_info m)\<rparr>"

definition infoOf :: "memInfo \<Rightarrow> KeyRecord \<Rightarrow> KeyInfo" where
  "infoOf meta rec =
     \<lparr>ki_KeyID = kr_KeyID rec, ki_OrgID = kr_OrgID rec, ki_Tier = kr_Tier rec, ki_Env = kr_Env rec,
      ki_Status = kr_Status rec, ki_Shadow = kr_Shadow rec,
      ki_CreatedAt = mi_createdAt meta, ki_RevokedAt = mi_revokedAt meta\<rparr>"

text \<open>A stable sort, newest first.\<close>

definition sortByCreatedDesc :: "KeyInfo list \<Rightarrow> KeyInfo list" where
  "sortByCreatedDesc xs = sort_key (\<lambda>k. - ki_CreatedAt k) xs"

definition MemKeyStore_ListKeys :: "string \<Rightarrow> MemKeyStore \<Rightarrow> KeyInfo list" where
  "MemKeyStore_ListKeys orgID m =
     sortByCreatedDesc
       (map (\<lambda>(kid, rec). infoOf (memInfo_at m kid) rec)
         (filter (\<lambda>(_, rec). kr_OrgID rec = orgID) (mk_keys m)))"

definition MemKeyStore_RevokeKey ::
  "string \<Rightarrow> string \<Rightarrow> gotime \<Rightarrow> MemKeyStore \<Rightarrow> (key_error + KeyInfo) \<times> MemKeyStore" where
  "MemKeyStore_RevokeKey orgID keyID revoked m =
     (case map_of (mk_keys m) keyID of
        None \<Rightarrow> (Inl ErrKeyNotFound, m)
      | Some rec \<Rightarrow>
          if kr_OrgID rec \<noteq> orgID then (Inl ErrKeyNotFound, m)
          else let rec' = rec\<lparr>kr_Status := KeyStatusRevoked\<rparr>;
                   inf = (memInfo_at m keyID)\<lparr>mi_revokedAt := Some revoked\<rparr>
               in (Inr (infoOf inf rec'),
                   m\<lparr>mk_keys := alist_put keyID rec' (mk_keys m),
                     mk_info := alist_put keyID inf (mk_info m)\<rparr>))"

section \<open>The Postgres key store\<close>

text \<open>
  The \<open>api_keys\<close> table: rows by primary key \<open>key_id\<close>, with its two check constraints and
  the unique index on the hash (\<open>deploy/migrations/0001_api_keys.sql\<close>). \<open>pk_up\<close> says whether
  the next statement reaches the database.
\<close>

record key_row =
  row_rec :: KeyRecord
  row_created :: gotime
  row_revoked :: "gotime option"

record PostgresKeyStore =
  pk_up :: bool
  pk_rows :: "(string \<times> key_row) list"

definition row_ok :: "KeyRecord \<Rightarrow> bool" where
  "row_ok r \<longleftrightarrow> (kr_Env r = EnvLive \<or> kr_Env r = EnvTest) \<and>
     (kr_Status r = KeyStatusActive \<or> kr_Status r = KeyStatusRevoked)"

definition Postgres_LookupByID :: "string \<Rightarrow> PostgresKeyStore \<Rightarrow> key_error + KeyRecord" where
  "Postgres_LookupByID keyID s =
     (if \<not> pk_up s then Inl (KeyStoreErr ''auth: key lookup'')
      else case map_of (pk_rows s) keyID of
             None \<Rightarrow> Inl ErrKeyNotFound
           | Some row \<Rightarrow> Inr (row_rec row))"

definition pk_insert :: "string \<Rightarrow> KeyRecord \<Rightarrow> gotime \<Rightarrow> PostgresKeyStore \<Rightarrow> key_error option \<times> PostgresKeyStore" where
  "pk_insert what rec created s =
     (if \<not> pk_up s \<or> \<not> row_ok rec \<or> map_of (pk_rows s) (kr_KeyID rec) \<noteq> None
          \<or> list_ex (\<lambda>(_, row). kr_KeyHashHex (row_rec row) = kr_KeyHashHex rec) (pk_rows s)
      then (Some (KeyStoreErr what), s)
      else (None, s\<lparr>pk_rows := pk_rows s @
              [(kr_KeyID rec, \<lparr>row_rec = rec, row_created = created, row_revoked = None\<rparr>)]\<rparr>))"

text \<open>\<open>Insert\<close> lets the column default fill \<open>created_at\<close> with the database clock.\<close>

definition Postgres_Insert :: "gotime \<Rightarrow> KeyRecord \<Rightarrow> PostgresKeyStore \<Rightarrow> key_error option \<times> PostgresKeyStore" where
  "Postgres_Insert db_now rec s = pk_insert ''auth: key insert'' rec db_now s"

definition Postgres_CreateKey :: "KeyRecord \<Rightarrow> gotime \<Rightarrow> PostgresKeyStore \<Rightarrow> key_error option \<times> PostgresKeyStore" where
  "Postgres_CreateKey rec createdAt s = pk_insert ''auth: key create'' rec createdAt s"

definition row_info :: "key_row \<Rightarrow> KeyInfo" where
  "row_info row = infoOf \<lparr>mi_createdAt = row_created row, mi_revokedAt = row_revoked row\<rparr> (row_rec row)"

definition Postgres_ListKeys :: "string \<Rightarrow> PostgresKeyStore \<Rightarrow> key_error + KeyInfo list" where
  "Postgres_ListKeys orgID s =
     (if \<not> pk_up s then Inl (KeyStoreErr ''auth: key list'')
      else Inr (sort_key (\<lambda>k. - ki_CreatedAt k)
             (map (\<lambda>(_, row). row_info row) (filter (\<lambda>(_, row). kr_OrgID (row_rec row) = orgID) (pk_rows s)))))"

definition Postgres_RevokeKey ::
  "string \<Rightarrow> string \<Rightarrow> gotime \<Rightarrow> PostgresKeyStore \<Rightarrow> (key_error + KeyInfo) \<times> PostgresKeyStore" where
  "Postgres_RevokeKey orgID keyID revoked s =
     (if \<not> pk_up s then (Inl (KeyStoreErr ''auth: key revoke''), s)
      else case map_of (pk_rows s) keyID of
             None \<Rightarrow> (Inl ErrKeyNotFound, s)
           | Some row \<Rightarrow>
               if kr_OrgID (row_rec row) \<noteq> orgID then (Inl ErrKeyNotFound, s)
               else let row' = row\<lparr>row_rec := (row_rec row)\<lparr>kr_Status := ''revoked''\<rparr>, row_revoked := Some revoked\<rparr>
                    in (Inr (row_info row'), s\<lparr>pk_rows := alist_put keyID row' (pk_rows s)\<rparr>))"

section \<open>The key cache\<close>

text \<open>
  Redis entries under \<open>authkey:\<close> with their expiry in milliseconds. An entry holds the JSON
  of a record; \<open>None\<close> stands for bytes that do not unmarshal. Encoding a record and
  decoding it again gives the record.
\<close>

record RedisKeyCache =
  kc_up :: bool
  kc_keys :: "string \<Rightarrow> (KeyRecord option \<times> int) option"

definition keyCachePrefix :: string where "keyCachePrefix = ''authkey:''"

definition kc_ms :: "gotime \<Rightarrow> int" where "kc_ms t = t div 1000000"

definition KeyCache_Get :: "gotime \<Rightarrow> string \<Rightarrow> RedisKeyCache \<Rightarrow> key_error + KeyRecord option" where
  "KeyCache_Get now keyID c =
     (if \<not> kc_up c then Inl (KeyStoreErr ''auth: key cache get'')
      else case kc_keys c (keyCachePrefix @ keyID) of
             Some (Some rec, ex) \<Rightarrow> if kc_ms now \<le> ex then Inr (Some rec) else Inr None
           | _ \<Rightarrow> Inr None)"

definition KeyCache_Set :: "gotime \<Rightarrow> KeyRecord \<Rightarrow> duration \<Rightarrow> RedisKeyCache \<Rightarrow> key_error option \<times> RedisKeyCache" where
  "KeyCache_Set now rec ttl c =
     (if \<not> kc_up c then (Some (KeyStoreErr ''auth: key cache set''), c)
      else (None, c\<lparr>kc_keys := (kc_keys c)(keyCachePrefix @ kr_KeyID rec \<mapsto> (Some rec, kc_ms now + kc_ms ttl))\<rparr>))"

definition KeyCache_Invalidate :: "string \<Rightarrow> RedisKeyCache \<Rightarrow> key_error option \<times> RedisKeyCache" where
  "KeyCache_Invalidate keyID c =
     (if \<not> kc_up c then (Some (KeyStoreErr ''auth: key cache del''), c)
      else (None, c\<lparr>kc_keys := (kc_keys c)(keyCachePrefix @ keyID := None)\<rparr>))"

text \<open>\<open>CachedKeyStore\<close>: the source's lookup is an argument. A failed cache write does not
  fail the lookup.\<close>

definition CachedKeyStore_LookupByID ::
  "(string \<Rightarrow> 's \<Rightarrow> key_error + KeyRecord) \<Rightarrow> duration \<Rightarrow> gotime \<Rightarrow> string \<Rightarrow> RedisKeyCache \<times> 's
    \<Rightarrow> (key_error + KeyRecord) \<times> RedisKeyCache \<times> 's" where
  "CachedKeyStore_LookupByID source ttl now keyID w =
     (case KeyCache_Get now keyID (fst w) of
        Inl e \<Rightarrow> (Inl e, w)
      | Inr (Some rec) \<Rightarrow> (Inr rec, w)
      | Inr None \<Rightarrow>
          (case source keyID (snd w) of
             Inl e \<Rightarrow> (Inl e, w)
           | Inr rec \<Rightarrow> (Inr rec, snd (KeyCache_Set now rec ttl (fst w)), snd w)))"

text \<open>A sequence of lookups, each at its own time.\<close>

primrec cached_lookups :: "(string \<Rightarrow> 's \<Rightarrow> key_error + KeyRecord) \<Rightarrow> duration \<Rightarrow> (gotime \<times> string) list
    \<Rightarrow> RedisKeyCache \<times> 's \<Rightarrow> RedisKeyCache \<times> 's" where
  "cached_lookups source ttl [] w = w"
| "cached_lookups source ttl (q # qs) w =
     cached_lookups source ttl qs (snd (CachedKeyStore_LookupByID source ttl (fst q) (snd q) w))"

section \<open>Nonce stores\<close>

type_synonym MemNonceStore = "string \<Rightarrow> gotime option"

definition NewMemNonceStore :: MemNonceStore where
  "NewMemNonceStore = (\<lambda>_. None)"

definition mem_nonce_key :: "string \<Rightarrow> string \<Rightarrow> string" where
  "mem_nonce_key keyID nonce = keyID @ [CHR 0x00] @ nonce"

definition MemNonce_Remember ::
  "gotime \<Rightarrow> string \<Rightarrow> string \<Rightarrow> duration \<Rightarrow> MemNonceStore \<Rightarrow> (key_error + bool) \<times> MemNonceStore" where
  "MemNonce_Remember now keyID nonce ttl seen =
     (let k = mem_nonce_key keyID nonce in
      case seen k of
        Some ex \<Rightarrow> if ex > now then (Inr False, seen) else (Inr True, seen(k \<mapsto> now + ttl))
      | None \<Rightarrow> (Inr True, seen(k \<mapsto> now + ttl)))"

record RedisNonceStore =
  rn_up :: bool
  rn_keys :: "string \<Rightarrow> int option"

definition noncePrefix :: string where "noncePrefix = ''authnonce:''"

definition redis_nonce_key :: "string \<Rightarrow> string \<Rightarrow> string" where
  "redis_nonce_key keyID nonce = noncePrefix @ keyID @ '':'' @ nonce"

text \<open>\<open>SET key 1 NX PX ttl\<close>: the key is live up to and including its expiry millisecond.\<close>

definition RedisNonce_Remember ::
  "gotime \<Rightarrow> string \<Rightarrow> string \<Rightarrow> duration \<Rightarrow> RedisNonceStore \<Rightarrow> (key_error + bool) \<times> RedisNonceStore" where
  "RedisNonce_Remember now keyID nonce ttl s =
     (if \<not> rn_up s then (Inl (KeyStoreErr ''auth: nonce setnx''), s)
      else let k = redis_nonce_key keyID nonce in
        (case rn_keys s k of
           Some ex \<Rightarrow> if kc_ms now \<le> ex then (Inr False, s)
                      else (Inr True, s\<lparr>rn_keys := (rn_keys s)(k \<mapsto> kc_ms now + kc_ms ttl)\<rparr>)
         | None \<Rightarrow> (Inr True, s\<lparr>rn_keys := (rn_keys s)(k \<mapsto> kc_ms now + kc_ms ttl)\<rparr>)))"

section \<open>The nonce contract\<close>

text \<open>
  What replay protection needs of a nonce store: a nonce that was fresh is remembered for
  its time to live, whatever else is remembered meanwhile and whatever the store's
  availability, and while it is remembered it is never fresh again. \<open>kept s k n x\<close> reads:
  in state \<open>s\<close> the nonce \<open>n\<close> of key \<open>k\<close> is remembered for all times before \<open>x\<close>. Times to
  live are whole milliseconds.
\<close>

locale nonce_store =
  fixes Remember :: "gotime \<Rightarrow> string \<Rightarrow> string \<Rightarrow> duration \<Rightarrow> 's \<Rightarrow> (key_error + bool) \<times> 's"
    and kept :: "'s \<Rightarrow> string \<Rightarrow> string \<Rightarrow> gotime \<Rightarrow> bool"
  assumes fresh_kept: "Remember t k n ttl s = (Inr True, s') \<Longrightarrow> 1000000 dvd ttl \<Longrightarrow> kept s' k n (t + ttl)"
    and kept_refused: "kept s k n x \<Longrightarrow> t < x \<Longrightarrow> Remember t k n ttl s = (Inr b, s') \<Longrightarrow> \<not> b"
    and kept_stays: "kept s k n x \<Longrightarrow> t < x \<Longrightarrow> Remember t k' n' ttl s = (r, s') \<Longrightarrow> kept s' k n x"

definition mem_kept :: "MemNonceStore \<Rightarrow> string \<Rightarrow> string \<Rightarrow> gotime \<Rightarrow> bool" where
  "mem_kept s k n x \<longleftrightarrow> (\<exists>ex. s (mem_nonce_key k n) = Some ex \<and> x \<le> ex)"

interpretation mem_nonces: nonce_store MemNonce_Remember mem_kept
proof unfold_locales
  fix t k n ttl s s'
  show "MemNonce_Remember t k n ttl s = (Inr True, s') \<Longrightarrow> 1000000 dvd ttl \<Longrightarrow> mem_kept s' k n (t + ttl)"
    by (auto simp: MemNonce_Remember_def mem_kept_def Let_def split: option.splits if_splits)
next
  fix s k n x t ttl b s'
  show "mem_kept s k n x \<Longrightarrow> t < x \<Longrightarrow> MemNonce_Remember t k n ttl s = (Inr b, s') \<Longrightarrow> \<not> b"
    by (auto simp: MemNonce_Remember_def mem_kept_def Let_def split: option.splits if_splits)
next
  fix s k n x t k' n' ttl r s'
  assume kept: "mem_kept s k n x" and t: "t < x"
    and call: "MemNonce_Remember t k' n' ttl s = (r, s')"
  show "mem_kept s' k n x"
  proof (cases "mem_nonce_key k' n' = mem_nonce_key k n")
    case True
    with kept t call show ?thesis
      by (auto simp: MemNonce_Remember_def mem_kept_def Let_def split: option.splits if_splits)
  next
    case False
    then have "s' (mem_nonce_key k n) = s (mem_nonce_key k n)"
      using call by (auto simp: MemNonce_Remember_def Let_def split: option.splits if_splits)
    with kept show ?thesis by (simp add: mem_kept_def)
  qed
qed

definition redis_kept :: "RedisNonceStore \<Rightarrow> string \<Rightarrow> string \<Rightarrow> gotime \<Rightarrow> bool" where
  "redis_kept s k n x \<longleftrightarrow> (\<exists>ex. rn_keys s (redis_nonce_key k n) = Some ex \<and> (\<forall>t < x. kc_ms t \<le> ex))"

lemma kc_ms_ttl: "1000000 dvd ttl \<Longrightarrow> t' < t + ttl \<Longrightarrow> kc_ms t' \<le> kc_ms t + kc_ms ttl"
proof -
  assume "1000000 dvd ttl" and "t' < t + ttl"
  then have "(t + ttl) div 1000000 = t div 1000000 + ttl div 1000000" by (simp add: div_plus_div_distrib_dvd_right)
  moreover from \<open>t' < t + ttl\<close> have "t' div 1000000 \<le> (t + ttl) div 1000000" by (simp add: zdiv_mono1)
  ultimately show ?thesis by (simp add: kc_ms_def)
qed

interpretation redis_nonces: nonce_store RedisNonce_Remember redis_kept
proof unfold_locales
  fix t k n ttl s s'
  show "RedisNonce_Remember t k n ttl s = (Inr True, s') \<Longrightarrow> 1000000 dvd ttl \<Longrightarrow> redis_kept s' k n (t + ttl)"
    by (auto simp: RedisNonce_Remember_def redis_kept_def Let_def kc_ms_ttl split: option.splits if_splits)
next
  fix s k n x t ttl b s'
  show "redis_kept s k n x \<Longrightarrow> t < x \<Longrightarrow> RedisNonce_Remember t k n ttl s = (Inr b, s') \<Longrightarrow> \<not> b"
    by (auto simp: RedisNonce_Remember_def redis_kept_def Let_def split: option.splits if_splits)
next
  fix s k n x t k' n' ttl r s'
  assume kept: "redis_kept s k n x" and t: "t < x"
    and call: "RedisNonce_Remember t k' n' ttl s = (r, s')"
  show "redis_kept s' k n x"
  proof (cases "redis_nonce_key k' n' = redis_nonce_key k n")
    case True
    with kept t call show ?thesis
      by (auto simp: RedisNonce_Remember_def redis_kept_def Let_def split: option.splits if_splits)
  next
    case False
    then have "rn_keys s' (redis_nonce_key k n) = rn_keys s (redis_nonce_key k n)"
      using call by (auto simp: RedisNonce_Remember_def Let_def split: option.splits if_splits)
    with kept show ?thesis by (simp add: redis_kept_def)
  qed
qed

section \<open>The key store contract\<close>

text \<open>What the clients of a key store with management operations rely on.\<close>

locale key_store =
  fixes Lookup :: "string \<Rightarrow> 's \<Rightarrow> key_error + KeyRecord"
    and Create :: "KeyRecord \<Rightarrow> gotime \<Rightarrow> 's \<Rightarrow> key_error option \<times> 's"
    and Revoke :: "string \<Rightarrow> string \<Rightarrow> gotime \<Rightarrow> 's \<Rightarrow> (key_error + KeyInfo) \<times> 's"
    and List :: "string \<Rightarrow> 's \<Rightarrow> key_error + KeyInfo list"
    and inv :: "'s \<Rightarrow> bool"
  assumes lookup_id: "inv s \<Longrightarrow> Lookup k s = Inr r \<Longrightarrow> kr_KeyID r = k"
    and create_lookup: "Create r t s = (None, s') \<Longrightarrow> inv s \<Longrightarrow> inv s' \<and> Lookup (kr_KeyID r) s' = Inr r"
    and create_other: "Create r t s = (oe, s') \<Longrightarrow> k \<noteq> kr_KeyID r \<Longrightarrow> Lookup k s' = Lookup k s"
    and create_fails: "Create r t s = (Some e, s') \<Longrightarrow> s' = s"
    and revoke_lookup: "Revoke org k t s = (Inr i, s') \<Longrightarrow> inv s \<Longrightarrow> inv s' \<and>
        (\<exists>r. Lookup k s = Inr r \<and> kr_OrgID r = org \<and> Lookup k s' = Inr (r\<lparr>kr_Status := KeyStatusRevoked\<rparr>)
           \<and> ki_Status i = KeyStatusRevoked \<and> ki_KeyID i = kr_KeyID r \<and> ki_RevokedAt i = Some t)"
    and revoke_other: "Revoke org k t s = (x, s') \<Longrightarrow> k' \<noteq> k \<Longrightarrow> Lookup k' s' = Lookup k' s"
    and revoke_fails: "Revoke org k t s = (Inl e, s') \<Longrightarrow> s' = s"
    and list_org: "inv s \<Longrightarrow> List org s = Inr infos \<Longrightarrow>
        sorted_wrt (\<lambda>a b. ki_CreatedAt b \<le> ki_CreatedAt a) infos \<and>
        (\<forall>i \<in> set infos. \<exists>r. Lookup (ki_KeyID i) s = Inr r \<and> kr_OrgID r = org \<and> kr_Status r = ki_Status i)"
    and list_complete: "inv s \<Longrightarrow> List org s = Inr infos \<Longrightarrow> Lookup k s = Inr r \<Longrightarrow> kr_OrgID r = org \<Longrightarrow>
        k \<in> ki_KeyID ` set infos"

text \<open>Both stores keep their rows under the row's own key id, at most one row each.\<close>

definition keyed :: "('v \<Rightarrow> string) \<Rightarrow> (string \<times> 'v) list \<Rightarrow> bool" where
  "keyed f xs \<longleftrightarrow> distinct (map fst xs) \<and> (\<forall>(k, v) \<in> set xs. f v = k)"

lemma keyed_alist_put: "keyed f xs \<Longrightarrow> f v = k \<Longrightarrow> keyed f (alist_put k v xs)"
  using set_alist_put [of k v xs] by (fastforce simp: keyed_def)

lemma keyed_lookup: "keyed f xs \<Longrightarrow> (k, v) \<in> set xs \<Longrightarrow> map_of xs k = Some v"
  by (simp add: keyed_def)

lemma keyed_id: "keyed f xs \<Longrightarrow> map_of xs k = Some v \<Longrightarrow> f v = k"
  by (auto simp: keyed_def dest!: map_of_SomeD)

lemma sort_key_desc: "sorted_wrt (\<lambda>a b. f b \<le> f a) (sort_key (\<lambda>x. - f x :: int) xs)"
proof -
  have "sorted_wrt (\<lambda>a b. - f a \<le> - f b) (sort_key (\<lambda>x. - f x) xs)"
    using sorted_sort_key [of "\<lambda>x. - f x" xs] by (simp add: sorted_wrt_map)
  then show ?thesis by simp
qed

definition mem_create :: "KeyRecord \<Rightarrow> gotime \<Rightarrow> MemKeyStore \<Rightarrow> key_error option \<times> MemKeyStore" where
  "mem_create r t m = (None, MemKeyStore_CreateKey r t m)"

definition mem_list :: "string \<Rightarrow> MemKeyStore \<Rightarrow> key_error + KeyInfo list" where
  "mem_list org m = Inr (MemKeyStore_ListKeys org m)"

definition mem_keys_inv :: "MemKeyStore \<Rightarrow> bool" where
  "mem_keys_inv m \<longleftrightarrow> keyed kr_KeyID (mk_keys m)"

lemmas mem_key_defs = MemKeyStore_LookupByID_def mem_create_def MemKeyStore_CreateKey_def
  MemKeyStore_RevokeKey_def mem_list_def MemKeyStore_ListKeys_def mem_keys_inv_def infoOf_def sortByCreatedDesc_def

interpretation mem_keys: key_store MemKeyStore_LookupByID mem_create MemKeyStore_RevokeKey mem_list mem_keys_inv
proof unfold_locales
  fix s k r
  show "mem_keys_inv s \<Longrightarrow> MemKeyStore_LookupByID k s = Inr r \<Longrightarrow> kr_KeyID r = k"
    by (auto simp: mem_keys_inv_def MemKeyStore_LookupByID_def dest: keyed_id split: option.splits)
next
  fix r t s s' e k
  show "mem_create r t s = (None, s') \<Longrightarrow> mem_keys_inv s \<Longrightarrow>
      mem_keys_inv s' \<and> MemKeyStore_LookupByID (kr_KeyID r) s' = Inr r"
    by (auto simp: mem_key_defs keyed_alist_put)
  show "mem_create r t s = (e, s') \<Longrightarrow> k \<noteq> kr_KeyID r \<Longrightarrow>
      MemKeyStore_LookupByID k s' = MemKeyStore_LookupByID k s"
    by (auto simp: mem_key_defs)
next
  fix r t s e s'
  show "mem_create r t s = (Some e, s') \<Longrightarrow> s' = s" by (simp add: mem_create_def)
next
  fix org k t s i s'
  assume "MemKeyStore_RevokeKey org k t s = (Inr i, s')" and inv: "mem_keys_inv s"
  then obtain r where r: "map_of (mk_keys s) k = Some r" "kr_OrgID r = org"
    and s': "mk_keys s' = alist_put k (r\<lparr>kr_Status := KeyStatusRevoked\<rparr>) (mk_keys s)"
    and i: "i = infoOf ((memInfo_at s k)\<lparr>mi_revokedAt := Some t\<rparr>) (r\<lparr>kr_Status := KeyStatusRevoked\<rparr>)"
    by (auto simp: MemKeyStore_RevokeKey_def Let_def split: option.splits if_splits)
  from inv r have "kr_KeyID r = k" by (auto simp: mem_keys_inv_def dest: keyed_id)
  with inv have "mem_keys_inv s'" by (simp add: mem_keys_inv_def s' keyed_alist_put)
  with r s' i show "mem_keys_inv s' \<and> (\<exists>r. MemKeyStore_LookupByID k s = Inr r \<and> kr_OrgID r = org \<and>
      MemKeyStore_LookupByID k s' = Inr (r\<lparr>kr_Status := KeyStatusRevoked\<rparr>)
      \<and> ki_Status i = KeyStatusRevoked \<and> ki_KeyID i = kr_KeyID r \<and> ki_RevokedAt i = Some t)"
    by (simp add: MemKeyStore_LookupByID_def infoOf_def)
next
  fix org k t s x s' k'
  show "MemKeyStore_RevokeKey org k t s = (x, s') \<Longrightarrow> k' \<noteq> k \<Longrightarrow>
      MemKeyStore_LookupByID k' s' = MemKeyStore_LookupByID k' s"
    by (auto simp: mem_key_defs Let_def split: option.splits if_splits)
next
  fix org k t s e s'
  show "MemKeyStore_RevokeKey org k t s = (Inl e, s') \<Longrightarrow> s' = s"
    by (auto simp: MemKeyStore_RevokeKey_def Let_def split: option.splits if_splits)
next
  fix s org infos
  assume inv: "mem_keys_inv s" and l: "mem_list org s = Inr infos"
  have "\<exists>r. MemKeyStore_LookupByID (ki_KeyID i) s = Inr r \<and> kr_OrgID r = org \<and> kr_Status r = ki_Status i"
    if "i \<in> set infos" for i
  proof -
    from that l obtain k r where kr: "(k, r) \<in> set (mk_keys s)" "kr_OrgID r = org" "ki_KeyID i = kr_KeyID r" "ki_Status i = kr_Status r"
      by (auto simp: mem_list_def MemKeyStore_ListKeys_def infoOf_def sortByCreatedDesc_def)
    with inv have "kr_KeyID r = k" and "map_of (mk_keys s) k = Some r"
      by (auto simp: mem_keys_inv_def keyed_def)
    with kr show ?thesis by (simp add: MemKeyStore_LookupByID_def)
  qed
  with l show "sorted_wrt (\<lambda>a b. ki_CreatedAt b \<le> ki_CreatedAt a) infos \<and>
      (\<forall>i \<in> set infos. \<exists>r. MemKeyStore_LookupByID (ki_KeyID i) s = Inr r \<and> kr_OrgID r = org \<and> kr_Status r = ki_Status i)"
    by (auto simp: mem_list_def MemKeyStore_ListKeys_def sortByCreatedDesc_def sort_key_desc)
next
  fix s org infos k r
  assume inv: "mem_keys_inv s" and l: "mem_list org s = Inr infos"
    and r: "MemKeyStore_LookupByID k s = Inr r" "kr_OrgID r = org"
  from r have m: "map_of (mk_keys s) k = Some r" by (simp add: MemKeyStore_LookupByID_def split: option.splits)
  with inv have "kr_KeyID r = k" by (auto simp: mem_keys_inv_def dest: keyed_id)
  with r l map_of_SomeD [OF m] show "k \<in> ki_KeyID ` set infos"
    by (force simp: mem_list_def MemKeyStore_ListKeys_def infoOf_def sortByCreatedDesc_def image_iff)
qed

definition pg_keys_inv :: "PostgresKeyStore \<Rightarrow> bool" where
  "pg_keys_inv s \<longleftrightarrow> keyed (\<lambda>row. kr_KeyID (row_rec row)) (pk_rows s)"

lemma map_of_snoc_fresh: "map_of xs k = None \<Longrightarrow> map_of (xs @ [(k, v)]) = (map_of xs)(k \<mapsto> v)"
  by (auto simp: map_add_def fun_eq_iff split: option.splits)

lemma pk_insert_ok:
  assumes "pk_insert what r t s = (None, s')"
  shows "pk_up s' = pk_up s \<and> pk_up s \<and> map_of (pk_rows s) (kr_KeyID r) = None \<and>
    pk_rows s' = pk_rows s @ [(kr_KeyID r, \<lparr>row_rec = r, row_created = t, row_revoked = None\<rparr>)]"
  using assms by (auto simp: pk_insert_def split: if_splits)

lemma pk_insert_fails: "pk_insert what r t s = (Some e, s') \<Longrightarrow> s' = s"
  by (auto simp: pk_insert_def split: if_splits)

lemma keyed_snoc: "keyed f xs \<Longrightarrow> map_of xs k = None \<Longrightarrow> f v = k \<Longrightarrow> keyed f (xs @ [(k, v)])"
  by (auto simp: keyed_def map_of_eq_None_iff)

interpretation pg_keys: key_store Postgres_LookupByID Postgres_CreateKey Postgres_RevokeKey Postgres_ListKeys pg_keys_inv
proof unfold_locales
  fix s k r
  show "pg_keys_inv s \<Longrightarrow> Postgres_LookupByID k s = Inr r \<Longrightarrow> kr_KeyID r = k"
    by (auto simp: pg_keys_inv_def Postgres_LookupByID_def dest: keyed_id split: option.splits if_splits)
next
  fix r t s s'
  assume "Postgres_CreateKey r t s = (None, s')" and "pg_keys_inv s"
  with pk_insert_ok [of _ r t s s']
  show "pg_keys_inv s' \<and> Postgres_LookupByID (kr_KeyID r) s' = Inr r"
    by (auto simp: Postgres_CreateKey_def pg_keys_inv_def Postgres_LookupByID_def keyed_snoc map_of_snoc_fresh simp del: map_of_append)
next
  fix r t s oe s' k
  assume c: "Postgres_CreateKey r t s = (oe, s')" and k: "k \<noteq> kr_KeyID r"
  show "Postgres_LookupByID k s' = Postgres_LookupByID k s"
  proof (cases oe)
    case None
    with c k pk_insert_ok [of _ r t s s'] show ?thesis
      by (auto simp: Postgres_CreateKey_def Postgres_LookupByID_def map_of_snoc_fresh simp del: map_of_append)
  next
    case (Some e)
    with c pk_insert_fails show ?thesis unfolding Postgres_CreateKey_def by blast
  qed
next
  fix r t s e s'
  show "Postgres_CreateKey r t s = (Some e, s') \<Longrightarrow> s' = s"
    unfolding Postgres_CreateKey_def by (rule pk_insert_fails)
next
  fix org k t s i s'
  assume "Postgres_RevokeKey org k t s = (Inr i, s')" and inv: "pg_keys_inv s"
  then obtain row where up: "pk_up s" "pk_up s'" and row: "map_of (pk_rows s) k = Some row" "kr_OrgID (row_rec row) = org"
    and s': "pk_rows s' = alist_put k (row\<lparr>row_rec := (row_rec row)\<lparr>kr_Status := KeyStatusRevoked\<rparr>, row_revoked := Some t\<rparr>) (pk_rows s)"
    and i: "i = row_info (row\<lparr>row_rec := (row_rec row)\<lparr>kr_Status := KeyStatusRevoked\<rparr>, row_revoked := Some t\<rparr>)"
    by (auto simp: Postgres_RevokeKey_def KeyStatusRevoked_def Let_def split: option.splits if_splits)
  from inv row have "kr_KeyID (row_rec row) = k" by (auto simp: pg_keys_inv_def dest: keyed_id)
  with inv have "pg_keys_inv s'" by (simp add: pg_keys_inv_def s' keyed_alist_put)
  with up row s' i show "pg_keys_inv s' \<and> (\<exists>r. Postgres_LookupByID k s = Inr r \<and> kr_OrgID r = org \<and>
      Postgres_LookupByID k s' = Inr (r\<lparr>kr_Status := KeyStatusRevoked\<rparr>)
      \<and> ki_Status i = KeyStatusRevoked \<and> ki_KeyID i = kr_KeyID r \<and> ki_RevokedAt i = Some t)"
    by (simp add: Postgres_LookupByID_def row_info_def infoOf_def)
next
  fix org k t s x s' k'
  show "Postgres_RevokeKey org k t s = (x, s') \<Longrightarrow> k' \<noteq> k \<Longrightarrow> Postgres_LookupByID k' s' = Postgres_LookupByID k' s"
    by (auto simp: Postgres_RevokeKey_def Postgres_LookupByID_def Let_def split: option.splits if_splits)
next
  fix org k t s e s'
  show "Postgres_RevokeKey org k t s = (Inl e, s') \<Longrightarrow> s' = s"
    by (auto simp: Postgres_RevokeKey_def Let_def split: option.splits if_splits)
next
  fix s org infos
  assume inv: "pg_keys_inv s" and l: "Postgres_ListKeys org s = Inr infos"
  have "\<exists>r. Postgres_LookupByID (ki_KeyID i) s = Inr r \<and> kr_OrgID r = org \<and> kr_Status r = ki_Status i"
    if "i \<in> set infos" for i
  proof -
    from that l obtain k row where kr: "(k, row) \<in> set (pk_rows s)" "kr_OrgID (row_rec row) = org" "pk_up s"
        "ki_KeyID i = kr_KeyID (row_rec row)" "ki_Status i = kr_Status (row_rec row)"
      by (auto simp: Postgres_ListKeys_def row_info_def infoOf_def split: if_splits)
    with inv have "kr_KeyID (row_rec row) = k" and "map_of (pk_rows s) k = Some row"
      by (auto simp: pg_keys_inv_def keyed_def)
    with kr show ?thesis by (simp add: Postgres_LookupByID_def)
  qed
  with l show "sorted_wrt (\<lambda>a b. ki_CreatedAt b \<le> ki_CreatedAt a) infos \<and>
      (\<forall>i \<in> set infos. \<exists>r. Postgres_LookupByID (ki_KeyID i) s = Inr r \<and> kr_OrgID r = org \<and> kr_Status r = ki_Status i)"
    by (auto simp: Postgres_ListKeys_def sort_key_desc split: if_splits)
next
  fix s org infos k r
  assume inv: "pg_keys_inv s" and l: "Postgres_ListKeys org s = Inr infos"
    and r: "Postgres_LookupByID k s = Inr r" "kr_OrgID r = org"
  from r obtain row where m: "map_of (pk_rows s) k = Some row" "row_rec row = r"
    by (auto simp: Postgres_LookupByID_def split: option.splits if_splits)
  with inv have "kr_KeyID r = k" by (auto simp: pg_keys_inv_def dest: keyed_id)
  with r l m map_of_SomeD [OF m(1)] show "k \<in> ki_KeyID ` set infos"
    by (force simp: Postgres_ListKeys_def row_info_def infoOf_def image_iff split: if_splits)
qed

section \<open>Revocation through the cache\<close>

text \<open>Clients of a key store behind the cache. Once a key is revoked in the source and its
  cache entry dropped, no later lookup returns it unrevoked; \<open>settled k\<close> is the invariant
  that carries this over any sequence of lookups.\<close>

context key_store
begin

definition settled :: "string \<Rightarrow> RedisKeyCache \<times> 's \<Rightarrow> bool" where
  "settled k w \<longleftrightarrow> (\<forall>r. Lookup k (snd w) = Inr r \<longrightarrow> kr_Status r = KeyStatusRevoked) \<and>
     (\<forall>r ex. kc_keys (fst w) (keyCachePrefix @ k) = Some (Some r, ex) \<longrightarrow> kr_Status r = KeyStatusRevoked)"

lemma cached_settled:
  assumes "settled k w" and "CachedKeyStore_LookupByID Lookup ttl now k' w = (res, w')"
    and "inv (snd w)"
  shows "inv (snd w') \<and> settled k w' \<and> (k' = k \<longrightarrow> (\<forall>r. res = Inr r \<longrightarrow> kr_Status r = KeyStatusRevoked))"
proof (cases "Lookup k' (snd w)")
  case (Inl e)
  with assms show ?thesis
    by (auto simp: CachedKeyStore_LookupByID_def KeyCache_Get_def settled_def split: option.splits if_splits)
next
  case (Inr r)
  with lookup_id [OF assms(3)] have "kr_KeyID r = k'" by blast
  with Inr assms show ?thesis
    by (auto simp: CachedKeyStore_LookupByID_def KeyCache_Get_def KeyCache_Set_def settled_def
        split: option.splits if_splits)
qed

lemma revoke_settles:
  assumes "Revoke org k t s = (Inr i, s')" and "inv s" and "KeyCache_Invalidate k c = (None, c')"
  shows "inv s' \<and> settled k (c', s')"
proof -
  from revoke_lookup [OF assms(1,2)] obtain r where "inv s'" and "Lookup k s' = Inr (r\<lparr>kr_Status := KeyStatusRevoked\<rparr>)" by blast
  with assms(3) show ?thesis by (auto simp: settled_def KeyCache_Invalidate_def split: if_splits)
qed

lemma lookups_settled: "settled k w \<Longrightarrow> inv (snd w) \<Longrightarrow> settled k (cached_lookups Lookup ttl qs w) \<and> inv (snd (cached_lookups Lookup ttl qs w))"
proof (induction qs arbitrary: w)
  case (Cons q qs)
  obtain res w' where l: "CachedKeyStore_LookupByID Lookup ttl (fst q) (snd q) w = (res, w')"
    by (cases "CachedKeyStore_LookupByID Lookup ttl (fst q) (snd q) w")
  from cached_settled [OF Cons.prems(1) this Cons.prems(2)] Cons.IH [of w'] show ?case by (simp add: l)
qed simp

lemma revocation_sticks:
  assumes "Revoke org k t s = (Inr i, s')" and "inv s" and "KeyCache_Invalidate k c = (None, c')"
    and "CachedKeyStore_LookupByID Lookup ttl now k (cached_lookups Lookup ttl qs (c', s')) = (Inr r, w)"
  shows "kr_Status r = KeyStatusRevoked"
proof -
  from revoke_settles [OF assms(1-3)] have "settled k (c', s')" and "inv s'" by auto
  from lookups_settled [OF this(1)] this(2) have "settled k (cached_lookups Lookup ttl qs (c', s'))"
    and "inv (snd (cached_lookups Lookup ttl qs (c', s')))" by auto
  from cached_settled [OF this(1) assms(4) this(2)] show ?thesis by simp
qed

end

section \<open>Properties\<close>

text \<open>Revocation takes effect at once. After a key is revoked in Postgres and its cache
  entry invalidated, no lookup through the cached store, after any sequence of other
  lookups at any times, returns the key with a status other than revoked, and the
  revocation's answer carries that status and its time.\<close>

theorem revocation_through_cache:
  assumes "Postgres_RevokeKey org k t s = (Inr i, s')" and "pg_keys_inv s"
    and "KeyCache_Invalidate k c = (None, c')"
    and "CachedKeyStore_LookupByID Postgres_LookupByID ttl now k
           (cached_lookups Postgres_LookupByID ttl qs (c', s')) = (Inr r, w)"
  shows "kr_Status r = KeyStatusRevoked \<and> ki_Status i = KeyStatusRevoked \<and> ki_RevokedAt i = Some t"
  using pg_keys.revocation_sticks [OF assms] pg_keys.revoke_lookup [OF assms(1,2)] by blast

definition demo_key :: KeyRecord where
  "demo_key = \<lparr>kr_KeyID = ''azn_live_0'', kr_KeyHashHex = ''00'', kr_OrgID = ''org'', kr_Tier = ''pro'',
     kr_Env = ''live'', kr_Status = ''active'', kr_Shadow = True\<rparr>"

definition demo_pg_keys :: PostgresKeyStore where
  "demo_pg_keys = \<lparr>pk_up = True, pk_rows = [(''azn_live_0'', \<lparr>row_rec = demo_key, row_created = 0, row_revoked = None\<rparr>)]\<rparr>"

definition demo_cache :: RedisKeyCache where
  "demo_cache = \<lparr>kc_up = True, kc_keys = (\<lambda>_. None)(''authkey:azn_live_0'' \<mapsto> (Some demo_key, 300000))\<rparr>"

theorem revocation_through_cache_witness:
  "\<exists>i s' c' r w. Postgres_RevokeKey ''org'' ''azn_live_0'' 7 demo_pg_keys = (Inr i, s')
     \<and> KeyCache_Invalidate ''azn_live_0'' demo_cache = (None, c')
     \<and> CachedKeyStore_LookupByID Postgres_LookupByID 300000000000 9 ''azn_live_0''
         (cached_lookups Postgres_LookupByID 300000000000 [(8, ''azn_live_0'')] (c', s')) = (Inr r, w)
     \<and> kr_Status r = KeyStatusRevoked"
proof -
  let ?R = "Postgres_RevokeKey ''org'' ''azn_live_0'' 7 demo_pg_keys" and ?I = "KeyCache_Invalidate ''azn_live_0'' demo_cache"
  have R: "?R = (Inr (row_info \<lparr>row_rec = demo_key\<lparr>kr_Status := ''revoked''\<rparr>, row_created = 0, row_revoked = Some 7\<rparr>), snd ?R)"
    by (simp add: Postgres_RevokeKey_def demo_pg_keys_def demo_key_def Let_def)
  have I: "?I = (None, snd ?I)" by (simp add: KeyCache_Invalidate_def demo_cache_def)
  have "\<exists>r. fst (CachedKeyStore_LookupByID Postgres_LookupByID 300000000000 9 ''azn_live_0''
      (cached_lookups Postgres_LookupByID 300000000000 [(8, ''azn_live_0'')] (snd ?I, snd ?R))) = Inr r"
    by (simp add: CachedKeyStore_LookupByID_def KeyCache_Get_def KeyCache_Set_def Postgres_LookupByID_def
        Postgres_RevokeKey_def KeyCache_Invalidate_def demo_cache_def demo_pg_keys_def demo_key_def keyCachePrefix_def kc_ms_def Let_def)
  then obtain r w where L: "CachedKeyStore_LookupByID Postgres_LookupByID 300000000000 9 ''azn_live_0''
      (cached_lookups Postgres_LookupByID 300000000000 [(8, ''azn_live_0'')] (snd ?I, snd ?R)) = (Inr r, w)"
    by (metis prod.collapse)
  have "pg_keys_inv demo_pg_keys" by (simp add: pg_keys_inv_def keyed_def demo_pg_keys_def demo_key_def)
  from revocation_through_cache [OF R this I L] R I L show ?thesis by blast
qed

text \<open>The lookup is not atomic: it reads the source and writes the cache in two steps. When a
  revocation with its invalidation falls between them, the stale record is cached and
  served for the whole time to live.\<close>

lemma revocation_race:
  assumes "Postgres_LookupByID k s = Inr r" and "kr_Status r = KeyStatusActive" and "kr_KeyID r = k"
    and "Postgres_RevokeKey (kr_OrgID r) k t s = (Inr i, s')" and "KeyCache_Invalidate k c = (None, c')"
    and "KeyCache_Set now r ttl c' = (None, c'')" and "kc_ms later \<le> kc_ms now + kc_ms ttl"
  shows "\<exists>w. CachedKeyStore_LookupByID Postgres_LookupByID ttl later k (c'', s') = (Inr r, w)"
  using assms by (auto simp: CachedKeyStore_LookupByID_def KeyCache_Get_def KeyCache_Set_def split: if_splits)

text \<open>The two key stores keep one contract. A created key is found with exactly the
  record that was stored, no other key changes; a revocation only succeeds for the key's
  own organisation, flips its status and nothing else, and leaves every other key alone; a
  failed operation changes nothing; and a listing is newest first and names exactly the
  organisation's keys. Stated for Postgres, with the constraints of its table.\<close>

theorem key_management:
  assumes "pg_keys_inv s"
  shows "(\<forall>s'. Postgres_CreateKey r t s = (None, s') \<longrightarrow> pg_keys_inv s' \<and> Postgres_LookupByID (kr_KeyID r) s' = Inr r
       \<and> (\<forall>k. k \<noteq> kr_KeyID r \<longrightarrow> Postgres_LookupByID k s' = Postgres_LookupByID k s))
    \<and> (\<forall>s' i. Postgres_RevokeKey org k t s = (Inr i, s') \<longrightarrow> pg_keys_inv s'
       \<and> (\<exists>r. Postgres_LookupByID k s = Inr r \<and> kr_OrgID r = org \<and> Postgres_LookupByID k s' = Inr (r\<lparr>kr_Status := KeyStatusRevoked\<rparr>))
       \<and> (\<forall>k'. k' \<noteq> k \<longrightarrow> Postgres_LookupByID k' s' = Postgres_LookupByID k' s))
    \<and> (\<forall>s' e. Postgres_CreateKey r t s = (Some e, s') \<or> Postgres_RevokeKey org k t s = (Inl e, s') \<longrightarrow> s' = s)
    \<and> (\<forall>infos. Postgres_ListKeys org s = Inr infos \<longrightarrow>
         sorted_wrt (\<lambda>a b. ki_CreatedAt b \<le> ki_CreatedAt a) infos
       \<and> (\<forall>k. k \<in> ki_KeyID ` set infos \<longleftrightarrow> (\<exists>r. Postgres_LookupByID k s = Inr r \<and> kr_OrgID r = org)))"
proof -
  have "pg_keys_inv s' \<and> Postgres_LookupByID (kr_KeyID r) s' = Inr r
       \<and> (\<forall>k. k \<noteq> kr_KeyID r \<longrightarrow> Postgres_LookupByID k s' = Postgres_LookupByID k s)"
    if "Postgres_CreateKey r t s = (None, s')" for s'
    using pg_keys.create_lookup [OF that assms] pg_keys.create_other [OF that] by blast
  moreover have "pg_keys_inv s'
       \<and> (\<exists>r. Postgres_LookupByID k s = Inr r \<and> kr_OrgID r = org \<and> Postgres_LookupByID k s' = Inr (r\<lparr>kr_Status := KeyStatusRevoked\<rparr>))
       \<and> (\<forall>k'. k' \<noteq> k \<longrightarrow> Postgres_LookupByID k' s' = Postgres_LookupByID k' s)"
    if "Postgres_RevokeKey org k t s = (Inr i, s')" for s' i
    using pg_keys.revoke_lookup [OF that assms] pg_keys.revoke_other [OF that] by blast
  moreover have "s' = s" if "Postgres_CreateKey r t s = (Some e, s') \<or> Postgres_RevokeKey org k t s = (Inl e, s')" for s' e
    using that pg_keys.create_fails pg_keys.revoke_fails by blast
  moreover have "sorted_wrt (\<lambda>a b. ki_CreatedAt b \<le> ki_CreatedAt a) infos
       \<and> (\<forall>k. k \<in> ki_KeyID ` set infos \<longleftrightarrow> (\<exists>r. Postgres_LookupByID k s = Inr r \<and> kr_OrgID r = org))"
    if "Postgres_ListKeys org s = Inr infos" for infos
    using pg_keys.list_org [OF assms that] pg_keys.list_complete [OF assms that] by blast
  ultimately show ?thesis by blast
qed

theorem key_management_witness:
  "\<exists>s'. Postgres_CreateKey demo_key 5 \<lparr>pk_up = True, pk_rows = []\<rparr> = (None, s') \<and> Postgres_LookupByID ''azn_live_0'' s' = Inr demo_key"
proof -
  have "pg_keys_inv \<lparr>pk_up = True, pk_rows = []\<rparr>" by (simp add: pg_keys_inv_def keyed_def)
  from key_management [OF this, of demo_key 5]
  have "\<And>s'. Postgres_CreateKey demo_key 5 \<lparr>pk_up = True, pk_rows = []\<rparr> = (None, s') \<Longrightarrow>
      Postgres_LookupByID (kr_KeyID demo_key) s' = Inr demo_key" by blast
  moreover have "fst (Postgres_CreateKey demo_key 5 \<lparr>pk_up = True, pk_rows = []\<rparr>) = None"
    by (simp add: Postgres_CreateKey_def pk_insert_def row_ok_def demo_key_def EnvLive_def KeyStatusActive_def)
  moreover have "kr_KeyID demo_key = ''azn_live_0''" by (simp add: demo_key_def)
  ultimately show ?thesis by (metis prod.collapse)
qed

end
