(* ===== verification/Auth.thy ===== *)
theory Auth
  imports Auth_Stores
begin

text \<open>
  \<open>internal/auth/auth.go\<close>: API key format and derivation, request signing, and the
  authenticator that checks key, status, time stamp, signature and nonce in that order.
  SHA-256 and HMAC-SHA256 are parameters (\<open>mac_crypto\<close>), as is the entropy of a new key;
  the stores are the operations of their interfaces. The lemmas characterise acceptance
  exactly, show the signed request round trip and that the canonical string binds every
  signed field, and bound replays.
\<close>

section \<open>Constants and errors\<close>

definition prefixLive :: string where "prefixLive = ''azn_live_''"
definition prefixTest :: string where "prefixTest = ''azn_test_''"
definition canonScheme :: string where "canonScheme = ''azn-hmac/1''"
definition secretBytes :: nat where "secretBytes = 32"
definition keyIDHashPrefixLen :: nat where "keyIDHashPrefixLen = 16"

record Principal =
  pr_OrgID :: string
  pr_KeyID :: string
  pr_Tier :: string
  pr_Env :: string
  pr_Shadow :: bool

record AuthError =
  ae_Status :: int
  ae_Code :: string
  ae_Title :: string
  ae_Detail :: string

definition errUnauthorized :: "string \<Rightarrow> AuthError" where
  "errUnauthorized detail = \<lparr>ae_Status = 401, ae_Code = ''unauthorized'', ae_Title = ''Unauthorized'', ae_Detail = detail\<rparr>"

definition errForbidden :: "string \<Rightarrow> AuthError" where
  "errForbidden detail = \<lparr>ae_Status = 403, ae_Code = ''forbidden'', ae_Title = ''Forbidden'', ae_Detail = detail\<rparr>"

definition errReplay :: AuthError where
  "errReplay = \<lparr>ae_Status = 401, ae_Code = ''replay_detected'', ae_Title = ''Unauthorized'',
     ae_Detail = ''Request nonce has already been used.''\<rparr>"

definition errUnavailable :: AuthError where
  "errUnavailable = \<lparr>ae_Status = 503, ae_Code = ''auth_unavailable'', ae_Title = ''Authentication unavailable'',
     ae_Detail = ''Could not verify the request. Please retry.''\<rparr>"

section \<open>Keys\<close>

record mac_crypto =
  mc_Sum256 :: "string \<Rightarrow> string"
  mc_HMAC :: "string \<Rightarrow> string \<Rightarrow> string"

definition KeyID :: "string \<Rightarrow> string \<Rightarrow> string" where
  "KeyID rawKey hashHex =
     (let prefix = (if HasPrefix rawKey prefixTest then prefixTest else prefixLive)
      in prefix @ take keyIDHashPrefixLen hashHex)"

definition parseKey :: "mac_crypto \<Rightarrow> string \<Rightarrow> AuthError + string \<times> string" where
  "parseKey c rawKey =
     (if \<not> HasPrefix rawKey prefixLive \<and> \<not> HasPrefix rawKey prefixTest
      then Inl (errUnauthorized ''Invalid API key.'')
      else let hashHex = hex_encode (mc_Sum256 c rawKey) in Inr (KeyID rawKey hashHex, hashHex))"

definition bearerKey :: "http_header \<Rightarrow> AuthError + string" where
  "bearerKey header =
     (let authz = header_Get header ''Authorization''; bearer = ''Bearer '' in
      if authz \<noteq> [] then
        (if length authz > length bearer \<and> EqualFold (take (length bearer) authz) bearer
         then Inr (TrimSpace (drop (length bearer) authz))
         else Inl (errUnauthorized ''Authorization header must be 'Bearer <api_key>'.''))
      else let k = header_Get header ''X-Api-Key'' in
        if k \<noteq> [] then Inr (TrimSpace k) else Inl (errUnauthorized ''Missing API key.''))"

record GeneratedKey =
  gk_Plaintext :: string
  gk_Record :: KeyRecord

text \<open>The entropy read from the operating system is an argument; \<open>None\<close> is a failed read.\<close>

definition NewKey :: "mac_crypto \<Rightarrow> string option \<Rightarrow> string \<Rightarrow> string \<Rightarrow> string \<Rightarrow> string + GeneratedKey" where
  "NewKey c entropy env orgID tier =
     (if env \<noteq> EnvTest \<and> env \<noteq> EnvLive then Inl (''auth: unknown env '' @ quote env)
      else let prefix = (if env = EnvTest then prefixTest else prefixLive) in
        (case entropy of
           None \<Rightarrow> Inl ''auth: read entropy''
         | Some buf \<Rightarrow>
             let rawKey = prefix @ ToLower (b32_encode buf);
                 hashHex = hex_encode (mc_Sum256 c rawKey)
             in Inr \<lparr>gk_Plaintext = rawKey,
                     gk_Record = \<lparr>kr_KeyID = KeyID rawKey hashHex, kr_KeyHashHex = hashHex, kr_OrgID = orgID,
                       kr_Tier = tier, kr_Env = env, kr_Status = KeyStatusActive, kr_Shadow = True\<rparr>\<rparr>))"

section \<open>Request signatures\<close>

definition canonicalString :: "mac_crypto \<Rightarrow> string \<Rightarrow> string \<Rightarrow> string \<Rightarrow> string \<Rightarrow> string \<Rightarrow> string" where
  "canonicalString c method path timestamp nonce body =
     canonScheme @ [CHR 0x0A] @ ToUpper method @ [CHR 0x0A] @ path @ [CHR 0x0A] @ timestamp @ [CHR 0x0A]
       @ nonce @ [CHR 0x0A] @ hex_encode (mc_Sum256 c body)"

definition computeMAC :: "mac_crypto \<Rightarrow> string \<Rightarrow> string \<Rightarrow> string" where
  "computeMAC c rawKey msg = mc_HMAC c rawKey msg"

definition Sign :: "mac_crypto \<Rightarrow> string \<Rightarrow> string \<Rightarrow> string \<Rightarrow> string \<Rightarrow> string \<Rightarrow> string \<Rightarrow> string" where
  "Sign c rawKey method path timestamp nonce body =
     hex_encode (computeMAC c rawKey (canonicalString c method path timestamp nonce body))"

section \<open>The authenticator\<close>

record ('k, 'n) Authenticator =
  au_keys :: "gotime \<Rightarrow> string \<Rightarrow> 'k \<Rightarrow> (key_error + KeyRecord) \<times> 'k"
  au_nonces :: "gotime \<Rightarrow> string \<Rightarrow> string \<Rightarrow> duration \<Rightarrow> 'n \<Rightarrow> (key_error + bool) \<times> 'n"
  au_maxSkew :: duration
  au_nonceTTL :: duration

definition NewAuthenticator ::
  "(gotime \<Rightarrow> string \<Rightarrow> 'k \<Rightarrow> (key_error + KeyRecord) \<times> 'k) \<Rightarrow>
   (gotime \<Rightarrow> string \<Rightarrow> string \<Rightarrow> duration \<Rightarrow> 'n \<Rightarrow> (key_error + bool) \<times> 'n) \<Rightarrow> duration \<Rightarrow> duration
    \<Rightarrow> ('k, 'n) Authenticator" where
  "NewAuthenticator keys nonces maxSkew nonceTTL =
     \<lparr>au_keys = keys, au_nonces = nonces, au_maxSkew = maxSkew,
      au_nonceTTL = (if nonceTTL < wrap64 (2 * maxSkew) then wrap64 (2 * maxSkew) else nonceTTL)\<rparr>"

definition skew_of :: "gotime \<Rightarrow> int \<Rightarrow> duration" where
  "skew_of now tsSecs =
     (let skew = time_Sub now (time_of_Unix tsSecs) in if skew < 0 then duration_neg skew else skew)"

text \<open>\<open>None\<close> is the nil error: the signature is good.\<close>

definition verifySignature ::
  "mac_crypto \<Rightarrow> duration \<Rightarrow> gotime \<Rightarrow> string \<Rightarrow> string \<Rightarrow> http_header \<Rightarrow> string \<Rightarrow> string \<Rightarrow> AuthError option" where
  "verifySignature c maxSkew now method path header body rawKey =
     (let tsRaw = header_Get header ''X-Timestamp''; nonce = header_Get header ''X-Nonce'';
          sigHex = header_Get header ''X-Signature'' in
      if tsRaw = [] \<or> nonce = [] \<or> sigHex = []
      then Some (errUnauthorized ''Missing X-Timestamp, X-Nonce, or X-Signature header.'')
      else if length nonce < 8 \<or> length nonce > 128
      then Some (errUnauthorized ''X-Nonce must be 8..128 characters.'')
      else case ParseInt64 tsRaw of
             None \<Rightarrow> Some (errUnauthorized ''X-Timestamp must be Unix seconds.'')
           | Some tsSecs \<Rightarrow>
               if skew_of now tsSecs > maxSkew
               then Some (errUnauthorized ''Request timestamp is outside the allowed skew window.'')
               else case hex_decode sigHex of
                      None \<Rightarrow> Some (errUnauthorized ''X-Signature must be lowercase hex.'')
                    | Some presentedMAC \<Rightarrow>
                        if computeMAC c rawKey (canonicalString c method path tsRaw nonce body) \<noteq> presentedMAC
                        then Some (errUnauthorized ''Request signature is invalid.'')
                        else None)"

definition principal_of :: "KeyRecord \<Rightarrow> Principal" where
  "principal_of rec = \<lparr>pr_OrgID = kr_OrgID rec, pr_KeyID = kr_KeyID rec, pr_Tier = kr_Tier rec,
     pr_Env = kr_Env rec, pr_Shadow = kr_Shadow rec\<rparr>"

text \<open>The key lookup, the skew check and the nonce check read the clock one after the other;
  the three readings are arguments.\<close>

definition Authenticate ::
  "mac_crypto \<Rightarrow> ('k, 'n) Authenticator \<Rightarrow> gotime \<times> gotime \<times> gotime \<Rightarrow> string \<Rightarrow> string \<Rightarrow> http_header \<Rightarrow> string
    \<Rightarrow> 'k \<times> 'n \<Rightarrow> (AuthError + Principal) \<times> 'k \<times> 'n" where
  "Authenticate c a clk method path header body w =
     (case clk of (t_key, t_skew, t_nonce) \<Rightarrow>
      case bearerKey header of
        Inl e \<Rightarrow> (Inl e, w)
      | Inr rawKey \<Rightarrow>
          (case parseKey c rawKey of
             Inl e \<Rightarrow> (Inl e, w)
           | Inr (keyID, keyHashHex) \<Rightarrow>
               (case au_keys a t_key keyID (fst w) of
                  (Inl err, ks) \<Rightarrow>
                    (Inl (if err = ErrKeyNotFound then errUnauthorized ''Invalid API key.'' else errUnavailable), ks, snd w)
                | (Inr rec, ks) \<Rightarrow>
                    (case hex_decode (kr_KeyHashHex rec) of
                       None \<Rightarrow> (Inl errUnavailable, ks, snd w)
                     | Some storedHash \<Rightarrow>
                         (case hex_decode keyHashHex of
                            None \<Rightarrow> (Inl (errUnauthorized ''Invalid API key.''), ks, snd w)
                          | Some presentedHash \<Rightarrow>
                              if storedHash \<noteq> presentedHash
                              then (Inl (errUnauthorized ''Invalid API key.''), ks, snd w)
                              else if kr_Status rec = KeyStatusRevoked
                              then (Inl (errForbidden ''This API key has been revoked.''), ks, snd w)
                              else if kr_Status rec \<noteq> KeyStatusActive
                              then (Inl (errForbidden ''This API key is not active.''), ks, snd w)
                              else (case verifySignature c (au_maxSkew a) t_skew method path header body rawKey of
                                      Some e \<Rightarrow> (Inl e, ks, snd w)
                                    | None \<Rightarrow>
                                        (case au_nonces a t_nonce (kr_KeyID rec) (header_Get header ''X-Nonce'')
                                                (au_nonceTTL a) (snd w) of
                                           (Inl _, ns) \<Rightarrow> (Inl errUnavailable, ks, ns)
                                         | (Inr fresh, ns) \<Rightarrow>
                                             if \<not> fresh then (Inl errReplay, ks, ns)
                                             else (Inr (principal_of rec), ks, ns))))))))"

section \<open>Acceptance\<close>

lemma parseKey_Inr:
  "parseKey c rawKey = Inr (kid, hx) \<longleftrightarrow>
     (HasPrefix rawKey prefixLive \<or> HasPrefix rawKey prefixTest) \<and> hx = hex_encode (mc_Sum256 c rawKey) \<and> kid = KeyID rawKey hx"
  by (auto simp: parseKey_def Let_def)

definition signature_ok :: "mac_crypto \<Rightarrow> string \<Rightarrow> string \<Rightarrow> http_header \<Rightarrow> string \<Rightarrow> string \<Rightarrow> bool" where
  "signature_ok c method path header body rawKey \<longleftrightarrow>
     hex_decode (header_Get header ''X-Signature'') =
       Some (mc_HMAC c rawKey (canonicalString c method path (header_Get header ''X-Timestamp'')
         (header_Get header ''X-Nonce'') body)) \<and> header_Get header ''X-Signature'' \<noteq> []"

lemma verifySignature_None:
  "verifySignature c maxSkew now method path header body rawKey = None \<longleftrightarrow>
     8 \<le> length (header_Get header ''X-Nonce'') \<and> length (header_Get header ''X-Nonce'') \<le> 128 \<and>
     (\<exists>ts. ParseInt64 (header_Get header ''X-Timestamp'') = Some ts \<and> skew_of now ts \<le> maxSkew) \<and>
     signature_ok c method path header body rawKey"
proof -
  have "ParseInt64 [] = None" by (simp add: ParseInt64_def)
  moreover have "(8 :: nat) \<le> length xs \<Longrightarrow> xs \<noteq> []" for xs :: string by auto
  ultimately show ?thesis
    by (auto simp: verifySignature_def Let_def signature_ok_def computeMAC_def not_less split: option.splits)
qed

lemma skew_of_exact: "\<bar>now - time_of_Unix ts\<bar> < 2 ^ 63 \<Longrightarrow> skew_of now ts = \<bar>now - time_of_Unix ts\<bar>"
proof -
  assume *: "\<bar>now - time_of_Unix ts\<bar> < 2 ^ 63"
  then have "time_Sub now (time_of_Unix ts) = now - time_of_Unix ts"
    by (intro time_Sub_exact) (auto simp: in_int64_def)
  moreover from * have "wrap64 (- (now - time_of_Unix ts)) = - (now - time_of_Unix ts)"
    by (intro wrap64_id) (auto simp: in_int64_def)
  ultimately show ?thesis by (simp add: skew_of_def Let_def duration_neg_def)
qed

text \<open>The skew check in full: the subtraction of two times saturates, and the smallest duration is its own negation. Besides
  the time stamps within the window the check lets pass those that are \<open>2 ^ 63\<close> nanoseconds (292 years) or more ahead.\<close>

lemma skew_check:
  assumes "- (2 ^ 63) \<le> maxSkew" and "maxSkew < 2 ^ 63 - 1"
  shows "skew_of now ts \<le> maxSkew \<longleftrightarrow> \<bar>now - time_of_Unix ts\<bar> \<le> maxSkew \<or> now + 2 ^ 63 \<le> time_of_Unix ts"
proof -
  consider "\<bar>now - time_of_Unix ts\<bar> < 2 ^ 63" | "now + 2 ^ 63 \<le> time_of_Unix ts" | "2 ^ 63 \<le> now - time_of_Unix ts" by linarith
  then show ?thesis
  proof cases
    case 1
    then show ?thesis by (auto simp: skew_of_exact)
  next
    case 2
    then have "time_Sub now (time_of_Unix ts) = - (2 ^ 63)" by (simp add: time_Sub_def)
    then have "skew_of now ts = - (2 ^ 63)" by (simp add: skew_of_def duration_neg_def wrap64_def)
    with 2 assms show ?thesis by simp
  next
    case 3
    then have "time_Sub now (time_of_Unix ts) = 2 ^ 63 - 1" by (simp add: time_Sub_def)
    then have "skew_of now ts = 2 ^ 63 - 1" by (simp add: skew_of_def)
    with 3 assms show ?thesis by simp
  qed
qed

lemma Authenticate_Inr:
  "Authenticate c a (t_key, t_skew, t_nonce) method path header body w = (Inr p, w') \<longleftrightarrow>
     (\<exists>rawKey rec. bearerKey header = Inr rawKey \<and>
        (HasPrefix rawKey prefixLive \<or> HasPrefix rawKey prefixTest) \<and>
        au_keys a t_key (KeyID rawKey (hex_encode (mc_Sum256 c rawKey))) (fst w) = (Inr rec, fst w') \<and>
        hex_decode (kr_KeyHashHex rec) = Some (mc_Sum256 c rawKey) \<and> kr_Status rec = KeyStatusActive \<and>
        verifySignature c (au_maxSkew a) t_skew method path header body rawKey = None \<and>
        au_nonces a t_nonce (kr_KeyID rec) (header_Get header ''X-Nonce'') (au_nonceTTL a) (snd w) = (Inr True, snd w') \<and>
        p = principal_of rec)"
  (is "?L \<longleftrightarrow> ?R")
proof
  assume ?L
  then obtain rawKey where k: "bearerKey header = Inr rawKey" by (auto simp: Authenticate_def split: sum.splits)
  from \<open>?L\<close> k obtain kid hx where pk: "parseKey c rawKey = Inr (kid, hx)" by (auto simp: Authenticate_def split: sum.splits)
  from pk have hx: "hx = hex_encode (mc_Sum256 c rawKey)" by (simp add: parseKey_Inr)
  from \<open>?L\<close> k pk obtain rec ks where l: "au_keys a t_key kid (fst w) = (Inr rec, ks)"
    by (auto simp: Authenticate_def split: sum.splits prod.splits)
  from \<open>?L\<close> k pk l hx show ?R
    by (auto simp: Authenticate_def parseKey_Inr split: sum.splits prod.splits option.splits if_splits)
next
  assume ?R
  then show ?L by (cases w') (auto simp: Authenticate_def parseKey_def Let_def KeyStatusActive_def KeyStatusRevoked_def)
qed

text \<open>Which rejections touch the nonce store.\<close>

lemma Authenticate_nonces:
  assumes "Authenticate c a (t_key, t_skew, t_nonce) method path header body w = (res, w')"
  shows "snd w' = snd w \<or>
    (\<exists>rawKey rec r. bearerKey header = Inr rawKey \<and> fst (au_keys a t_key (KeyID rawKey (hex_encode (mc_Sum256 c rawKey))) (fst w)) = Inr rec
       \<and> hex_decode (kr_KeyHashHex rec) = Some (mc_Sum256 c rawKey) \<and> kr_Status rec = KeyStatusActive
       \<and> verifySignature c (au_maxSkew a) t_skew method path header body rawKey = None
       \<and> au_nonces a t_nonce (kr_KeyID rec) (header_Get header ''X-Nonce'') (au_nonceTTL a) (snd w) = (r, snd w'))"
proof (cases "bearerKey header")
  case (Inl e)
  with assms show ?thesis by (auto simp: Authenticate_def)
next
  case key: (Inr rawKey)
  show ?thesis
  proof (cases "parseKey c rawKey")
    case (Inl e)
    with assms key show ?thesis by (auto simp: Authenticate_def)
  next
    case pk: (Inr kh)
    then obtain kid hx where kh: "kh = (kid, hx)" by (cases kh)
    with pk have hx: "hx = hex_encode (mc_Sum256 c rawKey)" "kid = KeyID rawKey hx" by (simp_all add: parseKey_Inr)
    from assms key pk kh hx show ?thesis
      by (auto simp: Authenticate_def split: sum.splits prod.splits option.splits if_splits)
  qed
qed

section \<open>The canonical string\<close>

lemma newline_append_inject_rev:
  fixes a b a' b' :: string
  assumes "CHR 0x0A \<notin> set b" and "CHR 0x0A \<notin> set b'" and "a @ CHR 0x0A # b = a' @ CHR 0x0A # b'"
  shows "a = a' \<and> b = b'"
proof -
  have "rev b @ CHR 0x0A # rev a = rev b' @ CHR 0x0A # rev a'" using arg_cong [where f = rev, OF assms(3)] by simp
  from sep_append_inject [OF _ _ this] assms(1,2) show ?thesis by simp
qed

lemma ToUpper_newline: "CHR 0x0A \<notin> set m \<Longrightarrow> CHR 0x0A \<notin> set (ToUpper m)"
proof
  assume "CHR 0x0A \<notin> set m" and "CHR 0x0A \<in> set (ToUpper m)"
  then obtain ch where ch: "ch \<in> set m" "upper_char ch = CHR 0x0A" and neq: "ch \<noteq> CHR 0x0A" by (force simp: ToUpper_def)
  from ch(2) have "(of_char (upper_char ch) :: nat) = 10" by simp
  then have "(of_char ch :: nat) = 10" by (auto simp: upper_char_def Let_def split: if_splits)
  moreover have "(of_char (CHR 0x0A) :: nat) = 10" by simp
  ultimately have "ch = CHR 0x0A" by (metis of_char_eq_iff)
  with neq show False by simp
qed

lemma canonicalString_inject:
  assumes "canonicalString c m p ts n b = canonicalString c m' p' ts' n' b'"
    and "CHR 0x0A \<notin> set m \<union> set ts \<union> set n" and "CHR 0x0A \<notin> set m' \<union> set ts' \<union> set n'"
  shows "ToUpper m = ToUpper m' \<and> p = p' \<and> ts = ts' \<and> n = n' \<and> mc_Sum256 c b = mc_Sum256 c b'"
proof -
  let ?h = "hex_encode (mc_Sum256 c b)" and ?h' = "hex_encode (mc_Sum256 c b')"
  from assms(1) have "ToUpper m @ CHR 0x0A # (p @ CHR 0x0A # ts @ CHR 0x0A # n @ CHR 0x0A # ?h)
      = ToUpper m' @ CHR 0x0A # (p' @ CHR 0x0A # ts' @ CHR 0x0A # n' @ CHR 0x0A # ?h')"
    by (simp add: canonicalString_def)
  from sep_append_inject [OF ToUpper_newline ToUpper_newline this] assms(2,3)
  have m: "ToUpper m = ToUpper m'" and "p @ CHR 0x0A # ts @ CHR 0x0A # n @ CHR 0x0A # ?h
      = p' @ CHR 0x0A # ts' @ CHR 0x0A # n' @ CHR 0x0A # ?h'" by auto
  then have "(p @ CHR 0x0A # ts @ CHR 0x0A # n) @ CHR 0x0A # ?h = (p' @ CHR 0x0A # ts' @ CHR 0x0A # n') @ CHR 0x0A # ?h'"
    by simp
  from newline_append_inject_rev [OF hex_encode_no_newline hex_encode_no_newline this]
  have h: "?h = ?h'" and "(p @ CHR 0x0A # ts) @ CHR 0x0A # n = (p' @ CHR 0x0A # ts') @ CHR 0x0A # n'" by auto
  from newline_append_inject_rev [OF _ _ this(2)] assms(2,3)
  have n: "n = n'" and "p @ CHR 0x0A # ts = p' @ CHR 0x0A # ts'" by auto
  from newline_append_inject_rev [OF _ _ this(2)] assms(2,3) have "p = p' \<and> ts = ts'" by auto
  with m n h show ?thesis by (simp add: hex_encode_inject)
qed

section \<open>Replay\<close>

record auth_call =
  ac_clock :: "gotime \<times> gotime \<times> gotime"
  ac_method :: string
  ac_path :: string
  ac_header :: http_header
  ac_body :: string

definition auth_step :: "mac_crypto \<Rightarrow> ('k, 'n) Authenticator \<Rightarrow> auth_call \<Rightarrow> 'k \<times> 'n \<Rightarrow> (AuthError + Principal) \<times> 'k \<times> 'n" where
  "auth_step c a q w = Authenticate c a (ac_clock q) (ac_method q) (ac_path q) (ac_header q) (ac_body q) w"

primrec auth_run :: "mac_crypto \<Rightarrow> ('k, 'n) Authenticator \<Rightarrow> auth_call list \<Rightarrow> 'k \<times> 'n \<Rightarrow> 'k \<times> 'n" where
  "auth_run c a [] w = w"
| "auth_run c a (q # qs) w = auth_run c a qs (snd (auth_step c a q w))"

abbreviation nonce_time :: "auth_call \<Rightarrow> gotime" where "nonce_time q \<equiv> snd (snd (ac_clock q))"
abbreviation skew_time :: "auth_call \<Rightarrow> gotime" where "skew_time q \<equiv> fst (snd (ac_clock q))"

lemma auth_step_clock: "auth_step c a q w =
    Authenticate c a (fst (ac_clock q), skew_time q, nonce_time q) (ac_method q) (ac_path q) (ac_header q) (ac_body q) w"
  by (simp add: auth_step_def)

context nonce_store
begin

lemma kept_auth_run:
  assumes "au_nonces a = Remember" and "\<forall>q \<in> set qs. nonce_time q < x" and "kept (snd w) k n x"
  shows "kept (snd (auth_run c a qs w)) k n x"
  using assms(2,3)
proof (induction qs arbitrary: w)
  case (Cons q qs)
  obtain res w' where q: "auth_step c a q w = (res, w')" by (cases "auth_step c a q w")
  from Authenticate_nonces [OF q [unfolded auth_step_clock]]
  have "snd w' = snd w \<or> (\<exists>k' r. Remember (nonce_time q) k' (header_Get (ac_header q) ''X-Nonce'') (au_nonceTTL a) (snd w) = (r, snd w'))"
    unfolding assms(1) by blast
  with Cons.prems have "kept (snd w') k n x" using kept_stays by auto
  with Cons q show ?case by simp
qed simp

lemma replay_gap:
  assumes "au_nonces a = Remember" and "1000000 dvd au_nonceTTL a"
    and "auth_step c a q w = (Inr p, w1)" and "\<forall>r \<in> set qs. nonce_time r < nonce_time q + au_nonceTTL a"
    and "auth_step c a q' (auth_run c a qs w1) = (Inr p', w2)"
    and "pr_KeyID p' = pr_KeyID p" and "header_Get (ac_header q') ''X-Nonce'' = header_Get (ac_header q) ''X-Nonce''"
  shows "nonce_time q + au_nonceTTL a \<le> nonce_time q'"
proof (rule ccontr)
  let ?n = "header_Get (ac_header q) ''X-Nonce''"
  assume "\<not> ?thesis"
  then have late: "nonce_time q' < nonce_time q + au_nonceTTL a" by simp
  from assms(3) have "Remember (nonce_time q) (pr_KeyID p) ?n (au_nonceTTL a) (snd w) = (Inr True, snd w1)"
    unfolding auth_step_clock Authenticate_Inr assms(1) by (auto simp: principal_of_def)
  from fresh_kept [OF this assms(2)] kept_auth_run [OF assms(1,4)]
  have "kept (snd (auth_run c a qs w1)) (pr_KeyID p) ?n (nonce_time q + au_nonceTTL a)" by blast
  moreover from assms(5-7) have "Remember (nonce_time q') (pr_KeyID p) ?n (au_nonceTTL a) (snd (auth_run c a qs w1)) = (Inr True, snd w2)"
    unfolding auth_step_clock Authenticate_Inr assms(1) by (auto simp: principal_of_def)
  ultimately show False using kept_refused [OF _ late] by blast
qed

end

section \<open>A client's request\<close>

definition client_header :: "mac_crypto \<Rightarrow> string \<Rightarrow> string \<Rightarrow> string \<Rightarrow> int \<Rightarrow> string \<Rightarrow> string \<Rightarrow> http_header" where
  "client_header c rawKey method path ts nonce body =
     [(''Authorization'', [''Bearer '' @ rawKey]), (''X-Timestamp'', [FormatInt ts]), (''X-Nonce'', [nonce]),
      (''X-Signature'', [Sign c rawKey method path (FormatInt ts) nonce body])]"

lemma client_header_Get [simp]:
  "header_Get (client_header c rawKey method path ts nonce body) ''Authorization'' = ''Bearer '' @ rawKey"
  "header_Get (client_header c rawKey method path ts nonce body) ''X-Timestamp'' = FormatInt ts"
  "header_Get (client_header c rawKey method path ts nonce body) ''X-Nonce'' = nonce"
  "header_Get (client_header c rawKey method path ts nonce body) ''X-Signature'' = Sign c rawKey method path (FormatInt ts) nonce body"
  by (simp_all add: header_Get_def client_header_def)

lemma NewKey_Inr:
  assumes "NewKey c (Some buf) env orgID tier = Inr g"
  shows "gk_Plaintext g = (if env = EnvTest then prefixTest else prefixLive) @ ToLower (b32_encode buf) \<and>
    gk_Record g = \<lparr>kr_KeyID = KeyID (gk_Plaintext g) (hex_encode (mc_Sum256 c (gk_Plaintext g))),
      kr_KeyHashHex = hex_encode (mc_Sum256 c (gk_Plaintext g)), kr_OrgID = orgID, kr_Tier = tier, kr_Env = env,
      kr_Status = KeyStatusActive, kr_Shadow = True\<rparr>"
  using assms by (auto simp: NewKey_def Let_def split: if_splits)

lemma NewKey_graphic:
  assumes "NewKey c (Some buf) env orgID tier = Inr g" and "buf \<noteq> []"
  shows "TrimSpace (gk_Plaintext g) = gk_Plaintext g"
    and "HasPrefix (gk_Plaintext g) prefixLive \<or> HasPrefix (gk_Plaintext g) prefixTest"
    and "gk_Plaintext g \<noteq> []"
proof -
  let ?p = "if env = EnvTest then prefixTest else prefixLive" and ?s = "ToLower (b32_encode buf)"
  have g: "gk_Plaintext g = ?p @ ?s" using NewKey_Inr [OF assms(1)] by blast
  have "?s \<noteq> []" using assms(2) by (rule b32_encode_nonempty)
  moreover from this have "graphic (last ?s)" by (intro b32_lower_graphic) (rule last_in_set)
  moreover have "graphic (hd (?p @ ?s))" by (simp add: prefixTest_def prefixLive_def graphic_def)
  ultimately show "TrimSpace (gk_Plaintext g) = gk_Plaintext g"
    unfolding g by (intro TrimSpace_graphic) (auto simp: last_append)
  show "HasPrefix (gk_Plaintext g) prefixLive \<or> HasPrefix (gk_Plaintext g) prefixTest" unfolding g by simp
  show "gk_Plaintext g \<noteq> []" unfolding g by (simp add: prefixTest_def prefixLive_def)
qed

lemma client_bearer:
  "TrimSpace rawKey = rawKey \<Longrightarrow> rawKey \<noteq> [] \<Longrightarrow>
   bearerKey (client_header c rawKey method path ts nonce body) = Inr rawKey"
  by (simp add: bearerKey_def EqualFold_def)

lemma hex_encode_empty [simp]: "hex_encode bs = [] \<longleftrightarrow> bs = []"
  by (cases bs) (simp_all add: hex_encode_def hex_byte_def)

lemma client_signature:
  "mc_HMAC c rawKey (canonicalString c method path (FormatInt ts) nonce body) \<noteq> [] \<Longrightarrow>
   signature_ok c method path (client_header c rawKey method path ts nonce body) body rawKey"
  by (simp add: signature_ok_def Sign_def computeMAC_def)

lemma client_accepted:
  assumes "TrimSpace rawKey = rawKey" "HasPrefix rawKey prefixLive \<or> HasPrefix rawKey prefixTest" "rawKey \<noteq> []"
    and "au_keys a t_key (KeyID rawKey (hex_encode (mc_Sum256 c rawKey))) ks = (Inr rec, ks')"
    and "kr_KeyHashHex rec = hex_encode (mc_Sum256 c rawKey)" "kr_Status rec = KeyStatusActive"
    and "\<forall>k m. mc_HMAC c k m \<noteq> []" "8 \<le> length nonce" "length nonce \<le> 128" "in_int64 ts"
    and "\<bar>t_skew - time_of_Unix ts\<bar> \<le> au_maxSkew a" "au_maxSkew a < 2 ^ 63"
    and "au_nonces a t_nonce (kr_KeyID rec) nonce (au_nonceTTL a) ns = (Inr True, ns')"
  shows "Authenticate c a (t_key, t_skew, t_nonce) method path (client_header c rawKey method path ts nonce body) body (ks, ns)
    = (Inr (principal_of rec), ks', ns')"
proof -
  let ?h = "client_header c rawKey method path ts nonce body"
  have "skew_of t_skew ts \<le> au_maxSkew a" using assms(11,12) by (subst skew_of_exact) auto
  moreover have "ParseInt64 (FormatInt ts) = Some ts" using assms(10) by (rule ParseInt64_FormatInt)
  moreover have "signature_ok c method path ?h body rawKey" using assms(7) by (intro client_signature) blast
  ultimately have "verifySignature c (au_maxSkew a) t_skew method path ?h body rawKey = None"
    unfolding verifySignature_None using assms(8,9) by simp
  with assms(1-6,13) show ?thesis
    unfolding Authenticate_Inr by (intro exI [of _ rawKey] exI [of _ rec]) (auto simp: client_bearer)
qed

lemma fresh_nonce_remembered:
  "rn_up rs \<Longrightarrow> rn_keys rs (redis_nonce_key k nonce) = None \<Longrightarrow> \<exists>rs'. RedisNonce_Remember t k nonce ttl rs = (Inr True, rs')"
  by (simp add: RedisNonce_Remember_def Let_def)

section \<open>A sample request\<close>

definition demo_mac :: mac_crypto where
  "demo_mac = \<lparr>mc_Sum256 = (\<lambda>s. replicate 32 (CHR ''h'')), mc_HMAC = (\<lambda>k m. k @ ''!'')\<rparr>"

definition demo_raw :: string where "demo_raw = ''azn_live_a''"

definition demo_auth :: "(MemKeyStore, MemNonceStore) Authenticator" where
  "demo_auth = NewAuthenticator (\<lambda>t k m. (MemKeyStore_LookupByID k m, m)) MemNonce_Remember (5 * ns_minute) 0"

definition demo_stored :: KeyRecord where
  "demo_stored = \<lparr>kr_KeyID = ''azn_live_6868686868686868'', kr_KeyHashHex = hex_encode (replicate 32 (CHR ''h'')),
     kr_OrgID = ''org'', kr_Tier = ''pro'', kr_Env = ''live'', kr_Status = ''active'', kr_Shadow = True\<rparr>"

definition demo_world :: "MemKeyStore \<times> MemNonceStore" where
  "demo_world = (\<lparr>mk_keys = [(''azn_live_6868686868686868'', demo_stored)], mk_info = []\<rparr>, NewMemNonceStore)"

definition demo_header :: http_header where
  "demo_header = [(''Authorization'', [''Bearer azn_live_a'']), (''X-Timestamp'', [''0'']), (''X-Nonce'', [''nonce-01'']),
     (''X-Signature'', [hex_encode (demo_raw @ ''!'')])]"

lemmas demo_auth_defs = demo_mac_def demo_raw_def demo_auth_def demo_stored_def demo_world_def demo_header_def
  NewAuthenticator_def

lemma demo_bearer: "bearerKey demo_header = Inr demo_raw"
proof -
  have "TrimSpace ''azn_live_a'' = ''azn_live_a''" by (rule TrimSpace_graphic) (simp_all add: graphic_def)
  then show ?thesis by (simp add: bearerKey_def demo_header_def header_Get_def demo_raw_def EqualFold_def)
qed

lemma take_hex_encode: "take (2 * n) (hex_encode bs) = hex_encode (take n bs)"
proof -
  have "hex_encode bs = hex_encode (take n bs) @ hex_encode (drop n bs)" by (simp add: hex_encode_append [symmetric])
  then show ?thesis
    by (cases "n \<le> length bs") (simp_all add: min_def)
qed

lemma demo_KeyID: "KeyID demo_raw (hex_encode (mc_Sum256 demo_mac demo_raw)) = ''azn_live_6868686868686868''"
proof -
  have "take 16 (hex_encode (replicate 32 (CHR ''h''))) = hex_encode (replicate 8 (CHR ''h''))"
    using take_hex_encode [of 8 "replicate 32 (CHR ''h'')"] by simp
  moreover have "replicate 8 (CHR ''h'') = ''hhhhhhhh''" by (simp add: eval_nat_numeral)
  moreover have "hex_encode ''hhhhhhhh'' = ''6868686868686868''" by (simp add: hex_encode_def hex_byte_def hex_digit_def)
  moreover have "\<not> HasPrefix demo_raw prefixTest" by (simp add: demo_raw_def HasPrefix_def prefixTest_def)
  ultimately show ?thesis
    by (simp add: KeyID_def demo_mac_def prefixLive_def keyIDHashPrefixLen_def)
qed

lemma demo_signature: "signature_ok demo_mac m path demo_header body demo_raw"
  by (simp add: signature_ok_def demo_header_def header_Get_def demo_mac_def)

lemma demo_timestamp: "ParseInt64 (header_Get demo_header ''X-Timestamp'') = Some 0"
  by (simp add: demo_header_def header_Get_def ParseInt64_def is_digit_def digit_val_def in_int64_def)

lemma demo_epoch: "time_of_Unix 0 = unixToInternal * ns_second"
  by (simp add: time_of_Unix_def wrap64_def)

lemma demo_nonce: "header_Get demo_header ''X-Nonce'' = ''nonce-01''"
  by (simp add: demo_header_def header_Get_def)

lemma demo_credentials:
  "HasPrefix demo_raw prefixLive" "hex_decode (kr_KeyHashHex demo_stored) = Some (mc_Sum256 demo_mac demo_raw)"
  "kr_Status demo_stored = KeyStatusActive" "kr_KeyID demo_stored = ''azn_live_6868686868686868''"
  by (simp_all add: demo_raw_def HasPrefix_def prefixLive_def demo_stored_def demo_mac_def KeyStatusActive_def)

lemma demo_accept:
  assumes "au_keys a t_key ''azn_live_6868686868686868'' ks = (Inr demo_stored, ks')"
    and "\<bar>t_skew - unixToInternal * ns_second\<bar> \<le> au_maxSkew a" and "au_maxSkew a < 2 ^ 63"
    and "au_nonces a t_nonce ''azn_live_6868686868686868'' ''nonce-01'' (au_nonceTTL a) ns = (Inr True, ns')"
  shows "Authenticate demo_mac a (t_key, t_skew, t_nonce) m path demo_header body (ks, ns)
    = (Inr (principal_of demo_stored), ks', ns')"
proof -
  have "skew_of t_skew 0 \<le> au_maxSkew a" using assms(2,3) by (subst skew_of_exact) (auto simp: demo_epoch)
  then have "verifySignature demo_mac (au_maxSkew a) t_skew m path demo_header body demo_raw = None"
    by (simp add: verifySignature_None demo_nonce demo_timestamp demo_signature)
  with assms show ?thesis
    unfolding Authenticate_Inr
    by (intro exI [of _ demo_raw] exI [of _ demo_stored]) (simp add: demo_bearer demo_KeyID demo_nonce demo_credentials)
qed

definition demo_redis_auth :: "(MemKeyStore, RedisNonceStore) Authenticator" where
  "demo_redis_auth = NewAuthenticator (\<lambda>t k m. (MemKeyStore_LookupByID k m, m)) RedisNonce_Remember (5 * ns_minute) 0"

definition demo_redis_world :: "MemKeyStore \<times> RedisNonceStore" where
  "demo_redis_world = (fst demo_world, \<lparr>rn_up = True, rn_keys = (\<lambda>_. None)\<rparr>)"

definition demo_call :: "gotime \<Rightarrow> duration \<Rightarrow> auth_call" where
  "demo_call t d = \<lparr>ac_clock = (t, t, t + d), ac_method = ''POST'', ac_path = ''/v1/authorize'',
     ac_header = demo_header, ac_body = ''{}''\<rparr>"

lemma demo_redis_auth_simps:
  "au_keys demo_redis_auth = (\<lambda>t k m. (MemKeyStore_LookupByID k m, m))" "au_nonces demo_redis_auth = RedisNonce_Remember"
  "au_maxSkew demo_redis_auth = 5 * ns_minute" "au_nonceTTL demo_redis_auth = 10 * ns_minute"
  by (simp_all add: demo_redis_auth_def NewAuthenticator_def wrap64_def)

lemma demo_lookup: "MemKeyStore_LookupByID ''azn_live_6868686868686868'' (fst demo_world) = Inr demo_stored"
  by (simp add: demo_world_def MemKeyStore_LookupByID_def)

section \<open>Properties\<close>



text \<open>A minted key works end to end. A key from \<open>NewKey\<close> whose record was created in
  Postgres authenticates a request that its holder signs with \<open>Sign\<close>, with a nonce of legal
  length not used before and a time stamp within the skew; the caller gets the key's
  organisation, tier and environment, and the key is in shadow mode.\<close>

theorem signed_request_accepted:
  assumes "NewKey c (Some buf) env org tier = Inr g" and "buf \<noteq> []"
    and "Postgres_CreateKey (gk_Record g) created pg = (None, pg')" and "pg_keys_inv pg"
    and "\<forall>k m. mc_HMAC c k m \<noteq> []"
    and "8 \<le> length nonce" and "length nonce \<le> 128" and "in_int64 ts"
    and "\<bar>t_skew - time_of_Unix ts\<bar> \<le> skew" and "skew < 2 ^ 63"
    and "rn_up rs" and "rn_keys rs (redis_nonce_key (kr_KeyID (gk_Record g)) nonce) = None"
  shows "\<exists>rs'. Authenticate c (NewAuthenticator (\<lambda>t k s. (Postgres_LookupByID k s, s)) RedisNonce_Remember skew ttl)
      (t_key, t_skew, t_nonce) method path (client_header c (gk_Plaintext g) method path ts nonce body) body (pg', rs)
    = (Inr \<lparr>pr_OrgID = org, pr_KeyID = KeyID (gk_Plaintext g) (hex_encode (mc_Sum256 c (gk_Plaintext g))),
            pr_Tier = tier, pr_Env = env, pr_Shadow = True\<rparr>, pg', rs')"
proof -
  let ?r = "gk_Plaintext g" and ?a = "NewAuthenticator (\<lambda>t k s. (Postgres_LookupByID k s, s)) RedisNonce_Remember skew ttl"
  note key = NewKey_graphic [OF assms(1,2)] and rec = NewKey_Inr [OF assms(1), THEN conjunct2]
  have found: "au_keys ?a t_key (KeyID ?r (hex_encode (mc_Sum256 c ?r))) pg' = (Inr (gk_Record g), pg')"
    using pg_keys.create_lookup [OF assms(3,4)] rec by (simp add: NewAuthenticator_def)
  obtain rs' where "au_nonces ?a t_nonce (kr_KeyID (gk_Record g)) nonce (au_nonceTTL ?a) rs = (Inr True, rs')"
    using fresh_nonce_remembered [OF assms(11,12)] by (auto simp: NewAuthenticator_def)
  from client_accepted [OF key found _ _ assms(5-8) _ _ this] rec assms(9,10) show ?thesis
    by (auto simp: NewAuthenticator_def principal_of_def)
qed

theorem signed_request_accepted_witness:
  "\<exists>g pg' rs'. NewKey demo_mac (Some ''entropy'') ''live'' ''org'' ''pro'' = Inr g
     \<and> Postgres_CreateKey (gk_Record g) 0 \<lparr>pk_up = True, pk_rows = []\<rparr> = (None, pg')
     \<and> Authenticate demo_mac (NewAuthenticator (\<lambda>t k s. (Postgres_LookupByID k s, s)) RedisNonce_Remember (5 * ns_minute) 0)
        (0, unixToInternal * ns_second, 0) ''POST'' ''/v1/authorize''
        (client_header demo_mac (gk_Plaintext g) ''POST'' ''/v1/authorize'' 0 ''nonce-01'' ''{}'') ''{}''
        (pg', \<lparr>rn_up = True, rn_keys = (\<lambda>_. None)\<rparr>)
      = (Inr \<lparr>pr_OrgID = ''org'', pr_KeyID = KeyID (gk_Plaintext g) (hex_encode (mc_Sum256 demo_mac (gk_Plaintext g))),
            pr_Tier = ''pro'', pr_Env = ''live'', pr_Shadow = True\<rparr>, pg', rs')"
proof -
  obtain g where g: "NewKey demo_mac (Some ''entropy'') ''live'' ''org'' ''pro'' = Inr g"
    by (simp add: NewKey_def EnvTest_def EnvLive_def Let_def)
  from NewKey_Inr [OF g] have "kr_Env (gk_Record g) = ''live''" "kr_Status (gk_Record g) = KeyStatusActive" by auto
  then obtain pg' where pg: "Postgres_CreateKey (gk_Record g) 0 \<lparr>pk_up = True, pk_rows = []\<rparr> = (None, pg')"
    by (simp add: Postgres_CreateKey_def pk_insert_def row_ok_def EnvLive_def)
  have "pg_keys_inv \<lparr>pk_up = True, pk_rows = []\<rparr>" by (simp add: pg_keys_inv_def keyed_def)
  from signed_request_accepted [OF g _ pg this, of "''nonce-01''" 0 "unixToInternal * ns_second" "5 * ns_minute"
      "\<lparr>rn_up = True, rn_keys = (\<lambda>_. None)\<rparr>" 0 0 0 "''POST''" "''/v1/authorize''" "''{}''"] g pg
  show ?thesis by (fastforce simp: demo_mac_def demo_epoch in_int64_def)
qed



text \<open>Only a validly signed request of an active key reaches the nonce store, and every
  failure is closed. Whatever the stores do, a call either leaves the nonce store as it
  was or has verified the key against the stored hash, an active status and the signature;
  an unreachable key or nonce store ends in 503; a revoked key whose hash matches ends in 403.\<close>

theorem authentication_fails_closed:
  assumes "Authenticate c a (t_key, t_skew, t_nonce) method path header body (ks, ns) = (res, ks', ns')"
    and "bearerKey header = Inr rawKey" and "HasPrefix rawKey prefixLive \<or> HasPrefix rawKey prefixTest"
    and "au_keys a t_key (KeyID rawKey (hex_encode (mc_Sum256 c rawKey))) ks = (looked, ks1)"
  shows "(ns' \<noteq> ns \<longrightarrow> (\<exists>rec. looked = Inr rec \<and> hex_decode (kr_KeyHashHex rec) = Some (mc_Sum256 c rawKey)
           \<and> kr_Status rec = KeyStatusActive
           \<and> verifySignature c (au_maxSkew a) t_skew method path header body rawKey = None))
    \<and> (\<forall>e. looked = Inl e \<longrightarrow> res = Inl (if e = ErrKeyNotFound then errUnauthorized ''Invalid API key.'' else errUnavailable))
    \<and> (\<forall>rec. looked = Inr rec \<and> hex_decode (kr_KeyHashHex rec) = Some (mc_Sum256 c rawKey) \<and> kr_Status rec \<noteq> KeyStatusActive
          \<longrightarrow> (\<exists>e. res = Inl e \<and> ae_Status e = 403))
    \<and> (\<forall>e rec ns1. looked = Inr rec \<and> au_nonces a t_nonce (kr_KeyID rec) (header_Get header ''X-Nonce'') (au_nonceTTL a) ns = (Inl e, ns1)
          \<longrightarrow> (\<exists>err. res = Inl err))"
proof -
  have pk: "parseKey c rawKey = Inr (KeyID rawKey (hex_encode (mc_Sum256 c rawKey)), hex_encode (mc_Sum256 c rawKey))"
    using assms(3) by (simp add: parseKey_Inr)
  have "\<exists>rec. looked = Inr rec \<and> hex_decode (kr_KeyHashHex rec) = Some (mc_Sum256 c rawKey)
           \<and> kr_Status rec = KeyStatusActive
           \<and> verifySignature c (au_maxSkew a) t_skew method path header body rawKey = None" if "ns' \<noteq> ns"
    using Authenticate_nonces [OF assms(1)] that assms(2,4) by auto
  moreover have "res = Inl (if e = ErrKeyNotFound then errUnauthorized ''Invalid API key.'' else errUnavailable)"
    if "looked = Inl e" for e
    using assms(1,2,4) pk that by (simp add: Authenticate_def)
  moreover have "\<exists>e. res = Inl e \<and> ae_Status e = 403"
    if "looked = Inr rec" "hex_decode (kr_KeyHashHex rec) = Some (mc_Sum256 c rawKey)" "kr_Status rec \<noteq> KeyStatusActive" for rec
    using assms(1,2,4) pk that by (auto simp: Authenticate_def errForbidden_def split: if_splits)
  moreover have "\<exists>err. res = Inl err"
    if "looked = Inr rec" "au_nonces a t_nonce (kr_KeyID rec) (header_Get header ''X-Nonce'') (au_nonceTTL a) ns = (Inl e, ns1)" for e rec ns1
  proof (cases res)
    case (Inr p)
    from assms(1) [unfolded Inr Authenticate_Inr] assms(2,4) that show ?thesis by auto
  qed simp
  ultimately show ?thesis by blast
qed

theorem authentication_fails_closed_witness:
  "fst (Authenticate demo_mac demo_auth (0, 0, 0) ''POST'' ''/v1/authorize'' demo_header ''{}'' (\<lparr>mk_keys = [], mk_info = []\<rparr>, NewMemNonceStore))
     = Inl (errUnauthorized ''Invalid API key.'')"
proof -
  let ?k = "\<lparr>mk_keys = [], mk_info = []\<rparr> :: MemKeyStore"
  obtain res ks' ns' where A: "Authenticate demo_mac demo_auth (0, 0, 0) ''POST'' ''/v1/authorize'' demo_header ''{}'' (?k, NewMemNonceStore)
      = (res, ks', ns')" by (metis prod.collapse)
  have "au_keys demo_auth 0 kid ?k = (Inl ErrKeyNotFound, ?k)" for kid
    by (simp add: demo_auth_def NewAuthenticator_def MemKeyStore_LookupByID_def)
  with authentication_fails_closed [OF A demo_bearer] demo_credentials(1) A show ?thesis by auto
qed

text \<open>The signature covers the request. When method, time stamp and nonce hold no line
  feed (the HTTP syntax excludes it), equal canonical strings have the same method up to
  letter case, the same path, whatever bytes it holds, the same time stamp, the same nonce
  and the same body hash; so a MAC made for one request is a MAC for no other.\<close>

theorem canonical_string_binds:
  assumes "CHR 0x0A \<notin> set m \<union> set ts \<union> set n" and "CHR 0x0A \<notin> set m' \<union> set ts' \<union> set n'"
  shows "canonicalString c m p ts n b = canonicalString c m' p' ts' n' b' \<longleftrightarrow>
    ToUpper m = ToUpper m' \<and> p = p' \<and> ts = ts' \<and> n = n' \<and> mc_Sum256 c b = mc_Sum256 c b'"
proof
  assume "canonicalString c m p ts n b = canonicalString c m' p' ts' n' b'"
  then show "ToUpper m = ToUpper m' \<and> p = p' \<and> ts = ts' \<and> n = n' \<and> mc_Sum256 c b = mc_Sum256 c b'"
    by (rule canonicalString_inject [OF _ assms])
qed (simp add: canonicalString_def)

theorem canonical_string_binds_witness:
  "canonicalString demo_mac ''POST'' ''/a'' ''0'' ''nonce-01'' ''{}'' \<noteq> canonicalString demo_mac ''POST'' ''/b'' ''0'' ''nonce-01'' ''{}''"
  by (subst canonical_string_binds) simp_all

text \<open>The skew check does not bound time stamps from above: the difference to a time more
  than 292 years ahead saturates at the smallest duration, whose negation is itself, so
  the check passes whatever the allowed skew.\<close>

lemma far_future_passes_skew:
  assumes "0 \<le> maxSkew" and "now - time_of_Unix ts \<le> - (2 ^ 63)"
  shows "skew_of now ts \<le> maxSkew"
proof -
  have "time_Sub now (time_of_Unix ts) = - (2 ^ 63)" using assms(2) by (auto simp: time_Sub_def)
  moreover have "duration_neg (- (2 ^ 63)) = - (2 ^ 63)" by (simp add: duration_neg_def wrap64_def)
  ultimately show ?thesis using assms(1) by (simp add: skew_of_def)
qed

end
