(* ===== verification/Idempotency.thy ===== *)
theory Idempotency
  imports Auth_Stores Contracts
begin

text \<open>
  \<open>internal/idempotency\<close>: the cache of issued decisions by organisation and idempotency key,
  over Redis with a time to live and in memory. The interface \<open>idem_store\<close> states what the
  authorize handler relies on; both caches are interpreted.
\<close>

definition idem_key :: "string \<Rightarrow> string \<Rightarrow> string" where
  "idem_key orgID idemKey = ''idem:'' @ orgID @ '':'' @ idemKey"

section \<open>Redis\<close>

text \<open>An entry is the stored decision, or \<open>None\<close> for bytes that do not decode, with its expiry
  in milliseconds. \<open>ri_up\<close>: whether Redis answers.\<close>

record RedisIdem =
  ri_up :: bool
  ri_ttl :: duration
  ri_keys :: "string \<rightharpoonup> Decision option \<times> int"

definition NewRedisIdem :: "duration \<Rightarrow> RedisIdem" where
  "NewRedisIdem ttl = \<lparr>ri_up = True, ri_ttl = (if ttl \<le> 0 then 24 * 3600 * ns_second else ttl), ri_keys = Map.empty\<rparr>"

text \<open>\<open>Lookup\<close>: an error, or the cached decision if there is one.\<close>

definition RedisIdem_Lookup :: "gotime \<Rightarrow> string \<Rightarrow> string \<Rightarrow> RedisIdem \<Rightarrow> string + Decision option" where
  "RedisIdem_Lookup now orgID idemKey s =
     (if \<not> ri_up s then Inl ''idempotency: get''
      else case ri_keys s (idem_key orgID idemKey) of
             None \<Rightarrow> Inr None
           | Some (v, ex) \<Rightarrow> if kc_ms now \<le> ex then Inr v else Inr None)"

definition RedisIdem_Save :: "gotime \<Rightarrow> string \<Rightarrow> string \<Rightarrow> Decision \<Rightarrow> RedisIdem \<Rightarrow> string option \<times> RedisIdem" where
  "RedisIdem_Save now orgID idemKey dec s =
     (if \<not> ri_up s then (Some ''idempotency: set'', s)
      else (None, s\<lparr>ri_keys := (ri_keys s)(idem_key orgID idemKey \<mapsto> (Some dec, kc_ms now + kc_ms (ri_ttl s)))\<rparr>))"

section \<open>Memory\<close>

type_synonym MemIdem = "string \<rightharpoonup> Decision"

definition NewMemIdem :: MemIdem where "NewMemIdem = Map.empty"

definition MemIdem_Lookup :: "string \<Rightarrow> string \<Rightarrow> MemIdem \<Rightarrow> string + Decision option" where
  "MemIdem_Lookup orgID idemKey m = Inr (m (idem_key orgID idemKey))"

definition MemIdem_Save :: "string \<Rightarrow> string \<Rightarrow> Decision \<Rightarrow> MemIdem \<Rightarrow> string option \<times> MemIdem" where
  "MemIdem_Save orgID idemKey dec m = (None, m(idem_key orgID idemKey \<mapsto> dec))"

section \<open>The interface\<close>

text \<open>
  \<open>cached s org k d x\<close>: the cache answers \<open>d\<close> for the pair at every time before \<open>x\<close> while it is
  up. A successful save establishes it for the time to live; a save under another cache key, or one that
  fails, keeps it.
\<close>

locale idem_store =
  fixes Lookup :: "gotime \<Rightarrow> string \<Rightarrow> string \<Rightarrow> 's \<Rightarrow> string + Decision option"
    and Save :: "gotime \<Rightarrow> string \<Rightarrow> string \<Rightarrow> Decision \<Rightarrow> 's \<Rightarrow> string option \<times> 's"
    and up :: "'s \<Rightarrow> bool" and ttl :: "'s \<Rightarrow> duration"
    and cached :: "'s \<Rightarrow> string \<Rightarrow> string \<Rightarrow> Decision \<Rightarrow> gotime \<Rightarrow> bool"
  assumes save_cached: "Save t org k d s = (None, s') \<Longrightarrow> 1000000 dvd ttl s \<Longrightarrow> cached s' org k d (t + ttl s)"
    and cached_hit: "cached s org k d x \<Longrightarrow> t < x \<Longrightarrow> up s \<Longrightarrow> Lookup t org k s = Inr (Some d)"
    and save_other: "cached s org k d x \<Longrightarrow> Save t org' k' d' s = (e, s') \<Longrightarrow> idem_key org' k' \<noteq> idem_key org k \<Longrightarrow> cached s' org k d x"
    and save_keeps: "Save t org k d s = (e, s') \<Longrightarrow> up s' = up s \<and> ttl s' = ttl s"
begin

text \<open>Saves to other cache keys in between do not matter.\<close>

primrec saves :: "(gotime \<times> string \<times> string \<times> Decision) list \<Rightarrow> 's \<Rightarrow> 's" where
  "saves [] s = s"
| "saves (q # qs) s = saves qs (snd (Save (fst q) (fst (snd q)) (fst (snd (snd q))) (snd (snd (snd q))) s))"

lemma saves_cached:
  "cached s org k d x \<Longrightarrow> \<forall>q \<in> set qs. idem_key (fst (snd q)) (fst (snd (snd q))) \<noteq> idem_key org k \<Longrightarrow>
     cached (saves qs s) org k d x \<and> up (saves qs s) = up s"
proof (induction qs arbitrary: s)
  case (Cons q qs)
  obtain e s' where s: "Save (fst q) (fst (snd q)) (fst (snd (snd q))) (snd (snd (snd q))) s = (e, s')"
    by (cases "Save (fst q) (fst (snd q)) (fst (snd (snd q))) (snd (snd (snd q))) s")
  from save_other [OF Cons.prems(1) s] Cons.prems(2) have "cached s' org k d x" by simp
  with Cons.IH [of s'] Cons.prems(2) save_keeps [OF s] s show ?case by simp
qed simp

end

definition redis_cached :: "RedisIdem \<Rightarrow> string \<Rightarrow> string \<Rightarrow> Decision \<Rightarrow> gotime \<Rightarrow> bool" where
  "redis_cached s org k d x \<longleftrightarrow> (\<exists>ex. ri_keys s (idem_key org k) = Some (Some d, ex) \<and> (\<forall>t < x. kc_ms t \<le> ex))"

interpretation redis_idem: idem_store RedisIdem_Lookup RedisIdem_Save ri_up ri_ttl redis_cached
proof unfold_locales
  show "RedisIdem_Save t org k d s = (None, s') \<Longrightarrow> 1000000 dvd ri_ttl s \<Longrightarrow> redis_cached s' org k d (t + ri_ttl s)" for t org k d s s'
    by (auto simp: RedisIdem_Save_def redis_cached_def kc_ms_ttl split: if_splits)
  show "redis_cached s org k d x \<Longrightarrow> t < x \<Longrightarrow> ri_up s \<Longrightarrow> RedisIdem_Lookup t org k s = Inr (Some d)" for s org k d x t
    by (auto simp: RedisIdem_Lookup_def redis_cached_def)
  show "redis_cached s org k d x \<Longrightarrow> RedisIdem_Save t org' k' d' s = (e, s') \<Longrightarrow> idem_key org' k' \<noteq> idem_key org k \<Longrightarrow>
      redis_cached s' org k d x" for s org k d x t org' k' d' e s'
    by (auto simp: RedisIdem_Save_def redis_cached_def split: if_splits)
  show "RedisIdem_Save t org k d s = (e, s') \<Longrightarrow> ri_up s' = ri_up s \<and> ri_ttl s' = ri_ttl s" for t org k d s e s'
    by (auto simp: RedisIdem_Save_def split: if_splits)
qed

interpretation mem_idem: idem_store "\<lambda>_. MemIdem_Lookup" "\<lambda>_. MemIdem_Save" "\<lambda>_. True" "\<lambda>_. 0"
    "\<lambda>s org k d x. s (idem_key org k) = Some d"
  by unfold_locales (auto simp: MemIdem_Lookup_def MemIdem_Save_def)

end
