(* ===== verification/Policy_File.thy ===== *)
theory Policy_File
  imports Engine Go_Text
begin

text \<open>
  \<open>internal/policy\<close>: the loader that turns a policy document into the policy the engine
  evaluates. A document is the JSON tree of its first value (or the reader's error); the strict
  decoding of \<open>encoding/json\<close> (unknown members are errors, member names match up to case, null
  leaves a string or number alone and clears a slice, map or pointer) is written out. When an
  object repeats a member the later value replaces the earlier one. A Go map is its association
  list sorted by key.
\<close>

section \<open>Decoding JSON\<close>

fun bindE :: "'e + 'a \<Rightarrow> ('a \<Rightarrow> 'e + 'b) \<Rightarrow> 'e + 'b" where
  "bindE (Inl e) f = Inl e"
| "bindE (Inr x) f = f x"

fun mapE :: "('a \<Rightarrow> 'e + 'b) \<Rightarrow> 'a list \<Rightarrow> 'e + 'b list" where
  "mapE f [] = Inr []"
| "mapE f (x # xs) = bindE (f x) (\<lambda>y. bindE (mapE f xs) (\<lambda>ys. Inr (y # ys)))"

fun foldE :: "('a \<Rightarrow> 's \<Rightarrow> 'e + 's) \<Rightarrow> 'a list \<Rightarrow> 's \<Rightarrow> 'e + 's" where
  "foldE f [] s = Inr s"
| "foldE f (x # xs) s = bindE (f x s) (foldE f xs)"

lemma bindE_Inr [simp]: "bindE m Inr = m"
  by (cases m) simp_all

lemma bindE_assoc: "bindE (bindE m f) g = bindE m (\<lambda>x. bindE (f x) g)"
  by (cases m) simp_all

lemma bindE_eq_Inr: "bindE m f = Inr y \<longleftrightarrow> (\<exists>x. m = Inr x \<and> f x = Inr y)"
  by (cases m) auto

lemma foldE_Nil [simp]: "foldE f [] = Inr"
  by (simp add: fun_eq_iff)

lemma foldE_append: "foldE f (xs @ ys) s = bindE (foldE f xs s) (foldE f ys)"
proof (induction xs arbitrary: s)
  case (Cons x xs)
  then show ?case by (cases "f x s") simp_all
qed simp

lemma mapE_Inr: "(\<And>x. x \<in> set xs \<Longrightarrow> f x = Inr (g x)) \<Longrightarrow> mapE f xs = Inr (map g xs)"
  by (induction xs) auto

datatype json_error =
    SyntaxError string
  | UnknownField string
  | TypeMismatch string string string string

text \<open>Where a value stands: the struct type and the path of field names.\<close>

type_synonym json_place = "string \<times> string"

fun json_error_str :: "json_error \<Rightarrow> string" where
  "json_error_str (SyntaxError msg) = msg"
| "json_error_str (UnknownField k) = ''json: unknown field '' @ quote k"
| "json_error_str (TypeMismatch val strct field typ) =
     (if strct \<noteq> [] \<or> field \<noteq> []
      then ''json: cannot unmarshal '' @ val @ '' into Go struct field '' @ strct @ ''.'' @ field @ '' of type '' @ typ
      else ''json: cannot unmarshal '' @ val @ '' into Go value of type '' @ typ)"

fun json_kind :: "json \<Rightarrow> string" where
  "json_kind JsonNull = ''null''"
| "json_kind (JsonBool _) = ''bool''"
| "json_kind (JsonNum _) = ''number''"
| "json_kind (JsonLit _) = ''number''"
| "json_kind (JsonString _) = ''string''"
| "json_kind (JsonArr _) = ''array''"
| "json_kind (JsonObj _) = ''object''"

definition mismatch :: "json_place \<Rightarrow> string \<Rightarrow> string \<Rightarrow> json_error + 'a" where
  "mismatch pl val typ = Inl (TypeMismatch val (fst pl) (snd pl) typ)"

fun dec_string :: "json_place \<Rightarrow> json \<Rightarrow> string \<Rightarrow> json_error + string" where
  "dec_string pl (JsonString s) old = Inr s"
| "dec_string pl JsonNull old = Inr old"
| "dec_string pl j old = mismatch pl (json_kind j) ''string''"

fun dec_int :: "json_place \<Rightarrow> json \<Rightarrow> int \<Rightarrow> json_error + int" where
  "dec_int pl (JsonNum i) old =
     (if in_int64 i then Inr i else mismatch pl (''number '' @ FormatInt i) ''int'')"
| "dec_int pl (JsonLit s) old = mismatch pl (''number '' @ s) ''int''"
| "dec_int pl JsonNull old = Inr old"
| "dec_int pl j old = mismatch pl (json_kind j) ''int''"

fun dec_int_ptr :: "json_place \<Rightarrow> json \<Rightarrow> json_error + int option" where
  "dec_int_ptr pl JsonNull = Inr None"
| "dec_int_ptr pl j = bindE (dec_int pl j 0) (\<lambda>i. Inr (Some i))"

text \<open>A slice of strings, \<open>None\<close> being nil.\<close>

fun dec_strings_nil :: "json_place \<Rightarrow> json \<Rightarrow> json_error + string list option" where
  "dec_strings_nil pl (JsonArr js) = bindE (mapE (\<lambda>j. dec_string pl j []) js) (\<lambda>ss. Inr (Some ss))"
| "dec_strings_nil pl JsonNull = Inr None"
| "dec_strings_nil pl j = mismatch pl (json_kind j) ''[]string''"

definition of_nil :: "'a list option \<Rightarrow> 'a list" where
  "of_nil s = (case s of None \<Rightarrow> [] | Some xs \<Rightarrow> xs)"

definition dec_strings :: "json_place \<Rightarrow> json \<Rightarrow> json_error + string list" where
  "dec_strings pl j = bindE (dec_strings_nil pl j) (\<lambda>s. Inr (of_nil s))"

fun dec_ints :: "json_place \<Rightarrow> json \<Rightarrow> json_error + int list" where
  "dec_ints pl (JsonArr js) = mapE (\<lambda>j. dec_int pl j 0) js"
| "dec_ints pl JsonNull = Inr []"
| "dec_ints pl j = mismatch pl (json_kind j) ''[]int''"

text \<open>\<open>map[string][]string\<close>.\<close>

type_synonym gomap = "(string \<times> string list option) list"

fun map_put :: "string \<Rightarrow> 'v \<Rightarrow> (string \<times> 'v) list \<Rightarrow> (string \<times> 'v) list" where
  "map_put k v [] = [(k, v)]"
| "map_put k v ((k', v') # m) =
     (if k = k' then (k, v) # m else if k < k' then (k, v) # (k', v') # m else (k', v') # map_put k v m)"

fun dec_map :: "json_place \<Rightarrow> json \<Rightarrow> gomap \<Rightarrow> json_error + gomap" where
  "dec_map pl (JsonObj kvs) old =
     foldE (\<lambda>(k, j) m. bindE (dec_strings_nil pl j) (\<lambda>s. Inr (map_put k s m))) kvs old"
| "dec_map pl JsonNull old = Inr []"
| "dec_map pl j old = mismatch pl (json_kind j) ''map[string][]string''"

text \<open>\<open>encoding/json\<close> matches a member to a field exactly, otherwise after folding case; U+017F
  folds to S and U+212A to K.\<close>

fun fold_name :: "string \<Rightarrow> string" where
  "fold_name (c1 # c2 # c3 # s) =
     (if c1 = CHR 0xE2 \<and> c2 = CHR 0x84 \<and> c3 = CHR 0xAA then CHR ''K'' # fold_name s
      else if c1 = CHR 0xC5 \<and> c2 = CHR 0xBF then CHR ''S'' # fold_name (c3 # s)
      else upper_char c1 # fold_name (c2 # c3 # s))"
| "fold_name [c1, c2] =
     (if c1 = CHR 0xC5 \<and> c2 = CHR 0xBF then ''S'' else [upper_char c1, upper_char c2])"
| "fold_name [c] = [upper_char c]"
| "fold_name [] = []"

definition match_field :: "string list \<Rightarrow> string \<Rightarrow> string option" where
  "match_field names k =
     (if k \<in> set names then Some k else find (\<lambda>n. fold_name n = fold_name k) names)"

section \<open>The document\<close>

record predicateDoc =
  pd_ID :: string
  pd_Type :: string
  pd_Agents :: "string list"
  pd_Max :: string
  pd_Currency :: string
  pd_Vendors :: "string list"
  pd_AllowedActions :: "string list"
  pd_AllowedTargets :: "string list"
  pd_StartMinute :: "int option"
  pd_EndMinute :: "int option"
  pd_Weekdays :: "int list"
  pd_Allowed :: gomap

definition zero_doc :: predicateDoc where
  "zero_doc = \<lparr>pd_ID = [], pd_Type = [], pd_Agents = [], pd_Max = [], pd_Currency = [], pd_Vendors = [],
     pd_AllowedActions = [], pd_AllowedTargets = [], pd_StartMinute = None, pd_EndMinute = None,
     pd_Weekdays = [], pd_Allowed = []\<rparr>"

record policy_file =
  fi_Version :: string
  fi_Predicates :: "predicateDoc list option"

definition doc_names :: "string list" where
  "doc_names = [''id'', ''type'', ''agents'', ''max'', ''currency'', ''vendors'', ''allowed_actions'',
     ''allowed_targets'', ''start_minute'', ''end_minute'', ''weekdays'', ''allowed'']"

definition set_doc_field ::
  "json_place \<Rightarrow> string \<Rightarrow> json \<Rightarrow> 'a predicateDoc_scheme \<Rightarrow> json_error + 'a predicateDoc_scheme" where
  "set_doc_field pl n j d =
     (if n = ''id'' then bindE (dec_string pl j (pd_ID d)) (\<lambda>x. Inr (d\<lparr>pd_ID := x\<rparr>))
      else if n = ''type'' then bindE (dec_string pl j (pd_Type d)) (\<lambda>x. Inr (d\<lparr>pd_Type := x\<rparr>))
      else if n = ''agents'' then bindE (dec_strings pl j) (\<lambda>x. Inr (d\<lparr>pd_Agents := x\<rparr>))
      else if n = ''max'' then bindE (dec_string pl j (pd_Max d)) (\<lambda>x. Inr (d\<lparr>pd_Max := x\<rparr>))
      else if n = ''currency'' then bindE (dec_string pl j (pd_Currency d)) (\<lambda>x. Inr (d\<lparr>pd_Currency := x\<rparr>))
      else if n = ''vendors'' then bindE (dec_strings pl j) (\<lambda>x. Inr (d\<lparr>pd_Vendors := x\<rparr>))
      else if n = ''allowed_actions'' then bindE (dec_strings pl j) (\<lambda>x. Inr (d\<lparr>pd_AllowedActions := x\<rparr>))
      else if n = ''allowed_targets'' then bindE (dec_strings pl j) (\<lambda>x. Inr (d\<lparr>pd_AllowedTargets := x\<rparr>))
      else if n = ''start_minute'' then bindE (dec_int_ptr pl j) (\<lambda>x. Inr (d\<lparr>pd_StartMinute := x\<rparr>))
      else if n = ''end_minute'' then bindE (dec_int_ptr pl j) (\<lambda>x. Inr (d\<lparr>pd_EndMinute := x\<rparr>))
      else if n = ''weekdays'' then bindE (dec_ints pl j) (\<lambda>x. Inr (d\<lparr>pd_Weekdays := x\<rparr>))
      else bindE (dec_map pl j (pd_Allowed d)) (\<lambda>x. Inr (d\<lparr>pd_Allowed := x\<rparr>)))"

definition dec_doc_member :: "string \<times> json \<Rightarrow> predicateDoc \<Rightarrow> json_error + predicateDoc" where
  "dec_doc_member kv d =
     (case match_field doc_names (fst kv) of
        None \<Rightarrow> Inl (UnknownField (fst kv))
      | Some n \<Rightarrow> set_doc_field (''predicateDoc'', ''predicates.'' @ n) n (snd kv) d)"

fun dec_doc :: "json \<Rightarrow> json_error + predicateDoc" where
  "dec_doc (JsonObj kvs) = foldE dec_doc_member kvs zero_doc"
| "dec_doc JsonNull = Inr zero_doc"
| "dec_doc j = mismatch (''file'', ''predicates'') (json_kind j) ''policy.predicateDoc''"

fun dec_docs :: "json \<Rightarrow> json_error + predicateDoc list option" where
  "dec_docs (JsonArr js) = bindE (mapE dec_doc js) (\<lambda>ds. Inr (Some ds))"
| "dec_docs JsonNull = Inr None"
| "dec_docs j = mismatch (''file'', ''predicates'') (json_kind j) ''[]policy.predicateDoc''"

definition dec_file_member :: "string \<times> json \<Rightarrow> policy_file \<Rightarrow> json_error + policy_file" where
  "dec_file_member kv f =
     (case match_field [''version'', ''predicates''] (fst kv) of
        None \<Rightarrow> Inl (UnknownField (fst kv))
      | Some n \<Rightarrow>
          if n = ''version''
          then bindE (dec_string (''file'', n) (snd kv) (fi_Version f)) (\<lambda>x. Inr (f\<lparr>fi_Version := x\<rparr>))
          else bindE (dec_docs (snd kv)) (\<lambda>x. Inr (f\<lparr>fi_Predicates := x\<rparr>)))"

fun dec_file :: "json \<Rightarrow> json_error + policy_file" where
  "dec_file (JsonObj kvs) = foldE dec_file_member kvs \<lparr>fi_Version = [], fi_Predicates = None\<rparr>"
| "dec_file JsonNull = Inr \<lparr>fi_Version = [], fi_Predicates = None\<rparr>"
| "dec_file j = mismatch ([], []) (json_kind j) ''policy.file''"

section \<open>Encoding the document\<close>

fun json_of_slice :: "string list option \<Rightarrow> json" where
  "json_of_slice None = JsonNull"
| "json_of_slice (Some ss) = JsonArr (map JsonString ss)"

abbreviation json_strings :: "string list \<Rightarrow> json" where
  "json_strings ss \<equiv> JsonArr (map JsonString ss)"

definition json_of_gomap :: "gomap \<Rightarrow> json" where
  "json_of_gomap m = JsonObj (map (\<lambda>(k, v). (k, json_of_slice v)) m)"

fun int_ptr_member :: "string \<Rightarrow> int option \<Rightarrow> (string \<times> json) list" where
  "int_ptr_member n None = []"
| "int_ptr_member n (Some i) = [(n, JsonNum i)]"

definition doc_members :: "'a predicateDoc_scheme \<Rightarrow> (string \<times> json) list" where
  "doc_members d =
     [(''id'', JsonString (pd_ID d)), (''type'', JsonString (pd_Type d))]
     @ omitempty (pd_Agents d = []) ''agents'' (json_strings (pd_Agents d))
     @ omitempty (pd_Max d = []) ''max'' (JsonString (pd_Max d))
     @ omitempty (pd_Currency d = []) ''currency'' (JsonString (pd_Currency d))
     @ omitempty (pd_Vendors d = []) ''vendors'' (json_strings (pd_Vendors d))
     @ omitempty (pd_AllowedActions d = []) ''allowed_actions'' (json_strings (pd_AllowedActions d))
     @ omitempty (pd_AllowedTargets d = []) ''allowed_targets'' (json_strings (pd_AllowedTargets d))
     @ int_ptr_member ''start_minute'' (pd_StartMinute d)
     @ int_ptr_member ''end_minute'' (pd_EndMinute d)
     @ omitempty (pd_Weekdays d = []) ''weekdays'' (JsonArr (map JsonNum (pd_Weekdays d)))
     @ omitempty (pd_Allowed d = []) ''allowed'' (json_of_gomap (pd_Allowed d))"

section \<open>Building the policy\<close>

datatype build_error =
    MaxRequired | VendorsEmpty | PermissionEmpty | MinutesRequired
  | StartMinuteRange int | EndMinuteRange int | WeekdayRange int | AllowedEmpty
  | NotLocal string | TypeRequired | UnknownType string

datatype policy_error =
    ErrDecodePolicy json_error
  | ErrPredicateID nat
  | ErrPredicateDuplicate nat string
  | ErrPredicateBuild string string build_error
  | ErrPolicyVersion

fun build_error_str :: "build_error \<Rightarrow> string" where
  "build_error_str MaxRequired = ''max is required''"
| "build_error_str VendorsEmpty = ''vendors must be non-empty''"
| "build_error_str PermissionEmpty = ''at least one of allowed_actions or allowed_targets is required''"
| "build_error_str MinutesRequired = ''start_minute and end_minute are required''"
| "build_error_str (StartMinuteRange m) = ''start_minute: must be in [0,1440), got '' @ FormatInt m"
| "build_error_str (EndMinuteRange m) = ''end_minute: must be in [0,1440), got '' @ FormatInt m"
| "build_error_str (WeekdayRange d) = ''weekday '' @ FormatInt d @ '' out of range (0=Sunday..6=Saturday)''"
| "build_error_str AllowedEmpty = ''allowed map must be non-empty''"
| "build_error_str (NotLocal t) =
     ''predicate type '' @ quote t @ '' is enriched/stateful and not supported by the local engine (Phase 3/enrichment)''"
| "build_error_str TypeRequired = ''type is required''"
| "build_error_str (UnknownType t) = ''unknown predicate type '' @ quote t"

fun policy_error_str :: "policy_error \<Rightarrow> string" where
  "policy_error_str (ErrDecodePolicy e) = ''decode policy: '' @ json_error_str e"
| "policy_error_str (ErrPredicateID i) = ''predicate['' @ nat_str i @ '']: id is required''"
| "policy_error_str (ErrPredicateDuplicate i d) = ''predicate['' @ nat_str i @ '']: duplicate id '' @ quote d"
| "policy_error_str (ErrPredicateBuild d t e) = ''predicate '' @ quote d @ '' ('' @ t @ ''): '' @ build_error_str e"
| "policy_error_str ErrPolicyVersion = ''policy: canonicalize for version''"

definition validMinute :: "int \<Rightarrow> bool" where
  "validMinute m \<longleftrightarrow> \<not> (m < 0 \<or> 1440 \<le> m)"

definition validWeekday :: "int \<Rightarrow> bool" where
  "validWeekday wd \<longleftrightarrow> \<not> (wd < 0 \<or> 6 < wd)"

definition build :: "'a predicateDoc_scheme \<Rightarrow> build_error + Predicate" where
  "build d =
     (let ty = pd_Type d in
      if ty = PredicateType_str TypePerTransactionLimit then
        (if pd_Max d = [] then Inl MaxRequired
         else Inr (NewPerTransactionLimit (pd_ID d) (pd_Agents d) (pd_Max d) (pd_Currency d)))
      else if ty = PredicateType_str TypeVendorAllowlist then
        (if pd_Vendors d = [] then Inl VendorsEmpty
         else Inr (NewVendorAllowlist (pd_ID d) (pd_Agents d) (pd_Vendors d)))
      else if ty = PredicateType_str TypeVendorBlocklist then
        Inr (NewVendorBlocklist (pd_ID d) (pd_Agents d) (pd_Vendors d))
      else if ty = PredicateType_str TypeAgentPermission then
        (if pd_AllowedActions d = [] \<and> pd_AllowedTargets d = [] then Inl PermissionEmpty
         else Inr (NewAgentPermission (pd_ID d) (pd_Agents d) (pd_AllowedActions d) (pd_AllowedTargets d)))
      else if ty = PredicateType_str TypeTimeWindow then
        (case (pd_StartMinute d, pd_EndMinute d) of
           (Some s, Some e) \<Rightarrow>
             if \<not> validMinute s then Inl (StartMinuteRange s)
             else if \<not> validMinute e then Inl (EndMinuteRange e)
             else (case find (\<lambda>wd. \<not> validWeekday wd) (pd_Weekdays d) of
                     Some wd \<Rightarrow> Inl (WeekdayRange wd)
                   | None \<Rightarrow> Inr (NewTimeWindow (pd_ID d) (pd_Agents d) s e (pd_Weekdays d)))
         | _ \<Rightarrow> Inl MinutesRequired)
      else if ty = PredicateType_str TypeJurisdictionCurrency then
        (if pd_Allowed d = [] then Inl AllowedEmpty
         else Inr (NewJurisdictionCurrency (pd_ID d) (pd_Agents d)
                     (map (\<lambda>(k, v). (k, of_nil v)) (pd_Allowed d))))
      else if ty = PredicateType_str TypeRollingBudget \<or> ty = PredicateType_str TypeSanctionsScreen
              \<or> ty = PredicateType_str TypeVendorRisk then Inl (NotLocal ty)
      else if ty = [] then Inl TypeRequired
      else Inl (UnknownType ty))"

text \<open>The loop over the predicates: the index, the ids seen so far, the predicates built.\<close>

fun build_loop :: "nat \<Rightarrow> string list \<Rightarrow> predicateDoc list \<Rightarrow> policy_error + Predicate list" where
  "build_loop i seen [] = Inr []"
| "build_loop i seen (d # ds) =
     (if pd_ID d = [] then Inl (ErrPredicateID i)
      else if pd_ID d \<in> set seen then Inl (ErrPredicateDuplicate i (pd_ID d))
      else case build d of
             Inl e \<Rightarrow> Inl (ErrPredicateBuild (pd_ID d) (pd_Type d) e)
           | Inr p \<Rightarrow> bindE (build_loop (Suc i) (pd_ID d # seen) ds) (\<lambda>ps. Inr (p # ps)))"

definition file_versionPrefix :: string where "file_versionPrefix = ''pol_''"

definition contentVersion :: "crypto \<Rightarrow> predicateDoc list option \<Rightarrow> policy_error + string" where
  "contentVersion c docs =
     (case jcs_Transform c (case docs of None \<Rightarrow> JsonNull | Some ds \<Rightarrow> JsonArr (map (\<lambda>d. JsonObj (doc_members d)) ds)) of
        None \<Rightarrow> Inl ErrPolicyVersion
      | Some canon \<Rightarrow> Inr (file_versionPrefix @ hex_encode (sha256_Sum c canon)))"

definition Parse :: "crypto \<Rightarrow> json_error + json \<Rightarrow> policy_error + Policy" where
  "Parse c raw =
     (case bindE raw dec_file of
        Inl e \<Rightarrow> Inl (ErrDecodePolicy e)
      | Inr f \<Rightarrow>
          bindE (build_loop 0 [] (of_nil (fi_Predicates f))) (\<lambda>preds.
          bindE (if fi_Version f = [] then contentVersion c (fi_Predicates f) else Inr (fi_Version f)) (\<lambda>version.
            Inr \<lparr>pol_Version = version, pol_Predicates = preds, pol_Budgets = []\<rparr>)))"

text \<open>\<open>Load\<close> adds the read: \<open>Inl\<close> when the file cannot be read.\<close>

datatype load_error = ErrReadPolicy string | ErrParsePolicy string policy_error

definition Load :: "crypto \<Rightarrow> (string \<Rightarrow> string + (json_error + json)) \<Rightarrow> string \<Rightarrow> load_error + Policy" where
  "Load c readFile path =
     (case readFile path of
        Inl e \<Rightarrow> Inl (ErrReadPolicy e)
      | Inr raw \<Rightarrow>
          (case Parse c raw of
             Inl e \<Rightarrow> Inl (ErrParsePolicy path e)
           | Inr p \<Rightarrow> Inr p))"

text \<open>The embedded \<open>default.policy.json\<close>.\<close>

definition default_policy_json :: json where
  "default_policy_json = JsonObj [(''predicates'', JsonArr
     [JsonObj [(''id'', JsonString ''default-per-transaction-limit''), (''type'', JsonString ''per_transaction_limit''),
        (''max'', JsonString ''10000.00''), (''currency'', JsonString ''USD'')],
      JsonObj [(''id'', JsonString ''default-agent-permission''), (''type'', JsonString ''agent_permission''),
        (''allowed_actions'', json_strings [''payment.create'', ''payment.capture'', ''payment.refund''])],
      JsonObj [(''id'', JsonString ''default-vendor-blocklist''), (''type'', JsonString ''vendor_blocklist''),
        (''vendors'', JsonArr [])],
      JsonObj [(''id'', JsonString ''default-business-hours''), (''type'', JsonString ''time_window''),
        (''start_minute'', JsonNum 0), (''end_minute'', JsonNum 0)]])]"

definition Default :: "crypto \<Rightarrow> policy_error + Policy" where
  "Default c = Parse c (Inr default_policy_json)"

section \<open>Encoding and decoding a document\<close>

text \<open>What the Go types guarantee of a document: its integers are 64 bit, its map is one.\<close>

definition doc_typed :: "'a predicateDoc_scheme \<Rightarrow> bool" where
  "doc_typed d \<longleftrightarrow>
     pred_option in_int64 (pd_StartMinute d) \<and> pred_option in_int64 (pd_EndMinute d) \<and>
     list_all in_int64 (pd_Weekdays d) \<and> sorted_wrt (<) (map fst (pd_Allowed d))"

lemma dec_string_strings: "mapE (\<lambda>j. dec_string pl j []) (map JsonString ss) = Inr ss"
  by (induction ss) simp_all

lemma dec_strings_json [simp]: "dec_strings pl (json_strings ss) = Inr ss"
  by (simp add: dec_strings_def dec_string_strings of_nil_def)

lemma dec_strings_nil_json [simp]: "dec_strings_nil pl (json_of_slice s) = Inr s"
  by (cases s) (simp_all add: dec_string_strings)

lemma dec_ints_json: "list_all in_int64 is \<Longrightarrow> dec_ints pl (JsonArr (map JsonNum is)) = Inr is"
  by (induction "is") auto

lemma map_put_last: "(\<And>k'. k' \<in> set (map fst m) \<Longrightarrow> k' < k) \<Longrightarrow> map_put k v m = m @ [(k, v)]"
proof (induction m)
  case (Cons p m)
  obtain k' v' where p: "p = (k', v')" by (cases p)
  with Cons.prems have "k' < k" by auto
  with p have "map_put k v (p # m) = p # map_put k v m" by (auto dest: less_asym)
  with Cons show ?case by simp
qed simp

lemma dec_map_json:
  assumes "sorted_wrt (<) (map fst (m0 @ m))"
  shows "dec_map pl (json_of_gomap m) m0 = Inr (m0 @ m)"
proof -
  have "foldE (\<lambda>(k, j) m. bindE (dec_strings_nil pl j) (\<lambda>s. Inr (map_put k s m)))
      (map (\<lambda>(k, v). (k, json_of_slice v)) m) m0 = Inr (m0 @ m)"
    using assms
  proof (induction m arbitrary: m0)
    case (Cons p m)
    obtain k v where p: "p = (k, v)" by (cases p)
    have "map_put k v m0 = m0 @ [(k, v)]"
      using Cons.prems p by (intro map_put_last) (auto simp: sorted_wrt_append)
    with Cons.IH [of "m0 @ [p]"] Cons.prems p show ?case by simp
  qed simp
  then show ?thesis by (simp add: json_of_gomap_def)
qed

lemma match_field_exact [simp]: "k \<in> set names \<Longrightarrow> match_field names k = Some k"
  by (simp add: match_field_def)

text \<open>Reading one member of a list that \<open>omitempty\<close> may have left out.\<close>

lemma member_step:
  assumes "z \<Longrightarrow> d' = d" and "\<not> z \<Longrightarrow> f (k, v) d = Inr d'"
  shows "foldE f (omitempty z k v @ r) d = foldE f r d'"
  using assms by (cases z) (simp_all add: omitempty_def)

lemma ptr_step:
  assumes "x = None \<Longrightarrow> d' = d" and "\<And>i. x = Some i \<Longrightarrow> f (k, JsonNum i) d = Inr d'"
  shows "foldE f (int_ptr_member k x @ r) d = foldE f r d'"
  using assms by (cases x) simp_all

text \<open>A member list that a fold reads as a document, whatever function reads the single members.\<close>

definition put_doc :: "'a predicateDoc_scheme \<Rightarrow> 'b predicateDoc_scheme \<Rightarrow> 'b predicateDoc_scheme" where
  "put_doc d x = x\<lparr>pd_ID := pd_ID d, pd_Type := pd_Type d, pd_Agents := pd_Agents d,
    pd_Max := pd_Max d, pd_Currency := pd_Currency d, pd_Vendors := pd_Vendors d,
    pd_AllowedActions := pd_AllowedActions d, pd_AllowedTargets := pd_AllowedTargets d,
    pd_StartMinute := pd_StartMinute d, pd_EndMinute := pd_EndMinute d, pd_Weekdays := pd_Weekdays d,
    pd_Allowed := pd_Allowed d\<rparr>"

definition doc_blank :: "'a predicateDoc_scheme \<Rightarrow> bool" where
  "doc_blank d \<longleftrightarrow> pd_Agents d = [] \<and> pd_Max d = [] \<and> pd_Currency d = [] \<and> pd_Vendors d = [] \<and>
      pd_AllowedActions d = [] \<and> pd_AllowedTargets d = [] \<and> pd_StartMinute d = None \<and> pd_EndMinute d = None \<and>
      pd_Weekdays d = [] \<and> pd_Allowed d = []"

text \<open>
  A function that reads one member of an object into a document, field by field. The loader has
  one and so has the control plane, whose rules extend the document; the steps below hold for
  both.
\<close>

locale doc_reader =
  fixes read :: "string \<times> json \<Rightarrow> 'b predicateDoc_scheme \<Rightarrow> json_error + 'b predicateDoc_scheme"
    and place :: "string \<Rightarrow> json_place"
  assumes read_field: "n \<in> set doc_names \<Longrightarrow> read (n, j) x = set_doc_field (place n) n j x"
begin

lemmas field = read_field [unfolded doc_names_def set_doc_field_def]

lemma read_id: "foldE read ((''id'', JsonString v) # r) x = foldE read r (x\<lparr>pd_ID := v\<rparr>)"
  by (simp add: field)

lemma read_type: "foldE read ((''type'', JsonString v) # r) x = foldE read r (x\<lparr>pd_Type := v\<rparr>)"
  by (simp add: field)

lemma read_agents: "pd_Agents x = [] \<Longrightarrow>
    foldE read (omitempty (v = []) ''agents'' (json_strings v) @ r) x = foldE read r (x\<lparr>pd_Agents := v\<rparr>)"
  by (intro member_step) (cases x, simp, simp add: field)

lemma read_max: "pd_Max x = [] \<Longrightarrow>
    foldE read (omitempty (v = []) ''max'' (JsonString v) @ r) x = foldE read r (x\<lparr>pd_Max := v\<rparr>)"
  by (intro member_step) (cases x, simp, simp add: field)

lemma read_currency: "pd_Currency x = [] \<Longrightarrow>
    foldE read (omitempty (v = []) ''currency'' (JsonString v) @ r) x = foldE read r (x\<lparr>pd_Currency := v\<rparr>)"
  by (intro member_step) (cases x, simp, simp add: field)

lemma read_vendors: "pd_Vendors x = [] \<Longrightarrow>
    foldE read (omitempty (v = []) ''vendors'' (json_strings v) @ r) x = foldE read r (x\<lparr>pd_Vendors := v\<rparr>)"
  by (intro member_step) (cases x, simp, simp add: field)

lemma read_actions: "pd_AllowedActions x = [] \<Longrightarrow>
    foldE read (omitempty (v = []) ''allowed_actions'' (json_strings v) @ r) x = foldE read r (x\<lparr>pd_AllowedActions := v\<rparr>)"
  by (intro member_step) (cases x, simp, simp add: field)

lemma read_targets: "pd_AllowedTargets x = [] \<Longrightarrow>
    foldE read (omitempty (v = []) ''allowed_targets'' (json_strings v) @ r) x = foldE read r (x\<lparr>pd_AllowedTargets := v\<rparr>)"
  by (intro member_step) (cases x, simp, simp add: field)

lemma read_start: "pd_StartMinute x = None \<Longrightarrow> pred_option in_int64 v \<Longrightarrow>
    foldE read (int_ptr_member ''start_minute'' v @ r) x = foldE read r (x\<lparr>pd_StartMinute := v\<rparr>)"
  by (intro ptr_step) (cases x, simp, simp add: field)

lemma read_end: "pd_EndMinute x = None \<Longrightarrow> pred_option in_int64 v \<Longrightarrow>
    foldE read (int_ptr_member ''end_minute'' v @ r) x = foldE read r (x\<lparr>pd_EndMinute := v\<rparr>)"
  by (intro ptr_step) (cases x, simp, simp add: field)

lemma read_weekdays: "pd_Weekdays x = [] \<Longrightarrow> list_all in_int64 v \<Longrightarrow>
    foldE read (omitempty (v = []) ''weekdays'' (JsonArr (map JsonNum v)) @ r) x = foldE read r (x\<lparr>pd_Weekdays := v\<rparr>)"
  by (intro member_step) (cases x, simp, simp add: field dec_ints_json del: dec_ints.simps)

lemma read_allowed: "pd_Allowed x = [] \<Longrightarrow> sorted_wrt (<) (map fst v) \<Longrightarrow>
    foldE read (omitempty (v = []) ''allowed'' (json_of_gomap v) @ r) x = foldE read r (x\<lparr>pd_Allowed := v\<rparr>)"
  by (intro member_step) (cases x, simp, simp add: field dec_map_json [where ?m0.0 = "[]", simplified])

lemmas read_steps = read_id read_type read_agents read_max read_currency read_vendors read_actions read_targets
  read_start read_end read_weekdays read_allowed

lemma read_doc:
  "doc_typed d \<Longrightarrow> doc_blank x \<Longrightarrow> foldE read (doc_members d @ r) x = foldE read r (put_doc d x)"
  by (simp add: doc_members_def read_steps put_doc_def doc_typed_def doc_blank_def del: foldE.simps)

end

definition doc_of :: "'a predicateDoc_scheme \<Rightarrow> predicateDoc" where
  "doc_of d = put_doc d zero_doc"

lemma doc_of_id [simp]: "doc_of (d :: predicateDoc) = d"
  by (cases d) (simp add: doc_of_def put_doc_def zero_doc_def)

lemma doc_of_sel [simp]:
  "pd_ID (doc_of d) = pd_ID d" "pd_Type (doc_of d) = pd_Type d" "pd_Agents (doc_of d) = pd_Agents d"
  "pd_Max (doc_of d) = pd_Max d" "pd_Currency (doc_of d) = pd_Currency d" "pd_Vendors (doc_of d) = pd_Vendors d"
  "pd_AllowedActions (doc_of d) = pd_AllowedActions d" "pd_AllowedTargets (doc_of d) = pd_AllowedTargets d"
  "pd_StartMinute (doc_of d) = pd_StartMinute d" "pd_EndMinute (doc_of d) = pd_EndMinute d"
  "pd_Weekdays (doc_of d) = pd_Weekdays d" "pd_Allowed (doc_of d) = pd_Allowed d"
  by (simp_all add: doc_of_def put_doc_def)

lemma build_doc_of [simp]: "build (doc_of d) = build d"
  by (simp only: build_def doc_of_sel)

interpretation file_docs: doc_reader dec_doc_member "\<lambda>n. (''predicateDoc'', ''predicates.'' @ n)"
  by unfold_locales (simp add: dec_doc_member_def)

lemma dec_doc_members:
  assumes "doc_typed d"
  shows "dec_doc (JsonObj (doc_members d @ r)) = foldE dec_doc_member r (doc_of d)"
  using assms by (simp add: doc_of_def file_docs.read_doc doc_blank_def zero_doc_def)

text \<open>The documents both in-process callers of the loader build: a version and documents with no
  member the loader does not know.\<close>

lemma dec_file_documents:
  assumes "list_all doc_typed ds"
  shows "dec_file (JsonObj [(''predicates'', JsonArr (map (\<lambda>d. JsonObj (doc_members d)) ds)), (''version'', JsonString v)]) =
    Inr \<lparr>fi_Version = v, fi_Predicates = Some (map doc_of ds)\<rparr>"
proof -
  have "mapE dec_doc (map (\<lambda>d. JsonObj (doc_members d)) ds) = Inr (map doc_of ds)"
    using assms by (induction ds) (simp_all add: dec_doc_members [where r = "[]", simplified])
  then show ?thesis by (simp add: dec_file_member_def)
qed

section \<open>What the loader accepts\<close>

lemma build_loop_Inr:
  "build_loop i seen ds = Inr ps \<longleftrightarrow>
     list_all (\<lambda>d. pd_ID d \<noteq> []) ds \<and> distinct (map pd_ID ds) \<and> set (map pd_ID ds) \<inter> set seen = {} \<and>
     list_all2 (\<lambda>d p. build d = Inr p) ds ps"
proof (induction ds arbitrary: i seen ps)
  case (Cons d ds)
  then show ?case
    by (cases ps) (auto simp: bindE_eq_Inr split: sum.splits)
qed auto

fun predicate_wf :: "Predicate \<Rightarrow> bool" where
  "predicate_wf (PerTransactionLimit b m cur) \<longleftrightarrow> m \<noteq> []"
| "predicate_wf (VendorAllowlist b vs) \<longleftrightarrow> vs \<noteq> []"
| "predicate_wf (VendorBlocklist b vs) \<longleftrightarrow> True"
| "predicate_wf (AgentPermission b as ts) \<longleftrightarrow> as \<noteq> [] \<or> ts \<noteq> []"
| "predicate_wf (TimeWindow b s e wds) \<longleftrightarrow>
     0 \<le> s \<and> s < 1440 \<and> 0 \<le> e \<and> e < 1440 \<and> list_all (\<lambda>wd. 0 \<le> wd \<and> wd \<le> 6) wds"
| "predicate_wf (JurisdictionCurrency b m) \<longleftrightarrow> m \<noteq> [] \<and> distinct (map fst m)"

definition policy_wf :: "Policy \<Rightarrow> bool" where
  "policy_wf pol \<longleftrightarrow> pol_Version pol \<noteq> [] \<and> distinct (map RuleID (pol_Predicates pol)) \<and>
     list_all (\<lambda>p. RuleID p \<noteq> [] \<and> predicate_wf p) (pol_Predicates pol)"

lemma build_id: "build d = Inr p \<Longrightarrow> RuleID p = pd_ID d"
  by (auto simp: build_def Let_def RuleID_def New_defs split: if_splits option.splits prod.splits)

lemma build_wf:
  assumes "build d = Inr p" and "distinct (map fst (pd_Allowed d))"
  shows "predicate_wf p"
proof -
  have *: "map (fst \<circ> (\<lambda>(k, v). (k, of_nil v))) m = map fst m" for m :: gomap
    by (induction m) auto
  from assms show ?thesis
    by (auto simp: build_def Let_def New_defs validMinute_def validWeekday_def find_None_iff list_all_iff * not_less
        split: if_splits option.splits)
qed

lemma set_map_put: "fst ` set (map_put k v m) = insert k (fst ` set m)"
  by (induction k v m rule: map_put.induct) (auto split: if_splits)

lemma sorted_map_put: "sorted_wrt (<) (map fst m) \<Longrightarrow> sorted_wrt (<) (map fst (map_put k v m))"
proof (induction k v m rule: map_put.induct)
  case (2 k v k' v' m)
  show ?case
  proof (cases "k = k' \<or> k < k'")
    case True
    with 2(2) show ?thesis by (auto intro: less_trans)
  next
    case False
    with 2 have "sorted_wrt (<) (map fst (map_put k v m))" by auto
    moreover have "k' < x" if "x \<in> fst ` set (map_put k v m)" for x
      using that False 2(2) by (auto simp: set_map_put)
    ultimately show ?thesis using False by auto
  qed
qed simp

lemma foldE_inv:
  assumes "foldE f xs s = Inr s'" and "P s" and "\<And>x s s'. x \<in> set xs \<Longrightarrow> f x s = Inr s' \<Longrightarrow> P s \<Longrightarrow> P s'"
  shows "P s'"
  using assms
proof (induction xs arbitrary: s)
  case (Cons x xs)
  then obtain y where "f x s = Inr y" and "foldE f xs y = Inr s'" by (auto simp: bindE_eq_Inr)
  with Cons show ?case by (metis list.set_intros)
qed simp

lemma dec_map_sorted:
  assumes "dec_map pl j m = Inr m'" and "sorted_wrt (<) (map fst m)"
  shows "sorted_wrt (<) (map fst m')"
proof (cases j)
  case (JsonObj kvs)
  with assms(1) have "foldE (\<lambda>(k, j) m. bindE (dec_strings_nil pl j) (\<lambda>s. Inr (map_put k s m))) kvs m = Inr m'" by simp
  then show ?thesis
    by (rule foldE_inv [where P = "\<lambda>m. sorted_wrt (<) (map fst m)"])
      (use assms(2) in \<open>auto simp: bindE_eq_Inr sorted_map_put\<close>)
qed (use assms in \<open>auto simp: mismatch_def\<close>)

lemma dec_int_typed: "dec_int pl j old = Inr i \<Longrightarrow> in_int64 old \<Longrightarrow> in_int64 i"
  by (cases j) (auto simp: mismatch_def split: if_splits)

lemma dec_int_ptr_typed: "dec_int_ptr pl j = Inr x \<Longrightarrow> pred_option in_int64 x"
  by (cases j) (auto simp: bindE_eq_Inr mismatch_def in_int64_def split: if_splits)

lemma mapE_all: "mapE f xs = Inr ys \<Longrightarrow> (\<And>x y. x \<in> set xs \<Longrightarrow> f x = Inr y \<Longrightarrow> P y) \<Longrightarrow> list_all P ys"
proof (induction xs arbitrary: ys)
  case (Cons x xs)
  from Cons.prems(1) obtain y ys' where y: "f x = Inr y" "mapE f xs = Inr ys'" "ys = y # ys'"
    by (auto simp: bindE_eq_Inr)
  have "P y" using y(1) by (intro Cons.prems(2)) auto
  moreover have "list_all P ys'" using Cons.prems(2) by (intro Cons.IH y(2)) auto
  ultimately show ?case using y(3) by simp
qed simp

lemma dec_ints_typed: "dec_ints pl j = Inr is \<Longrightarrow> list_all in_int64 is"
  by (cases j) (auto simp: mismatch_def intro!: mapE_all dest: dec_int_typed simp: in_int64_def)

lemma set_doc_field_typed:
  "set_doc_field pl n j d = Inr d' \<Longrightarrow> doc_typed d \<Longrightarrow> doc_typed d'"
  by (auto simp: set_doc_field_def doc_typed_def bindE_eq_Inr dec_int_ptr_typed dec_ints_typed dec_map_sorted split: if_splits)

lemma doc_typed_zero: "doc_typed zero_doc"
  by (simp add: doc_typed_def zero_doc_def)

lemma dec_doc_typed:
  assumes "dec_doc j = Inr d"
  shows "doc_typed d"
proof (cases j)
  case (JsonObj kvs)
  with assms have "foldE dec_doc_member kvs zero_doc = Inr d" by simp
  then show ?thesis
    by (rule foldE_inv [where P = doc_typed])
      (auto simp: dec_doc_member_def doc_typed_zero intro: set_doc_field_typed split: option.splits)
qed (use assms doc_typed_zero in \<open>auto simp: mismatch_def\<close>)

lemma dec_file_typed:
  assumes "dec_file j = Inr f"
  shows "list_all doc_typed (of_nil (fi_Predicates f))"
proof (cases j)
  case (JsonObj kvs)
  have docs: "list_all doc_typed (of_nil x)" if "dec_docs k = Inr x" for k x
    using that by (cases k) (auto simp: bindE_eq_Inr mismatch_def of_nil_def intro!: mapE_all dec_doc_typed)
  from assms JsonObj have "foldE dec_file_member kvs \<lparr>fi_Version = [], fi_Predicates = None\<rparr> = Inr f" by simp
  then show ?thesis
    by (rule foldE_inv [where P = "\<lambda>f. list_all doc_typed (of_nil (fi_Predicates f))"])
      (auto simp: dec_file_member_def bindE_eq_Inr docs of_nil_def [of None] split: option.splits if_splits)
qed (use assms in \<open>auto simp: mismatch_def of_nil_def\<close>)

lemma Parse_Inr:
  "Parse c raw = Inr pol \<longleftrightarrow>
     (\<exists>f. bindE raw dec_file = Inr f \<and> build_loop 0 [] (of_nil (fi_Predicates f)) = Inr (pol_Predicates pol) \<and>
        (if fi_Version f = [] then contentVersion c (fi_Predicates f) else Inr (fi_Version f)) = Inr (pol_Version pol) \<and>
        pol_Budgets pol = [])"
  by (cases pol) (auto simp: Parse_def bindE_eq_Inr split: sum.splits)

lemma built_policy_wf:
  assumes "build_loop 0 [] ds = Inr ps" and "list_all doc_typed ds" and "v \<noteq> []"
  shows "policy_wf \<lparr>pol_Version = v, pol_Predicates = ps, pol_Budgets = bs\<rparr>"
proof -
  from assms(1) have ds: "list_all (\<lambda>d. pd_ID d \<noteq> []) ds" "distinct (map pd_ID ds)"
    "list_all2 (\<lambda>d p. build d = Inr p) ds ps" by (simp_all add: build_loop_Inr)
  have "map RuleID ps = map pd_ID ds"
    using ds(3) by (induction rule: list_all2_induct) (simp_all add: build_id)
  moreover have "list_all (\<lambda>p. RuleID p \<noteq> [] \<and> predicate_wf p) ps"
    using ds(3,1) assms(2)
    by (induction rule: list_all2_induct)
      (auto simp: build_id doc_typed_def strict_sorted_iff intro: build_wf)
  ultimately show ?thesis using ds(2) assms(3) by (simp add: policy_wf_def)
qed

lemma Parse_wf:
  assumes "Parse c raw = Inr pol"
  shows "policy_wf pol"
proof -
  from assms obtain f where f: "bindE raw dec_file = Inr f"
    "build_loop 0 [] (of_nil (fi_Predicates f)) = Inr (pol_Predicates pol)"
    "(if fi_Version f = [] then contentVersion c (fi_Predicates f) else Inr (fi_Version f)) = Inr (pol_Version pol)"
    "pol_Budgets pol = []"
    by (auto simp: Parse_Inr)
  from f(1) have "list_all doc_typed (of_nil (fi_Predicates f))"
    by (auto simp: bindE_eq_Inr intro: dec_file_typed)
  moreover have "pol_Version pol \<noteq> []"
    using f(3) by (auto simp: contentVersion_def file_versionPrefix_def split: if_splits option.splits)
  ultimately have "policy_wf \<lparr>pol_Version = pol_Version pol, pol_Predicates = pol_Predicates pol, pol_Budgets = pol_Budgets pol\<rparr>"
    using f(2) by (intro built_policy_wf)
  then show ?thesis by (simp add: policy_wf_def)
qed

text \<open>The loader. A document it accepts decodes without an unknown or mistyped member, and
  every predicate of the policy is the one its document declares, in order; the ids are present
  and distinct, every predicate has what its type needs (a limit, vendors, minutes of the day,
  weekdays, currencies), and the version is the declared one or the content hash of the documents.\<close>

theorem policy_file_sound:
  assumes "Parse c raw = Inr pol"
  shows "policy_wf pol \<and> pol_Budgets pol = [] \<and>
    (\<exists>f. bindE raw dec_file = Inr f \<and>
       list_all2 (\<lambda>d p. build d = Inr p) (of_nil (fi_Predicates f)) (pol_Predicates pol) \<and>
       Inr (pol_Version pol) = (if fi_Version f = [] then contentVersion c (fi_Predicates f) else Inr (fi_Version f)))"
  using assms Parse_wf [OF assms] by (auto simp: Parse_Inr build_loop_Inr)

lemma Default_loads:
  "\<exists>v. Default demo_crypto = Inr \<lparr>pol_Version = v, pol_Predicates =
      [NewPerTransactionLimit ''default-per-transaction-limit'' [] ''10000.00'' ''USD'',
       NewAgentPermission ''default-agent-permission'' [] [''payment.create'', ''payment.capture'', ''payment.refund''] [],
       NewVendorBlocklist ''default-vendor-blocklist'' [] [],
       NewTimeWindow ''default-business-hours'' [] 0 0 []], pol_Budgets = []\<rparr>"
  by (simp add: Default_def Parse_def default_policy_json_def dec_file_member_def dec_doc_member_def doc_names_def
      set_doc_field_def zero_doc_def of_nil_def dec_strings_def build_def contentVersion_def demo_crypto_def
      validMinute_def in_int64_def)

theorem policy_file_sound_witness:
  "\<exists>pol. Parse demo_crypto (Inr default_policy_json) = Inr pol \<and> policy_wf pol \<and> length (pol_Predicates pol) = 4"
proof -
  obtain v where "Parse demo_crypto (Inr default_policy_json) = Inr \<lparr>pol_Version = v, pol_Predicates =
      [NewPerTransactionLimit ''default-per-transaction-limit'' [] ''10000.00'' ''USD'',
       NewAgentPermission ''default-agent-permission'' [] [''payment.create'', ''payment.capture'', ''payment.refund''] [],
       NewVendorBlocklist ''default-vendor-blocklist'' [] [],
       NewTimeWindow ''default-business-hours'' [] 0 0 []], pol_Budgets = []\<rparr>"
    using Default_loads by (auto simp: Default_def)
  from policy_file_sound [OF this] this show ?thesis by auto
qed

end
