(* ===== verification/Policy_Validate.thy ===== *)
theory Policy_Validate
  imports Policy_File
begin

text \<open>
  \<open>internal/policyctl/validate.go\<close>: the rule of the control plane and the validation a policy
  passes before it is published. The JSON schema validator is a library and so a parameter; the
  schema it is given, \<open>policy.schema.json\<close>, is the predicate \<open>policy_schema_valid\<close>, and the
  assumption \<open>validates_schema\<close> says that the library decides it. Shown: validation accepts
  exactly the documents of the schema with distinct rule ids, the check against the loader being implied.
\<close>

section \<open>Rules\<close>

record Rule = predicateDoc +
  r_Window :: string
  r_Limit :: string
  r_Provider :: string
  r_Threshold :: "int option"
  r_FailMode :: string

definition rule_members :: "Rule \<Rightarrow> (string \<times> json) list" where
  "rule_members r =
     omitempty (r_Window r = []) ''window'' (JsonString (r_Window r))
     @ omitempty (r_Limit r = []) ''limit'' (JsonString (r_Limit r))
     @ omitempty (r_Provider r = []) ''provider'' (JsonString (r_Provider r))
     @ int_ptr_member ''threshold'' (r_Threshold r)
     @ omitempty (r_FailMode r = []) ''fail_mode'' (JsonString (r_FailMode r))"

definition json_of_Rule :: "Rule \<Rightarrow> json" where
  "json_of_Rule r = JsonObj (doc_members r @ rule_members r)"

section \<open>Numbers of an untyped document\<close>

text \<open>
  Unmarshalled into an empty interface a number becomes a \<open>float64\<close>, and is written back with
  the fewest digits that read as the same \<open>float64\<close>. \<open>nat_float\<close> rounds to 53 bits, ties to
  even; \<open>shortest\<close> tries fewer and fewer trailing zeros.
\<close>

fun bit_len :: "nat \<Rightarrow> nat" where
  "bit_len n = (if n = 0 then 0 else Suc (bit_len (n div 2)))"

declare bit_len.simps [simp del]

definition round_div :: "nat \<Rightarrow> nat \<Rightarrow> nat" where
  "round_div a m = (let q = a div m; r = a mod m in if m < 2 * r \<or> (2 * r = m \<and> odd q) then q + 1 else q)"

definition nat_float :: "nat \<Rightarrow> nat" where
  "nat_float n = (let e = bit_len n - 53 in round_div n (2 ^ e) * 2 ^ e)"

fun shortest :: "nat \<Rightarrow> nat \<Rightarrow> nat" where
  "shortest f 0 = f"
| "shortest f (Suc k) =
     (let c = round_div f (10 ^ Suc k) * 10 ^ Suc k in if nat_float c = f then c else shortest f k)"

definition wire_nat :: "nat \<Rightarrow> nat" where
  "wire_nat n = shortest (nat_float n) 19"

definition wire_num :: "int \<Rightarrow> int" where
  "wire_num i = (if i < 0 then - int (wire_nat (nat (- i))) else int (wire_nat (nat i)))"

text \<open>\<open>rulesToWire\<close>: the members of the plain object, in the order of their names.\<close>

definition wire_of_Rule :: "Rule \<Rightarrow> json" where
  "wire_of_Rule r = JsonObj
     (omitempty (pd_Agents r = []) ''agents'' (json_strings (pd_Agents r))
     @ omitempty (pd_Allowed r = []) ''allowed'' (json_of_gomap (pd_Allowed r))
     @ omitempty (pd_AllowedActions r = []) ''allowed_actions'' (json_strings (pd_AllowedActions r))
     @ omitempty (pd_AllowedTargets r = []) ''allowed_targets'' (json_strings (pd_AllowedTargets r))
     @ omitempty (pd_Currency r = []) ''currency'' (JsonString (pd_Currency r))
     @ int_ptr_member ''end_minute'' (map_option wire_num (pd_EndMinute r))
     @ omitempty (r_FailMode r = []) ''fail_mode'' (JsonString (r_FailMode r))
     @ [(''id'', JsonString (pd_ID r))]
     @ omitempty (r_Limit r = []) ''limit'' (JsonString (r_Limit r))
     @ omitempty (pd_Max r = []) ''max'' (JsonString (pd_Max r))
     @ omitempty (r_Provider r = []) ''provider'' (JsonString (r_Provider r))
     @ int_ptr_member ''start_minute'' (map_option wire_num (pd_StartMinute r))
     @ int_ptr_member ''threshold'' (map_option wire_num (r_Threshold r))
     @ [(''type'', JsonString (pd_Type r))]
     @ omitempty (pd_Vendors r = []) ''vendors'' (json_strings (pd_Vendors r))
     @ omitempty (pd_Weekdays r = []) ''weekdays'' (JsonArr (map (\<lambda>i. JsonNum (wire_num i)) (pd_Weekdays r)))
     @ omitempty (r_Window r = []) ''window'' (JsonString (r_Window r)))"

definition rulesToWire :: "Rule list \<Rightarrow> json list" where
  "rulesToWire rules = map wire_of_Rule rules"

section \<open>The schema\<close>

text \<open>Characters of a UTF-8 string: the bytes that do not continue one.\<close>

definition rune_count :: "string \<Rightarrow> nat" where
  "rune_count s = length (filter (\<lambda>ch. (of_char ch :: nat) div 64 \<noteq> 2) s)"

fun sc_string :: "nat \<Rightarrow> nat option \<Rightarrow> json \<Rightarrow> bool" where
  "sc_string mn mx (JsonString s) \<longleftrightarrow> mn \<le> rune_count s \<and> (case mx of None \<Rightarrow> True | Some m \<Rightarrow> rune_count s \<le> m)"
| "sc_string mn mx _ \<longleftrightarrow> False"

fun sc_pattern :: "(string \<Rightarrow> bool) \<Rightarrow> json \<Rightarrow> bool" where
  "sc_pattern p (JsonString s) \<longleftrightarrow> p s"
| "sc_pattern p _ \<longleftrightarrow> False"

fun sc_array :: "nat \<Rightarrow> (json \<Rightarrow> bool) \<Rightarrow> json \<Rightarrow> bool" where
  "sc_array mn item (JsonArr js) \<longleftrightarrow> mn \<le> length js \<and> list_all item js"
| "sc_array mn item _ \<longleftrightarrow> False"

fun sc_integer :: "int \<Rightarrow> int \<Rightarrow> json \<Rightarrow> bool" where
  "sc_integer lo hi (JsonNum i) \<longleftrightarrow> lo \<le> i \<and> i \<le> hi"
| "sc_integer lo hi _ \<longleftrightarrow> False"

fun sc_map :: "(string \<Rightarrow> bool) \<Rightarrow> (json \<Rightarrow> bool) \<Rightarrow> json \<Rightarrow> bool" where
  "sc_map name val (JsonObj kvs) \<longleftrightarrow> 1 \<le> length kvs \<and> list_all (\<lambda>(k, v). name k \<and> val v) kvs"
| "sc_map name val _ \<longleftrightarrow> False"

text \<open>\<open>^(0|[1-9][0-9]*)(\.[0-9]+)?$\<close>, \<open>^[A-Z]{3}$\<close> and \<open>^[A-Z]{2}$\<close>.\<close>

definition pat_money :: "string \<Rightarrow> bool" where
  "pat_money s \<longleftrightarrow>
     (case cut CHR ''.'' s of (whole, part, found) \<Rightarrow>
        (whole = ''0'' \<or> (whole \<noteq> [] \<and> list_all is_digit whole \<and> hd whole \<noteq> CHR ''0'')) \<and>
        (found \<longrightarrow> part \<noteq> [] \<and> list_all is_digit part))"

definition is_upper :: "char \<Rightarrow> bool" where
  "is_upper ch \<longleftrightarrow> 65 \<le> (of_char ch :: nat) \<and> (of_char ch :: nat) \<le> 90"

definition pat_upper :: "nat \<Rightarrow> string \<Rightarrow> bool" where
  "pat_upper n s \<longleftrightarrow> length s = n \<and> list_all is_upper s"

abbreviation sc_id :: "json \<Rightarrow> bool" where "sc_id \<equiv> sc_string 1 (Some 128)"
abbreviation sc_agents :: "json \<Rightarrow> bool" where "sc_agents \<equiv> sc_array 0 sc_id"
abbreviation sc_money :: "json \<Rightarrow> bool" where "sc_money \<equiv> sc_pattern pat_money"
abbreviation sc_currency :: "json \<Rightarrow> bool" where "sc_currency \<equiv> sc_pattern (pat_upper 3)"
abbreviation sc_fail_mode :: "json \<Rightarrow> bool" where
  "sc_fail_mode \<equiv> sc_pattern (\<lambda>s. s \<in> set [''fail_closed'', ''fail_open''])"

text \<open>A branch of the rule's \<open>oneOf\<close>: the type, the properties beside id, type and agents, the
  required ones among them, and the groups of which one is required.\<close>

record rule_branch =
  sb_type :: PredicateType
  sb_props :: "(string \<times> (json \<Rightarrow> bool)) list"
  sb_required :: "string list"
  sb_any :: "string list"

fun schema_branch :: "PredicateType \<Rightarrow> rule_branch" where
  "schema_branch TypePerTransactionLimit =
     \<lparr>sb_type = TypePerTransactionLimit, sb_props = [(''max'', sc_money), (''currency'', sc_currency)],
      sb_required = [''max''], sb_any = []\<rparr>"
| "schema_branch TypeVendorAllowlist =
     \<lparr>sb_type = TypeVendorAllowlist, sb_props = [(''vendors'', sc_array 1 (sc_string 1 None))],
      sb_required = [''vendors''], sb_any = []\<rparr>"
| "schema_branch TypeVendorBlocklist =
     \<lparr>sb_type = TypeVendorBlocklist, sb_props = [(''vendors'', sc_array 0 (sc_string 1 None))],
      sb_required = [''vendors''], sb_any = []\<rparr>"
| "schema_branch TypeAgentPermission =
     \<lparr>sb_type = TypeAgentPermission,
      sb_props = [(''allowed_actions'', sc_array 0 (sc_string 1 None)), (''allowed_targets'', sc_array 0 (sc_string 1 None))],
      sb_required = [], sb_any = [''allowed_actions'', ''allowed_targets'']\<rparr>"
| "schema_branch TypeTimeWindow =
     \<lparr>sb_type = TypeTimeWindow,
      sb_props = [(''start_minute'', sc_integer 0 1439), (''end_minute'', sc_integer 0 1439),
        (''weekdays'', sc_array 0 (sc_integer 0 6))],
      sb_required = [''start_minute'', ''end_minute''], sb_any = []\<rparr>"
| "schema_branch TypeJurisdictionCurrency =
     \<lparr>sb_type = TypeJurisdictionCurrency, sb_props = [(''allowed'', sc_map (pat_upper 2) (sc_array 1 sc_currency))],
      sb_required = [''allowed''], sb_any = []\<rparr>"
| "schema_branch TypeRollingBudget =
     \<lparr>sb_type = TypeRollingBudget,
      sb_props = [(''window'', sc_pattern (\<lambda>s. s \<in> set [''day'', ''month'', ''rolling''])), (''limit'', sc_money),
        (''currency'', sc_currency)],
      sb_required = [''window'', ''limit''], sb_any = []\<rparr>"
| "schema_branch TypeSanctionsScreen =
     \<lparr>sb_type = TypeSanctionsScreen,
      sb_props = [(''provider'', sc_string 1 None), (''fail_mode'', sc_fail_mode)],
      sb_required = [], sb_any = []\<rparr>"
| "schema_branch TypeVendorRisk =
     \<lparr>sb_type = TypeVendorRisk,
      sb_props = [(''provider'', sc_string 1 None), (''threshold'', sc_integer 0 100), (''fail_mode'', sc_fail_mode)],
      sb_required = [], sb_any = []\<rparr>"

definition all_types :: "PredicateType list" where
  "all_types = [TypePerTransactionLimit, TypeVendorAllowlist, TypeVendorBlocklist, TypeAgentPermission,
     TypeTimeWindow, TypeJurisdictionCurrency, TypeRollingBudget, TypeSanctionsScreen, TypeVendorRisk]"

definition prop_valid :: "(string \<times> (json \<Rightarrow> bool)) list \<Rightarrow> string \<times> json \<Rightarrow> bool" where
  "prop_valid props kv = (case map_of props (fst kv) of None \<Rightarrow> False | Some chk \<Rightarrow> chk (snd kv))"

definition branch_props :: "rule_branch \<Rightarrow> (string \<times> (json \<Rightarrow> bool)) list" where
  "branch_props b =
     [(''id'', sc_id), (''type'', sc_pattern (\<lambda>s. s = PredicateType_str (sb_type b))), (''agents'', sc_agents)] @ sb_props b"

definition branch_valid :: "rule_branch \<Rightarrow> (string \<times> json) list \<Rightarrow> bool" where
  "branch_valid b kvs \<longleftrightarrow>
     list_all (\<lambda>n. n \<in> fst ` set kvs) ([''id'', ''type''] @ sb_required b) \<and>
     (sb_any b = [] \<or> list_ex (\<lambda>n. n \<in> fst ` set kvs) (sb_any b)) \<and>
     list_all (prop_valid (branch_props b)) kvs"

fun rule_schema_valid :: "json \<Rightarrow> bool" where
  "rule_schema_valid (JsonObj kvs) \<longleftrightarrow>
     length (filter (\<lambda>t. branch_valid (schema_branch t) kvs) all_types) = 1"
| "rule_schema_valid _ \<longleftrightarrow> False"

fun policy_schema_valid :: "json \<Rightarrow> bool" where
  "policy_schema_valid (JsonObj kvs) \<longleftrightarrow>
     list_all (\<lambda>n. n \<in> fst ` set kvs) [''org_id'', ''name'', ''rules''] \<and>
     list_all (prop_valid [(''org_id'', sc_string 1 (Some 128)), (''name'', sc_string 1 (Some 256)), (''agents'', sc_agents),
                           (''rules'', sc_array 1 rule_schema_valid)]) kvs"
| "policy_schema_valid _ \<longleftrightarrow> False"

section \<open>Validation\<close>

record Problem =
  pb_Pointer :: string
  pb_Detail :: string

text \<open>The validator's error: a tree of causes, or an error of another kind.\<close>

datatype schema_error = SchemaError (ve_location: string) (ve_message: string) (ve_causes: "schema_error list")

datatype validator_error = SchemaVE schema_error | ValidatorErr string

type_synonym schema_validator = "json \<Rightarrow> validator_error option"

fun leaves :: "schema_error \<Rightarrow> Problem list" where
  "leaves (SchemaError loc msg cs) =
     (if cs = [] then [\<lparr>pb_Pointer = loc, pb_Detail = msg\<rparr>] else concat (map leaves cs))"

definition flattenSchemaError :: "schema_error \<Rightarrow> Problem list" where
  "flattenSchemaError ve =
     (let out = leaves ve
      in if out = [] then [\<lparr>pb_Pointer = ve_location ve, pb_Detail = ve_message ve\<rparr>] else out)"

definition policy_doc :: "string \<Rightarrow> string \<Rightarrow> string list option \<Rightarrow> Rule list \<Rightarrow> json" where
  "policy_doc orgID name agents rules = JsonObj
     ((case agents of None \<Rightarrow> [] | Some as \<Rightarrow> [(''agents'', json_strings as)])
      @ [(''name'', JsonString name), (''org_id'', JsonString orgID), (''rules'', JsonArr (rulesToWire rules))])"

definition localRuleTypes :: "string list" where
  "localRuleTypes = map PredicateType_str [TypePerTransactionLimit, TypeVendorAllowlist, TypeVendorBlocklist,
     TypeAgentPermission, TypeTimeWindow, TypeJurisdictionCurrency]"

text \<open>The loop that finds repeated ids: the index, and the first index of each id seen.\<close>

fun duplicate_problems :: "nat \<Rightarrow> (string \<times> nat) list \<Rightarrow> Rule list \<Rightarrow> Problem list" where
  "duplicate_problems i seen [] = []"
| "duplicate_problems i seen (r # rs) =
     (if pd_ID r = [] then duplicate_problems (Suc i) seen rs
      else case map_of seen (pd_ID r) of
             Some first \<Rightarrow>
               \<lparr>pb_Pointer = ''/rules/'' @ nat_str i @ ''/id'',
                pb_Detail = ''duplicate rule id '' @ quote (pd_ID r) @ '' (first used at /rules/'' @ nat_str first @ '')''\<rparr>
               # duplicate_problems (Suc i) seen rs
           | None \<Rightarrow> duplicate_problems (Suc i) ((pd_ID r, i) # seen) rs)"

definition checkEngineParity :: "crypto \<Rightarrow> Rule list \<Rightarrow> Problem option" where
  "checkEngineParity c rules =
     (let loc = filter (\<lambda>r. pd_Type r \<in> set localRuleTypes) rules
      in if loc = [] then None
         else case Parse c (Inr (JsonObj [(''predicates'', JsonArr (rulesToWire loc))])) of
                Inl e \<Rightarrow> Some \<lparr>pb_Pointer = ''/rules'',
                              pb_Detail = ''decision engine would reject the local rules: '' @ policy_error_str e\<rparr>
              | Inr _ \<Rightarrow> None)"

definition sortProblems :: "Problem list \<Rightarrow> Problem list" where
  "sortProblems ps = sort_key (\<lambda>p. (pb_Pointer p, pb_Detail p)) ps"

text \<open>\<open>None\<close>: publishable. \<open>Some\<close>: the problems of the \<open>ValidationError\<close>.\<close>

definition Validate :: "schema_validator \<Rightarrow> crypto \<Rightarrow> string \<Rightarrow> string \<Rightarrow> string list option \<Rightarrow> Rule list
    \<Rightarrow> Problem list option" where
  "Validate compiledSchema c orgID name agents rules =
     (let structural = (case compiledSchema (policy_doc orgID name agents rules) of
                          None \<Rightarrow> []
                        | Some (SchemaVE ve) \<Rightarrow> flattenSchemaError ve
                        | Some (ValidatorErr msg) \<Rightarrow> [\<lparr>pb_Pointer = [], pb_Detail = msg\<rparr>]);
          duplicates = duplicate_problems 0 [] rules;
          parity = (case checkEngineParity c rules of None \<Rightarrow> [] | Some p \<Rightarrow> [p]);
          problems = structural @ duplicates @ parity
      in if problems \<noteq> [] then Some (sortProblems problems) else None)"

section \<open>Numbers survive the untyped document\<close>

lemma bit_len_bounds: "n < 2 ^ bit_len n \<and> (0 < n \<longrightarrow> 2 ^ (bit_len n - 1) \<le> n)"
proof (induction n rule: bit_len.induct)
  case (1 n)
  show ?case
  proof (cases "n = 0")
    case False
    let ?b = "bit_len (n div 2)"
    have b: "bit_len n = Suc ?b" using False by (subst bit_len.simps) simp
    have ih: "n div 2 < 2 ^ ?b" "0 < n div 2 \<longrightarrow> 2 ^ (?b - 1) \<le> n div 2" using 1 False by auto
    have up: "n < 2 * 2 ^ ?b" using ih(1) by linarith
    have "2 ^ ?b \<le> n"
    proof (cases "n div 2 = 0")
      case True
      then have "?b = 0" by (simp add: bit_len.simps)
      with False show ?thesis by simp
    next
      case nz: False
      then have "?b \<noteq> 0" by (subst bit_len.simps) simp
      then have "2 ^ ?b = (2 :: nat) * 2 ^ (?b - 1)" by (cases ?b) simp_all
      with ih(2) nz show ?thesis by linarith
    qed
    with up b show ?thesis by simp
  qed (simp add: bit_len.simps)
qed

lemma bit_len_le: "bit_len n \<le> 53 \<longleftrightarrow> n < 2 ^ 53"
proof
  assume "bit_len n \<le> 53"
  then have "(2 :: nat) ^ bit_len n \<le> 2 ^ 53" by (intro power_increasing) simp_all
  with bit_len_bounds [of n] show "n < 2 ^ 53" by linarith
next
  assume n: "n < 2 ^ 53"
  show "bit_len n \<le> 53"
  proof (rule ccontr)
    assume "\<not> bit_len n \<le> 53"
    then have "(2 :: nat) ^ 53 \<le> 2 ^ (bit_len n - 1)" by (intro power_increasing) simp_all
    moreover have "0 < n" using \<open>\<not> bit_len n \<le> 53\<close> by (cases n) (simp_all add: bit_len.simps)
    ultimately show False using bit_len_bounds [of n] n by linarith
  qed
qed

lemma nat_float_small: "n < 2 ^ 53 \<Longrightarrow> nat_float n = n"
  using bit_len_le [of n] by (simp add: nat_float_def round_div_def)

lemma nat_float_large:
  assumes "2 ^ 53 \<le> n"
  shows "2 ^ 53 \<le> nat_float n"
proof -
  let ?e = "bit_len n - 53"
  have len: "54 \<le> bit_len n" using bit_len_le [of n] assms by linarith
  have "2 ^ (bit_len n - 1) \<le> n" using bit_len_bounds [of n] assms by auto
  moreover have "(2 :: nat) ^ (bit_len n - 1) = 2 ^ 52 * 2 ^ ?e"
  proof -
    have "bit_len n - 1 = 52 + ?e" using len by simp
    then show ?thesis by (simp only: power_add)
  qed
  ultimately have "2 ^ 52 \<le> n div 2 ^ ?e" by (simp add: less_eq_div_iff_mult_less_eq)
  then have "2 ^ 52 \<le> round_div n (2 ^ ?e)" by (simp add: round_div_def Let_def)
  then have "2 ^ 52 * 2 ^ 1 \<le> round_div n (2 ^ ?e) * 2 ^ ?e"
    using len by (intro mult_le_mono power_increasing) simp_all
  then show ?thesis by (simp add: nat_float_def Let_def)
qed

lemma shortest_reads: "shortest f k = f \<or> nat_float (shortest f k) = f"
  by (induction k) (auto simp: Let_def)

lemma wire_nat_small: "wire_nat n < 2 ^ 53 \<or> n < 2 ^ 53 \<Longrightarrow> wire_nat n = n"
  using shortest_reads [of "nat_float n" 19] nat_float_small [of n] nat_float_large [of n]
    nat_float_small [of "wire_nat n"] nat_float_large [of "wire_nat n"]
  unfolding wire_nat_def by linarith

lemma wire_num_small: "\<bar>wire_num i\<bar> < 2 ^ 53 \<or> \<bar>i\<bar> < 2 ^ 53 \<Longrightarrow> wire_num i = i"
  using wire_nat_small [of "nat i"] wire_nat_small [of "nat (- i)"] by (cases "i < 0") (auto simp: wire_num_def nat_less_iff)

lemma wire_num_range: "0 \<le> wire_num i \<Longrightarrow> wire_num i \<le> 1439 \<Longrightarrow> wire_num i = i"
  by (rule wire_num_small) simp

section \<open>What the schema says of a rule\<close>

lemma list_all_omitempty [simp]: "list_all P (omitempty z k v) \<longleftrightarrow> z \<or> P (k, v)"
  by (simp add: omitempty_def)

lemma list_all_ptr [simp]: "list_all P (int_ptr_member k x) \<longleftrightarrow> (case x of None \<Rightarrow> True | Some i \<Rightarrow> P (k, JsonNum i))"
  by (cases x) simp_all

lemma fst_set_omitempty [simp]: "fst ` set (omitempty z k v) = (if z then {} else {k})"
  by (simp add: omitempty_def)

lemma fst_set_ptr [simp]: "fst ` set (int_ptr_member k x) = (case x of None \<Rightarrow> {} | Some _ \<Rightarrow> {k})"
  by (cases x) simp_all

lemma sc_id_nonempty [dest]: "sc_string 1 m (JsonString s) \<Longrightarrow> s \<noteq> []"
  by (auto simp: rune_count_def)

definition plain_rule :: "Rule \<Rightarrow> bool" where
  "plain_rule r \<longleftrightarrow> r_Window r = [] \<and> r_Limit r = [] \<and> r_Provider r = [] \<and> r_Threshold r = None \<and> r_FailMode r = []"

lemma branch_of_rule:
  assumes "rule_schema_valid (wire_of_Rule r)"
  obtains t kvs where "wire_of_Rule r = JsonObj kvs" "branch_valid (schema_branch t) kvs"
proof -
  obtain kvs where w: "wire_of_Rule r = JsonObj kvs" by (simp add: wire_of_Rule_def)
  with assms have "filter (\<lambda>t. branch_valid (schema_branch t) kvs) all_types \<noteq> []" by auto
  then obtain t where "branch_valid (schema_branch t) kvs" by (auto simp: filter_empty_conv)
  with w that show thesis by blast
qed

text \<open>A member that is present is one of the branch and satisfies its schema; a required one is present.\<close>

lemma branch_members:
  assumes "wire_of_Rule r = JsonObj kvs" and "branch_valid b kvs"
  defines "ok \<equiv> prop_valid (branch_props b)"
  shows "ok (''id'', JsonString (pd_ID r))" "ok (''type'', JsonString (pd_Type r))"
    "r_Window r = [] \<or> ok (''window'', JsonString (r_Window r))"
    "r_Limit r = [] \<or> ok (''limit'', JsonString (r_Limit r))"
    "r_Provider r = [] \<or> ok (''provider'', JsonString (r_Provider r))"
    "r_FailMode r = [] \<or> ok (''fail_mode'', JsonString (r_FailMode r))"
    "case r_Threshold r of None \<Rightarrow> True | Some i \<Rightarrow> ok (''threshold'', JsonNum (wire_num i))"
    "case pd_StartMinute r of None \<Rightarrow> True | Some i \<Rightarrow> ok (''start_minute'', JsonNum (wire_num i))"
    "case pd_EndMinute r of None \<Rightarrow> True | Some i \<Rightarrow> ok (''end_minute'', JsonNum (wire_num i))"
    "pd_Weekdays r = [] \<or> ok (''weekdays'', JsonArr (map (\<lambda>i. JsonNum (wire_num i)) (pd_Weekdays r)))"
proof -
  have kvs: "JsonObj kvs = wire_of_Rule r" using assms(1) by simp
  have "list_all ok kvs" using assms(2) by (simp add: branch_valid_def ok_def)
  note all = this [unfolded kvs [unfolded wire_of_Rule_def json.inject], simplified]
  show "ok (''id'', JsonString (pd_ID r))" "ok (''type'', JsonString (pd_Type r))"
    "r_Window r = [] \<or> ok (''window'', JsonString (r_Window r))"
    "r_Limit r = [] \<or> ok (''limit'', JsonString (r_Limit r))"
    "r_Provider r = [] \<or> ok (''provider'', JsonString (r_Provider r))"
    "r_FailMode r = [] \<or> ok (''fail_mode'', JsonString (r_FailMode r))"
    "case r_Threshold r of None \<Rightarrow> True | Some i \<Rightarrow> ok (''threshold'', JsonNum (wire_num i))"
    "case pd_StartMinute r of None \<Rightarrow> True | Some i \<Rightarrow> ok (''start_minute'', JsonNum (wire_num i))"
    "case pd_EndMinute r of None \<Rightarrow> True | Some i \<Rightarrow> ok (''end_minute'', JsonNum (wire_num i))"
    "pd_Weekdays r = [] \<or> ok (''weekdays'', JsonArr (map (\<lambda>i. JsonNum (wire_num i)) (pd_Weekdays r)))"
    using all by (simp_all add: case_map_option comp_def split: option.splits)
qed

lemma wire_names:
  assumes "wire_of_Rule r = JsonObj kvs"
  shows "''max'' \<in> fst ` set kvs \<longleftrightarrow> pd_Max r \<noteq> []" "''vendors'' \<in> fst ` set kvs \<longleftrightarrow> pd_Vendors r \<noteq> []"
    "''allowed_actions'' \<in> fst ` set kvs \<longleftrightarrow> pd_AllowedActions r \<noteq> []"
    "''allowed_targets'' \<in> fst ` set kvs \<longleftrightarrow> pd_AllowedTargets r \<noteq> []"
    "''start_minute'' \<in> fst ` set kvs \<longleftrightarrow> pd_StartMinute r \<noteq> None"
    "''end_minute'' \<in> fst ` set kvs \<longleftrightarrow> pd_EndMinute r \<noteq> None"
    "''allowed'' \<in> fst ` set kvs \<longleftrightarrow> pd_Allowed r \<noteq> []"
proof -
  have kvs: "JsonObj kvs = wire_of_Rule r" using assms by simp
  note eq = kvs [unfolded wire_of_Rule_def json.inject]
  show "''max'' \<in> fst ` set kvs \<longleftrightarrow> pd_Max r \<noteq> []" "''vendors'' \<in> fst ` set kvs \<longleftrightarrow> pd_Vendors r \<noteq> []"
    "''allowed_actions'' \<in> fst ` set kvs \<longleftrightarrow> pd_AllowedActions r \<noteq> []"
    "''allowed_targets'' \<in> fst ` set kvs \<longleftrightarrow> pd_AllowedTargets r \<noteq> []"
    "''start_minute'' \<in> fst ` set kvs \<longleftrightarrow> pd_StartMinute r \<noteq> None"
    "''end_minute'' \<in> fst ` set kvs \<longleftrightarrow> pd_EndMinute r \<noteq> None"
    "''allowed'' \<in> fst ` set kvs \<longleftrightarrow> pd_Allowed r \<noteq> []"
    unfolding eq by (simp_all add: image_Un split: option.splits)
qed

lemma branch_type:
  assumes "wire_of_Rule r = JsonObj kvs" and "branch_valid (schema_branch t) kvs"
  shows "pd_Type r = PredicateType_str t" and "pd_ID r \<noteq> []"
proof -
  have "sb_type (schema_branch t) = t" by (cases t) simp_all
  then show "pd_Type r = PredicateType_str t" "pd_ID r \<noteq> []"
    using branch_members(1,2) [OF assms] by (auto simp: prop_valid_def branch_props_def rune_count_def)
qed

text \<open>A valid local rule carries no member the loader does not know, its numbers are read back
  unchanged, and the loader builds its predicate.\<close>

definition loadable :: "Rule \<Rightarrow> bool" where
  "loadable r \<longleftrightarrow> plain_rule r \<and> map_option wire_num (pd_StartMinute r) = pd_StartMinute r \<and>
     map_option wire_num (pd_EndMinute r) = pd_EndMinute r \<and> map wire_num (pd_Weekdays r) = pd_Weekdays r \<and>
     (\<exists>p. build r = Inr p)"

lemma branch_loadable:
  assumes "wire_of_Rule r = JsonObj kvs" and "branch_valid (schema_branch t) kvs"
    and "PredicateType_str t \<in> set localRuleTypes"
  shows "loadable r"
proof -
  note mem = branch_members [OF assms(1,2)] and nam = wire_names [OF assms(1)] and ty = branch_type(1) [OF assms(1,2)]
  have req: "list_all (\<lambda>n. n \<in> fst ` set kvs) (sb_required (schema_branch t))"
    "sb_any (schema_branch t) = [] \<or> list_ex (\<lambda>n. n \<in> fst ` set kvs) (sb_any (schema_branch t))"
    using assms(2) by (simp_all add: branch_valid_def)
  show ?thesis
  proof (cases "t = TypeTimeWindow")
    case True
    obtain s e where se: "pd_StartMinute r = Some s" "pd_EndMinute r = Some e"
      using req True by (auto simp: nam)
    have s: "0 \<le> wire_num s \<and> wire_num s \<le> 1439" and e: "0 \<le> wire_num e \<and> wire_num e \<le> 1439"
      using mem(8,9) True se by (simp_all add: prop_valid_def branch_props_def)
    have wd: "\<forall>i\<in>set (pd_Weekdays r). 0 \<le> wire_num i \<and> wire_num i \<le> 6"
      using mem(10) True by (auto simp: prop_valid_def branch_props_def list_all_iff)
    have wd': "wire_num i = i" if "i \<in> set (pd_Weekdays r)" for i
    proof -
      from wd that have "0 \<le> wire_num i" "wire_num i \<le> 6" by auto
      then show ?thesis by (intro wire_num_range) simp_all
    qed
    have "find (\<lambda>wd. \<not> validWeekday wd) (pd_Weekdays r) = None"
      using wd wd' by (auto simp: find_None_iff validWeekday_def)
    moreover have "plain_rule r"
      using mem True by (auto simp: prop_valid_def branch_props_def plain_rule_def split: option.splits)
    ultimately show ?thesis
      using se s e wd' wire_num_range [of s] wire_num_range [of e] ty True
      by (auto simp: loadable_def build_def validMinute_def map_idI)
  next
    case False
    with mem assms(3) have "plain_rule r" "pd_StartMinute r = None" "pd_EndMinute r = None" "pd_Weekdays r = []"
      by (cases t; auto simp: prop_valid_def branch_props_def plain_rule_def localRuleTypes_def split: option.splits)+
    moreover have "\<exists>p. build r = Inr p"
      using False assms(3) ty req by (cases t) (auto simp: build_def nam localRuleTypes_def)
    ultimately show ?thesis by (simp add: loadable_def)
  qed
qed

lemma valid_rule:
  assumes "rule_schema_valid (wire_of_Rule r)"
  shows "pd_ID r \<noteq> []" and "\<exists>t. pd_Type r = PredicateType_str t"
    and "pd_Type r \<in> set localRuleTypes \<Longrightarrow> loadable r"
proof -
  obtain t kvs where b: "wire_of_Rule r = JsonObj kvs" "branch_valid (schema_branch t) kvs"
    using assms by (rule branch_of_rule)
  show "pd_ID r \<noteq> []" "\<exists>t. pd_Type r = PredicateType_str t" using branch_type [OF b] by blast+
  show "loadable r" if "pd_Type r \<in> set localRuleTypes"
    using branch_loadable [OF b] branch_type(1) [OF b] that by simp
qed

section \<open>The loader accepts the wire form\<close>

lemma wire_weekdays: "map wire_num is = is \<Longrightarrow> map (\<lambda>i. JsonNum (wire_num i)) is = map JsonNum is"
  by (induction "is") simp_all

lemma dec_doc_wire:
  assumes "loadable r" and "doc_typed r"
  shows "dec_doc (wire_of_Rule r) = Inr (doc_of r)"
proof -
  have plain: "r_Window r = []" "r_Limit r = []" "r_Provider r = []" "r_Threshold r = None" "r_FailMode r = []"
    and num: "map_option wire_num (pd_StartMinute r) = pd_StartMinute r" "map_option wire_num (pd_EndMinute r) = pd_EndMinute r"
      "map (\<lambda>i. JsonNum (wire_num i)) (pd_Weekdays r) = map JsonNum (pd_Weekdays r)"
    using assms(1) by (simp_all add: loadable_def plain_rule_def wire_weekdays)
  have z: "omitempty True k v = []" for k v by (simp add: omitempty_def)
  note last = file_docs.read_weekdays [where r = "[]", simplified append_Nil2]
  have "pred_option in_int64 (pd_StartMinute r)" "pred_option in_int64 (pd_EndMinute r)"
    "list_all in_int64 (pd_Weekdays r)" "sorted_wrt (<) (map fst (pd_Allowed r))"
    using assms(2) by (simp_all add: doc_typed_def)
  then show ?thesis
    unfolding wire_of_Rule_def num
    by (simp add: plain z file_docs.read_steps last doc_of_def put_doc_def zero_doc_def del: foldE.simps(2))
qed

lemma duplicate_problems_Nil:
  "list_all (\<lambda>r. pd_ID r \<noteq> []) rs \<Longrightarrow>
   duplicate_problems i seen rs = [] \<longleftrightarrow> distinct (map pd_ID rs) \<and> set (map pd_ID rs) \<inter> fst ` set seen = {}"
proof (induction rs arbitrary: i seen)
  case (Cons r rs)
  show ?case
  proof (cases "map_of seen (pd_ID r)")
    case None
    then have "pd_ID r \<notin> fst ` set seen" by (simp add: map_of_eq_None_iff)
    with None Cons show ?thesis by auto
  next
    case (Some first)
    then have "pd_ID r \<in> fst ` set seen" by (force dest: map_of_SomeD)
    with Some Cons.prems show ?thesis by auto
  qed
qed simp

definition validates_schema :: "schema_validator \<Rightarrow> bool" where
  "validates_schema v \<longleftrightarrow>
     (\<forall>orgID name agents rules.
        v (policy_doc orgID name agents rules) = None \<longleftrightarrow> policy_schema_valid (policy_doc orgID name agents rules))"

definition jcs_total :: "crypto \<Rightarrow> bool" where
  "jcs_total c \<longleftrightarrow> (\<forall>j. jcs_Transform c j \<noteq> None)"

lemma flattenSchemaError_nonempty: "flattenSchemaError ve \<noteq> []"
  by (simp add: flattenSchemaError_def Let_def)

lemma Validate_None:
  "Validate v c orgID name agents rules = None \<longleftrightarrow>
     v (policy_doc orgID name agents rules) = None \<and> duplicate_problems 0 [] rules = [] \<and> checkEngineParity c rules = None"
  by (auto simp: Validate_def Let_def flattenSchemaError_nonempty split: option.splits validator_error.splits)

lemma valid_policy_rules:
  assumes "policy_schema_valid (policy_doc orgID name agents rules)" and "r \<in> set rules"
  shows "rule_schema_valid (wire_of_Rule r)"
  using assms by (auto simp: policy_doc_def prop_valid_def rulesToWire_def list_all_iff split: option.splits)

lemma mapE_dec_wire:
  "(\<And>r. r \<in> set rs \<Longrightarrow> loadable r \<and> doc_typed r) \<Longrightarrow> mapE dec_doc (rulesToWire rs) = Inr (map doc_of rs)"
  unfolding rulesToWire_def by (induction rs) (simp_all add: dec_doc_wire)

lemma build_loop_docs:
  assumes "\<And>r. r \<in> set rs \<Longrightarrow> pd_ID r \<noteq> [] \<and> (\<exists>p. build r = Inr p)" and "distinct (map pd_ID rs)"
  shows "\<exists>ps. build_loop 0 [] (map doc_of rs) = Inr ps \<and> list_all2 (\<lambda>r p. build r = Inr p) rs ps"
proof -
  have "\<exists>ps. list_all2 (\<lambda>r p. build r = Inr p) rs ps"
    using assms(1)
  proof (induction rs)
    case (Cons r rs)
    then obtain p ps where "build r = Inr p" "list_all2 (\<lambda>r p. build r = Inr p) rs ps" by (meson list.set_intros)
    then show ?case by (intro exI [of _ "p # ps"]) simp
  qed auto
  with assms show ?thesis
    by (auto simp: build_loop_Inr list_all_iff comp_def list.rel_map)
qed

lemma schema_implies_parity:
  assumes "jcs_total c" and "list_all doc_typed rules" and "distinct (map pd_ID rules)"
    and valid: "\<And>r. r \<in> set rules \<Longrightarrow> rule_schema_valid (wire_of_Rule r)"
  shows "checkEngineParity c rules = None"
proof -
  let ?loc = "filter (\<lambda>r. pd_Type r \<in> set localRuleTypes) rules"
  have loc: "loadable r \<and> doc_typed r \<and> pd_ID r \<noteq> []" if "r \<in> set ?loc" for r
    using that valid_rule [OF valid [of r]] assms(2) by (auto simp: list_all_iff)
  have "\<exists>ps. build_loop 0 [] (map doc_of ?loc) = Inr ps"
    using build_loop_docs [of ?loc] loc assms(3) by (auto simp: loadable_def distinct_map_filter)
  then obtain ps where ps: "build_loop 0 [] (map doc_of ?loc) = Inr ps" ..
  have dec: "mapE dec_doc (rulesToWire ?loc) = Inr (map doc_of ?loc)"
    by (rule mapE_dec_wire) (use loc in blast)
  obtain canon where "jcs_Transform c (JsonArr (map (\<lambda>d. JsonObj (doc_members d)) (map doc_of ?loc))) = Some canon"
    using assms(1) by (auto simp: jcs_total_def)
  then have "\<exists>pol. Parse c (Inr (JsonObj [(''predicates'', JsonArr (rulesToWire ?loc))])) = Inr pol"
    using ps dec by (simp add: Parse_def dec_file_member_def of_nil_def contentVersion_def)
  then show ?thesis by (auto simp: checkEngineParity_def Let_def)
qed

lemma Validate_exact:
  assumes "validates_schema v" and "jcs_total c" and "list_all doc_typed rules"
  shows "Validate v c orgID name agents rules = None \<longleftrightarrow>
    policy_schema_valid (policy_doc orgID name agents rules) \<and> distinct (map pd_ID rules)"
proof (cases "policy_schema_valid (policy_doc orgID name agents rules)")
  case True
  note valid = valid_policy_rules [OF True]
  have "list_all (\<lambda>r. pd_ID r \<noteq> []) rules" using valid_rule(1) [OF valid] by (simp add: list_all_iff)
  then have "duplicate_problems 0 [] rules = [] \<longleftrightarrow> distinct (map pd_ID rules)"
    by (simp add: duplicate_problems_Nil)
  with schema_implies_parity [OF assms(2,3) _ valid] True assms(1) show ?thesis
    by (auto simp: Validate_None validates_schema_def)
next
  case False
  with assms(1) show ?thesis by (simp add: Validate_None validates_schema_def)
qed

text \<open>C40: publishable policies. Validation accepts a policy exactly when its document satisfies the
  schema and its rule ids are distinct; the third check, that the decision engine would load the
  local rules, never rejects such a policy.\<close>

theorem publishable_exact:
  assumes "validates_schema v" and "jcs_total c" and "list_all doc_typed rules"
  shows "Validate v c orgID name agents rules = None \<longleftrightarrow>
    policy_schema_valid (policy_doc orgID name agents rules) \<and> distinct (map pd_ID rules)"
  using assms by (rule Validate_exact)

definition blank_rule :: Rule where
  "blank_rule = \<lparr>pd_ID = [], pd_Type = [], pd_Agents = [], pd_Max = [], pd_Currency = [], pd_Vendors = [],
     pd_AllowedActions = [], pd_AllowedTargets = [], pd_StartMinute = None, pd_EndMinute = None,
     pd_Weekdays = [], pd_Allowed = [], r_Window = [], r_Limit = [], r_Provider = [], r_Threshold = None, r_FailMode = []\<rparr>"

definition demo_validator :: schema_validator where
  "demo_validator doc = (if policy_schema_valid doc then None else Some (ValidatorErr ''invalid''))"

definition demo_rules :: "Rule list" where
  "demo_rules =
     [blank_rule\<lparr>pd_ID := ''cap'', pd_Type := ''per_transaction_limit'', pd_Max := ''100.00'', pd_Currency := ''USD''\<rparr>,
      blank_rule\<lparr>pd_ID := ''hours'', pd_Type := ''time_window'', pd_StartMinute := Some 0, pd_EndMinute := Some 1439\<rparr>,
      blank_rule\<lparr>pd_ID := ''month'', pd_Type := ''rolling_budget'', r_Window := ''month'', r_Limit := ''500''\<rparr>]"

lemma demo_validator_ok: "validates_schema demo_validator"
  by (simp add: validates_schema_def demo_validator_def)

lemma demo_jcs_total: "jcs_total demo_crypto"
  by (simp add: jcs_total_def demo_crypto_def)

lemma demo_rules_typed: "list_all doc_typed demo_rules"
  by (simp add: demo_rules_def doc_typed_def blank_rule_def in_int64_def)

lemma wire_num_1439: "wire_num 0 = 0" "wire_num 1439 = 1439"
  by (simp_all add: wire_num_small)

lemma demo_rules_valid: "policy_schema_valid (policy_doc ''org'' ''demo'' None demo_rules)"
  "policy_schema_valid (policy_doc ''org'' ''demo'' (Some []) demo_rules)"
  by (simp_all add: policy_doc_def prop_valid_def rulesToWire_def demo_rules_def blank_rule_def wire_of_Rule_def omitempty_def
      branch_valid_def branch_props_def all_types_def rune_count_def pat_money_def pat_upper_def is_upper_def is_digit_def wire_num_1439)

lemma demo_validates: "Validate demo_validator demo_crypto ''org'' ''demo'' (Some []) demo_rules = None"
  using Validate_exact [OF demo_validator_ok demo_jcs_total demo_rules_typed] demo_rules_valid
  by (simp add: demo_rules_def blank_rule_def)

theorem publishable_exact_witness: "Validate demo_validator demo_crypto ''org'' ''demo'' None demo_rules = None"
  using publishable_exact [OF demo_validator_ok demo_jcs_total demo_rules_typed, of "''org''" "''demo''" None] demo_rules_valid(1)
  by (simp add: demo_rules_def blank_rule_def)

text \<open>The schema allows an empty blocklist, but the wire form drops the empty list and the member is
  required: such a rule is never publishable.\<close>

lemma empty_blocklist_unpublishable:
  assumes "validates_schema v" and "r \<in> set rules" and "pd_Type r = ''vendor_blocklist''" and "pd_Vendors r = []"
  shows "Validate v c orgID name agents rules \<noteq> None"
proof
  assume "Validate v c orgID name agents rules = None"
  with assms(1,2) have "rule_schema_valid (wire_of_Rule r)"
    by (auto simp: Validate_None validates_schema_def intro: valid_policy_rules)
  then obtain t kvs where b: "wire_of_Rule r = JsonObj kvs" "branch_valid (schema_branch t) kvs" by (rule branch_of_rule)
  have "t = TypeVendorBlocklist"
    using branch_type(1) [OF b] assms(3) PredicateType_str_inject [of TypeVendorBlocklist t] by simp
  with b wire_names(2) [OF b(1)] assms(4) show False by (simp add: branch_valid_def)
qed

lemma empty_blocklist_schema_valid:
  "rule_schema_valid (JsonObj [(''id'', JsonString ''none''), (''type'', JsonString ''vendor_blocklist''), (''vendors'', JsonArr [])])"
  by (simp add: branch_valid_def branch_props_def prop_valid_def all_types_def rune_count_def)

end
