(* ===== verification/Policy_Ctl.thy ===== *)
theory Policy_Ctl
  imports Policy_Validate Ulid
begin

text \<open>
  \<open>internal/policyctl\<close>: working copies, immutable signed versions, the active bundle of an
  organisation, the in-memory and the Postgres store, and the service that creates, edits,
  publishes and rolls back. A service call threads the store; the clock is a function from the
  number of the reading to the time, and a fresh policy id is an argument.
\<close>

section \<open>Policies, versions, bundles\<close>

datatype Status = StatusDraft | StatusPublished

record CtlPolicy =
  cp_ID :: string
  cp_OrgID :: string
  cp_Name :: string
  cp_Agents :: "string list option"
  cp_Rules :: "Rule list"
  cp_Status :: Status
  cp_ActiveVersionHash :: string
  cp_CreatedAt :: gotime
  cp_UpdatedAt :: gotime

record BundleRef =
  bref_OrgID :: string
  bref_PolicyID :: string
  bref_VersionHash :: string
  bref_UpdatedAt :: gotime

record PolicyVersion =
  pv_VersionHash :: string
  pv_PolicyID :: string
  pv_OrgID :: string
  pv_Name :: string
  pv_Agents :: "string list"
  pv_Rules :: "Rule list"
  pv_Signature :: Signature
  pv_Author :: string
  pv_ParentHash :: string
  pv_PublishedAt :: gotime

definition PolicyCanonicalization :: string where "PolicyCanonicalization = ''ti-policy-canon/1''"

definition ctl_versionPrefix :: string where "ctl_versionPrefix = ''polv_''"

definition idPrefix :: string where "idPrefix = ''pol_''"

definition newPolicyID :: "64 word \<Rightarrow> 8 word list \<Rightarrow> string" where
  "newPolicyID ms entropy = idPrefix @ New ms entropy"

datatype ctl_error =
    ErrPolicyNotFound | ErrVersionNotFound | ErrPolicyExists | ErrBundleNotFound
  | ErrValidation "Problem list"
  | ErrPolicyCanonicalize
  | ErrPolicyStore string

definition policy_view :: "string \<Rightarrow> string \<Rightarrow> string \<Rightarrow> string list \<Rightarrow> Rule list \<Rightarrow> json" where
  "policy_view policyID orgID name agents rules = JsonObj
     [(''policy_id'', JsonString policyID), (''org_id'', JsonString orgID), (''name'', JsonString name),
      (''agents'', json_strings agents), (''rules'', JsonArr (map json_of_Rule rules))]"

definition PolicyCanonicalMessage ::
  "crypto \<Rightarrow> string \<Rightarrow> string \<Rightarrow> string \<Rightarrow> string list option \<Rightarrow> Rule list \<Rightarrow> ctl_error + string" where
  "PolicyCanonicalMessage c policyID orgID name agents rules =
     (case jcs_Transform c (policy_view policyID orgID name (of_nil agents) rules) of
        None \<Rightarrow> Inl ErrPolicyCanonicalize
      | Some canon \<Rightarrow> Inr canon)"

definition ContentHash ::
  "crypto \<Rightarrow> string \<Rightarrow> string \<Rightarrow> string \<Rightarrow> string list option \<Rightarrow> Rule list \<Rightarrow> ctl_error + string" where
  "ContentHash c policyID orgID name agents rules =
     bindE (PolicyCanonicalMessage c policyID orgID name agents rules)
       (\<lambda>msg. Inr (ctl_versionPrefix @ hex_encode (sha256_Sum c msg)))"

section \<open>MemStore\<close>

record MemPolicyStore =
  mp_policies :: "(string \<times> CtlPolicy) list"
  mp_versions :: "string \<Rightarrow> PolicyVersion list"
  mp_seen :: "string \<Rightarrow> string \<rightharpoonup> PolicyVersion"
  mp_bundles :: "string \<rightharpoonup> BundleRef"

definition NewMemPolicyStore :: MemPolicyStore where
  "NewMemPolicyStore = \<lparr>mp_policies = [], mp_versions = (\<lambda>_. []), mp_seen = (\<lambda>_. Map.empty), mp_bundles = Map.empty\<rparr>"

definition policy_key :: "string \<Rightarrow> string \<Rightarrow> string" where
  "policy_key org i = org @ ''|'' @ i"

definition MemPolicy_Create :: "CtlPolicy \<Rightarrow> MemPolicyStore \<Rightarrow> ctl_error option \<times> MemPolicyStore" where
  "MemPolicy_Create p m =
     (let k = policy_key (cp_OrgID p) (cp_ID p) in
      case map_of (mp_policies m) k of
        Some _ \<Rightarrow> (Some ErrPolicyExists, m)
      | None \<Rightarrow> (None, m\<lparr>mp_policies := alist_put k p (mp_policies m)\<rparr>))"

definition MemPolicy_Get :: "string \<Rightarrow> string \<Rightarrow> MemPolicyStore \<Rightarrow> (ctl_error + CtlPolicy) \<times> MemPolicyStore" where
  "MemPolicy_Get orgID i m =
     (case map_of (mp_policies m) (policy_key orgID i) of
        None \<Rightarrow> (Inl ErrPolicyNotFound, m)
      | Some p \<Rightarrow> (Inr p, m))"

definition MemPolicy_Update :: "CtlPolicy \<Rightarrow> MemPolicyStore \<Rightarrow> ctl_error option \<times> MemPolicyStore" where
  "MemPolicy_Update p m =
     (let k = policy_key (cp_OrgID p) (cp_ID p) in
      case map_of (mp_policies m) k of
        None \<Rightarrow> (Some ErrPolicyNotFound, m)
      | Some _ \<Rightarrow> (None, m\<lparr>mp_policies := alist_put k p (mp_policies m)\<rparr>))"

text \<open>Newest first; policies of the same time stay in the order of the map, which Go leaves
  open and the model takes to be the order of creation.\<close>

definition MemPolicy_List :: "string \<Rightarrow> MemPolicyStore \<Rightarrow> (ctl_error + CtlPolicy list) \<times> MemPolicyStore" where
  "MemPolicy_List orgID m =
     (let prefix = orgID @ ''|'';
          out = map snd (filter (\<lambda>(k, _). length prefix \<le> length k \<and> take (length prefix) k = prefix) (mp_policies m))
      in (Inr (sort_key (\<lambda>p. - cp_UpdatedAt p) out), m))"

definition MemPolicy_PutVersion :: "PolicyVersion \<Rightarrow> MemPolicyStore \<Rightarrow> (ctl_error + bool) \<times> MemPolicyStore" where
  "MemPolicy_PutVersion v m =
     (let k = policy_key (pv_OrgID v) (pv_PolicyID v) in
      case mp_seen m k (pv_VersionHash v) of
        Some _ \<Rightarrow> (Inr False, m)
      | None \<Rightarrow> (Inr True, m\<lparr>mp_seen := (mp_seen m)(k := (mp_seen m k)(pv_VersionHash v \<mapsto> v)),
                             mp_versions := (mp_versions m)(k := mp_versions m k @ [v])\<rparr>))"

definition MemPolicy_GetVersion ::
  "string \<Rightarrow> string \<Rightarrow> string \<Rightarrow> MemPolicyStore \<Rightarrow> (ctl_error + PolicyVersion) \<times> MemPolicyStore" where
  "MemPolicy_GetVersion orgID policyID versionHash m =
     (case mp_seen m (policy_key orgID policyID) versionHash of
        Some v \<Rightarrow> (Inr v, m)
      | None \<Rightarrow> (Inl ErrVersionNotFound, m))"

definition MemPolicy_ListVersions ::
  "string \<Rightarrow> string \<Rightarrow> MemPolicyStore \<Rightarrow> (ctl_error + PolicyVersion list) \<times> MemPolicyStore" where
  "MemPolicy_ListVersions orgID policyID m =
     (Inr (sort_key (\<lambda>v. - pv_PublishedAt v) (mp_versions m (policy_key orgID policyID))), m)"

definition MemPolicy_SetActiveBundle :: "BundleRef \<Rightarrow> MemPolicyStore \<Rightarrow> ctl_error option \<times> MemPolicyStore" where
  "MemPolicy_SetActiveBundle ref m = (None, m\<lparr>mp_bundles := (mp_bundles m)(bref_OrgID ref \<mapsto> ref)\<rparr>)"

definition MemPolicy_GetActiveBundle :: "string \<Rightarrow> MemPolicyStore \<Rightarrow> (ctl_error + BundleRef) \<times> MemPolicyStore" where
  "MemPolicy_GetActiveBundle orgID m =
     (case mp_bundles m orgID of
        Some b \<Rightarrow> (Inr b, m)
      | None \<Rightarrow> (Inl ErrBundleNotFound, m))"

section \<open>PostgresStore\<close>

text \<open>
  The tables \<open>policies\<close> (primary key id), \<open>policy_versions\<close> (primary key version_hash, policy_id
  references policies) and \<open>org_active_bundles\<close> (primary key org_id, referencing both). The
  schedule says which of the coming statements fail; a statement that would break a reference
  fails too. A row keeps the agents and rules that its JSON columns decode to, and times in
  microseconds.
\<close>

record PgPolicyStore =
  pp_policies :: "(string \<times> CtlPolicy) list"
  pp_versions :: "(string \<times> PolicyVersion) list"
  pp_bundles :: "string \<rightharpoonup> BundleRef"
  pp_fails :: "bool list"

definition pg_time :: "gotime \<Rightarrow> gotime" where
  "pg_time t = t - t mod 1000"

definition pp_begin :: "PgPolicyStore \<Rightarrow> bool \<times> PgPolicyStore" where
  "pp_begin s =
     (case pp_fails s of
        [] \<Rightarrow> (True, s)
      | f # fs \<Rightarrow> (\<not> f, s\<lparr>pp_fails := fs\<rparr>))"

definition policy_row :: "CtlPolicy \<Rightarrow> CtlPolicy" where
  "policy_row p = p\<lparr>cp_Agents := Some (of_nil (cp_Agents p)), cp_CreatedAt := pg_time (cp_CreatedAt p),
     cp_UpdatedAt := pg_time (cp_UpdatedAt p)\<rparr>"

definition version_row :: "PolicyVersion \<Rightarrow> PolicyVersion" where
  "version_row v = v\<lparr>pv_PublishedAt := pg_time (pv_PublishedAt v)\<rparr>"

definition bundle_row :: "BundleRef \<Rightarrow> BundleRef" where
  "bundle_row b = b\<lparr>bref_UpdatedAt := pg_time (bref_UpdatedAt b)\<rparr>"

definition PgPolicy_Create :: "CtlPolicy \<Rightarrow> PgPolicyStore \<Rightarrow> ctl_error option \<times> PgPolicyStore" where
  "PgPolicy_Create p s =
     (case pp_begin s of
        (False, s1) \<Rightarrow> (Some (ErrPolicyStore ''policyctl: insert policy''), s1)
      | (True, s1) \<Rightarrow>
          (case map_of (pp_policies s1) (cp_ID p) of
             Some _ \<Rightarrow> (Some ErrPolicyExists, s1)
           | None \<Rightarrow> (None, s1\<lparr>pp_policies := alist_put (cp_ID p) (policy_row p) (pp_policies s1)\<rparr>)))"

definition PgPolicy_Get :: "string \<Rightarrow> string \<Rightarrow> PgPolicyStore \<Rightarrow> (ctl_error + CtlPolicy) \<times> PgPolicyStore" where
  "PgPolicy_Get orgID i s =
     (case pp_begin s of
        (False, s1) \<Rightarrow> (Inl (ErrPolicyStore ''policyctl: get policy''), s1)
      | (True, s1) \<Rightarrow>
          (case map_of (pp_policies s1) i of
             Some p \<Rightarrow> if cp_OrgID p = orgID then (Inr p, s1) else (Inl ErrPolicyNotFound, s1)
           | None \<Rightarrow> (Inl ErrPolicyNotFound, s1)))"

definition PgPolicy_Update :: "CtlPolicy \<Rightarrow> PgPolicyStore \<Rightarrow> ctl_error option \<times> PgPolicyStore" where
  "PgPolicy_Update p s =
     (case pp_begin s of
        (False, s1) \<Rightarrow> (Some (ErrPolicyStore ''policyctl: update policy''), s1)
      | (True, s1) \<Rightarrow>
          (case map_of (pp_policies s1) (cp_ID p) of
             Some q \<Rightarrow>
               if cp_OrgID q = cp_OrgID p
               then (None, s1\<lparr>pp_policies := alist_put (cp_ID p)
                      (q\<lparr>cp_Name := cp_Name p, cp_Agents := Some (of_nil (cp_Agents p)), cp_Rules := cp_Rules p,
                         cp_Status := cp_Status p, cp_ActiveVersionHash := cp_ActiveVersionHash p,
                         cp_UpdatedAt := pg_time (cp_UpdatedAt p)\<rparr>) (pp_policies s1)\<rparr>)
               else (Some ErrPolicyNotFound, s1)
           | None \<Rightarrow> (Some ErrPolicyNotFound, s1)))"

definition PgPolicy_List :: "string \<Rightarrow> PgPolicyStore \<Rightarrow> (ctl_error + CtlPolicy list) \<times> PgPolicyStore" where
  "PgPolicy_List orgID s =
     (case pp_begin s of
        (False, s1) \<Rightarrow> (Inl (ErrPolicyStore ''policyctl: list policies''), s1)
      | (True, s1) \<Rightarrow>
          (Inr (sort_key (\<lambda>p. - cp_UpdatedAt p) (filter (\<lambda>p. cp_OrgID p = orgID) (map snd (pp_policies s1)))), s1))"

definition PgPolicy_PutVersion :: "PolicyVersion \<Rightarrow> PgPolicyStore \<Rightarrow> (ctl_error + bool) \<times> PgPolicyStore" where
  "PgPolicy_PutVersion v s =
     (case pp_begin s of
        (False, s1) \<Rightarrow> (Inl (ErrPolicyStore ''policyctl: insert version''), s1)
      | (True, s1) \<Rightarrow>
          (case map_of (pp_versions s1) (pv_VersionHash v) of
             Some _ \<Rightarrow> (Inr False, s1)
           | None \<Rightarrow>
               if map_of (pp_policies s1) (pv_PolicyID v) = None
               then (Inl (ErrPolicyStore ''policyctl: insert version''), s1)
               else (Inr True, s1\<lparr>pp_versions := alist_put (pv_VersionHash v) (version_row v) (pp_versions s1)\<rparr>)))"

definition PgPolicy_GetVersion ::
  "string \<Rightarrow> string \<Rightarrow> string \<Rightarrow> PgPolicyStore \<Rightarrow> (ctl_error + PolicyVersion) \<times> PgPolicyStore" where
  "PgPolicy_GetVersion orgID policyID versionHash s =
     (case pp_begin s of
        (False, s1) \<Rightarrow> (Inl (ErrPolicyStore ''policyctl: get version''), s1)
      | (True, s1) \<Rightarrow>
          (case map_of (pp_versions s1) versionHash of
             Some v \<Rightarrow> if pv_OrgID v = orgID \<and> pv_PolicyID v = policyID then (Inr v, s1) else (Inl ErrVersionNotFound, s1)
           | None \<Rightarrow> (Inl ErrVersionNotFound, s1)))"

definition PgPolicy_ListVersions ::
  "string \<Rightarrow> string \<Rightarrow> PgPolicyStore \<Rightarrow> (ctl_error + PolicyVersion list) \<times> PgPolicyStore" where
  "PgPolicy_ListVersions orgID policyID s =
     (case pp_begin s of
        (False, s1) \<Rightarrow> (Inl (ErrPolicyStore ''policyctl: list versions''), s1)
      | (True, s1) \<Rightarrow>
          (Inr (sort_key (\<lambda>v. - pv_PublishedAt v)
             (filter (\<lambda>v. pv_OrgID v = orgID \<and> pv_PolicyID v = policyID) (map snd (pp_versions s1)))), s1))"

definition PgPolicy_SetActiveBundle :: "BundleRef \<Rightarrow> PgPolicyStore \<Rightarrow> ctl_error option \<times> PgPolicyStore" where
  "PgPolicy_SetActiveBundle ref s =
     (case pp_begin s of
        (False, s1) \<Rightarrow> (Some (ErrPolicyStore ''policyctl: set active bundle''), s1)
      | (True, s1) \<Rightarrow>
          if map_of (pp_policies s1) (bref_PolicyID ref) = None \<or> map_of (pp_versions s1) (bref_VersionHash ref) = None
          then (Some (ErrPolicyStore ''policyctl: set active bundle''), s1)
          else (None, s1\<lparr>pp_bundles := (pp_bundles s1)(bref_OrgID ref \<mapsto> bundle_row ref)\<rparr>))"

definition PgPolicy_GetActiveBundle :: "string \<Rightarrow> PgPolicyStore \<Rightarrow> (ctl_error + BundleRef) \<times> PgPolicyStore" where
  "PgPolicy_GetActiveBundle orgID s =
     (case pp_begin s of
        (False, s1) \<Rightarrow> (Inl (ErrPolicyStore ''policyctl: get active bundle''), s1)
      | (True, s1) \<Rightarrow>
          (case pp_bundles s1 orgID of
             Some b \<Rightarrow> (Inr b, s1)
           | None \<Rightarrow> (Inl ErrBundleNotFound, s1)))"

section \<open>The service\<close>

record 's policy_ops =
  po_Create :: "CtlPolicy \<Rightarrow> 's \<Rightarrow> ctl_error option \<times> 's"
  po_Get :: "string \<Rightarrow> string \<Rightarrow> 's \<Rightarrow> (ctl_error + CtlPolicy) \<times> 's"
  po_Update :: "CtlPolicy \<Rightarrow> 's \<Rightarrow> ctl_error option \<times> 's"
  po_List :: "string \<Rightarrow> 's \<Rightarrow> (ctl_error + CtlPolicy list) \<times> 's"
  po_PutVersion :: "PolicyVersion \<Rightarrow> 's \<Rightarrow> (ctl_error + bool) \<times> 's"
  po_GetVersion :: "string \<Rightarrow> string \<Rightarrow> string \<Rightarrow> 's \<Rightarrow> (ctl_error + PolicyVersion) \<times> 's"
  po_ListVersions :: "string \<Rightarrow> string \<Rightarrow> 's \<Rightarrow> (ctl_error + PolicyVersion list) \<times> 's"
  po_SetActiveBundle :: "BundleRef \<Rightarrow> 's \<Rightarrow> ctl_error option \<times> 's"
  po_GetActiveBundle :: "string \<Rightarrow> 's \<Rightarrow> (ctl_error + BundleRef) \<times> 's"

definition mem_policy_ops :: "MemPolicyStore policy_ops" where
  "mem_policy_ops = \<lparr>po_Create = MemPolicy_Create, po_Get = MemPolicy_Get, po_Update = MemPolicy_Update,
     po_List = MemPolicy_List, po_PutVersion = MemPolicy_PutVersion, po_GetVersion = MemPolicy_GetVersion,
     po_ListVersions = MemPolicy_ListVersions, po_SetActiveBundle = MemPolicy_SetActiveBundle,
     po_GetActiveBundle = MemPolicy_GetActiveBundle\<rparr>"

definition pg_policy_ops :: "PgPolicyStore policy_ops" where
  "pg_policy_ops = \<lparr>po_Create = PgPolicy_Create, po_Get = PgPolicy_Get, po_Update = PgPolicy_Update,
     po_List = PgPolicy_List, po_PutVersion = PgPolicy_PutVersion, po_GetVersion = PgPolicy_GetVersion,
     po_ListVersions = PgPolicy_ListVersions, po_SetActiveBundle = PgPolicy_SetActiveBundle,
     po_GetActiveBundle = PgPolicy_GetActiveBundle\<rparr>"

type_synonym clock = "nat \<Rightarrow> gotime"

definition org_required :: "Problem list" where
  "org_required = [\<lparr>pb_Pointer = ''/org_id'', pb_Detail = ''org_id is required''\<rparr>]"

definition name_required :: "Problem list" where
  "name_required = [\<lparr>pb_Pointer = ''/name'', pb_Detail = ''name is required''\<rparr>]"

definition Service_Create :: "'s policy_ops \<Rightarrow> clock \<Rightarrow> string \<Rightarrow> string \<Rightarrow> string \<Rightarrow> string list option \<Rightarrow> Rule list \<Rightarrow> 's
    \<Rightarrow> (ctl_error + CtlPolicy) \<times> 's" where
  "Service_Create st clk newID orgID name agents rules s =
     (if orgID = [] then (Inl (ErrValidation org_required), s)
      else if name = [] then (Inl (ErrValidation name_required), s)
      else let p = \<lparr>cp_ID = newID, cp_OrgID = orgID, cp_Name = name, cp_Agents = agents, cp_Rules = rules,
                    cp_Status = StatusDraft, cp_ActiveVersionHash = [], cp_CreatedAt = clk 0, cp_UpdatedAt = clk 0\<rparr>
           in (case po_Create st p s of
                 (Some e, s1) \<Rightarrow> (Inl e, s1)
               | (None, s1) \<Rightarrow> (Inr p, s1)))"

definition Service_Get :: "'s policy_ops \<Rightarrow> string \<Rightarrow> string \<Rightarrow> 's \<Rightarrow> (ctl_error + CtlPolicy) \<times> 's" where
  "Service_Get st orgID i s = po_Get st orgID i s"

definition Service_List :: "'s policy_ops \<Rightarrow> string \<Rightarrow> 's \<Rightarrow> (ctl_error + CtlPolicy list) \<times> 's" where
  "Service_List st orgID s = po_List st orgID s"

definition Service_Update :: "'s policy_ops \<Rightarrow> clock \<Rightarrow> string \<Rightarrow> string \<Rightarrow> string \<Rightarrow> string list option \<Rightarrow> Rule list \<Rightarrow> 's
    \<Rightarrow> (ctl_error + CtlPolicy) \<times> 's" where
  "Service_Update st clk orgID i name agents rules s =
     (case po_Get st orgID i s of
        (Inl e, s1) \<Rightarrow> (Inl e, s1)
      | (Inr p, s1) \<Rightarrow>
          let p' = p\<lparr>cp_Name := (if name \<noteq> [] then name else cp_Name p), cp_Agents := agents, cp_Rules := rules,
                     cp_UpdatedAt := clk 0\<rparr>
          in (case po_Update st p' s1 of
                (Some e, s2) \<Rightarrow> (Inl e, s2)
              | (None, s2) \<Rightarrow> (Inr p', s2)))"

definition setActive :: "'s policy_ops \<Rightarrow> gotime \<Rightarrow> CtlPolicy \<Rightarrow> string \<Rightarrow> 's \<Rightarrow> ctl_error option \<times> 's" where
  "setActive st now p hash s =
     po_Update st (p\<lparr>cp_Status := StatusPublished, cp_ActiveVersionHash := hash, cp_UpdatedAt := now\<rparr>) s"

definition pointOrgBundle :: "'s policy_ops \<Rightarrow> gotime \<Rightarrow> string \<Rightarrow> string \<Rightarrow> string \<Rightarrow> 's \<Rightarrow> ctl_error option \<times> 's" where
  "pointOrgBundle st now orgID policyID versionHash s =
     po_SetActiveBundle st \<lparr>bref_OrgID = orgID, bref_PolicyID = policyID, bref_VersionHash = versionHash,
       bref_UpdatedAt = now\<rparr> s"

text \<open>The end both branches of \<open>Publish\<close> share: designate the version, then point the bundle.\<close>

definition designate :: "'s policy_ops \<Rightarrow> gotime \<Rightarrow> gotime \<Rightarrow> CtlPolicy \<Rightarrow> PolicyVersion \<Rightarrow> 's
    \<Rightarrow> (ctl_error + PolicyVersion) \<times> 's" where
  "designate st t1 t2 p v s =
     (case setActive st t1 p (pv_VersionHash v) s of
        (Some e, s1) \<Rightarrow> (Inl e, s1)
      | (None, s1) \<Rightarrow>
          (case pointOrgBundle st t2 (cp_OrgID p) (cp_ID p) (pv_VersionHash v) s1 of
             (Some e, s2) \<Rightarrow> (Inl e, s2)
           | (None, s2) \<Rightarrow> (Inr v, s2)))"

definition new_version :: "crypto \<Rightarrow> Signer \<Rightarrow> string \<Rightarrow> gotime \<Rightarrow> string \<Rightarrow> string \<Rightarrow> CtlPolicy \<Rightarrow> PolicyVersion" where
  "new_version c signer author now hash msg p =
     \<lparr>pv_VersionHash = hash, pv_PolicyID = cp_ID p, pv_OrgID = cp_OrgID p, pv_Name = cp_Name p,
      pv_Agents = of_nil (cp_Agents p), pv_Rules = cp_Rules p,
      pv_Signature = SignDetached c signer PolicyCanonicalization msg, pv_Author = author,
      pv_ParentHash = cp_ActiveVersionHash p, pv_PublishedAt = now\<rparr>"

definition Service_Publish :: "'s policy_ops \<Rightarrow> schema_validator \<Rightarrow> crypto \<Rightarrow> Signer \<Rightarrow> clock \<Rightarrow> string \<Rightarrow> string \<Rightarrow> string \<Rightarrow> 's
    \<Rightarrow> (ctl_error + PolicyVersion) \<times> 's" where
  "Service_Publish st schema c signer clk orgID i author s =
     (case po_Get st orgID i s of
        (Inl e, s1) \<Rightarrow> (Inl e, s1)
      | (Inr p, s1) \<Rightarrow>
          (case Validate schema c (cp_OrgID p) (cp_Name p) (cp_Agents p) (cp_Rules p) of
             Some problems \<Rightarrow> (Inl (ErrValidation problems), s1)
           | None \<Rightarrow>
               (case (PolicyCanonicalMessage c (cp_ID p) (cp_OrgID p) (cp_Name p) (cp_Agents p) (cp_Rules p),
                      ContentHash c (cp_ID p) (cp_OrgID p) (cp_Name p) (cp_Agents p) (cp_Rules p)) of
                  (Inl e, _) \<Rightarrow> (Inl e, s1)
                | (_, Inl e) \<Rightarrow> (Inl e, s1)
                | (Inr msg, Inr hash) \<Rightarrow>
                    (case po_GetVersion st orgID i hash s1 of
                       (Inr existing, s2) \<Rightarrow> designate st (clk 0) (clk 1) p existing s2
                     | (Inl e, s2) \<Rightarrow>
                         if e \<noteq> ErrVersionNotFound then (Inl e, s2)
                         else let v = new_version c signer author (clk 0) hash msg p
                              in (case po_PutVersion st v s2 of
                                    (Inl e, s3) \<Rightarrow> (Inl e, s3)
                                  | (Inr _, s3) \<Rightarrow> designate st (clk 1) (clk 2) p v s3)))))"

definition Service_ListVersions :: "'s policy_ops \<Rightarrow> string \<Rightarrow> string \<Rightarrow> 's \<Rightarrow> (ctl_error + PolicyVersion list) \<times> 's" where
  "Service_ListVersions st orgID i s =
     (case po_Get st orgID i s of
        (Inl e, s1) \<Rightarrow> (Inl e, s1)
      | (Inr _, s1) \<Rightarrow> po_ListVersions st orgID i s1)"

definition Service_Active :: "'s policy_ops \<Rightarrow> string \<Rightarrow> string \<Rightarrow> 's \<Rightarrow> (ctl_error + PolicyVersion) \<times> 's" where
  "Service_Active st orgID i s =
     (case po_Get st orgID i s of
        (Inl e, s1) \<Rightarrow> (Inl e, s1)
      | (Inr p, s1) \<Rightarrow>
          if cp_ActiveVersionHash p = [] then (Inl ErrVersionNotFound, s1)
          else po_GetVersion st orgID i (cp_ActiveVersionHash p) s1)"

definition Service_Rollback :: "'s policy_ops \<Rightarrow> clock \<Rightarrow> string \<Rightarrow> string \<Rightarrow> string \<Rightarrow> 's
    \<Rightarrow> (ctl_error + PolicyVersion) \<times> 's" where
  "Service_Rollback st clk orgID i versionHash s =
     (case po_Get st orgID i s of
        (Inl e, s1) \<Rightarrow> (Inl e, s1)
      | (Inr p, s1) \<Rightarrow>
          (case po_GetVersion st orgID i versionHash s1 of
             (Inl e, s2) \<Rightarrow> (Inl e, s2)
           | (Inr target, s2) \<Rightarrow>
               (case po_Update st (p\<lparr>cp_Name := pv_Name target, cp_Agents := Some (pv_Agents target),
                        cp_Rules := pv_Rules target, cp_Status := StatusPublished,
                        cp_ActiveVersionHash := pv_VersionHash target, cp_UpdatedAt := clk 0\<rparr>) s2 of
                  (Some e, s3) \<Rightarrow> (Inl e, s3)
                | (None, s3) \<Rightarrow>
                    (case pointOrgBundle st (clk 1) (cp_OrgID p) (cp_ID p) (pv_VersionHash target) s3 of
                       (Some e, s4) \<Rightarrow> (Inl e, s4)
                     | (None, s4) \<Rightarrow> (Inr target, s4)))))"

definition Service_ActiveBundle :: "'s policy_ops \<Rightarrow> string \<Rightarrow> 's \<Rightarrow> (ctl_error + BundleRef) \<times> 's" where
  "Service_ActiveBundle st orgID s = po_GetActiveBundle st orgID s"

text \<open>Verification of a version with nothing but the version and the public key.\<close>

datatype verify_error = ErrVersionCanonicalization string | ErrVersionCanonicalize | ErrVersionSignature sign_error

definition VerifyVersion :: "crypto \<Rightarrow> PolicyVersion \<Rightarrow> string \<Rightarrow> verify_error option" where
  "VerifyVersion c v pub =
     (if sig_Canonicalization (pv_Signature v) \<noteq> PolicyCanonicalization
      then Some (ErrVersionCanonicalization (sig_Canonicalization (pv_Signature v)))
      else case PolicyCanonicalMessage c (pv_PolicyID v) (pv_OrgID v) (pv_Name v) (Some (pv_Agents v)) (pv_Rules v) of
             Inl _ \<Rightarrow> Some ErrVersionCanonicalize
           | Inr msg \<Rightarrow> map_option ErrVersionSignature (VerifyDetached c pub msg (pv_Signature v)))"

end
