(* ===== verification/Server.thy ===== *)
theory Server
  imports Auth Rate_Limit Budget Audit_History Audit_Writer Idempotency Policy_Ctl
begin

text \<open>
  \<open>internal/server\<close>: the HTTP surface of the decision plane. Problems and responses, the method
  guard, the authentication and rate-limit middleware, the authorize handler with the idempotency
  replay and the audit hand-off, capture and void, and the two read endpoints with their filters
  and cursors. A handler is a function of the request, the principal that the
  middleware put in the context, and the world; logs, metrics and trace spans are left out.
\<close>

section \<open>Requests and responses\<close>

text \<open>A request with its buffered body (\<open>None\<close>: reading it failed), the matched path value \<open>id\<close>
  and the request id.\<close>

record http_request =
  rq_Method :: string
  rq_Path :: string
  rq_Header :: http_header
  rq_Body :: "string option"
  rq_PathID :: string
  rq_Query :: "(string \<times> string list) list"
  rq_ID :: string

record holdResponse =
  hr_DecisionID :: string
  hr_State :: State
  hr_BudgetID :: string
  hr_Amount :: string
  hr_Currency :: string
  hr_ExpiresAt :: string

record listPage =
  lp_Data :: "Decision list"
  lp_NextCursor :: "string option"

record apiKeyView =
  kv_ID :: string
  kv_Prefix :: string
  kv_OrgID :: string
  kv_Env :: string
  kv_Tier :: string
  kv_IsActive :: bool
  kv_Shadow :: bool
  kv_CreatedAt :: gotime
  kv_RevokedAt :: "gotime option"

record createdApiKeyView = apiKeyView +
  kv_Secret :: string

record simulateResponse =
  sm_VersionHash :: string
  sm_Shadow :: bool
  sm_Results :: "Decision list"

datatype resp_body =
    BodyDecision Decision | BodyProblem Contracts.Problem | BodyHold holdResponse | BodyList listPage
  | BodyPolicy CtlPolicy | BodyPolicies "CtlPolicy list" | BodyVersion PolicyVersion | BodyVersions "PolicyVersion list"
  | BodyBundle BundleRef | BodySimulation simulateResponse
  | BodyKey apiKeyView | BodyKeys "apiKeyView list" | BodyCreatedKey createdApiKeyView | BodyJWKS "JWK list"

record http_response =
  rp_Status :: int
  rp_Header :: "(string \<times> string) list"
  rp_Body :: resp_body

definition problemBaseURI :: string where "problemBaseURI = ''https://contracts.trust-infra.dev/v1/errors/''"

definition codeValidationFailed :: string where "codeValidationFailed = ''validation_failed''"
definition codeNotFound :: string where "codeNotFound = ''not_found''"
definition codeMethodNotAllowed :: string where "codeMethodNotAllowed = ''method_not_allowed''"
definition codeInternal :: string where "codeInternal = ''internal_error''"
definition codeRateLimited :: string where "codeRateLimited = ''rate_limited''"
definition codeConflict :: string where "codeConflict = ''conflict''"

definition writeProblem ::
  "(string \<times> string) list \<Rightarrow> http_request \<Rightarrow> int \<Rightarrow> string \<Rightarrow> string \<Rightarrow> string \<Rightarrow> ValidationItem list \<Rightarrow> http_response" where
  "writeProblem hdr rq status code title detail items =
     \<lparr>rp_Status = status, rp_Header = hdr @ [(''Content-Type'', ''application/problem+json'')],
      rp_Body = BodyProblem \<lparr>prob_Type = problemBaseURI @ code, prob_Title = title, prob_Status = status, prob_Detail = detail,
        prob_Instance = rq_Path rq @ ''#'' @ rq_ID rq, prob_Code = code, prob_Errors = items\<rparr>\<rparr>"

definition writeJSON :: "(string \<times> string) list \<Rightarrow> int \<Rightarrow> resp_body \<Rightarrow> http_response" where
  "writeJSON hdr code v = \<lparr>rp_Status = code, rp_Header = hdr @ [(''Content-Type'', ''application/json'')], rp_Body = v\<rparr>"

section \<open>The server\<close>

text \<open>The dependencies as the code has them, as operations on one world. The clock readings
  and the fresh decision id of a request are inside the operations. An optional field is a
  dependency that may not be wired.\<close>

record 'w Server =
  sv_authn :: "string \<Rightarrow> string \<Rightarrow> http_header \<Rightarrow> string \<Rightarrow> 'w \<Rightarrow> (AuthError + Principal) \<times> 'w"
  sv_limiter :: "string \<Rightarrow> Limits \<Rightarrow> 'w \<Rightarrow> RLDecision option \<times> 'w"
  sv_tiers :: TierTable
  sv_authz :: "string \<Rightarrow> AuthorizeRequest \<Rightarrow> bool \<Rightarrow> 'w \<Rightarrow> (engine_error + Decision) \<times> 'w"
  sv_idemLookup :: "(string \<Rightarrow> string \<Rightarrow> 'w \<Rightarrow> string + Decision option) option"
  sv_idemSave :: "string \<Rightarrow> string \<Rightarrow> Decision \<Rightarrow> 'w \<Rightarrow> string option \<times> 'w"
  sv_auditWriter :: "(AuditRecord \<Rightarrow> 'w \<Rightarrow> 'w) option"
  sv_auditGet :: "(string \<Rightarrow> string \<Rightarrow> 'w \<Rightarrow> audit_error + AuditRecord) option"
  sv_auditList :: "string \<Rightarrow> Filter \<Rightarrow> 'w \<Rightarrow> audit_error + Page"
  sv_verifyDecision :: "(Decision \<Rightarrow> bool) option"
  sv_retentionFor :: "(string \<Rightarrow> duration) option"
  sv_now :: gotime
  sv_budget :: "((string \<Rightarrow> string \<Rightarrow> 'w \<Rightarrow> (hold_error + Hold) \<times> 'w) \<times> (string \<Rightarrow> string \<Rightarrow> 'w \<Rightarrow> (hold_error + Hold) \<times> 'w)) option"

type_synonym 'w handler = "http_request \<Rightarrow> Principal option \<Rightarrow> 'w \<Rightarrow> http_response \<times> 'w"

definition maxBodyBytes :: nat where "maxBodyBytes = 65536"

text \<open>\<open>method\<close>: the outermost guard.\<close>

definition method_guard :: "string \<Rightarrow> 'w handler \<Rightarrow> 'w handler" where
  "method_guard allowed h rq p w =
     (if rq_Method rq \<noteq> allowed
      then (writeProblem [(''Allow'', allowed)] rq 405 codeMethodNotAllowed ''Method not allowed''
              (''This endpoint does not support '' @ rq_Method rq @ ''.'') [], w)
      else h rq p w)"

definition authenticate :: "'w Server \<Rightarrow> 'w handler \<Rightarrow> 'w handler" where
  "authenticate sv next_h rq p w =
     (case rq_Body rq of
        None \<Rightarrow> (writeProblem [] rq 400 codeValidationFailed ''Malformed request'' ''The request body could not be read.'' [], w)
      | Some body \<Rightarrow>
          if length body > maxBodyBytes
          then (writeProblem [] rq 413 codeValidationFailed ''Request too large''
                  ''The request body exceeds the maximum allowed size.'' [], w)
          else (case sv_authn sv (rq_Method rq) (rq_Path rq) (rq_Header rq) body w of
                  (Inl e, w1) \<Rightarrow>
                    (writeProblem (if ae_Status e = 401 then [(''WWW-Authenticate'', ''Bearer'')] else []) rq
                       (ae_Status e) (ae_Code e) (ae_Title e) (ae_Detail e) [], w1)
                | (Inr prin, w1) \<Rightarrow> next_h rq (Some prin) w1))"

definition noPrincipal :: "http_request \<Rightarrow> http_response" where
  "noPrincipal rq = writeProblem [] rq 500 codeInternal ''Internal server error'' ''Authentication context was not present.'' []"

definition retry_seconds :: "duration \<Rightarrow> int" where
  "retry_seconds d = (let secs = - ((- d) div ns_second) in if secs < 1 then 1 else secs)"

definition rateLimit :: "'w Server \<Rightarrow> 'w handler \<Rightarrow> 'w handler" where
  "rateLimit sv next_h rq p w =
     (case p of
        None \<Rightarrow> (noPrincipal rq, w)
      | Some prin \<Rightarrow>
          (case sv_limiter sv (pr_KeyID prin) (TierTable_Resolve (sv_tiers sv) (pr_Tier prin)) w of
             (None, w1) \<Rightarrow> next_h rq p w1
           | (Some d, w1) \<Rightarrow>
               if \<not> rl_Allowed d
               then (writeProblem [(''Retry-After'', FormatInt (retry_seconds (rl_RetryAfter d)))] rq 429 codeRateLimited
                       ''Rate limit exceeded'' (''You have exceeded the '' @ rl_Scope d @ '' rate limit for your key.'') [], w1)
               else next_h rq p w1))"

section \<open>Authorize\<close>

text \<open>\<open>encoding/json\<close> with \<open>DisallowUnknownFields\<close>: what decoding the body gives, and whether more
  input follows. The reader is an argument of the handler.\<close>

datatype decode_error = SyntaxError | TypeError string | EmptyBody | OtherDecode string

datatype decode_result = TooLarge | DecodeErr decode_error | Decoded AuthorizeRequest bool

fun jsonErrorDetail :: "decode_error \<Rightarrow> string" where
  "jsonErrorDetail SyntaxError = ''Invalid JSON syntax.''"
| "jsonErrorDetail (TypeError f) = ''Field '' @ f @ '' has the wrong type.''"
| "jsonErrorDetail EmptyBody = ''Request body is empty.''"
| "jsonErrorDetail (OtherDecode m) = m"

definition is_upper :: "char \<Rightarrow> bool" where
  "is_upper c \<longleftrightarrow> 65 \<le> (of_char c :: nat) \<and> (of_char c :: nat) \<le> 90"

text \<open>The regular expressions \<open>reMoney\<close>, \<open>reCurrency\<close>, \<open>reJurisdiction\<close> and \<open>reULID\<close>.\<close>

definition reMoney :: "string \<Rightarrow> bool" where
  "reMoney s =
     (let t = (case s of c # r \<Rightarrow> if c = CHR ''-'' then r else s | [] \<Rightarrow> []);
          ip = takeWhile is_digit t; rest = dropWhile is_digit t in
      (ip = ''0'' \<or> ip \<noteq> [] \<and> hd ip \<noteq> CHR ''0'') \<and>
      (case rest of [] \<Rightarrow> True | c # fr \<Rightarrow> c = CHR ''.'' \<and> fr \<noteq> [] \<and> list_all is_digit fr))"

definition reCurrency :: "string \<Rightarrow> bool" where "reCurrency s \<longleftrightarrow> length s = 3 \<and> list_all is_upper s"
definition reJurisdiction :: "string \<Rightarrow> bool" where "reJurisdiction s \<longleftrightarrow> length s = 2 \<and> list_all is_upper s"

definition reULID :: "string \<Rightarrow> bool" where
  "reULID s \<longleftrightarrow> length s = 26 \<and>
     list_all (\<lambda>c. is_digit c \<or> is_upper c \<and> c \<noteq> CHR ''I'' \<and> c \<noteq> CHR ''L'' \<and> c \<noteq> CHR ''O'' \<and> c \<noteq> CHR ''U'') s"

fun validTargetType :: "TargetType \<Rightarrow> bool" where
  "validTargetType (TargetOther _) = False"
| "validTargetType _ = True"

definition item :: "bool \<Rightarrow> string \<Rightarrow> string \<Rightarrow> ValidationItem list" where
  "item bad pointer detail = (if bad then [\<lparr>vi_Pointer = pointer, vi_Detail = detail\<rparr>] else [])"

definition validateAuthorizeRequest :: "AuthorizeRequest \<Rightarrow> ValidationItem list" where
  "validateAuthorizeRequest req =
     item (length (req_AgentID req) < 1 \<or> length (req_AgentID req) > 256) ''/agent_id'' ''must be 1..256 characters'' @
     item (length (req_Action req) < 1 \<or> length (req_Action req) > 128) ''/action'' ''must be 1..128 characters'' @
     item (\<not> reMoney (req_Amount req)) ''/amount''
       (''must be a canonical decimal string matching ^-?(0|[1-9][0-9]*)('' @ [CHR 0x5C] @ ''.[0-9]+)?$'') @
     item (\<not> reCurrency (req_Currency req)) ''/currency'' ''must be a 3-letter uppercase ISO 4217 code'' @
     item (\<not> validTargetType (tgt_Type (req_Target req))) ''/target/type'' ''must be one of vendor|account|address|internal|unknown'' @
     item (length (tgt_ID (req_Target req)) < 1 \<or> length (tgt_ID (req_Target req)) > 256) ''/target/id'' ''must be 1..256 characters'' @
     item (req_Jurisdiction req \<noteq> [] \<and> \<not> reJurisdiction (req_Jurisdiction req)) ''/jurisdiction''
       ''must be a 2-letter uppercase ISO 3166-1 alpha-2 code'' @
     item (length (req_IdempotencyKey req) < 8 \<or> length (req_IdempotencyKey req) > 128) ''/idempotency_key'' ''must be 8..128 characters''"

definition idempotentReplay :: "'w Server \<Rightarrow> Principal option \<Rightarrow> AuthorizeRequest \<Rightarrow> 'w \<Rightarrow> Decision option" where
  "idempotentReplay sv p req w =
     (case sv_idemLookup sv of
        None \<Rightarrow> None
      | Some lookup \<Rightarrow>
          if req_IdempotencyKey req = [] then None
          else case p of
                 None \<Rightarrow> None
               | Some prin \<Rightarrow>
                   (case lookup (pr_OrgID prin) (req_IdempotencyKey req) w of Inl _ \<Rightarrow> None | Inr found \<Rightarrow> found))"

definition saveIdempotent :: "'w Server \<Rightarrow> Principal option \<Rightarrow> AuthorizeRequest \<Rightarrow> Decision \<Rightarrow> 'w \<Rightarrow> 'w" where
  "saveIdempotent sv p req dec w =
     (if sv_idemLookup sv = None \<or> req_IdempotencyKey req = [] then w
      else case p of
             None \<Rightarrow> w
           | Some prin \<Rightarrow> snd (sv_idemSave sv (pr_OrgID prin) (req_IdempotencyKey req) dec w))"

definition enqueueAudit :: "'w Server \<Rightarrow> Principal option \<Rightarrow> AuthorizeRequest \<Rightarrow> Decision \<Rightarrow> 'w \<Rightarrow> 'w" where
  "enqueueAudit sv p req dec w =
     (case sv_auditWriter sv of
        None \<Rightarrow> w
      | Some enqueue \<Rightarrow>
          (case p of
             None \<Rightarrow> w
           | Some prin \<Rightarrow>
               let rec = RecordFromDecision (pr_OrgID prin) (pr_KeyID prin) req dec;
                   rec' = (case sv_retentionFor sv of
                             None \<Rightarrow> rec
                           | Some f \<Rightarrow> rec\<lparr>ar_RetainUntil := sv_now sv + f (pr_Tier prin)\<rparr>)
               in enqueue rec' w))"

definition authorize_ok :: "'w Server \<Rightarrow> http_request \<Rightarrow> Principal option \<Rightarrow> AuthorizeRequest \<Rightarrow> 'w \<Rightarrow> http_response \<times> 'w" where
  "authorize_ok sv rq p req w =
     (case idempotentReplay sv p req w of
        Some dec \<Rightarrow>
          (writeJSON [(''X-Decision-Id'', dec_DecisionID dec), (''X-Idempotent-Replay'', ''true'')] 200 (BodyDecision dec), w)
      | None \<Rightarrow>
          (case sv_authz sv (case p of Some prin \<Rightarrow> pr_OrgID prin | None \<Rightarrow> []) req
                  (case p of Some prin \<Rightarrow> pr_Shadow prin | None \<Rightarrow> False) w of
             (Inl _, w1) \<Rightarrow>
               (writeProblem [] rq 503 codeInternal ''Decision unavailable''
                  ''The decision plane could not produce a decision.'' [], w1)
           | (Inr dec, w1) \<Rightarrow>
               let w2 = saveIdempotent sv p req dec w1 in
               (writeJSON ((''X-Decision-Id'', dec_DecisionID dec) # (if dec_Shadow dec then [(''X-Shadow'', ''true'')] else []))
                  200 (BodyDecision dec),
                enqueueAudit sv p req dec w2)))"

definition handleAuthorize :: "'w Server \<Rightarrow> (string \<Rightarrow> decode_result) \<Rightarrow> 'w handler" where
  "handleAuthorize sv decode rq p w =
     (case decode (case rq_Body rq of Some b \<Rightarrow> b | None \<Rightarrow> []) of
        TooLarge \<Rightarrow> (writeProblem [] rq 413 codeValidationFailed ''Request too large''
                        ''The request body exceeds the maximum allowed size.'' [], w)
      | DecodeErr e \<Rightarrow> (writeProblem [] rq 400 codeValidationFailed ''Malformed request body'' (jsonErrorDetail e) [], w)
      | Decoded req more_input \<Rightarrow>
          if more_input
          then (writeProblem [] rq 400 codeValidationFailed ''Malformed request body''
                  ''Body must contain a single JSON object.'' [], w)
          else let items = validateAuthorizeRequest req in
            if items \<noteq> []
            then (writeProblem [] rq 400 codeValidationFailed ''Validation failed'' ''One or more fields are invalid.'' items, w)
            else authorize_ok sv rq p (req\<lparr>req_EvaluatedAt := []\<rparr>) w)"

definition authorize_endpoint :: "'w Server \<Rightarrow> (string \<Rightarrow> decode_result) \<Rightarrow> http_request \<Rightarrow> 'w \<Rightarrow> http_response \<times> 'w" where
  "authorize_endpoint sv decode rq w =
     method_guard ''POST'' (authenticate sv (rateLimit sv (handleAuthorize sv decode))) rq None w"

section \<open>Capture and void\<close>

definition toHoldResponse :: "Hold \<Rightarrow> holdResponse" where
  "toHoldResponse h =
     \<lparr>hr_DecisionID = h_DecisionID h, hr_State = h_State h, hr_BudgetID = h_BudgetID h, hr_Amount = h_Amount h,
      hr_Currency = h_Currency h,
      hr_ExpiresAt = (if time_IsZero (h_ExpiresAt h) then [] else format_RFC3339 (h_ExpiresAt h))\<rparr>"

fun writeHoldError :: "http_request \<Rightarrow> hold_error \<Rightarrow> http_response" where
  "writeHoldError rq ErrNotFound = writeProblem [] rq 404 codeNotFound ''Hold not found''
     ''No hold matches the given decision id (it may have expired).'' []"
| "writeHoldError rq (ConflictError from action reason) = writeProblem [] rq 409 codeConflict ''Hold state conflict'' reason []"
| "writeHoldError rq (ErrStore _) = writeProblem [] rq 503 codeInternal ''Hold operation failed'' ''The hold could not be updated.'' []"

definition transitionHold :: "'w Server \<Rightarrow> bool \<Rightarrow> 'w handler" where
  "transitionHold sv capture rq p w =
     (case sv_budget sv of
        None \<Rightarrow> (writeProblem [] rq 503 codeInternal ''Holds unavailable''
                    ''Two-phase budget holds are not enabled on this instance.'' [], w)
      | Some (cap, void) \<Rightarrow>
          (case p of
             None \<Rightarrow> (noPrincipal rq, w)
           | Some prin \<Rightarrow>
               if \<not> reULID (rq_PathID rq)
               then (writeProblem [] rq 404 codeNotFound ''Hold not found'' ''No hold matches the given decision id.'' [], w)
               else (case (if capture then cap else void) (pr_OrgID prin) (rq_PathID rq) w of
                       (Inl err, w1) \<Rightarrow> (writeHoldError rq err, w1)
                     | (Inr h, w1) \<Rightarrow> (writeJSON [] 200 (BodyHold (toHoldResponse h)), w1))))"

definition handleCapture :: "'w Server \<Rightarrow> 'w handler" where "handleCapture sv = transitionHold sv True"
definition handleVoid :: "'w Server \<Rightarrow> 'w handler" where "handleVoid sv = transitionHold sv False"

definition hold_endpoint :: "'w Server \<Rightarrow> bool \<Rightarrow> http_request \<Rightarrow> 'w \<Rightarrow> http_response \<times> 'w" where
  "hold_endpoint sv capture rq w =
     method_guard ''POST'' (authenticate sv (rateLimit sv (if capture then handleCapture sv else handleVoid sv))) rq None w"

section \<open>Reading decisions\<close>

definition encodeCursor :: "int \<Rightarrow> string" where
  "encodeCursor seq = b64_encode (FormatInt seq)"

definition decodeCursor :: "string \<Rightarrow> int option" where
  "decodeCursor s = Option.bind (b64_decode s) ParseInt64"

definition verifyRecord :: "crypto \<Rightarrow> 'w Server \<Rightarrow> AuditRecord \<Rightarrow> bool" where
  "verifyRecord c sv rec =
     (case sv_verifyDecision sv of
        None \<Rightarrow> False
      | Some verify \<Rightarrow> verify (Record_Decision rec False) \<and> VerifyChainLink c rec = Inr True)"

definition decisionNotFound :: "http_request \<Rightarrow> http_response" where
  "decisionNotFound rq = writeProblem [] rq 404 codeNotFound ''Decision not found'' ''No decision matches the given id.'' []"

definition handleGetDecision :: "crypto \<Rightarrow> 'w Server \<Rightarrow> 'w handler" where
  "handleGetDecision c sv rq p w =
     (case sv_auditGet sv of
        None \<Rightarrow> (decisionNotFound rq, w)
      | Some get \<Rightarrow>
          (case p of
             None \<Rightarrow> (noPrincipal rq, w)
           | Some prin \<Rightarrow>
               if \<not> reULID (rq_PathID rq) then (decisionNotFound rq, w)
               else (case get (pr_OrgID prin) (rq_PathID rq) w of
                       Inl e \<Rightarrow>
                         if e = ErrAuditNotFound then (decisionNotFound rq, w)
                         else (writeProblem [] rq 503 codeInternal ''Decision unavailable''
                                 ''The decision record could not be read.'' [], w)
                     | Inr rec \<Rightarrow> (writeJSON [] 200 (BodyDecision (Record_Decision rec (verifyRecord c sv rec))), w))))"

text \<open>The query parameters of a listing: the first value, or empty.\<close>

definition parseListFilter :: "http_request \<Rightarrow> Filter \<times> ValidationItem list" where
  "parseListFilter rq =
     (let q = header_Get (rq_Query rq);
          v = q ''verdict''; fr = q ''from''; till = q ''to''; lm = q ''limit''; cu = q ''cursor'';
          vok = (v = ''APPROVE'' \<or> v = ''DENY'' \<or> v = ''REVIEW'');
          tf = parse_RFC3339 fr; tt = parse_RFC3339 till;
          n = (case ParseInt64 lm of Some k \<Rightarrow> if 1 \<le> k \<and> k \<le> MaxListLimit then Some k else None | None \<Rightarrow> None);
          c = decodeCursor cu
      in (\<lparr>fl_AgentID = q ''agent_id'', fl_Verdict = (if v \<noteq> [] \<and> vok then v else []),
           fl_From = (case tf of Some t \<Rightarrow> if fr \<noteq> [] then t else 0 | None \<Rightarrow> 0),
           fl_To = (case tt of Some t \<Rightarrow> if till \<noteq> [] then t else 0 | None \<Rightarrow> 0),
           fl_Limit = (case n of Some k \<Rightarrow> k | None \<Rightarrow> 0),
           fl_Cursor = (case c of Some k \<Rightarrow> if cu \<noteq> [] then k else 0 | None \<Rightarrow> 0)\<rparr>,
          item (v \<noteq> [] \<and> \<not> vok) ''/verdict'' ''must be one of APPROVE|DENY|REVIEW'' @
          item (fr \<noteq> [] \<and> tf = None) ''/from'' ''must be an RFC 3339 date-time'' @
          item (till \<noteq> [] \<and> tt = None) ''/to'' ''must be an RFC 3339 date-time'' @
          item (lm \<noteq> [] \<and> n = None) ''/limit'' ''must be an integer in 1..200'' @
          item (cu \<noteq> [] \<and> c = None) ''/cursor'' ''invalid pagination cursor''))"

definition handleListDecisions :: "crypto \<Rightarrow> 'w Server \<Rightarrow> 'w handler" where
  "handleListDecisions c sv rq p w =
     (if sv_auditGet sv = None then (writeJSON [] 200 (BodyList \<lparr>lp_Data = [], lp_NextCursor = None\<rparr>), w)
      else case p of
             None \<Rightarrow> (noPrincipal rq, w)
           | Some prin \<Rightarrow>
               (case parseListFilter rq of (f, items) \<Rightarrow>
                  if items \<noteq> []
                  then (writeProblem [] rq 400 codeValidationFailed ''Validation failed''
                          ''One or more query parameters are invalid.'' items, w)
                  else (case sv_auditList sv (pr_OrgID prin) f w of
                          Inl _ \<Rightarrow> (writeProblem [] rq 503 codeInternal ''Decisions unavailable''
                                     ''The decision records could not be read.'' [], w)
                        | Inr page \<Rightarrow>
                            (writeJSON [] 200 (BodyList
                               \<lparr>lp_Data = map (\<lambda>rec. Record_Decision rec (verifyRecord c sv rec)) (pg_Records page),
                                lp_NextCursor = (if pg_NextCursor page > 0 then Some (encodeCursor (pg_NextCursor page)) else None)\<rparr>), w))))"

definition get_endpoint :: "crypto \<Rightarrow> 'w Server \<Rightarrow> http_request \<Rightarrow> 'w \<Rightarrow> http_response \<times> 'w" where
  "get_endpoint c sv rq w = method_guard ''GET'' (authenticate sv (rateLimit sv (handleGetDecision c sv))) rq None w"

definition list_endpoint :: "crypto \<Rightarrow> 'w Server \<Rightarrow> http_request \<Rightarrow> 'w \<Rightarrow> http_response \<times> 'w" where
  "list_endpoint c sv rq w = method_guard ''GET'' (authenticate sv (rateLimit sv (handleListDecisions c sv))) rq None w"

section \<open>The production wiring\<close>

text \<open>
  \<open>cmd/authorize-svc/main.go\<close> wires the Redis and Postgres implementations. The world has one component
  for each; the decision log is behind the asynchronous writer, whose store is the Postgres log.
\<close>

record 'k prod_world =
  pw_keys :: 'k
  pw_nonces :: RedisNonceStore
  pw_limiter :: RedisLimiter
  pw_idem :: RedisIdem
  pw_budget :: "(RedisCounter, PostgresStore) budget_world"
  pw_audit :: "PgAudit Writer"

text \<open>What one request draws from outside: the clock, the key lookup of the world and the
  engine's own inputs.\<close>

record prod_env =
  pe_now :: gotime
  pe_elapsed :: duration
  pe_decID :: string
  pe_clk :: "gotime \<times> gotime"
  pe_ns :: entropy3

record 'k prod_config =
  pc_mac :: mac_crypto
  pc_crypto :: crypto
  pc_auth :: "('k, RedisNonceStore) Authenticator"
  pc_tiers :: TierTable
  pc_engine :: "gotime \<Rightarrow> (RedisCounter, PostgresStore) budget_world Engine"
  pc_keyring :: Keyring
  pc_enc :: Encryptor
  pc_retention :: "string \<Rightarrow> duration"
  pc_holdTTL :: duration

definition prod_reserver_ops :: "'k prod_config \<Rightarrow> (RedisCounter, PostgresStore) Reserver" where
  "prod_reserver_ops cfg = NewReserver redis_counter_ops pg_hold_ops (pc_holdTTL cfg)"

definition on_budget ::
  "((RedisCounter, PostgresStore) budget_world \<Rightarrow> 'a \<times> (RedisCounter, PostgresStore) budget_world)
   \<Rightarrow> 'k prod_world \<Rightarrow> 'a \<times> 'k prod_world" where
  "on_budget f w = (case f (pw_budget w) of (r, b) \<Rightarrow> (r, w\<lparr>pw_budget := b\<rparr>))"

text \<open>A send on a full channel waits for the worker: the response is out already and the record is not
  yet in the queue.\<close>

definition prod_server :: "'k prod_config \<Rightarrow> prod_env \<Rightarrow> 'k prod_world Server" where
  "prod_server cfg env =
     \<lparr>sv_authn = (\<lambda>m path hdr body w.
        (case Authenticate (pc_mac cfg) (pc_auth cfg) (pe_now env, pe_now env, pe_now env) m path hdr body (pw_keys w, pw_nonces w) of
           (r, ks, ns) \<Rightarrow> (r, w\<lparr>pw_keys := ks, pw_nonces := ns\<rparr>))),
      sv_limiter = (\<lambda>k lm w. case RedisLimiter_Allow (pe_now env) k lm (pw_limiter w) of (r, l) \<Rightarrow> (r, w\<lparr>pw_limiter := l\<rparr>)),
      sv_tiers = pc_tiers cfg,
      sv_authz = (\<lambda>org req shadow. on_budget (Authorize (pc_crypto cfg) (pe_now env) (pe_now env) (pe_elapsed env) (pe_decID env)
         (pc_engine cfg (pe_now env)) org req shadow)),
      sv_idemLookup = Some (\<lambda>org k w. RedisIdem_Lookup (pe_now env) org k (pw_idem w)),
      sv_idemSave = (\<lambda>org k dec w. case RedisIdem_Save (pe_now env) org k dec (pw_idem w) of (e, i) \<Rightarrow> (e, w\<lparr>pw_idem := i\<rparr>)),
      sv_auditWriter = Some (\<lambda>r w. case Enqueue (PgAudit_Append (pc_crypto cfg) (pc_enc cfg) (pe_clk env) (pe_ns env)) r (pw_audit w) of
         None \<Rightarrow> w | Some q \<Rightarrow> w\<lparr>pw_audit := q\<rparr>),
      sv_auditGet = Some (\<lambda>org d w. PgAudit_Get (pc_enc cfg) org d (aq_store (pw_audit w))),
      sv_auditList = (\<lambda>org f w. PgAudit_List (pc_enc cfg) org f (aq_store (pw_audit w))),
      sv_verifyDecision = Some (\<lambda>d. VerifyDecision (pc_crypto cfg) (pc_keyring cfg) d = None),
      sv_retentionFor = Some (pc_retention cfg),
      sv_now = pe_now env,
      sv_budget = Some
        (\<lambda>org d. on_budget (Reserver_Capture (prod_reserver_ops cfg) (pe_now env) org d),
         \<lambda>org d. on_budget (Reserver_Void (prod_reserver_ops cfg) (pe_now env) org d))\<rparr>"

end
