(* ===== verification/Server_Api.thy ===== *)
theory Server_Api
  imports Server
begin

text \<open>
  What a client of the HTTP surface may rely on: every answer is a well-formed response; only an
  authenticated, admitted, valid request has an effect; a retry with the same idempotency key
  gets the decision that was issued and reserves nothing; and an issued decision is readable from the log, its signature and its
  link verified.
\<close>

section \<open>Well-formed responses\<close>

definition problem_statuses :: "int set" where
  "problem_statuses = {400, 401, 403, 404, 405, 409, 413, 429, 500, 503}"

definition wf_response :: "http_response \<Rightarrow> bool" where
  "wf_response resp \<longleftrightarrow>
     (case rp_Body resp of
        BodyProblem p \<Rightarrow>
          rp_Status resp \<in> problem_statuses \<and> prob_Status p = rp_Status resp \<and>
          prob_Type p = problemBaseURI @ prob_Code p \<and> (''Content-Type'', ''application/problem+json'') \<in> set (rp_Header resp)
      | _ \<Rightarrow> rp_Status resp = 200 \<and> (''Content-Type'', ''application/json'') \<in> set (rp_Header resp))"

lemma wf_writeProblem [simp]: "wf_response (writeProblem hdr rq st code title detail items) \<longleftrightarrow> st \<in> problem_statuses"
  by (auto simp: wf_response_def writeProblem_def)

lemma wf_writeJSON [simp]: "\<not> (\<exists>p. b = BodyProblem p) \<Longrightarrow> wf_response (writeJSON hdr 200 b)"
  by (cases b) (auto simp: wf_response_def writeJSON_def)

lemma status_writeProblem [simp]: "rp_Status (writeProblem hdr rq st code title detail items) = st"
  by (simp add: writeProblem_def)

lemma status_writeJSON [simp]: "rp_Status (writeJSON hdr st b) = st" "rp_Body (writeJSON hdr st b) = b"
  "rp_Header (writeJSON hdr st b) = hdr @ [(''Content-Type'', ''application/json'')]"
  by (simp_all add: writeJSON_def)

text \<open>A handler is well behaved when every answer is well formed.\<close>

definition answers :: "'w handler \<Rightarrow> bool" where
  "answers h \<longleftrightarrow> (\<forall>rq p w. wf_response (fst (h rq p w)))"

lemma answersI: "(\<And>rq p w. wf_response (fst (h rq p w))) \<Longrightarrow> answers h"
  by (simp add: answers_def)

definition auth_statuses :: "'w Server \<Rightarrow> bool" where
  "auth_statuses sv \<longleftrightarrow> (\<forall>m path hdr body w e w'. sv_authn sv m path hdr body w = (Inl e, w') \<longrightarrow> ae_Status e \<in> {401, 403, 503})"

lemma answers_method: "answers h \<Longrightarrow> answers (method_guard m h)"
  by (auto simp: answers_def method_guard_def problem_statuses_def)

lemma answers_authenticate:
  assumes "answers h" and "auth_statuses sv"
  shows "answers (authenticate sv h)"
proof (rule answersI)
  fix rq p w
  show "wf_response (fst (authenticate sv h rq p w))"
  proof (cases "rq_Body rq")
    case (Some body)
    obtain r w1 where a: "sv_authn sv (rq_Method rq) (rq_Path rq) (rq_Header rq) body w = (r, w1)"
      by (cases "sv_authn sv (rq_Method rq) (rq_Path rq) (rq_Header rq) body w")
    show ?thesis
    proof (cases r)
      case (Inl e)
      with a assms(2) have "ae_Status e \<in> {401, 403, 503}" unfolding auth_statuses_def by blast
      then show ?thesis using Some a Inl by (auto simp: authenticate_def problem_statuses_def)
    next
      case (Inr q)
      then show ?thesis using Some a assms(1) by (simp add: authenticate_def problem_statuses_def answers_def)
    qed
  qed (simp add: authenticate_def problem_statuses_def)
qed

lemma wf_noPrincipal [simp]: "wf_response (noPrincipal rq)"
  by (simp add: noPrincipal_def problem_statuses_def)

lemma answers_rateLimit: "answers h \<Longrightarrow> answers (rateLimit sv h)"
  by (auto simp: answers_def rateLimit_def problem_statuses_def case_prod_beta split: option.splits)

lemma answers_handlers:
  "answers (handleAuthorize sv decode)" "answers (handleCapture sv)" "answers (handleVoid sv)"
  "answers (handleGetDecision c sv)" "answers (handleListDecisions c sv)"
proof -
  show "answers (handleAuthorize sv decode)"
    by (auto simp: answers_def handleAuthorize_def authorize_ok_def problem_statuses_def Let_def case_prod_beta
        split: decode_result.split option.split sum.split)
  have err: "wf_response (writeHoldError rq e)" for rq e by (cases e) (simp_all add: problem_statuses_def)
  have tr: "answers (transitionHold sv b)" for b
    by (auto simp: answers_def transitionHold_def problem_statuses_def case_prod_beta err split: option.split sum.split)
  show "answers (handleCapture sv)" "answers (handleVoid sv)" by (simp_all add: handleCapture_def handleVoid_def tr)
  show "answers (handleGetDecision c sv)"
    by (auto simp: answers_def handleGetDecision_def decisionNotFound_def problem_statuses_def split: option.split sum.split)
  show "answers (handleListDecisions c sv)"
    by (auto simp: answers_def handleListDecisions_def problem_statuses_def case_prod_beta split: option.split sum.split)
qed

lemma bearerKey_status: "bearerKey hdr = Inl e \<Longrightarrow> ae_Status e = 401"
  by (auto simp: bearerKey_def errUnauthorized_def Let_def split: if_splits)

lemma parseKey_status: "parseKey c k = Inl e \<Longrightarrow> ae_Status e = 401"
  by (auto simp: parseKey_def errUnauthorized_def Let_def split: if_splits)

lemma verifySignature_status: "verifySignature c sk now m path hdr body k = Some e \<Longrightarrow> ae_Status e = 401"
  by (auto simp: verifySignature_def errUnauthorized_def Let_def split: if_splits option.splits)

lemma Authenticate_status:
  assumes "Authenticate c a clk m path hdr body w = (Inl e, w')"
  shows "ae_Status e \<in> {401, 403, 503}"
  using assms
  by (auto simp: Authenticate_def case_prod_beta errUnauthorized_def errUnavailable_def errForbidden_def errReplay_def
      dest!: bearerKey_status parseKey_status verifySignature_status split: sum.splits option.splits if_splits prod.splits)

lemma prod_auth_statuses: "auth_statuses (prod_server cfg env)"
  unfolding auth_statuses_def
proof (intro allI impI)
  fix m path hdr body w e w'
  assume "sv_authn (prod_server cfg env) m path hdr body w = (Inl e, w')"
  then have "fst (Authenticate (pc_mac cfg) (pc_auth cfg) (pe_now env, pe_now env, pe_now env) m path hdr body (pw_keys w, pw_nonces w)) = Inl e"
    by (simp add: prod_server_def case_prod_beta)
  then show "ae_Status e \<in> {401, 403, 503}" by (metis Authenticate_status prod.collapse)
qed

lemma endpoint_answers:
  "answers h \<Longrightarrow> answers (method_guard m (authenticate (prod_server cfg env) (rateLimit (prod_server cfg env) h)))"
  by (intro answers_method answers_authenticate answers_rateLimit prod_auth_statuses)

lemma endpoint_wf:
  "answers h \<Longrightarrow> wf_response (fst (method_guard m (authenticate (prod_server cfg env) (rateLimit (prod_server cfg env) h)) rq p w))"
  using endpoint_answers unfolding answers_def by blast

lemma responses_ok: "authorize_endpoint (prod_server cfg env) decode rq w = (resp, w') \<Longrightarrow> wf_response resp"
  by (metis authorize_endpoint_def answers_handlers(1) endpoint_wf fst_conv)

section \<open>The stages of an endpoint\<close>

lemma endpoint_stages:
  assumes "method_guard m (authenticate sv (rateLimit sv h)) rq None w = (resp, w')"
  obtains
    (refused) "rp_Status resp \<in> {400, 405, 413}" "w' = w"
  | (unauthenticated) body e where "rq_Body rq = Some body"
      "sv_authn sv (rq_Method rq) (rq_Path rq) (rq_Header rq) body w = (Inl e, w')" "rp_Status resp = ae_Status e"
  | (limited) body prin w1 d where "rq_Body rq = Some body"
      "sv_authn sv (rq_Method rq) (rq_Path rq) (rq_Header rq) body w = (Inr prin, w1)"
      "sv_limiter sv (pr_KeyID prin) (TierTable_Resolve (sv_tiers sv) (pr_Tier prin)) w1 = (Some d, w')"
      "\<not> rl_Allowed d" "rp_Status resp = 429"
  | (handled) body prin w1 lim w2 where "rq_Method rq = m" "rq_Body rq = Some body" "length body \<le> maxBodyBytes"
      "sv_authn sv (rq_Method rq) (rq_Path rq) (rq_Header rq) body w = (Inr prin, w1)"
      "sv_limiter sv (pr_KeyID prin) (TierTable_Resolve (sv_tiers sv) (pr_Tier prin)) w1 = (lim, w2)"
      "\<forall>d. lim = Some d \<longrightarrow> rl_Allowed d" "h rq (Some prin) w2 = (resp, w')"
proof (cases "rq_Method rq = m")
  case m: True
  show ?thesis
  proof (cases "rq_Body rq")
    case None
    then show ?thesis using refused assms m by (auto simp: method_guard_def authenticate_def)
  next
    case (Some body)
    show ?thesis
    proof (cases "length body \<le> maxBodyBytes")
      case len: True
      obtain r w1 where a: "sv_authn sv (rq_Method rq) (rq_Path rq) (rq_Header rq) body w = (r, w1)"
        by (cases "sv_authn sv (rq_Method rq) (rq_Path rq) (rq_Header rq) body w")
      show ?thesis
      proof (cases r)
        case (Inl e)
        then show ?thesis using unauthenticated [of body e] assms m Some len a
          by (auto simp: method_guard_def authenticate_def)
      next
        case (Inr prin)
        obtain lim w2 where l: "sv_limiter sv (pr_KeyID prin) (TierTable_Resolve (sv_tiers sv) (pr_Tier prin)) w1 = (lim, w2)"
          by (cases "sv_limiter sv (pr_KeyID prin) (TierTable_Resolve (sv_tiers sv) (pr_Tier prin)) w1")
        from assms m Some len a Inr have rl: "rateLimit sv h rq (Some prin) w1 = (resp, w')"
          by (simp add: method_guard_def authenticate_def)
        show ?thesis
        proof (cases "\<exists>d. lim = Some d \<and> \<not> rl_Allowed d")
          case True
          then show ?thesis using limited [of body prin w1] Some a Inr l rl by (auto simp: rateLimit_def)
        next
          case False
          then have "h rq (Some prin) w2 = (resp, w')" using rl l by (auto simp: rateLimit_def split: option.splits)
          then show ?thesis using handled [OF m Some len] a Inr l False by blast
        qed
      qed
    next
      case False
      then show ?thesis using refused assms m Some by (auto simp: method_guard_def authenticate_def)
    qed
  qed
next
  case False
  then show ?thesis using refused assms by (auto simp: method_guard_def)
qed

text \<open>What the authentication and the limiter of the production wiring touch.\<close>

definition same_effects :: "'k prod_world \<Rightarrow> 'k prod_world \<Rightarrow> bool" where
  "same_effects w w' \<longleftrightarrow> pw_idem w' = pw_idem w \<and> pw_budget w' = pw_budget w \<and> pw_audit w' = pw_audit w"

lemma authn_effects: "sv_authn (prod_server cfg env) m path hdr body w = (r, w') \<Longrightarrow> same_effects w w'"
  by (auto simp: prod_server_def case_prod_beta same_effects_def)

lemma limiter_effects: "sv_limiter (prod_server cfg env) k lm w = (r, w') \<Longrightarrow> same_effects w w'"
  by (auto simp: prod_server_def case_prod_beta same_effects_def)

lemma same_effects_trans: "same_effects a b \<Longrightarrow> same_effects b c \<Longrightarrow> same_effects a c"
  by (simp add: same_effects_def)

lemma prod_stages:
  assumes "method_guard m (authenticate (prod_server cfg env) (rateLimit (prod_server cfg env) h)) rq None w = (resp, w')"
  obtains
    (stopped) "rp_Status resp \<noteq> 200" "same_effects w w'"
  | (handled) body prin lim w2 where "rq_Method rq = m" "rq_Body rq = Some body" "length body \<le> maxBodyBytes"
      "fst (Authenticate (pc_mac cfg) (pc_auth cfg) (pe_now env, pe_now env, pe_now env) m (rq_Path rq) (rq_Header rq) body
         (pw_keys w, pw_nonces w)) = Inr prin"
      "fst (RedisLimiter_Allow (pe_now env) (pr_KeyID prin) (TierTable_Resolve (pc_tiers cfg) (pr_Tier prin)) (pw_limiter w)) = lim"
      "\<forall>d. lim = Some d \<longrightarrow> rl_Allowed d" "same_effects w w2" "h rq (Some prin) w2 = (resp, w')"
  using assms
proof (cases rule: endpoint_stages)
  case refused
  then show ?thesis using stopped by (auto simp: same_effects_def)
next
  case (unauthenticated body e)
  with prod_auth_statuses [of cfg env] have "rp_Status resp \<noteq> 200" unfolding auth_statuses_def by fastforce
  then show ?thesis using stopped authn_effects [OF unauthenticated(2)] by blast
next
  case (limited body prin w1 d)
  then show ?thesis using stopped authn_effects [OF limited(2)] limiter_effects [OF limited(3)] same_effects_trans by fastforce
next
  case h: (handled body prin w1 lim w2)
  have "fst (Authenticate (pc_mac cfg) (pc_auth cfg) (pe_now env, pe_now env, pe_now env) m (rq_Path rq) (rq_Header rq) body
         (pw_keys w, pw_nonces w)) = Inr prin" "pw_limiter w1 = pw_limiter w"
    using h(1,4) by (auto simp: prod_server_def case_prod_beta)
  moreover have "fst (RedisLimiter_Allow (pe_now env) (pr_KeyID prin) (TierTable_Resolve (pc_tiers cfg) (pr_Tier prin)) (pw_limiter w1)) = lim"
    using h(5) by (auto simp: prod_server_def case_prod_beta)
  moreover have "same_effects w w2" using same_effects_trans [OF authn_effects [OF h(4)] limiter_effects [OF h(5)]] .
  ultimately show ?thesis using handled [OF h(1,2,3) _ _ h(6) _ h(7)] by simp
qed

text \<open>Conversely, a request that passes reaches its handler.\<close>

definition admitted :: "'k prod_config \<Rightarrow> prod_env \<Rightarrow> string \<Rightarrow> http_request \<Rightarrow> Principal \<Rightarrow> 'k prod_world \<Rightarrow> bool" where
  "admitted cfg env m rq prin w \<longleftrightarrow>
     rq_Method rq = m \<and>
     (\<exists>body. rq_Body rq = Some body \<and> length body \<le> maxBodyBytes \<and>
        fst (Authenticate (pc_mac cfg) (pc_auth cfg) (pe_now env, pe_now env, pe_now env) m (rq_Path rq) (rq_Header rq) body
           (pw_keys w, pw_nonces w)) = Inr prin) \<and>
     (\<forall>d. fst (RedisLimiter_Allow (pe_now env) (pr_KeyID prin) (TierTable_Resolve (pc_tiers cfg) (pr_Tier prin)) (pw_limiter w)) = Some d
        \<longrightarrow> rl_Allowed d)"

lemma prod_admits:
  assumes "admitted cfg env m rq prin w"
  obtains w2 where "same_effects w w2"
    "method_guard m (authenticate (prod_server cfg env) (rateLimit (prod_server cfg env) h)) rq None w = h rq (Some prin) w2"
proof -
  from assms obtain body where b: "rq_Method rq = m" "rq_Body rq = Some body" "length body \<le> maxBodyBytes"
    "fst (Authenticate (pc_mac cfg) (pc_auth cfg) (pe_now env, pe_now env, pe_now env) m (rq_Path rq) (rq_Header rq) body
           (pw_keys w, pw_nonces w)) = Inr prin" unfolding admitted_def by blast
  obtain w1 where a: "sv_authn (prod_server cfg env) m (rq_Path rq) (rq_Header rq) body w = (Inr prin, w1)"
    "pw_limiter w1 = pw_limiter w"
    using b(4) by (simp add: prod_server_def case_prod_beta)
  obtain lim w2 where l: "sv_limiter (prod_server cfg env) (pr_KeyID prin) (TierTable_Resolve (pc_tiers cfg) (pr_Tier prin)) w1 = (lim, w2)"
    by (cases "sv_limiter (prod_server cfg env) (pr_KeyID prin) (TierTable_Resolve (pc_tiers cfg) (pr_Tier prin)) w1")
  then have "fst (RedisLimiter_Allow (pe_now env) (pr_KeyID prin) (TierTable_Resolve (pc_tiers cfg) (pr_Tier prin)) (pw_limiter w)) = lim"
    using a(2) by (auto simp: prod_server_def case_prod_beta)
  with assms have ok: "\<forall>d. lim = Some d \<longrightarrow> rl_Allowed d" unfolding admitted_def by blast
  have t: "sv_tiers (prod_server cfg env) = pc_tiers cfg" by (simp add: prod_server_def)
  have "rateLimit (prod_server cfg env) h rq (Some prin) w1 = h rq (Some prin) w2"
    using l ok by (auto simp: rateLimit_def t split: option.splits)
  then have "method_guard m (authenticate (prod_server cfg env) (rateLimit (prod_server cfg env) h)) rq None w = h rq (Some prin) w2"
    using b a(1) by (simp add: method_guard_def authenticate_def)
  with same_effects_trans [OF authn_effects [OF a(1)] limiter_effects [OF l]] show ?thesis by (rule that)
qed

section \<open>The authorize handler\<close>

lemma handleAuthorize_cases:
  assumes "handleAuthorize sv decode rq (Some prin) w = (resp, w')" and "rq_Body rq = Some body"
  obtains
    (invalid) "rp_Status resp \<in> {400, 413}" "w' = w"
  | (valid) req where "decode body = Decoded req False" "validateAuthorizeRequest req = []"
      "authorize_ok sv rq (Some prin) (req\<lparr>req_EvaluatedAt := []\<rparr>) w = (resp, w')"
  using assms by (auto simp: handleAuthorize_def Let_def split: decode_result.splits if_splits)

lemma authorize_ok_cases:
  assumes "authorize_ok (prod_server cfg env) rq (Some prin) req w = (resp, w')"
  obtains
    (replay) dec where "idempotentReplay (prod_server cfg env) (Some prin) req w = Some dec"
      "resp = writeJSON [(''X-Decision-Id'', dec_DecisionID dec), (''X-Idempotent-Replay'', ''true'')] 200 (BodyDecision dec)" "w' = w"
  | (failed) err b where "idempotentReplay (prod_server cfg env) (Some prin) req w = None"
      "Authorize (pc_crypto cfg) (pe_now env) (pe_now env) (pe_elapsed env) (pe_decID env) (pc_engine cfg (pe_now env))
         (pr_OrgID prin) req (pr_Shadow prin) (pw_budget w) = (Inl err, b)"
      "rp_Status resp = 503" "w' = w\<lparr>pw_budget := b\<rparr>"
  | (fresh) dec b where "idempotentReplay (prod_server cfg env) (Some prin) req w = None"
      "Authorize (pc_crypto cfg) (pe_now env) (pe_now env) (pe_elapsed env) (pe_decID env) (pc_engine cfg (pe_now env))
         (pr_OrgID prin) req (pr_Shadow prin) (pw_budget w) = (Inr dec, b)"
      "resp = writeJSON ((''X-Decision-Id'', dec_DecisionID dec) # (if dec_Shadow dec then [(''X-Shadow'', ''true'')] else []))
         200 (BodyDecision dec)"
      "w' = enqueueAudit (prod_server cfg env) (Some prin) req dec
         (saveIdempotent (prod_server cfg env) (Some prin) req dec (w\<lparr>pw_budget := b\<rparr>))"
proof (cases "idempotentReplay (prod_server cfg env) (Some prin) req w")
  case (Some dec)
  with assms have "resp = writeJSON [(''X-Decision-Id'', dec_DecisionID dec), (''X-Idempotent-Replay'', ''true'')] 200 (BodyDecision dec)"
    "w' = w" by (simp_all add: authorize_ok_def)
  with Some show ?thesis by (rule replay)
next
  case None
  obtain r b where a: "Authorize (pc_crypto cfg) (pe_now env) (pe_now env) (pe_elapsed env) (pe_decID env) (pc_engine cfg (pe_now env))
         (pr_OrgID prin) req (pr_Shadow prin) (pw_budget w) = (r, b)"
    by (cases "Authorize (pc_crypto cfg) (pe_now env) (pe_now env) (pe_elapsed env) (pe_decID env) (pc_engine cfg (pe_now env))
         (pr_OrgID prin) req (pr_Shadow prin) (pw_budget w)")
  have z: "sv_authz (prod_server cfg env) (pr_OrgID prin) req (pr_Shadow prin) w = (r, w\<lparr>pw_budget := b\<rparr>)"
    by (simp add: prod_server_def on_budget_def a)
  show ?thesis
  proof (cases r)
    case (Inl err)
    with assms None z have "rp_Status resp = 503" "w' = w\<lparr>pw_budget := b\<rparr>" by (auto simp: authorize_ok_def)
    with None a Inl show ?thesis by (intro failed) simp_all
  next
    case (Inr dec)
    with assms None z have "resp = writeJSON ((''X-Decision-Id'', dec_DecisionID dec) # (if dec_Shadow dec then [(''X-Shadow'', ''true'')] else []))
         200 (BodyDecision dec)"
      "w' = enqueueAudit (prod_server cfg env) (Some prin) req dec
         (saveIdempotent (prod_server cfg env) (Some prin) req dec (w\<lparr>pw_budget := b\<rparr>))"
      by (simp_all add: authorize_ok_def Let_def)
    with None a Inr show ?thesis by (intro fresh) simp_all
  qed
qed

section \<open>Idempotency\<close>

lemma replay_prod:
  "idempotentReplay (prod_server cfg env) (Some prin) req w =
     (if req_IdempotencyKey req = [] then None
      else case RedisIdem_Lookup (pe_now env) (pr_OrgID prin) (req_IdempotencyKey req) (pw_idem w) of Inl _ \<Rightarrow> None | Inr h \<Rightarrow> h)"
  by (simp add: idempotentReplay_def prod_server_def)

lemma enqueue_idem [simp]: "pw_idem (enqueueAudit (prod_server cfg env) p req dec w) = pw_idem w"
  by (simp add: enqueueAudit_def prod_server_def Let_def split: option.split)

lemma save_prod:
  "req_IdempotencyKey req \<noteq> [] \<Longrightarrow> pw_idem (saveIdempotent (prod_server cfg env) (Some prin) req dec w) =
     snd (RedisIdem_Save (pe_now env) (pr_OrgID prin) (req_IdempotencyKey req) dec (pw_idem w))"
  by (simp add: saveIdempotent_def prod_server_def case_prod_beta)

lemma valid_key: "validateAuthorizeRequest req = [] \<Longrightarrow> req_IdempotencyKey req \<noteq> []"
  by (auto simp: validateAuthorizeRequest_def item_def split: if_splits)

text \<open>While Redis does not answer, no retry is recognised: every call is evaluated, and reserves, anew.\<close>

lemma outage_reevaluates: "\<not> ri_up (pw_idem w) \<Longrightarrow> idempotentReplay (prod_server cfg env) p req w = None"
  by (cases p) (simp_all add: idempotentReplay_def prod_server_def RedisIdem_Lookup_def)

text \<open>The idempotency cache after an authorize call: unchanged, or with the fresh decision saved.\<close>

lemma authorize_idem:
  assumes "authorize_endpoint (prod_server cfg env) decode rq w = (resp, w')"
  obtains (kept) "pw_idem w' = pw_idem w"
  | (saved) prin :: Principal and req :: AuthorizeRequest and dec where "rp_Body resp = BodyDecision dec" "req_IdempotencyKey req \<noteq> []"
      "\<forall>d. RedisIdem_Lookup (pe_now env) (pr_OrgID prin) (req_IdempotencyKey req) (pw_idem w) \<noteq> Inr (Some d)"
      "pw_idem w' = snd (RedisIdem_Save (pe_now env) (pr_OrgID prin) (req_IdempotencyKey req) dec (pw_idem w))"
  using assms [unfolded authorize_endpoint_def]
proof (cases rule: prod_stages)
  case stopped
  then show ?thesis using kept by (simp add: same_effects_def)
next
  case h: (handled body prin lim w2)
  then have i: "pw_idem w2 = pw_idem w" by (simp add: same_effects_def)
  from h(8,2) show ?thesis
  proof (cases rule: handleAuthorize_cases)
    case invalid
    then show ?thesis using kept i by simp
  next
    case (valid req)
    let ?r = "req\<lparr>req_EvaluatedAt := []\<rparr>"
    from valid(3) show ?thesis
    proof (cases rule: authorize_ok_cases)
      case (fresh dec b)
      have k: "req_IdempotencyKey ?r \<noteq> []" using valid_key [OF valid(2)] by simp
      with fresh(1) i have "\<forall>d. RedisIdem_Lookup (pe_now env) (pr_OrgID prin) (req_IdempotencyKey ?r) (pw_idem w) \<noteq> Inr (Some d)"
        by (auto simp: replay_prod)
      moreover have "pw_idem w' = snd (RedisIdem_Save (pe_now env) (pr_OrgID prin) (req_IdempotencyKey ?r) dec (pw_idem w))"
        using fresh(4) by (simp add: save_prod [OF k, simplified] i)
      ultimately show ?thesis using saved [OF _ k] fresh(3) by simp
    qed (use kept i in simp_all)
  qed
qed

lemma lookup_same_key:
  "idem_key org k = idem_key org' k' \<Longrightarrow> RedisIdem_Lookup t org k s = RedisIdem_Lookup t org' k' s"
  by (simp add: RedisIdem_Lookup_def)

text \<open>The first call saves its decision; a call whose lookup hits replays it.\<close>

lemma authorize_reached:
  assumes "authorize_endpoint (prod_server cfg env) decode rq w = (resp, w')" and "rp_Status resp = 200"
    and "rq_Body rq = Some body" and "decode body = Decoded req more_input"
    and "fst (Authenticate (pc_mac cfg) (pc_auth cfg) (pe_now env, pe_now env, pe_now env) ''POST'' (rq_Path rq) (rq_Header rq) body
           (pw_keys w, pw_nonces w)) = Inr prin"
  obtains v where "same_effects w v" "req_IdempotencyKey req \<noteq> []"
    "authorize_ok (prod_server cfg env) rq (Some prin) (req\<lparr>req_EvaluatedAt := []\<rparr>) v = (resp, w')"
  using assms(1) [unfolded authorize_endpoint_def]
proof (cases rule: prod_stages)
  case h: (handled b q lim v)
  with assms(3,5) have q: "q = prin" "b = body" by auto
  from h(8,2) show ?thesis
  proof (cases rule: handleAuthorize_cases)
    case (valid r)
    with assms(4) q have "r = req" by simp
    with that [of v] valid h(7) q valid_key [OF valid(2)] show ?thesis by simp
  qed (use assms(2) in auto)
qed (use assms(2) in simp)

lemma decision_status: "wf_response resp \<Longrightarrow> rp_Body resp = BodyDecision d \<Longrightarrow> rp_Status resp = 200"
  by (simp add: wf_response_def)

lemma authorize_saves:
  assumes run: "authorize_endpoint (prod_server cfg env) decode rq w = (resp, w')" "rp_Body resp = BodyDecision d"
    and rq: "rq_Body rq = Some body" "decode body = Decoded req more_input"
    and prin: "fst (Authenticate (pc_mac cfg) (pc_auth cfg) (pe_now env, pe_now env, pe_now env) ''POST'' (rq_Path rq) (rq_Header rq) body
           (pw_keys w, pw_nonces w)) = Inr prin"
    and miss: "RedisIdem_Lookup (pe_now env) (pr_OrgID prin) (req_IdempotencyKey req) (pw_idem w) = Inr None"
  shows "pw_idem w' = snd (RedisIdem_Save (pe_now env) (pr_OrgID prin) (req_IdempotencyKey req) d (pw_idem w))"
proof -
  from authorize_reached [OF run(1) decision_status [OF responses_ok [OF run(1)] run(2)] rq prin]
  obtain v where v: "same_effects w v" "req_IdempotencyKey req \<noteq> []"
    "authorize_ok (prod_server cfg env) rq (Some prin) (req\<lparr>req_EvaluatedAt := []\<rparr>) v = (resp, w')" .
  then have i: "pw_idem v = pw_idem w" by (simp add: same_effects_def)
  from v(3) show ?thesis
  proof (cases rule: authorize_ok_cases)
    case (replay dec)
    then show ?thesis using miss i v(2) by (simp add: replay_prod)
  next
    case (failed err b)
    then show ?thesis using decision_status [OF responses_ok [OF run(1)] run(2)] by simp
  next
    case (fresh dec b)
    then have "dec = d" using run(2) by simp
    with fresh(4) i v(2) show ?thesis by (simp add: save_prod)
  qed
qed

lemma authorize_replays:
  assumes run: "authorize_endpoint (prod_server cfg env) decode rq w = (resp, w')" "rp_Status resp = 200"
    and rq: "rq_Body rq = Some body" "decode body = Decoded req more_input"
    and prin: "fst (Authenticate (pc_mac cfg) (pc_auth cfg) (pe_now env, pe_now env, pe_now env) ''POST'' (rq_Path rq) (rq_Header rq) body
           (pw_keys w, pw_nonces w)) = Inr prin"
    and found: "RedisIdem_Lookup (pe_now env) (pr_OrgID prin) (req_IdempotencyKey req) (pw_idem w) = Inr (Some d)"
  shows "rp_Body resp = BodyDecision d \<and> (''X-Idempotent-Replay'', ''true'') \<in> set (rp_Header resp) \<and> same_effects w w'"
proof -
  from authorize_reached [OF run rq prin] obtain v where v: "same_effects w v" "req_IdempotencyKey req \<noteq> []"
    "authorize_ok (prod_server cfg env) rq (Some prin) (req\<lparr>req_EvaluatedAt := []\<rparr>) v = (resp, w')" .
  then have "idempotentReplay (prod_server cfg env) (Some prin) (req\<lparr>req_EvaluatedAt := []\<rparr>) v = Some d"
    using found by (simp add: replay_prod same_effects_def)
  with v show ?thesis by (auto simp: authorize_ok_def)
qed

text \<open>Any activity of the service before the time \<open>x\<close>: authorize calls one after the other, the late save of a call that
  overlaps others, which missed the cache before, under another cache key than \<open>k\<close>, outages of the cache, and everything else,
  which does not touch the cache. Overlapping calls under the same key are left out: both may miss and
  each issue a decision, as the package comment says.\<close>

inductive api_step :: "'k prod_config \<Rightarrow> (string \<Rightarrow> decode_result) \<Rightarrow> gotime \<Rightarrow> string \<Rightarrow> 'k prod_world \<Rightarrow> 'k prod_world \<Rightarrow> bool"
  for cfg decode x k where
  authorize: "pe_now env < x \<Longrightarrow> authorize_endpoint (prod_server cfg env) decode rq w = (resp, w') \<Longrightarrow> api_step cfg decode x k w w'"
| overlapped: "idem_key org' k' \<noteq> k \<Longrightarrow> pw_idem w' = snd (RedisIdem_Save t org' k' d' (pw_idem w)) \<Longrightarrow> api_step cfg decode x k w w'"
| outage: "pw_idem w' = (pw_idem w)\<lparr>ri_up := b\<rparr> \<Longrightarrow> api_step cfg decode x k w w'"
| settle: "hold_endpoint (prod_server cfg env) b rq w = (resp, w') \<Longrightarrow> api_step cfg decode x k w w'"
| get: "get_endpoint c (prod_server cfg env) rq w = (resp, w') \<Longrightarrow> api_step cfg decode x k w w'"
| list: "list_endpoint c (prod_server cfg env) rq w = (resp, w') \<Longrightarrow> api_step cfg decode x k w w'"
| others: "pw_idem w' = pw_idem w \<Longrightarrow> api_step cfg decode x k w w'"

lemma read_handlers_keep:
  "handleGetDecision c sv rq p w = (resp, w') \<Longrightarrow> w' = w" "handleListDecisions c sv rq p w = (resp, w') \<Longrightarrow> w' = w"
  by (auto simp: handleGetDecision_def handleListDecisions_def case_prod_beta split: option.splits if_splits sum.splits)

lemma transition_idem: "transitionHold (prod_server cfg env) b rq p w = (resp, w') \<Longrightarrow> pw_idem w' = pw_idem w"
  by (auto simp: transitionHold_def prod_server_def on_budget_def case_prod_beta split: option.splits if_splits sum.splits)

lemma settle_idem:
  assumes "hold_endpoint (prod_server cfg env) b rq w = (resp, w')"
  shows "pw_idem w' = pw_idem w"
  using assms [unfolded hold_endpoint_def]
proof (cases rule: prod_stages)
  case h: (handled body prin lim w2)
  then have "pw_idem w' = pw_idem w2" by (cases b) (simp_all add: handleCapture_def handleVoid_def transition_idem)
  with h show ?thesis by (simp add: same_effects_def)
qed (simp add: same_effects_def)

lemma read_effects:
  assumes "(h = handleGetDecision c (prod_server cfg env) \<or> h = handleListDecisions c (prod_server cfg env))"
    and "method_guard m (authenticate (prod_server cfg env) (rateLimit (prod_server cfg env) h)) rq None w = (resp, w')"
  shows "same_effects w w'"
  using assms(2)
proof (cases rule: prod_stages)
  case (handled body prin lim w2)
  with assms(1) read_handlers_keep have "w' = w2" by metis
  with handled show ?thesis by simp
qed

lemma authorize_up:
  assumes "authorize_endpoint (prod_server cfg env) decode rq w = (resp, w')"
  shows "ri_up (pw_idem w') = ri_up (pw_idem w)"
  using assms by (cases rule: authorize_idem) (auto simp: RedisIdem_Save_def)

lemma api_step_cached:
  assumes "api_step cfg decode x (idem_key org k) w w'" and "redis_cached (pw_idem w) org k d x"
  shows "redis_cached (pw_idem w') org k d x"
  using assms(1)
proof cases
  case (authorize env rq resp)
  from authorize(2) show ?thesis
  proof (cases rule: authorize_idem)
    case kept
    then show ?thesis using assms(2) by simp
  next
    case (saved prin req dec)
    obtain e i where sv: "RedisIdem_Save (pe_now env) (pr_OrgID prin) (req_IdempotencyKey req) dec (pw_idem w) = (e, i)"
      by (cases "RedisIdem_Save (pe_now env) (pr_OrgID prin) (req_IdempotencyKey req) dec (pw_idem w)")
    show ?thesis
    proof (cases "ri_up (pw_idem w)")
      case True
      have "idem_key (pr_OrgID prin) (req_IdempotencyKey req) \<noteq> idem_key org k"
      proof
        assume "idem_key (pr_OrgID prin) (req_IdempotencyKey req) = idem_key org k"
        from lookup_same_key [OF this] redis_idem.cached_hit [OF assms(2) authorize(1) True] saved(3) show False by metis
      qed
      from redis_idem.save_other [OF assms(2) sv this] saved(4) sv show ?thesis by simp
    qed (use assms(2) saved(4) in \<open>simp add: RedisIdem_Save_def\<close>)
  qed
next
  case (overlapped org' k' t d')
  then show ?thesis using redis_idem.save_other [OF assms(2), of t org' k' d'] by (simp add: prod_eq_iff)
next
  case (outage b)
  then show ?thesis using assms(2) by (simp add: redis_cached_def)
next
  case (settle env b rq resp)
  then show ?thesis using settle_idem assms(2) by metis
next
  case (get c env rq resp)
  then show ?thesis using read_effects [OF disjI1 [OF refl] get(1) [unfolded get_endpoint_def]] assms(2) by (simp add: same_effects_def)
next
  case (list c env rq resp)
  then show ?thesis using read_effects [OF disjI2 [OF refl] list(1) [unfolded list_endpoint_def]] assms(2) by (simp add: same_effects_def)
qed (use assms(2) in simp)

lemma api_steps_cached:
  assumes "(api_step cfg decode x (idem_key org k))\<^sup>*\<^sup>* w w'" and "redis_cached (pw_idem w) org k d x"
  shows "redis_cached (pw_idem w') org k d x"
  using assms(1)
proof (induction rule: rtranclp_induct)
  case (step y z)
  with api_step_cached [OF step.hyps(2)] show ?case by blast
qed (use assms in simp)

section \<open>From the decision to the log and back\<close>

lemma signed_view_stored: "signed_view (d\<lparr>dec_RecordHash := h, dec_SignatureVerified := v\<rparr>) = signed_view d"
  by (simp add: signed_view_def)

lemma save_audit [simp]: "pw_audit (saveIdempotent (prod_server cfg env) p req dec w) = pw_audit w"
  by (simp add: saveIdempotent_def prod_server_def case_prod_beta split: option.split)

lemma enqueue_prod:
  assumes "\<not> aq_closed (pw_audit w)" and "length (aq_ch (pw_audit w)) < aq_size (pw_audit w)"
  shows "aq_ch (pw_audit (enqueueAudit (prod_server cfg env) (Some prin) req dec w)) = aq_ch (pw_audit w) @
     [(RecordFromDecision (pr_OrgID prin) (pr_KeyID prin) req dec)\<lparr>ar_RetainUntil := pe_now env + pc_retention cfg (pr_Tier prin)\<rparr>]"
  using assms by (simp add: enqueueAudit_def prod_server_def Enqueue_def Let_def)

text \<open>A decision that is not a replay came from the engine, and its record is queued.\<close>

lemma authorize_queues:
  assumes run: "authorize_endpoint (prod_server cfg env) decode rq w = (resp, w')" "rp_Body resp = BodyDecision d"
    "(''X-Idempotent-Replay'', ''true'') \<notin> set (rp_Header resp)"
    and room: "\<not> aq_closed (pw_audit w)" "length (aq_ch (pw_audit w)) < aq_size (pw_audit w)"
  obtains prin :: Principal and req u b b' where
    "Authorize (pc_crypto cfg) (pe_now env) (pe_now env) (pe_elapsed env) (pe_decID env) (pc_engine cfg (pe_now env))
         (pr_OrgID prin) req (pr_Shadow prin) b = (Inr d, b')"
    "aq_ch (pw_audit w') = aq_ch (pw_audit w) @ [(RecordFromDecision (pr_OrgID prin) (pr_KeyID prin) req d)\<lparr>ar_RetainUntil := u\<rparr>]"
    "\<exists>body. rq_Body rq = Some body \<and> fst (Authenticate (pc_mac cfg) (pc_auth cfg) (pe_now env, pe_now env, pe_now env) ''POST''
       (rq_Path rq) (rq_Header rq) body (pw_keys w, pw_nonces w)) = Inr prin"
  using run(1) [unfolded authorize_endpoint_def]
proof (cases rule: prod_stages)
  case stopped
  then show ?thesis using decision_status [OF responses_ok [OF run(1)] run(2)] by simp
next
  case h: (handled body prin lim v)
  have i: "pw_audit v = pw_audit w" using h(7) by (simp add: same_effects_def)
  from h(8,2) show ?thesis
  proof (cases rule: handleAuthorize_cases)
    case invalid
    then show ?thesis using decision_status [OF responses_ok [OF run(1)] run(2)] by auto
  next
    case (valid req)
    from valid(3) show ?thesis
    proof (cases rule: authorize_ok_cases)
      case (fresh dec b)
      then have "dec = d" using run(2) by simp
      have "aq_ch (pw_audit w') = aq_ch (pw_audit w) @
          [(RecordFromDecision (pr_OrgID prin) (pr_KeyID prin) (req\<lparr>req_EvaluatedAt := []\<rparr>) d)
             \<lparr>ar_RetainUntil := pe_now env + pc_retention cfg (pr_Tier prin)\<rparr>]"
        using fresh(4) room \<open>dec = d\<close> i by (simp add: enqueue_prod)
      with fresh(2) [unfolded \<open>dec = d\<close>] show ?thesis by (rule that) (use h(1,2,4) in blast)
    qed (use run decision_status [OF responses_ok [OF run(1)] run(2)] in auto)
  qed
qed

lemma get_reads:
  assumes "admitted cfg env ''GET'' rq prin w" and "reULID (rq_PathID rq)"
    and "PgAudit_Get (pc_enc cfg) (pr_OrgID prin) (rq_PathID rq) (aq_store (pw_audit w)) = Inr rec"
  shows "\<exists>w'. get_endpoint c (prod_server cfg env) rq w =
    (writeJSON [] 200 (BodyDecision (Record_Decision rec
       (VerifyDecision (pc_crypto cfg) (pc_keyring cfg) (Record_Decision rec False) = None \<and> VerifyChainLink c rec = Inr True))), w')"
proof -
  from prod_admits [OF assms(1)] obtain w2 where w2: "same_effects w w2"
    and g: "get_endpoint c (prod_server cfg env) rq w = handleGetDecision c (prod_server cfg env) rq (Some prin) w2"
    unfolding get_endpoint_def by blast
  from w2 have "pw_audit w2 = pw_audit w" by (simp add: same_effects_def)
  with assms(2,3) show ?thesis unfolding g
    by (simp add: handleGetDecision_def prod_server_def verifyRecord_def)
qed

section \<open>An example\<close>

definition demo_cfg :: "MemKeyStore prod_config" where
  "demo_cfg = \<lparr>pc_mac = demo_mac, pc_crypto = demo_crypto, pc_auth = demo_redis_auth,
     pc_tiers = [(''pro'', \<lparr>lim_PerMinute = 0, lim_PerSecond = 0\<rparr>)],
     pc_engine = (\<lambda>_. WithSigner (NewEngine demo_policy ''key-1'') demo_signer), pc_keyring = demo_keyring,
     pc_enc = demo_enc, pc_retention = (\<lambda>_. 0), pc_holdTTL = 0\<rparr>"

definition demo_env :: "gotime \<Rightarrow> prod_env" where
  "demo_env t = \<lparr>pe_now = unixToInternal * ns_second + t, pe_elapsed = 0, pe_decID = ''01ARZ3NDEKTSV4RRFFQ69G5FAV'',
     pe_clk = (0, 0), pe_ns = demo_nonces\<rparr>"

definition demo_pw :: "MemKeyStore prod_world" where
  "demo_pw = \<lparr>pw_keys = fst demo_world, pw_nonces = \<lparr>rn_up = True, rn_keys = (\<lambda>_. None)\<rparr>,
     pw_limiter = \<lparr>rlr_up = True, rlr_keys = (\<lambda>_. None)\<rparr>, pw_idem = NewRedisIdem 0,
     pw_budget = \<lparr>bw_counter = \<lparr>rc_up = True, rc_keys = []\<rparr>, bw_holds = \<lparr>pg_rows = [], pg_sched = []\<rparr>\<rparr>,
     pw_audit = NewWriter NewPgAudit 1\<rparr>"

definition demo_rq :: "string \<Rightarrow> string \<Rightarrow> http_request" where
  "demo_rq m path = \<lparr>rq_Method = m, rq_Path = path, rq_Header = demo_header, rq_Body = Some ''{}'',
     rq_PathID = ''01ARZ3NDEKTSV4RRFFQ69G5FAV'', rq_Query = [], rq_ID = ''r1''\<rparr>"

definition demo_decode :: "string \<Rightarrow> decode_result" where
  "demo_decode body = Decoded (demo_request ''shop'') False"

lemma demo_admitted:
  assumes "pw_keys w = fst demo_world" and "pw_nonces w = \<lparr>rn_up = True, rn_keys = (\<lambda>_. None)\<rparr>" and "\<bar>t\<bar> \<le> 5 * ns_minute"
  shows "admitted demo_cfg (demo_env t) m (demo_rq m path) (principal_of demo_stored) w"
    "fst (Authenticate (pc_mac demo_cfg) (pc_auth demo_cfg) (pe_now (demo_env t), pe_now (demo_env t), pe_now (demo_env t)) m path
       demo_header ''{}'' (pw_keys w, pw_nonces w)) = Inr (principal_of demo_stored)"
proof -
  have "Authenticate demo_mac demo_redis_auth (pe_now (demo_env t), pe_now (demo_env t), pe_now (demo_env t)) m path
       demo_header ''{}'' (pw_keys w, pw_nonces w) =
     (Inr (principal_of demo_stored), pw_keys w, snd (RedisNonce_Remember (pe_now (demo_env t)) ''azn_live_6868686868686868'' ''nonce-01''
        (10 * ns_minute) (pw_nonces w)))"
    by (rule demo_accept)
       (use assms in \<open>simp_all add: demo_redis_auth_simps RedisNonce_Remember_def demo_lookup demo_env_def Let_def\<close>)
  then show a: "fst (Authenticate (pc_mac demo_cfg) (pc_auth demo_cfg) (pe_now (demo_env t), pe_now (demo_env t), pe_now (demo_env t)) m path
       demo_header ''{}'' (pw_keys w, pw_nonces w)) = Inr (principal_of demo_stored)"
    by (simp add: demo_cfg_def)
  have "TierTable_Resolve (pc_tiers demo_cfg) (pr_Tier (principal_of demo_stored)) = \<lparr>lim_PerMinute = 0, lim_PerSecond = 0\<rparr>"
    by (simp add: demo_cfg_def TierTable_Resolve_def principal_of_def demo_stored_def)
  then show "admitted demo_cfg (demo_env t) m (demo_rq m path) (principal_of demo_stored) w"
    using a by (auto simp: admitted_def demo_rq_def maxBodyBytes_def RedisLimiter_Allow_def rl_window_def rl_allow_def)
qed

lemma demo_valid: "validateAuthorizeRequest (demo_request ''shop'') = []"
  by (simp add: validateAuthorizeRequest_def demo_request_def item_def reMoney_def reCurrency_def is_digit_def is_upper_def)

lemma demo_ulid: "reULID ''01ARZ3NDEKTSV4RRFFQ69G5FAV''"
  by (simp add: reULID_def is_digit_def is_upper_def)

lemma demo_authorizes:
  "\<exists>d b'. Authorize demo_crypto t1 t2 el i (pc_engine demo_cfg t) org req sh b = (Inr d, b')"
  by (rule Authorize_returns [of _ org b demo_policy b])
     (simp_all add: demo_cfg_def resolve_policy_def WithSigner_def NewEngine_def demo_sign)

text \<open>With admitted requests and an empty entry in the cache, a fresh decision is issued.\<close>

lemma demo_issue:
  assumes "pw_keys w = fst demo_world" and "pw_nonces w = \<lparr>rn_up = True, rn_keys = (\<lambda>_. None)\<rparr>" and "\<bar>t\<bar> \<le> 5 * ns_minute"
    and "RedisIdem_Lookup (pe_now (demo_env t)) ''org'' ''idem-0001'' (pw_idem w) = Inr None"
  obtains d hdr w' where "authorize_endpoint (prod_server demo_cfg (demo_env t)) demo_decode (demo_rq ''POST'' ''/v1/authorize'') w =
      (writeJSON hdr 200 (BodyDecision d), w')" "(''X-Idempotent-Replay'', ''true'') \<notin> set hdr" "dec_DecisionID d = ''01ARZ3NDEKTSV4RRFFQ69G5FAV''"
proof -
  let ?sv = "prod_server demo_cfg (demo_env t)" and ?r = "(demo_request ''shop'')\<lparr>req_EvaluatedAt := []\<rparr>"
  from prod_admits [OF demo_admitted(1) [where m = "''POST''" and path = "''/v1/authorize''", OF assms(1-3)],
      where h = "handleAuthorize ?sv demo_decode"]
  obtain w2 where w2: "same_effects w w2"
    and e: "authorize_endpoint ?sv demo_decode (demo_rq ''POST'' ''/v1/authorize'') w =
      authorize_ok ?sv (demo_rq ''POST'' ''/v1/authorize'') (Some (principal_of demo_stored)) ?r w2"
    by (auto simp: authorize_endpoint_def handleAuthorize_def demo_decode_def demo_valid Let_def)
  obtain d b where a: "Authorize demo_crypto (pe_now (demo_env t)) (pe_now (demo_env t)) (pe_elapsed (demo_env t)) (pe_decID (demo_env t))
      (pc_engine demo_cfg (pe_now (demo_env t))) ''org'' ?r True (pw_budget w2) = (Inr d, b)"
    using demo_authorizes by blast
  have id: "dec_DecisionID d = ''01ARZ3NDEKTSV4RRFFQ69G5FAV''"
    using a by (rule Authorize_Inr) (simp add: demo_env_def)
  have p: "pr_OrgID (principal_of demo_stored) = ''org''" "pr_Shadow (principal_of demo_stored)" by (simp_all add: principal_of_def demo_stored_def)
  have "idempotentReplay ?sv (Some (principal_of demo_stored)) ?r w2 = None"
    using assms(4) w2 by (simp add: replay_prod p same_effects_def demo_request_def)
  moreover have "sv_authz ?sv ''org'' ?r True w2 = (Inr d, w2\<lparr>pw_budget := b\<rparr>)"
    using a by (simp add: prod_server_def on_budget_def demo_cfg_def)
  ultimately show ?thesis using id e p that
    by (simp add: authorize_ok_def Let_def)
qed

lemma demo_answered:
  assumes "pw_keys w = fst demo_world" and "pw_nonces w = \<lparr>rn_up = True, rn_keys = (\<lambda>_. None)\<rparr>" and "\<bar>t\<bar> \<le> 5 * ns_minute"
  shows "rp_Status (fst (authorize_endpoint (prod_server demo_cfg (demo_env t)) demo_decode (demo_rq ''POST'' ''/v1/authorize'') w)) = 200"
proof -
  let ?sv = "prod_server demo_cfg (demo_env t)" and ?r = "(demo_request ''shop'')\<lparr>req_EvaluatedAt := []\<rparr>"
  from prod_admits [OF demo_admitted(1) [where m = "''POST''" and path = "''/v1/authorize''", OF assms],
      where h = "handleAuthorize ?sv demo_decode"]
  obtain w2 where e: "authorize_endpoint ?sv demo_decode (demo_rq ''POST'' ''/v1/authorize'') w =
      authorize_ok ?sv (demo_rq ''POST'' ''/v1/authorize'') (Some (principal_of demo_stored)) ?r w2"
    by (auto simp: authorize_endpoint_def handleAuthorize_def demo_decode_def demo_valid Let_def)
  obtain d b where "Authorize demo_crypto (pe_now (demo_env t)) (pe_now (demo_env t)) (pe_elapsed (demo_env t)) (pe_decID (demo_env t))
      (pc_engine demo_cfg (pe_now (demo_env t))) (pr_OrgID (principal_of demo_stored)) ?r (pr_Shadow (principal_of demo_stored)) (pw_budget w2) = (Inr d, b)"
    using demo_authorizes by blast
  then have "\<exists>w'. sv_authz ?sv (pr_OrgID (principal_of demo_stored)) ?r (pr_Shadow (principal_of demo_stored)) w2 = (Inr d, w')"
    by (simp add: prod_server_def on_budget_def demo_cfg_def)
  then show ?thesis unfolding e by (auto simp: authorize_ok_def Let_def split: option.split)
qed

lemma demo_queued:
  assumes "authorize_endpoint (prod_server demo_cfg (demo_env 0)) demo_decode (demo_rq ''POST'' ''/v1/authorize'') demo_pw =
      (writeJSON hdr 200 (BodyDecision d), w')" and "(''X-Idempotent-Replay'', ''true'') \<notin> set hdr"
  shows "verdict_ok (ar_Verdict (last (aq_ch (pw_audit w')))) \<and> ar_OrgID (last (aq_ch (pw_audit w'))) = ''org''"
proof -
  have room: "\<not> aq_closed (pw_audit demo_pw)" "length (aq_ch (pw_audit demo_pw)) < aq_size (pw_audit demo_pw)"
    by (simp_all add: demo_pw_def NewWriter_def)
  have "rp_Body (writeJSON hdr 200 (BodyDecision d)) = BodyDecision d"
    "(''X-Idempotent-Replay'', ''true'') \<notin> set (rp_Header (writeJSON hdr 200 (BodyDecision d)))" using assms(2) by simp_all
  with assms(1) obtain prin :: Principal and req u b b' where
    run: "Authorize (pc_crypto demo_cfg) (pe_now (demo_env 0)) (pe_now (demo_env 0)) (pe_elapsed (demo_env 0)) (pe_decID (demo_env 0))
        (pc_engine demo_cfg (pe_now (demo_env 0))) (pr_OrgID prin) req (pr_Shadow prin) b = (Inr d, b')"
    and q: "aq_ch (pw_audit w') = aq_ch (pw_audit demo_pw) @ [(RecordFromDecision (pr_OrgID prin) (pr_KeyID prin) req d)\<lparr>ar_RetainUntil := u\<rparr>]"
    and p: "\<exists>body. rq_Body (demo_rq ''POST'' ''/v1/authorize'') = Some body \<and> fst (Authenticate (pc_mac demo_cfg) (pc_auth demo_cfg)
       (pe_now (demo_env 0), pe_now (demo_env 0), pe_now (demo_env 0)) ''POST'' (rq_Path (demo_rq ''POST'' ''/v1/authorize''))
       (rq_Header (demo_rq ''POST'' ''/v1/authorize'')) body (pw_keys demo_pw, pw_nonces demo_pw)) = Inr prin"
    by (rule authorize_queues [OF _ _ _ room])
  from run obtain v where "dec_Verdict d = toContractVerdict v" by (rule Authorize_Inr) blast
  then have "verdict_ok (dec_Verdict d)" by (cases v) (simp_all add: verdict_ok_def)
  moreover from p demo_admitted(2) [of demo_pw 0 "''POST''" "''/v1/authorize''"] have "prin = principal_of demo_stored"
    by (simp add: demo_rq_def demo_pw_def)
  then have "pr_OrgID prin = ''org''" by (simp add: principal_of_def demo_stored_def)
  ultimately show ?thesis using q by (simp add: RecordFromDecision_def)
qed

section \<open>Properties\<close>

text \<open>Every answer of the four endpoints, in the production wiring, is a well-formed response: a 200 with the JSON
  content type, or a problem document whose status member is the response status, whose type URI is the base with the code
  and whose status is one of the documented ones.\<close>

theorem responses_wellformed:
  "wf_response (fst (authorize_endpoint (prod_server cfg env) decode rq w)) \<and>
   wf_response (fst (hold_endpoint (prod_server cfg env) capture rq w)) \<and>
   wf_response (fst (get_endpoint c (prod_server cfg env) rq w)) \<and>
   wf_response (fst (list_endpoint c (prod_server cfg env) rq w))"
  unfolding authorize_endpoint_def hold_endpoint_def get_endpoint_def list_endpoint_def
  by (intro conjI endpoint_wf) (simp_all add: answers_handlers)

text \<open>Only an authenticated, admitted and valid request has an effect. A 200 from the authorize endpoint means: the
  method is POST, the body is within the limit, the signature verified for some principal, the limiter let the request
  through or could not answer, and the body decoded to a request with no validation problem. Any other answer
  leaves the idempotency cache and the audit queue as they were, and the budget too unless the engine itself
  failed (503).\<close>

theorem authorize_guarded:
  assumes "authorize_endpoint (prod_server cfg env) decode rq w = (resp, w')"
  shows "(rp_Status resp = 200 \<longrightarrow>
      (\<exists>body prin req d. rq_Method rq = ''POST'' \<and> rq_Body rq = Some body \<and> length body \<le> maxBodyBytes \<and>
         fst (Authenticate (pc_mac cfg) (pc_auth cfg) (pe_now env, pe_now env, pe_now env) ''POST'' (rq_Path rq) (rq_Header rq) body
           (pw_keys w, pw_nonces w)) = Inr prin \<and>
         (\<forall>rl. fst (RedisLimiter_Allow (pe_now env) (pr_KeyID prin) (TierTable_Resolve (pc_tiers cfg) (pr_Tier prin)) (pw_limiter w)) = Some rl
            \<longrightarrow> rl_Allowed rl) \<and>
         decode body = Decoded req False \<and> validateAuthorizeRequest req = [] \<and> rp_Body resp = BodyDecision d)) \<and>
    (rp_Status resp \<noteq> 200 \<longrightarrow> pw_idem w' = pw_idem w \<and> pw_audit w' = pw_audit w \<and> (rp_Status resp \<noteq> 503 \<longrightarrow> pw_budget w' = pw_budget w))"
  using assms [unfolded authorize_endpoint_def]
proof (cases rule: prod_stages)
  case stopped
  then show ?thesis by (simp add: same_effects_def)
next
  case h: (handled body prin lim w2)
  from h(8,2) show ?thesis
  proof (cases rule: handleAuthorize_cases)
    case invalid
    with h(7) show ?thesis by (auto simp: same_effects_def)
  next
    case (valid req)
    from valid(3) have "rp_Status resp = 200 \<and> (\<exists>d. rp_Body resp = BodyDecision d) \<or>
        rp_Status resp = 503 \<and> pw_idem w' = pw_idem w2 \<and> pw_audit w' = pw_audit w2"
      by (cases rule: authorize_ok_cases) simp_all
    then show ?thesis using h valid(1,2) by (auto simp: same_effects_def)
  qed
qed

theorem authorize_guarded_witness:
  "\<exists>resp w'. authorize_endpoint (prod_server demo_cfg (demo_env 0)) demo_decode (demo_rq ''POST'' ''/v1/authorize'') demo_pw = (resp, w') \<and>
     rp_Status resp = 200 \<and> (\<exists>d. rp_Body resp = BodyDecision d)"
proof -
  obtain d hdr w' where a: "authorize_endpoint (prod_server demo_cfg (demo_env 0)) demo_decode (demo_rq ''POST'' ''/v1/authorize'') demo_pw =
      (writeJSON hdr 200 (BodyDecision d), w')"
    by (rule demo_issue [of demo_pw 0]) (simp_all add: demo_pw_def RedisIdem_Lookup_def NewRedisIdem_def)
  with authorize_guarded [OF a] show ?thesis by auto
qed



text \<open>C36: an issued decision can be read back, verified. A decision the authorize endpoint returns, other than as a
  replay, is queued for the log; once the worker has appended that record to the Postgres log, and after any later appends,
  a reader of the same organisation who asks for the decision id gets the decision as it was issued, with the
  record hash, and marked as verified: the signature and the chain link both check.\<close>

theorem decision_readable:
  assumes issued: "authorize_endpoint (prod_server cfg env) decode rq w = (resp, w')" "rp_Body resp = BodyDecision d"
      "(''X-Idempotent-Replay'', ''true'') \<notin> set (rp_Header resp)"
    and room: "\<not> aq_closed (pw_audit w)" "length (aq_ch (pw_audit w)) < aq_size (pw_audit w)"
    and keys: "ed25519_ok (pc_crypto cfg)" "keyring_reach (pc_crypto cfg) (pc_keyring cfg)" "Keyring_Signer (pc_keyring cfg) = Inr sg"
      "eng_Signer (pc_engine cfg (pe_now env)) = Some sg"
    and enc: "gcm_ok g" "NewAESGCM g key = Inr (pc_enc cfg)"
    and logged: "r = last (aq_ch (pw_audit w'))"
      "PgAudit_Append (pc_crypto cfg) (pc_enc cfg) clk ns r (pg_appends (pc_crypto cfg) (pc_enc cfg) qs) = (Inr stored, s1)"
      "\<forall>x \<in> set (pg_log (pg_appends (pc_crypto cfg) (pc_enc cfg) qs) (ar_OrgID r)). ar_DecisionID x \<noteq> ar_DecisionID r"
    and reader: "aq_store (pw_audit w2) = append_all (\<lambda>e. PgAudit_Append (pc_crypto cfg) (pc_enc cfg) (fst e) (snd e)) later s1"
      "admitted cfg env2 ''GET'' rq2 prin2 w2" "pr_OrgID prin2 = ar_OrgID r" "rq_PathID rq2 = dec_DecisionID d" "reULID (dec_DecisionID d)"
  shows "\<exists>w3. get_endpoint (pc_crypto cfg) (prod_server cfg env2) rq2 w2 =
     (writeJSON [] 200 (BodyDecision (d\<lparr>dec_RecordHash := ar_RecordHash stored, dec_SignatureVerified := Some True\<rparr>)), w3)"
proof -
  from issued room obtain prin :: Principal and req u b b' where
    run: "Authorize (pc_crypto cfg) (pe_now env) (pe_now env) (pe_elapsed env) (pe_decID env) (pc_engine cfg (pe_now env))
         (pr_OrgID prin) req (pr_Shadow prin) b = (Inr d, b')"
    and q: "aq_ch (pw_audit w') = aq_ch (pw_audit w) @ [(RecordFromDecision (pr_OrgID prin) (pr_KeyID prin) req d)\<lparr>ar_RetainUntil := u\<rparr>]"
    by (rule authorize_queues)
  have r: "r = (RecordFromDecision (pr_OrgID prin) (pr_KeyID prin) req d)\<lparr>ar_RetainUntil := u\<rparr>" by (simp add: logged(1) q)
  have id: "ar_DecisionID r = dec_DecisionID d" by (simp add: r RecordFromDecision_def)
  note log = logged_record [OF enc logged(3,2), of later]
  then have "stored = (RecordFromDecision (pr_OrgID prin) (pr_KeyID prin) req d)\<lparr>ar_RetainUntil := u, ar_Seq := ar_Seq stored,
      ar_PrevHash := ar_PrevHash stored, ar_RecordHash := ar_RecordHash stored, ar_CreatedAt := ar_CreatedAt stored\<rparr>"
    unfolding r by blast
  note rd = Record_Decision_stored [OF this]
  have "VerifyDecision (pc_crypto cfg) (pc_keyring cfg) (Record_Decision stored False) = None"
    unfolding rd by (rule receipt_verifies [OF keys run signed_view_stored]) simp
  moreover have "reULID (rq_PathID rq2)"
    "PgAudit_Get (pc_enc cfg) (pr_OrgID prin2) (rq_PathID rq2) (aq_store (pw_audit w2)) = Inr stored"
    using log reader id by simp_all
  from get_reads [OF reader(2) this, of "pc_crypto cfg"] calculation log show ?thesis by (simp add: rd)
qed

theorem decision_readable_witness:
  "\<exists>d stored w' w2 w3. (\<exists>resp. authorize_endpoint (prod_server demo_cfg (demo_env 0)) demo_decode (demo_rq ''POST'' ''/v1/authorize'') demo_pw
        = (resp, w') \<and> rp_Body resp = BodyDecision d) \<and>
     get_endpoint demo_crypto (prod_server demo_cfg (demo_env 7)) (demo_rq ''GET'' ''/v1/decisions/1'') w2 =
       (writeJSON [] 200 (BodyDecision (d\<lparr>dec_RecordHash := ar_RecordHash (stored :: AuditRecord), dec_SignatureVerified := Some True\<rparr>)), w3)"
proof -
  let ?P = "demo_rq ''POST'' ''/v1/authorize''" and ?c = demo_cfg
  have start: "pw_keys demo_pw = fst demo_world" "pw_nonces demo_pw = \<lparr>rn_up = True, rn_keys = (\<lambda>_. None)\<rparr>" by (simp_all add: demo_pw_def)
  obtain d hdr w' where a: "authorize_endpoint (prod_server ?c (demo_env 0)) demo_decode ?P demo_pw = (writeJSON hdr 200 (BodyDecision d), w')"
    and nr: "(''X-Idempotent-Replay'', ''true'') \<notin> set hdr" and i: "dec_DecisionID d = ''01ARZ3NDEKTSV4RRFFQ69G5FAV''"
    by (rule demo_issue [of demo_pw 0]) (simp_all add: start demo_pw_def RedisIdem_Lookup_def NewRedisIdem_def)
  have room: "\<not> aq_closed (pw_audit demo_pw)" "length (aq_ch (pw_audit demo_pw)) < aq_size (pw_audit demo_pw)"
    by (simp_all add: demo_pw_def NewWriter_def)
  define r where "r = last (aq_ch (pw_audit w'))"
  have ro: "verdict_ok (ar_Verdict r) \<and> ar_OrgID r = ''org''"
    using demo_queued [OF a nr] unfolding r_def by blast
  then obtain stored s1 where app: "PgAudit_Append demo_crypto demo_enc (0, 0) demo_nonces r NewPgAudit = (Inr stored, s1)"
    using demo_append_any by blast
  define w2 where "w2 = demo_pw\<lparr>pw_audit := (pw_audit demo_pw)\<lparr>aq_store := s1\<rparr>\<rparr>"
  have adm: "admitted ?c (demo_env 7) ''GET'' (demo_rq ''GET'' ''/v1/decisions/1'') (principal_of demo_stored) w2"
    by (rule demo_admitted(1)) (simp_all add: w2_def start)
  have g: "\<exists>w3. get_endpoint (pc_crypto ?c) (prod_server ?c (demo_env 7)) (demo_rq ''GET'' ''/v1/decisions/1'') w2 =
       (writeJSON [] 200 (BodyDecision (d\<lparr>dec_RecordHash := ar_RecordHash stored, dec_SignatureVerified := Some True\<rparr>)), w3)"
    by (rule decision_readable [OF a _ _ room _ _ _ _ demo_enc(1) _ r_def, where qs = "[]" and later = "[]" and sg = demo_signer and key = demo_key and ?s1.0 = s1
          and clk = "(0, 0)" and ns = demo_nonces, OF _ _ _ _ _ _ _ _ _ _ adm])
       (use nr i ro app in \<open>simp_all add: demo_cfg_def demo_facts demo_crypto_laws demo_enc WithSigner_def w2_def demo_ulid
          demo_rq_def principal_of_def demo_stored_def pg_log_def org_rows_def NewPgAudit_def\<close>)
  have c: "pc_crypto ?c = demo_crypto" by (simp add: demo_cfg_def)
  have "rp_Body (writeJSON hdr 200 (BodyDecision d)) = BodyDecision d" by simp
  with a g [unfolded c] show ?thesis by blast
qed

end
