(* ===== verification/Policy_Stores.thy ===== *)
theory Policy_Stores
  imports Policy_Ctl
begin

text \<open>
  The contract \<open>policy_store\<close> between the policy service and its store, and the proofs that the
  in-memory and the Postgres store keep it.
\<close>

section \<open>The store contract\<close>

text \<open>
  What the service relies on of a store, over an abstract state: the working copies by
  organisation and id, the versions by organisation, policy and hash, the bundle of each
  organisation. A store may keep times more coarsely and a nil agent list as an empty one
  (\<open>norm_p\<close>, \<open>norm_v\<close>, \<open>norm_b\<close>), may serve only some organisation ids (\<open>org_ok\<close>), and may fail
  at any statement, changing nothing.
\<close>

record policy_state =
  as_pols :: "string \<times> string \<rightharpoonup> CtlPolicy"
  as_vers :: "string \<times> string \<times> string \<rightharpoonup> PolicyVersion"
  as_bund :: "string \<rightharpoonup> BundleRef"

abbreviation pol_key :: "CtlPolicy \<Rightarrow> string \<times> string" where
  "pol_key p \<equiv> (cp_OrgID p, cp_ID p)"

abbreviation ver_key :: "PolicyVersion \<Rightarrow> string \<times> string \<times> string" where
  "ver_key v \<equiv> (pv_OrgID v, pv_PolicyID v, pv_VersionHash v)"

definition unclaimed :: "PolicyVersion \<Rightarrow> policy_state \<Rightarrow> bool" where
  "unclaimed v a \<longleftrightarrow> (\<forall>org i. as_vers a (org, i, pv_VersionHash v) \<noteq> None \<longrightarrow> org = pv_OrgID v \<and> i = pv_PolicyID v)"

definition newest_first :: "('a \<Rightarrow> gotime) \<Rightarrow> 'a list \<Rightarrow> bool" where
  "newest_first t xs \<longleftrightarrow> sorted_wrt (\<lambda>a b. t b \<le> t a) xs"

definition store_fault :: "ctl_error \<Rightarrow> bool" where
  "store_fault e \<longleftrightarrow> (\<exists>m. e = ErrPolicyStore m)"

locale policy_store =
  fixes ops :: "'s policy_ops" and abs :: "'s \<Rightarrow> policy_state" and inv :: "'s \<Rightarrow> bool" and org_ok :: "string \<Rightarrow> bool"
    and norm_p :: "CtlPolicy \<Rightarrow> CtlPolicy" and norm_v :: "PolicyVersion \<Rightarrow> PolicyVersion" and norm_b :: "BundleRef \<Rightarrow> BundleRef"
  assumes get: "inv s \<Longrightarrow> org_ok org \<Longrightarrow> po_Get ops org i s = (r, s') \<Longrightarrow>
      inv s' \<and> abs s' = abs s \<and>
      (case r of Inr p \<Rightarrow> as_pols (abs s) (org, i) = Some p
       | Inl e \<Rightarrow> (e = ErrPolicyNotFound \<and> as_pols (abs s) (org, i) = None) \<or> store_fault e)"
    and create: "inv s \<Longrightarrow> org_ok (cp_OrgID p) \<Longrightarrow> po_Create ops p s = (x, s') \<Longrightarrow>
      inv s' \<and>
      (case x of None \<Rightarrow> as_pols (abs s) (pol_key p) = None \<and>
                         abs s' = (abs s)\<lparr>as_pols := (as_pols (abs s))(pol_key p \<mapsto> norm_p p)\<rparr>
       | Some e \<Rightarrow> abs s' = abs s)"
    and update: "inv s \<Longrightarrow> org_ok (cp_OrgID p) \<Longrightarrow> as_pols (abs s) (pol_key p) = Some q \<Longrightarrow>
      cp_CreatedAt p = cp_CreatedAt q \<Longrightarrow> po_Update ops p s = (x, s') \<Longrightarrow>
      inv s' \<and>
      (case x of None \<Rightarrow> abs s' = (abs s)\<lparr>as_pols := (as_pols (abs s))(pol_key p \<mapsto> norm_p p)\<rparr>
       | Some e \<Rightarrow> abs s' = abs s)"
    and put_version: "inv s \<Longrightarrow> org_ok (pv_OrgID v) \<Longrightarrow> unclaimed v (abs s) \<Longrightarrow> po_PutVersion ops v s = (w, s') \<Longrightarrow>
      inv s' \<and>
      (case w of Inr _ \<Rightarrow> abs s' = (if as_vers (abs s) (ver_key v) = None
                                    then (abs s)\<lparr>as_vers := (as_vers (abs s))(ver_key v \<mapsto> norm_v v)\<rparr> else abs s)
       | Inl e \<Rightarrow> abs s' = abs s)"
    and get_version: "inv s \<Longrightarrow> org_ok org \<Longrightarrow> po_GetVersion ops org i h s = (y, s') \<Longrightarrow>
      inv s' \<and> abs s' = abs s \<and>
      (case y of Inr v \<Rightarrow> as_vers (abs s) (org, i, h) = Some v
       | Inl e \<Rightarrow> (e = ErrVersionNotFound \<and> as_vers (abs s) (org, i, h) = None) \<or> store_fault e)"
    and set_bundle: "inv s \<Longrightarrow> org_ok (bref_OrgID b) \<Longrightarrow> po_SetActiveBundle ops b s = (x, s') \<Longrightarrow>
      inv s' \<and>
      (case x of None \<Rightarrow> abs s' = (abs s)\<lparr>as_bund := (as_bund (abs s))(bref_OrgID b \<mapsto> norm_b b)\<rparr>
       | Some e \<Rightarrow> abs s' = abs s)"
    and get_bundle: "inv s \<Longrightarrow> org_ok org \<Longrightarrow> po_GetActiveBundle ops org s = (z, s') \<Longrightarrow>
      inv s' \<and> abs s' = abs s \<and>
      (case z of Inr b \<Rightarrow> as_bund (abs s) org = Some b
       | Inl e \<Rightarrow> (e = ErrBundleNotFound \<and> as_bund (abs s) org = None) \<or> store_fault e)"
    and list_policies: "inv s \<Longrightarrow> org_ok org \<Longrightarrow> po_List ops org s = (ls, s') \<Longrightarrow>
      inv s' \<and> abs s' = abs s \<and>
      (case ls of Inr ps \<Rightarrow> set ps = {p. \<exists>i. as_pols (abs s) (org, i) = Some p} \<and> newest_first cp_UpdatedAt ps
       | Inl e \<Rightarrow> store_fault e)"
    and list_versions: "inv s \<Longrightarrow> org_ok org \<Longrightarrow> po_ListVersions ops org i s = (vs, s') \<Longrightarrow>
      inv s' \<and> abs s' = abs s \<and>
      (case vs of Inr l \<Rightarrow> set l = {v. \<exists>h. as_vers (abs s) (org, i, h) = Some v} \<and> newest_first pv_PublishedAt l
       | Inl e \<Rightarrow> store_fault e)"
    and norm_p: "cp_OrgID (norm_p p) = cp_OrgID p" "cp_ID (norm_p p) = cp_ID p" "cp_Name (norm_p p) = cp_Name p"
      "of_nil (cp_Agents (norm_p p)) = of_nil (cp_Agents p)" "cp_Rules (norm_p p) = cp_Rules p"
      "cp_Status (norm_p p) = cp_Status p" "cp_ActiveVersionHash (norm_p p) = cp_ActiveVersionHash p"
    and norm_v: "norm_v v = v\<lparr>pv_PublishedAt := pv_PublishedAt (norm_v v)\<rparr>"
    and norm_b: "bref_OrgID (norm_b b) = bref_OrgID b" "bref_PolicyID (norm_b b) = bref_PolicyID b"
      "bref_VersionHash (norm_b b) = bref_VersionHash b"

section \<open>MemStore keeps the contract\<close>

text \<open>The composed key determines organisation and id when organisation ids have no bar.\<close>

definition no_bar :: "string \<Rightarrow> bool" where
  "no_bar org \<longleftrightarrow> CHR ''|'' \<notin> set org"

lemma policy_key_inject:
  "no_bar org \<Longrightarrow> no_bar org' \<Longrightarrow> policy_key org i = policy_key org' j \<longleftrightarrow> org = org' \<and> i = j"
  using sep_append_inject [of "CHR ''|''" org org' i j] by (auto simp: no_bar_def policy_key_def)

definition mem_policy_inv :: "MemPolicyStore \<Rightarrow> bool" where
  "mem_policy_inv m \<longleftrightarrow>
     distinct (map fst (mp_policies m)) \<and>
     (\<forall>(k, p) \<in> set (mp_policies m). k = policy_key (cp_OrgID p) (cp_ID p) \<and> no_bar (cp_OrgID p)) \<and>
     (\<forall>k. set (mp_versions m k) = ran (mp_seen m k)) \<and>
     (\<forall>k h v. mp_seen m k h = Some v \<longrightarrow> pv_VersionHash v = h \<and> k = policy_key (pv_OrgID v) (pv_PolicyID v) \<and> no_bar (pv_OrgID v))"

definition mem_policy_abs :: "MemPolicyStore \<Rightarrow> policy_state" where
  "mem_policy_abs m =
     \<lparr>as_pols = (\<lambda>(org, i). if no_bar org then map_of (mp_policies m) (policy_key org i) else None),
      as_vers = (\<lambda>(org, i, h). if no_bar org then mp_seen m (policy_key org i) h else None),
      as_bund = mp_bundles m\<rparr>"

lemma newest_first_sort: "newest_first t (sort_key (\<lambda>x. - t x) xs)"
proof -
  have "sorted (map (\<lambda>x. - t x) (sort_key (\<lambda>x. - t x) xs))" by simp
  then show ?thesis by (simp add: newest_first_def sorted_wrt_map)
qed

lemma mem_abs_put:
  assumes "no_bar (cp_OrgID p)"
  shows "mem_policy_abs (m\<lparr>mp_policies := alist_put (policy_key (cp_OrgID p) (cp_ID p)) p (mp_policies m)\<rparr>) =
    (mem_policy_abs m)\<lparr>as_pols := (as_pols (mem_policy_abs m))(pol_key p \<mapsto> p)\<rparr>"
  using assms by (auto simp: mem_policy_abs_def fun_eq_iff policy_key_inject)

lemma mem_inv_put:
  assumes "no_bar (cp_OrgID p)" and "mem_policy_inv m"
  shows "mem_policy_inv (m\<lparr>mp_policies := alist_put (policy_key (cp_OrgID p) (cp_ID p)) p (mp_policies m)\<rparr>)"
  using assms set_alist_put [of "policy_key (cp_OrgID p) (cp_ID p)" p "mp_policies m"]
  by (auto simp: mem_policy_inv_def)

lemma mem_listed:
  assumes inv: "mem_policy_inv m" and org: "no_bar org"
  shows "set (map snd (filter (\<lambda>(k, _). length (org @ ''|'') \<le> length k \<and> take (length (org @ ''|'')) k = org @ ''|'') (mp_policies m))) =
    {p. \<exists>i. as_pols (mem_policy_abs m) (org, i) = Some p}"
proof (intro equalityI subsetI)
  fix p
  assume "p \<in> set (map snd (filter (\<lambda>(k, _). length (org @ ''|'') \<le> length k \<and> take (length (org @ ''|'')) k = org @ ''|'') (mp_policies m)))"
  then obtain k where k: "(k, p) \<in> set (mp_policies m)" "take (length (org @ ''|'')) k = org @ ''|''" by auto
  with inv have key: "k = policy_key (cp_OrgID p) (cp_ID p)" "no_bar (cp_OrgID p)" by (auto simp: mem_policy_inv_def)
  have "k = policy_key org (drop (length (org @ ''|'')) k)"
    using k(2) append_take_drop_id [of "length (org @ ''|'')" k] by (simp add: policy_key_def)
  with key org have "cp_OrgID p = org" by (metis policy_key_inject)
  moreover have "map_of (mp_policies m) k = Some p" using inv k(1) by (auto simp: mem_policy_inv_def)
  ultimately have "as_pols (mem_policy_abs m) (org, cp_ID p) = Some p" using key by (simp add: mem_policy_abs_def)
  then show "p \<in> {p. \<exists>i. as_pols (mem_policy_abs m) (org, i) = Some p}" by blast
next
  fix p
  assume "p \<in> {p. \<exists>i. as_pols (mem_policy_abs m) (org, i) = Some p}"
  then obtain i where "map_of (mp_policies m) (policy_key org i) = Some p"
    by (auto simp: mem_policy_abs_def split: if_splits)
  then have "(policy_key org i, p) \<in> set (mp_policies m)" by (rule map_of_SomeD)
  moreover have "take (length (org @ ''|'')) (policy_key org i) = org @ ''|''" "length (org @ ''|'') \<le> length (policy_key org i)"
    by (simp_all add: policy_key_def)
  ultimately show "p \<in> set (map snd (filter (\<lambda>(k, _). length (org @ ''|'') \<le> length k \<and> take (length (org @ ''|'')) k = org @ ''|'') (mp_policies m)))"
    by force
qed

lemma mem_put_version:
  assumes inv: "mem_policy_inv m" and org: "no_bar (pv_OrgID v)" and call: "MemPolicy_PutVersion v m = (w, m')"
  shows "mem_policy_inv m' \<and>
    (case w of Inr _ \<Rightarrow> mem_policy_abs m' = (if as_vers (mem_policy_abs m) (ver_key v) = None
                then (mem_policy_abs m)\<lparr>as_vers := (as_vers (mem_policy_abs m))(ver_key v \<mapsto> v)\<rparr> else mem_policy_abs m)
     | Inl e \<Rightarrow> mem_policy_abs m' = mem_policy_abs m)"
proof (cases "mp_seen m (policy_key (pv_OrgID v) (pv_PolicyID v)) (pv_VersionHash v)")
  case (Some v')
  with call inv org show ?thesis by (auto simp: MemPolicy_PutVersion_def Let_def mem_policy_abs_def)
next
  case None
  let ?k = "policy_key (pv_OrgID v) (pv_PolicyID v)"
  have m': "m' = m\<lparr>mp_seen := (mp_seen m)(?k := (mp_seen m ?k)(pv_VersionHash v \<mapsto> v)),
      mp_versions := (mp_versions m)(?k := mp_versions m ?k @ [v])\<rparr>" and w: "w = Inr True"
    using call None by (auto simp: MemPolicy_PutVersion_def Let_def)
  have "mem_policy_inv m'" using inv org None by (auto simp: mem_policy_inv_def m' split: if_splits)
  moreover have "mem_policy_abs m' = (mem_policy_abs m)\<lparr>as_vers := (as_vers (mem_policy_abs m))(ver_key v \<mapsto> v)\<rparr>"
    using org by (auto simp: mem_policy_abs_def m' fun_eq_iff policy_key_inject)
  moreover have "as_vers (mem_policy_abs m) (ver_key v) = None" using None by (simp add: mem_policy_abs_def)
  ultimately show ?thesis by (simp add: w)
qed

lemma mem_list_versions:
  assumes inv: "mem_policy_inv m" and org: "no_bar org"
  shows "set (mp_versions m (policy_key org i)) = {v. \<exists>h. as_vers (mem_policy_abs m) (org, i, h) = Some v}"
  using assms by (auto simp: mem_policy_inv_def mem_policy_abs_def ran_def)

lemmas mem_policy_defs = mem_policy_ops_def MemPolicy_Get_def MemPolicy_Create_def MemPolicy_Update_def
  MemPolicy_GetVersion_def MemPolicy_SetActiveBundle_def MemPolicy_GetActiveBundle_def MemPolicy_List_def
  MemPolicy_ListVersions_def

interpretation mem_policies: policy_store mem_policy_ops mem_policy_abs mem_policy_inv no_bar "\<lambda>p. p" "\<lambda>v. v" "\<lambda>b. b"
proof unfold_locales
  fix s org i r s'
  assume "mem_policy_inv s" "no_bar org" "po_Get mem_policy_ops org i s = (r, s')"
  then show "mem_policy_inv s' \<and> mem_policy_abs s' = mem_policy_abs s \<and>
      (case r of Inr p \<Rightarrow> as_pols (mem_policy_abs s) (org, i) = Some p
       | Inl e \<Rightarrow> (e = ErrPolicyNotFound \<and> as_pols (mem_policy_abs s) (org, i) = None) \<or> store_fault e)"
    by (auto simp: mem_policy_defs mem_policy_abs_def split: option.splits)
next
  fix s p x s'
  assume "mem_policy_inv s" "no_bar (cp_OrgID p)" "po_Create mem_policy_ops p s = (x, s')"
  then show "mem_policy_inv s' \<and>
      (case x of None \<Rightarrow> as_pols (mem_policy_abs s) (pol_key p) = None \<and>
           mem_policy_abs s' = (mem_policy_abs s)\<lparr>as_pols := (as_pols (mem_policy_abs s))(pol_key p \<mapsto> p)\<rparr>
       | Some e \<Rightarrow> mem_policy_abs s' = mem_policy_abs s)"
    by (auto simp: mem_policy_defs Let_def mem_inv_put mem_abs_put split: option.splits) (simp_all add: mem_policy_abs_def)
next
  fix s p q x s'
  assume "mem_policy_inv s" "no_bar (cp_OrgID p)" "po_Update mem_policy_ops p s = (x, s')"
  then show "mem_policy_inv s' \<and>
      (case x of None \<Rightarrow> mem_policy_abs s' = (mem_policy_abs s)\<lparr>as_pols := (as_pols (mem_policy_abs s))(pol_key p \<mapsto> p)\<rparr>
       | Some e \<Rightarrow> mem_policy_abs s' = mem_policy_abs s)"
    by (auto simp: mem_policy_defs Let_def mem_inv_put mem_abs_put split: option.splits)
next
  fix s v w s'
  assume "mem_policy_inv s" "no_bar (pv_OrgID v)" "po_PutVersion mem_policy_ops v s = (w, s')"
  then show "mem_policy_inv s' \<and>
      (case w of Inr _ \<Rightarrow> mem_policy_abs s' = (if as_vers (mem_policy_abs s) (ver_key v) = None
            then (mem_policy_abs s)\<lparr>as_vers := (as_vers (mem_policy_abs s))(ver_key v \<mapsto> v)\<rparr> else mem_policy_abs s)
       | Inl e \<Rightarrow> mem_policy_abs s' = mem_policy_abs s)"
    using mem_put_version by (simp add: mem_policy_ops_def)
next
  fix s org i h y s'
  assume "mem_policy_inv s" "no_bar org" "po_GetVersion mem_policy_ops org i h s = (y, s')"
  then show "mem_policy_inv s' \<and> mem_policy_abs s' = mem_policy_abs s \<and>
      (case y of Inr v \<Rightarrow> as_vers (mem_policy_abs s) (org, i, h) = Some v
       | Inl e \<Rightarrow> (e = ErrVersionNotFound \<and> as_vers (mem_policy_abs s) (org, i, h) = None) \<or> store_fault e)"
    by (auto simp: mem_policy_defs mem_policy_abs_def split: option.splits)
next
  fix s b x s'
  assume "mem_policy_inv s" "po_SetActiveBundle mem_policy_ops b s = (x, s')"
  then show "mem_policy_inv s' \<and>
      (case x of None \<Rightarrow> mem_policy_abs s' = (mem_policy_abs s)\<lparr>as_bund := (as_bund (mem_policy_abs s))(bref_OrgID b \<mapsto> b)\<rparr>
       | Some e \<Rightarrow> mem_policy_abs s' = mem_policy_abs s)"
    by (auto simp: mem_policy_defs mem_policy_abs_def mem_policy_inv_def)
next
  fix s org z s'
  assume "mem_policy_inv s" "po_GetActiveBundle mem_policy_ops org s = (z, s')"
  then show "mem_policy_inv s' \<and> mem_policy_abs s' = mem_policy_abs s \<and>
      (case z of Inr b \<Rightarrow> as_bund (mem_policy_abs s) org = Some b
       | Inl e \<Rightarrow> (e = ErrBundleNotFound \<and> as_bund (mem_policy_abs s) org = None) \<or> store_fault e)"
    by (auto simp: mem_policy_defs mem_policy_abs_def split: option.splits)
next
  fix s org ls s'
  assume "mem_policy_inv s" "no_bar org" "po_List mem_policy_ops org s = (ls, s')"
  then show "mem_policy_inv s' \<and> mem_policy_abs s' = mem_policy_abs s \<and>
      (case ls of Inr ps \<Rightarrow> set ps = {p. \<exists>i. as_pols (mem_policy_abs s) (org, i) = Some p} \<and> newest_first cp_UpdatedAt ps
       | Inl e \<Rightarrow> store_fault e)"
    using mem_listed [of s org] by (auto simp: mem_policy_defs Let_def newest_first_sort)
next
  fix s org i vs s'
  assume "mem_policy_inv s" "no_bar org" "po_ListVersions mem_policy_ops org i s = (vs, s')"
  then show "mem_policy_inv s' \<and> mem_policy_abs s' = mem_policy_abs s \<and>
      (case vs of Inr l \<Rightarrow> set l = {v. \<exists>h. as_vers (mem_policy_abs s) (org, i, h) = Some v} \<and> newest_first pv_PublishedAt l
       | Inl e \<Rightarrow> store_fault e)"
    using mem_list_versions [of s org i] by (auto simp: mem_policy_defs newest_first_sort)
qed simp_all

section \<open>PostgresStore keeps the contract\<close>

definition pg_policy_inv :: "PgPolicyStore \<Rightarrow> bool" where
  "pg_policy_inv s \<longleftrightarrow>
     distinct (map fst (pp_policies s)) \<and>
     (\<forall>(k, p) \<in> set (pp_policies s). k = cp_ID p \<and> pg_time (cp_CreatedAt p) = cp_CreatedAt p) \<and>
     distinct (map fst (pp_versions s)) \<and> (\<forall>(k, v) \<in> set (pp_versions s). k = pv_VersionHash v)"

definition owned :: "('v \<Rightarrow> bool) \<Rightarrow> 'v option \<Rightarrow> 'v option" where
  "owned P x = (case x of Some v \<Rightarrow> if P v then Some v else None | None \<Rightarrow> None)"

definition pg_policy_abs :: "PgPolicyStore \<Rightarrow> policy_state" where
  "pg_policy_abs s =
     \<lparr>as_pols = (\<lambda>(org, i). owned (\<lambda>p. cp_OrgID p = org) (map_of (pp_policies s) i)),
      as_vers = (\<lambda>(org, i, h). owned (\<lambda>v. pv_OrgID v = org \<and> pv_PolicyID v = i) (map_of (pp_versions s) h)),
      as_bund = pp_bundles s\<rparr>"

lemma owned_simps [simp]: "owned P None = None" "owned P (Some v) = (if P v then Some v else None)"
  by (simp_all add: owned_def)

lemma owned_Some: "owned P x = Some v \<longleftrightarrow> x = Some v \<and> P v"
  by (cases x) auto

text \<open>Beginning a statement changes nothing but the schedule.\<close>

lemma pp_begin_abs: "pp_begin s = (b, s1) \<Longrightarrow> pg_policy_inv s1 = pg_policy_inv s \<and> pg_policy_abs s1 = pg_policy_abs s"
  by (auto simp: pp_begin_def pg_policy_inv_def pg_policy_abs_def split: list.splits)

lemma pg_time_idem [simp]: "pg_time (pg_time t) = pg_time t"
  by (simp add: pg_time_def mod_diff_left_eq)

lemma pg_put_policy:
  assumes inv: "pg_policy_inv s" and p: "cp_ID p = i" "pg_time (cp_CreatedAt p) = cp_CreatedAt p"
    and old: "\<And>q. map_of (pp_policies s) i = Some q \<Longrightarrow> cp_OrgID q = cp_OrgID p"
  shows "pg_policy_inv (s\<lparr>pp_policies := alist_put i p (pp_policies s)\<rparr>) \<and>
    pg_policy_abs (s\<lparr>pp_policies := alist_put i p (pp_policies s)\<rparr>) =
      (pg_policy_abs s)\<lparr>as_pols := (as_pols (pg_policy_abs s))((cp_OrgID p, i) \<mapsto> p)\<rparr>"
proof
  show "pg_policy_inv (s\<lparr>pp_policies := alist_put i p (pp_policies s)\<rparr>)"
    using inv p set_alist_put [of i p "pp_policies s"] by (auto simp: pg_policy_inv_def)
  have "owned (\<lambda>q. cp_OrgID q = org) (map_of (pp_policies s) i) = None" if "org \<noteq> cp_OrgID p" for org
    using old that by (cases "map_of (pp_policies s) i") auto
  then show "pg_policy_abs (s\<lparr>pp_policies := alist_put i p (pp_policies s)\<rparr>) =
      (pg_policy_abs s)\<lparr>as_pols := (as_pols (pg_policy_abs s))((cp_OrgID p, i) \<mapsto> p)\<rparr>"
    by (auto simp: pg_policy_abs_def fun_eq_iff)
qed

lemma pg_put_version_row:
  assumes inv: "pg_policy_inv s" and none: "map_of (pp_versions s) (pv_VersionHash v) = None"
  shows "pg_policy_inv (s\<lparr>pp_versions := alist_put (pv_VersionHash v) v (pp_versions s)\<rparr>) \<and>
    pg_policy_abs (s\<lparr>pp_versions := alist_put (pv_VersionHash v) v (pp_versions s)\<rparr>) =
      (pg_policy_abs s)\<lparr>as_vers := (as_vers (pg_policy_abs s))(ver_key v \<mapsto> v)\<rparr>"
proof
  show "pg_policy_inv (s\<lparr>pp_versions := alist_put (pv_VersionHash v) v (pp_versions s)\<rparr>)"
    using inv set_alist_put [of "pv_VersionHash v" v "pp_versions s"] by (auto simp: pg_policy_inv_def)
  show "pg_policy_abs (s\<lparr>pp_versions := alist_put (pv_VersionHash v) v (pp_versions s)\<rparr>) =
      (pg_policy_abs s)\<lparr>as_vers := (as_vers (pg_policy_abs s))(ver_key v \<mapsto> v)\<rparr>"
    using none by (auto simp: pg_policy_abs_def fun_eq_iff)
qed

lemma pg_create_ok:
  assumes "pg_policy_inv s" and "PgPolicy_Create p s = (x, s')"
  shows "pg_policy_inv s' \<and>
      (case x of None \<Rightarrow> as_pols (pg_policy_abs s) (pol_key p) = None \<and>
           pg_policy_abs s' = (pg_policy_abs s)\<lparr>as_pols := (as_pols (pg_policy_abs s))(pol_key p \<mapsto> policy_row p)\<rparr>
       | Some e \<Rightarrow> pg_policy_abs s' = pg_policy_abs s)"
proof -
  obtain b s1 where b: "pp_begin s = (b, s1)" by (cases "pp_begin s")
  with assms(1) have s1: "pg_policy_inv s1" "pg_policy_abs s1 = pg_policy_abs s" using pp_begin_abs by auto
  have row: "cp_ID (policy_row p) = cp_ID p" "cp_OrgID (policy_row p) = cp_OrgID p"
    "pg_time (cp_CreatedAt (policy_row p)) = cp_CreatedAt (policy_row p)" by (simp_all add: policy_row_def)
  show ?thesis
  proof (cases "b \<and> map_of (pp_policies s1) (cp_ID p) = None")
    case True
    then have "x = None" "s' = s1\<lparr>pp_policies := alist_put (cp_ID p) (policy_row p) (pp_policies s1)\<rparr>"
      using assms(2) b by (auto simp: PgPolicy_Create_def)
    moreover have "as_pols (pg_policy_abs s1) (pol_key p) = None" using True by (simp add: pg_policy_abs_def)
    ultimately show ?thesis using pg_put_policy [OF s1(1) row(1,3)] True row(2) s1(2) by simp
  next
    case False
    then have "x \<noteq> None" "s' = s1" using assms(2) b by (auto simp: PgPolicy_Create_def split: bool.splits option.splits)
    with s1 show ?thesis by auto
  qed
qed

lemma pg_update_ok:
  assumes inv: "pg_policy_inv s" and old: "as_pols (pg_policy_abs s) (pol_key p) = Some q"
    and created: "cp_CreatedAt p = cp_CreatedAt q" and call: "PgPolicy_Update p s = (x, s')"
  shows "pg_policy_inv s' \<and>
      (case x of None \<Rightarrow> pg_policy_abs s' = (pg_policy_abs s)\<lparr>as_pols := (as_pols (pg_policy_abs s))(pol_key p \<mapsto> policy_row p)\<rparr>
       | Some e \<Rightarrow> pg_policy_abs s' = pg_policy_abs s)"
proof -
  obtain b s1 where b: "pp_begin s = (b, s1)" by (cases "pp_begin s")
  with inv have s1: "pg_policy_inv s1" "pg_policy_abs s1 = pg_policy_abs s" using pp_begin_abs by auto
  with old have q: "map_of (pp_policies s1) (cp_ID p) = Some q" "cp_OrgID q = cp_OrgID p"
    by (auto simp: pg_policy_abs_def owned_Some dest: fun_cong [where x = "pol_key p"])
  with s1(1) have "cp_ID q = cp_ID p" "pg_time (cp_CreatedAt q) = cp_CreatedAt q"
    by (auto simp: pg_policy_inv_def dest: map_of_SomeD)
  then have row: "q\<lparr>cp_Name := cp_Name p, cp_Agents := Some (of_nil (cp_Agents p)), cp_Rules := cp_Rules p,
      cp_Status := cp_Status p, cp_ActiveVersionHash := cp_ActiveVersionHash p,
      cp_UpdatedAt := pg_time (cp_UpdatedAt p)\<rparr> = policy_row p"
    using q(2) created by (cases p; cases q) (simp add: policy_row_def)
  have rp: "cp_ID (policy_row p) = cp_ID p" "cp_OrgID (policy_row p) = cp_OrgID p"
    "pg_time (cp_CreatedAt (policy_row p)) = cp_CreatedAt (policy_row p)" by (simp_all add: policy_row_def)
  show ?thesis
  proof (cases b)
    case True
    then have "x = None" "s' = s1\<lparr>pp_policies := alist_put (cp_ID p) (policy_row p) (pp_policies s1)\<rparr>"
      using call b q row by (auto simp: PgPolicy_Update_def)
    then show ?thesis using pg_put_policy [OF s1(1) rp(1,3)] q rp(2) s1(2) by simp
  next
    case False
    with call b s1 show ?thesis by (auto simp: PgPolicy_Update_def)
  qed
qed

lemma pg_put_version_ok:
  assumes inv: "pg_policy_inv s" and new: "unclaimed v (pg_policy_abs s)" and call: "PgPolicy_PutVersion v s = (w, s')"
  shows "pg_policy_inv s' \<and>
      (case w of Inr _ \<Rightarrow> pg_policy_abs s' = (if as_vers (pg_policy_abs s) (ver_key v) = None
            then (pg_policy_abs s)\<lparr>as_vers := (as_vers (pg_policy_abs s))(ver_key v \<mapsto> version_row v)\<rparr> else pg_policy_abs s)
       | Inl e \<Rightarrow> pg_policy_abs s' = pg_policy_abs s)"
proof -
  obtain b s1 where b: "pp_begin s = (b, s1)" by (cases "pp_begin s")
  with inv have s1: "pg_policy_inv s1" "pg_policy_abs s1 = pg_policy_abs s" using pp_begin_abs by auto
  have row: "pv_VersionHash (version_row v) = pv_VersionHash v" "ver_key (version_row v) = ver_key v"
    by (simp_all add: version_row_def)
  show ?thesis
  proof (cases "map_of (pp_versions s1) (pv_VersionHash v)")
    case None
    then have "as_vers (pg_policy_abs s1) (ver_key v) = None" by (simp add: pg_policy_abs_def)
    with None pg_put_version_row [OF s1(1), of "version_row v"] call b s1 row show ?thesis
      by (auto simp: PgPolicy_PutVersion_def split: bool.splits if_splits)
  next
    case (Some v')
    with s1(1) have "pv_VersionHash v' = pv_VersionHash v" by (auto simp: pg_policy_inv_def dest: map_of_SomeD)
    with Some have "as_vers (pg_policy_abs s1) (pv_OrgID v', pv_PolicyID v', pv_VersionHash v) = Some v'"
      by (simp add: pg_policy_abs_def)
    with new s1(2) have "as_vers (pg_policy_abs s) (ver_key v) = Some v'"
      unfolding unclaimed_def by (metis option.distinct(1))
    with Some call b s1 show ?thesis by (auto simp: PgPolicy_PutVersion_def split: bool.splits)
  qed
qed

lemma pg_set_map_snd:
  "distinct (map fst xs) \<Longrightarrow> v \<in> set (map snd xs) \<longleftrightarrow> (\<exists>k. map_of xs k = Some v)"
  by (force dest: map_of_SomeD)

lemma pg_get_bundle_ok:
  assumes "pg_policy_inv s" and "PgPolicy_GetActiveBundle org s = (z, s')"
  shows "pg_policy_inv s' \<and> pg_policy_abs s' = pg_policy_abs s \<and>
      (case z of Inr b \<Rightarrow> as_bund (pg_policy_abs s) org = Some b
       | Inl e \<Rightarrow> (e = ErrBundleNotFound \<and> as_bund (pg_policy_abs s) org = None) \<or> store_fault e)"
proof -
  obtain b s1 where b: "pp_begin s = (b, s1)" by (cases "pp_begin s")
  with assms(1) have s1: "pg_policy_inv s1" "pg_policy_abs s1 = pg_policy_abs s" using pp_begin_abs by auto
  then have bund: "as_bund (pg_policy_abs s) org = pp_bundles s1 org" by (auto simp: pg_policy_abs_def)
  show ?thesis
    using assms(2) b s1 bund by (auto simp: PgPolicy_GetActiveBundle_def store_fault_def split: bool.splits option.splits)
qed

lemma pg_get_ok:
  assumes "pg_policy_inv s" and "PgPolicy_Get org i s = (r, s')"
  shows "pg_policy_inv s' \<and> pg_policy_abs s' = pg_policy_abs s \<and>
      (case r of Inr p \<Rightarrow> as_pols (pg_policy_abs s) (org, i) = Some p
       | Inl e \<Rightarrow> (e = ErrPolicyNotFound \<and> as_pols (pg_policy_abs s) (org, i) = None) \<or> store_fault e)"
proof -
  obtain b s1 where b: "pp_begin s = (b, s1)" by (cases "pp_begin s")
  with assms(1) have s1: "pg_policy_inv s1" "pg_policy_abs s1 = pg_policy_abs s" using pp_begin_abs by auto
  then have pol: "as_pols (pg_policy_abs s) (org, i) = owned (\<lambda>p. cp_OrgID p = org) (map_of (pp_policies s1) i)"
    by (simp add: pg_policy_abs_def fun_eq_iff)
  show ?thesis
    using assms(2) b s1 pol by (auto simp: PgPolicy_Get_def store_fault_def split: bool.splits option.splits if_splits)
qed

lemma pg_get_version_ok:
  assumes "pg_policy_inv s" and "PgPolicy_GetVersion org i h s = (y, s')"
  shows "pg_policy_inv s' \<and> pg_policy_abs s' = pg_policy_abs s \<and>
      (case y of Inr v \<Rightarrow> as_vers (pg_policy_abs s) (org, i, h) = Some v
       | Inl e \<Rightarrow> (e = ErrVersionNotFound \<and> as_vers (pg_policy_abs s) (org, i, h) = None) \<or> store_fault e)"
proof -
  obtain b s1 where b: "pp_begin s = (b, s1)" by (cases "pp_begin s")
  with assms(1) have s1: "pg_policy_inv s1" "pg_policy_abs s1 = pg_policy_abs s" using pp_begin_abs by auto
  then have ver: "as_vers (pg_policy_abs s) (org, i, h) =
      owned (\<lambda>v. pv_OrgID v = org \<and> pv_PolicyID v = i) (map_of (pp_versions s1) h)"
    by (simp add: pg_policy_abs_def fun_eq_iff)
  show ?thesis
    using assms(2) b s1 ver by (auto simp: PgPolicy_GetVersion_def store_fault_def split: bool.splits option.splits if_splits)
qed

lemma pg_set_bundle_ok:
  assumes "pg_policy_inv s" and "PgPolicy_SetActiveBundle ref s = (x, s')"
  shows "pg_policy_inv s' \<and>
      (case x of None \<Rightarrow> pg_policy_abs s' = (pg_policy_abs s)\<lparr>as_bund := (as_bund (pg_policy_abs s))(bref_OrgID ref \<mapsto> bundle_row ref)\<rparr>
       | Some e \<Rightarrow> pg_policy_abs s' = pg_policy_abs s)"
proof -
  obtain b s1 where b: "pp_begin s = (b, s1)" by (cases "pp_begin s")
  with assms(1) have s1: "pg_policy_inv s1" "pg_policy_abs s1 = pg_policy_abs s" using pp_begin_abs by auto
  have upd: "pg_policy_inv (s1\<lparr>pp_bundles := f\<rparr>) = pg_policy_inv s1"
    "pg_policy_abs (s1\<lparr>pp_bundles := f\<rparr>) = (pg_policy_abs s1)\<lparr>as_bund := f\<rparr>" for f
    by (simp_all add: pg_policy_inv_def pg_policy_abs_def)
  have "as_bund (pg_policy_abs s1) = pp_bundles s1" by (simp add: pg_policy_abs_def)
  with assms(2) b s1 upd show ?thesis by (auto simp: PgPolicy_SetActiveBundle_def split: bool.splits if_splits)
qed

lemma pg_list_ok:
  assumes "pg_policy_inv s" and "PgPolicy_List org s = (ls, s')"
  shows "pg_policy_inv s' \<and> pg_policy_abs s' = pg_policy_abs s \<and>
      (case ls of Inr ps \<Rightarrow> set ps = {p. \<exists>i. as_pols (pg_policy_abs s) (org, i) = Some p} \<and> newest_first cp_UpdatedAt ps
       | Inl e \<Rightarrow> store_fault e)"
proof -
  obtain b s1 where b: "pp_begin s = (b, s1)" by (cases "pp_begin s")
  with assms(1) have s1: "pg_policy_inv s1" "pg_policy_abs s1 = pg_policy_abs s" using pp_begin_abs by auto
  have "{p \<in> set (map snd (pp_policies s1)). cp_OrgID p = org} = {p. \<exists>i. as_pols (pg_policy_abs s1) (org, i) = Some p}"
    using s1(1) pg_set_map_snd [of "pp_policies s1"] by (auto simp: pg_policy_inv_def pg_policy_abs_def owned_Some)
  with assms(2) b s1 show ?thesis
    by (auto simp: PgPolicy_List_def store_fault_def newest_first_sort simp del: set_map split: bool.splits)
qed

lemma pg_list_versions_ok:
  assumes "pg_policy_inv s" and "PgPolicy_ListVersions org i s = (vs, s')"
  shows "pg_policy_inv s' \<and> pg_policy_abs s' = pg_policy_abs s \<and>
      (case vs of Inr l \<Rightarrow> set l = {v. \<exists>h. as_vers (pg_policy_abs s) (org, i, h) = Some v} \<and> newest_first pv_PublishedAt l
       | Inl e \<Rightarrow> store_fault e)"
proof -
  obtain b s1 where b: "pp_begin s = (b, s1)" by (cases "pp_begin s")
  with assms(1) have s1: "pg_policy_inv s1" "pg_policy_abs s1 = pg_policy_abs s" using pp_begin_abs by auto
  have "{v \<in> set (map snd (pp_versions s1)). pv_OrgID v = org \<and> pv_PolicyID v = i} =
      {v. \<exists>h. as_vers (pg_policy_abs s1) (org, i, h) = Some v}"
    using s1(1) pg_set_map_snd [of "pp_versions s1"] by (auto simp: pg_policy_inv_def pg_policy_abs_def owned_Some)
  with assms(2) b s1 show ?thesis
    by (auto simp: PgPolicy_ListVersions_def store_fault_def newest_first_sort simp del: set_map split: bool.splits)
qed

lemmas pg_policy_laws = pg_get_ok pg_create_ok pg_update_ok pg_put_version_ok pg_get_version_ok
  pg_set_bundle_ok pg_get_bundle_ok pg_list_ok pg_list_versions_ok

interpretation pg_policies: policy_store pg_policy_ops pg_policy_abs pg_policy_inv "\<lambda>_. True" policy_row version_row bundle_row
  by (unfold_locales, unfold pg_policy_ops_def policy_ops.simps)
    ((rule pg_policy_laws, assumption+) | simp add: policy_row_def version_row_def bundle_row_def of_nil_def)+

end
