(* ===== verification/Policy_Content.thy ===== *)
theory Policy_Content
  imports Policy_Stores
begin

text \<open>
  Content addressing of policy versions: two contents have the same version hash exactly when
  they are the same content, identity included. The hypothesis is about the two documents at hand only (\<open>separated\<close>): SHA-256
  does not collide on their canonical texts, and the canonicalizer keeps the values of both.
\<close>

section \<open>Documents with the same values\<close>

fun same_shape :: "json \<Rightarrow> json \<Rightarrow> bool" where
  "same_shape (JsonArr xs) (JsonArr ys) \<longleftrightarrow> length xs = length ys"
| "same_shape (JsonObj xs) (JsonObj ys) \<longleftrightarrow> fst ` set xs = fst ` set ys"
| "same_shape a b \<longleftrightarrow> a = b"

definition same_tree :: "json \<Rightarrow> json \<Rightarrow> bool" where
  "same_tree a b \<longleftrightarrow> (\<forall>p x. json_at p a = Some x \<longrightarrow> (\<exists>y. json_at p b = Some y \<and> same_shape x y))"

text \<open>What is relied on for two documents: different canonical texts have different digests, and the canonical
  text determines the values.\<close>

definition separated :: "crypto \<Rightarrow> json \<Rightarrow> json \<Rightarrow> bool" where
  "separated c x y \<longleftrightarrow>
     (\<forall>a b. jcs_Transform c x = Some a \<longrightarrow> jcs_Transform c y = Some b \<longrightarrow>
        (sha256_Sum c a = sha256_Sum c b \<longrightarrow> a = b) \<and> (a = b \<longrightarrow> same_tree x y))"

lemma same_tree_root: "same_tree a b \<Longrightarrow> same_shape a b"
  by (auto simp: same_tree_def dest: spec [where x = "[]"])

lemma same_tree_obj:
  assumes "same_tree (JsonObj xs) (JsonObj ys)"
  shows "rel_option same_tree (map_of xs k) (map_of ys k)"
proof (cases "map_of xs k")
  case None
  then have "k \<notin> fst ` set ys" using same_tree_root [OF assms] by (simp add: map_of_eq_None_iff)
  then have "map_of ys k = None" by (simp add: map_of_eq_None_iff)
  with None show ?thesis by simp
next
  case (Some u)
  then have "k \<in> fst ` set ys" using same_tree_root [OF assms] by (force dest: map_of_SomeD)
  then obtain w where w: "map_of ys k = Some w" by (metis map_of_eq_None_iff option.exhaust)
  have "\<exists>y. json_at p w = Some y \<and> same_shape x y" if "json_at p u = Some x" for p x
  proof -
    have "json_at (Key k # p) (JsonObj xs) = Some x" using that Some by simp
    with assms obtain y where "json_at (Key k # p) (JsonObj ys) = Some y" "same_shape x y"
      unfolding same_tree_def by blast
    with w show ?thesis by simp
  qed
  with Some w show ?thesis by (simp add: same_tree_def)
qed

lemma same_tree_arr:
  assumes "same_tree (JsonArr xs) (JsonArr ys)"
  shows "list_all2 same_tree xs ys"
proof (rule list_all2_all_nthI)
  show len: "length xs = length ys" using same_tree_root [OF assms] by simp
  fix n assume n: "n < length xs"
  have "\<exists>y. json_at p (ys ! n) = Some y \<and> same_shape x y" if "json_at p (xs ! n) = Some x" for p x
  proof -
    have "json_at (Idx n # p) (JsonArr xs) = Some x" using that n by simp
    with assms obtain y where "json_at (Idx n # p) (JsonArr ys) = Some y" "same_shape x y"
      unfolding same_tree_def by blast
    with n len show ?thesis by simp
  qed
  then show "same_tree (xs ! n) (ys ! n)" by (simp add: same_tree_def)
qed

lemma same_tree_scalars [dest]:
  "same_tree (JsonString a) (JsonString b) \<Longrightarrow> a = b" "same_tree (JsonNum i) (JsonNum j) \<Longrightarrow> i = j"
  by (auto dest: same_tree_root)

lemma same_tree_null [simp]: "\<not> same_tree JsonNull (JsonArr xs)" "\<not> same_tree (JsonArr xs) JsonNull"
  by (auto dest: same_tree_root)

lemma same_shape_refl: "same_shape x x"
  by (cases x) simp_all

section \<open>A document determines the content\<close>

lemma same_list:
  assumes "\<And>a b. same_tree (f a) (f b) \<Longrightarrow> a = b" and "same_tree (JsonArr (map f xs)) (JsonArr (map f ys))"
  shows "xs = ys"
proof -
  from assms(2) have "list_all2 same_tree (map f xs) (map f ys)" by (rule same_tree_arr)
  then have "list_all2 (=) xs ys"
    unfolding list.rel_map by (rule list.rel_mono_strong) (rule assms(1))
  then show ?thesis by (simp add: list.rel_eq)
qed

lemma same_strings: "same_tree (json_strings a) (json_strings b) \<Longrightarrow> a = b"
  by (rule same_list) (rule same_tree_scalars)

lemma same_nums: "same_tree (JsonArr (map JsonNum a)) (JsonArr (map JsonNum b)) \<Longrightarrow> a = b"
  by (rule same_list) (rule same_tree_scalars)

lemma same_slice: "same_tree (json_of_slice a) (json_of_slice b) \<Longrightarrow> a = b"
  by (cases a; cases b) (auto dest: same_strings)

lemma map_of_gomap: "map_of (map (\<lambda>(k, v). (k, json_of_slice v)) m) k = map_option json_of_slice (map_of m k)"
  by (induction m) auto

lemma sorted_map_eq:
  assumes "sorted_wrt (<) (map fst m)" and "sorted_wrt (<) (map fst m')" and "map_of m = map_of m'"
  shows "m = (m' :: (string \<times> 'v) list)"
proof (rule map_sorted_distinct_set_unique)
  show srt: "sorted (map fst m)" "distinct (map fst m)" "sorted (map fst m')" "distinct (map fst m')"
    using assms(1,2) by (simp_all add: strict_sorted_iff)
  then show eq: "set m = set m'" using assms(3) by (simp add: map_of_inject_set)
  show "inj_on fst (set m \<union> set m')" using srt(2) eq by (simp add: distinct_map)
qed

lemma same_gomap:
  assumes "sorted_wrt (<) (map fst a)" and "sorted_wrt (<) (map fst b)" and "same_tree (json_of_gomap a) (json_of_gomap b)"
  shows "a = b"
proof -
  have "rel_option same_tree (map_option json_of_slice (map_of a k)) (map_option json_of_slice (map_of b k))" for k
    using same_tree_obj assms(3) by (simp add: json_of_gomap_def flip: map_of_gomap)
  then have "map_of a k = map_of b k" for k
    by (cases "map_of a k"; cases "map_of b k") (force dest: same_slice spec [of _ k])+
  with assms(1,2) show ?thesis by (intro sorted_map_eq) auto
qed

text \<open>The members of a rule by name.\<close>

definition opt_json :: "bool \<Rightarrow> json \<Rightarrow> json option" where
  "opt_json z j = (if z then None else Some j)"

lemma map_of_omitempty: "map_of (omitempty z k v @ xs) n = (if n = k \<and> \<not> z then Some v else map_of xs n)"
  by (simp add: omitempty_def)

lemma map_of_omitempty1: "map_of (omitempty z k v) n = (if n = k \<and> \<not> z then Some v else None)"
  by (simp add: omitempty_def)

lemma map_of_int_ptr: "map_of (int_ptr_member k x @ xs) n = (if n = k \<and> x \<noteq> None then Some (JsonNum (the x)) else map_of xs n)"
  by (cases x) simp_all

lemma rule_member:
  defines "mem \<equiv> \<lambda>r. map_of (doc_members r @ rule_members r)"
  shows "mem r ''id'' = Some (JsonString (pd_ID r))" "mem r ''type'' = Some (JsonString (pd_Type r))"
    "mem r ''agents'' = opt_json (pd_Agents r = []) (json_strings (pd_Agents r))"
    "mem r ''max'' = opt_json (pd_Max r = []) (JsonString (pd_Max r))"
    "mem r ''currency'' = opt_json (pd_Currency r = []) (JsonString (pd_Currency r))"
    "mem r ''vendors'' = opt_json (pd_Vendors r = []) (json_strings (pd_Vendors r))"
    "mem r ''allowed_actions'' = opt_json (pd_AllowedActions r = []) (json_strings (pd_AllowedActions r))"
    "mem r ''allowed_targets'' = opt_json (pd_AllowedTargets r = []) (json_strings (pd_AllowedTargets r))"
    "mem r ''start_minute'' = opt_json (pd_StartMinute r = None) (JsonNum (the (pd_StartMinute r)))"
    "mem r ''end_minute'' = opt_json (pd_EndMinute r = None) (JsonNum (the (pd_EndMinute r)))"
    "mem r ''weekdays'' = opt_json (pd_Weekdays r = []) (JsonArr (map JsonNum (pd_Weekdays r)))"
    "mem r ''allowed'' = opt_json (pd_Allowed r = []) (json_of_gomap (pd_Allowed r))"
    "mem r ''window'' = opt_json (r_Window r = []) (JsonString (r_Window r))"
    "mem r ''limit'' = opt_json (r_Limit r = []) (JsonString (r_Limit r))"
    "mem r ''provider'' = opt_json (r_Provider r = []) (JsonString (r_Provider r))"
    "mem r ''threshold'' = opt_json (r_Threshold r = None) (JsonNum (the (r_Threshold r)))"
    "mem r ''fail_mode'' = opt_json (r_FailMode r = []) (JsonString (r_FailMode r))"
  by (simp_all add: mem_def doc_members_def rule_members_def map_of_omitempty map_of_omitempty1 map_of_int_ptr opt_json_def
      del: map_of_append)

lemma opt_json_same:
  assumes "rel_option same_tree (opt_json z j) (opt_json z' j')"
  shows "(z \<longleftrightarrow> z') \<and> (\<not> z \<longrightarrow> same_tree j j')"
  using assms by (auto simp: opt_json_def split: if_splits)

lemma same_rule:
  assumes "doc_typed r" and "doc_typed r'" and "same_tree (json_of_Rule r) (json_of_Rule r')"
  shows "r = r'"
proof -
  have mem: "rel_option same_tree (map_of (doc_members r @ rule_members r) n) (map_of (doc_members r' @ rule_members r') n)" for n
    using same_tree_obj assms(3) by (simp add: json_of_Rule_def del: map_of_append)
  have str: "a = b" if "rel_option same_tree (opt_json (a = []) (JsonString a)) (opt_json (b = []) (JsonString b))" for a b
    using opt_json_same [OF that] by (cases "a = []") auto
  have strs: "a = b" if "rel_option same_tree (opt_json (a = []) (json_strings a)) (opt_json (b = []) (json_strings b))" for a b
    using opt_json_same [OF that] by (cases "a = []") (auto dest: same_strings)
  have ptr: "a = b" if "rel_option same_tree (opt_json (a = None) (JsonNum (the a))) (opt_json (b = None) (JsonNum (the b)))" for a b
    using opt_json_same [OF that] by (cases a; cases b) (auto dest: same_tree_root)
  have "pd_ID r = pd_ID r'" "pd_Type r = pd_Type r'"
    using mem [of "''id''"] mem [of "''type''"] by (auto simp: rule_member simp del: map_of_append)
  moreover have "pd_Agents r = pd_Agents r'" "pd_Vendors r = pd_Vendors r'" "pd_AllowedActions r = pd_AllowedActions r'" "pd_AllowedTargets r = pd_AllowedTargets r'"
    by (rule strs [OF mem [of "''agents''", unfolded rule_member]]
      strs [OF mem [of "''vendors''", unfolded rule_member]]
      strs [OF mem [of "''allowed_actions''", unfolded rule_member]]
      strs [OF mem [of "''allowed_targets''", unfolded rule_member]])+
  moreover have "pd_Max r = pd_Max r'" "pd_Currency r = pd_Currency r'" "r_Window r = r_Window r'" "r_Limit r = r_Limit r'" "r_Provider r = r_Provider r'" "r_FailMode r = r_FailMode r'"
    by (rule str [OF mem [of "''max''", unfolded rule_member]]
      str [OF mem [of "''currency''", unfolded rule_member]]
      str [OF mem [of "''window''", unfolded rule_member]]
      str [OF mem [of "''limit''", unfolded rule_member]]
      str [OF mem [of "''provider''", unfolded rule_member]]
      str [OF mem [of "''fail_mode''", unfolded rule_member]])+
  moreover have "pd_StartMinute r = pd_StartMinute r'" "pd_EndMinute r = pd_EndMinute r'" "r_Threshold r = r_Threshold r'"
    by (rule ptr [OF mem [of "''start_minute''", unfolded rule_member]]
      ptr [OF mem [of "''end_minute''", unfolded rule_member]]
      ptr [OF mem [of "''threshold''", unfolded rule_member]])+
  moreover have "pd_Weekdays r = pd_Weekdays r'"
    using opt_json_same [OF mem [of "''weekdays''", unfolded rule_member]] by (cases "pd_Weekdays r = []") (auto dest: same_nums)
  moreover have "pd_Allowed r = pd_Allowed r'"
    using opt_json_same [OF mem [of "''allowed''", unfolded rule_member]] assms(1,2)
    by (cases "pd_Allowed r = []") (auto simp: doc_typed_def dest: same_gomap)
  ultimately show ?thesis by (cases r; cases r') simp
qed

lemma same_policy_view:
  assumes "list_all doc_typed rules" and "list_all doc_typed rules'"
    and "same_tree (policy_view i org name agents rules) (policy_view i' org' name' agents' rules')"
  shows "i = i' \<and> org = org' \<and> name = name' \<and> agents = agents' \<and> rules = rules'"
proof -
  note mem = same_tree_obj [OF assms(3) [unfolded policy_view_def]]
  have "i = i'" "org = org'" "name = name'" "agents = agents'"
    using mem [of "''policy_id''"] mem [of "''org_id''"] mem [of "''name''"] mem [of "''agents''"] by (auto dest: same_strings)
  moreover have "list_all2 same_tree (map json_of_Rule rules) (map json_of_Rule rules')"
    using mem [of "''rules''"] by (auto dest: same_tree_arr)
  then have "list_all2 (=) rules rules'"
    unfolding list.rel_map by (rule list.rel_mono_strong) (use assms(1,2) in \<open>auto simp: list_all_iff intro: same_rule\<close>)
  then have "rules = rules'" by (simp add: list.rel_eq)
  ultimately show ?thesis by simp
qed

lemma ContentHash_Inr:
  "ContentHash c i org name agents rules = Inr h \<longleftrightarrow>
     (\<exists>msg. jcs_Transform c (policy_view i org name (of_nil agents) rules) = Some msg \<and>
            PolicyCanonicalMessage c i org name agents rules = Inr msg \<and>
            h = ctl_versionPrefix @ hex_encode (sha256_Sum c msg))"
  by (auto simp: ContentHash_def PolicyCanonicalMessage_def bindE_eq_Inr split: option.splits)

lemma ContentHash_inject:
  assumes "separated c (policy_view i org name (of_nil agents) rules) (policy_view i' org' name' (of_nil agents') rules')"
    and "list_all doc_typed rules" and "list_all doc_typed rules'"
    and "ContentHash c i org name agents rules = Inr h" and "ContentHash c i' org' name' agents' rules' = Inr h"
  shows "i = i' \<and> org = org' \<and> name = name' \<and> of_nil agents = of_nil agents' \<and> rules = rules'"
proof -
  from assms(4,5) obtain a b where ab: "jcs_Transform c (policy_view i org name (of_nil agents) rules) = Some a"
    "jcs_Transform c (policy_view i' org' name' (of_nil agents') rules') = Some b"
    "hex_encode (sha256_Sum c a) = hex_encode (sha256_Sum c b)"
    by (auto simp: ContentHash_Inr)
  then have "same_tree (policy_view i org name (of_nil agents) rules) (policy_view i' org' name' (of_nil agents') rules')"
    using assms(1) unfolding separated_def by (simp add: hex_encode_inject)
  then show ?thesis by (rule same_policy_view [OF assms(2,3)])
qed

lemma ContentHash_agents: "of_nil agents = of_nil agents' \<Longrightarrow>
    ContentHash c i org name agents rules = ContentHash c i org name agents' rules"
  by (simp add: ContentHash_def PolicyCanonicalMessage_def)

text \<open>Versions are content-addressed. Two contents whose documents are separated have the same version hash exactly when
  policy id, organisation, name, agents and rules are the same.\<close>

theorem content_addressed:
  assumes "separated c (policy_view i org name (of_nil agents) rules) (policy_view i' org' name' (of_nil agents') rules')"
    and "list_all doc_typed rules" and "list_all doc_typed rules'"
    and "ContentHash c i org name agents rules = Inr h"
  shows "ContentHash c i' org' name' agents' rules' = Inr h \<longleftrightarrow>
    i = i' \<and> org = org' \<and> name = name' \<and> of_nil agents = of_nil agents' \<and> rules = rules'"
  using ContentHash_inject [OF assms(1-4)] assms(4) ContentHash_agents by metis

lemma demo_separated: "separated demo_crypto x y"
  by (auto simp: separated_def demo_crypto_def nat_str_inject same_tree_def intro: same_shape_refl)

lemma demo_ContentHash: "\<exists>h. ContentHash demo_crypto i org name agents rules = Inr h"
  by (simp add: ContentHash_def PolicyCanonicalMessage_def demo_crypto_def)

theorem content_addressed_witness:
  "\<exists>h. ContentHash demo_crypto ''p'' ''org'' ''demo'' None demo_rules = Inr h \<and>
     ContentHash demo_crypto ''p'' ''org'' ''demo'' (Some []) demo_rules = Inr h \<and>
     ContentHash demo_crypto ''p'' ''org'' ''renamed'' None demo_rules \<noteq> Inr h"
proof -
  obtain h where h: "ContentHash demo_crypto ''p'' ''org'' ''demo'' None demo_rules = Inr h" using demo_ContentHash by blast
  note ca = content_addressed [OF demo_separated demo_rules_typed demo_rules_typed h]
  have "ContentHash demo_crypto ''p'' ''org'' ''demo'' (Some []) demo_rules = Inr h" by (simp add: ca of_nil_def)
  moreover have "ContentHash demo_crypto ''p'' ''org'' ''renamed'' None demo_rules \<noteq> Inr h" by (simp add: ca)
  ultimately show ?thesis using h by blast
qed

end
