(* ===== verification/Policy_Service.thy ===== *)
theory Policy_Service
  imports Policy_Content
begin

text \<open>
  The policy service over any store that keeps the contract: what create, update, publish and
  rollback do to the abstract state, the invariant they keep whatever statement fails, and the
  immutability of published versions; then the same for the two stores.
\<close>

section \<open>The invariant\<close>

definition version_sound :: "crypto \<Rightarrow> schema_validator \<Rightarrow> string \<Rightarrow> string \<times> string \<times> string \<Rightarrow> PolicyVersion \<Rightarrow> bool" where
  "version_sound c schema pub k v \<longleftrightarrow>
     ver_key v = k \<and> list_all doc_typed (pv_Rules v) \<and>
     ContentHash c (pv_PolicyID v) (pv_OrgID v) (pv_Name v) (Some (pv_Agents v)) (pv_Rules v) = Inr (pv_VersionHash v) \<and>
     (\<exists>agents. of_nil agents = pv_Agents v \<and> Validate schema c (pv_OrgID v) (pv_Name v) agents (pv_Rules v) = None) \<and>
     VerifyVersion c v pub = None"

definition policy_sound :: "policy_state \<Rightarrow> string \<times> string \<Rightarrow> CtlPolicy \<Rightarrow> bool" where
  "policy_sound a k p \<longleftrightarrow>
     pol_key p = k \<and> list_all doc_typed (cp_Rules p) \<and>
     (cp_Status p = StatusPublished \<longleftrightarrow> cp_ActiveVersionHash p \<noteq> []) \<and>
     (cp_ActiveVersionHash p \<noteq> [] \<longrightarrow> as_vers a (cp_OrgID p, cp_ID p, cp_ActiveVersionHash p) \<noteq> None)"

definition bundle_sound :: "policy_state \<Rightarrow> string \<Rightarrow> BundleRef \<Rightarrow> bool" where
  "bundle_sound a org b \<longleftrightarrow> bref_OrgID b = org \<and> as_vers a (org, bref_PolicyID b, bref_VersionHash b) \<noteq> None"

text \<open>A version hash belongs to one policy of one organisation.\<close>

definition hashes_unique :: "policy_state \<Rightarrow> bool" where
  "hashes_unique a \<longleftrightarrow> (\<forall>org i org' i' h. as_vers a (org, i, h) \<noteq> None \<longrightarrow> as_vers a (org', i', h) \<noteq> None \<longrightarrow> org = org' \<and> i = i')"

definition control_plane_ok :: "crypto \<Rightarrow> schema_validator \<Rightarrow> string \<Rightarrow> policy_state \<Rightarrow> bool" where
  "control_plane_ok c schema pub a \<longleftrightarrow>
     (\<forall>k v. as_vers a k = Some v \<longrightarrow> version_sound c schema pub k v) \<and>
     (\<forall>k p. as_pols a k = Some p \<longrightarrow> policy_sound a k p) \<and>
     (\<forall>org b. as_bund a org = Some b \<longrightarrow> bundle_sound a org b) \<and> hashes_unique a"

lemma okD:
  assumes "control_plane_ok c schema pub a"
  shows "as_vers a k = Some v \<Longrightarrow> version_sound c schema pub k v" "as_pols a kp = Some p \<Longrightarrow> policy_sound a kp p"
    "as_bund a org = Some b \<Longrightarrow> bundle_sound a org b" "hashes_unique a"
  using assms unfolding control_plane_ok_def by blast+

lemma version_soundD:
  assumes "version_sound c schema pub k v"
  shows "ver_key v = k" "list_all doc_typed (pv_Rules v)" "VerifyVersion c v pub = None"
    "ContentHash c (pv_PolicyID v) (pv_OrgID v) (pv_Name v) (Some (pv_Agents v)) (pv_Rules v) = Inr (pv_VersionHash v)"
  using assms by (simp_all add: version_sound_def)

lemma VerifyVersion_time [simp]: "VerifyVersion c (v\<lparr>pv_PublishedAt := t\<rparr>) pub = VerifyVersion c v pub"
  by (simp add: VerifyVersion_def split: sum.split)

lemma ContentHash_nonempty: "ContentHash c i org name agents rules = Inr h \<Longrightarrow> h \<noteq> []"
  by (auto simp: ContentHash_Inr ctl_versionPrefix_def)

lemma sound_mono:
  assumes "as_vers a \<subseteq>\<^sub>m as_vers a'"
  shows "policy_sound a k p \<Longrightarrow> policy_sound a' k p" "bundle_sound a org b \<Longrightarrow> bundle_sound a' org b"
proof -
  have "as_vers a' x \<noteq> None" if "as_vers a x \<noteq> None" for x
    using assms that by (metis domIff map_le_def)
  then show "policy_sound a k p \<Longrightarrow> policy_sound a' k p" "bundle_sound a org b \<Longrightarrow> bundle_sound a' org b"
    unfolding policy_sound_def bundle_sound_def by blast+
qed

lemma ok_put_policy:
  assumes "control_plane_ok c schema pub a" and "policy_sound a k p"
  shows "control_plane_ok c schema pub (a\<lparr>as_pols := (as_pols a)(k \<mapsto> p)\<rparr>)"
proof -
  note mono = sound_mono [of a "a\<lparr>as_pols := (as_pols a)(k \<mapsto> p)\<rparr>", simplified]
  show ?thesis using assms mono unfolding control_plane_ok_def hashes_unique_def by simp
qed

lemma ok_put_version:
  assumes "control_plane_ok c schema pub a" and "version_sound c schema pub k v" and "as_vers a k = None" and "unclaimed v a"
  shows "control_plane_ok c schema pub (a\<lparr>as_vers := (as_vers a)(k \<mapsto> v)\<rparr>) \<and> as_vers a \<subseteq>\<^sub>m (as_vers a)(k \<mapsto> v)"
proof -
  have le: "as_vers a \<subseteq>\<^sub>m (as_vers a)(k \<mapsto> v)" using assms(3) by (auto simp: map_le_def)
  note mono = sound_mono [of a "a\<lparr>as_vers := (as_vers a)(k \<mapsto> v)\<rparr>", simplified, OF le]
  have "ver_key v = k" using version_soundD(1) [OF assms(2)] .
  with okD(4) [OF assms(1)] assms(4) have "hashes_unique (a\<lparr>as_vers := (as_vers a)(k \<mapsto> v)\<rparr>)"
    unfolding hashes_unique_def unclaimed_def by (simp add: fun_upd_def) blast
  with assms(1,2) mono le show ?thesis unfolding control_plane_ok_def by simp
qed

lemma ok_put_bundle:
  assumes "control_plane_ok c schema pub a" and "bundle_sound a org b"
  shows "control_plane_ok c schema pub (a\<lparr>as_bund := (as_bund a)(org \<mapsto> b)\<rparr>)"
proof -
  note mono = sound_mono [of a "a\<lparr>as_bund := (as_bund a)(org \<mapsto> b)\<rparr>", simplified]
  show ?thesis using assms mono unfolding control_plane_ok_def hashes_unique_def by simp
qed

definition snapshot :: "CtlPolicy \<Rightarrow> PolicyVersion \<Rightarrow> bool" where
  "snapshot p v \<longleftrightarrow> pv_OrgID v = cp_OrgID p \<and> pv_PolicyID v = cp_ID p \<and> pv_Name v = cp_Name p \<and>
     pv_Agents v = of_nil (cp_Agents p) \<and> pv_Rules v = cp_Rules p"

section \<open>No collision\<close>

text \<open>What is relied on when a working copy is published: its document and those of the stored versions are
  separated, that is, SHA-256 does not collide on their canonical texts and the canonicalizer keeps
  their values. Nothing is asked of documents that are not there.\<close>

definition pol_view :: "CtlPolicy \<Rightarrow> json" where
  "pol_view p = policy_view (cp_ID p) (cp_OrgID p) (cp_Name p) (of_nil (cp_Agents p)) (cp_Rules p)"

definition ver_view :: "PolicyVersion \<Rightarrow> json" where
  "ver_view v = policy_view (pv_PolicyID v) (pv_OrgID v) (pv_Name v) (pv_Agents v) (pv_Rules v)"

definition collision_free :: "crypto \<Rightarrow> policy_state \<Rightarrow> bool" where
  "collision_free c a \<longleftrightarrow>
     (\<forall>k p k' v. as_pols a k = Some p \<longrightarrow> as_vers a k' = Some v \<longrightarrow> separated c (pol_view p) (ver_view v))"

text \<open>A stored version with the hash of the working copy has its content.\<close>

definition addressed :: "crypto \<Rightarrow> policy_state \<Rightarrow> CtlPolicy \<Rightarrow> bool" where
  "addressed c a p \<longleftrightarrow>
     (\<forall>k v. as_vers a k = Some v \<longrightarrow>
        ContentHash c (cp_ID p) (cp_OrgID p) (cp_Name p) (cp_Agents p) (cp_Rules p) = Inr (pv_VersionHash v) \<longrightarrow> snapshot p v)"

lemma collision_free_addressed:
  assumes "collision_free c a" "control_plane_ok c schema pub a" "as_pols a kp = Some p"
  shows "addressed c a p"
proof -
  have "snapshot p v" if v: "as_vers a k = Some v"
    and h: "ContentHash c (cp_ID p) (cp_OrgID p) (cp_Name p) (cp_Agents p) (cp_Rules p) = Inr (pv_VersionHash v)" for k v
  proof -
    have sep: "separated c (policy_view (cp_ID p) (cp_OrgID p) (cp_Name p) (of_nil (cp_Agents p)) (cp_Rules p))
        (policy_view (pv_PolicyID v) (pv_OrgID v) (pv_Name v) (of_nil (Some (pv_Agents v))) (pv_Rules v))"
      using assms(1) [unfolded collision_free_def, rule_format, OF assms(3) v]
      by (simp add: pol_view_def ver_view_def of_nil_def [of "Some _"])
    note vs = version_soundD [OF okD(1) [OF assms(2) v]]
    have "list_all doc_typed (cp_Rules p)" using okD(2) [OF assms(2,3)] by (simp add: policy_sound_def)
    from ContentHash_inject [OF sep this vs(2) h vs(4)] show ?thesis by (simp add: snapshot_def of_nil_def [of "Some _"])
  qed
  then show ?thesis by (auto simp: addressed_def)
qed

lemma stored_addressed:
  assumes "control_plane_ok c schema pub a" "as_vers a (ver_key v) = Some v" "snapshot p v"
  shows "addressed c a p"
proof -
  have "snapshot p u" if u: "as_vers a k = Some u"
    and h: "ContentHash c (cp_ID p) (cp_OrgID p) (cp_Name p) (cp_Agents p) (cp_Rules p) = Inr (pv_VersionHash u)" for k u
  proof -
    have "ContentHash c (cp_ID p) (cp_OrgID p) (cp_Name p) (cp_Agents p) (cp_Rules p) = Inr (pv_VersionHash v)"
      using version_soundD(4) [OF okD(1) [OF assms(1,2)]] assms(3) ContentHash_agents [of "cp_Agents p" "Some (of_nil (cp_Agents p))"]
      by (simp add: snapshot_def of_nil_def [of "Some _"])
    with h have same: "pv_VersionHash u = pv_VersionHash v" by simp
    have "ver_key u = k" using version_soundD(1) [OF okD(1) [OF assms(1) u]] .
    with u same assms(2) okD(4) [OF assms(1)] have "ver_key u = ver_key v" unfolding hashes_unique_def by fastforce
    with u \<open>ver_key u = k\<close> assms(2,3) show ?thesis by simp
  qed
  then show ?thesis by (auto simp: addressed_def)
qed

lemma addressed_unclaimed:
  assumes "addressed c a p" "control_plane_ok c schema pub a" "snapshot p v"
    and "ContentHash c (cp_ID p) (cp_OrgID p) (cp_Name p) (cp_Agents p) (cp_Rules p) = Inr (pv_VersionHash v)"
  shows "unclaimed v a"
proof -
  have "org = pv_OrgID v \<and> i = pv_PolicyID v" if u: "as_vers a (org, i, pv_VersionHash v) = Some u" for org i u
  proof -
    have key: "ver_key u = (org, i, pv_VersionHash v)" using version_soundD(1) [OF okD(1) [OF assms(2) u]] .
    with assms(1,4) u have "snapshot p u" by (auto simp: addressed_def)
    with key assms(3) show ?thesis by (simp add: snapshot_def)
  qed
  then show ?thesis by (auto simp: unclaimed_def)
qed

section \<open>The operations\<close>

text \<open>The abstract state after a call: the invariant holds and no version was changed or removed.\<close>

definition kept_by :: "('s \<Rightarrow> bool) \<Rightarrow> ('s \<Rightarrow> policy_state) \<Rightarrow> crypto \<Rightarrow> schema_validator \<Rightarrow> string \<Rightarrow> 's \<Rightarrow> 's \<Rightarrow> bool" where
  "kept_by good view c schema pub s s' \<longleftrightarrow>
     good s' \<and> control_plane_ok c schema pub (view s') \<and> as_vers (view s) \<subseteq>\<^sub>m as_vers (view s')"

text \<open>The version serves: it is the active one of its policy and of the organisation's bundle, and
  the working copy has its content.\<close>

definition serving :: "policy_state \<Rightarrow> PolicyVersion \<Rightarrow> bool" where
  "serving a v \<longleftrightarrow>
     (\<exists>p'. as_pols a (pv_OrgID v, pv_PolicyID v) = Some p' \<and> snapshot p' v \<and> cp_Status p' = StatusPublished \<and>
        cp_ActiveVersionHash p' = pv_VersionHash v) \<and>
     (\<exists>b. as_bund a (pv_OrgID v) = Some b \<and> bref_PolicyID b = pv_PolicyID v \<and> bref_VersionHash b = pv_VersionHash v)"

definition stored :: "policy_state \<Rightarrow> PolicyVersion \<Rightarrow> bool" where
  "stored a v \<longleftrightarrow> (\<exists>v'. as_vers a (ver_key v) = Some v' \<and> v' = v\<lparr>pv_PublishedAt := pv_PublishedAt v'\<rparr>)"

text \<open>What a successful publish leaves behind; content that already has a version gets that version.\<close>

definition publish_result :: "policy_state \<Rightarrow> policy_state \<Rightarrow> string \<Rightarrow> string \<Rightarrow> PolicyVersion \<Rightarrow> bool" where
  "publish_result a a' orgID i v \<longleftrightarrow> stored a' v \<and> serving a' v \<and>
     (\<exists>p. as_pols a (orgID, i) = Some p \<and> snapshot p v \<and>
        (as_vers a (ver_key v) \<noteq> None \<longrightarrow> as_vers a (ver_key v) = Some v \<and> as_vers a' = as_vers a))"

context policy_store
begin

abbreviation "step_ok \<equiv> kept_by inv abs"
lemmas step_ok_def = kept_by_def [of inv abs]

lemma step_refl: "inv s' \<Longrightarrow> abs s' = abs s \<Longrightarrow> control_plane_ok c schema pub (abs s) \<Longrightarrow> step_ok c schema pub s s'"
  by (simp add: step_ok_def)

lemma step_trans: "step_ok c schema pub s s1 \<Longrightarrow> step_ok c schema pub s1 s2 \<Longrightarrow> step_ok c schema pub s s2"
  by (auto simp: step_ok_def intro: map_le_trans)

lemma update_step:
  assumes "inv s" "control_plane_ok c schema pub (abs s)" "org_ok (cp_OrgID p)"
    and "as_pols (abs s) (pol_key p) = Some q" "cp_CreatedAt p = cp_CreatedAt q" "policy_sound (abs s) (pol_key p) p"
    and "po_Update ops p s = (x, s')"
  shows "step_ok c schema pub s s' \<and>
    (x = None \<longrightarrow> abs s' = (abs s)\<lparr>as_pols := (as_pols (abs s))(pol_key p \<mapsto> norm_p p)\<rparr>)"
proof -
  have n: "policy_sound (abs s) (pol_key p) (norm_p p)" using assms(6) by (simp add: policy_sound_def norm_p)
  from update [OF assms(1,3,4,5,7)] show ?thesis
    using ok_put_policy [OF assms(2) n] assms(2) by (cases x) (auto simp: step_ok_def)
qed

lemma create_step:
  assumes "inv s" "control_plane_ok c schema pub (abs s)" "org_ok orgID" "list_all doc_typed rules"
    and "Service_Create ops clk newID orgID name agents rules s = (r, s')"
  shows "step_ok c schema pub s s' \<and>
    (\<forall>p. r = Inr p \<longrightarrow> as_pols (abs s) (orgID, newID) = None \<and> as_pols (abs s') (orgID, newID) = Some (norm_p p) \<and>
       cp_Status p = StatusDraft \<and> as_vers (abs s') = as_vers (abs s) \<and> as_bund (abs s') = as_bund (abs s))"
proof -
  let ?p = "\<lparr>cp_ID = newID, cp_OrgID = orgID, cp_Name = name, cp_Agents = agents, cp_Rules = rules,
    cp_Status = StatusDraft, cp_ActiveVersionHash = [], cp_CreatedAt = clk 0, cp_UpdatedAt = clk 0\<rparr>"
  have n: "policy_sound (abs s) (pol_key ?p) (norm_p ?p)" using assms(4) by (simp add: policy_sound_def norm_p)
  obtain x s1 where call: "po_Create ops ?p s = (x, s1)" by (cases "po_Create ops ?p s")
  have "inv s1" and x: "case x of None \<Rightarrow> as_pols (abs s) (pol_key ?p) = None \<and>
        abs s1 = (abs s)\<lparr>as_pols := (as_pols (abs s))(pol_key ?p \<mapsto> norm_p ?p)\<rparr> | Some e \<Rightarrow> abs s1 = abs s"
    using create [OF assms(1) _ call] assms(3) by simp_all
  then show ?thesis
    using assms(1,2,5) call ok_put_policy [OF assms(2) n]
    by (cases x) (auto simp: Service_Create_def step_ok_def split: if_splits)
qed

lemma get_step:
  assumes "inv s" "control_plane_ok c schema pub (abs s)" "org_ok orgID" "po_Get ops orgID i s = (r, s1)"
  shows "step_ok c schema pub s s1 \<and> abs s1 = abs s \<and>
    (\<forall>p. r = Inr p \<longrightarrow> as_pols (abs s) (orgID, i) = Some p \<and> policy_sound (abs s) (orgID, i) p)"
  using get [OF assms(1,3,4)] assms(2) by (cases r) (auto simp: step_ok_def control_plane_ok_def)

lemma service_update_step:
  assumes "inv s" "control_plane_ok c schema pub (abs s)" "org_ok orgID" "list_all doc_typed rules"
    and call: "Service_Update ops clk orgID i name agents rules s = (r, s')"
  shows "step_ok c schema pub s s' \<and>
    (\<forall>p. r = Inr p \<longrightarrow> as_pols (abs s') (orgID, i) = Some (norm_p p) \<and> as_vers (abs s') = as_vers (abs s) \<and>
       as_bund (abs s') = as_bund (abs s))"
proof -
  obtain g s1 where g: "po_Get ops orgID i s = (g, s1)" by (cases "po_Get ops orgID i s")
  note st1 = get_step [OF assms(1-3) g]
  show ?thesis
  proof (cases g)
    case (Inl e)
    with g call st1 show ?thesis by (auto simp: Service_Update_def)
  next
    case (Inr q)
    with st1 have q: "as_pols (abs s1) (orgID, i) = Some q" "policy_sound (abs s1) (orgID, i) q" and s1: "inv s1"
      "control_plane_ok c schema pub (abs s1)" "abs s1 = abs s" using assms(2) by (auto simp: step_ok_def)
    define p where "p = q\<lparr>cp_Name := (if name \<noteq> [] then name else cp_Name q), cp_Agents := agents, cp_Rules := rules, cp_UpdatedAt := clk 0\<rparr>"
    obtain x s2 where x: "po_Update ops p s1 = (x, s2)" by (cases "po_Update ops p s1")
    have key: "pol_key p = (orgID, i)" using q(2) by (simp add: p_def policy_sound_def)
    have "policy_sound (abs s1) (pol_key p) p" using q(2) assms(4) by (auto simp: p_def policy_sound_def)
    then have "step_ok c schema pub s1 s2 \<and>
        (x = None \<longrightarrow> abs s2 = (abs s1)\<lparr>as_pols := (as_pols (abs s1))(pol_key p \<mapsto> norm_p p)\<rparr>)"
      using assms(3) key q(1) by (intro update_step [OF s1(1,2) _ _ _ _ x, where q = q]) (simp_all add: p_def)
    moreover have "s' = s2 \<and> r = (case x of None \<Rightarrow> Inr p | Some e \<Rightarrow> Inl e)"
      using call g Inr x by (auto simp: Service_Update_def Let_def p_def split: option.splits)
    ultimately show ?thesis
      using st1 s1 key by (cases x) (auto intro: step_trans)
  qed
qed

lemma designate_step':
  assumes s: "inv s" "control_plane_ok c schema pub (abs s)" "org_ok (cp_OrgID p)"
    and p: "as_pols (abs s) (pol_key p) = Some q" "cp_CreatedAt p = cp_CreatedAt q" "list_all doc_typed (cp_Rules p)"
    and v: "as_vers (abs s) (ver_key v) \<noteq> None" "pv_VersionHash v \<noteq> []"
    and snap: "snapshot p v" and call: "designate ops t1 t2 p v s = (r, s')"
  shows "step_ok c schema pub s s' \<and> as_vers (abs s') = as_vers (abs s) \<and> (\<forall>w. r = Inr w \<longrightarrow> w = v \<and> serving (abs s') v)"
proof -
  define p1 where "p1 = p\<lparr>cp_Status := StatusPublished, cp_ActiveVersionHash := pv_VersionHash v, cp_UpdatedAt := t1\<rparr>"
  have p1: "pol_key p1 = pol_key p" "policy_sound (abs s) (pol_key p1) p1" "snapshot p1 v"
    using p v snap by (simp_all add: p1_def policy_sound_def snapshot_def)
  obtain x s1 where x: "po_Update ops p1 s = (x, s1)" by (cases "po_Update ops p1 s")
  have st1: "step_ok c schema pub s s1 \<and> (x = None \<longrightarrow> abs s1 = (abs s)\<lparr>as_pols := (as_pols (abs s))(pol_key p1 \<mapsto> norm_p p1)\<rparr>)"
    using s p p1 by (intro update_step [OF s(1,2) _ _ _ _ x, where q = q]) (simp_all add: p1_def)
  show ?thesis
  proof (cases x)
    case (Some e)
    have "abs s1 = abs s" using update [OF s(1) _ _ _ x, of q] s(3) p Some by (simp add: p1_def)
    with Some call x st1 show ?thesis by (auto simp: designate_def setActive_def p1_def)
  next
    case None
    define b where "b = \<lparr>bref_OrgID = cp_OrgID p, bref_PolicyID = cp_ID p, bref_VersionHash = pv_VersionHash v, bref_UpdatedAt = t2\<rparr>"
    obtain y s2 where y: "po_SetActiveBundle ops b s1 = (y, s2)" by (cases "po_SetActiveBundle ops b s1")
    have s1: "inv s1" "control_plane_ok c schema pub (abs s1)" and a1: "as_vers (abs s1) = as_vers (abs s)"
      "as_pols (abs s1) (pol_key p) = Some (norm_p p1)"
      using st1 None p1(1) by (auto simp: step_ok_def)
    have bs: "bundle_sound (abs s1) (cp_OrgID p) (norm_b b)"
      using v snap a1 by (simp add: bundle_sound_def norm_b b_def snapshot_def)
    have st2: "inv s2 \<and> (case y of None \<Rightarrow> abs s2 = (abs s1)\<lparr>as_bund := (as_bund (abs s1))(bref_OrgID b \<mapsto> norm_b b)\<rparr>
        | Some e \<Rightarrow> abs s2 = abs s1)"
      using set_bundle [OF s1(1) _ y] s(3) by (simp add: b_def)
    have res: "s' = s2" "r = (case y of None \<Rightarrow> Inr v | Some e \<Rightarrow> Inl e)"
      using call x y None by (auto simp: designate_def setActive_def pointOrgBundle_def p1_def b_def split: option.splits)
    show ?thesis
    proof (cases y)
      case (Some e)
      with st2 res s1 a1 st1 show ?thesis by (auto simp: step_ok_def)
    next
      case y_None: None
      have a2: "abs s2 = (abs s1)\<lparr>as_bund := (as_bund (abs s1))(cp_OrgID p \<mapsto> norm_b b)\<rparr>" using st2 y_None by (simp add: b_def)
      have "serving (abs s2) v"
        using a1 p1(3) snap unfolding serving_def a2
        by (auto simp: snapshot_def norm_p norm_b b_def p1_def)
      then show ?thesis
        using st2 res y_None ok_put_bundle [OF s1(2) bs] st1 a1 a2 by (auto simp: step_ok_def)
    qed
  qed
qed

lemma designate_step:
  assumes "inv s" "control_plane_ok c schema pub (abs s)" "org_ok (cp_OrgID p)" "as_pols (abs s) (pol_key p) = Some p"
    and "as_vers (abs s) (ver_key v) \<noteq> None" "pv_VersionHash v \<noteq> []" "snapshot p v" "designate ops t1 t2 p v s = (r, s')"
  shows "step_ok c schema pub s s' \<and> as_vers (abs s') = as_vers (abs s) \<and> (\<forall>w. r = Inr w \<longrightarrow> w = v \<and> serving (abs s') v)"
proof -
  have "list_all doc_typed (cp_Rules p)" using assms(2,4) by (auto simp: control_plane_ok_def policy_sound_def)
  with designate_step' [OF assms(1-4) refl _ assms(5-8)] show ?thesis by blast
qed

lemma new_version_sound:
  assumes "policy_sound a k p" "ed25519_pair c pub (sgn_priv signer)"
    and "Validate schema c (cp_OrgID p) (cp_Name p) (cp_Agents p) (cp_Rules p) = None"
    and "PolicyCanonicalMessage c (cp_ID p) (cp_OrgID p) (cp_Name p) (cp_Agents p) (cp_Rules p) = Inr msg"
    and "ContentHash c (cp_ID p) (cp_OrgID p) (cp_Name p) (cp_Agents p) (cp_Rules p) = Inr hash"
    and v_def: "v = new_version c signer author now hash msg p"
  shows "version_sound c schema pub (ver_key v) v" "snapshot p v" "pv_VersionHash v \<noteq> []"
proof -
  have "PolicyCanonicalMessage c (cp_ID p) (cp_OrgID p) (cp_Name p) (Some (of_nil (cp_Agents p))) (cp_Rules p) = Inr msg"
    using assms(4) by (simp add: PolicyCanonicalMessage_def of_nil_def)
  then have "VerifyVersion c v pub = None"
    using VerifyDetached_SignDetached [OF assms(2)] by (simp add: VerifyVersion_def v_def new_version_def) (simp add: SignDetached_def)
  then show "version_sound c schema pub (ver_key v) v"
    using assms(1,3,5) ContentHash_agents [of "cp_Agents p" "Some (of_nil (cp_Agents p))"]
    by (auto simp: version_sound_def v_def new_version_def policy_sound_def of_nil_def [of "Some _"])
  show "snapshot p v" by (simp add: snapshot_def v_def new_version_def)
  show "pv_VersionHash v \<noteq> []" using ContentHash_nonempty [OF assms(5)] by (simp add: v_def new_version_def)
qed

text \<open>Publishing content that already has a version.\<close>

lemma publish_existing:
  assumes s: "inv s" "control_plane_ok c schema pub (abs s)" "org_ok (cp_OrgID p)" and addr: "addressed c (abs s) p"
    and p: "as_pols (abs s) (pol_key p) = Some p"
    and hash: "ContentHash c (cp_ID p) (cp_OrgID p) (cp_Name p) (cp_Agents p) (cp_Rules p) = Inr hash"
    and v: "as_vers (abs s) (cp_OrgID p, cp_ID p, hash) = Some v" and call: "designate ops t1 t2 p v s = (r, s')"
  shows "step_ok c schema pub s s' \<and> as_vers (abs s') = as_vers (abs s) \<and> (\<forall>w. r = Inr w \<longrightarrow> w = v \<and> serving (abs s') v) \<and>
    snapshot p v \<and> ver_key v = (cp_OrgID p, cp_ID p, hash)"
proof -
  from s(2) v have vs: "version_sound c schema pub (cp_OrgID p, cp_ID p, hash) v" by (simp add: control_plane_ok_def)
  have snap: "snapshot p v" using addr v hash version_soundD(1) [OF vs] by (auto simp: addressed_def)
  have "pv_VersionHash v \<noteq> []" "as_vers (abs s) (ver_key v) \<noteq> None" "ver_key v = (cp_OrgID p, cp_ID p, hash)"
    using vs v ContentHash_nonempty [OF hash] by (auto simp: version_sound_def)
  with designate_step [OF s p _ _ snap call] snap show ?thesis by blast
qed

text \<open>Publishing new content.\<close>

lemma publish_new:
  assumes s: "inv s" "control_plane_ok c schema pub (abs s)" "org_ok (cp_OrgID p)" and unc: "unclaimed v (abs s)"
    and p: "as_pols (abs s) (pol_key p) = Some p" and vs: "version_sound c schema pub (ver_key v) v" "snapshot p v" "pv_VersionHash v \<noteq> []"
    and none: "as_vers (abs s) (ver_key v) = None"
    and call: "(case po_PutVersion ops v s of (Inl e, s3) \<Rightarrow> (Inl e, s3) | (Inr _, s3) \<Rightarrow> designate ops t1 t2 p v s3) = (r, s')"
  shows "step_ok c schema pub s s' \<and> (\<forall>w. r = Inr w \<longrightarrow> w = v \<and> stored (abs s') v \<and> serving (abs s') v)"
proof -
  obtain w s3 where w: "po_PutVersion ops v s = (w, s3)" by (cases "po_PutVersion ops v s")
  have org: "org_ok (pv_OrgID v)" using s(3) vs(2) by (simp add: snapshot_def)
  note put = put_version [OF s(1) org unc w]
  have nv: "norm_v v = v\<lparr>pv_PublishedAt := pv_PublishedAt (norm_v v)\<rparr>" by (rule norm_v)
  have nvs: "version_sound c schema pub (ver_key v) (norm_v v)"
    by (subst nv) (use vs(1) in \<open>simp add: version_sound_def\<close>)
  show ?thesis
  proof (cases w)
    case (Inl e)
    with put call w s(2) show ?thesis by (auto simp: step_ok_def)
  next
    case (Inr b)
    with put none have s3: "inv s3" "abs s3 = (abs s)\<lparr>as_vers := (as_vers (abs s))(ver_key v \<mapsto> norm_v v)\<rparr>" by auto
    have "unclaimed (norm_v v) (abs s)" using unc by (subst nv) (simp add: unclaimed_def)
    with ok_put_version [OF s(2) nvs none] s3 have st: "step_ok c schema pub s s3" by (simp add: step_ok_def)
    have "step_ok c schema pub s3 s' \<and> as_vers (abs s') = as_vers (abs s3) \<and> (\<forall>w. r = Inr w \<longrightarrow> w = v \<and> serving (abs s') v)"
      using st call w Inr s(3) p s3 vs
      by (intro designate_step [where p = p and ?t1.0 = t1 and ?t2.0 = t2]) (auto simp: step_ok_def)
    moreover have "stored (abs s') v" if "as_vers (abs s') = as_vers (abs s3)"
      using that s3 nv by (auto simp: stored_def)
    ultimately show ?thesis using st by (auto intro: step_trans)
  qed
qed

lemma publish_step:
  assumes s: "inv s" "control_plane_ok c schema pub (abs s)" "org_ok orgID"
    and addr: "\<And>p. as_pols (abs s) (orgID, i) = Some p \<Longrightarrow> addressed c (abs s) p" and pair: "ed25519_pair c pub (sgn_priv signer)"
    and call: "Service_Publish ops schema c signer clk orgID i author s = (r, s')"
  shows "step_ok c schema pub s s' \<and> (\<forall>v. r = Inr v \<longrightarrow> publish_result (abs s) (abs s') orgID i v)"
proof -
  obtain g s1 where g: "po_Get ops orgID i s = (g, s1)" by (cases "po_Get ops orgID i s")
  note st1 = get_step [OF s g]
  show ?thesis
  proof (cases "\<exists>p msg hash. g = Inr p \<and> Validate schema c (cp_OrgID p) (cp_Name p) (cp_Agents p) (cp_Rules p) = None \<and>
      PolicyCanonicalMessage c (cp_ID p) (cp_OrgID p) (cp_Name p) (cp_Agents p) (cp_Rules p) = Inr msg \<and>
      ContentHash c (cp_ID p) (cp_OrgID p) (cp_Name p) (cp_Agents p) (cp_Rules p) = Inr hash")
    case False
    then have "s' = s1 \<and> (\<exists>e. r = Inl e)"
      using call g by (auto simp: Service_Publish_def split: sum.splits option.splits)
    with st1 show ?thesis by auto
  next
    case True
    then obtain p msg hash where p: "g = Inr p"
      "Validate schema c (cp_OrgID p) (cp_Name p) (cp_Agents p) (cp_Rules p) = None"
      and msg: "PolicyCanonicalMessage c (cp_ID p) (cp_OrgID p) (cp_Name p) (cp_Agents p) (cp_Rules p) = Inr msg"
      and hash: "ContentHash c (cp_ID p) (cp_OrgID p) (cp_Name p) (cp_Agents p) (cp_Rules p) = Inr hash" by blast
    from st1 p(1) have pol: "as_pols (abs s) (orgID, i) = Some p" "policy_sound (abs s) (orgID, i) p"
      and s1: "inv s1" and abs1: "abs s1 = abs s"
      by (auto simp: step_ok_def)
    then have key: "pol_key p = (orgID, i)" by (simp add: policy_sound_def)
    let ?v = "new_version c signer author (clk 0) hash msg p"
    obtain y s2 where y: "po_GetVersion ops orgID i hash s1 = (y, s2)" by (cases "po_GetVersion ops orgID i hash s1")
    note gv = get_version [OF s1 s(3) y, unfolded abs1]
    have s2: "inv s2" "abs s2 = abs s" using gv by blast+
    then have ok2: "control_plane_ok c schema pub (abs s2)" "org_ok (cp_OrgID p)" "as_pols (abs s2) (pol_key p) = Some p"
      "step_ok c schema pub s s2"
      using s pol key by (auto simp: step_ok_def)
    have addr2: "addressed c (abs s2) p" using addr [OF pol(1)] s2(2) by simp
    have rs: "(r, s') = (case y of Inr existing \<Rightarrow> designate ops (clk 0) (clk 1) p existing s2
        | Inl e \<Rightarrow> if e \<noteq> ErrVersionNotFound then (Inl e, s2)
            else case po_PutVersion ops ?v s2 of (Inl e, s3) \<Rightarrow> (Inl e, s3) | (Inr _, s3) \<Rightarrow> designate ops (clk 1) (clk 2) p ?v s3)"
      using call g p msg hash y by (cases y) (auto simp: Service_Publish_def Let_def split: if_splits)
    show ?thesis
    proof (cases y)
      case (Inr v)
      with gv key have v: "as_vers (abs s2) (cp_OrgID p, cp_ID p, hash) = Some v" by (simp add: s2(2))
      from rs Inr have "designate ops (clk 0) (clk 1) p v s2 = (r, s')" by simp
      note ex = publish_existing [OF s2(1) ok2(1,2) addr2 ok2(3) hash v this]
      have st: "step_ok c schema pub s s'" using step_trans [OF ok2(4)] ex by blast
      have vers: "as_vers (abs s) (ver_key v) = Some v" "as_vers (abs s') = as_vers (abs s)" using ex v s2(2) by simp_all
      then have "stored (abs s') v" by (simp add: stored_def)
      then have "publish_result (abs s) (abs s') orgID i w" if "r = Inr w" for w
        using that ex vers pol(1) by (simp add: publish_result_def)
      with st show ?thesis by blast
    next
      case (Inl e)
      show ?thesis
      proof (cases "e = ErrVersionNotFound")
        case False
        with rs Inl ok2(4) show ?thesis by auto
      next
        case True
        with gv Inl key have none: "as_vers (abs s2) (ver_key ?v) = None"
          by (auto simp: s2(2) new_version_def store_fault_def)
        note vs = new_version_sound [OF pol(2) pair p(2) msg hash refl]
        have unc: "unclaimed ?v (abs s2)" using addressed_unclaimed [OF addr2 ok2(1) vs(2)] hash by (simp add: new_version_def)
        from rs Inl True have "(case po_PutVersion ops ?v s2 of (Inl e, s3) \<Rightarrow> (Inl e, s3)
            | (Inr _, s3) \<Rightarrow> designate ops (clk 1) (clk 2) p ?v s3) = (r, s')" by simp
        from publish_new [OF s2(1) ok2(1,2) unc ok2(3) vs none this] vs(2) none s2(2) ok2(4) pol(1)
        show ?thesis by (auto simp: publish_result_def intro: step_trans)
      qed
    qed
  qed
qed

lemma publish_free:
  assumes "inv s" "control_plane_ok c schema pub (abs s)" "org_ok orgID" "collision_free c (abs s)" "ed25519_pair c pub (sgn_priv signer)"
    and "Service_Publish ops schema c signer clk orgID i author s = (r, s')"
  shows "step_ok c schema pub s s' \<and> (\<forall>v. r = Inr v \<longrightarrow> publish_result (abs s) (abs s') orgID i v)"
  using publish_step [OF assms(1-3) _ assms(5,6)] collision_free_addressed [OF assms(4,2)] by blast

lemma rollback_designates:
  assumes "po_Get ops orgID i s = (Inr p, s1)" "po_GetVersion ops orgID i hash s1 = (Inr v, s2)"
  shows "Service_Rollback ops clk orgID i hash s =
    designate ops (clk 0) (clk 1) (p\<lparr>cp_Name := pv_Name v, cp_Agents := Some (pv_Agents v), cp_Rules := pv_Rules v\<rparr>) v s2"
  using assms by (simp add: Service_Rollback_def designate_def setActive_def split: prod.split option.split)

lemma rollback_step:
  assumes s: "inv s" "control_plane_ok c schema pub (abs s)" "org_ok orgID"
    and call: "Service_Rollback ops clk orgID i hash s = (r, s')"
  shows "step_ok c schema pub s s' \<and>
    (\<forall>v. r = Inr v \<longrightarrow> as_vers (abs s) (orgID, i, hash) = Some v \<and> as_vers (abs s') = as_vers (abs s) \<and> serving (abs s') v)"
proof -
  obtain g s1 where g: "po_Get ops orgID i s = (g, s1)" by (cases "po_Get ops orgID i s")
  note st1 = get_step [OF s g]
  show ?thesis
  proof (cases g)
    case (Inl e)
    with g call st1 show ?thesis by (auto simp: Service_Rollback_def)
  next
    case (Inr p)
    with st1 have pol: "as_pols (abs s) (orgID, i) = Some p" "policy_sound (abs s) (orgID, i) p"
      and s1: "inv s1" and abs1: "abs s1 = abs s" by (auto simp: step_ok_def)
    obtain y s2 where y: "po_GetVersion ops orgID i hash s1 = (y, s2)" by (cases "po_GetVersion ops orgID i hash s1")
    note gv = get_version [OF s1 s(3) y, unfolded abs1]
    show ?thesis
    proof (cases y)
      case (Inl e)
      with g Inr y call gv s(2) show ?thesis by (auto simp: Service_Rollback_def step_ok_def)
    next
      case y_v: (Inr v)
      with gv have v: "as_vers (abs s) (orgID, i, hash) = Some v" and s2: "inv s2" "abs s2 = abs s" by simp_all
      with s(2) have vs: "version_sound c schema pub (orgID, i, hash) v" by (simp add: control_plane_ok_def)
      let ?p = "p\<lparr>cp_Name := pv_Name v, cp_Agents := Some (pv_Agents v), cp_Rules := pv_Rules v\<rparr>"
      have snap: "snapshot ?p v" "pol_key ?p = (orgID, i)" "ver_key v = (orgID, i, hash)" "hash \<noteq> []" "list_all doc_typed (pv_Rules v)"
        using vs pol(2) by (auto simp: snapshot_def version_sound_def policy_sound_def of_nil_def dest: ContentHash_nonempty)
      have "designate ops (clk 0) (clk 1) ?p v s2 = (r, s')" using call g Inr y y_v by (simp add: rollback_designates)
      then have "step_ok c schema pub s2 s' \<and> as_vers (abs s') = as_vers (abs s2) \<and> (\<forall>w. r = Inr w \<longrightarrow> w = v \<and> serving (abs s') v)"
        using designate_step' [of s2 c schema pub ?p p v] s s2 snap pol v by auto
      with s2 v s(2) show ?thesis by (auto simp: step_ok_def)
    qed
  qed
qed

text \<open>Publishing a working copy that has the content of a stored version returns that version.\<close>

lemma republish:
  assumes s: "inv s" "control_plane_ok c schema pub (abs s)" "org_ok (pv_OrgID v)"
    and pair: "ed25519_pair c pub (sgn_priv signer)"
    and v: "as_vers (abs s) (ver_key v) = Some v" "as_pols (abs s) (pv_OrgID v, pv_PolicyID v) = Some p" "snapshot p v"
    and call: "Service_Publish ops schema c signer clk (pv_OrgID v) (pv_PolicyID v) author s = (Inr w, s')"
  shows "w = v \<and> as_vers (abs s') = as_vers (abs s) \<and> serving (abs s') v"
proof -
  have "addressed c (abs s) q" if "as_pols (abs s) (pv_OrgID v, pv_PolicyID v) = Some q" for q
    using stored_addressed [OF s(2) v(1,3)] v(2) that by simp
  from publish_step [OF s this pair call] have st: "step_ok c schema pub s s'" and res: "publish_result (abs s) (abs s') (pv_OrgID v) (pv_PolicyID v) w"
    by auto
  from res v have snap: "snapshot p w" by (auto simp: publish_result_def)
  from res obtain w' where "as_vers (abs s') (ver_key w) = Some w'" "w' = w\<lparr>pv_PublishedAt := pv_PublishedAt w'\<rparr>"
    unfolding publish_result_def stored_def by blast
  then have "as_vers (abs s') (ver_key w) = Some (w\<lparr>pv_PublishedAt := pv_PublishedAt w'\<rparr>)" by argo
  with st have "version_sound c schema pub (ver_key w) (w\<lparr>pv_PublishedAt := pv_PublishedAt w'\<rparr>)"
    unfolding step_ok_def control_plane_ok_def by blast
  then have hw: "ContentHash c (pv_PolicyID w) (pv_OrgID w) (pv_Name w) (Some (pv_Agents w)) (pv_Rules w) = Inr (pv_VersionHash w)"
    by (simp add: version_sound_def)
  from s(2) v(1) have hv: "ContentHash c (pv_PolicyID v) (pv_OrgID v) (pv_Name v) (Some (pv_Agents v)) (pv_Rules v) = Inr (pv_VersionHash v)"
    by (blast dest: okD(1) version_soundD(4))
  from snap v(3) hw hv have "ver_key w = ver_key v" by (simp add: snapshot_def)
  with res v(1) show ?thesis by (auto simp: publish_result_def)
qed

lemma read_steps:
  assumes "inv s" "control_plane_ok c schema pub (abs s)" "org_ok orgID"
  shows "Service_Get ops orgID i s = (r1, s') \<Longrightarrow> step_ok c schema pub s s'"
    "Service_List ops orgID s = (r2, s') \<Longrightarrow> step_ok c schema pub s s'"
    "Service_ListVersions ops orgID i s = (r3, s') \<Longrightarrow> step_ok c schema pub s s'"
    "Service_Active ops orgID i s = (r4, s') \<Longrightarrow> step_ok c schema pub s s'"
    "Service_ActiveBundle ops orgID s = (r5, s') \<Longrightarrow> step_ok c schema pub s s'"
    "po_GetVersion ops orgID i h s = (r6, s') \<Longrightarrow> step_ok c schema pub s s'"
proof -
  show "po_GetVersion ops orgID i h s = (r6, s') \<Longrightarrow> step_ok c schema pub s s'"
    using get_version [OF assms(1,3)] assms(2) by (simp add: step_ok_def)
  show "Service_Get ops orgID i s = (r1, s') \<Longrightarrow> step_ok c schema pub s s'"
    using get_step [OF assms] by (simp add: Service_Get_def)
  show "Service_List ops orgID s = (r2, s') \<Longrightarrow> step_ok c schema pub s s'"
    using list_policies [OF assms(1,3)] assms(2) by (simp add: Service_List_def step_ok_def)
  show "Service_ActiveBundle ops orgID s = (r5, s') \<Longrightarrow> step_ok c schema pub s s'"
    using get_bundle [OF assms(1,3)] assms(2) by (simp add: Service_ActiveBundle_def step_ok_def)
  obtain g s1 where g: "po_Get ops orgID i s = (g, s1)" by (cases "po_Get ops orgID i s")
  then have s1: "inv s1" "abs s1 = abs s" using get [OF assms(1,3)] by auto
  then have "step_ok c schema pub s s1" using assms(2) by (simp add: step_ok_def)
  then show "Service_ListVersions ops orgID i s = (r3, s') \<Longrightarrow> step_ok c schema pub s s'"
    using list_versions [OF s1(1) assms(3)] g s1 assms(2)
    by (cases g) (auto simp: Service_ListVersions_def step_ok_def)
  show "Service_Active ops orgID i s = (r4, s') \<Longrightarrow> step_ok c schema pub s s'"
    using get_version [OF s1(1) assms(3)] g s1 assms(2)
    by (cases g) (auto simp: Service_Active_def step_ok_def split: if_splits)
qed

end

section \<open>Reachable control planes\<close>

text \<open>Any sequence of service calls, each with its own arguments and clock, and of reads of a version by the bundle provider or the simulator. A publish
  is a step only when the documents at hand are separated: the runs considered are those in which no published document
  collides with a stored one.\<close>

inductive ctl_step :: "'s policy_ops \<Rightarrow> ('s \<Rightarrow> policy_state) \<Rightarrow> (string \<Rightarrow> bool) \<Rightarrow> schema_validator \<Rightarrow> crypto \<Rightarrow> Signer \<Rightarrow> 's \<Rightarrow> 's \<Rightarrow> bool"
  for ops view served schema c signer where
  create: "served orgID \<Longrightarrow> list_all doc_typed rules \<Longrightarrow>
      Service_Create ops clk newID orgID name agents rules s = (r, s') \<Longrightarrow> ctl_step ops view served schema c signer s s'"
| update: "served orgID \<Longrightarrow> list_all doc_typed rules \<Longrightarrow>
      Service_Update ops clk orgID i name agents rules s = (r, s') \<Longrightarrow> ctl_step ops view served schema c signer s s'"
| publish: "served orgID \<Longrightarrow> collision_free c (view s) \<Longrightarrow> Service_Publish ops schema c signer clk orgID i author s = (r, s') \<Longrightarrow>
      ctl_step ops view served schema c signer s s'"
| rollback: "served orgID \<Longrightarrow> Service_Rollback ops clk orgID i hash s = (r, s') \<Longrightarrow> ctl_step ops view served schema c signer s s'"
| get_policy: "served orgID \<Longrightarrow> Service_Get ops orgID i s = (r, s') \<Longrightarrow> ctl_step ops view served schema c signer s s'"
| list_policies: "served orgID \<Longrightarrow> Service_List ops orgID s = (r, s') \<Longrightarrow> ctl_step ops view served schema c signer s s'"
| list_versions: "served orgID \<Longrightarrow> Service_ListVersions ops orgID i s = (r, s') \<Longrightarrow> ctl_step ops view served schema c signer s s'"
| active: "served orgID \<Longrightarrow> Service_Active ops orgID i s = (r, s') \<Longrightarrow> ctl_step ops view served schema c signer s s'"
| get_version: "served orgID \<Longrightarrow> po_GetVersion ops orgID i hash s = (r, s') \<Longrightarrow> ctl_step ops view served schema c signer s s'"
| active_bundle: "served orgID \<Longrightarrow> Service_ActiveBundle ops orgID s = (r, s') \<Longrightarrow> ctl_step ops view served schema c signer s s'"

context policy_store
begin

lemma ctl_step_ok:
  assumes pair: "ed25519_pair c pub (sgn_priv signer)"
    and "ctl_step ops abs org_ok schema c signer s s'" "inv s" "control_plane_ok c schema pub (abs s)"
  shows "step_ok c schema pub s s'"
  using assms(2)
proof cases
  case (create orgID rules clk newID name agents r)
  with create_step [OF assms(3,4)] show ?thesis by blast
next
  case (update orgID rules clk i name agents r)
  with service_update_step [OF assms(3,4)] show ?thesis by blast
next
  case (publish orgID clk i author r)
  with publish_free [OF assms(3,4) _ _ pair] show ?thesis by blast
next
  case (rollback orgID clk i hash r)
  with rollback_step [OF assms(3,4)] show ?thesis by blast
next
  case (get_policy orgID i r)
  then show ?thesis by (rule read_steps(1) [OF assms(3,4)])
next
  case (list_policies orgID r)
  then show ?thesis by (rule read_steps(2) [OF assms(3,4)])
next
  case (list_versions orgID i r)
  then show ?thesis by (rule read_steps(3) [OF assms(3,4)])
next
  case (active orgID i r)
  then show ?thesis by (rule read_steps(4) [OF assms(3,4)])
next
  case (active_bundle orgID r)
  then show ?thesis by (rule read_steps(5) [OF assms(3,4)])
next
  case (get_version orgID i hash r)
  then show ?thesis by (rule read_steps(6) [OF assms(3,4)])
qed

lemma ctl_steps_ok:
  assumes "(ctl_step ops abs org_ok schema c signer)\<^sup>*\<^sup>* s s'"
    and pair: "ed25519_pair c pub (sgn_priv signer)"
    and "inv s" "control_plane_ok c schema pub (abs s)"
  shows "step_ok c schema pub s s'"
  using assms(1)
proof (induction rule: rtranclp_induct)
  case base
  show ?case using assms(3,4) by (simp add: step_ok_def)
next
  case (step s1 s2)
  with ctl_step_ok [OF pair step(2)] show ?case by (auto simp: step_ok_def intro: map_le_trans)
qed

end

text \<open>A fresh database, with any statements failing.\<close>

definition NewPgPolicyStore :: "bool list \<Rightarrow> PgPolicyStore" where
  "NewPgPolicyStore fails = \<lparr>pp_policies = [], pp_versions = [], pp_bundles = Map.empty, pp_fails = fails\<rparr>"

lemma new_pg_policies: "pg_policy_inv (NewPgPolicyStore fails)" "control_plane_ok c schema pub (pg_policy_abs (NewPgPolicyStore fails))"
  by (auto simp: NewPgPolicyStore_def pg_policy_inv_def control_plane_ok_def hashes_unique_def pg_policy_abs_def)

lemma new_mem_policies: "mem_policy_inv NewMemPolicyStore" "control_plane_ok c schema pub (mem_policy_abs NewMemPolicyStore)"
  by (auto simp: NewMemPolicyStore_def mem_policy_inv_def control_plane_ok_def hashes_unique_def mem_policy_abs_def ran_def)

abbreviation pg_ctl :: "schema_validator \<Rightarrow> crypto \<Rightarrow> Signer \<Rightarrow> PgPolicyStore \<Rightarrow> PgPolicyStore \<Rightarrow> bool" where
  "pg_ctl schema c signer \<equiv> (ctl_step pg_policy_ops pg_policy_abs (\<lambda>_. True) schema c signer)\<^sup>*\<^sup>*"

lemma pg_reachable:
  assumes "pg_ctl schema c signer (NewPgPolicyStore fails) s" "ed25519_pair c pub (sgn_priv signer)"
  shows "pg_policy_inv s" "control_plane_ok c schema pub (pg_policy_abs s)"
  using pg_policies.ctl_steps_ok [OF assms new_pg_policies] by (simp_all add: kept_by_def)

text \<open>C8: the control plane over Postgres. After any sequence of calls in which no published document collides with
  a stored one, whichever statements failed, every stored version carries the hash of its own content, was valid when published and
  verifies against the signing key; active versions and organisation bundles always name a stored
  version; a version hash belongs to one policy; and a version once read is read back unchanged ever after, unless the statement fails.\<close>

theorem control_plane_invariant:
  assumes "ed25519_pair c pub (sgn_priv signer)"
    and "pg_ctl schema c signer (NewPgPolicyStore fails) s" "pg_ctl schema c signer s s'"
    and "PgPolicy_GetVersion org i h s = (Inr v, t)" "PgPolicy_GetVersion org i h s' = (y, t')"
  shows "control_plane_ok c schema pub (pg_policy_abs s') \<and> version_sound c schema pub (org, i, h) v \<and>
    (y = Inr v \<or> (\<exists>e. y = Inl e \<and> store_fault e))"
proof -
  note r = pg_reachable [OF assms(2,1)]
  from pg_policies.ctl_steps_ok [OF assms(3,1) r] have s': "pg_policy_inv s'" "control_plane_ok c schema pub (pg_policy_abs s')"
    and le: "as_vers (pg_policy_abs s) \<subseteq>\<^sub>m as_vers (pg_policy_abs s')" by (simp_all add: kept_by_def)
  from pg_get_version_ok [OF r(1) assms(4)] have v: "as_vers (pg_policy_abs s) (org, i, h) = Some v" by simp
  with le have v': "as_vers (pg_policy_abs s') (org, i, h) = Some v" by (metis domI map_le_def)
  with pg_get_version_ok [OF s'(1) assms(5)] have "y = Inr v \<or> (\<exists>e. y = Inl e \<and> store_fault e)"
    by (cases y) auto
  with s'(2) okD(1) [OF r(2) v] show ?thesis by blast
qed

text \<open>C12: publishing, when the working copies and the stored versions do not collide. A version that publish returns is stored, is a snapshot of the working copy,
  verifies against the signing key, and serves: it is the active version of its policy and of the
  organisation's bundle. Publishing the unchanged working copy again returns the stored version and
  creates none.\<close>

theorem publish_serves:
  assumes "ed25519_pair c pub (sgn_priv signer)"
    and "pg_ctl schema c signer (NewPgPolicyStore fails) s" "collision_free c (pg_policy_abs s)"
    and "Service_Publish pg_policy_ops schema c signer clk org i author s = (Inr v, s')"
  shows "VerifyVersion c v pub = None \<and> publish_result (pg_policy_abs s) (pg_policy_abs s') org i v \<and>
    (\<forall>clk' author' w s''. Service_Publish pg_policy_ops schema c signer clk' org i author' s' = (Inr w, s'') \<longrightarrow>
       as_vers (pg_policy_abs s') (ver_key v) = Some w \<and> as_vers (pg_policy_abs s'') = as_vers (pg_policy_abs s'))"
proof -
  note r = pg_reachable [OF assms(2,1)]
  from pg_policies.publish_free [OF r TrueI assms(3,1,4)]
  have s': "pg_policy_inv s'" "control_plane_ok c schema pub (pg_policy_abs s')"
    and res: "publish_result (pg_policy_abs s) (pg_policy_abs s') org i v" by (auto simp: kept_by_def)
  from res obtain t where v': "as_vers (pg_policy_abs s') (ver_key v) = Some (v\<lparr>pv_PublishedAt := t\<rparr>)"
    unfolding publish_result_def stored_def by metis
  from res obtain q where q: "as_pols (pg_policy_abs s') (pv_OrgID v, pv_PolicyID v) = Some q" "snapshot q v"
    unfolding publish_result_def serving_def by blast
  obtain p where "as_pols (pg_policy_abs s) (org, i) = Some p" "snapshot p v" using res by (auto simp: publish_result_def)
  with okD(2) [OF r(2)] have key: "pv_OrgID v = org" "pv_PolicyID v = i" by (auto simp: policy_sound_def snapshot_def)
  have "w = v\<lparr>pv_PublishedAt := t\<rparr> \<and> as_vers (pg_policy_abs s'') = as_vers (pg_policy_abs s')"
    if "Service_Publish pg_policy_ops schema c signer clk' org i author' s' = (Inr w, s'')" for clk' author' w s''
    using pg_policies.republish [OF s' TrueI assms(1), of "v\<lparr>pv_PublishedAt := t\<rparr>" q clk' author' w s''] v' q that key
    by (simp add: snapshot_def)
  moreover have "VerifyVersion c v pub = None" using version_soundD(3) [OF okD(1) [OF s'(2) v']] by simp
  ultimately show ?thesis using res v' by simp
qed

section \<open>Calls that succeed\<close>

text \<open>With no failing statement, creating under a fresh id, publishing a valid working copy and
  rolling back to a stored version succeed.\<close>

lemma pp_begin_ok: "pp_fails s = [] \<Longrightarrow> pp_begin s = (True, s)"
  by (simp add: pp_begin_def)

lemma pg_create_succeeds:
  assumes "pp_fails s = []" "map_of (pp_policies s) newID = None" "orgID \<noteq> []" "name \<noteq> []"
  shows "\<exists>p s'. Service_Create pg_policy_ops clk newID orgID name agents rules s = (Inr p, s') \<and> pp_fails s' = [] \<and>
    (\<exists>q. map_of (pp_policies s') newID = Some q \<and> cp_OrgID q = orgID \<and> cp_ID q = newID \<and> cp_Name q = name \<and>
       cp_Agents q = Some (of_nil agents) \<and> cp_Rules q = rules)"
  using assms by (simp add: Service_Create_def pg_policy_ops_def PgPolicy_Create_def pp_begin_ok policy_row_def)

lemma pg_designate_succeeds:
  assumes "pp_fails s = []" "map_of (pp_policies s) (cp_ID p) = Some q" "cp_OrgID q = cp_OrgID p"
    and "map_of (pp_versions s) (pv_VersionHash v) \<noteq> None"
  shows "\<exists>s'. designate pg_policy_ops t1 t2 p v s = (Inr v, s') \<and> pp_fails s' = [] \<and> pp_versions s' = pp_versions s \<and>
    (\<exists>q'. map_of (pp_policies s') (cp_ID p) = Some q' \<and> cp_OrgID q' = cp_OrgID p \<and> cp_ID q' = cp_ID q \<and> cp_Name q' = cp_Name p \<and>
       cp_Agents q' = Some (of_nil (cp_Agents p)) \<and> cp_Rules q' = cp_Rules p)"
  using assms by (simp add: designate_def setActive_def pointOrgBundle_def pg_policy_ops_def PgPolicy_Update_def
      PgPolicy_SetActiveBundle_def pp_begin_ok)

lemma pg_publish_succeeds:
  assumes "pp_fails s = []" "map_of (pp_policies s) i = Some p" "cp_OrgID p = orgID" "cp_ID p = i" and inv: "pg_policy_inv s"
    and "Validate schema c orgID (cp_Name p) (cp_Agents p) (cp_Rules p) = None" "jcs_total c"
  shows "\<exists>v s'. Service_Publish pg_policy_ops schema c signer clk orgID i author s = (Inr v, s') \<and> pp_fails s' = [] \<and>
    map_of (pp_versions s') (pv_VersionHash v) \<noteq> None \<and>
    (\<exists>q'. map_of (pp_policies s') i = Some q' \<and> cp_OrgID q' = orgID \<and> cp_ID q' = i \<and> cp_Name q' = cp_Name p \<and>
       cp_Agents q' = Some (of_nil (cp_Agents p)) \<and> cp_Rules q' = cp_Rules p)"
proof -
  obtain msg where "jcs_Transform c (policy_view i orgID (cp_Name p) (of_nil (cp_Agents p)) (cp_Rules p)) = Some msg"
    using assms(7) by (auto simp: jcs_total_def)
  then have msg: "PolicyCanonicalMessage c (cp_ID p) (cp_OrgID p) (cp_Name p) (cp_Agents p) (cp_Rules p) = Inr msg"
    using assms(3,4) by (simp add: PolicyCanonicalMessage_def)
  define h where "h = ctl_versionPrefix @ hex_encode (sha256_Sum c msg)"
  have hash: "ContentHash c (cp_ID p) (cp_OrgID p) (cp_Name p) (cp_Agents p) (cp_Rules p) = Inr h"
    using msg by (simp add: ContentHash_def h_def)
  have get: "po_Get pg_policy_ops orgID i s = (Inr p, s)" using assms by (simp add: pg_policy_ops_def PgPolicy_Get_def pp_begin_ok)
  let ?v = "new_version c signer author (clk 0) h msg p"
  show ?thesis
  proof (cases "\<exists>v. map_of (pp_versions s) h = Some v \<and> pv_OrgID v = orgID \<and> pv_PolicyID v = i")
    case True
    then obtain v where v: "map_of (pp_versions s) h = Some v" "pv_OrgID v = orgID" "pv_PolicyID v = i" by blast
    have "pv_VersionHash v = h" using inv v(1) by (auto simp: pg_policy_inv_def dest: map_of_SomeD)
    moreover have "po_GetVersion pg_policy_ops orgID i h s = (Inr v, s)"
      using assms(1) v by (simp add: pg_policy_ops_def PgPolicy_GetVersion_def pp_begin_ok)
    ultimately show ?thesis
      using pg_designate_succeeds [OF assms(1), of p p v "clk 0" "clk 1"] assms v by (auto simp: Service_Publish_def get msg hash)
  next
    case False
    then have gv: "po_GetVersion pg_policy_ops orgID i h s = (Inl ErrVersionNotFound, s)"
      using assms(1) by (auto simp: pg_policy_ops_def PgPolicy_GetVersion_def pp_begin_ok split: option.splits)
    have "\<exists>b s3. po_PutVersion pg_policy_ops ?v s = (Inr b, s3) \<and> pp_fails s3 = [] \<and> pp_policies s3 = pp_policies s \<and>
        map_of (pp_versions s3) h \<noteq> None"
      using assms(1-4) by (auto simp: pg_policy_ops_def PgPolicy_PutVersion_def pp_begin_ok new_version_def split: option.split)
    then obtain b s3 where put: "po_PutVersion pg_policy_ops ?v s = (Inr b, s3)" and s3: "pp_fails s3 = []" "pp_policies s3 = pp_policies s"
      "map_of (pp_versions s3) h \<noteq> None" by blast
    have "pv_VersionHash ?v = h" by (simp add: new_version_def)
    moreover have "Service_Publish pg_policy_ops schema c signer clk orgID i author s = designate pg_policy_ops (clk 1) (clk 2) p ?v s3"
      using assms(3,4,6) msg hash get gv put by (simp add: Service_Publish_def Let_def)
    ultimately show ?thesis
      using pg_designate_succeeds [OF s3(1), of p p ?v "clk 1" "clk 2"] assms(2-4) s3 by auto
  qed
qed

lemma pg_rollback_succeeds:
  assumes "pp_fails s = []" "map_of (pp_policies s) i = Some p" "cp_OrgID p = orgID" "cp_ID p = i"
    and "map_of (pp_versions s) h = Some v" "ver_key v = (orgID, i, h)"
  shows "\<exists>s'. Service_Rollback pg_policy_ops clk orgID i h s = (Inr v, s') \<and> pp_fails s' = [] \<and> pp_versions s' = pp_versions s \<and>
    (\<exists>q'. map_of (pp_policies s') i = Some q' \<and> cp_OrgID q' = orgID \<and> cp_ID q' = i \<and> cp_Name q' = pv_Name v \<and>
       cp_Agents q' = Some (pv_Agents v) \<and> cp_Rules q' = pv_Rules v)"
  using assms by (simp add: Service_Rollback_def pointOrgBundle_def pg_policy_ops_def PgPolicy_Get_def PgPolicy_GetVersion_def
      PgPolicy_Update_def PgPolicy_SetActiveBundle_def pp_begin_ok of_nil_def)

text \<open>C37: rollback. It creates no version: it reinstates the stored one, and the working copy gets
  its content, so that publishing afterwards returns that very version.\<close>

theorem rollback_roundtrip:
  assumes "ed25519_pair c pub (sgn_priv signer)"
    and "pg_ctl schema c signer (NewPgPolicyStore fails) s"
    and "Service_Rollback pg_policy_ops clk org i h s = (Inr v, s')"
    and "Service_Publish pg_policy_ops schema c signer clk' org i author s' = (Inr w, s'')"
  shows "ver_key v = (org, i, h) \<and> serving (pg_policy_abs s') v \<and> w = v \<and> as_vers (pg_policy_abs s'') = as_vers (pg_policy_abs s)"
proof -
  note r = pg_reachable [OF assms(2,1)]
  from pg_policies.rollback_step [OF r TrueI assms(3)]
  have s': "pg_policy_inv s'" "control_plane_ok c schema pub (pg_policy_abs s')"
    and v: "as_vers (pg_policy_abs s) (org, i, h) = Some v" "as_vers (pg_policy_abs s') = as_vers (pg_policy_abs s)"
      "serving (pg_policy_abs s') v"
    by (auto simp: kept_by_def)
  have key: "ver_key v = (org, i, h)" using version_soundD(1) [OF okD(1) [OF r(2) v(1)]] .
  from v(3) obtain q where q: "as_pols (pg_policy_abs s') (pv_OrgID v, pv_PolicyID v) = Some q" "snapshot q v"
    unfolding serving_def by blast
  from pg_policies.republish [OF s' TrueI assms(1) _ q] assms(4) key v show ?thesis by auto
qed

section \<open>A concrete run\<close>

lemma demo_pair: "ed25519_pair demo_crypto demo_seed (sgn_priv demo_signer)"
  by (simp add: ed25519_pair_def demo_crypto_def demo_signer_def demo_seed_def)

definition demo_clk :: clock where "demo_clk n = int n * 1000"

abbreviation demo_ctl :: "PgPolicyStore \<Rightarrow> PgPolicyStore \<Rightarrow> bool" where
  "demo_ctl \<equiv> pg_ctl demo_validator demo_crypto demo_signer"

lemma demo_collision_free: "collision_free demo_crypto a"
  by (simp add: collision_free_def demo_separated)

lemma demo_created:
  obtains s p where "demo_ctl (NewPgPolicyStore []) s" "pp_fails s = []" "map_of (pp_policies s) ''p1'' = Some p"
    "cp_OrgID p = ''org''" "cp_ID p = ''p1''" "cp_Name p = ''demo''" "cp_Agents p = Some []" "cp_Rules p = demo_rules"
proof -
  have "\<exists>p s. Service_Create pg_policy_ops demo_clk ''p1'' ''org'' ''demo'' None demo_rules (NewPgPolicyStore []) = (Inr p, s) \<and> pp_fails s = [] \<and>
    (\<exists>q. map_of (pp_policies s) ''p1'' = Some q \<and> cp_OrgID q = ''org'' \<and> cp_ID q = ''p1'' \<and> cp_Name q = ''demo'' \<and>
       cp_Agents q = Some (of_nil None) \<and> cp_Rules q = demo_rules)"
    by (rule pg_create_succeeds) (simp_all add: NewPgPolicyStore_def)
  then obtain p s where run: "Service_Create pg_policy_ops demo_clk ''p1'' ''org'' ''demo'' None demo_rules (NewPgPolicyStore []) = (Inr p, s)"
    and s: "pp_fails s = []" "\<exists>q. map_of (pp_policies s) ''p1'' = Some q \<and> cp_OrgID q = ''org'' \<and> cp_ID q = ''p1'' \<and> cp_Name q = ''demo'' \<and>
       cp_Agents q = Some (of_nil None) \<and> cp_Rules q = demo_rules" by blast
  have "demo_ctl (NewPgPolicyStore []) s"
    by (rule r_into_rtranclp, rule ctl_step.create [OF TrueI demo_rules_typed run])
  with s that show thesis by (auto simp: of_nil_def)
qed

lemma demo_published:
  obtains s v s' p where "demo_ctl (NewPgPolicyStore []) s"
    "Service_Publish pg_policy_ops demo_validator demo_crypto demo_signer demo_clk ''org'' ''p1'' ''key'' s = (Inr v, s')"
    "pp_fails s' = []" "map_of (pp_versions s') (pv_VersionHash v) \<noteq> None" "map_of (pp_policies s') ''p1'' = Some p"
    "cp_OrgID p = ''org''" "cp_ID p = ''p1''" "cp_Name p = ''demo''" "cp_Agents p = Some []" "cp_Rules p = demo_rules"
proof -
  obtain s p where s: "demo_ctl (NewPgPolicyStore []) s" "pp_fails s = []" "map_of (pp_policies s) ''p1'' = Some p"
    "cp_OrgID p = ''org''" "cp_ID p = ''p1''" "cp_Name p = ''demo''" "cp_Agents p = Some []" "cp_Rules p = demo_rules"
    by (rule demo_created)
  have val: "Validate demo_validator demo_crypto ''org'' (cp_Name p) (cp_Agents p) (cp_Rules p) = None"
    using demo_validates s by simp
  from pg_publish_succeeds [OF s(2-5) pg_reachable(1) [OF s(1) demo_pair] val demo_jcs_total, of demo_signer demo_clk "''key''"]
  show thesis using that s by (auto simp: of_nil_def)
qed

text \<open>The published version as the database keeps it.\<close>

lemma demo_stored:
  obtains s v p where "demo_ctl (NewPgPolicyStore []) s" "pp_fails s = []" "map_of (pp_versions s) (pv_VersionHash v) = Some v"
    "ver_key v = (''org'', ''p1'', pv_VersionHash v)" "pv_Name v = ''demo''" "pv_Agents v = []" "pv_Rules v = demo_rules"
    "map_of (pp_policies s) ''p1'' = Some p" "cp_OrgID p = ''org''" "cp_ID p = ''p1''"
proof -
  obtain s0 v0 s p where s: "demo_ctl (NewPgPolicyStore []) s0"
    "Service_Publish pg_policy_ops demo_validator demo_crypto demo_signer demo_clk ''org'' ''p1'' ''key'' s0 = (Inr v0, s)"
    "pp_fails s = []" "map_of (pp_versions s) (pv_VersionHash v0) \<noteq> None" and p: "map_of (pp_policies s) ''p1'' = Some p"
    "cp_OrgID p = ''org''" "cp_ID p = ''p1''" "cp_Name p = ''demo''" "cp_Agents p = Some []" "cp_Rules p = demo_rules"
    by (rule demo_published)
  have r: "demo_ctl (NewPgPolicyStore []) s"
    using s(1) ctl_step.publish [OF TrueI demo_collision_free s(2)] by (rule rtranclp.rtrancl_into_rtrancl)
  note ok0 = pg_reachable [OF s(1) demo_pair]
  from pg_policies.publish_free [OF ok0 TrueI demo_collision_free demo_pair s(2)]
  have res: "publish_result (pg_policy_abs s0) (pg_policy_abs s) ''org'' ''p1'' v0" by blast
  then obtain t where v: "as_vers (pg_policy_abs s) (ver_key v0) = Some (v0\<lparr>pv_PublishedAt := t\<rparr>)"
    unfolding publish_result_def stored_def by metis
  have key: "pv_OrgID v0 = ''org''" "pv_PolicyID v0 = ''p1''"
    using res okD(2) [OF ok0(2)] by (auto simp: publish_result_def snapshot_def policy_sound_def)
  from res obtain q where "as_pols (pg_policy_abs s) (pv_OrgID v0, pv_PolicyID v0) = Some q" "snapshot q v0"
    unfolding publish_result_def serving_def by blast
  with p key have con: "pv_Name v0 = ''demo''" "pv_Agents v0 = []" "pv_Rules v0 = demo_rules"
    by (auto simp: pg_policy_abs_def owned_Some snapshot_def of_nil_def)
  have "map_of (pp_versions s) (pv_VersionHash v0) = Some (v0\<lparr>pv_PublishedAt := t\<rparr>)"
    using v key by (auto simp: pg_policy_abs_def owned_Some)
  with that [of s "v0\<lparr>pv_PublishedAt := t\<rparr>" p] r s p key con show thesis by simp
qed

theorem control_plane_invariant_witness:
  "\<exists>s v t. demo_ctl (NewPgPolicyStore []) s \<and> PgPolicy_GetVersion ''org'' ''p1'' (pv_VersionHash v) s = (Inr v, t) \<and>
     version_sound demo_crypto demo_validator demo_seed (''org'', ''p1'', pv_VersionHash v) v"
proof -
  obtain s v p where s: "demo_ctl (NewPgPolicyStore []) s" "pp_fails s = []" "map_of (pp_versions s) (pv_VersionHash v) = Some v"
    "ver_key v = (''org'', ''p1'', pv_VersionHash v)" by (rule demo_stored)
  then have gv: "PgPolicy_GetVersion ''org'' ''p1'' (pv_VersionHash v) s = (Inr v, s)"
    by (simp add: PgPolicy_GetVersion_def pp_begin_ok)
  from control_plane_invariant [OF demo_pair s(1) rtranclp.rtrancl_refl gv gv] s(1) gv show ?thesis by blast
qed

theorem publish_serves_witness:
  "\<exists>s v s'. demo_ctl (NewPgPolicyStore []) s \<and>
     Service_Publish pg_policy_ops demo_validator demo_crypto demo_signer demo_clk ''org'' ''p1'' ''key'' s = (Inr v, s') \<and>
     VerifyVersion demo_crypto v demo_seed = None"
proof -
  obtain s v s' p where s: "demo_ctl (NewPgPolicyStore []) s"
    "Service_Publish pg_policy_ops demo_validator demo_crypto demo_signer demo_clk ''org'' ''p1'' ''key'' s = (Inr v, s')"
    by (rule demo_published)
  with publish_serves [OF demo_pair s(1) demo_collision_free s(2)] show ?thesis by blast
qed

theorem rollback_roundtrip_witness:
  "\<exists>s h v s' w s''. Service_Rollback pg_policy_ops demo_clk ''org'' ''p1'' h s = (Inr v, s') \<and>
     Service_Publish pg_policy_ops demo_validator demo_crypto demo_signer demo_clk ''org'' ''p1'' ''key'' s' = (Inr w, s'') \<and> w = v"
proof -
  obtain s v p where s: "demo_ctl (NewPgPolicyStore []) s" "pp_fails s = []" "map_of (pp_versions s) (pv_VersionHash v) = Some v"
    "ver_key v = (''org'', ''p1'', pv_VersionHash v)" and con: "pv_Name v = ''demo''" "pv_Agents v = []" "pv_Rules v = demo_rules"
    and p: "map_of (pp_policies s) ''p1'' = Some p" "cp_OrgID p = ''org''" "cp_ID p = ''p1''" by (rule demo_stored)
  obtain s' q' where rb: "Service_Rollback pg_policy_ops demo_clk ''org'' ''p1'' (pv_VersionHash v) s = (Inr v, s')" "pp_fails s' = []"
    and q': "map_of (pp_policies s') ''p1'' = Some q'" "cp_OrgID q' = ''org''" "cp_ID q' = ''p1''" "cp_Name q' = ''demo''"
      "cp_Agents q' = Some []" "cp_Rules q' = demo_rules"
    using pg_rollback_succeeds [OF s(2) p s(3,4), of demo_clk] con by auto
  have r': "demo_ctl (NewPgPolicyStore []) s'"
    using s(1) ctl_step.rollback [OF TrueI rb(1)] by (rule rtranclp.rtrancl_into_rtrancl)
  have val': "Validate demo_validator demo_crypto ''org'' (cp_Name q') (cp_Agents q') (cp_Rules q') = None"
    using demo_validates q' by simp
  obtain w s'' where pub: "Service_Publish pg_policy_ops demo_validator demo_crypto demo_signer demo_clk ''org'' ''p1'' ''key'' s' = (Inr w, s'')"
    using pg_publish_succeeds [OF rb(2) q'(1-3) pg_reachable(1) [OF r' demo_pair] val' demo_jcs_total] by blast
  from rollback_roundtrip [OF demo_pair s(1) rb(1) pub] rb(1) pub show ?thesis by blast
qed

end
