(* ===== verification/Bundle.thy ===== *)
theory Bundle
  imports Policy_Service
begin

text \<open>
  \<open>internal/bundle\<close>: compiling a published version into the policy the engine evaluates, the
  provider that serves each organisation's active bundle from its cache and refreshes it, and the
  simulator. The provider's world is its cache together with the control-plane store it reads; a
  store read that times out is one that fails.
\<close>

section \<open>Compile\<close>

definition droppedTypes :: "string list" where
  "droppedTypes = map PredicateType_str [TypeSanctionsScreen, TypeVendorRisk]"

definition budget_decl :: "Rule \<Rightarrow> BudgetDecl" where
  "budget_decl r = \<lparr>bd_ID = pd_ID r, bd_Agents = pd_Agents r, bd_Window = r_Window r, bd_Limit = r_Limit r,
     bd_Currency = pd_Currency r\<rparr>"

fun split_rules :: "Rule list \<Rightarrow> Rule list \<times> BudgetDecl list" where
  "split_rules [] = ([], [])"
| "split_rules (r # rs) =
     (let (loc, budgets) = split_rules rs in
      if pd_Type r = PredicateType_str TypeRollingBudget then (loc, budget_decl r # budgets)
      else if pd_Type r \<in> set droppedTypes then (loc, budgets)
      else (r # loc, budgets))"

definition CompileRules :: "crypto \<Rightarrow> string \<Rightarrow> Rule list \<Rightarrow> policy_error + Policy" where
  "CompileRules c version rules =
     (let (loc, budgets) = split_rules rules in
      case Parse c (Inr (JsonObj [(''predicates'', JsonArr (map json_of_Rule loc)), (''version'', JsonString version)])) of
        Inl e \<Rightarrow> Inl e
      | Inr pol \<Rightarrow> Inr (pol\<lparr>pol_Budgets := budgets\<rparr>))"

definition Compile :: "crypto \<Rightarrow> PolicyVersion \<Rightarrow> policy_error + Policy" where
  "Compile c v = CompileRules c (pv_VersionHash v) (pv_Rules v)"

section \<open>The provider\<close>

record bundle_entry =
  be_hash :: string
  be_pol :: Policy

record 's Provider =
  bp_cache :: "(string \<times> bundle_entry) list"
  bp_src :: 's

definition NewProvider :: "'s \<Rightarrow> 's Provider" where
  "NewProvider src = \<lparr>bp_cache = [], bp_src = src\<rparr>"

definition compileRef :: "'s policy_ops \<Rightarrow> crypto \<Rightarrow> BundleRef \<Rightarrow> 's \<Rightarrow> (engine_error + Policy) \<times> 's" where
  "compileRef st c ref s =
     (case po_GetVersion st (bref_OrgID ref) (bref_PolicyID ref) (bref_VersionHash ref) s of
        (Inl _, s1) \<Rightarrow> (Inl (ErrProvider (''bundle: load version '' @ bref_VersionHash ref)), s1)
      | (Inr v, s1) \<Rightarrow>
          (case Compile c v of
             Inl e \<Rightarrow> (Inl (ErrProvider (''bundle: compile '' @ pv_VersionHash v @ '': '' @ policy_error_str e)), s1)
           | Inr pol \<Rightarrow> (Inr pol, s1)))"

definition Provider_load :: "'s policy_ops \<Rightarrow> crypto \<Rightarrow> string \<Rightarrow> 's Provider \<Rightarrow> (engine_error + Policy) \<times> 's Provider" where
  "Provider_load st c orgID w =
     (case po_GetActiveBundle st orgID (bp_src w) of
        (Inl e, s1) \<Rightarrow>
          (Inl (if e = ErrBundleNotFound then ErrNoActiveBundle else ErrProvider (''bundle: read active for org '' @ orgID)),
           w\<lparr>bp_src := s1\<rparr>)
      | (Inr ref, s1) \<Rightarrow>
          (case compileRef st c ref s1 of
             (Inl e, s2) \<Rightarrow> (Inl e, w\<lparr>bp_src := s2\<rparr>)
           | (Inr pol, s2) \<Rightarrow>
               (Inr pol, w\<lparr>bp_src := s2,
                  bp_cache := alist_put orgID \<lparr>be_hash = bref_VersionHash ref, be_pol = pol\<rparr> (bp_cache w)\<rparr>)))"

definition Provider_Active :: "'s policy_ops \<Rightarrow> crypto \<Rightarrow> string \<Rightarrow> 's Provider \<Rightarrow> (engine_error + Policy) \<times> 's Provider" where
  "Provider_Active st c orgID w =
     (case map_of (bp_cache w) orgID of
        Some e \<Rightarrow> (Inr (be_pol e), w)
      | None \<Rightarrow> Provider_load st c orgID w)"

definition Provider_Invalidate :: "'s policy_ops \<Rightarrow> crypto \<Rightarrow> string \<Rightarrow> 's Provider \<Rightarrow> engine_error option \<times> 's Provider" where
  "Provider_Invalidate st c orgID w =
     (case Provider_load st c orgID w of
        (Inl e, w1) \<Rightarrow> (Some e, w1)
      | (Inr _, w1) \<Rightarrow> (None, w1))"

definition refreshOrg :: "'s policy_ops \<Rightarrow> crypto \<Rightarrow> string \<Rightarrow> 's Provider \<Rightarrow> 's Provider" where
  "refreshOrg st c orgID w =
     (case po_GetActiveBundle st orgID (bp_src w) of
        (Inl _, s1) \<Rightarrow> w\<lparr>bp_src := s1\<rparr>
      | (Inr ref, s1) \<Rightarrow>
          if (case map_of (bp_cache w) orgID of Some cur \<Rightarrow> be_hash cur = bref_VersionHash ref | None \<Rightarrow> False)
          then w\<lparr>bp_src := s1\<rparr>
          else (case compileRef st c ref s1 of
                  (Inl _, s2) \<Rightarrow> w\<lparr>bp_src := s2\<rparr>
                | (Inr pol, s2) \<Rightarrow>
                    w\<lparr>bp_src := s2,
                      bp_cache := alist_put orgID \<lparr>be_hash = bref_VersionHash ref, be_pol = pol\<rparr> (bp_cache w)\<rparr>))"

text \<open>\<open>refreshAll\<close> visits the organisations cached when it starts, in the order of the map, which Go
  leaves open: the cache's order here. \<open>Run\<close> is one \<open>refreshAll\<close> per tick.\<close>

definition refreshAll :: "'s policy_ops \<Rightarrow> crypto \<Rightarrow> 's Provider \<Rightarrow> 's Provider" where
  "refreshAll st c w = fold (refreshOrg st c) (map fst (bp_cache w)) w"

primrec Provider_Run :: "'s policy_ops \<Rightarrow> crypto \<Rightarrow> nat \<Rightarrow> 's Provider \<Rightarrow> 's Provider" where
  "Provider_Run st c 0 w = w"
| "Provider_Run st c (Suc ticks) w = Provider_Run st c ticks (refreshAll st c w)"

section \<open>The simulator\<close>

datatype sim_error = SimStore ctl_error | SimValidation "Problem list" | SimCompile policy_error

definition simulate_one :: "gotime \<Rightarrow> Policy \<Rightarrow> string \<Rightarrow> AuthorizeRequest \<Rightarrow> Decision" where
  "simulate_one now pol decID req =
     (let evaluatedAt = (if req_EvaluatedAt req = [] then format_RFC3339 now else req_EvaluatedAt req)
      in (Evaluate decID pol req evaluatedAt)\<lparr>dec_Shadow := True\<rparr>)"

text \<open>Each request comes with the clock and the decision id drawn for it.\<close>

definition Simulate :: "'s policy_ops \<Rightarrow> schema_validator \<Rightarrow> crypto \<Rightarrow> string \<Rightarrow> string \<Rightarrow> string
    \<Rightarrow> (gotime \<times> string \<times> AuthorizeRequest) list \<Rightarrow> 's \<Rightarrow> (sim_error + string \<times> Decision list) \<times> 's" where
  "Simulate st schema c orgID policyID versionHash reqs s =
     (let run = (\<lambda>label pol s1. (Inr (label, map (\<lambda>(now, decID, req). simulate_one now pol decID req) reqs), s1)) in
      if versionHash \<noteq> [] then
        (case po_GetVersion st orgID policyID versionHash s of
           (Inl e, s1) \<Rightarrow> (Inl (SimStore e), s1)
         | (Inr v, s1) \<Rightarrow>
             (case Compile c v of
                Inl e \<Rightarrow> (Inl (SimCompile e), s1)
              | Inr pol \<Rightarrow> run (pv_VersionHash v) pol s1))
      else
        (case po_Get st orgID policyID s of
           (Inl e, s1) \<Rightarrow> (Inl (SimStore e), s1)
         | (Inr p, s1) \<Rightarrow>
             (case Validate schema c (cp_OrgID p) (cp_Name p) (cp_Agents p) (cp_Rules p) of
                Some problems \<Rightarrow> (Inl (SimValidation problems), s1)
              | None \<Rightarrow>
                  let label = ''draft:'' @ cp_ID p in
                  (case CompileRules c label (cp_Rules p) of
                     Inl e \<Rightarrow> (Inl (SimCompile e), s1)
                   | Inr pol \<Rightarrow> run label pol s1))))"

section \<open>Published policies are servable\<close>

lemma split_rules_eq:
  "split_rules rules =
     (filter (\<lambda>r. pd_Type r \<noteq> PredicateType_str TypeRollingBudget \<and> pd_Type r \<notin> set droppedTypes) rules,
      map budget_decl (filter (\<lambda>r. pd_Type r = PredicateType_str TypeRollingBudget) rules))"
  by (induction rules) auto

lemma local_types:
  assumes "\<exists>t. ty = PredicateType_str t"
  shows "ty \<noteq> PredicateType_str TypeRollingBudget \<and> ty \<notin> set droppedTypes \<longleftrightarrow> ty \<in> set localRuleTypes"
proof -
  obtain t where t: "ty = PredicateType_str t" using assms ..
  show ?thesis unfolding t by (cases t) (simp_all add: droppedTypes_def localRuleTypes_def)
qed

definition local_rules :: "Rule list \<Rightarrow> Rule list" where
  "local_rules rules = filter (\<lambda>r. pd_Type r \<in> set localRuleTypes) rules"

definition budget_rules :: "Rule list \<Rightarrow> Rule list" where
  "budget_rules rules = filter (\<lambda>r. pd_Type r = PredicateType_str TypeRollingBudget) rules"

text \<open>The compiled policy is the one the rules declare.\<close>

definition compiled_from :: "Rule list \<Rightarrow> string \<Rightarrow> Policy \<Rightarrow> bool" where
  "compiled_from rules version pol \<longleftrightarrow> pol_Version pol = version \<and>
     list_all2 (\<lambda>r p. build r = Inr p) (local_rules rules) (pol_Predicates pol) \<and>
     pol_Budgets pol = map budget_decl (budget_rules rules) \<and> policy_wf pol"

lemma plain_json_of_Rule: "plain_rule r \<Longrightarrow> json_of_Rule r = JsonObj (doc_members r)"
  by (simp add: json_of_Rule_def rule_members_def plain_rule_def omitempty_def)

lemma valid_rules_compile:
  assumes typed: "list_all doc_typed rules" and dist: "distinct (map pd_ID rules)" and "version \<noteq> []"
    and valid: "\<And>r. r \<in> set rules \<Longrightarrow> rule_schema_valid (wire_of_Rule r)"
  shows "\<exists>pol. CompileRules c version rules = Inr pol \<and> compiled_from rules version pol"
proof -
  let ?loc = "local_rules rules"
  have split: "split_rules rules = (?loc, map budget_decl (budget_rules rules))"
    using valid_rule(2) [OF valid] local_types
    by (auto simp: split_rules_eq local_rules_def budget_rules_def intro!: filter_cong)
  have loc: "loadable r \<and> doc_typed r \<and> pd_ID r \<noteq> []" if "r \<in> set ?loc" for r
    using that valid_rule [OF valid [of r]] typed by (auto simp: list_all_iff local_rules_def)
  have docs: "map json_of_Rule ?loc = map (\<lambda>d. JsonObj (doc_members d)) ?loc"
    using loc by (auto simp: loadable_def plain_json_of_Rule)
  have "\<exists>ps. build_loop 0 [] (map doc_of ?loc) = Inr ps \<and> list_all2 (\<lambda>r p. build r = Inr p) ?loc ps"
    using loc dist by (intro build_loop_docs) (auto simp: loadable_def local_rules_def distinct_map_filter)
  then obtain ps where ps: "build_loop 0 [] (map doc_of ?loc) = Inr ps" "list_all2 (\<lambda>r p. build r = Inr p) ?loc ps" by blast
  have "list_all doc_typed (map doc_of ?loc)"
    using loc by (auto simp: list_all_iff doc_typed_def)
  then have pwf: "policy_wf \<lparr>pol_Version = version, pol_Predicates = ps, pol_Budgets = map budget_decl (budget_rules rules)\<rparr>"
    using ps(1) assms(3) by (intro built_policy_wf)
  have "dec_file (JsonObj [(''predicates'', JsonArr (map json_of_Rule ?loc)), (''version'', JsonString version)]) =
      Inr \<lparr>fi_Version = version, fi_Predicates = Some (map doc_of ?loc)\<rparr>"
    unfolding docs using loc by (intro dec_file_documents) (auto simp: list_all_iff)
  with ps pwf assms(3) show ?thesis
    by (simp add: CompileRules_def split Parse_def of_nil_def compiled_from_def)
qed

lemma valid_policy_compiles:
  assumes "validates_schema schema" "list_all doc_typed rules" "Validate schema c orgID name agents rules = None" "version \<noteq> []"
  shows "\<exists>pol. CompileRules c version rules = Inr pol \<and> compiled_from rules version pol"
proof -
  have sv: "policy_schema_valid (policy_doc orgID name agents rules)" "duplicate_problems 0 [] rules = []"
    using assms(1,3) by (auto simp: Validate_None validates_schema_def)
  note valid = valid_policy_rules [OF sv(1)]
  have "list_all (\<lambda>r. pd_ID r \<noteq> []) rules" using valid_rule(1) [OF valid] by (simp add: list_all_iff)
  then have "distinct (map pd_ID rules)" using sv(2) by (simp add: duplicate_problems_Nil)
  then show ?thesis by (rule valid_rules_compile [OF assms(2) _ assms(4) valid])
qed

text \<open>What is publishable is servable. A policy that validation accepts compiles, under any
  version label: its predicates are the local rules in order, each as the loader builds it, its
  budgets the rolling-budget rules in order, and the compiled policy is well formed.\<close>

theorem publishable_servable:
  assumes "validates_schema schema" "list_all doc_typed rules" "Validate schema c orgID name agents rules = None" "version \<noteq> []"
  shows "\<exists>pol. CompileRules c version rules = Inr pol \<and> compiled_from rules version pol"
  using assms by (rule valid_policy_compiles)

theorem publishable_servable_witness:
  "\<exists>pol. CompileRules demo_crypto ''v1'' demo_rules = Inr pol \<and> compiled_from demo_rules ''v1'' pol"
  by (rule publishable_servable [OF demo_validator_ok demo_rules_typed demo_validates]) simp

lemma version_compiles:
  assumes "validates_schema schema" "version_sound c schema pub k v"
  shows "\<exists>pol. Compile c v = Inr pol \<and> compiled_from (pv_Rules v) (pv_VersionHash v) pol"
proof -
  obtain agents where "Validate schema c (pv_OrgID v) (pv_Name v) agents (pv_Rules v) = None"
    using assms(2) by (auto simp: version_sound_def)
  then show ?thesis
    unfolding Compile_def
    using version_soundD [OF assms(2)] by (intro valid_policy_compiles [OF assms(1)]) (auto dest: ContentHash_nonempty)
qed

section \<open>The cache serves published versions\<close>

definition cache_ok :: "crypto \<Rightarrow> policy_state \<Rightarrow> (string \<times> bundle_entry) list \<Rightarrow> bool" where
  "cache_ok c a cache \<longleftrightarrow>
     (\<forall>org e. map_of cache org = Some e \<longrightarrow>
        (\<exists>i v. as_vers a (org, i, be_hash e) = Some v \<and> pv_VersionHash v = be_hash e \<and> Compile c v = Inr (be_pol e)))"

lemma cache_ok_mono: "cache_ok c a cache \<Longrightarrow> as_vers a \<subseteq>\<^sub>m as_vers a' \<Longrightarrow> cache_ok c a' cache"
  unfolding cache_ok_def map_le_def by (metis domI)

text \<open>The bundle the organisation points at, compiled.\<close>

definition active_policy :: "crypto \<Rightarrow> policy_state \<Rightarrow> string \<Rightarrow> bundle_entry \<Rightarrow> bool" where
  "active_policy c a org e \<longleftrightarrow>
     (\<exists>b v. as_bund a org = Some b \<and> bref_VersionHash b = be_hash e \<and>
        as_vers a (org, bref_PolicyID b, be_hash e) = Some v \<and> pv_VersionHash v = be_hash e \<and> Compile c v = Inr (be_pol e))"

lemma cache_ok_put: "cache_ok c a cache \<Longrightarrow> active_policy c a org e \<Longrightarrow> cache_ok c a (alist_put org e cache)"
  by (auto simp: cache_ok_def active_policy_def)

definition provider_ok :: "('s \<Rightarrow> bool) \<Rightarrow> ('s \<Rightarrow> policy_state) \<Rightarrow> crypto \<Rightarrow> schema_validator \<Rightarrow> string \<Rightarrow> 's Provider \<Rightarrow> bool" where
  "provider_ok good view c schema pub w \<longleftrightarrow>
     good (bp_src w) \<and> control_plane_ok c schema pub (view (bp_src w)) \<and> cache_ok c (view (bp_src w)) (bp_cache w)"

context policy_store
begin

abbreviation "node_ok \<equiv> provider_ok inv abs"

text \<open>Compiling the reference of an organisation's bundle.\<close>

lemma compileRef_ok:
  assumes "inv s" "control_plane_ok c schema pub (abs s)" "org_ok org" "as_bund (abs s) org = Some b"
    and "compileRef ops c b s = (r, s')"
  shows "inv s' \<and> abs s' = abs s \<and> (\<forall>pol. r = Inr pol \<longrightarrow> active_policy c (abs s) org \<lparr>be_hash = bref_VersionHash b, be_pol = pol\<rparr>)"
proof -
  have b: "bref_OrgID b = org" using okD(3) [OF assms(2,4)] by (simp add: bundle_sound_def)
  obtain y s1 where y: "po_GetVersion ops org (bref_PolicyID b) (bref_VersionHash b) s = (y, s1)"
    by (cases "po_GetVersion ops org (bref_PolicyID b) (bref_VersionHash b) s")
  note gv = get_version [OF assms(1,3) y]
  show ?thesis
  proof (cases y)
    case (Inl e)
    with gv assms(5) b y show ?thesis by (auto simp: compileRef_def)
  next
    case (Inr v)
    with gv have v: "as_vers (abs s) (org, bref_PolicyID b, bref_VersionHash b) = Some v" by simp
    then have "pv_VersionHash v = bref_VersionHash b" using version_soundD(1) [OF okD(1) [OF assms(2)]] by auto
    with gv assms(4,5) b y Inr v show ?thesis
      by (auto simp: compileRef_def active_policy_def split: sum.splits)
  qed
qed

lemma load_ok:
  assumes "node_ok c schema pub w" "org_ok org" "Provider_load ops c org w = (r, w')"
  shows "node_ok c schema pub w' \<and> abs (bp_src w') = abs (bp_src w) \<and>
    (\<forall>o'. o' \<noteq> org \<longrightarrow> map_of (bp_cache w') o' = map_of (bp_cache w) o') \<and>
    (case r of Inr pol \<Rightarrow> (\<exists>e. map_of (bp_cache w') org = Some e \<and> be_pol e = pol \<and> active_policy c (abs (bp_src w)) org e)
     | Inl e \<Rightarrow> bp_cache w' = bp_cache w \<and> (e = ErrNoActiveBundle \<longrightarrow> as_bund (abs (bp_src w)) org = None))"
proof -
  let ?s = "bp_src w"
  have w: "inv ?s" "control_plane_ok c schema pub (abs ?s)" "cache_ok c (abs ?s) (bp_cache w)"
    using assms(1) by (simp_all add: provider_ok_def)
  obtain z s1 where z: "po_GetActiveBundle ops org ?s = (z, s1)" by (cases "po_GetActiveBundle ops org ?s")
  note gb = get_bundle [OF w(1) assms(2) z]
  show ?thesis
  proof (cases z)
    case (Inl e)
    with gb z assms(3) w show ?thesis
      by (auto simp: Provider_load_def provider_ok_def store_fault_def split: if_splits)
  next
    case (Inr b)
    with gb have b: "inv s1" "abs s1 = abs ?s" "as_bund (abs s1) org = Some b" by simp_all
    obtain q s2 where q: "compileRef ops c b s1 = (q, s2)" by (cases "compileRef ops c b s1")
    from compileRef_ok [OF b(1) _ assms(2) b(3) q] b(2) w(2)
    have s2: "inv s2" "abs s2 = abs ?s" "\<And>pol. q = Inr pol \<Longrightarrow> active_policy c (abs ?s) org \<lparr>be_hash = bref_VersionHash b, be_pol = pol\<rparr>"
      by auto
    show ?thesis
    proof (cases q)
      case (Inl e)
      with z Inr q assms(3) s2 w show ?thesis
        by (auto simp: Provider_load_def provider_ok_def compileRef_def split: sum.splits prod.splits)
    next
      case pol: (Inr pol)
      with cache_ok_put [OF w(3) s2(3) [OF pol]] z Inr q assms(3) s2 w show ?thesis
        by (auto simp: Provider_load_def provider_ok_def)
    qed
  qed
qed

lemma active_ok:
  assumes "node_ok c schema pub w" "org_ok org" "Provider_Active ops c org w = (r, w')"
  shows "node_ok c schema pub w' \<and> abs (bp_src w') = abs (bp_src w) \<and>
    (case r of Inr pol \<Rightarrow> (\<exists>i v. as_vers (abs (bp_src w)) (org, i, pv_VersionHash v) = Some v \<and> Compile c v = Inr pol)
     | Inl e \<Rightarrow> e = ErrNoActiveBundle \<longrightarrow> as_bund (abs (bp_src w)) org = None)"
proof (cases "map_of (bp_cache w) org")
  case None
  with assms(3) have load: "Provider_load ops c org w = (r, w')" by (simp add: Provider_Active_def)
  show ?thesis
  proof (cases r)
    case (Inl e)
    with load_ok [OF assms(1,2) load] show ?thesis by simp
  next
    case (Inr pol)
    with load_ok [OF assms(1,2) load] have ok: "node_ok c schema pub w'" "abs (bp_src w') = abs (bp_src w)"
      and "\<exists>e. map_of (bp_cache w') org = Some e \<and> be_pol e = pol \<and> active_policy c (abs (bp_src w)) org e" by simp_all
    then obtain e where "be_pol e = pol" "active_policy c (abs (bp_src w)) org e" by blast
    then have "\<exists>i v. as_vers (abs (bp_src w)) (org, i, pv_VersionHash v) = Some v \<and> Compile c v = Inr pol"
      unfolding active_policy_def by metis
    with ok Inr show ?thesis by simp
  qed
next
  case (Some e)
  with assms(3) have r: "r = Inr (be_pol e)" "w' = w" by (simp_all add: Provider_Active_def)
  have "cache_ok c (abs (bp_src w)) (bp_cache w)" using assms(1) by (simp add: provider_ok_def)
  then have "\<exists>i v. as_vers (abs (bp_src w)) (org, i, pv_VersionHash v) = Some v \<and> Compile c v = Inr (be_pol e)"
    using Some unfolding cache_ok_def by metis
  with assms(1) r show ?thesis by simp
qed

lemma refresh_ok:
  assumes "node_ok c schema pub w" "org_ok org"
  shows "node_ok c schema pub (refreshOrg ops c org w) \<and> abs (bp_src (refreshOrg ops c org w)) = abs (bp_src w) \<and>
    (\<forall>o'. o' \<noteq> org \<longrightarrow> map_of (bp_cache (refreshOrg ops c org w)) o' = map_of (bp_cache w) o') \<and>
    (map_of (bp_cache (refreshOrg ops c org w)) org = map_of (bp_cache w) org \<or>
     (\<exists>e. map_of (bp_cache (refreshOrg ops c org w)) org = Some e \<and> active_policy c (abs (bp_src w)) org e))"
proof -
  let ?s = "bp_src w"
  have w: "inv ?s" "control_plane_ok c schema pub (abs ?s)" "cache_ok c (abs ?s) (bp_cache w)"
    using assms(1) by (simp_all add: provider_ok_def)
  obtain z s1 where z: "po_GetActiveBundle ops org ?s = (z, s1)" by (cases "po_GetActiveBundle ops org ?s")
  note gb = get_bundle [OF w(1) assms(2) z]
  show ?thesis
  proof (cases z)
    case (Inl e)
    with gb z w show ?thesis by (simp add: refreshOrg_def provider_ok_def)
  next
    case (Inr b)
    with gb have b: "inv s1" "abs s1 = abs ?s" "as_bund (abs s1) org = Some b" by simp_all
    obtain q s2 where q: "compileRef ops c b s1 = (q, s2)" by (cases "compileRef ops c b s1")
    from compileRef_ok [OF b(1) _ assms(2) b(3) q] b(2) w(2)
    have s2: "inv s2" "abs s2 = abs ?s" "\<And>pol. q = Inr pol \<Longrightarrow> active_policy c (abs ?s) org \<lparr>be_hash = bref_VersionHash b, be_pol = pol\<rparr>"
      by auto
    show ?thesis
    proof (cases "(case map_of (bp_cache w) org of Some cur \<Rightarrow> be_hash cur = bref_VersionHash b | None \<Rightarrow> False) \<or> (\<exists>e. q = Inl e)")
      case True
      then have "refreshOrg ops c org w \<in> {w\<lparr>bp_src := s1\<rparr>, w\<lparr>bp_src := s2\<rparr>}"
        using z Inr q by (auto simp: refreshOrg_def)
      with b s2 w show ?thesis by (auto simp: provider_ok_def)
    next
      case False
      then obtain pol where pol: "q = Inr pol" by (cases q) auto
      with False z Inr q have "refreshOrg ops c org w = w\<lparr>bp_src := s2,
          bp_cache := alist_put org \<lparr>be_hash = bref_VersionHash b, be_pol = pol\<rparr> (bp_cache w)\<rparr>"
        by (auto simp: refreshOrg_def)
      with cache_ok_put [OF w(3) s2(3) [OF pol]] s2 pol w show ?thesis by (auto simp: provider_ok_def)
    qed
  qed
qed

end

end
