(* ===== verification/Bundle_Serving.thy ===== *)
theory Bundle_Serving
  imports Bundle
begin

text \<open>
  Nodes that serve published policy: a node's provider beside a control plane that any node may
  write to. Steps interleave control-plane calls, cold loads, invalidations and refreshes. Shown:
  every decision is taken under a stored, verifying version of its own organisation (or under the
  static policy, when the organisation has none), publishing converges, and refreshing never evicts
  a working bundle and catches up as soon as the store answers.
\<close>

section \<open>Steps of a node\<close>

text \<open>A refresh is one step per organisation: \<open>Run\<close> holds no lock between them.\<close>

inductive node_step :: "'s policy_ops \<Rightarrow> ('s \<Rightarrow> policy_state) \<Rightarrow> (string \<Rightarrow> bool) \<Rightarrow> schema_validator \<Rightarrow> crypto \<Rightarrow> Signer \<Rightarrow> 's Provider \<Rightarrow> 's Provider \<Rightarrow> bool"
  for ops view served schema c signer where
  control: "ctl_step ops view served schema c signer (bp_src w) s' \<Longrightarrow> node_step ops view served schema c signer w (w\<lparr>bp_src := s'\<rparr>)"
| active: "served org \<Longrightarrow> Provider_Active ops c org w = (r, w') \<Longrightarrow> node_step ops view served schema c signer w w'"
| invalidate: "served org \<Longrightarrow> Provider_Invalidate ops c org w = (x, w') \<Longrightarrow> node_step ops view served schema c signer w w'"
| refresh: "served org \<Longrightarrow> node_step ops view served schema c signer w (refreshOrg ops c org w)"

lemma fst_Invalidate: "fst (Provider_Invalidate st c org w) = (case fst (Provider_load st c org w) of Inl e \<Rightarrow> Some e | Inr _ \<Rightarrow> None)"
  and snd_Invalidate: "snd (Provider_Invalidate st c org w) = snd (Provider_load st c org w)"
  by (auto simp: Provider_Invalidate_def split: prod.splits sum.splits)

context policy_store
begin

lemma node_step_ok:
  assumes crypto: "ed25519_pair c pub (sgn_priv signer)"
    and "node_step ops abs org_ok schema c signer w w'" "node_ok c schema pub w"
  shows "node_ok c schema pub w' \<and> as_vers (abs (bp_src w)) \<subseteq>\<^sub>m as_vers (abs (bp_src w'))"
  using assms(2)
proof cases
  case (control s')
  have w: "inv (bp_src w)" "control_plane_ok c schema pub (abs (bp_src w))" "cache_ok c (abs (bp_src w)) (bp_cache w)"
    using assms(3) by (simp_all add: provider_ok_def)
  from ctl_step_ok [OF crypto control(2) w(1,2)] cache_ok_mono [OF w(3)] control(1) show ?thesis
    by (simp add: provider_ok_def kept_by_def)
next
  case (active org r)
  with active_ok [OF assms(3)] show ?thesis by simp
next
  case (invalidate org x)
  then have "Provider_load ops c org w = (fst (Provider_load ops c org w), w')"
    using snd_Invalidate [of ops c org w] by (cases "Provider_load ops c org w") simp
  from load_ok [OF assms(3) invalidate(1) this] show ?thesis by simp
next
  case (refresh org)
  with refresh_ok [OF assms(3)] show ?thesis by simp
qed

lemma node_steps_ok:
  assumes "(node_step ops abs org_ok schema c signer)\<^sup>*\<^sup>* w w'"
    and crypto: "ed25519_pair c pub (sgn_priv signer)" and "node_ok c schema pub w"
  shows "node_ok c schema pub w' \<and> as_vers (abs (bp_src w)) \<subseteq>\<^sub>m as_vers (abs (bp_src w'))"
  using assms(1)
proof (induction rule: rtranclp_induct)
  case base
  show ?case using assms(3) by simp
next
  case (step w1 w2)
  with node_step_ok [OF crypto step(2)] show ?case by (auto intro: map_le_trans)
qed

lemma new_node_ok:
  "inv s \<Longrightarrow> control_plane_ok c schema pub (abs s) \<Longrightarrow> node_ok c schema pub (NewProvider s)"
  by (simp add: provider_ok_def NewProvider_def cache_ok_def)

end

text \<open>What the organisation is served comes from a version of its own that verifies.\<close>

definition published :: "crypto \<Rightarrow> string \<Rightarrow> policy_state \<Rightarrow> string \<Rightarrow> Policy \<Rightarrow> bool" where
  "published c pub a org pol \<longleftrightarrow>
     (\<exists>i v. as_vers a (org, i, pol_Version pol) = Some v \<and> pv_OrgID v = org \<and> VerifyVersion c v pub = None \<and>
        compiled_from (pv_Rules v) (pol_Version pol) pol)"

lemma stored_published:
  assumes "validates_schema schema" "control_plane_ok c schema pub a" "as_vers a (org, i, pv_VersionHash v) = Some v" "Compile c v = Inr pol"
  shows "published c pub a org pol \<and> pol_Version pol = pv_VersionHash v"
proof -
  note vs = okD(1) [OF assms(2,3)]
  from version_compiles [OF assms(1) vs] assms(4) have cf: "compiled_from (pv_Rules v) (pv_VersionHash v) pol" by simp
  then have "pol_Version pol = pv_VersionHash v" by (simp add: compiled_from_def)
  with cf assms(3) version_soundD [OF vs] show ?thesis by (auto simp: published_def)
qed

context policy_store
begin

lemma active_published:
  assumes "validates_schema schema" "node_ok c schema pub w" "org_ok org" "Provider_Active ops c org w = (r, w')"
  shows "node_ok c schema pub w' \<and> abs (bp_src w') = abs (bp_src w) \<and>
    (case r of Inr pol \<Rightarrow> published c pub (abs (bp_src w)) org pol
     | Inl e \<Rightarrow> e = ErrNoActiveBundle \<longrightarrow> as_bund (abs (bp_src w)) org = None)"
proof -
  have ok: "control_plane_ok c schema pub (abs (bp_src w))" using assms(2) by (simp add: provider_ok_def)
  show ?thesis
  proof (cases r)
    case (Inl e)
    with active_ok [OF assms(2-4)] show ?thesis by simp
  next
    case (Inr pol)
    with active_ok [OF assms(2-4)] obtain i v where "as_vers (abs (bp_src w)) (org, i, pv_VersionHash v) = Some v" "Compile c v = Inr pol"
      by auto
    with stored_published [OF assms(1) ok] active_ok [OF assms(2-4)] Inr show ?thesis by simp
  qed
qed

end

text \<open>A store that answers: the schedule holds no more failures, or the store is in memory.\<close>

locale calm_store = policy_store +
  fixes calm :: "'a \<Rightarrow> bool"
  assumes calm_bundle: "inv s \<Longrightarrow> calm s \<Longrightarrow> org_ok org \<Longrightarrow> po_GetActiveBundle ops org s = (z, s') \<Longrightarrow>
      calm s' \<and> (\<forall>e. z = Inl e \<longrightarrow> e = ErrBundleNotFound)"
    and calm_version: "inv s \<Longrightarrow> calm s \<Longrightarrow> org_ok org \<Longrightarrow> po_GetVersion ops org i h s = (y, s') \<Longrightarrow>
      calm s' \<and> (\<forall>e. y = Inl e \<longrightarrow> e = ErrVersionNotFound)"
begin

lemma compileRef_calm:
  assumes "validates_schema schema" "inv s" "calm s" "control_plane_ok c schema pub (abs s)" "org_ok org" "as_bund (abs s) org = Some b"
  shows "\<exists>pol s'. compileRef ops c b s = (Inr pol, s') \<and> calm s'"
proof -
  have b: "bref_OrgID b = org" "as_vers (abs s) (org, bref_PolicyID b, bref_VersionHash b) \<noteq> None"
    using okD(3) [OF assms(4,6)] by (simp_all add: bundle_sound_def)
  obtain y s1 where y: "po_GetVersion ops org (bref_PolicyID b) (bref_VersionHash b) s = (y, s1)"
    by (cases "po_GetVersion ops org (bref_PolicyID b) (bref_VersionHash b) s")
  from calm_version [OF assms(2,3,5) y] get_version [OF assms(2,5) y] b(2)
  obtain v where v: "y = Inr v" "as_vers (abs s) (org, bref_PolicyID b, bref_VersionHash b) = Some v" "calm s1"
    by (cases y) (auto simp: store_fault_def)
  from version_compiles [OF assms(1) okD(1) [OF assms(4) v(2)]] obtain pol where "Compile c v = Inr pol" by blast
  with y v b show ?thesis by (simp add: compileRef_def)
qed

lemma load_calm:
  assumes "validates_schema schema" "node_ok c schema pub w" "calm (bp_src w)" "org_ok org" "as_bund (abs (bp_src w)) org = Some b"
  shows "\<exists>pol w'. Provider_load ops c org w = (Inr pol, w') \<and> calm (bp_src w')"
proof -
  let ?s = "bp_src w"
  have w: "inv ?s" "control_plane_ok c schema pub (abs ?s)" using assms(2) by (simp_all add: provider_ok_def)
  obtain z s1 where z: "po_GetActiveBundle ops org ?s = (z, s1)" by (cases "po_GetActiveBundle ops org ?s")
  from calm_bundle [OF w(1) assms(3,4) z] get_bundle [OF w(1) assms(4) z] assms(5)
  have s1: "z = Inr b" "inv s1" "calm s1" "abs s1 = abs ?s" by (cases z; auto simp: store_fault_def)+
  from compileRef_calm [OF assms(1) s1(2,3) _ assms(4), of c pub b] s1(4) w(2) assms(5)
  obtain pol s2 where "compileRef ops c b s1 = (Inr pol, s2)" "calm s2" by auto
  with z s1 show ?thesis by (simp add: Provider_load_def)
qed

lemma cached_active:
  assumes "node_ok c schema pub w" "map_of (bp_cache w) org = Some e"
    and "as_bund (abs (bp_src w)) org = Some b" "be_hash e = bref_VersionHash b"
  shows "active_policy c (abs (bp_src w)) org e"
proof -
  have w: "control_plane_ok c schema pub (abs (bp_src w))" "cache_ok c (abs (bp_src w)) (bp_cache w)"
    using assms(1) by (simp_all add: provider_ok_def)
  from w(2) assms(2) obtain i v where v: "as_vers (abs (bp_src w)) (org, i, be_hash e) = Some v" "pv_VersionHash v = be_hash e"
    "Compile c v = Inr (be_pol e)" unfolding cache_ok_def by blast
  from okD(3) [OF w(1) assms(3)] obtain v' where v': "as_vers (abs (bp_src w)) (org, bref_PolicyID b, bref_VersionHash b) = Some v'"
    by (auto simp: bundle_sound_def)
  with okD(4) [OF w(1)] v(1) assms(4) have "i = bref_PolicyID b" unfolding hashes_unique_def by (metis option.distinct(1))
  with v assms(3,4) show ?thesis unfolding active_policy_def by auto
qed

lemma refresh_calm:
  assumes "validates_schema schema" "node_ok c schema pub w" "calm (bp_src w)" "org_ok org"
  shows "calm (bp_src (refreshOrg ops c org w)) \<and>
    (\<forall>b. as_bund (abs (bp_src w)) org = Some b \<longrightarrow>
       (\<exists>e. map_of (bp_cache (refreshOrg ops c org w)) org = Some e \<and> active_policy c (abs (bp_src w)) org e))"
proof -
  let ?s = "bp_src w"
  have w: "inv ?s" "control_plane_ok c schema pub (abs ?s)" using assms(2) by (simp_all add: provider_ok_def)
  obtain z s1 where z: "po_GetActiveBundle ops org ?s = (z, s1)" by (cases "po_GetActiveBundle ops org ?s")
  note cb = calm_bundle [OF w(1) assms(3,4) z] and gb = get_bundle [OF w(1) assms(4) z]
  show ?thesis
  proof (cases z)
    case (Inl e)
    with cb gb z show ?thesis by (auto simp: refreshOrg_def store_fault_def)
  next
    case (Inr b)
    with cb gb have s1: "inv s1" "calm s1" "abs s1 = abs ?s" "as_bund (abs ?s) org = Some b" by simp_all
    from compileRef_calm [OF assms(1) s1(1,2) _ assms(4), of c pub b] s1 w(2)
    obtain pol s2 where q: "compileRef ops c b s1 = (Inr pol, s2)" "calm s2" by auto
    from compileRef_ok [OF s1(1) _ assms(4) _ q(1), of schema pub] s1 w(2)
    have act: "active_policy c (abs ?s) org \<lparr>be_hash = bref_VersionHash b, be_pol = pol\<rparr>" by simp
    show ?thesis
    proof (cases "\<exists>cur. map_of (bp_cache w) org = Some cur \<and> be_hash cur = bref_VersionHash b")
      case True
      then obtain cur where cur: "map_of (bp_cache w) org = Some cur" "be_hash cur = bref_VersionHash b" by blast
      with z Inr have "refreshOrg ops c org w = w\<lparr>bp_src := s1\<rparr>" by (simp add: refreshOrg_def)
      with cached_active [OF assms(2) cur(1) s1(4) cur(2)] cur s1 show ?thesis by simp
    next
      case False
      with z Inr q have "refreshOrg ops c org w = w\<lparr>bp_src := s2,
          bp_cache := alist_put org \<lparr>be_hash = bref_VersionHash b, be_pol = pol\<rparr> (bp_cache w)\<rparr>"
        by (auto simp: refreshOrg_def split: option.split)
      with act q(2) show ?thesis by simp
    qed
  qed
qed

lemma refreshes:
  assumes "list_all org_ok orgs" "node_ok c schema pub w"
  shows "node_ok c schema pub (fold (refreshOrg ops c) orgs w) \<and> abs (bp_src (fold (refreshOrg ops c) orgs w)) = abs (bp_src w) \<and>
    (\<forall>org. map_of (bp_cache (fold (refreshOrg ops c) orgs w)) org = map_of (bp_cache w) org \<or>
       (\<exists>e. map_of (bp_cache (fold (refreshOrg ops c) orgs w)) org = Some e \<and> active_policy c (abs (bp_src w)) org e))"
  using assms
proof (induction orgs arbitrary: w)
  case (Cons org orgs)
  let ?w = "refreshOrg ops c org w"
  have r: "node_ok c schema pub ?w" "abs (bp_src ?w) = abs (bp_src w)"
    "\<And>o'. map_of (bp_cache ?w) o' = map_of (bp_cache w) o' \<or> (\<exists>e. map_of (bp_cache ?w) o' = Some e \<and> active_policy c (abs (bp_src w)) o' e)"
    using refresh_ok [OF Cons.prems(2), of org] Cons.prems(1) by auto
  from Cons.IH [OF _ r(1)] Cons.prems(1) r(2,3) show ?case by (simp, metis)
qed simp

lemma refreshes_calm:
  assumes "validates_schema schema" "list_all org_ok orgs" "node_ok c schema pub w" "calm (bp_src w)"
    and "org \<in> set orgs" "as_bund (abs (bp_src w)) org = Some b"
  shows "\<exists>e. map_of (bp_cache (fold (refreshOrg ops c) orgs w)) org = Some e \<and> active_policy c (abs (bp_src w)) org e"
  using assms(2-)
proof (induction orgs arbitrary: w)
  case (Cons o' orgs)
  let ?w = "refreshOrg ops c o' w"
  have o': "org_ok o'" "list_all org_ok orgs" using Cons.prems(1) by simp_all
  have r: "node_ok c schema pub ?w" "abs (bp_src ?w) = abs (bp_src w)" using refresh_ok [OF Cons.prems(2) o'(1)] by simp_all
  note rc = refresh_calm [OF assms(1) Cons.prems(2,3) o'(1)]
  show ?case
  proof (cases "org \<in> set orgs")
    case True
    with Cons.IH [OF o'(2) r(1)] rc r(2) Cons.prems(5) show ?thesis by simp
  next
    case False
    with Cons.prems(4) have "org = o'" by simp
    with rc Cons.prems(5) obtain e where "map_of (bp_cache ?w) org = Some e" "active_policy c (abs (bp_src w)) org e" by blast
    with refreshes [OF o'(2) r(1)] r(2) show ?thesis by (simp, metis)
  qed
qed simp

end

interpretation mem_calm: calm_store mem_policy_ops mem_policy_abs mem_policy_inv no_bar "\<lambda>p. p" "\<lambda>v. v" "\<lambda>b. b" "\<lambda>_. True"
  by unfold_locales (auto simp: mem_policy_ops_def MemPolicy_GetActiveBundle_def MemPolicy_GetVersion_def split: option.splits)

interpretation pg_calm: calm_store pg_policy_ops pg_policy_abs pg_policy_inv "\<lambda>_. True" policy_row version_row bundle_row "\<lambda>s. pp_fails s = []"
  by unfold_locales (auto simp: pg_policy_ops_def PgPolicy_GetActiveBundle_def PgPolicy_GetVersion_def pp_begin_ok
    split: option.splits if_splits)

section \<open>Serving over Postgres\<close>

abbreviation pg_node :: "schema_validator \<Rightarrow> crypto \<Rightarrow> Signer \<Rightarrow> PgPolicyStore Provider \<Rightarrow> PgPolicyStore Provider \<Rightarrow> bool" where
  "pg_node schema c signer \<equiv> (node_step pg_policy_ops pg_policy_abs (\<lambda>_. True) schema c signer)\<^sup>*\<^sup>*"

abbreviation pg_node_ok :: "crypto \<Rightarrow> schema_validator \<Rightarrow> string \<Rightarrow> PgPolicyStore Provider \<Rightarrow> bool" where
  "pg_node_ok \<equiv> provider_ok pg_policy_inv pg_policy_abs"

lemma pg_node_reachable:
  assumes "pg_node schema c signer (NewProvider (NewPgPolicyStore fails)) w" "ed25519_pair c pub (sgn_priv signer)"
  shows "pg_node_ok c schema pub w"
  using pg_policies.node_steps_ok [OF assms pg_policies.new_node_ok [OF new_pg_policies]] by blast

lemma publish_result_bundle:
  "publish_result a a' org i v \<Longrightarrow>
     \<exists>b. as_bund a' (pv_OrgID v) = Some b \<and> bref_PolicyID b = pv_PolicyID v \<and> bref_VersionHash b = pv_VersionHash v"
  by (simp add: publish_result_def serving_def)

text \<open>The provider as the engine sees it: it uses its own part of the engine's world.\<close>

definition engine_provider :: "'s policy_ops \<Rightarrow> crypto \<Rightarrow> ('s Provider \<times> 'b) bundle_provider" where
  "engine_provider st c org w = (case Provider_Active st c org (fst w) of (r, n) \<Rightarrow> (r, (n, snd w)))"

lemma resolve_published:
  assumes "validates_schema schema" "pg_node_ok c schema pub n" "eng_Provider e = Some (engine_provider pg_policy_ops c)"
    and "resolve_policy e org (n, x) = (Inr pol, w')"
  shows "published c pub (pg_policy_abs (bp_src n)) org pol \<or>
    pol = eng_Policy e \<and> pol_Predicates pol \<noteq> [] \<and> as_bund (pg_policy_abs (bp_src n)) org = None"
proof -
  obtain r n' where r: "Provider_Active pg_policy_ops c org n = (r, n')" by (cases "Provider_Active pg_policy_ops c org n")
  from pg_policies.active_published [OF assms(1,2) TrueI r] assms(3,4) r show ?thesis
    by (cases r) (auto simp: resolve_policy_def engine_provider_def split: if_splits)
qed

text \<open>C6: what a decision is taken under. On a node in any reachable state, whatever calls, refreshes
  and store failures came before, a decision cites a version of the caller's organisation that is
  stored and verifies against the signing key, and its explanation lists the rules of that version
  that apply to the agent, as the version declares them; only an organisation without any bundle is
  served the static policy.\<close>

theorem decisions_cite_published:
  assumes "validates_schema schema" "ed25519_pair c pub (sgn_priv signer)"
    and "pg_node schema c signer (NewProvider (NewPgPolicyStore fails)) n"
    and "eng_Provider e = Some (engine_provider pg_policy_ops c)"
    and "Authorize c start now elapsed decID e org req shadow (n, x) = (Inr d, w')"
  shows "\<exists>pol. dec_PolicyVersionHash d = pol_Version pol \<and>
    take (length (applicable pol (req_AgentID req))) (ex_MatchedRules (dec_Explanation d)) =
      map (local_rule (buildInput req (dec_EvaluatedAt d))) (applicable pol (req_AgentID req)) \<and>
    (published c pub (pg_policy_abs (bp_src n)) org pol \<or>
     pol = eng_Policy e \<and> pol_Predicates pol \<noteq> [] \<and> as_bund (pg_policy_abs (bp_src n)) org = None)"
  using assms(5)
proof (rule Authorize_Inr)
  fix pol w1 results matched held i
  assume res: "resolve_policy e org (n, x) = (Inr pol, w1)" and i: "i = buildInput req (dec_EvaluatedAt d)"
    and bp: "budget_phase e pol org decID req shadow (map (local_result i) (applicable pol (req_AgentID req)))
       (map (local_rule i) (applicable pol (req_AgentID req))) w1 = ((results, matched, held), w')"
    and d: "dec_PolicyVersionHash d = pol_Version pol" "dec_Explanation d = assembleExplanation (Combine results) matched"
  have "take (length (applicable pol (req_AgentID req))) matched = map (local_rule i) (applicable pol (req_AgentID req))"
    using bp by (cases rule: budget_phase_cases) auto
  with resolve_published [OF assms(1) pg_node_reachable [OF assms(3,2)] assms(4) res] d i show ?thesis
    by (intro exI [of _ pol]) (simp add: assembleExplanation_def)
qed

text \<open>A publish converges on the node that serves it. Once the invalidation after a publish has
  returned without error the organisation is served the published version, compiled, from the cache
  without touching the store; the invalidation does succeed when the store answers, and one that
  fails leaves the bundles served before in place.\<close>

theorem publish_converges:
  assumes "validates_schema schema" "ed25519_pair c pub (sgn_priv signer)"
    and "pg_node schema c signer (NewProvider (NewPgPolicyStore fails)) n" "collision_free c (pg_policy_abs (bp_src n))"
    and "Service_Publish pg_policy_ops schema c signer clk org i author (bp_src n) = (Inr v, s1)"
    and "Provider_Invalidate pg_policy_ops c org (n\<lparr>bp_src := s1\<rparr>) = (x, n')"
  shows "(pp_fails s1 = [] \<longrightarrow> x = None) \<and> (x \<noteq> None \<longrightarrow> bp_cache n' = bp_cache n) \<and>
    (x = None \<longrightarrow> (\<exists>pol. Provider_Active pg_policy_ops c org n' = (Inr pol, n') \<and>
       compiled_from (pv_Rules v) (pv_VersionHash v) pol \<and> published c pub (pg_policy_abs (bp_src n')) org pol))"
proof -
  let ?n1 = "n\<lparr>bp_src := s1\<rparr>" and ?a = "pg_policy_abs s1"
  note n = pg_node_reachable [OF assms(3,2)]
  have "node_step pg_policy_ops pg_policy_abs (\<lambda>_. True) schema c signer n ?n1"
    by (rule node_step.control [OF ctl_step.publish [where view = pg_policy_abs, OF TrueI assms(4,5)]])
  from pg_policies.node_step_ok [OF assms(2) this n] have n1: "pg_node_ok c schema pub ?n1" by blast
  have s: "pg_policy_inv (bp_src n)" "control_plane_ok c schema pub (pg_policy_abs (bp_src n))"
    using n by (simp_all add: provider_ok_def)
  from pg_policies.publish_free [OF s TrueI assms(4,2,5)]
  have res: "publish_result (pg_policy_abs (bp_src n)) ?a org i v" by blast
  then have key: "pv_OrgID v = org" using okD(2) [OF s(2)] by (auto simp: publish_result_def snapshot_def policy_sound_def)
  with publish_result_bundle [OF res] obtain b where b: "as_bund ?a org = Some b" "bref_PolicyID b = pv_PolicyID v"
    "bref_VersionHash b = pv_VersionHash v" by auto
  from res obtain t where v: "as_vers ?a (ver_key v) = Some (v\<lparr>pv_PublishedAt := t\<rparr>)"
    unfolding publish_result_def stored_def by metis
  obtain r n'' where load: "Provider_load pg_policy_ops c org ?n1 = (r, n'')" by (cases "Provider_load pg_policy_ops c org ?n1")
  then have x: "n'' = n'" "x = (case r of Inl e \<Rightarrow> Some e | Inr _ \<Rightarrow> None)"
    using assms(6) by (auto simp: Provider_Invalidate_def split: sum.splits)
  note lo = pg_policies.load_ok [OF n1 TrueI load, unfolded x(1), simplified]
  have live: "x = None" if "pp_fails s1 = []"
    using pg_calm.load_calm [OF assms(1) n1 _ TrueI, of org b] that b load x by auto
  have "\<exists>pol. Provider_Active pg_policy_ops c org n' = (Inr pol, n') \<and> compiled_from (pv_Rules v) (pv_VersionHash v) pol \<and>
      published c pub (pg_policy_abs (bp_src n')) org pol" if x': "x = None"
  proof -
    from x' x(2) obtain pol where r: "r = Inr pol" by (cases r) auto
    with lo obtain e where e: "map_of (bp_cache n') org = Some e" "be_pol e = pol" "active_policy c ?a org e" by auto
    with b v key have pol: "Compile c (v\<lparr>pv_PublishedAt := t\<rparr>) = Inr pol"
      unfolding active_policy_def by auto
    have ok: "control_plane_ok c schema pub ?a" using n1 by (simp add: provider_ok_def)
    have "version_sound c schema pub (ver_key v) (v\<lparr>pv_PublishedAt := t\<rparr>)" using okD(1) [OF ok v] .
    from version_compiles [OF assms(1) this] pol have "compiled_from (pv_Rules v) (pv_VersionHash v) pol" by simp
    moreover have "published c pub ?a org pol"
      using stored_published [OF assms(1) ok _ pol, of org "pv_PolicyID v"] v key by simp
    moreover have "Provider_Active pg_policy_ops c org n' = (Inr pol, n')" using e by (simp add: Provider_Active_def)
    ultimately show ?thesis using lo by auto
  qed
  moreover have "bp_cache n' = bp_cache n" if "x \<noteq> None"
    using that x(2) lo by (cases r) auto
  ultimately show ?thesis using live by blast
qed

text \<open>C38: the refresher. A tick never evicts: every organisation that was served a bundle is still
  served, either the same one or its currently active one, whatever store calls fail; and a tick
  during which the store answers brings every cached organisation to its active version.\<close>

theorem refresh_converges:
  assumes "validates_schema schema" "ed25519_pair c pub (sgn_priv signer)"
    and "pg_node schema c signer (NewProvider (NewPgPolicyStore fails)) n"
    and "map_of (bp_cache n) org = Some e"
  shows "\<exists>e'. map_of (bp_cache (refreshAll pg_policy_ops c n)) org = Some e' \<and>
    Provider_Active pg_policy_ops c org (refreshAll pg_policy_ops c n) = (Inr (be_pol e'), refreshAll pg_policy_ops c n) \<and>
    (e' = e \<or> active_policy c (pg_policy_abs (bp_src n)) org e') \<and>
    (pp_fails (bp_src n) = [] \<and> as_bund (pg_policy_abs (bp_src n)) org \<noteq> None \<longrightarrow> active_policy c (pg_policy_abs (bp_src n)) org e')"
proof -
  note n = pg_node_reachable [OF assms(3,2)]
  let ?os = "map fst (bp_cache n)" and ?n' = "refreshAll pg_policy_ops c n"
  have all: "list_all (\<lambda>_. True) ?os" by (simp add: list_all_iff)
  have keep: "map_of (bp_cache ?n') org = Some e \<or> (\<exists>e'. map_of (bp_cache ?n') org = Some e' \<and> active_policy c (pg_policy_abs (bp_src n)) org e')"
    using pg_calm.refreshes [OF all n] assms(4) unfolding refreshAll_def by metis
  have "org \<in> set ?os" using assms(4) by (force dest: map_of_SomeD)
  from pg_calm.refreshes_calm [OF assms(1) all n _ this]
  have "\<exists>e'. map_of (bp_cache ?n') org = Some e' \<and> active_policy c (pg_policy_abs (bp_src n)) org e'"
    if "pp_fails (bp_src n) = []" "as_bund (pg_policy_abs (bp_src n)) org \<noteq> None"
    using that by (auto simp: refreshAll_def)
  with keep show ?thesis unfolding Provider_Active_def by fastforce
qed

section \<open>Dry runs\<close>

lemma built_unique:
  "list_all2 (\<lambda>r p. build r = Inr p) rs ps \<Longrightarrow> list_all2 (\<lambda>r p. build r = Inr p) rs qs \<Longrightarrow> ps = qs"
  by (induction rs arbitrary: ps qs) (auto simp: list_all2_Cons1)

lemma compiled_from_unique:
  assumes "compiled_from rules h pol" "compiled_from rules h pol'"
  shows "pol = pol'"
  using assms built_unique [of "local_rules rules" "pol_Predicates pol" "pol_Predicates pol'"]
  by (intro Policy.equality) (simp_all add: compiled_from_def)

lemma published_version:
  assumes "validates_schema schema" "control_plane_ok c schema pub a"
    and "published c pub a org pol" "as_vers a (org, i, pol_Version pol) = Some v"
  shows "Compile c v = Inr pol \<and> pv_VersionHash v = pol_Version pol"
proof -
  from assms(3) obtain i' v' where v': "as_vers a (org, i', pol_Version pol) = Some v'" "compiled_from (pv_Rules v') (pol_Version pol) pol"
    unfolding published_def by blast
  note vs = okD(1) [OF assms(2,4)] and vs' = okD(1) [OF assms(2) v'(1)]
  have key: "ver_key v = (org, i, pol_Version pol)" "ver_key v' = (org, i', pol_Version pol)"
    using version_soundD(1) [OF vs] version_soundD(1) [OF vs'] by simp_all
  have "i' = i" using okD(4) [OF assms(2)] v'(1) assms(4) unfolding hashes_unique_def by (metis option.distinct(1))
  with assms(4) v' version_compiles [OF assms(1) vs] key show ?thesis
    by (auto dest: compiled_from_unique)
qed

text \<open>C39: a dry run of a published version tells the truth. When an organisation is served the version
  that is simulated, the simulation of a request has the verdict, the explanation and the version
  that a shadow call of the decision engine returns for it; it is marked shadow, declares no
  obligation and leaves the store as it was.\<close>

theorem simulate_predicts:
  assumes "validates_schema schema" "ed25519_pair c pub (sgn_priv signer)"
    and "pg_node schema c signer (NewProvider (NewPgPolicyStore fails)) n"
    and "eng_Provider e = Some (engine_provider pg_policy_ops c)"
    and "Authorize c start now elapsed decID e org req True (n, x) = (Inr d, w')"
    and "as_bund (pg_policy_abs (bp_src n)) org \<noteq> None" "dec_PolicyVersionHash d = h" "h \<noteq> []"
    and "Simulate pg_policy_ops schema c org i h reqs (bp_src n) = (Inr (label, ds), s')"
    and "j < length reqs" "reqs ! j = (start, simID, req)"
  shows "pg_policy_abs s' = pg_policy_abs (bp_src n) \<and> label = h \<and> length ds = length reqs \<and>
    dec_Verdict (ds ! j) = dec_Verdict d \<and> dec_Explanation (ds ! j) = dec_Explanation d \<and> dec_PolicyVersionHash (ds ! j) = h \<and>
    dec_EvaluatedAt (ds ! j) = dec_EvaluatedAt d \<and> dec_Shadow (ds ! j) \<and> dec_Obligations (ds ! j) = []"
proof -
  let ?s = "bp_src n" and ?a = "pg_policy_abs (bp_src n)"
  note n = pg_node_reachable [OF assms(3,2)]
  then have w: "pg_policy_inv ?s" "control_plane_ok c schema pub ?a" by (simp_all add: provider_ok_def)
  from assms(5) obtain pol w1 where res: "resolve_policy e org (n, x) = (Inr pol, w1)" "dec_PolicyVersionHash d = pol_Version pol"
    and ea: "dec_EvaluatedAt d = (if req_EvaluatedAt req = [] then format_RFC3339 start else req_EvaluatedAt req)"
    by (rule Authorize_Inr)
  have pub: "published c pub ?a org pol" using resolve_published [OF assms(1) n assms(4) res(1)] assms(6) by blast
  obtain y s1 where y: "PgPolicy_GetVersion org i h ?s = (y, s1)" by (cases "PgPolicy_GetVersion org i h ?s")
  with assms(8,9) obtain v where v: "y = Inr v" by (cases y) (auto simp: Simulate_def pg_policy_ops_def)
  with pg_get_version_ok [OF w(1) y] have gv: "as_vers ?a (org, i, h) = Some v" "pg_policy_abs s1 = ?a" by simp_all
  from published_version [OF assms(1) w(2) pub] gv(1) assms(7) res(2)
  have comp: "Compile c v = Inr pol" "pv_VersionHash v = h" by simp_all
  have sim: "s' = s1" "label = h" "ds = map (\<lambda>(now, decID, req). simulate_one now pol decID req) reqs"
    using assms(8,9) y v comp by (auto simp: Simulate_def pg_policy_ops_def)
  then have dj: "ds ! j = simulate_one start pol simID req" using assms(10,11) by simp
  from shadow_equals_Evaluate [OF assms(5) res(1), of simID] ea
  have "dec_Verdict (ds ! j) = dec_Verdict d \<and> dec_Explanation (ds ! j) = dec_Explanation d \<and> dec_EvaluatedAt (ds ! j) = dec_EvaluatedAt d \<and>
      dec_PolicyVersionHash (ds ! j) = dec_PolicyVersionHash d"
    by (simp add: dj simulate_one_def Let_def)
  moreover have "dec_Shadow (ds ! j) \<and> dec_Obligations (ds ! j) = []"
    by (simp add: dj simulate_one_def Evaluate_def assembleDecision_def case_prod_unfold Let_def)
  ultimately show ?thesis using sim gv(2) assms(7) by simp
qed

section \<open>A concrete node\<close>

lemma ctl_node:
  assumes "(ctl_step ops view served schema c signer)\<^sup>*\<^sup>* s s'"
  shows "(node_step ops view served schema c signer)\<^sup>*\<^sup>* (NewProvider s) (NewProvider s')"
  using assms
proof (induction rule: rtranclp_induct)
  case (step t u)
  have "node_step ops view served schema c signer (NewProvider t) (NewProvider u)"
    using node_step.control [of ops view served schema c signer "NewProvider t" u] step(2) by (simp add: NewProvider_def)
  with step(3) show ?case by (rule rtranclp.rtrancl_into_rtrancl)
qed simp

abbreviation demo_node :: "PgPolicyStore Provider \<Rightarrow> PgPolicyStore Provider \<Rightarrow> bool" where
  "demo_node \<equiv> pg_node demo_validator demo_crypto demo_signer"

text \<open>A node whose store holds the published version, before and after the invalidation.\<close>

lemma demo_served:
  obtains n v s1 n' e where "demo_node (NewProvider (NewPgPolicyStore [])) n"
    "Service_Publish pg_policy_ops demo_validator demo_crypto demo_signer demo_clk ''org'' ''p1'' ''key'' (bp_src n) = (Inr v, s1)"
    "pp_fails s1 = []" "Provider_Invalidate pg_policy_ops demo_crypto ''org'' (n\<lparr>bp_src := s1\<rparr>) = (None, n')"
    "demo_node (NewProvider (NewPgPolicyStore [])) n'" "map_of (bp_cache n') ''org'' = Some e"
    "pp_fails (bp_src n') = []" "as_bund (pg_policy_abs (bp_src n')) ''org'' \<noteq> None"
proof -
  obtain s v s1 p where s: "demo_ctl (NewPgPolicyStore []) s"
    "Service_Publish pg_policy_ops demo_validator demo_crypto demo_signer demo_clk ''org'' ''p1'' ''key'' s = (Inr v, s1)"
    "pp_fails s1 = []" by (rule demo_published)
  let ?n = "NewProvider s"
  have n: "demo_node (NewProvider (NewPgPolicyStore [])) ?n" by (rule ctl_node [OF s(1)])
  have pub: "Service_Publish pg_policy_ops demo_validator demo_crypto demo_signer demo_clk ''org'' ''p1'' ''key'' (bp_src ?n) = (Inr v, s1)"
    using s(2) by (simp add: NewProvider_def)
  obtain x n' where inval: "Provider_Invalidate pg_policy_ops demo_crypto ''org'' (?n\<lparr>bp_src := s1\<rparr>) = (x, n')"
    by (cases "Provider_Invalidate pg_policy_ops demo_crypto ''org'' (?n\<lparr>bp_src := s1\<rparr>)")
  have step: "node_step pg_policy_ops pg_policy_abs (\<lambda>_. True) demo_validator demo_crypto demo_signer ?n (?n\<lparr>bp_src := s1\<rparr>)"
    by (rule node_step.control [OF ctl_step.publish [OF TrueI demo_collision_free pub]])
  have n1: "demo_node (NewProvider (NewPgPolicyStore [])) (?n\<lparr>bp_src := s1\<rparr>)"
    using n step by (rule rtranclp.rtrancl_into_rtrancl)
  have ok1: "pg_node_ok demo_crypto demo_validator demo_seed (?n\<lparr>bp_src := s1\<rparr>)"
    by (rule pg_node_reachable [OF n1 demo_pair])
  note ok = pg_reachable [OF s(1) demo_pair]
  from pg_policies.publish_free [OF ok TrueI demo_collision_free demo_pair s(2)]
  have res: "publish_result (pg_policy_abs s) (pg_policy_abs s1) ''org'' ''p1'' v" by blast
  then have "pv_OrgID v = ''org''" using okD(2) [OF ok(2)] by (auto simp: publish_result_def snapshot_def policy_sound_def)
  with publish_result_bundle [OF res] obtain b where b: "as_bund (pg_policy_abs s1) ''org'' = Some b" by auto
  from pg_calm.load_calm [OF demo_validator_ok ok1 _ TrueI, of "''org''" b] b s(3)
  obtain pol m where load: "Provider_load pg_policy_ops demo_crypto ''org'' (?n\<lparr>bp_src := s1\<rparr>) = (Inr pol, m)"
    and calm: "pp_fails (bp_src m) = []" by auto
  with inval have x: "x = None" "m = n'" by (simp_all add: Provider_Invalidate_def)
  obtain e where e: "map_of (bp_cache n') ''org'' = Some e" using pg_policies.load_ok [OF ok1 TrueI load] x by auto
  have n': "demo_node (NewProvider (NewPgPolicyStore [])) n'"
    using n1 node_step.invalidate [OF TrueI inval] by (rule rtranclp.rtrancl_into_rtrancl)
  have "as_bund (pg_policy_abs (bp_src n')) ''org'' \<noteq> None" using pg_policies.load_ok [OF ok1 TrueI load] x b by simp
  from that [OF n pub s(3) _ n' e _ this] inval x calm show thesis by simp
qed

definition demo_node_engine :: "(PgPolicyStore Provider \<times> unit) Engine" where
  "demo_node_engine = WithProvider (NewEngine \<lparr>pol_Version = ''v0'', pol_Predicates = [], pol_Budgets = []\<rparr> ''k1'')
     (engine_provider pg_policy_ops demo_crypto)"

lemma demo_node_engine [simp]:
  "eng_Provider demo_node_engine = Some (engine_provider pg_policy_ops demo_crypto)"
  "pol_Predicates (eng_Policy demo_node_engine) = []" "eng_Signer demo_node_engine = None"
  by (simp_all add: demo_node_engine_def WithProvider_def NewEngine_def)

lemma demo_node_decides:
  assumes "map_of (bp_cache n) ''org'' = Some e"
  shows "\<exists>d w'. Authorize demo_crypto 0 0 0 ''d1'' demo_node_engine ''org'' (demo_request ''shop'') shadow (n, ()) = (Inr d, w')"
proof -
  have "resolve_policy demo_node_engine ''org'' (n, ()) = (Inr (be_pol e), (n, ()))"
    using assms by (simp add: resolve_policy_def engine_provider_def Provider_Active_def)
  then show ?thesis by (rule Authorize_returns) (simp add: sign_decision_def)
qed

theorem decisions_cite_published_witness:
  "\<exists>n d w' pol. Authorize demo_crypto 0 0 0 ''d1'' demo_node_engine ''org'' (demo_request ''shop'') False (n, ()) = (Inr d, w') \<and>
     dec_PolicyVersionHash d = pol_Version pol \<and> published demo_crypto demo_seed (pg_policy_abs (bp_src n)) ''org'' pol"
proof -
  obtain n v s1 n' e where n': "demo_node (NewProvider (NewPgPolicyStore [])) n'" "map_of (bp_cache n') ''org'' = Some e"
    by (rule demo_served)
  obtain d w' where run: "Authorize demo_crypto 0 0 0 ''d1'' demo_node_engine ''org'' (demo_request ''shop'') False (n', ()) = (Inr d, w')"
    using demo_node_decides [OF n'(2)] by blast
  from decisions_cite_published [OF demo_validator_ok demo_pair n'(1) demo_node_engine(1) run] run show ?thesis by fastforce
qed

theorem simulate_predicts_witness:
  "\<exists>n d w' i h label ds s'. Authorize demo_crypto 0 0 0 ''d1'' demo_node_engine ''org'' (demo_request ''shop'') True (n, ()) = (Inr d, w') \<and>
     Simulate pg_policy_ops demo_validator demo_crypto ''org'' i h [(0, ''s1'', demo_request ''shop'')] (bp_src n) = (Inr (label, ds), s') \<and>
     dec_Verdict (ds ! 0) = dec_Verdict d"
proof -
  obtain n v s1 n' e where n': "demo_node (NewProvider (NewPgPolicyStore [])) n'" "map_of (bp_cache n') ''org'' = Some e"
    "pp_fails (bp_src n') = []" "as_bund (pg_policy_abs (bp_src n')) ''org'' \<noteq> None"
    by (rule demo_served)
  let ?s = "bp_src n'" and ?a = "pg_policy_abs (bp_src n')"
  note ok = pg_node_reachable [OF n'(1) demo_pair]
  then have w: "pg_policy_inv ?s" "control_plane_ok demo_crypto demo_validator demo_seed ?a" by (simp_all add: provider_ok_def)
  obtain d w' where run: "Authorize demo_crypto 0 0 0 ''d1'' demo_node_engine ''org'' (demo_request ''shop'') True (n', ()) = (Inr d, w')"
    using demo_node_decides [OF n'(2)] by blast
  then obtain pol w1 where res: "resolve_policy demo_node_engine ''org'' (n', ()) = (Inr pol, w1)" "dec_PolicyVersionHash d = pol_Version pol"
    by (rule Authorize_Inr)
  have pub: "published demo_crypto demo_seed ?a ''org'' pol"
    using resolve_published [OF demo_validator_ok ok demo_node_engine(1) res(1)] n'(4) by blast
  then obtain i u where u: "as_vers ?a (''org'', i, pol_Version pol) = Some u" unfolding published_def by blast
  note comp = published_version [OF demo_validator_ok w(2) pub u]
  obtain y t where y: "PgPolicy_GetVersion ''org'' i (pol_Version pol) ?s = (y, t)" by (cases "PgPolicy_GetVersion ''org'' i (pol_Version pol) ?s")
  with pg_calm.calm_version [OF w(1) n'(3) TrueI, of "''org''" i "pol_Version pol" y t] pg_get_version_ok [OF w(1) y] u
  have yu: "y = Inr u" by (cases y) (auto simp: pg_policy_ops_def store_fault_def)
  have h: "pol_Version pol \<noteq> []"
    using ContentHash_nonempty [OF version_soundD(4) [OF okD(1) [OF w(2) u]]] comp by simp
  let ?ds = "[simulate_one 0 pol ''s1'' (demo_request ''shop'')]"
  have sim: "Simulate pg_policy_ops demo_validator demo_crypto ''org'' i (pol_Version pol) [(0, ''s1'', demo_request ''shop'')] ?s =
      (Inr (pol_Version pol, ?ds), t)"
    using h y yu comp by (simp add: Simulate_def pg_policy_ops_def)
  have "dec_Verdict (?ds ! 0) = dec_Verdict d"
    using simulate_predicts [OF demo_validator_ok demo_pair n'(1) demo_node_engine(1) run n'(4) res(2) h sim, of 0 "''s1''"]
    by simp
  with run sim show ?thesis by blast
qed

theorem publish_converges_witness:
  "\<exists>n v s1 n' pol. Service_Publish pg_policy_ops demo_validator demo_crypto demo_signer demo_clk ''org'' ''p1'' ''key'' (bp_src n) = (Inr v, s1) \<and>
     Provider_Invalidate pg_policy_ops demo_crypto ''org'' (n\<lparr>bp_src := s1\<rparr>) = (None, n') \<and>
     Provider_Active pg_policy_ops demo_crypto ''org'' n' = (Inr pol, n') \<and> compiled_from (pv_Rules v) (pv_VersionHash v) pol"
proof -
  obtain n v s1 n' e where n: "demo_node (NewProvider (NewPgPolicyStore [])) n"
    "Service_Publish pg_policy_ops demo_validator demo_crypto demo_signer demo_clk ''org'' ''p1'' ''key'' (bp_src n) = (Inr v, s1)"
    "Provider_Invalidate pg_policy_ops demo_crypto ''org'' (n\<lparr>bp_src := s1\<rparr>) = (None, n')"
    by (rule demo_served)
  from publish_converges [OF demo_validator_ok demo_pair n(1) demo_collision_free n(2,3)] n show ?thesis by blast
qed

theorem refresh_converges_witness:
  "\<exists>n e e'. map_of (bp_cache n) ''org'' = Some e \<and> map_of (bp_cache (refreshAll pg_policy_ops demo_crypto n)) ''org'' = Some e'"
proof -
  obtain n v s1 n' e where n': "demo_node (NewProvider (NewPgPolicyStore [])) n'" "map_of (bp_cache n') ''org'' = Some e"
    by (rule demo_served)
  from refresh_converges [OF demo_validator_ok demo_pair n'] n'(2) show ?thesis by blast
qed

end
