(* ===== verification/Server_Admin.thy ===== *)
theory Server_Admin
  imports Server_Api Bundle_Serving
begin

text \<open>
  \<open>internal/server\<close>, the control plane: the policy endpoints (\<open>policies.go\<close>), key management
  (\<open>keys_admin.go\<close>), the bootstrap of an organisation (\<open>provision.go\<close>) and the public key set
  (\<open>keys.go\<close>). Handlers are wrappers over the policy service, the bundle provider and the key stores;
  the JSON reader turns a body into the tree of its first value, and the strict decoding into the
  request types is written out.
\<close>

section \<open>Request bodies\<close>

text \<open>What reading one JSON value from the input gives: a value, a syntax error, the end of the
  input before (\<open>io.EOF\<close>) or inside (\<open>io.ErrUnexpectedEOF\<close>) the value, or, when the body cannot be
  read, the error of the transport.\<close>

datatype body_read = ReadValue json | ReadSyntax | ReadEOF | ReadUnexpectedEOF | ReadFailed string

type_synonym json_reader = "string option \<Rightarrow> body_read"

definition maxPolicyBodyBytes :: nat where "maxPolicyBodyBytes = 262144"

definition maxSimulateRequests :: nat where "maxSimulateRequests = 500"

fun tree_error :: "json_error \<Rightarrow> decode_error" where
  "tree_error (Policy_File.SyntaxError _) = decode_error.SyntaxError"
| "tree_error (TypeMismatch val strct field typ) = TypeError field"
| "tree_error (UnknownField k) = OtherDecode (json_error_str (UnknownField k))"

text \<open>\<open>decodePolicyBody\<close>: a reader that would have to go past the limit fails with \<open>MaxBytesError\<close>.\<close>

definition decodePolicyBody :: "json_reader \<Rightarrow> (json \<Rightarrow> json_error + 'b) \<Rightarrow> http_request \<Rightarrow> http_response + 'b" where
  "decodePolicyBody read dec rq =
     (let body = (case rq_Body rq of Some b \<Rightarrow> b | None \<Rightarrow> []);
          bad = (\<lambda>e. Inl (writeProblem [] rq 400 codeValidationFailed ''Malformed request body'' (jsonErrorDetail e) []));
          ended = (\<lambda>e. if length body > maxPolicyBodyBytes
                       then Inl (writeProblem [] rq 413 codeValidationFailed ''Request too large''
                                   ''The request body exceeds the maximum allowed size.'' [])
                       else bad e)
      in case read (map_option (take maxPolicyBodyBytes) (rq_Body rq)) of
           ReadSyntax \<Rightarrow> bad decode_error.SyntaxError
         | ReadFailed m \<Rightarrow> bad (OtherDecode m)
         | ReadEOF \<Rightarrow> ended EmptyBody
         | ReadUnexpectedEOF \<Rightarrow> ended (OtherDecode ''unexpected EOF'')
         | ReadValue j \<Rightarrow> (case dec j of Inl e \<Rightarrow> bad (tree_error e) | Inr b \<Rightarrow> Inr b))"

text \<open>The strict decoding of an object into a struct: its fields' names, how one member sets a field.\<close>

definition dec_struct :: "string \<Rightarrow> string list \<Rightarrow> (string \<Rightarrow> json \<Rightarrow> 's \<Rightarrow> json_error + 's) \<Rightarrow> 's \<Rightarrow> json_place \<Rightarrow> json \<Rightarrow> json_error + 's" where
  "dec_struct ty names upd zero pl j =
     (case j of
        JsonObj kvs \<Rightarrow>
          foldE (\<lambda>kv s. case match_field names (fst kv) of None \<Rightarrow> Inl (UnknownField (fst kv)) | Some n \<Rightarrow> upd n (snd kv) s) kvs zero
      | JsonNull \<Rightarrow> Inr zero
      | _ \<Rightarrow> mismatch pl (json_kind j) ty)"

fun dec_bool_ptr :: "json_place \<Rightarrow> json \<Rightarrow> json_error + bool option" where
  "dec_bool_ptr pl JsonNull = Inr None"
| "dec_bool_ptr pl (JsonBool b) = Inr (Some b)"
| "dec_bool_ptr pl j = mismatch pl (json_kind j) ''bool''"

definition rule_names :: "string list" where
  "rule_names = doc_names @ [''window'', ''limit'', ''provider'', ''threshold'', ''fail_mode'']"

definition set_rule_field :: "string \<Rightarrow> json \<Rightarrow> Rule \<Rightarrow> json_error + Rule" where
  "set_rule_field n j r =
     (let pl = (''Rule'', ''rules.'' @ n) in
      if n = ''window'' then bindE (dec_string pl j (r_Window r)) (\<lambda>x. Inr (r\<lparr>r_Window := x\<rparr>))
      else if n = ''limit'' then bindE (dec_string pl j (r_Limit r)) (\<lambda>x. Inr (r\<lparr>r_Limit := x\<rparr>))
      else if n = ''provider'' then bindE (dec_string pl j (r_Provider r)) (\<lambda>x. Inr (r\<lparr>r_Provider := x\<rparr>))
      else if n = ''threshold'' then bindE (dec_int_ptr pl j) (\<lambda>x. Inr (r\<lparr>r_Threshold := x\<rparr>))
      else if n = ''fail_mode'' then bindE (dec_string pl j (r_FailMode r)) (\<lambda>x. Inr (r\<lparr>r_FailMode := x\<rparr>))
      else set_doc_field pl n j r)"

definition dec_rule :: "json \<Rightarrow> json_error + Rule" where
  "dec_rule = dec_struct ''policyctl.Rule'' rule_names set_rule_field blank_rule (''policyWriteRequest'', ''rules'')"

fun dec_rules :: "json \<Rightarrow> json_error + Rule list" where
  "dec_rules (JsonArr js) = mapE dec_rule js"
| "dec_rules JsonNull = Inr []"
| "dec_rules j = mismatch (''policyWriteRequest'', ''rules'') (json_kind j) ''[]policyctl.Rule''"

record policyWriteRequest =
  pwr_Name :: string
  pwr_Agents :: "string list option"
  pwr_Rules :: "Rule list"

definition dec_policyWriteRequest :: "json \<Rightarrow> json_error + policyWriteRequest" where
  "dec_policyWriteRequest = dec_struct ''server.policyWriteRequest'' [''name'', ''agents'', ''rules'']
     (\<lambda>n j b. let pl = (''policyWriteRequest'', n) in
        if n = ''name'' then bindE (dec_string pl j (pwr_Name b)) (\<lambda>x. Inr (b\<lparr>pwr_Name := x\<rparr>))
        else if n = ''agents'' then bindE (dec_strings_nil pl j) (\<lambda>x. Inr (b\<lparr>pwr_Agents := x\<rparr>))
        else bindE (dec_rules j) (\<lambda>x. Inr (b\<lparr>pwr_Rules := x\<rparr>)))
     \<lparr>pwr_Name = [], pwr_Agents = None, pwr_Rules = []\<rparr> ([], [])"

definition dec_rollbackRequest :: "json \<Rightarrow> json_error + string" where
  "dec_rollbackRequest = dec_struct ''server.rollbackRequest'' [''version_hash''] (\<lambda>n. dec_string (''rollbackRequest'', n)) [] ([], [])"

record simulateRequest =
  smr_VersionHash :: string
  smr_Requests :: "AuthorizeRequest list"

text \<open>The decoding of an authorize request is an argument, as in the decision plane.\<close>

definition dec_simulateRequest :: "(json \<Rightarrow> json_error + AuthorizeRequest list) \<Rightarrow> json \<Rightarrow> json_error + simulateRequest" where
  "dec_simulateRequest dec_requests = dec_struct ''server.simulateRequest'' [''version_hash'', ''requests'']
     (\<lambda>n j b. if n = ''version_hash''
        then bindE (dec_string (''simulateRequest'', n) j (smr_VersionHash b)) (\<lambda>x. Inr (b\<lparr>smr_VersionHash := x\<rparr>))
        else bindE (dec_requests j) (\<lambda>x. Inr (b\<lparr>smr_Requests := x\<rparr>)))
     \<lparr>smr_VersionHash = [], smr_Requests = []\<rparr> ([], [])"

text \<open>The optional author: unknown members and values of another type are passed over.\<close>

definition decodeOptionalBody :: "json_reader \<Rightarrow> http_request \<Rightarrow> string" where
  "decodeOptionalBody read rq =
     (case read (map_option (take maxPolicyBodyBytes) (rq_Body rq)) of
        ReadValue (JsonObj kvs) \<Rightarrow>
          fold (\<lambda>kv author. if match_field [''author''] (fst kv) = None then author
                  else case snd kv of JsonString s \<Rightarrow> s | _ \<Rightarrow> author) kvs []
      | _ \<Rightarrow> [])"

record provisionKeyRequest =
  pkr_OrgID :: string
  pkr_Env :: string
  pkr_Tier :: string
  pkr_Shadow :: "bool option"

definition set_key_field :: "string \<Rightarrow> string \<Rightarrow> json \<Rightarrow> provisionKeyRequest \<Rightarrow> json_error + provisionKeyRequest" where
  "set_key_field ty n j b =
     (if n = ''org_id'' then bindE (dec_string (ty, n) j (pkr_OrgID b)) (\<lambda>x. Inr (b\<lparr>pkr_OrgID := x\<rparr>))
      else if n = ''env'' then bindE (dec_string (ty, n) j (pkr_Env b)) (\<lambda>x. Inr (b\<lparr>pkr_Env := x\<rparr>))
      else if n = ''tier'' then bindE (dec_string (ty, n) j (pkr_Tier b)) (\<lambda>x. Inr (b\<lparr>pkr_Tier := x\<rparr>))
      else bindE (dec_bool_ptr (ty, n) j) (\<lambda>x. Inr (b\<lparr>pkr_Shadow := x\<rparr>)))"

definition zero_key_request :: provisionKeyRequest where
  "zero_key_request = \<lparr>pkr_OrgID = [], pkr_Env = [], pkr_Tier = [], pkr_Shadow = None\<rparr>"

text \<open>\<open>createKeyRequest\<close> has the same fields without the organisation.\<close>

definition dec_createKeyRequest :: "json \<Rightarrow> json_error + provisionKeyRequest" where
  "dec_createKeyRequest = dec_struct ''server.createKeyRequest'' [''env'', ''tier'', ''shadow'']
     (set_key_field ''createKeyRequest'') zero_key_request ([], [])"

definition dec_provisionKeyRequest :: "json \<Rightarrow> json_error + provisionKeyRequest" where
  "dec_provisionKeyRequest = dec_struct ''server.provisionKeyRequest'' [''org_id'', ''env'', ''tier'', ''shadow'']
     (set_key_field ''provisionKeyRequest'') zero_key_request ([], [])"

section \<open>The control-plane server\<close>

record 'w PolicySvc =
  ps_Create :: "string \<Rightarrow> string \<Rightarrow> string list option \<Rightarrow> Rule list \<Rightarrow> 'w \<Rightarrow> (ctl_error + CtlPolicy) \<times> 'w"
  ps_Get :: "string \<Rightarrow> string \<Rightarrow> 'w \<Rightarrow> (ctl_error + CtlPolicy) \<times> 'w"
  ps_List :: "string \<Rightarrow> 'w \<Rightarrow> (ctl_error + CtlPolicy list) \<times> 'w"
  ps_Update :: "string \<Rightarrow> string \<Rightarrow> string \<Rightarrow> string list option \<Rightarrow> Rule list \<Rightarrow> 'w \<Rightarrow> (ctl_error + CtlPolicy) \<times> 'w"
  ps_Publish :: "string \<Rightarrow> string \<Rightarrow> string \<Rightarrow> 'w \<Rightarrow> (ctl_error + PolicyVersion) \<times> 'w"
  ps_ListVersions :: "string \<Rightarrow> string \<Rightarrow> 'w \<Rightarrow> (ctl_error + PolicyVersion list) \<times> 'w"
  ps_Rollback :: "string \<Rightarrow> string \<Rightarrow> string \<Rightarrow> 'w \<Rightarrow> (ctl_error + PolicyVersion) \<times> 'w"
  ps_ActiveBundle :: "string \<Rightarrow> 'w \<Rightarrow> (ctl_error + BundleRef) \<times> 'w"

record 'w KeyAdmin =
  ka_CreateKey :: "KeyRecord \<Rightarrow> gotime \<Rightarrow> 'w \<Rightarrow> key_error option \<times> 'w"
  ka_ListKeys :: "string \<Rightarrow> 'w \<Rightarrow> key_error + KeyInfo list"
  ka_RevokeKey :: "string \<Rightarrow> string \<Rightarrow> gotime \<Rightarrow> 'w \<Rightarrow> (key_error + KeyInfo) \<times> 'w"

record 'w Admin =
  ad_policySvc :: "'w PolicySvc option"
  ad_bundleInvalidator :: "(string \<Rightarrow> 'w \<Rightarrow> engine_error option \<times> 'w) option"
  ad_simulator :: "(string \<Rightarrow> string \<Rightarrow> string \<Rightarrow> AuthorizeRequest list \<Rightarrow> 'w \<Rightarrow> (sim_error + string \<times> Decision list) \<times> 'w) option"
  ad_keyAdmin :: "'w KeyAdmin option"
  ad_keyCacheInvalidate :: "(string \<Rightarrow> 'w \<Rightarrow> key_error option \<times> 'w) option"
  ad_provisionToken :: string
  ad_keysJWKS :: "JWK list option"
  ad_read :: json_reader
  ad_requests :: "json \<Rightarrow> json_error + AuthorizeRequest list"
  ad_NewKey :: "string \<Rightarrow> string \<Rightarrow> string \<Rightarrow> string + GeneratedKey"
  ad_now :: gotime

section \<open>Policy endpoints\<close>

fun writePolicyError :: "http_request \<Rightarrow> ctl_error \<Rightarrow> http_response" where
  "writePolicyError rq (ErrValidation ps) =
     writeProblem [] rq 422 codeValidationFailed ''Policy validation failed'' ''The policy is not publishable; see errors.''
       (map (\<lambda>p. \<lparr>vi_Pointer = pb_Pointer p, vi_Detail = pb_Detail p\<rparr>) ps)"
| "writePolicyError rq ErrPolicyExists =
     writeProblem [] rq 409 codeConflict ''Conflict'' ''A policy with that id already exists.'' []"
| "writePolicyError rq e =
     (if e \<in> set [ErrPolicyNotFound, ErrVersionNotFound, ErrBundleNotFound]
      then writeProblem [] rq 404 codeNotFound ''Not found'' ''No such policy, version, or active bundle for this org.'' []
      else writeProblem [] rq 503 codeInternal ''Control plane error'' ''The policy operation could not be completed.'' [])"

text \<open>A simulation fails with a store error, a validation error or, like any other error, a compile error.\<close>

fun writeSimError :: "http_request \<Rightarrow> sim_error \<Rightarrow> http_response" where
  "writeSimError rq (SimStore e) = writePolicyError rq e"
| "writeSimError rq (SimValidation ps) = writePolicyError rq (ErrValidation ps)"
| "writeSimError rq (SimCompile e) = writePolicyError rq (ErrPolicyStore (policy_error_str e))"

definition controlPlaneReady :: "'w Admin \<Rightarrow> ('w PolicySvc \<Rightarrow> 'w handler) \<Rightarrow> 'w handler" where
  "controlPlaneReady a h rq p w =
     (case ad_policySvc a of
        None \<Rightarrow> (writeProblem [] rq 503 codeInternal ''Control plane unavailable''
                    ''Policy authoring is not enabled on this instance.'' [], w)
      | Some svc \<Rightarrow> h svc rq p w)"

definition orgOf :: "(string \<Rightarrow> http_request \<Rightarrow> 'w \<Rightarrow> http_response \<times> 'w) \<Rightarrow> 'w handler" where
  "orgOf h rq p w = (case p of None \<Rightarrow> (noPrincipal rq, w) | Some prin \<Rightarrow> h (pr_OrgID prin) rq w)"

text \<open>The answer to a service call: the error mapped, or the result with its status.\<close>

definition policy_reply :: "http_request \<Rightarrow> int \<Rightarrow> ('r \<Rightarrow> resp_body) \<Rightarrow> (ctl_error + 'r) \<times> 'w \<Rightarrow> http_response \<times> 'w" where
  "policy_reply rq status render res =
     (case res of (Inl e, w) \<Rightarrow> (writePolicyError rq e, w) | (Inr r, w) \<Rightarrow> (writeJSON [] status (render r), w))"

definition handleListPolicies :: "'w PolicySvc \<Rightarrow> 'w handler" where
  "handleListPolicies svc = orgOf (\<lambda>org rq w. policy_reply rq 200 BodyPolicies (ps_List svc org w))"

definition handleCreatePolicy :: "'w Admin \<Rightarrow> 'w PolicySvc \<Rightarrow> 'w handler" where
  "handleCreatePolicy a svc = orgOf (\<lambda>org rq w.
     case decodePolicyBody (ad_read a) dec_policyWriteRequest rq of
       Inl resp \<Rightarrow> (resp, w)
     | Inr body \<Rightarrow> policy_reply rq 201 BodyPolicy (ps_Create svc org (pwr_Name body) (pwr_Agents body) (pwr_Rules body) w))"

definition handlePolicies :: "'w Admin \<Rightarrow> 'w handler" where
  "handlePolicies a = controlPlaneReady a (\<lambda>svc rq p w.
     if rq_Method rq = ''GET'' then handleListPolicies svc rq p w
     else if rq_Method rq = ''POST'' then handleCreatePolicy a svc rq p w
     else (writeProblem [(''Allow'', ''GET, POST'')] rq 405 codeMethodNotAllowed ''Method not allowed''
             ''This endpoint supports GET (list) and POST (create policy).'' [], w))"

definition handleGetPolicy :: "'w PolicySvc \<Rightarrow> 'w handler" where
  "handleGetPolicy svc = orgOf (\<lambda>org rq w. policy_reply rq 200 BodyPolicy (ps_Get svc org (rq_PathID rq) w))"

definition handleUpdatePolicy :: "'w Admin \<Rightarrow> 'w PolicySvc \<Rightarrow> 'w handler" where
  "handleUpdatePolicy a svc = orgOf (\<lambda>org rq w.
     case decodePolicyBody (ad_read a) dec_policyWriteRequest rq of
       Inl resp \<Rightarrow> (resp, w)
     | Inr body \<Rightarrow>
         policy_reply rq 200 BodyPolicy (ps_Update svc org (rq_PathID rq) (pwr_Name body) (pwr_Agents body) (pwr_Rules body) w))"

definition handlePolicyItem :: "'w Admin \<Rightarrow> 'w handler" where
  "handlePolicyItem a = controlPlaneReady a (\<lambda>svc rq p w.
     if rq_Method rq = ''GET'' then handleGetPolicy svc rq p w
     else if rq_Method rq = ''PUT'' then handleUpdatePolicy a svc rq p w
     else (writeProblem [(''Allow'', ''GET, PUT'')] rq 405 codeMethodNotAllowed ''Method not allowed''
             ''This endpoint supports GET and PUT.'' [], w))"

definition invalidateBundle :: "'w Admin \<Rightarrow> string \<Rightarrow> 'w \<Rightarrow> 'w" where
  "invalidateBundle a org w = (case ad_bundleInvalidator a of None \<Rightarrow> w | Some f \<Rightarrow> snd (f org w))"

definition handlePublishPolicy :: "'w Admin \<Rightarrow> 'w handler" where
  "handlePublishPolicy a = controlPlaneReady a (\<lambda>svc rq p w. orgOf (\<lambda>org rq w.
     let author0 = decodeOptionalBody (ad_read a) rq;
         author = (if author0 = [] then (case p of Some prin \<Rightarrow> pr_KeyID prin | None \<Rightarrow> []) else author0)
     in case ps_Publish svc org (rq_PathID rq) author w of
          (Inl e, w1) \<Rightarrow> (writePolicyError rq e, w1)
        | (Inr v, w1) \<Rightarrow> (writeJSON [] 200 (BodyVersion v), invalidateBundle a org w1)) rq p w)"

definition handleRollbackPolicy :: "'w Admin \<Rightarrow> 'w handler" where
  "handleRollbackPolicy a = controlPlaneReady a (\<lambda>svc. orgOf (\<lambda>org rq w.
     case decodePolicyBody (ad_read a) dec_rollbackRequest rq of
       Inl resp \<Rightarrow> (resp, w)
     | Inr versionHash \<Rightarrow>
         if versionHash = []
         then (writeProblem [] rq 400 codeValidationFailed ''Validation failed'' ''version_hash is required.'' [], w)
         else (case ps_Rollback svc org (rq_PathID rq) versionHash w of
                 (Inl e, w1) \<Rightarrow> (writePolicyError rq e, w1)
               | (Inr v, w1) \<Rightarrow> (writeJSON [] 200 (BodyVersion v), invalidateBundle a org w1))))"

definition handleListVersions :: "'w Admin \<Rightarrow> 'w handler" where
  "handleListVersions a = controlPlaneReady a (\<lambda>svc. orgOf (\<lambda>org rq w.
     policy_reply rq 200 BodyVersions (ps_ListVersions svc org (rq_PathID rq) w)))"

text \<open>The first request of a batch that does not validate, with its index and its problems.\<close>

fun first_invalid :: "nat \<Rightarrow> AuthorizeRequest list \<Rightarrow> (nat \<times> ValidationItem list) option" where
  "first_invalid i [] = None"
| "first_invalid i (req # reqs) =
     (let items = validateAuthorizeRequest req in if items \<noteq> [] then Some (i, items) else first_invalid (Suc i) reqs)"

definition handleSimulate :: "'w Admin \<Rightarrow> 'w handler" where
  "handleSimulate a = controlPlaneReady a (\<lambda>svc rq p w.
     case ad_simulator a of
       None \<Rightarrow> (writeProblem [] rq 503 codeInternal ''Simulation unavailable''
                   ''Policy simulation is not enabled on this instance.'' [], w)
     | Some simulate \<Rightarrow> orgOf (\<lambda>org rq w.
         case decodePolicyBody (ad_read a) (dec_simulateRequest (ad_requests a)) rq of
           Inl resp \<Rightarrow> (resp, w)
         | Inr body \<Rightarrow>
             if smr_Requests body = []
             then (writeProblem [] rq 400 codeValidationFailed ''Validation failed''
                     ''requests must contain at least one authorize request.'' [], w)
             else if length (smr_Requests body) > maxSimulateRequests
             then (writeProblem [] rq 400 codeValidationFailed ''Validation failed''
                     ''too many requests in one simulation batch.'' [], w)
             else (case first_invalid 0 (smr_Requests body) of
                     Some (i, items) \<Rightarrow>
                       (writeProblem [] rq 400 codeValidationFailed ''Validation failed''
                          (''requests['' @ nat_str i @ ''] is invalid.'') items, w)
                   | None \<Rightarrow>
                       (case simulate org (rq_PathID rq) (smr_VersionHash body) (smr_Requests body) w of
                          (Inl e, w1) \<Rightarrow> (writeSimError rq e, w1)
                        | (Inr (label, results), w1) \<Rightarrow>
                            (writeJSON [] 200 (BodySimulation
                               \<lparr>sm_VersionHash = label, sm_Shadow = True, sm_Results = results\<rparr>), w1)))) rq p w)"

definition handleActiveBundle :: "'w Admin \<Rightarrow> 'w handler" where
  "handleActiveBundle a = controlPlaneReady a (\<lambda>svc. orgOf (\<lambda>org rq w.
     policy_reply rq 200 BodyBundle (ps_ActiveBundle svc org w)))"

section \<open>Key management\<close>

definition prefixFor :: "string \<Rightarrow> string" where
  "prefixFor env = (if env = EnvTest then ''azn_test_'' else ''azn_live_'')"

definition viewOf :: "KeyInfo \<Rightarrow> apiKeyView" where
  "viewOf ki = \<lparr>kv_ID = ki_KeyID ki, kv_Prefix = prefixFor (ki_Env ki), kv_OrgID = ki_OrgID ki, kv_Env = ki_Env ki,
     kv_Tier = ki_Tier ki, kv_IsActive = (ki_Status ki = KeyStatusActive), kv_Shadow = ki_Shadow ki,
     kv_CreatedAt = ki_CreatedAt ki, kv_RevokedAt = ki_RevokedAt ki\<rparr>"

definition keyAdminReady :: "'w Admin \<Rightarrow> ('w KeyAdmin \<Rightarrow> 'w handler) \<Rightarrow> 'w handler" where
  "keyAdminReady a h rq p w =
     (case ad_keyAdmin a of
        None \<Rightarrow> (writeProblem [] rq 503 codeInternal ''Key management unavailable''
                    ''API-key management is not enabled on this instance.'' [], w)
      | Some ka \<Rightarrow> h ka rq p w)"

definition handleListKeys :: "'w KeyAdmin \<Rightarrow> 'w handler" where
  "handleListKeys ka = orgOf (\<lambda>org rq w.
     case ka_ListKeys ka org w of
       Inl _ \<Rightarrow> (writeProblem [] rq 503 codeInternal ''Key management error'' ''Could not list keys.'' [], w)
     | Inr keys \<Rightarrow> (writeJSON [] 200 (BodyKeys (map viewOf keys)), w))"

definition created_view :: "string \<Rightarrow> string \<Rightarrow> gotime \<Rightarrow> GeneratedKey \<Rightarrow> createdApiKeyView" where
  "created_view org tier now gk =
     apiKeyView.extend
       (viewOf \<lparr>ki_KeyID = kr_KeyID (gk_Record gk), ki_OrgID = org, ki_Tier = tier, ki_Env = kr_Env (gk_Record gk),
          ki_Status = kr_Status (gk_Record gk), ki_Shadow = kr_Shadow (gk_Record gk), ki_CreatedAt = now, ki_RevokedAt = None\<rparr>)
       (createdApiKeyView.fields (gk_Plaintext gk))"

text \<open>What creating and provisioning a key share, from the check of the environment on; the two
  differ in the texts of a failed insert.\<close>

definition mint_key :: "'w Admin \<Rightarrow> 'w KeyAdmin \<Rightarrow> string \<times> string \<Rightarrow> string \<Rightarrow> provisionKeyRequest \<Rightarrow> http_request \<Rightarrow> 'w \<Rightarrow> http_response \<times> 'w" where
  "mint_key a ka failed org body rq w =
     (if pkr_Env body \<noteq> EnvLive \<and> pkr_Env body \<noteq> EnvTest
      then (writeProblem [] rq 400 codeValidationFailed ''Validation failed''
              (''env must be '' @ quote EnvLive @ '' or '' @ quote EnvTest @ ''.'') [], w)
      else let tier = (if pkr_Tier body = [] then ''default'' else pkr_Tier body) in
        (case ad_NewKey a (pkr_Env body) org tier of
           Inl err \<Rightarrow> (writeProblem [] rq 400 codeValidationFailed ''Validation failed'' err [], w)
         | Inr gk0 \<Rightarrow>
             let gk = (case pkr_Shadow body of None \<Rightarrow> gk0
                       | Some b \<Rightarrow> gk0\<lparr>gk_Record := (gk_Record gk0)\<lparr>kr_Shadow := b\<rparr>\<rparr>)
             in (case ka_CreateKey ka (gk_Record gk) (ad_now a) w of
                   (Some _, w1) \<Rightarrow> (writeProblem [] rq 503 codeInternal (fst failed) (snd failed) [], w1)
                 | (None, w1) \<Rightarrow> (writeJSON [] 201 (BodyCreatedKey (created_view org tier (ad_now a) gk)), w1))))"

definition handleCreateKey :: "'w Admin \<Rightarrow> 'w KeyAdmin \<Rightarrow> 'w handler" where
  "handleCreateKey a ka = orgOf (\<lambda>org rq w.
     case decodePolicyBody (ad_read a) dec_createKeyRequest rq of
       Inl resp \<Rightarrow> (resp, w)
     | Inr body \<Rightarrow> mint_key a ka (''Key management error'', ''Could not create the key.'') org body rq w)"

definition handleKeys :: "'w Admin \<Rightarrow> 'w handler" where
  "handleKeys a = keyAdminReady a (\<lambda>ka rq p w.
     if rq_Method rq = ''GET'' then handleListKeys ka rq p w
     else if rq_Method rq = ''POST'' then handleCreateKey a ka rq p w
     else (writeProblem [(''Allow'', ''GET, POST'')] rq 405 codeMethodNotAllowed ''Method not allowed''
             ''This endpoint supports GET (list) and POST (create key).'' [], w))"

definition handleRevokeKey :: "'w Admin \<Rightarrow> 'w handler" where
  "handleRevokeKey a = keyAdminReady a (\<lambda>ka. orgOf (\<lambda>org rq w.
     case ka_RevokeKey ka org (rq_PathID rq) (ad_now a) w of
       (Inl e, w1) \<Rightarrow>
         if e = ErrKeyNotFound then (writeProblem [] rq 404 codeNotFound ''Not found'' ''No such key for this org.'' [], w1)
         else (writeProblem [] rq 503 codeInternal ''Key management error'' ''Could not revoke the key.'' [], w1)
     | (Inr info, w1) \<Rightarrow>
         (writeJSON [] 200 (BodyKey (viewOf info)),
          case ad_keyCacheInvalidate a of None \<Rightarrow> w1 | Some f \<Rightarrow> snd (f (rq_PathID rq) w1))))"

section \<open>Provisioning and public keys\<close>

definition codeUnauthorized :: string where "codeUnauthorized = ''unauthorized''"

definition handleProvisionKey :: "'w Admin \<Rightarrow> http_request \<Rightarrow> 'w \<Rightarrow> http_response \<times> 'w" where
  "handleProvisionKey a rq w =
     (if ad_provisionToken a = [] \<or> header_Get (rq_Header rq) ''X-Provision-Token'' \<noteq> ad_provisionToken a
      then (writeProblem [] rq 401 codeUnauthorized ''Unauthorized'' ''A valid X-Provision-Token is required.'' [], w)
      else case ad_keyAdmin a of
             None \<Rightarrow> (writeProblem [] rq 503 codeInternal ''Provisioning unavailable''
                         ''Key management is not enabled on this instance.'' [], w)
           | Some ka \<Rightarrow>
               (case decodePolicyBody (ad_read a) dec_provisionKeyRequest rq of
                  Inl resp \<Rightarrow> (resp, w)
                | Inr body \<Rightarrow>
                    if pkr_OrgID body = []
                    then (writeProblem [] rq 400 codeValidationFailed ''Validation failed'' ''org_id is required.'' [], w)
                    else mint_key a ka (''Provisioning error'', ''Could not create the org key.'') (pkr_OrgID body) body rq w))"

definition handleKeysPublic :: "'w Admin \<Rightarrow> http_request \<Rightarrow> 'w \<Rightarrow> http_response \<times> 'w" where
  "handleKeysPublic a rq w =
     (case ad_keysJWKS a of
        None \<Rightarrow> (writeProblem [] rq 503 codeInternal ''Keys unavailable'' ''Decision signing keys are not configured.'' [], w)
      | Some keys \<Rightarrow> (writeJSON [(''Cache-Control'', ''public, max-age=300'')] 200 (BodyJWKS keys), w))"

section \<open>Routes\<close>

datatype admin_route = RoutePolicies | RouteActive | RoutePolicy | RoutePublish | RouteRollback | RouteVersions | RouteSimulate
  | RouteKeys | RouteRevoke

fun admin_handler :: "'w Admin \<Rightarrow> admin_route \<Rightarrow> 'w handler" where
  "admin_handler a RoutePolicies = handlePolicies a"
| "admin_handler a RouteActive = handleActiveBundle a"
| "admin_handler a RoutePolicy = handlePolicyItem a"
| "admin_handler a RoutePublish = handlePublishPolicy a"
| "admin_handler a RouteRollback = handleRollbackPolicy a"
| "admin_handler a RouteVersions = handleListVersions a"
| "admin_handler a RouteSimulate = handleSimulate a"
| "admin_handler a RouteKeys = handleKeys a"
| "admin_handler a RouteRevoke = handleRevokeKey a"

text \<open>The method guard of a route; the collection and item routes dispatch on the method themselves.\<close>

fun route_method :: "admin_route \<Rightarrow> string option" where
  "route_method RoutePolicies = None"
| "route_method RoutePolicy = None"
| "route_method RouteKeys = None"
| "route_method RouteActive = Some ''GET''"
| "route_method RouteVersions = Some ''GET''"
| "route_method RoutePublish = Some ''POST''"
| "route_method RouteRollback = Some ''POST''"
| "route_method RouteSimulate = Some ''POST''"
| "route_method RouteRevoke = Some ''POST''"

definition admin_endpoint :: "'w Server \<Rightarrow> 'w Admin \<Rightarrow> admin_route \<Rightarrow> http_request \<Rightarrow> 'w \<Rightarrow> http_response \<times> 'w" where
  "admin_endpoint sv a route rq w =
     (let h = authenticate sv (rateLimit sv (admin_handler a route))
      in case route_method route of None \<Rightarrow> h rq None w | Some m \<Rightarrow> method_guard m h rq None w)"

definition provision_endpoint :: "'w Admin \<Rightarrow> http_request \<Rightarrow> 'w \<Rightarrow> http_response \<times> 'w" where
  "provision_endpoint a rq w = method_guard ''POST'' (\<lambda>rq _. handleProvisionKey a rq) rq None w"

definition keys_public_endpoint :: "'w Admin \<Rightarrow> http_request \<Rightarrow> 'w \<Rightarrow> http_response \<times> 'w" where
  "keys_public_endpoint a rq w = method_guard ''GET'' (\<lambda>rq _. handleKeysPublic a rq) rq None w"

section \<open>The production wiring\<close>

text \<open>The node's world: what the decision plane uses and the bundle provider, whose source is the
  policy store the service writes to.\<close>

record admin_world =
  aw_prod :: "(RedisKeyCache \<times> PostgresKeyStore) prod_world"
  aw_node :: "PgPolicyStore Provider"

text \<open>What one request draws: the readings of the service's clock, a fresh policy id, clock and
  decision id of each simulated request, the entropy of a new key.\<close>

record admin_env =
  ae_env :: prod_env
  ae_clk :: clock
  ae_policyID :: string
  ae_sim :: "nat \<Rightarrow> gotime \<times> string"
  ae_entropy :: "string option"

record admin_config =
  ac_prod :: "(RedisKeyCache \<times> PostgresKeyStore) prod_config"
  ac_schema :: schema_validator
  ac_signer :: Signer
  ac_token :: string
  ac_read :: json_reader
  ac_requests :: "json \<Rightarrow> json_error + AuthorizeRequest list"

definition on_prod :: "((RedisKeyCache \<times> PostgresKeyStore) prod_world \<Rightarrow> 'r \<times> (RedisKeyCache \<times> PostgresKeyStore) prod_world)
    \<Rightarrow> admin_world \<Rightarrow> 'r \<times> admin_world" where
  "on_prod f w = (case f (aw_prod w) of (r, p) \<Rightarrow> (r, w\<lparr>aw_prod := p\<rparr>))"

definition on_node :: "(PgPolicyStore Provider \<Rightarrow> 'r \<times> PgPolicyStore Provider) \<Rightarrow> admin_world \<Rightarrow> 'r \<times> admin_world" where
  "on_node f w = (case f (aw_node w) of (r, n) \<Rightarrow> (r, w\<lparr>aw_node := n\<rparr>))"

definition on_src :: "(PgPolicyStore \<Rightarrow> 'r \<times> PgPolicyStore) \<Rightarrow> admin_world \<Rightarrow> 'r \<times> admin_world" where
  "on_src f = on_node (\<lambda>n. case f (bp_src n) of (r, s) \<Rightarrow> (r, n\<lparr>bp_src := s\<rparr>))"

definition on_keys :: "(PostgresKeyStore \<Rightarrow> 'r \<times> PostgresKeyStore) \<Rightarrow> admin_world \<Rightarrow> 'r \<times> admin_world" where
  "on_keys f = on_prod (\<lambda>p. case f (snd (pw_keys p)) of (r, s) \<Rightarrow> (r, p\<lparr>pw_keys := (fst (pw_keys p), s)\<rparr>))"

definition on_key_cache :: "(RedisKeyCache \<Rightarrow> 'r \<times> RedisKeyCache) \<Rightarrow> admin_world \<Rightarrow> 'r \<times> admin_world" where
  "on_key_cache f = on_prod (\<lambda>p. case f (fst (pw_keys p)) of (r, c) \<Rightarrow> (r, p\<lparr>pw_keys := (c, snd (pw_keys p))\<rparr>))"

text \<open>The middleware of the node: authentication and rate limiting of the decision plane's server.\<close>

definition admin_server :: "admin_config \<Rightarrow> admin_env \<Rightarrow> admin_world Server" where
  "admin_server cfg env =
     (let P = prod_server (ac_prod cfg) (ae_env env) in
      \<lparr>sv_authn = (\<lambda>m path hdr body. on_prod (sv_authn P m path hdr body)),
       sv_limiter = (\<lambda>k lm. on_prod (sv_limiter P k lm)),
       sv_tiers = sv_tiers P,
       sv_authz = (\<lambda>org req shadow. on_prod (sv_authz P org req shadow)),
       sv_idemLookup = map_option (\<lambda>f org k w. f org k (aw_prod w)) (sv_idemLookup P),
       sv_idemSave = (\<lambda>org k d. on_prod (sv_idemSave P org k d)),
       sv_auditWriter = map_option (\<lambda>f r w. w\<lparr>aw_prod := f r (aw_prod w)\<rparr>) (sv_auditWriter P),
       sv_auditGet = map_option (\<lambda>f org d w. f org d (aw_prod w)) (sv_auditGet P),
       sv_auditList = (\<lambda>org f w. sv_auditList P org f (aw_prod w)),
       sv_verifyDecision = sv_verifyDecision P,
       sv_retentionFor = sv_retentionFor P,
       sv_now = sv_now P,
       sv_budget = map_option (\<lambda>(cap, void). (\<lambda>org d. on_prod (cap org d), \<lambda>org d. on_prod (void org d))) (sv_budget P)\<rparr>)"

definition prod_policySvc :: "admin_config \<Rightarrow> admin_env \<Rightarrow> admin_world PolicySvc" where
  "prod_policySvc cfg env =
     (let clk = ae_clk env; c = pc_crypto (ac_prod cfg) in
      \<lparr>ps_Create = (\<lambda>org name agents rules. on_src (Service_Create pg_policy_ops clk (ae_policyID env) org name agents rules)),
       ps_Get = (\<lambda>org i. on_src (Service_Get pg_policy_ops org i)),
       ps_List = (\<lambda>org. on_src (Service_List pg_policy_ops org)),
       ps_Update = (\<lambda>org i name agents rules. on_src (Service_Update pg_policy_ops clk org i name agents rules)),
       ps_Publish = (\<lambda>org i author. on_src (Service_Publish pg_policy_ops (ac_schema cfg) c (ac_signer cfg) clk org i author)),
       ps_ListVersions = (\<lambda>org i. on_src (Service_ListVersions pg_policy_ops org i)),
       ps_Rollback = (\<lambda>org i h. on_src (Service_Rollback pg_policy_ops clk org i h)),
       ps_ActiveBundle = (\<lambda>org. on_src (Service_ActiveBundle pg_policy_ops org))\<rparr>)"

definition prod_keyAdmin :: "admin_world KeyAdmin" where
  "prod_keyAdmin = \<lparr>ka_CreateKey = (\<lambda>r t. on_keys (Postgres_CreateKey r t)),
     ka_ListKeys = (\<lambda>org w. Postgres_ListKeys org (snd (pw_keys (aw_prod w)))),
     ka_RevokeKey = (\<lambda>org k t. on_keys (Postgres_RevokeKey org k t))\<rparr>"

definition prod_admin :: "admin_config \<Rightarrow> admin_env \<Rightarrow> admin_world Admin" where
  "prod_admin cfg env =
     (let c = pc_crypto (ac_prod cfg) in
      \<lparr>ad_policySvc = Some (prod_policySvc cfg env),
       ad_bundleInvalidator = Some (\<lambda>org. on_node (Provider_Invalidate pg_policy_ops c org)),
       ad_simulator = Some (\<lambda>org i h reqs. on_src (Simulate pg_policy_ops (ac_schema cfg) c org i h
          (map (\<lambda>(n, req). (fst (ae_sim env n), snd (ae_sim env n), req)) (enumerate 0 reqs)))),
       ad_keyAdmin = Some prod_keyAdmin,
       ad_keyCacheInvalidate = Some (\<lambda>k. on_key_cache (KeyCache_Invalidate k)),
       ad_provisionToken = ac_token cfg,
       ad_keysJWKS = Some (JWKS (pc_keyring (ac_prod cfg))),
       ad_read = ac_read cfg,
       ad_requests = ac_requests cfg,
       ad_NewKey = NewKey (pc_mac (ac_prod cfg)) (ae_entropy env),
       ad_now = pe_now (ae_env env)\<rparr>)"

end
