(* ===== verification/Policy_Tenancy.thy ===== *)
theory Policy_Tenancy
  imports Policy_Service
begin

text \<open>
  Tenant isolation of the control plane: a service call for one organisation neither changes what
  another has (working copies, versions, bundle pointer) nor returns anything of another.
\<close>

definition same_tenant :: "policy_state \<Rightarrow> policy_state \<Rightarrow> string \<Rightarrow> bool" where
  "same_tenant a a' org \<longleftrightarrow> (\<forall>i. as_pols a' (org, i) = as_pols a (org, i)) \<and>
     (\<forall>i h. as_vers a' (org, i, h) = as_vers a (org, i, h)) \<and> as_bund a' org = as_bund a org"

lemma same_tenant_refl [simp]: "same_tenant a a org"
  by (simp add: same_tenant_def)

lemma same_tenant_trans: "same_tenant a b org \<Longrightarrow> same_tenant b c org \<Longrightarrow> same_tenant a c org"
  by (simp add: same_tenant_def)

lemma same_tenant_put [simp]:
  "org \<noteq> cp_OrgID p \<Longrightarrow> same_tenant a (a\<lparr>as_pols := (as_pols a)(pol_key p \<mapsto> q)\<rparr>) org"
  "org \<noteq> pv_OrgID v \<Longrightarrow> same_tenant a (a\<lparr>as_vers := (as_vers a)(ver_key v \<mapsto> u)\<rparr>) org"
  "org \<noteq> o' \<Longrightarrow> same_tenant a (a\<lparr>as_bund := (as_bund a)(o' \<mapsto> b)\<rparr>) org"
  by (simp_all add: same_tenant_def)

text \<open>Only the given organisation is touched.\<close>

definition touches_only :: "string \<Rightarrow> policy_state \<Rightarrow> policy_state \<Rightarrow> bool" where
  "touches_only org a a' \<longleftrightarrow> (\<forall>o'. o' \<noteq> org \<longrightarrow> same_tenant a a' o')"

lemma touches_only_refl [simp]: "touches_only org a a"
  by (simp add: touches_only_def)

lemma touches_only_trans: "touches_only org a b \<Longrightarrow> touches_only org b c \<Longrightarrow> touches_only org a c"
  unfolding touches_only_def by (blast intro: same_tenant_trans)

lemma touches_only_put [simp]:
  "cp_OrgID p = org \<Longrightarrow> touches_only org a (a\<lparr>as_pols := (as_pols a)(pol_key p \<mapsto> q)\<rparr>)"
  "pv_OrgID v = org \<Longrightarrow> touches_only org a (a\<lparr>as_vers := (as_vers a)(ver_key v \<mapsto> u)\<rparr>)"
  "o' = org \<Longrightarrow> touches_only org a (a\<lparr>as_bund := (as_bund a)(o' \<mapsto> b)\<rparr>)"
  by (auto simp: touches_only_def)

context policy_store
begin

lemma create_tenant:
  assumes "inv s" "org_ok org" "Service_Create ops clk newID org name agents rules s = (r, s')"
  shows "touches_only org (abs s) (abs s') \<and> (\<forall>p. r = Inr p \<longrightarrow> cp_OrgID p = org)"
proof -
  let ?p = "\<lparr>cp_ID = newID, cp_OrgID = org, cp_Name = name, cp_Agents = agents, cp_Rules = rules,
    cp_Status = StatusDraft, cp_ActiveVersionHash = [], cp_CreatedAt = clk 0, cp_UpdatedAt = clk 0\<rparr>"
  obtain x s1 where call: "po_Create ops ?p s = (x, s1)" by (cases "po_Create ops ?p s")
  have x: "case x of None \<Rightarrow> as_pols (abs s) (pol_key ?p) = None \<and>
        abs s1 = (abs s)\<lparr>as_pols := (as_pols (abs s))(pol_key ?p \<mapsto> norm_p ?p)\<rparr> | Some e \<Rightarrow> abs s1 = abs s"
    using create [OF assms(1) _ call] assms(2) by simp
  have "touches_only org (abs s) (abs s1)"
    using x touches_only_put(1) [of ?p org "abs s" "norm_p ?p"] by (cases x) simp_all
  with call assms(3) show ?thesis
    by (cases x) (auto simp: Service_Create_def split: if_splits)
qed

lemma update_tenant:
  assumes "inv s" "org_ok (cp_OrgID p)" "as_pols (abs s) (pol_key p) = Some q" "cp_CreatedAt p = cp_CreatedAt q"
    and "po_Update ops p s = (x, s')"
  shows "inv s' \<and> touches_only (cp_OrgID p) (abs s) (abs s')"
  using update [OF assms] by (cases x) auto

lemma get_own:
  assumes "inv s" "control_plane_ok c schema pub (abs s)" "org_ok org" "po_Get ops org i s = (Inr p, s1)"
  shows "inv s1 \<and> abs s1 = abs s \<and> as_pols (abs s) (pol_key p) = Some p \<and> cp_OrgID p = org \<and> cp_ID p = i"
  using get_step [OF assms] by (auto simp: step_ok_def policy_sound_def)

lemma service_update_tenant:
  assumes "inv s" "control_plane_ok c schema pub (abs s)" "org_ok org"
    and "Service_Update ops clk org i name agents rules s = (r, s')"
  shows "touches_only org (abs s) (abs s') \<and> (\<forall>p. r = Inr p \<longrightarrow> cp_OrgID p = org)"
proof -
  obtain g s1 where g: "po_Get ops org i s = (g, s1)" by (cases "po_Get ops org i s")
  show ?thesis
  proof (cases g)
    case (Inl e)
    with g assms(4) get [OF assms(1,3) g] show ?thesis by (auto simp: Service_Update_def)
  next
    case (Inr q)
    with get_own [OF assms(1-3)] g have q: "inv s1" "abs s1 = abs s" "as_pols (abs s) (pol_key q) = Some q" "cp_OrgID q = org" by auto
    let ?p = "q\<lparr>cp_Name := (if name \<noteq> [] then name else cp_Name q), cp_Agents := agents, cp_Rules := rules, cp_UpdatedAt := clk 0\<rparr>"
    obtain x s2 where x: "po_Update ops ?p s1 = (x, s2)" by (cases "po_Update ops ?p s1")
    have "touches_only org (abs s1) (abs s2)" using update_tenant [OF q(1) _ _ _ x, of q] q assms(3) by simp
    moreover have "s' = s2 \<and> r = (case x of None \<Rightarrow> Inr ?p | Some e \<Rightarrow> Inl e)"
      using assms(4) g Inr x by (auto simp: Service_Update_def Let_def split: option.splits)
    ultimately show ?thesis using q by (simp split: option.splits)
  qed
qed

lemma designate_tenant:
  assumes "inv s" "org_ok (cp_OrgID p)" "as_pols (abs s) (pol_key p) = Some q" "cp_CreatedAt p = cp_CreatedAt q"
    and "designate ops t1 t2 p v s = (r, s')"
  shows "touches_only (cp_OrgID p) (abs s) (abs s') \<and> (\<forall>w. r = Inr w \<longrightarrow> w = v)"
proof -
  let ?p = "p\<lparr>cp_Status := StatusPublished, cp_ActiveVersionHash := pv_VersionHash v, cp_UpdatedAt := t1\<rparr>"
  obtain x s1 where x: "po_Update ops ?p s = (x, s1)" by (cases "po_Update ops ?p s")
  have s1: "inv s1" "touches_only (cp_OrgID p) (abs s) (abs s1)"
    using update_tenant [OF assms(1) _ _ _ x, of q] assms(2-4) by simp_all
  let ?b = "\<lparr>bref_OrgID = cp_OrgID p, bref_PolicyID = cp_ID p, bref_VersionHash = pv_VersionHash v, bref_UpdatedAt = t2\<rparr>"
  obtain y s2 where y: "po_SetActiveBundle ops ?b s1 = (y, s2)" by (cases "po_SetActiveBundle ops ?b s1")
  have "touches_only (cp_OrgID p) (abs s1) (abs s2)"
    using set_bundle [OF s1(1) _ y] assms(2) by (cases y) simp_all
  then have "touches_only (cp_OrgID p) (abs s) (abs s2)" using s1(2) by (rule touches_only_trans [rotated])
  moreover have "(r, s') = (case x of Some e \<Rightarrow> (Inl e, s1) | None \<Rightarrow> (case y of Some e \<Rightarrow> (Inl e, s2) | None \<Rightarrow> (Inr v, s2)))"
    using assms(5) x y by (simp add: designate_def setActive_def pointOrgBundle_def split: option.splits)
  ultimately show ?thesis using s1(2) by (simp split: option.splits)
qed

lemma rollback_tenant:
  assumes "inv s" "control_plane_ok c schema pub (abs s)" "org_ok org"
    and call: "Service_Rollback ops clk org i hash s = (r, s')"
  shows "touches_only org (abs s) (abs s') \<and> (\<forall>v. r = Inr v \<longrightarrow> pv_OrgID v = org)"
proof -
  obtain g s1 where g: "po_Get ops org i s = (g, s1)" by (cases "po_Get ops org i s")
  show ?thesis
  proof (cases g)
    case (Inl e)
    with g call get [OF assms(1,3) g] show ?thesis by (auto simp: Service_Rollback_def)
  next
    case (Inr q)
    with get_own [OF assms(1-3)] g have q: "inv s1" "abs s1 = abs s" "as_pols (abs s) (pol_key q) = Some q" "cp_OrgID q = org" by auto
    obtain y s2 where y: "po_GetVersion ops org i hash s1 = (y, s2)" by (cases "po_GetVersion ops org i hash s1")
    note gv = get_version [OF q(1) assms(3) y]
    show ?thesis
    proof (cases y)
      case (Inl e)
      with g Inr y call gv q show ?thesis by (auto simp: Service_Rollback_def)
    next
      case v: (Inr v)
      let ?p = "q\<lparr>cp_Name := pv_Name v, cp_Agents := Some (pv_Agents v), cp_Rules := pv_Rules v\<rparr>"
      from gv v q have s2: "inv s2" "abs s2 = abs s" "as_vers (abs s) (org, i, hash) = Some v" by simp_all
      have "designate ops (clk 0) (clk 1) ?p v s2 = (r, s')"
        using call g Inr y v by (simp add: rollback_designates)
      from designate_tenant [OF s2(1) _ _ _ this, of q] q s2 assms(3)
      have "touches_only org (abs s) (abs s') \<and> (\<forall>w. r = Inr w \<longrightarrow> w = v)" by simp
      moreover have "pv_OrgID v = org" using version_soundD(1) [OF okD(1) [OF assms(2) s2(3)]] by simp
      ultimately show ?thesis by blast
    qed
  qed
qed

lemma publish_tenant:
  assumes "inv s" "control_plane_ok c schema pub (abs s)" "org_ok org"
    and crypto: "collision_free c (abs s)" "ed25519_pair c pub (sgn_priv signer)"
    and call: "Service_Publish ops schema c signer clk org i author s = (r, s')"
  shows "touches_only org (abs s) (abs s') \<and> (\<forall>v. r = Inr v \<longrightarrow> pv_OrgID v = org)"
proof -
  have own: "pv_OrgID v = org" if "r = Inr v" for v
    using publish_free [OF assms(1-3) crypto call] okD(2) [OF assms(2)] that
    by (auto simp: publish_result_def snapshot_def policy_sound_def)
  obtain g s1 where g: "po_Get ops org i s = (g, s1)" by (cases "po_Get ops org i s")
  have "touches_only org (abs s) (abs s')"
  proof (cases "\<exists>p msg hash. g = Inr p \<and> Validate schema c (cp_OrgID p) (cp_Name p) (cp_Agents p) (cp_Rules p) = None \<and>
      PolicyCanonicalMessage c (cp_ID p) (cp_OrgID p) (cp_Name p) (cp_Agents p) (cp_Rules p) = Inr msg \<and>
      ContentHash c (cp_ID p) (cp_OrgID p) (cp_Name p) (cp_Agents p) (cp_Rules p) = Inr hash")
    case False
    then have "s' = s1" using call g by (auto simp: Service_Publish_def split: sum.splits option.splits)
    with get [OF assms(1,3) g] show ?thesis by simp
  next
    case True
    then obtain p msg hash where p: "g = Inr p"
      "Validate schema c (cp_OrgID p) (cp_Name p) (cp_Agents p) (cp_Rules p) = None"
      and msg: "PolicyCanonicalMessage c (cp_ID p) (cp_OrgID p) (cp_Name p) (cp_Agents p) (cp_Rules p) = Inr msg"
      and hash: "ContentHash c (cp_ID p) (cp_OrgID p) (cp_Name p) (cp_Agents p) (cp_Rules p) = Inr hash" by blast
    from get_own [OF assms(1-3)] g p(1) have q: "inv s1" "abs s1 = abs s" "as_pols (abs s) (pol_key p) = Some p" "cp_OrgID p = org" by auto
    let ?v = "new_version c signer author (clk 0) hash msg p"
    obtain y s2 where y: "po_GetVersion ops org i hash s1 = (y, s2)" by (cases "po_GetVersion ops org i hash s1")
    from get_version [OF q(1) assms(3) y] q(2) have s2: "inv s2" "abs s2 = abs s" by auto
    obtain x s3 where x: "po_PutVersion ops ?v s2 = (x, s3)" by (cases "po_PutVersion ops ?v s2")
    have vorg: "pv_OrgID ?v = org" using q(4) by (simp add: new_version_def)
    have "snapshot p ?v" by (simp add: snapshot_def new_version_def)
    from addressed_unclaimed [OF collision_free_addressed [OF crypto(1) assms(2) q(3)] assms(2) this] hash s2(2)
    have unc: "unclaimed ?v (abs s2)" by (simp add: new_version_def)
    have s3: "inv s3" "touches_only org (abs s) (abs s3)" "as_pols (abs s3) = as_pols (abs s)"
      using put_version [OF s2(1) _ unc x] vorg assms(3) s2(2) by (cases x; auto)+
    have cases: "s' = s2 \<or> designate ops (clk 0) (clk 1) p (projr y) s2 = (r, s') \<or> s' = s3 \<or> designate ops (clk 1) (clk 2) p ?v s3 = (r, s')"
      using call g p msg hash y x by (cases y; cases x) (auto simp: Service_Publish_def Let_def split: if_splits)
    have d2: "touches_only org (abs s) (abs s')" if "designate ops (clk 0) (clk 1) p (projr y) s2 = (r, s')"
      using designate_tenant [OF s2(1) _ _ _ that, of p] q assms(3) s2(2) by simp
    have d3: "touches_only org (abs s) (abs s')" if "designate ops (clk 1) (clk 2) p ?v s3 = (r, s')"
      using designate_tenant [OF s3(1) _ _ _ that, of p] q assms(3) s3 by (auto intro: touches_only_trans)
    from cases d2 d3 s2(2) s3(2) show ?thesis by auto
  qed
  with own show ?thesis by blast
qed

text \<open>The reads return what the organisation has and change nothing.\<close>

lemma reads_own:
  assumes "inv s" "control_plane_ok c schema pub (abs s)" "org_ok org"
  shows "Service_Get ops org i s = (r1, s') \<Longrightarrow> abs s' = abs s \<and> (\<forall>p. r1 = Inr p \<longrightarrow> cp_OrgID p = org)"
    "Service_List ops org s = (r2, s') \<Longrightarrow> abs s' = abs s \<and> (\<forall>ps. r2 = Inr ps \<longrightarrow> (\<forall>p\<in>set ps. cp_OrgID p = org))"
    "Service_ListVersions ops org i s = (r3, s') \<Longrightarrow> abs s' = abs s \<and> (\<forall>vs. r3 = Inr vs \<longrightarrow> (\<forall>v\<in>set vs. pv_OrgID v = org))"
    "Service_ActiveBundle ops org s = (r4, s') \<Longrightarrow> abs s' = abs s \<and> (\<forall>b. r4 = Inr b \<longrightarrow> bref_OrgID b = org)"
proof -
  have pols: "cp_OrgID p = org" if "as_pols (abs s) (org, j) = Some p" for j p
    using okD(2) [OF assms(2) that] by (simp add: policy_sound_def)
  have vers: "pv_OrgID v = org" if "as_vers (abs s) (org, j, h) = Some v" for j h v
    using version_soundD(1) [OF okD(1) [OF assms(2) that]] by simp
  show "Service_Get ops org i s = (r1, s') \<Longrightarrow> abs s' = abs s \<and> (\<forall>p. r1 = Inr p \<longrightarrow> cp_OrgID p = org)"
    using get [OF assms(1,3), of i r1 s'] pols by (cases r1) (auto simp: Service_Get_def)
  show "Service_List ops org s = (r2, s') \<Longrightarrow> abs s' = abs s \<and> (\<forall>ps. r2 = Inr ps \<longrightarrow> (\<forall>p\<in>set ps. cp_OrgID p = org))"
    using list_policies [OF assms(1,3)] pols by (fastforce simp: Service_List_def)
  show "Service_ActiveBundle ops org s = (r4, s') \<Longrightarrow> abs s' = abs s \<and> (\<forall>b. r4 = Inr b \<longrightarrow> bref_OrgID b = org)"
    using get_bundle [OF assms(1,3)] okD(3) [OF assms(2)] by (fastforce simp: Service_ActiveBundle_def bundle_sound_def)
  obtain g s1 where g: "po_Get ops org i s = (g, s1)" by (cases "po_Get ops org i s")
  then have s1: "inv s1" "abs s1 = abs s" using get [OF assms(1,3)] by auto
  show "Service_ListVersions ops org i s = (r3, s') \<Longrightarrow> abs s' = abs s \<and> (\<forall>vs. r3 = Inr vs \<longrightarrow> (\<forall>v\<in>set vs. pv_OrgID v = org))"
    using list_versions [OF s1(1) assms(3)] g s1 vers by (cases g) (fastforce simp: Service_ListVersions_def)+
qed

end

end
