(* ===== verification/Server_Tenancy.thy ===== *)
theory Server_Tenancy
  imports Server_Admin Policy_Tenancy
begin

text \<open>
  The control plane over HTTP. Every endpoint is a sequence of steps of the node, so what
  \<open>Bundle_Serving\<close> shows of nodes holds for nodes that are driven over HTTP; a caller reads and
  changes only what belongs to the organisation of its key; a key minted over HTTP authenticates
  its holder until it is revoked.
\<close>

section \<open>Steps of one organisation\<close>

abbreviation key_rows :: "admin_world \<Rightarrow> (string \<times> key_row) list" where
  "key_rows w \<equiv> pk_rows (snd (pw_keys (aw_prod w)))"

definition node_tenant :: "PgPolicyStore Provider \<Rightarrow> PgPolicyStore Provider \<Rightarrow> string \<Rightarrow> bool" where
  "node_tenant n n' org \<longleftrightarrow> same_tenant (pg_policy_abs (bp_src n)) (pg_policy_abs (bp_src n')) org \<and>
     map_of (bp_cache n') org = map_of (bp_cache n) org"

definition key_tenant :: "(string \<times> key_row) list \<Rightarrow> (string \<times> key_row) list \<Rightarrow> string \<Rightarrow> bool" where
  "key_tenant rows rows' org \<longleftrightarrow>
     (\<forall>k row. kr_OrgID (row_rec row) = org \<longrightarrow> (map_of rows' k = Some row \<longleftrightarrow> map_of rows k = Some row))"

abbreviation ac_crypto :: "admin_config \<Rightarrow> crypto" where
  "ac_crypto cfg \<equiv> pc_crypto (ac_prod cfg)"

abbreviation node_state :: "admin_world \<Rightarrow> policy_state" where
  "node_state w \<equiv> pg_policy_abs (bp_src (aw_node w))"

text \<open>A node in a sound state, under sound cryptography.\<close>

definition sound_node :: "admin_config \<Rightarrow> admin_world \<Rightarrow> bool" where
  "sound_node cfg w \<longleftrightarrow>
     (\<exists>pub. ed25519_pair (ac_crypto cfg) pub (sgn_priv (ac_signer cfg)) \<and> pg_node_ok (ac_crypto cfg) (ac_schema cfg) pub (aw_node w))"

text \<open>The node moves by its steps, and nothing of another organisation changes, provided the documents at hand do
  not collide (\<open>free\<close>), which matters to a publish only.\<close>

definition org_step :: "admin_config \<Rightarrow> bool \<Rightarrow> string \<Rightarrow> admin_world \<Rightarrow> admin_world \<Rightarrow> bool" where
  "org_step cfg free org w w' \<longleftrightarrow>
     (free \<longrightarrow> pg_node (ac_schema cfg) (ac_crypto cfg) (ac_signer cfg) (aw_node w) (aw_node w')) \<and>
     (free \<and> sound_node cfg w \<longrightarrow> (\<forall>o'. o' \<noteq> org \<longrightarrow> node_tenant (aw_node w) (aw_node w') o')) \<and>
     (\<forall>o'. o' \<noteq> org \<longrightarrow> key_tenant (key_rows w) (key_rows w') o')"

lemma node_tenant_refl [simp]: "node_tenant n n org"
  by (simp add: node_tenant_def)

lemma key_tenant_refl [simp]: "key_tenant rows rows org"
  by (simp add: key_tenant_def)

lemma org_step_refl: "aw_node w' = aw_node w \<Longrightarrow> key_rows w' = key_rows w \<Longrightarrow> org_step cfg free org w w'"
  by (simp add: org_step_def)

lemma sound_node_steps:
  assumes "sound_node cfg w" "pg_node (ac_schema cfg) (ac_crypto cfg) (ac_signer cfg) (aw_node w) (aw_node w')"
  shows "sound_node cfg w'"
  using assms pg_policies.node_steps_ok [OF assms(2)] unfolding sound_node_def by blast

lemma org_step_trans:
  assumes "org_step cfg free org w w1" "org_step cfg free org w1 w2"
  shows "org_step cfg free org w w2"
proof -
  have steps: "pg_node (ac_schema cfg) (ac_crypto cfg) (ac_signer cfg) (aw_node w) (aw_node w1)"
    "pg_node (ac_schema cfg) (ac_crypto cfg) (ac_signer cfg) (aw_node w1) (aw_node w2)" if free
    using assms that by (simp_all add: org_step_def)
  have "node_tenant (aw_node w) (aw_node w2) o'" if "free" "sound_node cfg w" "o' \<noteq> org" for o'
    using assms that sound_node_steps [OF that(2) steps(1)] by (auto simp: org_step_def node_tenant_def intro: same_tenant_trans)
  moreover have "key_tenant (key_rows w) (key_rows w2) o'" if "o' \<noteq> org" for o'
    using assms that by (simp add: org_step_def key_tenant_def)
  ultimately show ?thesis using rtranclp_trans [OF steps] by (simp add: org_step_def)
qed

text \<open>A service call as a step: a control-plane step of the store that touches one organisation.\<close>

lemma src_call:
  assumes "on_src f w = (r, w')"
    and "\<And>s'. free \<Longrightarrow> f (bp_src (aw_node w)) = (r, s') \<Longrightarrow>
      ctl_step pg_policy_ops pg_policy_abs (\<lambda>_. True) (ac_schema cfg) (ac_crypto cfg) (ac_signer cfg) (bp_src (aw_node w)) s'"
    and "\<And>s' pub. free \<Longrightarrow> f (bp_src (aw_node w)) = (r, s') \<Longrightarrow>
      ed25519_pair (ac_crypto cfg) pub (sgn_priv (ac_signer cfg)) \<Longrightarrow> pg_policy_inv (bp_src (aw_node w)) \<Longrightarrow>
      control_plane_ok (ac_crypto cfg) (ac_schema cfg) pub (node_state w) \<Longrightarrow>
      touches_only org (node_state w) (pg_policy_abs s') \<and> P r"
  shows "org_step cfg free org w w' \<and> (free \<and> sound_node cfg w \<longrightarrow> P r)"
proof -
  let ?n = "aw_node w"
  obtain s' where f: "f (bp_src ?n) = (r, s')" "w' = w\<lparr>aw_node := ?n\<lparr>bp_src := s'\<rparr>\<rparr>"
    using assms(1) by (auto simp: on_src_def on_node_def split: prod.splits)
  have "pg_node (ac_schema cfg) (ac_crypto cfg) (ac_signer cfg) ?n (?n\<lparr>bp_src := s'\<rparr>)" if free
    by (rule r_into_rtranclp, rule node_step.control [OF assms(2) [OF that f(1)]])
  moreover have "(\<forall>o'. o' \<noteq> org \<longrightarrow> node_tenant ?n (?n\<lparr>bp_src := s'\<rparr>) o') \<and> P r" if "free" "sound_node cfg w"
  proof -
    from that obtain pub where "ed25519_pair (ac_crypto cfg) pub (sgn_priv (ac_signer cfg))"
      "pg_policy_inv (bp_src ?n)" "control_plane_ok (ac_crypto cfg) (ac_schema cfg) pub (node_state w)"
      unfolding sound_node_def provider_ok_def by blast
    from assms(3) [OF that(1) f(1) this] show ?thesis by (simp add: node_tenant_def touches_only_def)
  qed
  ultimately show ?thesis using f(2) by (simp add: org_step_def)
qed

lemma invalidate_org_step:
  assumes "on_node (Provider_Invalidate pg_policy_ops (ac_crypto cfg) org) w = (r, w')"
  shows "org_step cfg free org w w'"
proof -
  let ?n = "aw_node w"
  obtain x n' where inval: "Provider_Invalidate pg_policy_ops (ac_crypto cfg) org ?n = (x, n')"
    by (cases "Provider_Invalidate pg_policy_ops (ac_crypto cfg) org ?n")
  then have w': "w' = w\<lparr>aw_node := n'\<rparr>" using assms by (simp add: on_node_def)
  have load: "Provider_load pg_policy_ops (ac_crypto cfg) org ?n = (fst (Provider_load pg_policy_ops (ac_crypto cfg) org ?n), n')"
    using inval snd_Invalidate [of pg_policy_ops "ac_crypto cfg" org ?n] by (cases "Provider_load pg_policy_ops (ac_crypto cfg) org ?n") simp
  have "pg_node (ac_schema cfg) (ac_crypto cfg) (ac_signer cfg) ?n n'"
    by (rule r_into_rtranclp, rule node_step.invalidate [OF TrueI inval])
  moreover have "node_tenant ?n n' o'" if "sound_node cfg w" "o' \<noteq> org" for o'
    using pg_policies.load_ok [OF _ TrueI load] that by (auto simp: node_tenant_def sound_node_def)
  ultimately show ?thesis using w' by (simp add: org_step_def)
qed

section \<open>The services\<close>

lemma svc_steps:
  shows svc_create: "ps_Create (prod_policySvc cfg env) org name agents rules w = (r1, w') \<Longrightarrow> list_all doc_typed rules \<Longrightarrow>
      org_step cfg free org w w' \<and> (free \<and> sound_node cfg w \<longrightarrow> (\<forall>p. r1 = Inr p \<longrightarrow> cp_OrgID p = org))"
    and svc_update: "ps_Update (prod_policySvc cfg env) org i name agents rules w = (r1, w') \<Longrightarrow> list_all doc_typed rules \<Longrightarrow>
      org_step cfg free org w w' \<and> (free \<and> sound_node cfg w \<longrightarrow> (\<forall>p. r1 = Inr p \<longrightarrow> cp_OrgID p = org))"
    and svc_get: "ps_Get (prod_policySvc cfg env) org i w = (r1, w') \<Longrightarrow>
      org_step cfg free org w w' \<and> (free \<and> sound_node cfg w \<longrightarrow> (\<forall>p. r1 = Inr p \<longrightarrow> cp_OrgID p = org))"
    and svc_list: "ps_List (prod_policySvc cfg env) org w = (r2, w') \<Longrightarrow>
      org_step cfg free org w w' \<and> (free \<and> sound_node cfg w \<longrightarrow> (\<forall>ps. r2 = Inr ps \<longrightarrow> (\<forall>p\<in>set ps. cp_OrgID p = org)))"
    and svc_publish: "ps_Publish (prod_policySvc cfg env) org i author w = (r3, w') \<Longrightarrow> (free \<Longrightarrow> collision_free (ac_crypto cfg) (node_state w)) \<Longrightarrow>
      org_step cfg free org w w' \<and> (free \<and> sound_node cfg w \<longrightarrow> (\<forall>v. r3 = Inr v \<longrightarrow> pv_OrgID v = org))"
    and svc_rollback: "ps_Rollback (prod_policySvc cfg env) org i h w = (r3, w') \<Longrightarrow>
      org_step cfg free org w w' \<and> (free \<and> sound_node cfg w \<longrightarrow> (\<forall>v. r3 = Inr v \<longrightarrow> pv_OrgID v = org))"
    and svc_versions: "ps_ListVersions (prod_policySvc cfg env) org i w = (r4, w') \<Longrightarrow>
      org_step cfg free org w w' \<and> (free \<and> sound_node cfg w \<longrightarrow> (\<forall>vs. r4 = Inr vs \<longrightarrow> (\<forall>v\<in>set vs. pv_OrgID v = org)))"
    and svc_bundle: "ps_ActiveBundle (prod_policySvc cfg env) org w = (r5, w') \<Longrightarrow>
      org_step cfg free org w w' \<and> (free \<and> sound_node cfg w \<longrightarrow> (\<forall>b. r5 = Inr b \<longrightarrow> bref_OrgID b = org))"
  unfolding prod_policySvc_def Let_def PolicySvc.simps
  subgoal by (erule src_call) (rule ctl_step.create [OF TrueI], assumption+, rule pg_policies.create_tenant [OF _ TrueI], assumption+)
  subgoal by (erule src_call) (rule ctl_step.update [OF TrueI], assumption+, rule pg_policies.service_update_tenant [OF _ _ TrueI], assumption+)
  subgoal by (erule src_call) (rule ctl_step.get_policy [OF TrueI], assumption, frule (2) pg_policies.reads_own(1) [OF _ _ TrueI], simp)
  subgoal by (erule src_call) (rule ctl_step.list_policies [OF TrueI], assumption, frule (2) pg_policies.reads_own(2) [OF _ _ TrueI], simp)
  subgoal by (erule src_call) (rule ctl_step.publish [OF TrueI], blast, assumption, rule pg_policies.publish_tenant [OF _ _ TrueI], assumption, assumption, blast, assumption, assumption)
  subgoal by (erule src_call) (rule ctl_step.rollback [OF TrueI], assumption, rule pg_policies.rollback_tenant [OF _ _ TrueI], assumption+)
  subgoal by (erule src_call) (rule ctl_step.list_versions [OF TrueI], assumption, frule (2) pg_policies.reads_own(3) [OF _ _ TrueI], simp)
  subgoal by (erule src_call) (rule ctl_step.active_bundle [OF TrueI], assumption, frule (2) pg_policies.reads_own(4) [OF _ _ TrueI], simp)
  done

section \<open>Decoded rules\<close>

lemma dec_struct_inv:
  assumes "dec_struct ty names upd zero pl j = Inr x" "P zero" "\<And>n k y z. upd n k y = Inr z \<Longrightarrow> P y \<Longrightarrow> P z"
  shows "P x"
proof (cases j)
  case (JsonObj kvs)
  let ?f = "\<lambda>kv s. case match_field names (fst kv) of None \<Rightarrow> Inl (UnknownField (fst kv)) | Some n \<Rightarrow> upd n (snd kv) s"
  have "foldE ?f kvs y = Inr z \<Longrightarrow> P y \<Longrightarrow> P z" for y z
    by (induction kvs arbitrary: y) (auto simp: bindE_eq_Inr split: option.splits dest: assms(3))
  with JsonObj assms(1,2) show ?thesis by (simp add: dec_struct_def)
qed (use assms(1,2) in \<open>simp_all add: dec_struct_def mismatch_def\<close>)

lemma doc_typed_rule [simp]:
  "doc_typed (r\<lparr>r_Window := a\<rparr>) = doc_typed r" "doc_typed (r\<lparr>r_Limit := a\<rparr>) = doc_typed r"
  "doc_typed (r\<lparr>r_Provider := a\<rparr>) = doc_typed r" "doc_typed (r\<lparr>r_Threshold := t\<rparr>) = doc_typed r"
  "doc_typed (r\<lparr>r_FailMode := a\<rparr>) = doc_typed r"
  by (simp_all add: doc_typed_def)

lemma dec_rule_typed: "dec_rule j = Inr r \<Longrightarrow> doc_typed r"
  unfolding dec_rule_def
proof (erule dec_struct_inv)
  show "doc_typed blank_rule" by (simp add: doc_typed_def blank_rule_def)
  show "doc_typed z" if "set_rule_field n k y = Inr z" "doc_typed y" for n k y z
    using that by (auto simp: set_rule_field_def Let_def bindE_eq_Inr intro: set_doc_field_typed split: if_splits)
qed

lemma dec_rules_typed: "dec_rules j = Inr rs \<Longrightarrow> list_all doc_typed rs"
  by (cases j) (auto simp: mismatch_def intro!: mapE_all dest: dec_rule_typed)

lemma written_rules_typed:
  assumes "decodePolicyBody read dec_policyWriteRequest rq = Inr body"
  shows "list_all doc_typed (pwr_Rules body)"
proof -
  obtain j where "dec_policyWriteRequest j = Inr body"
    using assms by (auto simp: decodePolicyBody_def Let_def split: body_read.splits sum.splits if_splits)
  then show ?thesis
    unfolding dec_policyWriteRequest_def
    by (erule_tac dec_struct_inv) (auto simp: Let_def bindE_eq_Inr dec_rules_typed split: if_splits)
qed

section \<open>The handlers\<close>

text \<open>A dry run of the organisation: of a stored version of its own, which the answer names, or of a working copy of its
  own; every result is the evaluation of a request under it.\<close>

definition simulation_of :: "crypto \<Rightarrow> policy_state \<Rightarrow> string \<Rightarrow> string \<Rightarrow> Decision list \<Rightarrow> bool" where
  "simulation_of c a org label results \<longleftrightarrow>
     (\<exists>pol i. ((\<exists>v. as_vers a (org, i, label) = Some v \<and> Compile c v = Inr pol) \<or>
        (\<exists>p. as_pols a (org, i) = Some p \<and> label = ''draft:'' @ i \<and> CompileRules c label (cp_Rules p) = Inr pol)) \<and>
       (\<forall>d \<in> set results. \<exists>now decID req. d = simulate_one now pol decID req))"

text \<open>Everything in an answer belongs to the organisation, as its state is when the request arrives.\<close>

fun body_of_org :: "crypto \<Rightarrow> policy_state \<Rightarrow> string \<Rightarrow> resp_body \<Rightarrow> bool" where
  "body_of_org c a org (BodyPolicy p) \<longleftrightarrow> cp_OrgID p = org"
| "body_of_org c a org (BodyPolicies ps) \<longleftrightarrow> list_all (\<lambda>p. cp_OrgID p = org) ps"
| "body_of_org c a org (BodyVersion v) \<longleftrightarrow> pv_OrgID v = org"
| "body_of_org c a org (BodyVersions vs) \<longleftrightarrow> list_all (\<lambda>v. pv_OrgID v = org) vs"
| "body_of_org c a org (BodyBundle b) \<longleftrightarrow> bref_OrgID b = org"
| "body_of_org c a org (BodyKey k) \<longleftrightarrow> kv_OrgID k = org"
| "body_of_org c a org (BodyKeys ks) \<longleftrightarrow> list_all (\<lambda>k. kv_OrgID k = org) ks"
| "body_of_org c a org (BodyCreatedKey k) \<longleftrightarrow> kv_OrgID k = org"
| "body_of_org c a org (BodySimulation s) \<longleftrightarrow> simulation_of c a org (sm_VersionHash s) (sm_Results s)"
| "body_of_org c a org (BodyProblem _) \<longleftrightarrow> True"
| "body_of_org c a org _ \<longleftrightarrow> False"

definition org_reply :: "admin_config \<Rightarrow> string \<Rightarrow> admin_world \<Rightarrow> http_response \<times> admin_world \<Rightarrow> bool" where
  "org_reply cfg org w res \<longleftrightarrow>
     org_step cfg (collision_free (ac_crypto cfg) (node_state w)) org w (snd res) \<and>
     (collision_free (ac_crypto cfg) (node_state w) \<and> sound_node cfg w \<longrightarrow>
        body_of_org (ac_crypto cfg) (node_state w) org (rp_Body (fst res)))"

lemma body_writeProblem [simp]: "body_of_org c a org (rp_Body (writeProblem hdr rq st code title detail items))"
  by (simp add: writeProblem_def)

lemma body_writePolicyError [simp]: "body_of_org c a org (rp_Body (writePolicyError rq e))"
  by (cases e) simp_all

lemma reply_problem [simp]: "org_reply cfg org w (writeProblem hdr rq st code title detail items, w)"
  by (simp add: org_reply_def org_step_refl)

lemma decode_problem:
  "decodePolicyBody read dec rq = Inl resp \<Longrightarrow> org_reply cfg org w (resp, w)"
  by (auto simp: decodePolicyBody_def Let_def split: body_read.splits sum.splits if_splits)

lemma reply_policy:
  assumes "\<And>free. (free \<Longrightarrow> collision_free (ac_crypto cfg) (node_state w)) \<Longrightarrow> org_step cfg free org w w1 \<and>
      (free \<and> sound_node cfg w \<longrightarrow> (\<forall>x. r = Inr x \<longrightarrow> body_of_org (ac_crypto cfg) (node_state w) org (render x)))"
  shows "org_reply cfg org w (policy_reply rq st render (r, w1))"
  using assms [of "collision_free (ac_crypto cfg) (node_state w)"] by (cases r) (auto simp: org_reply_def policy_reply_def)

lemma prod_admin_simps [simp]:
  "ad_policySvc (prod_admin cfg env) = Some (prod_policySvc cfg env)" "ad_read (prod_admin cfg env) = ac_read cfg"
  "ad_now (prod_admin cfg env) = pe_now (ae_env env)" "ad_provisionToken (prod_admin cfg env) = ac_token cfg"
  "ad_NewKey (prod_admin cfg env) = NewKey (pc_mac (ac_prod cfg)) (ae_entropy env)"
  "ad_keyAdmin (prod_admin cfg env) = Some prod_keyAdmin" "ad_requests (prod_admin cfg env) = ac_requests cfg"
  "ad_simulator (prod_admin cfg env) = Some (\<lambda>org i h reqs. on_src (Simulate pg_policy_ops (ac_schema cfg) (ac_crypto cfg) org i h
     (map (\<lambda>(n, req). (fst (ae_sim env n), snd (ae_sim env n), req)) (enumerate 0 reqs))))"
  "ad_keyCacheInvalidate (prod_admin cfg env) = Some (\<lambda>k. on_key_cache (KeyCache_Invalidate k))"
  by (simp_all add: prod_admin_def Let_def)

lemma invalidates: "org_step cfg free org w (invalidateBundle (prod_admin cfg env) org w)"
  using invalidate_org_step [of cfg org w] by (auto simp: invalidateBundle_def prod_admin_def Let_def intro: surjective_pairing)

lemma served_version:
  assumes "\<And>free. (free \<Longrightarrow> collision_free (ac_crypto cfg) (node_state w)) \<Longrightarrow> org_step cfg free org w w1 \<and>
      (free \<and> sound_node cfg w \<longrightarrow> (\<forall>v. r = Inr v \<longrightarrow> pv_OrgID v = org))"
  shows "org_reply cfg org w (case (r, w1) of (Inl e, w1) \<Rightarrow> (writePolicyError rq e, w1)
    | (Inr v, w1) \<Rightarrow> (writeJSON [] 200 (BodyVersion v), invalidateBundle (prod_admin cfg env) org w1))"
  using assms [of "collision_free (ac_crypto cfg) (node_state w)"] invalidates
  by (cases r) (auto simp: org_reply_def intro: org_step_trans)

lemma policy_reads:
  "org_reply cfg (pr_OrgID prin) w (handleListPolicies (prod_policySvc cfg env) rq (Some prin) w)"
  "org_reply cfg (pr_OrgID prin) w (handleGetPolicy (prod_policySvc cfg env) rq (Some prin) w)"
  "org_reply cfg (pr_OrgID prin) w (handleListVersions (prod_admin cfg env) rq (Some prin) w)"
  "org_reply cfg (pr_OrgID prin) w (handleActiveBundle (prod_admin cfg env) rq (Some prin) w)"
proof -
  let ?svc = "prod_policySvc cfg env" and ?org = "pr_OrgID prin"
  show "org_reply cfg ?org w (handleListPolicies ?svc rq (Some prin) w)"
    using svc_list [of cfg env ?org w] by (cases "ps_List ?svc ?org w") (auto simp: handleListPolicies_def orgOf_def list_all_iff intro!: reply_policy)
  show "org_reply cfg ?org w (handleGetPolicy ?svc rq (Some prin) w)"
    using svc_get [of cfg env ?org "rq_PathID rq" w]
    by (cases "ps_Get ?svc ?org (rq_PathID rq) w") (auto simp: handleGetPolicy_def orgOf_def intro!: reply_policy)
  show "org_reply cfg ?org w (handleListVersions (prod_admin cfg env) rq (Some prin) w)"
    using svc_versions [of cfg env ?org "rq_PathID rq" w]
    by (cases "ps_ListVersions ?svc ?org (rq_PathID rq) w")
      (auto simp: handleListVersions_def controlPlaneReady_def orgOf_def list_all_iff intro!: reply_policy)
  show "org_reply cfg ?org w (handleActiveBundle (prod_admin cfg env) rq (Some prin) w)"
    using svc_bundle [of cfg env ?org w]
    by (cases "ps_ActiveBundle ?svc ?org w") (auto simp: handleActiveBundle_def controlPlaneReady_def orgOf_def intro!: reply_policy)
qed

lemma policy_writes:
  "org_reply cfg (pr_OrgID prin) w (handleCreatePolicy (prod_admin cfg env) (prod_policySvc cfg env) rq (Some prin) w)"
  "org_reply cfg (pr_OrgID prin) w (handleUpdatePolicy (prod_admin cfg env) (prod_policySvc cfg env) rq (Some prin) w)"
proof -
  let ?a = "prod_admin cfg env" and ?svc = "prod_policySvc cfg env" and ?org = "pr_OrgID prin"
  let ?body = "decodePolicyBody (ac_read cfg) dec_policyWriteRequest rq"
  show "org_reply cfg ?org w (handleCreatePolicy ?a ?svc rq (Some prin) w)"
  proof (cases ?body)
    case (Inr b)
    let ?r = "ps_Create ?svc ?org (pwr_Name b) (pwr_Agents b) (pwr_Rules b) w"
    show ?thesis
      using svc_create [of cfg env ?org "pwr_Name b" "pwr_Agents b" "pwr_Rules b" w] written_rules_typed [OF Inr] Inr
      by (cases ?r) (auto simp: handleCreatePolicy_def orgOf_def intro!: reply_policy)
  qed (simp add: handleCreatePolicy_def orgOf_def decode_problem)
  show "org_reply cfg ?org w (handleUpdatePolicy ?a ?svc rq (Some prin) w)"
  proof (cases ?body)
    case (Inr b)
    let ?r = "ps_Update ?svc ?org (rq_PathID rq) (pwr_Name b) (pwr_Agents b) (pwr_Rules b) w"
    show ?thesis
      using svc_update [of cfg env ?org "rq_PathID rq" "pwr_Name b" "pwr_Agents b" "pwr_Rules b" w] written_rules_typed [OF Inr] Inr
      by (cases ?r) (auto simp: handleUpdatePolicy_def orgOf_def intro!: reply_policy)
  qed (simp add: handleUpdatePolicy_def orgOf_def decode_problem)
qed

lemma policy_designations:
  "org_reply cfg (pr_OrgID prin) w (handlePublishPolicy (prod_admin cfg env) rq (Some prin) w)"
  "org_reply cfg (pr_OrgID prin) w (handleRollbackPolicy (prod_admin cfg env) rq (Some prin) w)"
proof -
  let ?a = "prod_admin cfg env" and ?svc = "prod_policySvc cfg env" and ?org = "pr_OrgID prin"
  define author where "author = (if decodeOptionalBody (ac_read cfg) rq = [] then pr_KeyID prin else decodeOptionalBody (ac_read cfg) rq)"
  obtain r w1 where pub: "ps_Publish ?svc ?org (rq_PathID rq) author w = (r, w1)" by (cases "ps_Publish ?svc ?org (rq_PathID rq) author w")
  have "handlePublishPolicy ?a rq (Some prin) w = (case (r, w1) of (Inl e, w1) \<Rightarrow> (writePolicyError rq e, w1)
      | (Inr v, w1) \<Rightarrow> (writeJSON [] 200 (BodyVersion v), invalidateBundle ?a ?org w1))"
    using pub by (cases "decodeOptionalBody (ac_read cfg) rq = []")
      (simp_all add: handlePublishPolicy_def controlPlaneReady_def orgOf_def author_def Let_def)
  with served_version [OF svc_publish [OF pub]] show "org_reply cfg ?org w (handlePublishPolicy ?a rq (Some prin) w)" by simp
  show "org_reply cfg ?org w (handleRollbackPolicy ?a rq (Some prin) w)"
  proof (cases "decodePolicyBody (ac_read cfg) dec_rollbackRequest rq")
    case (Inr h)
    obtain r w1 where rb: "ps_Rollback ?svc ?org (rq_PathID rq) h w = (r, w1)" by (cases "ps_Rollback ?svc ?org (rq_PathID rq) h w")
    from Inr served_version [OF svc_rollback [OF rb], of rq env] rb show ?thesis
      by (simp add: handleRollbackPolicy_def controlPlaneReady_def orgOf_def)
  qed (simp add: handleRollbackPolicy_def controlPlaneReady_def orgOf_def decode_problem)
qed

lemma Simulate_reads:
  assumes "Simulate st schema c org i h reqs s = (r, s')"
  shows "(\<exists>y. po_GetVersion st org i h s = (y, s')) \<or> (\<exists>y. Service_Get st org i s = (y, s'))"
proof (cases "h = []")
  case True
  with assms show ?thesis
    by (cases "po_Get st org i s"; cases "fst (po_Get st org i s)")
      (auto simp: Simulate_def Service_Get_def Let_def split: option.splits sum.splits)
next
  case False
  with assms show ?thesis
    by (cases "po_GetVersion st org i h s"; cases "fst (po_GetVersion st org i h s)")
      (auto simp: Simulate_def Let_def split: sum.splits)
qed

lemma Simulate_own:
  assumes "pg_policy_inv s" "control_plane_ok c schema' pub (pg_policy_abs s)"
    and "Simulate pg_policy_ops schema c org i h reqs s = (Inr (label, ds), s')"
  shows "simulation_of c (pg_policy_abs s) org label ds"
proof (cases "h = []")
  case False
  obtain y s1 where y: "po_GetVersion pg_policy_ops org i h s = (y, s1)" by (cases "po_GetVersion pg_policy_ops org i h s")
  with False assms(3) obtain v pol where v: "y = Inr v" "Compile c v = Inr pol" "label = pv_VersionHash v"
    "ds = map (\<lambda>(now, decID, req). simulate_one now pol decID req) reqs"
    by (cases y) (auto simp: Simulate_def Let_def split: sum.splits)
  have as: "as_vers (pg_policy_abs s) (org, i, h) = Some v" using pg_policies.get_version [OF assms(1) TrueI y] v(1) by simp
  from version_soundD(1) [OF okD(1) [OF assms(2) this]] v(3) have "h = label" by simp
  with as v show ?thesis unfolding simulation_of_def by (intro exI [of _ pol] exI [of _ i]) auto
next
  case True
  obtain y s1 where y: "po_Get pg_policy_ops org i s = (y, s1)" by (cases "po_Get pg_policy_ops org i s")
  with True assms(3) obtain p pol where p: "y = Inr p" "label = ''draft:'' @ cp_ID p" "CompileRules c label (cp_Rules p) = Inr pol"
    "ds = map (\<lambda>(now, decID, req). simulate_one now pol decID req) reqs"
    by (cases y) (auto simp: Simulate_def Let_def split: sum.splits option.splits)
  with pg_policies.get_own [OF assms(1,2) TrueI, of org i p s1] y
  have "as_pols (pg_policy_abs s) (org, i) = Some p" "cp_ID p = i" by auto
  with p show ?thesis unfolding simulation_of_def by (intro exI [of _ pol] exI [of _ i]) auto
qed

lemma simulate_org_step:
  assumes "on_src (Simulate pg_policy_ops (ac_schema cfg) (ac_crypto cfg) org i h reqs) w = (r, w')"
  shows "org_step cfg free org w w' \<and>
    (free \<and> sound_node cfg w \<longrightarrow> (\<forall>x. r = Inr x \<longrightarrow> simulation_of (ac_crypto cfg) (node_state w) org (fst x) (snd x)))"
proof (rule src_call [OF assms])
  fix s'
  assume sim: "Simulate pg_policy_ops (ac_schema cfg) (ac_crypto cfg) org i h reqs (bp_src (aw_node w)) = (r, s')"
  note reads = Simulate_reads [OF this]
  then show "ctl_step pg_policy_ops pg_policy_abs (\<lambda>_. True) (ac_schema cfg) (ac_crypto cfg) (ac_signer cfg) (bp_src (aw_node w)) s'"
    by (elim disjE exE) (rule ctl_step.get_version [OF TrueI] ctl_step.get_policy [OF TrueI], assumption)+
  fix pub
  assume ok: "pg_policy_inv (bp_src (aw_node w))" "control_plane_ok (ac_crypto cfg) (ac_schema cfg) pub (node_state w)"
  then have "pg_policy_abs s' = node_state w"
    using reads pg_policies.get_version [OF _ TrueI] pg_policies.reads_own(1) [OF _ _ TrueI] by blast
  moreover have "simulation_of (ac_crypto cfg) (node_state w) org (fst x) (snd x)" if "r = Inr x" for x
    using Simulate_own [OF ok] sim that by (cases x) simp
  ultimately show "touches_only org (node_state w) (pg_policy_abs s') \<and>
      (\<forall>x. r = Inr x \<longrightarrow> simulation_of (ac_crypto cfg) (node_state w) org (fst x) (snd x))" by simp
qed

lemma writeSimError_body [simp]: "body_of_org c a org (rp_Body (writeSimError rq e))"
  by (cases e) simp_all

lemma simulate_reply: "org_reply cfg (pr_OrgID prin) w (handleSimulate (prod_admin cfg env) rq (Some prin) w)"
proof (cases "decodePolicyBody (ac_read cfg) (dec_simulateRequest (ad_requests (prod_admin cfg env))) rq")
  case (Inl resp)
  then show ?thesis
    by (simp add: handleSimulate_def controlPlaneReady_def orgOf_def decode_problem)
next
  case (Inr b)
  let ?org = "pr_OrgID prin"
  define sim where "sim = on_src (Simulate pg_policy_ops (ac_schema cfg) (ac_crypto cfg) ?org (rq_PathID rq) (smr_VersionHash b)
    (map (\<lambda>(n, req). (fst (ae_sim env n), snd (ae_sim env n), req)) (enumerate 0 (smr_Requests b)))) w"
  have eq: "handleSimulate (prod_admin cfg env) rq (Some prin) w =
      (if smr_Requests b = []
       then (writeProblem [] rq 400 codeValidationFailed ''Validation failed'' ''requests must contain at least one authorize request.'' [], w)
       else if length (smr_Requests b) > maxSimulateRequests
       then (writeProblem [] rq 400 codeValidationFailed ''Validation failed'' ''too many requests in one simulation batch.'' [], w)
       else (case first_invalid 0 (smr_Requests b) of
               Some (i, items) \<Rightarrow> (writeProblem [] rq 400 codeValidationFailed ''Validation failed''
                 (''requests['' @ nat_str i @ ''] is invalid.'') items, w)
             | None \<Rightarrow> (case sim of (Inl e, w1) \<Rightarrow> (writeSimError rq e, w1)
                 | (Inr (label, results), w1) \<Rightarrow>
                     (writeJSON [] 200 (BodySimulation \<lparr>sm_VersionHash = label, sm_Shadow = True, sm_Results = results\<rparr>), w1))))"
    using Inr unfolding sim_def by (simp add: handleSimulate_def controlPlaneReady_def orgOf_def split: option.split)
  obtain r w1 where sim: "sim = (r, w1)" by (cases sim)
  let ?free = "collision_free (ac_crypto cfg) (node_state w)"
  have step: "org_step cfg ?free ?org w w1 \<and>
      (?free \<and> sound_node cfg w \<longrightarrow> (\<forall>x. r = Inr x \<longrightarrow> simulation_of (ac_crypto cfg) (node_state w) ?org (fst x) (snd x)))"
    using sim unfolding sim_def by (rule simulate_org_step)
  show ?thesis
    unfolding eq sim using step
    by (cases r) (auto simp: org_reply_def org_step_refl split: option.split)
qed

section \<open>Key management\<close>

lemma key_tenant_snoc:
  assumes "map_of rows (kr_KeyID r) = None" "o' \<noteq> kr_OrgID r"
  shows "key_tenant rows (rows @ [(kr_KeyID r, \<lparr>row_rec = r, row_created = t, row_revoked = None\<rparr>)]) o'"
  using assms by (auto simp: key_tenant_def map_add_def split: option.splits)

lemma create_key_step:
  assumes "on_keys (Postgres_CreateKey r t) w = (x, w')"
  shows "org_step cfg free (kr_OrgID r) w w'"
proof -
  obtain s' where s': "Postgres_CreateKey r t (snd (pw_keys (aw_prod w))) = (x, s')" "aw_node w' = aw_node w" "key_rows w' = pk_rows s'"
    using assms by (auto simp: on_keys_def on_prod_def split: prod.splits)
  then have "key_tenant (key_rows w) (key_rows w') o'" if "o' \<noteq> kr_OrgID r" for o'
    using that key_tenant_snoc [of "key_rows w" r o' t] by (auto simp: Postgres_CreateKey_def pk_insert_def split: if_splits)
  with s' show ?thesis by (simp add: org_step_def)
qed

lemma revoke_key_step:
  assumes "on_keys (Postgres_RevokeKey org k t) w = (x, w')"
  shows "org_step cfg free org w w' \<and> (\<forall>i. x = Inr i \<longrightarrow> ki_OrgID i = org)"
proof -
  obtain s' where s': "Postgres_RevokeKey org k t (snd (pw_keys (aw_prod w))) = (x, s')" "aw_node w' = aw_node w" "key_rows w' = pk_rows s'"
    using assms by (auto simp: on_keys_def on_prod_def split: prod.splits)
  then have "key_tenant (key_rows w) (key_rows w') o'" if "o' \<noteq> org" for o'
    using that by (auto simp: Postgres_RevokeKey_def key_tenant_def Let_def split: if_splits option.splits)
  moreover have "\<forall>i. x = Inr i \<longrightarrow> ki_OrgID i = org"
    using s'(1) by (auto simp: Postgres_RevokeKey_def row_info_def infoOf_def Let_def split: if_splits option.splits)
  ultimately show ?thesis using s' by (simp add: org_step_def)
qed

lemma cache_step: "on_key_cache f w = (x, w') \<Longrightarrow> org_step cfg free org w w'"
  by (rule org_step_refl) (auto simp: on_key_cache_def on_prod_def split: prod.splits)

lemma NewKey_org: "NewKey c e env org tier = Inr g \<Longrightarrow> kr_OrgID (gk_Record g) = org"
  by (auto simp: NewKey_def Let_def split: if_splits option.splits)

text \<open>Minting a key: a request that is refused, or a generated key that is inserted.\<close>

definition shadowed :: "bool option \<Rightarrow> GeneratedKey \<Rightarrow> GeneratedKey" where
  "shadowed b g = (case b of None \<Rightarrow> g | Some b \<Rightarrow> g\<lparr>gk_Record := (gk_Record g)\<lparr>kr_Shadow := b\<rparr>\<rparr>)"

abbreviation tier_of :: "provisionKeyRequest \<Rightarrow> string" where
  "tier_of body \<equiv> (if pkr_Tier body = [] then ''default'' else pkr_Tier body)"

lemma mint_key_cases:
  obtains (refused) detail where "mint_key (prod_admin cfg env) prod_keyAdmin failed org body rq w =
      (writeProblem [] rq 400 codeValidationFailed ''Validation failed'' detail [], w)"
  | (minted) g x w1 where "NewKey (pc_mac (ac_prod cfg)) (ae_entropy env) (pkr_Env body) org (tier_of body) = Inr g"
      "on_keys (Postgres_CreateKey (gk_Record (shadowed (pkr_Shadow body) g)) (pe_now (ae_env env))) w = (x, w1)"
      "mint_key (prod_admin cfg env) prod_keyAdmin failed org body rq w =
        (case x of Some _ \<Rightarrow> (writeProblem [] rq 503 codeInternal (fst failed) (snd failed) [], w1)
         | None \<Rightarrow> (writeJSON [] 201 (BodyCreatedKey (created_view org (tier_of body) (pe_now (ae_env env)) (shadowed (pkr_Shadow body) g))), w1))"
proof (cases "pkr_Env body \<noteq> EnvLive \<and> pkr_Env body \<noteq> EnvTest")
  case True
  then show ?thesis by (intro refused) (simp add: mint_key_def)
next
  case env: False
  show ?thesis
  proof (cases "NewKey (pc_mac (ac_prod cfg)) (ae_entropy env) (pkr_Env body) org (tier_of body)")
    case (Inl e)
    with env show ?thesis by (intro refused) (auto simp: mint_key_def Let_def)
  next
    case g: (Inr g)
    obtain x w1 where c: "on_keys (Postgres_CreateKey (gk_Record (shadowed (pkr_Shadow body) g)) (pe_now (ae_env env))) w = (x, w1)"
      by (cases "on_keys (Postgres_CreateKey (gk_Record (shadowed (pkr_Shadow body) g)) (pe_now (ae_env env))) w")
    show ?thesis
      by (rule minted [OF g c])
        (use env g c in \<open>auto simp: mint_key_def Let_def prod_keyAdmin_def shadowed_def split: option.splits\<close>)
  qed
qed

lemma created_view_org [simp]: "kv_OrgID (created_view org tier now g) = org"
  by (simp add: created_view_def viewOf_def apiKeyView.defs createdApiKeyView.defs)

lemma mint_key_reply: "org_reply cfg org w (mint_key (prod_admin cfg env) prod_keyAdmin failed org body rq w)"
proof (cases rule: mint_key_cases [of cfg env failed org body rq w])
  case (minted g x w1)
  have "kr_OrgID (gk_Record (shadowed (pkr_Shadow body) g)) = org"
    using NewKey_org [OF minted(1)] by (simp add: shadowed_def split: option.split)
  with create_key_step [OF minted(2), of cfg] show ?thesis
    unfolding minted(3) by (cases x) (simp_all add: org_reply_def)
qed simp

lemma list_keys_reply: "org_reply cfg (pr_OrgID prin) w (handleListKeys prod_keyAdmin rq (Some prin) w)"
  by (auto simp: handleListKeys_def orgOf_def prod_keyAdmin_def Postgres_ListKeys_def org_reply_def org_step_refl list_all_iff
      viewOf_def row_info_def infoOf_def split: sum.split)

lemma keys_reply: "org_reply cfg (pr_OrgID prin) w (handleKeys (prod_admin cfg env) rq (Some prin) w)"
proof -
  have "org_reply cfg (pr_OrgID prin) w (handleCreateKey (prod_admin cfg env) prod_keyAdmin rq (Some prin) w)"
    by (cases "decodePolicyBody (ac_read cfg) dec_createKeyRequest rq")
      (simp_all add: handleCreateKey_def orgOf_def decode_problem mint_key_reply)
  then show ?thesis by (simp add: handleKeys_def keyAdminReady_def list_keys_reply)
qed

lemma revoke_reply: "org_reply cfg (pr_OrgID prin) w (handleRevokeKey (prod_admin cfg env) rq (Some prin) w)"
proof -
  let ?org = "pr_OrgID prin" and ?now = "pe_now (ae_env env)"
  obtain x w1 where r: "on_keys (Postgres_RevokeKey ?org (rq_PathID rq) ?now) w = (x, w1)"
    by (cases "on_keys (Postgres_RevokeKey ?org (rq_PathID rq) ?now) w")
  obtain y w2 where c: "on_key_cache (KeyCache_Invalidate (rq_PathID rq)) w1 = (y, w2)"
    by (cases "on_key_cache (KeyCache_Invalidate (rq_PathID rq)) w1")
  let ?free = "collision_free (ac_crypto cfg) (node_state w)"
  note steps = revoke_key_step [OF r, of cfg ?free] cache_step [OF c, of cfg ?free ?org]
  show ?thesis
  proof (cases x)
    case (Inl e)
    with r steps show ?thesis
      by (simp add: handleRevokeKey_def keyAdminReady_def orgOf_def prod_keyAdmin_def org_reply_def)
  next
    case (Inr i)
    with steps have "org_step cfg ?free ?org w w2" by (blast intro: org_step_trans)
    with Inr r c steps show ?thesis
      by (simp add: handleRevokeKey_def keyAdminReady_def orgOf_def prod_keyAdmin_def org_reply_def viewOf_def)
  qed
qed

lemma admin_handler_reply: "org_reply cfg (pr_OrgID prin) w (admin_handler (prod_admin cfg env) route rq (Some prin) w)"
  by (cases route)
    (simp_all add: policy_reads policy_writes policy_designations simulate_reply keys_reply revoke_reply
      handlePolicies_def handlePolicyItem_def controlPlaneReady_def)

section \<open>The endpoints\<close>

lemma Authenticate_keys:
  "Authenticate c a clk m path hdr body w = (res, w') \<Longrightarrow> fst w' = fst w \<or> (\<exists>t k r. au_keys a t k (fst w) = (r, fst w'))"
  by (cases clk) (auto simp: Authenticate_def split: sum.splits prod.splits option.splits if_splits)

abbreviation cached_keys :: "admin_config \<Rightarrow> bool" where
  "cached_keys cfg \<equiv> (\<exists>ttl. au_keys (pc_auth (ac_prod cfg)) = CachedKeyStore_LookupByID Postgres_LookupByID ttl)"

text \<open>What the authenticator of the node says to a request.\<close>

definition node_authenticates :: "admin_config \<Rightarrow> admin_env \<Rightarrow> http_request \<Rightarrow> admin_world \<Rightarrow> AuthError + Principal" where
  "node_authenticates cfg env rq w =
     fst (sv_authn (admin_server cfg env) (rq_Method rq) (rq_Path rq) (rq_Header rq)
       (case rq_Body rq of Some body \<Rightarrow> body | None \<Rightarrow> []) w)"

lemma admin_authn:
  assumes "sv_authn (admin_server cfg env) m path hdr body w = (r, w')"
  shows "aw_node w' = aw_node w \<and>
    (pw_keys (aw_prod w') = pw_keys (aw_prod w) \<or>
     (\<exists>t k x. au_keys (pc_auth (ac_prod cfg)) t k (pw_keys (aw_prod w)) = (x, pw_keys (aw_prod w'))))"
proof -
  let ?A = "Authenticate (pc_mac (ac_prod cfg)) (pc_auth (ac_prod cfg)) (pe_now (ae_env env), pe_now (ae_env env), pe_now (ae_env env))
    m path hdr body (pw_keys (aw_prod w), pw_nonces (aw_prod w))"
  obtain ks ns where a: "?A = (r, ks, ns)" and w': "w' = w\<lparr>aw_prod := (aw_prod w)\<lparr>pw_keys := ks, pw_nonces := ns\<rparr>\<rparr>"
    using assms by (cases ?A) (auto simp: admin_server_def prod_server_def on_prod_def Let_def)
  from Authenticate_keys [OF a] show ?thesis unfolding w' by simp
qed

lemma admin_limiter:
  "sv_limiter (admin_server cfg env) k lm w = (r, w') \<Longrightarrow> aw_node w' = aw_node w \<and> pw_keys (aw_prod w') = pw_keys (aw_prod w)"
  by (auto simp: admin_server_def prod_server_def on_prod_def Let_def split: prod.splits)

lemma cached_rows: "CachedKeyStore_LookupByID source ttl t k w = (r, w') \<Longrightarrow> snd w' = snd w"
  by (auto simp: CachedKeyStore_LookupByID_def split: sum.splits option.splits)

lemma authn_rows:
  "cached_keys cfg \<Longrightarrow> sv_authn (admin_server cfg env) m path hdr body w = (r, w') \<Longrightarrow>
   aw_node w' = aw_node w \<and> key_rows w' = key_rows w"
  using admin_authn [of cfg env m path hdr body w r w'] cached_rows by metis

lemma admin_auth_statuses: "auth_statuses (admin_server cfg env)"
  using prod_auth_statuses [of "ac_prod cfg" "ae_env env"]
  unfolding auth_statuses_def admin_server_def Let_def on_prod_def by (simp split: prod.splits) blast

text \<open>A call of an endpoint ends in the middleware, or its handler answers an authenticated caller.\<close>

abbreviation node_authn :: "admin_config \<Rightarrow> admin_env \<Rightarrow> http_request \<Rightarrow> admin_world \<Rightarrow> (AuthError + Principal) \<times> admin_world" where
  "node_authn cfg env rq \<equiv> sv_authn (admin_server cfg env) (rq_Method rq) (rq_Path rq) (rq_Header rq)
     (case rq_Body rq of Some body \<Rightarrow> body | None \<Rightarrow> [])"

lemma admin_stages:
  assumes "admin_endpoint (admin_server cfg env) a route rq w = (resp, w')"
  obtains
    (stopped) w1 where "rp_Status resp \<notin> {200, 201}" "w1 = w \<or> (\<exists>r. node_authn cfg env rq w = (r, w1))"
      "aw_node w' = aw_node w1" "pw_keys (aw_prod w') = pw_keys (aw_prod w1)"
  | (handled) prin w1 w2 where "node_authn cfg env rq w = (Inr prin, w1)"
      "aw_node w2 = aw_node w1" "pw_keys (aw_prod w2) = pw_keys (aw_prod w1)"
      "admin_handler a route rq (Some prin) w2 = (resp, w')"
proof -
  let ?sv = "admin_server cfg env"
  have "method_guard (case route_method route of None \<Rightarrow> rq_Method rq | Some m \<Rightarrow> m)
      (authenticate ?sv (rateLimit ?sv (admin_handler a route))) rq None w = (resp, w')"
    using assms by (cases "route_method route") (simp_all add: admin_endpoint_def method_guard_def)
  then show ?thesis
  proof (cases rule: endpoint_stages)
    case refused
    then show ?thesis by (intro stopped [of w]) auto
  next
    case (unauthenticated body e)
    with admin_auth_statuses [of cfg env] have "rp_Status resp \<in> {401, 403, 503}" unfolding auth_statuses_def by fastforce
    with unauthenticated show ?thesis by (intro stopped [of w']) auto
  next
    case (limited body prin w1 d)
    with admin_limiter [OF limited(3)] show ?thesis by (intro stopped [of w1]) auto
  next
    case h: (handled body prin w1 lim w2)
    with admin_limiter [OF h(5)] show ?thesis by (intro handled [of prin w1 w2]) auto
  qed
qed

lemma admin_endpoint_reply:
  assumes "cached_keys cfg" "admin_endpoint (admin_server cfg env) (prod_admin cfg env) route rq w = (resp, w')"
  obtains (refused) "rp_Status resp \<notin> {200, 201}" "aw_node w' = aw_node w" "key_rows w' = key_rows w"
  | (answered) prin where "node_authenticates cfg env rq w = Inr prin" "org_reply cfg (pr_OrgID prin) w (resp, w')"
  using assms(2)
proof (cases rule: admin_stages)
  case h: (handled prin w1 w2)
  then have "aw_node w2 = aw_node w" "key_rows w2 = key_rows w" using authn_rows [OF assms(1) h(1)] by simp_all
  then have "org_step cfg (collision_free (ac_crypto cfg) (node_state w)) (pr_OrgID prin) w w2" "sound_node cfg w2 = sound_node cfg w"
    "node_state w2 = node_state w"
    by (simp_all add: org_step_refl sound_node_def)
  with admin_handler_reply [of cfg prin w2 env route rq] h(4) have "org_reply cfg (pr_OrgID prin) w (resp, w')"
    unfolding org_reply_def by (auto intro: org_step_trans)
  with h(1) show ?thesis by (intro answered [of prin]) (simp_all add: node_authenticates_def)
next
  case (stopped w1)
  then show ?thesis using authn_rows [OF assms(1)] refused by metis
qed

section \<open>Properties\<close>

text \<open>C13: organisations are isolated over HTTP. Take a node of a reachable state whose working copies do not collide with the
  stored versions, and any call of a control-plane route. The node moves by its own steps; and the
  call is refused with the node's policies and keys as they were, or the caller is authenticated,
  everything in the answer belongs to the organisation of its key (a simulation is a dry run of a version or a working copy
  of that organisation), and of every other organisation the policies, versions, active bundle, compiled policy
  and keys are unchanged.\<close>

theorem tenant_isolation:
  assumes "collision_free (ac_crypto cfg) (node_state w)" "ed25519_pair (ac_crypto cfg) pub (sgn_priv (ac_signer cfg))"
    and "au_keys (pc_auth (ac_prod cfg)) = CachedKeyStore_LookupByID Postgres_LookupByID ttl"
    and "pg_node (ac_schema cfg) (ac_crypto cfg) (ac_signer cfg) (NewProvider (NewPgPolicyStore fails)) (aw_node w)"
    and "admin_endpoint (admin_server cfg env) (prod_admin cfg env) route rq w = (resp, w')"
  shows "pg_node (ac_schema cfg) (ac_crypto cfg) (ac_signer cfg) (aw_node w) (aw_node w') \<and>
    (rp_Status resp \<notin> {200, 201} \<and> aw_node w' = aw_node w \<and> key_rows w' = key_rows w \<or>
     (\<exists>prin. node_authenticates cfg env rq w = Inr prin \<and> body_of_org (ac_crypto cfg) (node_state w) (pr_OrgID prin) (rp_Body resp) \<and>
       (\<forall>org. org \<noteq> pr_OrgID prin \<longrightarrow> node_tenant (aw_node w) (aw_node w') org \<and> key_tenant (key_rows w) (key_rows w') org)))"
proof -
  have sound: "sound_node cfg w"
    unfolding sound_node_def using assms(2) pg_node_reachable [OF assms(4,2)] by blast
  have "cached_keys cfg" using assms(3) by blast
  from this assms(5) show ?thesis
  proof (cases rule: admin_endpoint_reply)
    case (answered prin)
    with sound assms(1) show ?thesis unfolding org_reply_def org_step_def by auto
  qed simp
qed

end
