(* ===== verification/Server_Keys.thy ===== *)
theory Server_Keys
  imports Server_Tenancy
begin

text \<open>
  The life of an API key over HTTP: a key that was provisioned authenticates the requests its
  holder signs, and once it is revoked no request that presents it is accepted again. Both rest on
  an invariant of the key table and its cache over everything that happens on the node.
\<close>

section \<open>What happens to the keys of a node\<close>

text \<open>Requests are authenticated, routes of the control plane are called, organisations are
  provisioned, and the stores go down and come back. A lookup that misses the cache reads the row and
  fills the cache afterwards: besides the lookups that nothing interrupts there are those in flight, the
  records they have read being the first component of the state, which fill the cache at some later point.\<close>

inductive key_event :: "admin_config \<Rightarrow> KeyRecord list \<times> admin_world \<Rightarrow> KeyRecord list \<times> admin_world \<Rightarrow> bool" for cfg :: admin_config where
  authn: "sv_authn (admin_server cfg env) m path hdr body w = (r, w') \<Longrightarrow> key_event cfg (fl, w) (fl, w')"
| admin: "admin_endpoint (admin_server cfg env) (prod_admin cfg env) route rq w = (resp, w') \<Longrightarrow> key_event cfg (fl, w) (fl, w')"
| provision: "provision_endpoint (prod_admin cfg env) rq w = (resp, w') \<Longrightarrow> key_event cfg (fl, w) (fl, w')"
| read: "Postgres_LookupByID k (snd (pw_keys (aw_prod w))) = Inr rec \<Longrightarrow> key_event cfg (fl, w) (rec # fl, w)"
| fill: "rec \<in> set fl \<Longrightarrow> on_key_cache (KeyCache_Set t rec ttl) w = (x, w') \<Longrightarrow> key_event cfg (fl, w) (remove1 rec fl, w')"
| outage: "pw_keys (aw_prod w') = (c\<lparr>kc_up := b\<rparr>, s\<lparr>pk_up := b'\<rparr>) \<Longrightarrow> pw_keys (aw_prod w) = (c, s) \<Longrightarrow> key_event cfg (fl, w) (fl, w')"

text \<open>The steps of the key table behind its cache that these events consist of.\<close>

type_synonym key_state = "KeyRecord list \<times> RedisKeyCache \<times> PostgresKeyStore"

inductive key_step :: "duration \<Rightarrow> key_state \<Rightarrow> key_state \<Rightarrow> bool" for ttl :: duration where
  lookup: "CachedKeyStore_LookupByID Postgres_LookupByID ttl t k ks = (r, ks') \<Longrightarrow> key_step ttl (fl, ks) (fl, ks')"
| create: "Postgres_CreateKey rec t s = (r, s') \<Longrightarrow> key_step ttl (fl, c, s) (fl, c, s')"
| revoke: "Postgres_RevokeKey org k t s = (r, s') \<Longrightarrow> key_step ttl (fl, c, s) (fl, c, s')"
| forget: "KeyCache_Invalidate k c = (r, c') \<Longrightarrow> key_step ttl (fl, c, s) (fl, c', s)"
| toggle: "key_step ttl (fl, c, s) (fl, c\<lparr>kc_up := b\<rparr>, s\<lparr>pk_up := b'\<rparr>)"
| read: "Postgres_LookupByID k s = Inr rec \<Longrightarrow> key_step ttl (fl, c, s) (rec # fl, c, s)"
| fill: "rec \<in> set fl \<Longrightarrow> KeyCache_Set t rec d c = (x, c') \<Longrightarrow> key_step ttl (fl, c, s) (remove1 rec fl, c', s)"

abbreviation node_keys :: "admin_world \<Rightarrow> RedisKeyCache \<times> PostgresKeyStore" where
  "node_keys w \<equiv> pw_keys (aw_prod w)"

lemma on_keys_apart:
  "node_keys (snd (on_src f w)) = node_keys w" "node_keys (snd (on_node g w)) = node_keys w"
  by (simp_all add: on_src_def on_node_def split: prod.splits)

lemma policy_reply_snd [simp]: "snd (policy_reply rq st render res) = snd res"
  by (simp add: policy_reply_def split: prod.split sum.split)

lemma service_keys [simp]:
  "node_keys (snd (ps_Create (prod_policySvc cfg env) org name agents rules w)) = node_keys w"
  "node_keys (snd (ps_Get (prod_policySvc cfg env) org i w)) = node_keys w"
  "node_keys (snd (ps_List (prod_policySvc cfg env) org w)) = node_keys w"
  "node_keys (snd (ps_Update (prod_policySvc cfg env) org i name agents rules w)) = node_keys w"
  "node_keys (snd (ps_Publish (prod_policySvc cfg env) org i author w)) = node_keys w"
  "node_keys (snd (ps_ListVersions (prod_policySvc cfg env) org i w)) = node_keys w"
  "node_keys (snd (ps_Rollback (prod_policySvc cfg env) org i h w)) = node_keys w"
  "node_keys (snd (ps_ActiveBundle (prod_policySvc cfg env) org w)) = node_keys w"
  "node_keys (invalidateBundle (prod_admin cfg env) org w) = node_keys w"
  by (simp_all add: prod_policySvc_def prod_admin_def invalidateBundle_def Let_def on_keys_apart)

lemma policy_routes_keys:
  assumes "route \<notin> {RouteKeys, RouteRevoke}"
  shows "node_keys (snd (admin_handler (prod_admin cfg env) route rq (Some prin) w)) = node_keys w"
proof -
  let ?svc = "prod_policySvc cfg env" and ?a = "prod_admin cfg env" and ?org = "pr_OrgID prin"
  note defs = controlPlaneReady_def orgOf_def Let_def
  have "node_keys (snd (case x of (Inl e, w1) \<Rightarrow> (f e, w1) | (Inr v, w1) \<Rightarrow> (g v, invalidateBundle ?a ?org w1))) = node_keys (snd x)" for x :: "(ctl_error + PolicyVersion) \<times> admin_world" and f :: "ctl_error \<Rightarrow> http_response" and g :: "PolicyVersion \<Rightarrow> http_response"
    by (cases x; cases "fst x") auto
  note inval = this
  have sim: "node_keys (snd (case on_src f w of (Inl e, w1) \<Rightarrow> (g e, w1) | (Inr (l, rs), w1) \<Rightarrow> (h l rs, w1))) = node_keys w"
    for f :: "PgPolicyStore \<Rightarrow> (sim_error + string \<times> Decision list) \<times> PgPolicyStore" and g :: "sim_error \<Rightarrow> http_response" and h :: "string \<Rightarrow> Decision list \<Rightarrow> http_response"
    using on_keys_apart(1) [of f w] by (auto split: prod.splits sum.splits)
  from assms show ?thesis
    by (cases route)
      (simp_all add: handlePolicies_def handleActiveBundle_def handlePolicyItem_def handlePublishPolicy_def
        handleRollbackPolicy_def handleListVersions_def handleSimulate_def handleListPolicies_def handleCreatePolicy_def
        handleGetPolicy_def handleUpdatePolicy_def defs inval sim split: sum.split option.split)
qed

lemma on_keys_step:
  assumes "on_keys f w = (x, w')" "\<And>s r s'. f s = (r, s') \<Longrightarrow> key_step ttl (fl, fst (node_keys w), s) (fl, fst (node_keys w), s')"
  shows "key_step ttl (fl, node_keys w) (fl, node_keys w')"
proof -
  obtain s' where "f (snd (node_keys w)) = (x, s')" "node_keys w' = (fst (node_keys w), s')"
    using assms(1) by (auto simp: on_keys_def on_prod_def split: prod.splits)
  with assms(2) [of "snd (node_keys w)" x s'] show ?thesis by simp
qed

lemma mint_key_steps:
  "(key_step ttl)\<^sup>*\<^sup>* (fl, node_keys w) (fl, node_keys (snd (mint_key (prod_admin cfg env) prod_keyAdmin failed org body rq w)))"
proof (cases rule: mint_key_cases [of cfg env failed org body rq w])
  case (minted g x w1)
  have "key_step ttl (fl, node_keys w) (fl, node_keys w1)" using minted(2) by (rule on_keys_step) (rule key_step.create)
  then show ?thesis unfolding minted(3) by (cases x) auto
qed simp

lemma revoke_steps:
  "(key_step ttl)\<^sup>*\<^sup>* (fl, node_keys w) (fl, node_keys (snd (handleRevokeKey (prod_admin cfg env) rq (Some prin) w)))"
proof -
  let ?org = "pr_OrgID prin" and ?now = "pe_now (ae_env env)"
  obtain x w1 where r: "on_keys (Postgres_RevokeKey ?org (rq_PathID rq) ?now) w = (x, w1)"
    by (cases "on_keys (Postgres_RevokeKey ?org (rq_PathID rq) ?now) w")
  then have one: "key_step ttl (fl, node_keys w) (fl, node_keys w1)" by (rule on_keys_step) (rule key_step.revoke)
  obtain y w2 where c: "on_key_cache (KeyCache_Invalidate (rq_PathID rq)) w1 = (y, w2)"
    by (cases "on_key_cache (KeyCache_Invalidate (rq_PathID rq)) w1")
  obtain c' where "KeyCache_Invalidate (rq_PathID rq) (fst (node_keys w1)) = (y, c')" "node_keys w2 = (c', snd (node_keys w1))"
    using c by (auto simp: on_key_cache_def on_prod_def split: prod.splits)
  then have two: "key_step ttl (fl, node_keys w1) (fl, node_keys w2)" using key_step.forget [of _ "fst (node_keys w1)" y c' ttl fl "snd (node_keys w1)"] by simp
  have "snd (handleRevokeKey (prod_admin cfg env) rq (Some prin) w) = (case x of Inl _ \<Rightarrow> w1 | Inr _ \<Rightarrow> w2)"
    using r c by (cases x) (simp_all add: handleRevokeKey_def keyAdminReady_def orgOf_def prod_keyAdmin_def)
  with one two show ?thesis by (cases x) auto
qed

lemma handler_steps:
  "(key_step ttl)\<^sup>*\<^sup>* (fl, node_keys w) (fl, node_keys (snd (admin_handler (prod_admin cfg env) route rq (Some prin) w)))"
proof (cases "route \<in> {RouteKeys, RouteRevoke}")
  case True
  then show ?thesis
    using mint_key_steps revoke_steps
    by (auto simp: handleKeys_def handleListKeys_def handleCreateKey_def keyAdminReady_def orgOf_def split: sum.split)
qed (simp add: policy_routes_keys)

lemma authn_steps:
  assumes "au_keys (pc_auth (ac_prod cfg)) = CachedKeyStore_LookupByID Postgres_LookupByID ttl"
    "sv_authn (admin_server cfg env) m path hdr body w = (r, w')"
  shows "(key_step ttl)\<^sup>*\<^sup>* (fl, node_keys w) (fl, node_keys w')"
  using admin_authn [OF assms(2)] unfolding assms(1) by (auto intro: key_step.lookup)

lemma event_steps:
  assumes "au_keys (pc_auth (ac_prod cfg)) = CachedKeyStore_LookupByID Postgres_LookupByID ttl" "key_event cfg st st'"
  shows "(key_step ttl)\<^sup>*\<^sup>* (fst st, node_keys (snd st)) (fst st', node_keys (snd st'))"
  using assms(2)
proof cases
  case (authn env m path hdr body w r w' fl)
  then show ?thesis using authn_steps [OF assms(1) authn(3)] by simp
next
  case (admin env route rq w resp w' fl)
  from admin(3) have "(key_step ttl)\<^sup>*\<^sup>* (fl, node_keys w) (fl, node_keys w')"
  proof (cases rule: admin_stages)
    case (stopped w1)
    then show ?thesis using authn_steps [OF assms(1)] by auto
  next
    case (handled prin w1 w2)
    with authn_steps [OF assms(1) handled(1)] handler_steps [of ttl fl w2 cfg env route rq prin] show ?thesis
      by (auto intro: rtranclp_trans)
  qed
  with admin show ?thesis by simp
next
  case (provision env rq w resp w' fl)
  have "(key_step ttl)\<^sup>*\<^sup>* (fl, node_keys w) (fl, node_keys (snd (handleProvisionKey (prod_admin cfg env) rq w)))"
    using mint_key_steps by (auto simp: handleProvisionKey_def split: sum.split)
  with provision show ?thesis by (simp add: provision_endpoint_def method_guard_def split: if_splits)
next
  case (outage w' c b s b' w fl)
  then show ?thesis using key_step.toggle by auto
next
  case (read k w rec fl)
  then show ?thesis using key_step.read [of k "snd (node_keys w)" rec ttl fl "fst (node_keys w)"] by auto
next
  case (fill rec fl t d w x w')
  then obtain c' where "KeyCache_Set t rec d (fst (node_keys w)) = (x, c')" "node_keys w' = (c', snd (node_keys w))"
    by (auto simp: on_key_cache_def on_prod_def split: prod.splits)
  with fill key_step.fill [of rec fl t d "fst (node_keys w)" x c' ttl "snd (node_keys w)"] show ?thesis by auto
qed

section \<open>The key table and its cache\<close>

text \<open>Rows are kept under their own id, and only keys of the table are cached or in flight.\<close>

definition key_table_ok :: "key_state \<Rightarrow> bool" where
  "key_table_ok st \<longleftrightarrow> (case st of (fl, c, s) \<Rightarrow> pg_keys_inv s \<and>
     (\<forall>k r ex. kc_keys c (keyCachePrefix @ k) = Some (Some r, ex) \<longrightarrow> map_of (pk_rows s) k \<noteq> None) \<and>
     (\<forall>r \<in> set fl. map_of (pk_rows s) (kr_KeyID r) \<noteq> None))"

text \<open>The row of the key is revoked, and so is what the cache may hold of it and what a lookup in flight has read.\<close>

definition key_gone :: "string \<Rightarrow> key_state \<Rightarrow> bool" where
  "key_gone k st \<longleftrightarrow> (case st of (fl, c, s) \<Rightarrow>
     (\<exists>row. map_of (pk_rows s) k = Some row \<and> kr_Status (row_rec row) = KeyStatusRevoked) \<and>
     (\<forall>r ex. kc_keys c (keyCachePrefix @ k) = Some (Some r, ex) \<longrightarrow> kr_Status r = KeyStatusRevoked) \<and>
     (\<forall>r \<in> set fl. kr_KeyID r = k \<longrightarrow> kr_Status r = KeyStatusRevoked))"

lemma pg_create_inv: "Postgres_CreateKey rec t s = (r, s') \<Longrightarrow> pg_keys_inv s \<Longrightarrow> pg_keys_inv s'"
  using pg_keys.create_lookup pg_keys.create_fails by (cases r) blast+

lemma pg_revoke_inv: "Postgres_RevokeKey org k t s = (r, s') \<Longrightarrow> pg_keys_inv s \<Longrightarrow> pg_keys_inv s'"
  using pg_keys.revoke_lookup pg_keys.revoke_fails by (cases r) blast+

lemma pg_create_rows:
  "Postgres_CreateKey rec t s = (r, s') \<Longrightarrow> map_of (pk_rows s) k = Some row \<Longrightarrow> map_of (pk_rows s') k = Some row"
  by (auto simp: Postgres_CreateKey_def pk_insert_def map_add_def split: if_splits option.splits)

lemma pg_revoke_rows:
  "Postgres_RevokeKey org k' t s = (r, s') \<Longrightarrow> map_of (pk_rows s) k = Some row \<Longrightarrow>
   \<exists>row'. map_of (pk_rows s') k = Some row' \<and> kr_Status (row_rec row') \<in> {kr_Status (row_rec row), KeyStatusRevoked}"
  by (auto simp: Postgres_RevokeKey_def KeyStatusRevoked_def Let_def split: if_splits option.splits)

lemma cache_filled:
  assumes "CachedKeyStore_LookupByID Postgres_LookupByID ttl t k (c, s) = (r, c', s')" "pg_keys_inv s"
    and "kc_keys c' (keyCachePrefix @ k') = Some (Some r', ex)"
  shows "(\<exists>ex. kc_keys c (keyCachePrefix @ k') = Some (Some r', ex)) \<or> (\<exists>row. map_of (pk_rows s) k' = Some row \<and> r' = row_rec row)"
proof (cases "c' = c")
  case False
  then obtain rec where "Postgres_LookupByID k s = Inr rec" "c' = snd (KeyCache_Set t rec ttl c)"
    using assms(1) by (auto simp: CachedKeyStore_LookupByID_def split: sum.splits option.splits)
  moreover from this pg_keys.lookup_id [OF assms(2)] have "kr_KeyID rec = k" by blast
  ultimately show ?thesis
    using assms(3) by (auto simp: KeyCache_Set_def Postgres_LookupByID_def split: option.splits if_splits)
qed (use assms(3) in blast)

lemma cache_set_entry:
  "KeyCache_Set t rec d c = (x, c') \<Longrightarrow> kc_keys c' (keyCachePrefix @ k) = Some (Some r, ex) \<Longrightarrow>
   (\<exists>ex. kc_keys c (keyCachePrefix @ k) = Some (Some r, ex)) \<or> r = rec \<and> k = kr_KeyID rec"
  by (auto simp: KeyCache_Set_def split: if_splits)

lemma pg_read_row:
  assumes "Postgres_LookupByID k s = Inr rec" "pg_keys_inv s"
  shows "kr_KeyID rec = k \<and> (\<exists>row. map_of (pk_rows s) k = Some row \<and> rec = row_rec row)"
  using assms pg_keys.lookup_id [OF assms(2,1)] by (auto simp: Postgres_LookupByID_def split: option.splits if_splits)

lemma key_step_ok: "key_step ttl ks ks' \<Longrightarrow> key_table_ok ks \<Longrightarrow> key_table_ok ks'"
proof (induction rule: key_step.induct)
  case (lookup t k ks r ks' fl)
  obtain c s c' where ks: "ks = (c, s)" "ks' = (c', s)" using cached_rows [OF lookup(1)] by (cases ks, cases ks') auto
  with lookup cache_filled [of ttl t k c s r c' s] show ?case by (fastforce simp: key_table_ok_def)
next
  case (create rec t s r s' fl c)
  then show ?case using pg_create_inv pg_create_rows unfolding key_table_ok_def by fastforce
next
  case (revoke org k t s r s' fl c)
  then show ?case using pg_revoke_inv pg_revoke_rows unfolding key_table_ok_def by fastforce
next
  case (forget k c r c' fl s)
  then show ?case by (auto simp: key_table_ok_def KeyCache_Invalidate_def split: if_splits)
next
  case (toggle fl c s b b')
  then show ?case by (simp add: key_table_ok_def pg_keys_inv_def)
next
  case (read k s rec fl c)
  then show ?case using pg_read_row [OF read(1)] by (auto simp: key_table_ok_def)
next
  case (fill rec fl t d c x c' s)
  then show ?case using cache_set_entry [OF fill(2)] by (fastforce simp: key_table_ok_def dest: notin_set_remove1)
qed

lemma key_step_gone: "key_step ttl ks ks' \<Longrightarrow> key_table_ok ks \<Longrightarrow> key_gone k ks \<Longrightarrow> key_gone k ks'"
proof (induction rule: key_step.induct)
  case (lookup t k' ks r ks' fl)
  obtain c s c' where ks: "ks = (c, s)" "ks' = (c', s)" using cached_rows [OF lookup(1)] by (cases ks, cases ks') auto
  with lookup cache_filled [of ttl t k' c s r c' s k] show ?case by (fastforce simp: key_table_ok_def key_gone_def)
next
  case (create rec t s r s' fl c)
  then show ?case using pg_create_rows unfolding key_gone_def by fastforce
next
  case (revoke org k' t s r s' fl c)
  then show ?case using pg_revoke_rows [OF revoke(1)] unfolding key_gone_def by fastforce
next
  case (forget k' c r c' fl s)
  then show ?case by (auto simp: key_gone_def KeyCache_Invalidate_def split: if_splits)
next
  case (toggle fl c s b b')
  then show ?case by (simp add: key_gone_def)
next
  case (read k' s rec fl c)
  then show ?case using pg_read_row [OF read(1)] by (auto simp: key_table_ok_def key_gone_def)
next
  case (fill rec fl t d c x c' s)
  then show ?case using cache_set_entry [OF fill(2)] by (fastforce simp: key_gone_def dest: notin_set_remove1)
qed

lemma key_steps_gone:
  "(key_step ttl)\<^sup>*\<^sup>* ks ks' \<Longrightarrow> key_table_ok ks \<Longrightarrow> key_table_ok ks' \<and> (key_gone k ks \<longrightarrow> key_gone k ks')"
  by (induction rule: rtranclp_induct) (auto dest: key_step_ok key_step_gone)

lemma events_steps:
  assumes "au_keys (pc_auth (ac_prod cfg)) = CachedKeyStore_LookupByID Postgres_LookupByID ttl" "(key_event cfg)\<^sup>*\<^sup>* st st'"
  shows "(key_step ttl)\<^sup>*\<^sup>* (fst st, node_keys (snd st)) (fst st', node_keys (snd st'))"
  using assms(2) by (induction rule: rtranclp_induct) (auto intro: rtranclp_trans event_steps [OF assms(1)])

section \<open>Revocation\<close>

lemma lookup_up: "CachedKeyStore_LookupByID source ttl t k ks = (r, ks') \<Longrightarrow> kc_up (fst ks') = kc_up (fst ks)"
  by (cases "kc_up (fst ks)") (auto simp: CachedKeyStore_LookupByID_def KeyCache_Set_def split: sum.splits option.splits)

lemma revoke_gone:
  assumes "handleRevokeKey (prod_admin cfg env) rq (Some prin) w = (resp, w')" "rp_Status resp = 200"
    and "kc_up (fst (node_keys w))" "\<forall>r \<in> set fl. kr_KeyID r = rq_PathID rq \<longrightarrow> kr_Status r = KeyStatusRevoked"
  shows "key_gone (rq_PathID rq) (fl, node_keys w')"
proof -
  let ?k = "rq_PathID rq" and ?R = "Postgres_RevokeKey (pr_OrgID prin) (rq_PathID rq) (pe_now (ae_env env)) (snd (node_keys w))"
  obtain x s' where R: "?R = (x, s')" by (cases ?R)
  have "\<exists>i. x = Inr i"
    using assms(1,2) R by (cases x) (auto simp: handleRevokeKey_def keyAdminReady_def orgOf_def prod_keyAdmin_def on_keys_def on_prod_def
        writeProblem_def split: if_splits)
  then obtain i where i: "x = Inr i" ..
  with assms(1) R have "node_keys w' = (snd (KeyCache_Invalidate ?k (fst (node_keys w))), s')"
    by (auto simp: handleRevokeKey_def keyAdminReady_def orgOf_def prod_keyAdmin_def on_keys_def on_key_cache_def on_prod_def
        split: prod.splits)
  moreover have "\<exists>row. map_of (pk_rows s') ?k = Some row \<and> kr_Status (row_rec row) = KeyStatusRevoked"
    using R i by (auto simp: Postgres_RevokeKey_def KeyStatusRevoked_def Let_def split: if_splits option.splits)
  ultimately show ?thesis using assms(3,4) by (simp add: key_gone_def KeyCache_Invalidate_def)
qed

lemma node_authenticates_eq:
  "node_authenticates cfg env rq w =
     fst (Authenticate (pc_mac (ac_prod cfg)) (pc_auth (ac_prod cfg)) (pe_now (ae_env env), pe_now (ae_env env), pe_now (ae_env env))
       (rq_Method rq) (rq_Path rq) (rq_Header rq) (case rq_Body rq of Some body \<Rightarrow> body | None \<Rightarrow> []) (node_keys w, pw_nonces (aw_prod w)))"
  by (simp add: node_authenticates_def admin_server_def prod_server_def on_prod_def Let_def split: prod.splits)

lemma gone_refused:
  assumes "au_keys (pc_auth (ac_prod cfg)) = CachedKeyStore_LookupByID Postgres_LookupByID ttl"
    and "key_gone (KeyID raw (hex_encode (mc_Sum256 (pc_mac (ac_prod cfg)) raw))) (fl, node_keys w)" "bearerKey (rq_Header rq) = Inr raw"
  shows "node_authenticates cfg env rq w \<noteq> Inr prin"
proof
  let ?now = "pe_now (ae_env env)"
  let ?A = "Authenticate (pc_mac (ac_prod cfg)) (pc_auth (ac_prod cfg)) (?now, ?now, ?now)
      (rq_Method rq) (rq_Path rq) (rq_Header rq) (case rq_Body rq of Some body \<Rightarrow> body | None \<Rightarrow> []) (node_keys w, pw_nonces (aw_prod w))"
  assume "node_authenticates cfg env rq w = Inr prin"
  then have "?A = (Inr prin, snd ?A)" by (simp add: node_authenticates_eq prod_eq_iff)
  from this [unfolded Authenticate_Inr] assms(3)
  have "\<exists>rec. au_keys (pc_auth (ac_prod cfg)) ?now (KeyID raw (hex_encode (mc_Sum256 (pc_mac (ac_prod cfg)) raw))) (node_keys w)
      = (Inr rec, fst (snd ?A)) \<and> kr_Status rec = KeyStatusActive"
    by auto
  then obtain rec where "fst (CachedKeyStore_LookupByID Postgres_LookupByID ttl ?now
      (KeyID raw (hex_encode (mc_Sum256 (pc_mac (ac_prod cfg)) raw))) (node_keys w)) = Inr rec" "kr_Status rec = KeyStatusActive"
    unfolding assms(1) by auto
  then show False
    using assms(2)
    by (cases "node_keys w") (auto simp: CachedKeyStore_LookupByID_def KeyCache_Get_def Postgres_LookupByID_def key_gone_def KeyStatusActive_def
        KeyStatusRevoked_def split: sum.splits option.splits if_splits)
qed

section \<open>Provisioning\<close>

lemma decode_status: "decodePolicyBody read dec rq = Inl resp \<Longrightarrow> rp_Status resp \<in> {400, 413}"
  by (auto simp: decodePolicyBody_def Let_def writeProblem_def split: body_read.splits sum.splits if_splits)

lemma rp_Status_problem [simp]: "rp_Status (writeProblem hdr rq st code title detail items) = st"
  by (simp add: writeProblem_def)

lemma provision_201:
  assumes "provision_endpoint (prod_admin cfg env) rq w = (resp, w')" "rp_Status resp = 201"
  obtains body g where "ac_token cfg \<noteq> []" "header_Get (rq_Header rq) ''X-Provision-Token'' = ac_token cfg"
    "decodePolicyBody (ac_read cfg) dec_provisionKeyRequest rq = Inr body"
    "NewKey (pc_mac (ac_prod cfg)) (ae_entropy env) (pkr_Env body) (pkr_OrgID body) (tier_of body) = Inr g"
    "on_keys (Postgres_CreateKey (gk_Record (shadowed (pkr_Shadow body) g)) (pe_now (ae_env env))) w = (None, w')"
    "rp_Body resp = BodyCreatedKey (created_view (pkr_OrgID body) (tier_of body) (pe_now (ae_env env)) (shadowed (pkr_Shadow body) g))"
proof -
  from assms have h: "handleProvisionKey (prod_admin cfg env) rq w = (resp, w')"
    by (auto simp: provision_endpoint_def method_guard_def split: if_splits)
  with assms(2) have token: "ac_token cfg \<noteq> []" "header_Get (rq_Header rq) ''X-Provision-Token'' = ac_token cfg"
    by (auto simp: handleProvisionKey_def split: if_splits)
  obtain body where body: "decodePolicyBody (ac_read cfg) dec_provisionKeyRequest rq = Inr body"
    using h token assms(2)
    by (cases "decodePolicyBody (ac_read cfg) dec_provisionKeyRequest rq") (auto simp: handleProvisionKey_def dest: decode_status)
  let ?m = "mint_key (prod_admin cfg env) prod_keyAdmin (''Provisioning error'', ''Could not create the org key.'') (pkr_OrgID body) body rq w"
  have m: "?m = (resp, w')" using h token body assms(2) by (auto simp: handleProvisionKey_def split: if_splits)
  show ?thesis
  proof (cases rule: mint_key_cases [of cfg env "(''Provisioning error'', ''Could not create the org key.'')" "pkr_OrgID body" body rq w])
    case (refused detail)
    with m assms(2) show ?thesis by auto
  next
    case (minted g x w1)
    with m assms(2) have "x = None" by (cases x) auto
    with minted m that [OF token body minted(1)] show ?thesis by auto
  qed
qed

lemma created_view_sel [simp]:
  "kv_ID (created_view org tier now g) = kr_KeyID (gk_Record g)" "kv_Tier (created_view org tier now g) = tier"
  "kv_Env (created_view org tier now g) = kr_Env (gk_Record g)" "kv_Shadow (created_view org tier now g) = kr_Shadow (gk_Record g)"
  "kv_IsActive (created_view org tier now g) \<longleftrightarrow> kr_Status (gk_Record g) = KeyStatusActive"
  "kv_Secret (created_view org tier now g) = gk_Plaintext g"
  by (simp_all add: created_view_def viewOf_def apiKeyView.defs createdApiKeyView.defs)

lemma shadowed_sel [simp]:
  "gk_Plaintext (shadowed b g) = gk_Plaintext g" "kr_KeyID (gk_Record (shadowed b g)) = kr_KeyID (gk_Record g)"
  "kr_KeyHashHex (gk_Record (shadowed b g)) = kr_KeyHashHex (gk_Record g)" "kr_Status (gk_Record (shadowed b g)) = kr_Status (gk_Record g)"
  "kr_OrgID (gk_Record (shadowed b g)) = kr_OrgID (gk_Record g)" "kr_Tier (gk_Record (shadowed b g)) = kr_Tier (gk_Record g)"
  "kr_Env (gk_Record (shadowed b g)) = kr_Env (gk_Record g)"
  by (simp_all add: shadowed_def split: option.split)

text \<open>A key that was just inserted is not cached, so the lookup finds its row.\<close>

lemma created_found:
  assumes "Postgres_CreateKey rec t s = (None, s')" "key_table_ok (fl, c, s)" "kc_up c"
  shows "\<exists>ks. CachedKeyStore_LookupByID Postgres_LookupByID ttl now (kr_KeyID rec) (c, s') = (Inr rec, ks)"
proof -
  have "map_of (pk_rows s) (kr_KeyID rec) = None" using assms(1) by (auto simp: Postgres_CreateKey_def pk_insert_def split: if_splits)
  with assms(2) have "\<forall>r ex. kc_keys c (keyCachePrefix @ kr_KeyID rec) \<noteq> Some (Some r, ex)" unfolding key_table_ok_def by fastforce
  then have "KeyCache_Get now (kr_KeyID rec) c = Inr None" using assms(3) by (auto simp: KeyCache_Get_def split: option.splits)
  moreover have "Postgres_LookupByID (kr_KeyID rec) s' = Inr rec"
    using pg_keys.create_lookup [OF assms(1)] assms(2) by (simp add: key_table_ok_def)
  ultimately show ?thesis by (simp add: CachedKeyStore_LookupByID_def)
qed

section \<open>Properties\<close>


text \<open>C15: a provisioned key works. From the start of a node with an empty key table, after any events,
  let the provisioning endpoint answer 201. Then the caller presented the configured token, which is
  not empty, and got an active key with its secret, of the organisation, tier and environment that the body of the request
  names (the tier \<open>default\<close> when it names none; shadow unless it says otherwise); and the next
  request that the holder of the secret signs, with a fresh nonce and a time stamp within the skew,
  is authenticated as that organisation, with that tier, environment and mode.\<close>

theorem provisioned_key_works:
  assumes "au_keys (pc_auth (ac_prod cfg)) = CachedKeyStore_LookupByID Postgres_LookupByID ttl"
    and "au_nonces (pc_auth (ac_prod cfg)) = RedisNonce_Remember" "au_maxSkew (pc_auth (ac_prod cfg)) < 2 ^ 63"
    and "\<forall>k m. mc_HMAC (pc_mac (ac_prod cfg)) k m \<noteq> []"
    and "key_rows w0 = []" "kc_keys (fst (node_keys w0)) = (\<lambda>_. None)" "(key_event cfg)\<^sup>*\<^sup>* ([], w0) (fl, w)"
    and "provision_endpoint (prod_admin cfg env) rq w = (resp, w')" "rp_Status resp = 201"
    and "ae_entropy env = Some buf" "buf \<noteq> []" "kc_up (fst (node_keys w))" "rn_up (pw_nonces (aw_prod w))"
  shows "ac_token cfg \<noteq> [] \<and> header_Get (rq_Header rq) ''X-Provision-Token'' = ac_token cfg \<and>
    (\<exists>k body. decodePolicyBody (ac_read cfg) dec_provisionKeyRequest rq = Inr body \<and>
      rp_Body resp = BodyCreatedKey k \<and> kv_IsActive k \<and>
      kv_OrgID k = pkr_OrgID body \<and> kv_Tier k = tier_of body \<and> kv_Env k = pkr_Env body \<and> kv_Shadow k = (pkr_Shadow body \<noteq> Some False) \<and>
      (\<forall>env' rq' ts nonce. rq_Header rq' = client_header (pc_mac (ac_prod cfg)) (kv_Secret k) (rq_Method rq') (rq_Path rq') ts nonce
          (case rq_Body rq' of Some body \<Rightarrow> body | None \<Rightarrow> []) \<longrightarrow> 8 \<le> length nonce \<longrightarrow> length nonce \<le> 128 \<longrightarrow> in_int64 ts \<longrightarrow>
        \<bar>pe_now (ae_env env') - time_of_Unix ts\<bar> \<le> au_maxSkew (pc_auth (ac_prod cfg)) \<longrightarrow>
        rn_keys (pw_nonces (aw_prod w)) (redis_nonce_key (kv_ID k) nonce) = None \<longrightarrow>
        node_authenticates cfg env' rq' w' =
          Inr \<lparr>pr_OrgID = pkr_OrgID body, pr_KeyID = kv_ID k, pr_Tier = tier_of body, pr_Env = pkr_Env body,
               pr_Shadow = (pkr_Shadow body \<noteq> Some False)\<rparr>))"
proof -
  let ?mac = "pc_mac (ac_prod cfg)" and ?a = "pc_auth (ac_prod cfg)"
  from assms(8,9) obtain body g where token: "ac_token cfg \<noteq> []" "header_Get (rq_Header rq) ''X-Provision-Token'' = ac_token cfg"
    and dec: "decodePolicyBody (ac_read cfg) dec_provisionKeyRequest rq = Inr body"
    and g: "NewKey ?mac (ae_entropy env) (pkr_Env body) (pkr_OrgID body) (tier_of body) = Inr g"
    and c: "on_keys (Postgres_CreateKey (gk_Record (shadowed (pkr_Shadow body) g)) (pe_now (ae_env env))) w = (None, w')"
    and b: "rp_Body resp = BodyCreatedKey (created_view (pkr_OrgID body) (tier_of body) (pe_now (ae_env env)) (shadowed (pkr_Shadow body) g))"
    by (rule provision_201)
  let ?g = "shadowed (pkr_Shadow body) g" and ?raw = "gk_Plaintext g"
  let ?k = "created_view (pkr_OrgID body) (tier_of body) (pe_now (ae_env env)) ?g"
  note new = g [unfolded assms(10)]
  note key = NewKey_graphic [OF new assms(11)] and rec = NewKey_Inr [OF new, THEN conjunct2]
  have "key_table_ok ([], node_keys w0)" using assms(5,6) by (cases "node_keys w0") (simp add: key_table_ok_def pg_keys_inv_def keyed_def)
  then have ok: "key_table_ok (fl, node_keys w)" using key_steps_gone [OF events_steps [OF assms(1,7)]] by simp
  obtain s' where s': "Postgres_CreateKey (gk_Record ?g) (pe_now (ae_env env)) (snd (node_keys w)) = (None, s')"
    "node_keys w' = (fst (node_keys w), s')" "pw_nonces (aw_prod w') = pw_nonces (aw_prod w)"
    using c by (auto simp: on_keys_def on_prod_def split: prod.splits)
  have "node_authenticates cfg env' rq' w' = Inr (principal_of (gk_Record ?g))"
    if rq': "rq_Header rq' = client_header ?mac ?raw (rq_Method rq') (rq_Path rq') ts nonce (case rq_Body rq' of Some body \<Rightarrow> body | None \<Rightarrow> [])"
      and n: "8 \<le> length nonce" "length nonce \<le> 128" and ts: "in_int64 ts" "\<bar>pe_now (ae_env env') - time_of_Unix ts\<bar> \<le> au_maxSkew ?a"
      and fresh: "rn_keys (pw_nonces (aw_prod w)) (redis_nonce_key (kr_KeyID (gk_Record ?g)) nonce) = None" for env' rq' ts nonce
  proof -
    let ?now = "pe_now (ae_env env')"
    obtain ks where found: "au_keys ?a ?now (KeyID ?raw (hex_encode (mc_Sum256 ?mac ?raw))) (node_keys w') = (Inr (gk_Record ?g), ks)"
      using created_found [OF s'(1), of fl "fst (node_keys w)" ttl ?now] ok assms(12) rec unfolding assms(1) s'(2) by auto
    obtain ns where "au_nonces ?a ?now (kr_KeyID (gk_Record ?g)) nonce (au_nonceTTL ?a) (pw_nonces (aw_prod w')) = (Inr True, ns)"
      using fresh_nonce_remembered [OF assms(13) fresh] unfolding assms(2) s'(3) by blast
    from client_accepted [OF key found _ _ assms(4) n ts(1) ts(2) assms(3) this] rec show ?thesis
      unfolding node_authenticates_eq rq' by simp
  qed
  moreover have "kr_Shadow (gk_Record ?g) = (pkr_Shadow body \<noteq> Some False)"
    using rec by (cases "pkr_Shadow body") (auto simp: shadowed_def)
  ultimately show ?thesis using token dec b rec by (intro conjI exI [of _ ?k] exI [of _ body]) (simp_all add: principal_of_def)
qed

section \<open>An example\<close>

text \<open>A node with one key: provisioned, used and revoked.\<close>

definition demo_admin_cfg :: admin_config where
  "demo_admin_cfg = \<lparr>ac_prod = \<lparr>pc_mac = demo_mac, pc_crypto = demo_crypto,
       pc_auth = NewAuthenticator (CachedKeyStore_LookupByID Postgres_LookupByID 0) RedisNonce_Remember (5 * ns_minute) 0,
       pc_tiers = [(''pro'', \<lparr>lim_PerMinute = 0, lim_PerSecond = 0\<rparr>)],
       pc_engine = (\<lambda>_. WithSigner (NewEngine demo_policy ''key-1'') demo_signer), pc_keyring = demo_keyring,
       pc_enc = demo_enc, pc_retention = (\<lambda>_. 0), pc_holdTTL = 0\<rparr>,
     ac_schema = demo_validator, ac_signer = demo_signer, ac_token = ''token'',
     ac_read = (\<lambda>_. ReadValue (JsonObj [(''org_id'', JsonString ''org''), (''env'', JsonString ''live''), (''tier'', JsonString ''pro'')])),
     ac_requests = (\<lambda>_. Inr [])\<rparr>"

definition demo_admin_env :: admin_env where
  "demo_admin_env = \<lparr>ae_env = demo_env 0, ae_clk = demo_clk, ae_policyID = ''p1'', ae_sim = (\<lambda>_. (0, ''s'')), ae_entropy = Some ''entropy''\<rparr>"

definition demo_admin_world :: "PgPolicyStore Provider \<Rightarrow> (string \<times> key_row) list \<Rightarrow> admin_world" where
  "demo_admin_world n rows = \<lparr>aw_prod =
     \<lparr>pw_keys = (\<lparr>kc_up = True, kc_keys = (\<lambda>_. None)\<rparr>, \<lparr>pk_up = True, pk_rows = rows\<rparr>),
      pw_nonces = pw_nonces demo_pw, pw_limiter = pw_limiter demo_pw, pw_idem = pw_idem demo_pw, pw_budget = pw_budget demo_pw,
      pw_audit = pw_audit demo_pw\<rparr>, aw_node = n\<rparr>"

definition demo_key_row :: key_row where
  "demo_key_row = \<lparr>row_rec = demo_stored, row_created = pe_now (demo_env 0), row_revoked = None\<rparr>"

abbreviation demo_kid :: string where "demo_kid \<equiv> ''azn_live_6868686868686868''"

definition demo_admin_rq :: "string \<Rightarrow> string \<Rightarrow> http_request" where
  "demo_admin_rq m path = (demo_rq m path)\<lparr>rq_PathID := demo_kid\<rparr>"

definition demo_provision_rq :: http_request where
  "demo_provision_rq = (demo_rq ''POST'' ''/v1/provision'')\<lparr>rq_Header := [(''X-Provision-Token'', [''token''])]\<rparr>"

lemma demo_admin_auth:
  "pc_mac (ac_prod demo_admin_cfg) = demo_mac"
  "au_keys (pc_auth (ac_prod demo_admin_cfg)) = CachedKeyStore_LookupByID Postgres_LookupByID 0"
  "au_nonces (pc_auth (ac_prod demo_admin_cfg)) = RedisNonce_Remember"
  "au_maxSkew (pc_auth (ac_prod demo_admin_cfg)) = 5 * ns_minute" "au_nonceTTL (pc_auth (ac_prod demo_admin_cfg)) = 10 * ns_minute"
  "ac_crypto demo_admin_cfg = demo_crypto" "ac_signer demo_admin_cfg = demo_signer" "ac_schema demo_admin_cfg = demo_validator"
  by (simp_all add: demo_admin_cfg_def NewAuthenticator_def wrap64_def)

lemma demo_live_KeyID: "KeyID (prefixLive @ x) (hex_encode (mc_Sum256 demo_mac (prefixLive @ x))) = demo_kid"
proof -
  have "KeyID (prefixLive @ x) h = KeyID demo_raw h" for h
    by (simp add: KeyID_def demo_raw_def prefixLive_def prefixTest_def HasPrefix_def)
  then show ?thesis using demo_KeyID by (simp add: demo_mac_def)
qed

lemma demo_NewKey:
  "NewKey demo_mac (Some ''entropy'') ''live'' ''org'' ''pro'' =
     Inr \<lparr>gk_Plaintext = prefixLive @ ToLower (b32_encode ''entropy''), gk_Record = demo_stored\<rparr>"
  using demo_live_KeyID [of "ToLower (b32_encode ''entropy'')"]
  by (simp add: NewKey_def EnvTest_def EnvLive_def Let_def demo_stored_def KeyStatusActive_def) (simp add: demo_mac_def)

lemma demo_provision_body:
  "decodePolicyBody (ac_read demo_admin_cfg) dec_provisionKeyRequest demo_provision_rq =
     Inr \<lparr>pkr_OrgID = ''org'', pkr_Env = ''live'', pkr_Tier = ''pro'', pkr_Shadow = None\<rparr>"
  by (simp add: decodePolicyBody_def demo_admin_cfg_def dec_provisionKeyRequest_def dec_struct_def match_field_def EqualFold_def
      set_key_field_def zero_key_request_def)

lemma demo_create:
  "on_keys (Postgres_CreateKey demo_stored (pe_now (demo_env 0))) (demo_admin_world n []) = (None, demo_admin_world n [(demo_kid, demo_key_row)])"
  by (simp add: on_keys_def on_prod_def demo_admin_world_def Postgres_CreateKey_def pk_insert_def row_ok_def demo_stored_def
      demo_key_row_def EnvLive_def KeyStatusActive_def)

lemma demo_provisions:
  "\<exists>k. provision_endpoint (prod_admin demo_admin_cfg demo_admin_env) demo_provision_rq (demo_admin_world n []) =
     (writeJSON [] 201 (BodyCreatedKey k), demo_admin_world n [(demo_kid, demo_key_row)])"
proof -
  have "rq_Method demo_provision_rq = ''POST''" "header_Get (rq_Header demo_provision_rq) ''X-Provision-Token'' = ''token''"
    "ac_token demo_admin_cfg = ''token''" "ae_entropy demo_admin_env = Some ''entropy''" "ae_env demo_admin_env = demo_env 0"
    by (simp_all add: demo_provision_rq_def demo_rq_def header_Get_def demo_admin_cfg_def demo_admin_env_def)
  then show ?thesis
    by (simp add: provision_endpoint_def method_guard_def handleProvisionKey_def demo_provision_body mint_key_def EnvLive_def Let_def
        demo_admin_auth demo_NewKey prod_keyAdmin_def demo_create) blast
qed

lemma demo_key_lookup:
  "CachedKeyStore_LookupByID Postgres_LookupByID 0 t demo_kid (node_keys (demo_admin_world n [(demo_kid, demo_key_row)])) =
     (Inr demo_stored, snd (KeyCache_Set t demo_stored 0 \<lparr>kc_up = True, kc_keys = (\<lambda>_. None)\<rparr>), \<lparr>pk_up = True, pk_rows = [(demo_kid, demo_key_row)]\<rparr>)"
  by (simp add: CachedKeyStore_LookupByID_def KeyCache_Get_def Postgres_LookupByID_def demo_admin_world_def demo_key_row_def)

lemma demo_admin_authn:
  fixes n :: "PgPolicyStore Provider"
  defines "w \<equiv> demo_admin_world n [(demo_kid, demo_key_row)]"
  obtains w1 where "node_authn demo_admin_cfg demo_admin_env (demo_admin_rq m path) w = (Inr (principal_of demo_stored), w1)"
    "snd (node_keys w1) = \<lparr>pk_up = True, pk_rows = [(demo_kid, demo_key_row)]\<rparr>" "kc_up (fst (node_keys w1))"
    "pw_limiter (aw_prod w1) = pw_limiter demo_pw"
proof -
  let ?now = "pe_now (demo_env 0)"
  let ?ks = "(snd (KeyCache_Set ?now demo_stored 0 \<lparr>kc_up = True, kc_keys = (\<lambda>_. None)\<rparr>), \<lparr>pk_up = True, pk_rows = [(demo_kid, demo_key_row)]\<rparr>)"
  obtain ns where n: "RedisNonce_Remember ?now demo_kid ''nonce-01'' (10 * ns_minute) (pw_nonces (aw_prod w)) = (Inr True, ns)"
    using fresh_nonce_remembered by (fastforce simp: w_def demo_admin_world_def demo_pw_def)
  have "Authenticate demo_mac (pc_auth (ac_prod demo_admin_cfg)) (?now, ?now, ?now) m path demo_header ''{}''
      (node_keys w, pw_nonces (aw_prod w)) = (Inr (principal_of demo_stored), ?ks, ns)"
    by (rule demo_accept) (use n in \<open>simp_all add: demo_admin_auth w_def demo_key_lookup demo_env_def\<close>)
  then have "node_authn demo_admin_cfg demo_admin_env (demo_admin_rq m path) w =
      (Inr (principal_of demo_stored), w\<lparr>aw_prod := (aw_prod w)\<lparr>pw_keys := ?ks, pw_nonces := ns\<rparr>\<rparr>)"
    by (simp add: admin_server_def prod_server_def on_prod_def Let_def demo_admin_auth demo_admin_env_def demo_admin_rq_def demo_rq_def)
  then show ?thesis by (rule that) (simp_all add: KeyCache_Set_def w_def demo_admin_world_def)
qed

lemma demo_admin_admitted:
  fixes n :: "PgPolicyStore Provider"
  assumes "route_method route = None \<or> route_method route = Some m"
  defines "w \<equiv> demo_admin_world n [(demo_kid, demo_key_row)]"
  obtains w2 where "admin_endpoint (admin_server demo_admin_cfg demo_admin_env) a route (demo_admin_rq m path) w =
      admin_handler a route (demo_admin_rq m path) (Some (principal_of demo_stored)) w2"
    "node_authenticates demo_admin_cfg demo_admin_env (demo_admin_rq m path) w = Inr (principal_of demo_stored)"
    "snd (node_keys w2) = \<lparr>pk_up = True, pk_rows = [(demo_kid, demo_key_row)]\<rparr>" "kc_up (fst (node_keys w2))"
proof -
  let ?sv = "admin_server demo_admin_cfg demo_admin_env" and ?rq = "demo_admin_rq m path"
  obtain w1 where w1: "node_authn demo_admin_cfg demo_admin_env ?rq w = (Inr (principal_of demo_stored), w1)"
    "snd (node_keys w1) = \<lparr>pk_up = True, pk_rows = [(demo_kid, demo_key_row)]\<rparr>" "kc_up (fst (node_keys w1))"
    "pw_limiter (aw_prod w1) = pw_limiter demo_pw"
    unfolding w_def by (rule demo_admin_authn)
  have rq: "rq_Body ?rq = Some ''{}''" "rq_Method ?rq = m" by (simp_all add: demo_admin_rq_def demo_rq_def)
  let ?lim = "sv_limiter ?sv (pr_KeyID (principal_of demo_stored)) (TierTable_Resolve (sv_tiers ?sv) (pr_Tier (principal_of demo_stored))) w1"
  obtain lim w2 where lim: "?lim = (lim, w2)" by (cases ?lim)
  then have "\<forall>d. lim = Some d \<longrightarrow> rl_Allowed d"
    by (auto simp: admin_server_def prod_server_def on_prod_def Let_def demo_admin_cfg_def TierTable_Resolve_def principal_of_def
        demo_stored_def w1(4) RedisLimiter_Allow_def rl_window_def rl_allow_def split: prod.splits if_splits)
  then have "rateLimit ?sv h ?rq (Some (principal_of demo_stored)) w1 = h ?rq (Some (principal_of demo_stored)) w2" for h
    using lim by (simp add: rateLimit_def split: option.split)
  then have "admin_endpoint ?sv a route ?rq w = admin_handler a route ?rq (Some (principal_of demo_stored)) w2"
    using assms(1) w1(1) rq by (auto simp: admin_endpoint_def method_guard_def authenticate_def maxBodyBytes_def)
  then show ?thesis using w1 admin_limiter [OF lim] by (intro that [of w2]) (simp_all add: node_authenticates_def)
qed

section \<open>Witnesses\<close>

theorem tenant_isolation_witness:
  "\<exists>resp w'. admin_endpoint (admin_server demo_admin_cfg demo_admin_env) (prod_admin demo_admin_cfg demo_admin_env) RouteKeys
       (demo_admin_rq ''GET'' ''/v1/keys'') (demo_admin_world (NewProvider (NewPgPolicyStore [])) [(demo_kid, demo_key_row)]) = (resp, w') \<and>
     rp_Status resp = 200 \<and> body_of_org demo_crypto (pg_policy_abs (NewPgPolicyStore [])) ''org'' (rp_Body resp)"
proof -
  let ?a = "prod_admin demo_admin_cfg demo_admin_env" and ?w = "demo_admin_world (NewProvider (NewPgPolicyStore [])) [(demo_kid, demo_key_row)]"
  let ?rq = "demo_admin_rq ''GET'' ''/v1/keys''"
  obtain w2 where e: "admin_endpoint (admin_server demo_admin_cfg demo_admin_env) ?a RouteKeys ?rq ?w =
      admin_handler ?a RouteKeys ?rq (Some (principal_of demo_stored)) w2"
    "node_authenticates demo_admin_cfg demo_admin_env ?rq ?w = Inr (principal_of demo_stored)"
    "snd (node_keys w2) = \<lparr>pk_up = True, pk_rows = [(demo_kid, demo_key_row)]\<rparr>"
    by (rule demo_admin_admitted [of RouteKeys "''GET''"]) simp_all
  obtain resp w' where r: "admin_endpoint (admin_server demo_admin_cfg demo_admin_env) ?a RouteKeys ?rq ?w = (resp, w')"
    by (cases "admin_endpoint (admin_server demo_admin_cfg demo_admin_env) ?a RouteKeys ?rq ?w")
  have "rp_Status resp = 200"
    using r unfolding e(1) by (auto simp: handleKeys_def keyAdminReady_def handleListKeys_def orgOf_def prod_keyAdmin_def e(3)
        Postgres_ListKeys_def demo_admin_rq_def demo_rq_def)
  moreover have "aw_node ?w = NewProvider (NewPgPolicyStore [])" by (simp add: demo_admin_world_def)
  moreover note tenant_isolation [OF _ _ demo_admin_auth(2) _ r, of demo_seed "[]", unfolded demo_admin_auth]
  ultimately have "body_of_org demo_crypto (pg_policy_abs (NewPgPolicyStore [])) (pr_OrgID (principal_of demo_stored)) (rp_Body resp)"
    using e(2) demo_collision_free demo_pair by (auto simp: NewProvider_def)
  with r \<open>rp_Status resp = 200\<close> show ?thesis by (auto simp: principal_of_def demo_stored_def)
qed

abbreviation demo_start :: admin_world where
  "demo_start \<equiv> demo_admin_world (NewProvider (NewPgPolicyStore [])) []"

lemma demo_start_keys:
  "key_rows demo_start = []" "kc_keys (fst (node_keys demo_start)) = (\<lambda>_. None)" "kc_up (fst (node_keys demo_start))"
  "pw_nonces (aw_prod demo_start) = \<lparr>rn_up = True, rn_keys = (\<lambda>_. None)\<rparr>"
  by (simp_all add: demo_admin_world_def demo_pw_def)

theorem provisioned_key_works_witness:
  "\<exists>k w'. provision_endpoint (prod_admin demo_admin_cfg demo_admin_env) demo_provision_rq demo_start =
       (writeJSON [] 201 (BodyCreatedKey k), w') \<and>
     (\<exists>rq prin. node_authenticates demo_admin_cfg demo_admin_env rq w' = Inr prin \<and> pr_KeyID prin = kv_ID k \<and> pr_OrgID prin = ''org'')"
proof -
  obtain k where p: "provision_endpoint (prod_admin demo_admin_cfg demo_admin_env) demo_provision_rq demo_start =
      (writeJSON [] 201 (BodyCreatedKey k), demo_admin_world (NewProvider (NewPgPolicyStore [])) [(demo_kid, demo_key_row)])"
    using demo_provisions by blast
  let ?rq = "(demo_rq ''GET'' ''/v1/keys'')\<lparr>rq_Header := client_header demo_mac (kv_Secret k) ''GET'' ''/v1/keys'' 0 ''nonce-01'' ''{}''\<rparr>"
  have mac: "\<forall>k m. mc_HMAC demo_mac k m \<noteq> []" by (simp add: demo_mac_def)
  have now: "pe_now (ae_env demo_admin_env) = time_of_Unix 0" by (simp add: demo_admin_env_def demo_env_def demo_epoch)
  from provisioned_key_works [OF demo_admin_auth(2,3) _ _ demo_start_keys(1,2) rtranclp.rtrancl_refl p _ _ _ demo_start_keys(3),
      of "''entropy''", unfolded demo_admin_auth] mac
  have "\<forall>env' rq' ts nonce. rq_Header rq' = client_header demo_mac (kv_Secret k) (rq_Method rq') (rq_Path rq') ts nonce
          (case rq_Body rq' of Some body \<Rightarrow> body | None \<Rightarrow> []) \<longrightarrow> 8 \<le> length nonce \<longrightarrow> length nonce \<le> 128 \<longrightarrow> in_int64 ts \<longrightarrow>
        \<bar>pe_now (ae_env env') - time_of_Unix ts\<bar> \<le> 5 * ns_minute \<longrightarrow>
        node_authenticates demo_admin_cfg env' rq' (demo_admin_world (NewProvider (NewPgPolicyStore [])) [(demo_kid, demo_key_row)]) =
          Inr \<lparr>pr_OrgID = ''org'', pr_KeyID = kv_ID k, pr_Tier = ''pro'', pr_Env = ''live'', pr_Shadow = True\<rparr>"
    by (simp add: demo_start_keys(4) demo_admin_env_def demo_provision_body)
  from this [rule_format, of ?rq 0 "''nonce-01''" demo_admin_env] now
  have "node_authenticates demo_admin_cfg demo_admin_env ?rq (demo_admin_world (NewProvider (NewPgPolicyStore [])) [(demo_kid, demo_key_row)]) =
      Inr \<lparr>pr_OrgID = ''org'', pr_KeyID = kv_ID k, pr_Tier = ''pro'', pr_Env = ''live'', pr_Shadow = True\<rparr>"
    by (simp add: demo_rq_def in_int64_def)
  with p show ?thesis by (intro exI conjI) (assumption, assumption, simp, simp)
qed


end
