(* ===== verification/Metrics.thy ===== *)
theory Metrics
  imports Go_Std "HOL-Library.Log_Nat" "HOL-Library.List_Lexorder" "HOL-Library.Char_ord"
begin

text \<open>
  \<open>internal/metrics\<close>: the registry of operational counters and its text exposition. The
  counters are \<open>int64\<close> and wrap; the latency sum is a \<open>float64\<close> that only ever holds integers, so it
  is modelled by the integer it holds, rounded to 53 bits after every addition.
\<close>

section \<open>Floating-point integers\<close>

text \<open>The \<open>float64\<close> nearest to an integer, ties to even.\<close>

definition f64_of_int :: "int \<Rightarrow> int" where
  "f64_of_int x =
     (let m = nat \<bar>x\<bar> in
      if m < 2 ^ 53 then x
      else let e = floorlog 2 m - 53; q = m div 2 ^ e; r = m mod 2 ^ e;
               q' = (if 2 * r > 2 ^ e \<or> 2 * r = 2 ^ e \<and> odd q then q + 1 else q)
           in sgn x * int (q' * 2 ^ e))"

lemma f64_exact: "\<bar>x\<bar> < 2 ^ 53 \<Longrightarrow> f64_of_int x = x"
  by (simp add: f64_of_int_def Let_def nat_less_iff)

text \<open>\<open>%g\<close> of an integer below \<open>2^53\<close>: its digits without trailing zeros, in exponent form from a
  million on.\<close>

definition fmt_g :: "int \<Rightarrow> string" where
  "fmt_g x =
     (let ds = nat_str (nat \<bar>x\<bar>); e = length ds - 1;
          digs = rev (dropWhile (\<lambda>c. c = CHR ''0'') (rev ds));
          sg = (if x < 0 then ''-'' else [])
      in if e < 6 then sg @ ds
         else sg @ take 1 digs @ (if length digs > 1 then ''.'' @ drop 1 digs else [])
                @ ''e+'' @ (if e < 10 then ''0'' else []) @ nat_str e)"

section \<open>The registry\<close>

definition latencyBucketsMs :: "int list" where
  "latencyBucketsMs = [1, 2, 5, 10, 20, 50, 100, 200, 500, 1000]"

record Metrics =
  mt_version :: string
  mt_decisions :: "(string \<times> int) list"
  mt_rateLimited :: int
  mt_bucketHits :: "int list"
  mt_latencySum :: int
  mt_latencyN :: int

definition NewMetrics :: "string \<Rightarrow> Metrics" where
  "NewMetrics version = \<lparr>mt_version = version, mt_decisions = [], mt_rateLimited = 0,
     mt_bucketHits = replicate (length latencyBucketsMs) 0, mt_latencySum = 0, mt_latencyN = 0\<rparr>"

definition mt_count :: "Metrics \<Rightarrow> string \<Rightarrow> int" where
  "mt_count m v = (case map_of (mt_decisions m) v of Some n \<Rightarrow> n | None \<Rightarrow> 0)"

definition RecordDecision :: "string \<Rightarrow> int \<Rightarrow> Metrics \<Rightarrow> Metrics" where
  "RecordDecision verdict latencyMs m =
     (let vd = (if verdict = [] then ''UNKNOWN'' else verdict); v = f64_of_int latencyMs in
      m\<lparr>mt_decisions := alist_put vd (wrap64 (mt_count m vd + 1)) (mt_decisions m),
        mt_latencySum := f64_of_int (mt_latencySum m + v),
        mt_latencyN := wrap64 (mt_latencyN m + 1),
        mt_bucketHits := map (\<lambda>(ub, n). if v \<le> ub then wrap64 (n + 1) else n) (zip latencyBucketsMs (mt_bucketHits m))\<rparr>)"

definition RecordRateLimited :: "Metrics \<Rightarrow> Metrics" where
  "RecordRateLimited m = m\<lparr>mt_rateLimited := wrap64 (mt_rateLimited m + 1)\<rparr>"

text \<open>The exposition, one string per line. The formatting of a sum of \<open>2^53\<close> or more is an argument.\<close>

definition line :: "string \<Rightarrow> string" where "line s = s @ [CHR 0x0A]"

definition WriteText :: "(int \<Rightarrow> string) \<Rightarrow> Metrics \<Rightarrow> string" where
  "WriteText fmt_big m =
     concat (map line
       ([''# HELP authz_build_info Build metadata.'',
         ''# TYPE authz_build_info gauge'',
         ''authz_build_info{version='' @ quote (mt_version m) @ ''} 1'',
         ''# HELP authz_decisions_total Decisions produced, by verdict.'',
         ''# TYPE authz_decisions_total counter''] @
        map (\<lambda>v. ''authz_decisions_total{verdict='' @ quote v @ ''} '' @ FormatInt (mt_count m v))
          (sort (map fst (mt_decisions m))) @
        [''# HELP authz_rate_limited_total Requests rejected by the rate limiter.'',
         ''# TYPE authz_rate_limited_total counter'',
         ''authz_rate_limited_total '' @ FormatInt (mt_rateLimited m),
         ''# HELP authz_decision_latency_ms Decision evaluation latency in milliseconds.'',
         ''# TYPE authz_decision_latency_ms histogram''] @
        map (\<lambda>(ub, n). ''authz_decision_latency_ms_bucket{le='' @ [CHR 0x22] @ fmt_g ub @ [CHR 0x22] @ ''} '' @ FormatInt n)
          (zip latencyBucketsMs (mt_bucketHits m)) @
        [''authz_decision_latency_ms_bucket{le='' @ [CHR 0x22] @ ''+Inf'' @ [CHR 0x22] @ ''} '' @ FormatInt (mt_latencyN m),
         ''authz_decision_latency_ms_sum '' @
           (if \<bar>mt_latencySum m\<bar> < 2 ^ 53 then fmt_g (mt_latencySum m) else fmt_big (mt_latencySum m)),
         ''authz_decision_latency_ms_count '' @ FormatInt (mt_latencyN m)]))"

section \<open>Sequences of events\<close>

datatype metric_event = Decided string int | Limited

primrec metric_step :: "metric_event \<Rightarrow> Metrics \<Rightarrow> Metrics" where
  "metric_step (Decided v l) = RecordDecision v l"
| "metric_step Limited = RecordRateLimited"

text \<open>The registry after a sequence of events, the oldest first.\<close>

definition metrics_after :: "string \<Rightarrow> metric_event list \<Rightarrow> Metrics" where
  "metrics_after version evs = fold metric_step evs (NewMetrics version)"

fun latencies :: "metric_event list \<Rightarrow> int list" where
  "latencies [] = []"
| "latencies (Decided v l # evs) = l # latencies evs"
| "latencies (Limited # evs) = latencies evs"

fun verdicts_of :: "metric_event list \<Rightarrow> string list" where
  "verdicts_of [] = []"
| "verdicts_of (Decided v l # evs) = (if v = [] then ''UNKNOWN'' else v) # verdicts_of evs"
| "verdicts_of (Limited # evs) = verdicts_of evs"

lemma latencies_append [simp]: "latencies (xs @ ys) = latencies xs @ latencies ys"
  by (induction xs rule: latencies.induct) simp_all

lemma verdicts_of_append [simp]: "verdicts_of (xs @ ys) = verdicts_of xs @ verdicts_of ys"
  by (induction xs rule: verdicts_of.induct) simp_all

lemma lengths_of_events:
  "length (latencies evs) \<le> length evs" "count_list evs Limited \<le> length evs" "length (verdicts_of evs) \<le> length evs"
  by (induction evs rule: latencies.induct) auto

lemma length_filter_snoc: "length (filter P (xs @ [x])) = length (filter P xs) + (if P x then 1 else 0)"
  by simp

text \<open>What the registry holds, as a function of the events.\<close>

definition counts_events :: "metric_event list \<Rightarrow> Metrics \<Rightarrow> bool" where
  "counts_events evs m \<longleftrightarrow>
     (\<forall>v. mt_count m v = int (count_list (verdicts_of evs) v)) \<and>
     mt_rateLimited m = int (count_list evs Limited) \<and>
     mt_latencyN m = int (length (latencies evs)) \<and>
     mt_latencySum m = sum_list (latencies evs) \<and>
     mt_bucketHits m = map (\<lambda>ub. int (length (filter (\<lambda>l. l \<le> ub) (latencies evs)))) latencyBucketsMs"

text \<open>The sums and counts that fit their types.\<close>

definition metrics_fit :: "metric_event list \<Rightarrow> bool" where
  "metrics_fit evs \<longleftrightarrow> length evs < 2 ^ 63 \<and> (\<forall>n \<le> length evs. \<bar>sum_list (latencies (take n evs))\<bar> < 2 ^ 53) \<and>
     (\<forall>l \<in> set (latencies evs). \<bar>l\<bar> < 2 ^ 53)"

lemma wrap64_succ: "n < 2 ^ 63 - 1 \<Longrightarrow> wrap64 (int n + 1) = int n + 1"
  by (rule wrap64_nonneg_id) auto

lemma metrics_fit_snoc: "metrics_fit (evs @ [e]) \<Longrightarrow> metrics_fit evs"
  unfolding metrics_fit_def
proof (elim conjE, intro conjI allI impI)
  fix n
  assume all: "\<forall>n \<le> length (evs @ [e]). \<bar>sum_list (latencies (take n (evs @ [e])))\<bar> < 2 ^ 53" and n: "n \<le> length evs"
  from n have "\<bar>sum_list (latencies (take n (evs @ [e])))\<bar> < 2 ^ 53" by (intro all [rule_format]) simp
  with n show "\<bar>sum_list (latencies (take n evs))\<bar> < 2 ^ 53" by simp
qed auto

lemma metrics_after_counts: "metrics_fit evs \<Longrightarrow> counts_events evs (metrics_after version evs)"
proof (induction evs rule: rev_induct)
  case Nil
  show ?case by (simp add: counts_events_def metrics_after_def NewMetrics_def mt_count_def latencyBucketsMs_def)
next
  case (snoc e evs)
  note fit = snoc.prems and IH = snoc.IH [OF metrics_fit_snoc [OF snoc.prems]]
  let ?m = "metrics_after version evs"
  have len: "length evs < 2 ^ 63 - 1" using fit by (simp add: metrics_fit_def)
  note le = lengths_of_events [of evs]
  have step: "metrics_after version (evs @ [x]) = metric_step x ?m" for x by (simp add: metrics_after_def)
  show ?case
  proof (cases e)
    case Limited
    have "wrap64 (int (count_list evs Limited) + 1) = int (count_list evs Limited) + 1" using len le by (intro wrap64_succ) linarith
    with IH show ?thesis unfolding Limited step by (simp add: counts_events_def RecordRateLimited_def mt_count_def)
  next
    case (Decided v l)
    have l: "f64_of_int l = l" using fit by (intro f64_exact) (simp add: metrics_fit_def Decided)
    have "\<bar>sum_list (latencies (take (length (evs @ [e])) (evs @ [e])))\<bar> < 2 ^ 53" using fit by (simp only: metrics_fit_def order_refl)
    then have total: "f64_of_int (sum_list (latencies evs) + l) = sum_list (latencies evs) + l" by (intro f64_exact) (simp add: Decided)
    have bound: "count_list (verdicts_of evs) x \<le> length evs" for x
      using le count_le_length [of "verdicts_of evs" x] by linarith
    have cnt: "wrap64 (int (count_list (verdicts_of evs) x) + 1) = int (count_list (verdicts_of evs) x) + 1" for x
      using len bound [of x] by (intro wrap64_succ) linarith
    have n: "wrap64 (int (length (latencies evs)) + 1) = int (length (latencies evs)) + 1" using len le by (intro wrap64_succ) linarith
    have fbound: "length (filter P (latencies evs)) \<le> length evs" for P
      using le length_filter_le [of P "latencies evs"] by linarith
    have hits: "wrap64 (int (length (filter P (latencies evs))) + 1) = int (length (filter P (latencies evs))) + 1" for P
      using len fbound [of P] by (intro wrap64_succ) linarith
    show ?thesis
      using IH unfolding Decided step
      by (simp add: counts_events_def RecordDecision_def Let_def l total cnt n hits mt_count_def latencyBucketsMs_def)
  qed
qed

section \<open>Properties\<close>

text \<open>C21: the exposition is exact. After any sequence of decisions and rejected requests whose latencies
  sum up below \<open>2^53\<close>, the counter of a verdict is the number of decisions with it, the counter of
  rejections theirs, and the histogram is cumulative: a bucket holds the number of latencies at most
  its bound, so the buckets never decrease and the last is at most the count; the sum is the sum of
  the latencies.\<close>

theorem metrics_exact:
  assumes "metrics_fit evs"
  shows "counts_events evs (metrics_after version evs) \<and> sorted (mt_bucketHits (metrics_after version evs) @ [mt_latencyN (metrics_after version evs)])"
proof -
  have c: "counts_events evs (metrics_after version evs)" using assms by (rule metrics_after_counts)
  have mono: "length (filter (\<lambda>l. l \<le> a) xs) \<le> length (filter (\<lambda>l. l \<le> b) xs)" if "a \<le> b" for a b :: int and xs
    using that by (induction xs) auto
  with c show ?thesis by (simp add: counts_events_def latencyBucketsMs_def)
qed

definition demo_events :: "metric_event list" where
  "demo_events = [Decided ''APPROVE'' 3, Limited, Decided [] 700, Decided ''DENY'' 12]"

theorem metrics_exact_witness:
  "mt_bucketHits (metrics_after ''v1'' demo_events) = [0, 0, 1, 1, 2, 2, 2, 2, 2, 3] \<and>
   mt_latencySum (metrics_after ''v1'' demo_events) = 715 \<and> mt_count (metrics_after ''v1'' demo_events) ''UNKNOWN'' = 1"
proof -
  have "metrics_fit demo_events"
    by (auto simp: metrics_fit_def demo_events_def take_Cons' split: if_splits)
  from metrics_exact [OF this, of "''v1''"] show ?thesis
    by (simp add: counts_events_def demo_events_def latencyBucketsMs_def)
qed

end
