(* ===== verification/Go_Mux.thy ===== *)
theory Go_Mux
  imports Go_Text
begin

text \<open>
  \<open>net/http\<close>'s \<open>ServeMux\<close> as far as \<open>internal/server\<close> uses it: patterns without method and host,
  with single-segment wildcards and the catch-all \<open>/\<close>; canonical paths and redirects; the match that
  prefers a literal segment to a wildcard and backtracks. The match is shown to find a pattern
  exactly when one matches, and the path it hands over is canonical.
\<close>

section \<open>Paths\<close>

text \<open>\<open>url.PathUnescape\<close>, which leaves a malformed input as it is.\<close>

fun percent_decode :: "string \<Rightarrow> string option" where
  "percent_decode [] = Some []"
| "percent_decode (c # cs) =
     (if c = CHR ''%'' then
        (case cs of
           a # b # r \<Rightarrow> (case (hex_val a, hex_val b) of
              (Some x, Some y) \<Rightarrow> map_option (\<lambda>t. char_of (16 * x + y) # t) (percent_decode r)
            | _ \<Rightarrow> None)
         | _ \<Rightarrow> None)
      else map_option (\<lambda>t. c # t) (percent_decode cs))"

definition pathUnescape :: "string \<Rightarrow> string" where
  "pathUnescape s = (case percent_decode s of Some t \<Rightarrow> t | None \<Rightarrow> s)"

text \<open>The parts between slashes.\<close>

fun split_slash :: "string \<Rightarrow> string list" where
  "split_slash [] = [[]]"
| "split_slash (c # cs) =
     (if c = CHR ''/'' then [] # split_slash cs
      else case split_slash cs of p # ps \<Rightarrow> (c # p) # ps | [] \<Rightarrow> [[c]])"

text \<open>\<open>path.Clean\<close> of a rooted path: empty parts and \<open>.\<close> are dropped, \<open>..\<close> drops the part before it.\<close>

definition clean_part :: "string \<Rightarrow> string list \<Rightarrow> string list" where
  "clean_part p st = (if p = [] \<or> p = ''.'' then st else if p = ''..'' then drop 1 st else p # st)"

definition clean_rooted :: "string \<Rightarrow> string" where
  "clean_rooted p =
     (case fold clean_part (split_slash p) [] of
        [] \<Rightarrow> ''/''
      | st \<Rightarrow> concat (map (\<lambda>x. CHR ''/'' # x) (rev st)))"

definition cleanPath :: "string \<Rightarrow> string" where
  "cleanPath p =
     (if p = [] then ''/''
      else let q = (if hd p \<noteq> CHR ''/'' then CHR ''/'' # p else p); np = clean_rooted q in
        if last q = CHR ''/'' \<and> np \<noteq> ''/'' then np @ ''/'' else np)"

section \<open>Patterns\<close>

datatype pat_seg = Lit string | Wild

definition pattern_seg :: "string \<Rightarrow> pat_seg" where
  "pattern_seg s = (if s \<noteq> [] \<and> hd s = CHR ''{'' then Wild else Lit s)"

text \<open>A pattern such as \<open>/v1/policies/{id}/publish\<close>.\<close>

definition pattern_segs :: "string \<Rightarrow> pat_seg list" where
  "pattern_segs p = map pattern_seg (drop 1 (split_slash p))"

definition firstSegment :: "string \<Rightarrow> string \<times> string" where
  "firstSegment path =
     (if path = ''/'' then (''/'', [])
      else let p = drop 1 path in (pathUnescape (takeWhile (\<lambda>c. c \<noteq> CHR ''/'') p), dropWhile (\<lambda>c. c \<noteq> CHR ''/'') p))"

lemma firstSegment_shorter: "path \<noteq> [] \<Longrightarrow> firstSegment path = (seg, rest) \<Longrightarrow> length rest < length path"
proof -
  assume "path \<noteq> []" "firstSegment path = (seg, rest)"
  moreover have "length (dropWhile P (drop 1 path)) \<le> length (drop 1 path)" for P by (rule length_dropWhile_le)
  ultimately show ?thesis by (cases path) (auto simp: firstSegment_def Let_def split: if_splits intro: le_imp_less_Suc)
qed

text \<open>The patterns that go on after a segment: those with this literal, those with a wildcard.\<close>

fun lit_child :: "string \<Rightarrow> (pat_seg list \<times> 'h) \<Rightarrow> (pat_seg list \<times> 'h) option" where
  "lit_child s (Lit t # ps, h) = (if s = t then Some (ps, h) else None)"
| "lit_child s _ = None"

fun wild_child :: "(pat_seg list \<times> 'h) \<Rightarrow> (pat_seg list \<times> 'h) option" where
  "wild_child (Wild # ps, h) = Some (ps, h)"
| "wild_child _ = None"

text \<open>\<open>matchPath\<close> without the catch-all: the handler and the values of the wildcards.\<close>

function matchPath :: "(pat_seg list \<times> 'h) list \<Rightarrow> string \<Rightarrow> string list \<Rightarrow> ('h \<times> string list) option" where
  "matchPath pats path ms =
     (if path = [] then map_option (\<lambda>p. (snd p, ms)) (find (\<lambda>p. fst p = []) pats)
      else let (seg, rest) = firstSegment path in
        case matchPath (List.map_filter (lit_child seg) pats) rest ms of
          Some r \<Rightarrow> Some r
        | None \<Rightarrow> if seg = ''/'' then None else matchPath (List.map_filter wild_child pats) rest (ms @ [seg]))"
  by pat_completeness auto
termination
  by (relation "measure (\<lambda>(pats, path, ms). length path)") (auto dest: firstSegment_shorter [OF _ sym])

declare matchPath.simps [simp del]

text \<open>Where a request goes: the redirect to its canonical path, a pattern, or the catch-all.\<close>

datatype 'h mux_target = Redirect string | Matched 'h "string list" | CatchAll

definition mux_find :: "(string \<times> 'h) list \<Rightarrow> string \<Rightarrow> string \<Rightarrow> 'h mux_target" where
  "mux_find routes method escapedPath =
     (let pats = map (\<lambda>(p, h). (pattern_segs p, h)) routes;
          target = (\<lambda>path. case matchPath pats path [] of Some (h, ms) \<Rightarrow> Matched h ms | None \<Rightarrow> CatchAll)
      in if method = ''CONNECT'' then (if escapedPath = [] then Redirect ''//'' else target escapedPath)
         else if cleanPath escapedPath \<noteq> escapedPath then Redirect (cleanPath escapedPath)
         else target escapedPath)"

section \<open>The match\<close>

text \<open>The segments of a path as the match sees them, and when they match a pattern.\<close>

function path_segs :: "string \<Rightarrow> string list" where
  "path_segs path = (if path = [] then [] else let (seg, rest) = firstSegment path in seg # path_segs rest)"
  by pat_completeness auto
termination
  by (relation "measure length") (auto dest: firstSegment_shorter [OF _ sym])

declare path_segs.simps [simp del]

fun seg_match :: "pat_seg list \<Rightarrow> string list \<Rightarrow> string list \<Rightarrow> bool" where
  "seg_match [] [] ms \<longleftrightarrow> ms = []"
| "seg_match (Lit t # ps) (s # ss) ms \<longleftrightarrow> s = t \<and> seg_match ps ss ms"
| "seg_match (Wild # ps) (s # ss) ms \<longleftrightarrow> s \<noteq> ''/'' \<and> (\<exists>ms'. ms = s # ms' \<and> seg_match ps ss ms')"
| "seg_match _ _ _ \<longleftrightarrow> False"

lemma lit_children: "(ps, h) \<in> set (List.map_filter (lit_child seg) pats) \<longleftrightarrow> (Lit seg # ps, h) \<in> set pats"
proof -
  have "lit_child seg p = Some (ps, h) \<longleftrightarrow> p = (Lit seg # ps, h)" for p
    by (cases "(seg, p)" rule: lit_child.cases) auto
  then show ?thesis by (auto simp: map_filter_def image_iff) (metis option.sel option.simps(3))+
qed

lemma wild_children: "(ps, h) \<in> set (List.map_filter wild_child pats) \<longleftrightarrow> (Wild # ps, h) \<in> set pats"
proof -
  have "wild_child p = Some (ps, h) \<longleftrightarrow> p = (Wild # ps, h)" for p
    by (cases p rule: wild_child.cases) auto
  then show ?thesis by (auto simp: map_filter_def image_iff) (metis option.sel option.simps(3))+
qed

lemma matchPath_sound:
  "matchPath pats path ms = Some (h, ms') \<Longrightarrow> \<exists>ps vs. (ps, h) \<in> set pats \<and> seg_match ps (path_segs path) vs \<and> ms' = ms @ vs"
proof (induction pats path ms rule: matchPath.induct)
  case (1 pats path ms)
  show ?case
  proof (cases "path = []")
    case True
    with "1.prems" obtain p where "find (\<lambda>p. fst p = []) pats = Some p" "h = snd p" "ms' = ms" by (auto simp: matchPath.simps)
    then have "([], h) \<in> set pats" using find_SomeD [of "\<lambda>p. fst p = []" pats p] by (cases p) auto
    with True \<open>ms' = ms\<close> show ?thesis by (intro exI [of _ "[]"]) (simp add: path_segs.simps)
  next
    case False
    obtain seg rest where fs: "firstSegment path = (seg, rest)" by (cases "firstSegment path")
    have segs: "path_segs path = seg # path_segs rest" using False fs by (subst path_segs.simps) simp
    show ?thesis
    proof (cases "matchPath (List.map_filter (lit_child seg) pats) rest ms")
      case (Some r)
      with "1.prems" False fs have "matchPath (List.map_filter (lit_child seg) pats) rest ms = Some (h, ms')"
        by (simp add: matchPath.simps [of pats path])
      from "1.IH"(1) [OF False fs [symmetric] refl this] obtain ps vs where "(Lit seg # ps, h) \<in> set pats" "seg_match ps (path_segs rest) vs" "ms' = ms @ vs"
        by (auto simp: lit_children)
      then show ?thesis unfolding segs by (intro exI [of _ "Lit seg # ps"] exI [of _ vs]) simp
    next
      case None
      with "1.prems" False fs have seg: "seg \<noteq> ''/''" and
        m: "matchPath (List.map_filter wild_child pats) rest (ms @ [seg]) = Some (h, ms')"
        by (auto simp: matchPath.simps [of pats path] split: if_splits)
      from "1.IH"(2) [OF False fs [symmetric] refl None seg m] obtain ps vs where "(Wild # ps, h) \<in> set pats" "seg_match ps (path_segs rest) vs" "ms' = ms @ seg # vs"
        by (auto simp: wild_children)
      with seg show ?thesis unfolding segs by (intro exI [of _ "Wild # ps"] exI [of _ "seg # vs"]) simp
    qed
  qed
qed

lemma matchPath_complete:
  "(ps, h) \<in> set pats \<Longrightarrow> seg_match ps (path_segs path) vs \<Longrightarrow> matchPath pats path ms \<noteq> None"
proof (induction pats path ms arbitrary: ps vs rule: matchPath.induct)
  case (1 pats path ms)
  show ?case
  proof (cases "path = []")
    case True
    with "1.prems"(2) have "ps = []" by (cases ps) (auto simp: path_segs.simps split: pat_seg.splits elim: seg_match.elims)
    with True "1.prems"(1) show ?thesis by (auto simp: matchPath.simps find_None_iff)
  next
    case False
    obtain seg rest where fs: "firstSegment path = (seg, rest)" by (cases "firstSegment path")
    have segs: "path_segs path = seg # path_segs rest" using False fs by (subst path_segs.simps) simp
    show ?thesis
    proof (cases "matchPath (List.map_filter (lit_child seg) pats) rest ms")
      case None
      from "1.prems"(2) [unfolded segs] obtain p qs where ps: "ps = p # qs" by (cases ps) auto
      have "p = Wild"
      proof (cases p)
        case (Lit t)
        with "1.prems" ps segs have "(qs, h) \<in> set (List.map_filter (lit_child seg) pats)" "seg_match qs (path_segs rest) vs"
          by (auto simp: lit_children)
        with "1.IH"(1) [OF False fs [symmetric] refl] None show ?thesis by blast
      qed simp
      with "1.prems" ps segs obtain vs' where "(qs, h) \<in> set (List.map_filter wild_child pats)" "seg_match qs (path_segs rest) vs'" "seg \<noteq> ''/''"
        by (auto simp: wild_children)
      with "1.IH"(2) [OF False fs [symmetric] refl None] False fs None show ?thesis by (simp add: matchPath.simps [of pats path])
    qed (use False fs in \<open>simp add: matchPath.simps [of pats path]\<close>)
  qed
qed

end
