(* ===== verification/Server_Mux.thy ===== *)
theory Server_Mux
  imports Server_Keys Metrics Go_Mux
begin

text \<open>
  \<open>internal/server\<close>, the whole handler: \<open>Handler\<close> with its routes and middleware (\<open>server.go\<close>,
  \<open>middleware.go\<close>), health and metrics. Every request that reaches the process goes through
  \<open>serve\<close>. Shown: only authenticated callers, or the holder of the provisioning token, can change
  or read anything that is protected, and every answer carries the request id and the security
  headers.
\<close>

section \<open>The wire\<close>

text \<open>A request as it arrives: with the request line's target and the escaped path.\<close>

record raw_request = http_request +
  rr_RequestURI :: string
  rr_EscapedPath :: string

record BuildInfo =
  bi_Version :: string
  bi_Commit :: string
  bi_Date :: string

record healthResponse =
  hl_Status :: string
  hl_Build :: BuildInfo
  hl_Checks :: "(string \<times> string) list"
  hl_Time :: string

text \<open>What an answer carries: a body of the API, a health report, text, the target of a redirect, or
  nothing.\<close>

datatype wire_body = Api resp_body | Health healthResponse | Text string | Moved string | NoBody

record wire_response =
  wr_Status :: int
  wr_Header :: "(string \<times> string) list"
  wr_Body :: wire_body

definition of_api :: "http_response \<Rightarrow> wire_response" where
  "of_api resp = \<lparr>wr_Status = rp_Status resp, wr_Header = rp_Header resp, wr_Body = Api (rp_Body resp)\<rparr>"

text \<open>The value of a response header: \<open>Header().Set\<close> replaces, so the last one counts.\<close>

definition wr_header :: "wire_response \<Rightarrow> string \<Rightarrow> string option" where
  "wr_header resp k = map_of (rev (wr_Header resp)) k"

text \<open>Headers that a middleware sets before the inner handler runs.\<close>

definition with_headers :: "(string \<times> string) list \<Rightarrow> wire_response \<Rightarrow> wire_response" where
  "with_headers hdr resp = resp\<lparr>wr_Header := hdr @ wr_Header resp\<rparr>"

section \<open>Health, metrics and the catch-all\<close>

text \<open>\<open>handleHealth\<close>: the outcome of each check, \<open>None\<close> for a store that answers.\<close>

definition handleHealth :: "BuildInfo \<Rightarrow> gotime \<Rightarrow> (string \<times> string option) list \<Rightarrow> wire_response" where
  "handleHealth bld now checks =
     (let down = list_ex (\<lambda>(_, e). e \<noteq> None) checks in
      \<lparr>wr_Status = (if down then 503 else 200), wr_Header = [(''Content-Type'', ''application/json'')],
       wr_Body = Health \<lparr>hl_Status = (if down then ''degraded'' else ''ok''), hl_Build = bld,
         hl_Checks = fold (\<lambda>(name, e) m. alist_put name (case e of None \<Rightarrow> ''ok'' | Some msg \<Rightarrow> ''error: '' @ msg) m) checks [],
         hl_Time = format_RFC3339 now\<rparr>\<rparr>)"

definition handleMetrics :: "(int \<Rightarrow> string) \<Rightarrow> Metrics option \<Rightarrow> http_request \<Rightarrow> wire_response" where
  "handleMetrics fmt_big metrics rq =
     (case metrics of
        None \<Rightarrow> of_api (writeProblem [] rq 503 codeInternal ''Metrics unavailable'' ''Metrics are not enabled on this instance.'' [])
      | Some m \<Rightarrow> \<lparr>wr_Status = 200,
          wr_Header = [(''Content-Type'', ''text/plain; version=0.0.4; charset=utf-8''), (''Cache-Control'', ''no-store'')],
          wr_Body = Text (WriteText fmt_big m)\<rparr>)"

definition handleNotFound :: "http_request \<Rightarrow> wire_response" where
  "handleNotFound rq = of_api (writeProblem [] rq 404 codeNotFound ''Not found'' ''The requested resource does not exist.'' [])"

section \<open>Routes\<close>

datatype route = RtAuthorize | RtCapture | RtVoid | RtGetDecision | RtListDecisions | RtAdmin admin_route
  | RtProvision | RtKeysPublic | RtHealth | RtMetrics

text \<open>The table of \<open>Handler\<close>; the control-plane routes exist only when their services are wired.\<close>

definition routes :: "'w Admin \<Rightarrow> (string \<times> route) list" where
  "routes a =
     [(''/v1/authorize'', RtAuthorize), (''/v1/authorize/{id}/capture'', RtCapture), (''/v1/authorize/{id}/void'', RtVoid),
      (''/v1/decisions/{id}'', RtGetDecision), (''/v1/decisions'', RtListDecisions)] @
     (if ad_policySvc a \<noteq> None
      then [(''/v1/policies'', RtAdmin RoutePolicies), (''/v1/policies/active'', RtAdmin RouteActive),
            (''/v1/policies/{id}'', RtAdmin RoutePolicy), (''/v1/policies/{id}/publish'', RtAdmin RoutePublish),
            (''/v1/policies/{id}/rollback'', RtAdmin RouteRollback), (''/v1/policies/{id}/versions'', RtAdmin RouteVersions),
            (''/v1/policies/{id}/simulate'', RtAdmin RouteSimulate)]
      else []) @
     (if ad_keyAdmin a \<noteq> None then [(''/v1/keys'', RtAdmin RouteKeys), (''/v1/keys/{id}/revoke'', RtAdmin RouteRevoke)] else []) @
     (if ad_provisionToken a \<noteq> [] \<and> ad_keyAdmin a \<noteq> None then [(''/v1/provision/keys'', RtProvision)] else []) @
     [(''/v1/keys/public'', RtKeysPublic), (''/v1/health'', RtHealth), (''/health'', RtHealth), (''/metrics'', RtMetrics)]"

text \<open>What the handlers read besides the world.\<close>

record serve_env =
  se_build :: BuildInfo
  se_checks :: "(string \<times> string option) list"
  se_metrics :: "Metrics option"
  se_fmt_big :: "int \<Rightarrow> string"
  se_decode :: "string \<Rightarrow> decode_result"
  se_crypto :: crypto
  se_ulid :: string

definition plain_endpoint :: "string \<Rightarrow> (http_request \<Rightarrow> wire_response) \<Rightarrow> http_request \<Rightarrow> wire_response" where
  "plain_endpoint allowed h rq =
     (if rq_Method rq \<noteq> allowed then of_api (fst (method_guard allowed (\<lambda>rq p w. (noPrincipal rq, w)) rq None ())) else h rq)"

definition api :: "http_response \<times> 'w \<Rightarrow> wire_response \<times> 'w" where
  "api res = (of_api (fst res), snd res)"

fun dispatch :: "'w Server \<Rightarrow> 'w Admin \<Rightarrow> serve_env \<Rightarrow> route \<Rightarrow> http_request \<Rightarrow> 'w \<Rightarrow> wire_response \<times> 'w" where
  "dispatch sv a e RtAuthorize rq w = api (authorize_endpoint sv (se_decode e) rq w)"
| "dispatch sv a e RtCapture rq w = api (hold_endpoint sv True rq w)"
| "dispatch sv a e RtVoid rq w = api (hold_endpoint sv False rq w)"
| "dispatch sv a e RtGetDecision rq w = api (get_endpoint (se_crypto e) sv rq w)"
| "dispatch sv a e RtListDecisions rq w = api (list_endpoint (se_crypto e) sv rq w)"
| "dispatch sv a e (RtAdmin r) rq w = api (admin_endpoint sv a r rq w)"
| "dispatch sv a e RtProvision rq w = api (provision_endpoint a rq w)"
| "dispatch sv a e RtKeysPublic rq w = api (keys_public_endpoint a rq w)"
| "dispatch sv a e RtHealth rq w = (plain_endpoint ''GET'' (\<lambda>_. handleHealth (se_build e) (sv_now sv) (se_checks e)) rq, w)"
| "dispatch sv a e RtMetrics rq w = (plain_endpoint ''GET'' (handleMetrics (se_fmt_big e) (se_metrics e)) rq, w)"

text \<open>\<open>ServeMux.ServeHTTP\<close>. \<open>PathValue\<close> is the value of the only wildcard a pattern has.\<close>

definition mux_serve :: "'w Server \<Rightarrow> 'w Admin \<Rightarrow> serve_env \<Rightarrow> raw_request \<Rightarrow> 'w \<Rightarrow> wire_response \<times> 'w" where
  "mux_serve sv a e rq w =
     (if rr_RequestURI rq = ''*'' then (\<lparr>wr_Status = 400, wr_Header = [(''Connection'', ''close'')], wr_Body = NoBody\<rparr>, w)
      else case mux_find (routes a) (rq_Method rq) (rr_EscapedPath rq) of
             Redirect path \<Rightarrow>
               (\<lparr>wr_Status = 301,
                 wr_Header = (if rq_Method rq \<in> set [''GET'', ''HEAD''] then [(''Content-Type'', ''text/html; charset=utf-8'')] else []),
                 wr_Body = Moved path\<rparr>, w)
           | Matched r ms \<Rightarrow>
               dispatch sv a e r (http_request.truncate (rq\<lparr>rq_PathID := (case ms of [] \<Rightarrow> [] | m # _ \<Rightarrow> m)\<rparr>)) w
           | CatchAll \<Rightarrow> (handleNotFound (http_request.truncate rq), w))"

section \<open>Middleware\<close>

type_synonym 'w server_fun = "raw_request \<Rightarrow> 'w \<Rightarrow> wire_response option \<times> 'w"

text \<open>An inner handler may panic (\<open>None\<close>) after it has changed the world.\<close>

definition recoverPanic :: "'w server_fun \<Rightarrow> raw_request \<Rightarrow> 'w \<Rightarrow> wire_response \<times> 'w" where
  "recoverPanic inner rq w =
     (case inner rq w of
        (Some resp, w1) \<Rightarrow> (resp, w1)
      | (None, w1) \<Rightarrow> (of_api (writeProblem [] (http_request.truncate rq) 500 codeInternal ''Internal server error''
                              ''An unexpected error occurred.'' []), w1))"

definition quoted_none :: string where "quoted_none = CHR 0x27 # ''none'' @ [CHR 0x27]"

definition security_headers :: "(string \<times> string) list" where
  "security_headers =
     [(''X-Content-Type-Options'', ''nosniff''), (''X-Frame-Options'', ''DENY''), (''Referrer-Policy'', ''no-referrer''),
      (''Strict-Transport-Security'', ''max-age=63072000; includeSubDomains''),
      (''Content-Security-Policy'', ''default-src '' @ quoted_none @ ''; frame-ancestors '' @ quoted_none)]"

definition secureHeaders :: "(raw_request \<Rightarrow> 'w \<Rightarrow> wire_response \<times> 'w) \<Rightarrow> raw_request \<Rightarrow> 'w \<Rightarrow> wire_response \<times> 'w" where
  "secureHeaders inner rq w = (case inner rq w of (resp, w1) \<Rightarrow> (with_headers security_headers resp, w1))"

definition requestHeaderName :: string where "requestHeaderName = ''X-Request-Id''"

text \<open>The id of a request: the one it carries, or a fresh one.\<close>

definition request_id :: "string \<Rightarrow> raw_request \<Rightarrow> string" where
  "request_id fresh rq = (let i = header_Get (rq_Header rq) requestHeaderName in if i = [] then fresh else i)"

definition requestID :: "string \<Rightarrow> (raw_request \<Rightarrow> 'w \<Rightarrow> wire_response \<times> 'w) \<Rightarrow> raw_request \<Rightarrow> 'w \<Rightarrow> wire_response \<times> 'w" where
  "requestID fresh inner rq w =
     (let i = request_id fresh rq in
      case inner (rq\<lparr>rq_ID := i\<rparr>) w of (resp, w1) \<Rightarrow> (with_headers [(requestHeaderName, i)] resp, w1))"

definition guarded :: "serve_env \<Rightarrow> 'w server_fun \<Rightarrow> raw_request \<Rightarrow> 'w \<Rightarrow> wire_response \<times> 'w" where
  "guarded e inner = requestID (se_ulid e) (secureHeaders (recoverPanic inner))"

text \<open>\<open>Handler\<close>; the spans and the access log in between do not change requests or responses.\<close>

definition serve :: "'w Server \<Rightarrow> 'w Admin \<Rightarrow> serve_env \<Rightarrow> raw_request \<Rightarrow> 'w \<Rightarrow> wire_response \<times> 'w" where
  "serve sv a e = guarded e (\<lambda>rq w. case mux_serve sv a e rq w of (resp, w1) \<Rightarrow> (Some resp, w1))"

section \<open>Mediation\<close>

text \<open>What only an authenticated caller may change: policies and bundles, keys, the idempotency
  cache, budget and the audit queue.\<close>

definition same_protected :: "admin_world \<Rightarrow> admin_world \<Rightarrow> bool" where
  "same_protected w w' \<longleftrightarrow> aw_node w' = aw_node w \<and> key_rows w' = key_rows w \<and> same_effects (aw_prod w) (aw_prod w')"

text \<open>What anyone may read: problems, the public keys, health, metrics and redirects.\<close>

fun public_body :: "wire_body \<Rightarrow> bool" where
  "public_body (Api (BodyProblem p)) \<longleftrightarrow> True"
| "public_body (Api (BodyJWKS ks)) \<longleftrightarrow> True"
| "public_body (Api b) \<longleftrightarrow> False"
| "public_body _ \<longleftrightarrow> True"

lemma same_protected_refl [simp]: "same_protected w w"
  by (simp add: same_protected_def same_effects_def)

lemma same_protected_trans: "same_protected a b \<Longrightarrow> same_protected b c \<Longrightarrow> same_protected a c"
  unfolding same_protected_def using same_effects_trans by fastforce

lemma public_problem [simp]: "public_body (wr_Body (of_api (writeProblem hdr rq st code title detail items)))"
  by (simp add: of_api_def writeProblem_def)

lemma authn_protected:
  assumes "cached_keys cfg" "sv_authn (admin_server cfg env) m path hdr body w = (r, w')"
  shows "same_protected w w'"
proof -
  obtain p where "sv_authn (prod_server (ac_prod cfg) (ae_env env)) m path hdr body (aw_prod w) = (r, p)" "w' = w\<lparr>aw_prod := p\<rparr>"
    using assms(2) by (auto simp: admin_server_def on_prod_def Let_def split: prod.splits)
  with authn_rows [OF assms] authn_effects show ?thesis by (simp add: same_protected_def)
qed

lemma limiter_protected:
  assumes "sv_limiter (admin_server cfg env) k lm w = (r, w')"
  shows "same_protected w w'"
proof -
  obtain p where "sv_limiter (prod_server (ac_prod cfg) (ae_env env)) k lm (aw_prod w) = (r, p)" "w' = w\<lparr>aw_prod := p\<rparr>"
    using assms by (auto simp: admin_server_def on_prod_def Let_def split: prod.splits)
  with admin_limiter [OF assms] limiter_effects show ?thesis by (simp add: same_protected_def)
qed

text \<open>An endpoint behind the middleware: its caller is authenticated, or nothing happens.\<close>

definition mediated :: "admin_config \<Rightarrow> admin_env \<Rightarrow> http_request \<Rightarrow> admin_world \<Rightarrow> http_response \<times> admin_world \<Rightarrow> bool" where
  "mediated cfg env rq w res \<longleftrightarrow> (\<exists>prin. node_authenticates cfg env rq w = Inr prin) \<or>
     same_protected w (snd res) \<and> (\<exists>p. rp_Body (fst res) = BodyProblem p)"

lemma problem_body: "\<exists>p. rp_Body (writeProblem hdr rq st code title detail items) = BodyProblem p"
  by (simp add: writeProblem_def)

lemma authenticate_mediated:
  assumes "cached_keys cfg"
  shows "mediated cfg env rq w (authenticate (admin_server cfg env) h rq p w)"
proof (cases "rq_Body rq")
  case None
  then show ?thesis by (simp add: mediated_def authenticate_def problem_body)
next
  case (Some body)
  obtain r w1 where a: "sv_authn (admin_server cfg env) (rq_Method rq) (rq_Path rq) (rq_Header rq) body w = (r, w1)"
    by (cases "sv_authn (admin_server cfg env) (rq_Method rq) (rq_Path rq) (rq_Header rq) body w")
  show ?thesis
  proof (cases r)
    case (Inl e)
    with Some a authn_protected [OF assms a] show ?thesis by (auto simp: mediated_def authenticate_def problem_body)
  next
    case (Inr prin)
    with Some a show ?thesis by (simp add: mediated_def node_authenticates_def)
  qed
qed

lemma method_guard_mediated:
  "mediated cfg env rq w (h rq p w) \<Longrightarrow> mediated cfg env rq w (method_guard m h rq p w)"
  by (auto simp: method_guard_def mediated_def problem_body)

lemma endpoints_mediated:
  fixes env :: admin_env
  assumes "cached_keys cfg"
  defines "sv \<equiv> admin_server cfg env"
  shows "mediated cfg env rq w (authorize_endpoint sv decode rq w)" "mediated cfg env rq w (hold_endpoint sv capture rq w)"
    "mediated cfg env rq w (get_endpoint c sv rq w)" "mediated cfg env rq w (list_endpoint c sv rq w)"
    "mediated cfg env rq w (admin_endpoint sv a r rq w)"
  unfolding sv_def authorize_endpoint_def hold_endpoint_def get_endpoint_def list_endpoint_def admin_endpoint_def Let_def
  by (simp_all add: method_guard_mediated authenticate_mediated [OF assms(1)] split: option.split)

lemma api_mediated:
  "mediated cfg env rq w res \<Longrightarrow> api res = (resp, w') \<Longrightarrow> node_authenticates cfg env rq w = Inl e \<Longrightarrow>
   same_protected w w' \<and> public_body (wr_Body resp)"
  by (auto simp: mediated_def api_def of_api_def)

lemma truncate_sel [simp]:
  "rq_Method (http_request.truncate rq) = rq_Method rq" "rq_Path (http_request.truncate rq) = rq_Path rq"
  "rq_Header (http_request.truncate rq) = rq_Header rq" "rq_Body (http_request.truncate rq) = rq_Body rq"
  "rq_PathID (http_request.truncate rq) = rq_PathID rq" "rq_ID (http_request.truncate rq) = rq_ID rq"
  by (simp_all add: http_request.defs)

lemma node_authenticates_cong:
  "rq_Method rq' = rq_Method rq \<Longrightarrow> rq_Path rq' = rq_Path rq \<Longrightarrow> rq_Header rq' = rq_Header rq \<Longrightarrow> rq_Body rq' = rq_Body rq \<Longrightarrow>
   node_authenticates cfg env rq' w = node_authenticates cfg env rq w"
  by (simp add: node_authenticates_def)

text \<open>Who may have an effect or read protected data: an authenticated caller, or on the
  provisioning route the holder of the token.\<close>

definition entitled :: "admin_config \<Rightarrow> admin_env \<Rightarrow> raw_request \<Rightarrow> admin_world \<Rightarrow> bool" where
  "entitled cfg env rq w \<longleftrightarrow>
     (\<exists>prin. node_authenticates cfg env (http_request.truncate rq) w = Inr prin) \<or>
     rq_Method rq = ''POST'' \<and> path_segs (rr_EscapedPath rq) = [''v1'', ''provision'', ''keys''] \<and>
     ac_token cfg \<noteq> [] \<and> header_Get (rq_Header rq) ''X-Provision-Token'' = ac_token cfg"

lemma provision_pattern:
  "(ps, RtProvision) \<in> set (map (\<lambda>(p, h). (pattern_segs p, h)) (routes a)) \<Longrightarrow> ps = [Lit ''v1'', Lit ''provision'', Lit ''keys'']"
  by (auto simp: routes_def pattern_segs_def pattern_seg_def split: if_splits)

lemma provision_path:
  assumes "mux_find (routes a) m path = Matched RtProvision ms"
  shows "path_segs path = [''v1'', ''provision'', ''keys'']"
proof -
  have "matchPath (map (\<lambda>(p, h). (pattern_segs p, h)) (routes a)) path [] = Some (RtProvision, ms)"
    using assms by (auto simp: mux_find_def Let_def split: if_splits option.splits prod.splits)
  from matchPath_sound [OF this] obtain ps vs where "ps = [Lit ''v1'', Lit ''provision'', Lit ''keys'']" "seg_match ps (path_segs path) vs"
    using provision_pattern by blast
  then show ?thesis by (auto elim!: seg_match.elims)
qed

lemma provision_stopped:
  assumes "provision_endpoint (prod_admin cfg env) rq w = (resp, w')"
    and "\<not> (rq_Method rq = ''POST'' \<and> ac_token cfg \<noteq> [] \<and> header_Get (rq_Header rq) ''X-Provision-Token'' = ac_token cfg)"
  shows "w' = w \<and> (\<exists>p. rp_Body resp = BodyProblem p)"
  using assms by (auto simp: provision_endpoint_def method_guard_def handleProvisionKey_def problem_body split: if_splits)

lemma plain_public: "(\<And>rq. public_body (wr_Body (h rq))) \<Longrightarrow> public_body (wr_Body (plain_endpoint m h rq))"
  by (simp add: plain_endpoint_def method_guard_def)

lemma dispatch_mediated:
  assumes cached: "cached_keys cfg" and "dispatch (admin_server cfg env) (prod_admin cfg env) e r rq w = (resp, w')"
    and "node_authenticates cfg env rq w = Inl err"
    and "r = RtProvision \<Longrightarrow>
      \<not> (rq_Method rq = ''POST'' \<and> ac_token cfg \<noteq> [] \<and> header_Get (rq_Header rq) ''X-Provision-Token'' = ac_token cfg)"
  shows "same_protected w w' \<and> public_body (wr_Body resp)"
proof (cases r)
  case RtProvision
  with assms(2,4) show ?thesis
    by (cases "provision_endpoint (prod_admin cfg env) rq w") (auto simp: api_def of_api_def dest: provision_stopped)
next
  case RtKeysPublic
  with assms(2) show ?thesis
    by (auto simp: api_def of_api_def keys_public_endpoint_def method_guard_def handleKeysPublic_def writeProblem_def split: option.split)
next
  case RtHealth
  with assms(2) show ?thesis by (auto simp: handleHealth_def Let_def intro!: plain_public)
next
  case RtMetrics
  with assms(2) show ?thesis by (auto simp: handleMetrics_def intro!: plain_public split: option.split)
qed (use assms(2) api_mediated [OF endpoints_mediated(1) [OF cached] _ assms(3)] api_mediated [OF endpoints_mediated(2) [OF cached] _ assms(3)]
    api_mediated [OF endpoints_mediated(3) [OF cached] _ assms(3)] api_mediated [OF endpoints_mediated(4) [OF cached] _ assms(3)]
    api_mediated [OF endpoints_mediated(5) [OF cached] _ assms(3)] in simp_all)

section \<open>Headers\<close>

text \<open>The headers that handlers set.\<close>

definition handler_headers :: "string list" where
  "handler_headers = [''Content-Type'', ''Allow'', ''WWW-Authenticate'', ''Retry-After'', ''X-Decision-Id'', ''X-Idempotent-Replay'',
     ''X-Shadow'', ''Cache-Control'', ''Connection'']"

definition hdr_ok :: "(string \<times> string) list \<Rightarrow> bool" where
  "hdr_ok hdr \<longleftrightarrow> set (map fst hdr) \<subseteq> set handler_headers"

lemma hdr_ok_write [simp]:
  "hdr_ok (rp_Header (writeProblem hdr rq st code title detail items)) \<longleftrightarrow> hdr_ok hdr"
  "hdr_ok (rp_Header (writeJSON hdr st b)) \<longleftrightarrow> hdr_ok hdr"
  "hdr_ok []" "hdr_ok ((k, v) # hdr) \<longleftrightarrow> k \<in> set handler_headers \<and> hdr_ok hdr"
  by (auto simp: hdr_ok_def writeProblem_def handler_headers_def)

lemma handler_header_names [simp]:
  "''Content-Type'' \<in> set handler_headers" "''Allow'' \<in> set handler_headers" "''WWW-Authenticate'' \<in> set handler_headers"
  "''Retry-After'' \<in> set handler_headers" "''X-Decision-Id'' \<in> set handler_headers" "''X-Idempotent-Replay'' \<in> set handler_headers"
  "''X-Shadow'' \<in> set handler_headers" "''Cache-Control'' \<in> set handler_headers" "''Connection'' \<in> set handler_headers"
  by (simp_all add: handler_headers_def)

text \<open>Handlers whose answers set no other header.\<close>

definition tidy :: "'w handler \<Rightarrow> bool" where
  "tidy h \<longleftrightarrow> (\<forall>rq p w. hdr_ok (rp_Header (fst (h rq p w))))"

lemma tidy_wrap:
  "tidy h \<Longrightarrow> tidy (method_guard m h)" "tidy h \<Longrightarrow> tidy (authenticate sv h)" "tidy h \<Longrightarrow> tidy (rateLimit sv h)"
  by (auto simp: tidy_def method_guard_def authenticate_def rateLimit_def noPrincipal_def case_prod_beta split: option.split sum.split)

lemma tidy_decision:
  "tidy (handleAuthorize sv decode)" "tidy (handleCapture sv)" "tidy (handleVoid sv)"
  "tidy (handleGetDecision c sv)" "tidy (handleListDecisions c sv)"
proof -
  show "tidy (handleAuthorize sv decode)"
    by (auto simp: tidy_def handleAuthorize_def authorize_ok_def Let_def case_prod_beta split: decode_result.split option.split sum.split)
  have err: "hdr_ok (rp_Header (writeHoldError rq e))" for rq e by (cases e) simp_all
  have tr: "tidy (transitionHold sv b)" for b
    by (auto simp: tidy_def transitionHold_def noPrincipal_def case_prod_beta err split: option.split sum.split)
  show "tidy (handleCapture sv)" "tidy (handleVoid sv)" by (simp_all add: handleCapture_def handleVoid_def tr)
  show "tidy (handleGetDecision c sv)"
    by (auto simp: tidy_def handleGetDecision_def decisionNotFound_def noPrincipal_def split: option.split sum.split)
  show "tidy (handleListDecisions c sv)"
    by (auto simp: tidy_def handleListDecisions_def noPrincipal_def case_prod_beta split: option.split sum.split)
qed

lemma hdr_ok_errors [simp]: "hdr_ok (rp_Header (writePolicyError rq e))" "hdr_ok (rp_Header (writeSimError rq f))"
proof -
  show p: "hdr_ok (rp_Header (writePolicyError rq e))" for e by (cases e) simp_all
  show "hdr_ok (rp_Header (writeSimError rq f))" by (cases f) (simp_all add: p)
qed

lemma hdr_ok_reply [simp]: "hdr_ok (rp_Header (fst (policy_reply rq st render res)))"
  by (simp add: policy_reply_def split: prod.split sum.split)

lemma hdr_ok_decode: "decodePolicyBody read dec rq = Inl resp \<Longrightarrow> hdr_ok (rp_Header resp)"
  by (auto simp: decodePolicyBody_def Let_def split: body_read.splits sum.splits if_splits)

lemma hdr_ok_mint [simp]: "hdr_ok (rp_Header (fst (mint_key a ka failed org body rq w)))"
proof (cases "ad_NewKey a (pkr_Env body) org (if pkr_Tier body = [] then ''default'' else pkr_Tier body)")
  case (Inr gk)
  show ?thesis
    by (simp only: mint_key_def Let_def Inr sum.case) (simp split: prod.split option.split)
qed (simp add: mint_key_def)

lemma tidy_wrappers:
  "(\<And>svc. tidy (h svc)) \<Longrightarrow> tidy (controlPlaneReady a h)"
  "(\<And>ka. tidy (k ka)) \<Longrightarrow> tidy (keyAdminReady a k)"
  "(\<And>org rq w. hdr_ok (rp_Header (fst (g org rq w)))) \<Longrightarrow> tidy (orgOf g)"
  by (simp_all add: tidy_def controlPlaneReady_def keyAdminReady_def orgOf_def noPrincipal_def split: option.split)

lemma tidy_policies:
  "tidy (handlePolicies a)" "tidy (handlePolicyItem a)" "tidy (handleListVersions a)" "tidy (handleActiveBundle a)"
  "tidy (handleRollbackPolicy a)"
proof -
  have w: "tidy (handleListPolicies svc)" "tidy (handleCreatePolicy a svc)" "tidy (handleGetPolicy svc)" "tidy (handleUpdatePolicy a svc)" for svc
    unfolding handleListPolicies_def handleCreatePolicy_def handleGetPolicy_def handleUpdatePolicy_def
    by (rule tidy_wrappers, simp add: hdr_ok_decode split: sum.split)+
  show "tidy (handlePolicies a)" "tidy (handlePolicyItem a)"
    unfolding handlePolicies_def handlePolicyItem_def by (rule tidy_wrappers, use w in \<open>simp add: tidy_def\<close>)+
  show "tidy (handleListVersions a)" "tidy (handleActiveBundle a)"
    unfolding handleListVersions_def handleActiveBundle_def by (rule tidy_wrappers, rule tidy_wrappers, simp)+
  show "tidy (handleRollbackPolicy a)"
    unfolding handleRollbackPolicy_def
    by (rule tidy_wrappers, rule tidy_wrappers) (simp add: hdr_ok_decode split: sum.split prod.split)
qed

lemma tidy_publish: "tidy (handlePublishPolicy a)"
  unfolding handlePublishPolicy_def Let_def
  by (rule tidy_wrappers) (simp add: tidy_def orgOf_def noPrincipal_def split: option.split sum.split prod.split)

lemma tidy_simulate: "tidy (handleSimulate a)"
  unfolding handleSimulate_def
  by (rule tidy_wrappers) (simp add: tidy_def orgOf_def noPrincipal_def hdr_ok_decode split: option.split sum.split prod.split)

lemma tidy_keys: "tidy (handleKeys a)" "tidy (handleRevokeKey a)"
proof -
  have "tidy (handleListKeys ka)" "tidy (handleCreateKey a ka)" for ka
    unfolding handleListKeys_def handleCreateKey_def by (rule tidy_wrappers, simp add: hdr_ok_decode split: sum.split)+
  then show "tidy (handleKeys a)" unfolding handleKeys_def by (intro tidy_wrappers) (simp add: tidy_def)
  show "tidy (handleRevokeKey a)"
    unfolding handleRevokeKey_def by (rule tidy_wrappers, rule tidy_wrappers) (simp split: sum.split prod.split)
qed

lemma tidy_admin: "tidy (admin_handler a r)"
  by (cases r) (simp_all add: tidy_policies tidy_publish tidy_simulate tidy_keys)

lemma api_headers: "hdr_ok (rp_Header (fst res)) \<Longrightarrow> hdr_ok (wr_Header (fst (api res)))"
  by (simp add: api_def of_api_def)

lemma tidyD: "tidy h \<Longrightarrow> hdr_ok (rp_Header (fst (h rq p w)))"
  by (simp add: tidy_def)

lemma provision_headers: "hdr_ok (rp_Header (fst (provision_endpoint a rq w)))"
  by (simp add: provision_endpoint_def method_guard_def handleProvisionKey_def hdr_ok_decode split: option.split sum.split)

lemma plain_headers: "(\<And>rq. hdr_ok (wr_Header (h rq))) \<Longrightarrow> hdr_ok (wr_Header (plain_endpoint m h rq))"
  by (simp add: plain_endpoint_def of_api_def method_guard_def)

lemma dispatch_headers: "hdr_ok (wr_Header (fst (dispatch sv a e r rq w)))"
proof (cases r)
  case RtHealth
  then show ?thesis by (simp add: plain_headers handleHealth_def Let_def)
next
  case RtMetrics
  have "hdr_ok (wr_Header (handleMetrics (se_fmt_big e) (se_metrics e) rq))" for rq
    by (simp add: handleMetrics_def of_api_def split: option.split)
  with RtMetrics show ?thesis by (simp add: plain_headers)
next
  case RtKeysPublic
  then show ?thesis
    by (simp add: api_headers keys_public_endpoint_def method_guard_def handleKeysPublic_def split: option.split)
next
  case (RtAdmin x)
  have "hdr_ok (rp_Header (fst (admin_endpoint sv a x rq w)))"
    by (cases "route_method x") (simp_all add: admin_endpoint_def tidyD tidy_wrap tidy_admin)
  with RtAdmin show ?thesis by (simp add: api_headers)
qed (simp_all add: api_headers provision_headers authorize_endpoint_def hold_endpoint_def get_endpoint_def list_endpoint_def
    tidyD tidy_wrap tidy_decision)

lemma mux_headers: "hdr_ok (wr_Header (fst (mux_serve sv a e rq w)))"
  by (simp add: mux_serve_def dispatch_headers handleNotFound_def of_api_def split: mux_target.split)

lemma hdr_ok_untouched: "hdr_ok hdr \<Longrightarrow> k \<notin> set handler_headers \<Longrightarrow> map_of (rev hdr) k = None"
  by (auto simp: hdr_ok_def map_of_eq_None_iff image_iff)

lemma guarded_headers:
  assumes "guarded e inner rq w = (resp, w')" "\<And>r rq w v. inner rq w = (Some r, v) \<Longrightarrow> hdr_ok (wr_Header r)"
  shows "wr_header resp requestHeaderName = Some (request_id (se_ulid e) rq) \<and>
    (\<forall>(k, v) \<in> set security_headers. wr_header resp k = Some v)"
proof -
  let ?rq = "rq\<lparr>rq_ID := request_id (se_ulid e) rq\<rparr>"
  obtain x v where x: "inner ?rq w = (x, v)" by (cases "inner ?rq w")
  define r where "r = fst (recoverPanic inner ?rq w)"
  have r: "wr_Header resp = (requestHeaderName, request_id (se_ulid e) rq) # security_headers @ wr_Header r"
    using assms(1) by (auto simp: r_def guarded_def requestID_def secureHeaders_def with_headers_def Let_def split: prod.splits)
  have "hdr_ok (wr_Header r)"
    using x assms(2) [of ?rq w] by (cases x) (simp_all add: r_def recoverPanic_def of_api_def)
  then have none: "map_of (rev (wr_Header r)) k = None" if "k \<notin> set handler_headers" for k using that by (intro hdr_ok_untouched)
  have names: "''X-Request-Id'' \<notin> set handler_headers" "''X-Content-Type-Options'' \<notin> set handler_headers"
    "''X-Frame-Options'' \<notin> set handler_headers" "''Referrer-Policy'' \<notin> set handler_headers"
    "''Strict-Transport-Security'' \<notin> set handler_headers" "''Content-Security-Policy'' \<notin> set handler_headers"
    by (simp_all add: handler_headers_def)
  show ?thesis
    by (simp add: wr_header_def r security_headers_def requestHeaderName_def map_add_def none names)
qed

section \<open>Properties\<close>

text \<open>C4: complete mediation. Take any request to the process, on any path and with any method. If its
  caller is not authenticated by key, signature and nonce, and it is not a \<open>POST\<close> to the
  provisioning path with the configured token, then the policies, bundles, keys, budget, idempotency
  cache and audit queue are unchanged, and the answer is a problem, the public key set, the health
  report, the metrics or a redirect.\<close>

theorem complete_mediation:
  assumes "au_keys (pc_auth (ac_prod cfg)) = CachedKeyStore_LookupByID Postgres_LookupByID ttl"
    and "serve (admin_server cfg env) (prod_admin cfg env) e rq w = (resp, w')"
    and "\<not> entitled cfg env rq w"
  shows "same_protected w w' \<and> public_body (wr_Body resp)"
proof -
  let ?i = "request_id (se_ulid e) rq"
  obtain inner where m: "mux_serve (admin_server cfg env) (prod_admin cfg env) e (rq\<lparr>rq_ID := ?i\<rparr>) w = (inner, w')"
    and body: "wr_Body resp = wr_Body inner"
    using assms(2) by (auto simp: serve_def guarded_def requestID_def secureHeaders_def recoverPanic_def with_headers_def Let_def split: prod.splits)
  have cached: "cached_keys cfg" using assms(1) by blast
  obtain err where err: "node_authenticates cfg env (http_request.truncate rq) w = Inl err"
    using assms(3) by (cases "node_authenticates cfg env (http_request.truncate rq) w") (auto simp: entitled_def)
  have "same_protected w w' \<and> public_body (wr_Body inner)"
  proof (cases "rr_RequestURI rq = ''*''")
    case True
    with m show ?thesis by (auto simp: mux_serve_def)
  next
    case uri: False
    show ?thesis
    proof (cases "mux_find (routes (prod_admin cfg env)) (rq_Method rq) (rr_EscapedPath rq)")
      case (Matched r ms)
      let ?rq = "http_request.truncate (rq\<lparr>rq_ID := ?i, rq_PathID := (case ms of [] \<Rightarrow> [] | m # _ \<Rightarrow> m)\<rparr>)"
      have err: "node_authenticates cfg env ?rq w = Inl err"
        unfolding err [symmetric] by (rule node_authenticates_cong) simp_all
      have d: "dispatch (admin_server cfg env) (prod_admin cfg env) e r ?rq w = (inner, w')"
        using m uri Matched by (simp add: mux_serve_def)
      show ?thesis
        using assms(3) provision_path [of "prod_admin cfg env" "rq_Method rq" "rr_EscapedPath rq" ms] Matched
        by (intro dispatch_mediated [OF cached d err]) (auto simp: entitled_def)
    qed (use m uri in \<open>auto simp: mux_serve_def handleNotFound_def\<close>)
  qed
  with body show ?thesis by simp
qed

text \<open>C16: every answer is hardened and traceable. Whatever the request, and also when a handler panics, the
  answer carries the id of the request (the caller's, if it sent one) and the five security headers
  with their values, and the problem of a panic is a 500.\<close>

theorem responses_hardened:
  "wr_header (fst (serve sv a e rq w)) requestHeaderName = Some (request_id (se_ulid e) rq) \<and>
   (\<forall>(k, v) \<in> set security_headers. wr_header (fst (serve sv a e rq w)) k = Some v) \<and>
   (\<forall>w1. wr_header (fst (guarded e (\<lambda>_ _. (None, w1)) rq w)) requestHeaderName = Some (request_id (se_ulid e) rq) \<and>
      (\<forall>(k, v) \<in> set security_headers. wr_header (fst (guarded e (\<lambda>_ _. (None, w1)) rq w)) k = Some v) \<and>
      wr_Status (fst (guarded e (\<lambda>_ _. (None, w1)) rq w)) = 500)"
proof -
  have "wr_Status (fst (guarded e (\<lambda>_ _. (None, w1)) rq w)) = 500" for w1
    by (simp add: guarded_def requestID_def secureHeaders_def recoverPanic_def with_headers_def of_api_def Let_def)
  moreover have "wr_header (fst (serve sv a e rq w)) requestHeaderName = Some (request_id (se_ulid e) rq) \<and>
      (\<forall>(k, v) \<in> set security_headers. wr_header (fst (serve sv a e rq w)) k = Some v)"
    unfolding serve_def
    by (rule guarded_headers [OF prod.collapse [symmetric]]) (auto simp: case_prod_beta mux_headers)
  moreover have "wr_header (fst (guarded e (\<lambda>_ _. (None, w1)) rq w)) requestHeaderName = Some (request_id (se_ulid e) rq) \<and>
      (\<forall>(k, v) \<in> set security_headers. wr_header (fst (guarded e (\<lambda>_ _. (None, w1)) rq w)) k = Some v)" for w1
    by (rule guarded_headers [OF prod.collapse [symmetric]]) simp
  ultimately show ?thesis by blast
qed

section \<open>An example\<close>

definition demo_serve_env :: serve_env where
  "demo_serve_env = \<lparr>se_build = \<lparr>bi_Version = ''dev'', bi_Commit = ''none'', bi_Date = ''unknown''\<rparr>, se_checks = [], se_metrics = None,
     se_fmt_big = (\<lambda>_. []), se_decode = demo_decode, se_crypto = demo_crypto, se_ulid = ''01ARZ3NDEKTSV4RRFFQ69G5FAV''\<rparr>"

definition demo_raw_request :: "string \<Rightarrow> string \<Rightarrow> raw_request" where
  "demo_raw_request m path = \<lparr>rq_Method = m, rq_Path = path, rq_Header = [], rq_Body = Some [], rq_PathID = [], rq_Query = [], rq_ID = [],
     rr_RequestURI = path, rr_EscapedPath = path\<rparr>"

lemma demo_unauthenticated:
  "node_authenticates demo_admin_cfg demo_admin_env (http_request.truncate (demo_raw_request m path)) w =
     Inl (case bearerKey [] of Inl e \<Rightarrow> e | Inr _ \<Rightarrow> errReplay)"
  by (simp add: node_authenticates_eq demo_raw_request_def http_request.defs Authenticate_def bearerKey_def header_Get_def)

theorem complete_mediation_witness:
  "\<exists>resp w'. serve (admin_server demo_admin_cfg demo_admin_env) (prod_admin demo_admin_cfg demo_admin_env) demo_serve_env
       (demo_raw_request ''POST'' ''/v1/keys'') demo_start = (resp, w') \<and>
     same_protected demo_start w' \<and> public_body (wr_Body resp)"
proof -
  obtain resp w' where s: "serve (admin_server demo_admin_cfg demo_admin_env) (prod_admin demo_admin_cfg demo_admin_env) demo_serve_env
      (demo_raw_request ''POST'' ''/v1/keys'') demo_start = (resp, w')" by (rule surj_pair [THEN exE]) (auto simp: prod_eq_iff)
  have "header_Get (rq_Header (demo_raw_request ''POST'' ''/v1/keys'')) ''X-Provision-Token'' \<noteq> ac_token demo_admin_cfg"
    by (simp add: demo_raw_request_def header_Get_def demo_admin_cfg_def)
  then have "\<not> entitled demo_admin_cfg demo_admin_env (demo_raw_request ''POST'' ''/v1/keys'') demo_start"
    by (simp add: entitled_def demo_unauthenticated)
  from complete_mediation [OF demo_admin_auth(2) s this] s show ?thesis by blast
qed

theorem responses_hardened_witness:
  "wr_header (fst (serve (admin_server demo_admin_cfg demo_admin_env) (prod_admin demo_admin_cfg demo_admin_env) demo_serve_env
       (demo_raw_request ''GET'' ''/v1//health'') demo_start)) ''X-Frame-Options'' = Some ''DENY''"
  using responses_hardened [of "admin_server demo_admin_cfg demo_admin_env" "prod_admin demo_admin_cfg demo_admin_env" demo_serve_env
      "demo_raw_request ''GET'' ''/v1//health''" demo_start]
  by (simp add: security_headers_def)

end
