(* ===== verification/Boot.thy ===== *)
theory Boot
  imports Server_Mux Config
begin

text \<open>
  \<open>cmd/authorize-svc/main.go\<close>: how the process is put together from its configuration. Tracing is
  set up, Postgres and Redis are reached, the signing key is loaded or generated, the boot policy is
  loaded, the engine gets its signer, hold lifetime, reserver and bundle provider, the authenticator its
  skew and nonce lifetime, and the audit store its encryptor; a failure ends the process. What the
  libraries answer (span exporters, connection pools, pings) is given by the environment record; the
  logger, listening on the address and the shutdown are left out. Shown: a key given in any of the
  accepted encodings is the key that is used, the exact condition under which the process starts, and that
  the node then satisfies what the other theories assume of it.
\<close>

section \<open>Keys in text\<close>

text \<open>\<open>base64.RawStdEncoding\<close>: the standard alphabet without padding.\<close>

definition b64rawstd_encode :: "string \<Rightarrow> string" where
  "b64rawstd_encode s = map std_char (b64_encode s)"

definition b64rawstd_decode :: "string \<Rightarrow> string option" where
  "b64rawstd_decode s =
     (if list_all (\<lambda>c. url_char c \<noteq> None) s then b64_decode (map (\<lambda>c. the (url_char c)) s) else None)"

fun first_32 :: "(string \<Rightarrow> string option) list \<Rightarrow> string \<Rightarrow> string option" where
  "first_32 [] s = None"
| "first_32 (dec # ds) s = (case dec s of Some b \<Rightarrow> if length b = 32 then Some b else first_32 ds s | None \<Rightarrow> first_32 ds s)"

definition decodeSeed :: "string \<Rightarrow> string option" where
  "decodeSeed s = first_32 [b64std_decode, b64rawstd_decode, b64_decode, hex_decode] s"

section \<open>Starting the process\<close>

datatype boot_error =
    BadTracing string | BadPostgres string | BadRedis string
  | BadSigningKey | NoEntropy | BadSigner sign_error | BadPolicy load_error | BadDefaultPolicy policy_error
  | BadAuditKey | BadEncryptor audit_error

text \<open>The key pair drawn from the operating system when no key is configured is an argument; \<open>None\<close> is a failed
  draw.\<close>

definition boot_keyring :: "crypto \<Rightarrow> (string \<times> string) option \<Rightarrow> Config \<Rightarrow> boot_error + Keyring \<times> Signer" where
  "boot_keyring c drawn cf =
     bindE (if cf_SigningPrivateKey cf \<noteq> [] then
              (case decodeSeed (cf_SigningPrivateKey cf) of
                 None \<Rightarrow> Inl BadSigningKey
               | Some seed \<Rightarrow> map_sum BadSigner id (SetActive c NewKeyring (cf_SigningKeyID cf) seed))
            else (case drawn of
                    None \<Rightarrow> Inl NoEntropy
                  | Some (pub, priv) \<Rightarrow> Inr (snd (GenerateActive c pub priv NewKeyring))))
       (\<lambda>k. map_sum BadSigner (\<lambda>s. (k, s)) (Keyring_Signer k))"

definition boot_policy :: "crypto \<Rightarrow> (string \<Rightarrow> string + (json_error + json)) \<Rightarrow> Config \<Rightarrow> boot_error + Policy" where
  "boot_policy c readFile cf =
     (if cf_PolicyFile cf \<noteq> [] then map_sum BadPolicy id (Policy_File.Load c readFile (cf_PolicyFile cf))
      else map_sum BadDefaultPolicy id (Default c))"

text \<open>The engine at an instant. The provider at that instant is an argument.\<close>

definition boot_engine :: "Policy \<Rightarrow> Signer \<Rightarrow> Config
    \<Rightarrow> (gotime \<Rightarrow> (RedisCounter, PostgresStore) budget_world bundle_provider)
    \<Rightarrow> gotime \<Rightarrow> (RedisCounter, PostgresStore) budget_world Engine" where
  "boot_engine pol s cf prov t =
     (let core = WithReserver (WithHoldTTL (WithSigner (NewEngine pol (sgn_keyID s)) s) (cf_HoldTTL cf)) (prod_reserver t (cf_HoldTTL cf))
      in if cf_ControlPlaneEnabled cf then WithProvider core (prov t) else core)"

definition boot_authn :: "Config \<Rightarrow> (RedisKeyCache \<times> PostgresKeyStore, RedisNonceStore) Authenticator" where
  "boot_authn cf = NewAuthenticator (CachedKeyStore_LookupByID Postgres_LookupByID (cf_KeyCacheTTL cf)) RedisNonce_Remember
     (cf_HMACMaxSkew cf) (cf_NonceTTL cf)"

definition boot_encryptor :: "aead \<Rightarrow> Config \<Rightarrow> boot_error + Encryptor" where
  "boot_encryptor g cf =
     (if cf_AuditEncryptionKey cf \<noteq> [] then
        (case decodeSeed (cf_AuditEncryptionKey cf) of
           None \<Rightarrow> Inl BadAuditKey
         | Some key \<Rightarrow> map_sum BadEncryptor id (NewAESGCM g key))
      else Inr NopEncryptor)"

text \<open>What the process takes from outside: the libraries, the file system, the entropy, the two variables
  that select the span exporter, and whether the exporters can be built, the connection strings are
  accepted and the stores answer.\<close>

record boot_env =
  bo_crypto :: crypto
  bo_mac :: mac_crypto
  bo_aead :: aead
  bo_drawn :: "(string \<times> string) option"
  bo_readFile :: "string \<Rightarrow> string + (json_error + json)"
  bo_schema :: schema_validator
  bo_read :: json_reader
  bo_requests :: "json \<Rightarrow> json_error + AuthorizeRequest list"
  bo_provider :: "gotime \<Rightarrow> (RedisCounter, PostgresStore) budget_world bundle_provider"
  bo_Exporter :: string
  bo_Endpoint :: string
  bo_stdouttrace :: bool
  bo_otlptrace :: "string list \<Rightarrow> bool"
  bo_resource :: bool
  bo_pgxpool :: "string \<Rightarrow> bool"
  bo_pgPing :: bool
  bo_ParseURL :: "string \<Rightarrow> bool"
  bo_redisPing :: bool

text \<open>\<open>tracing.Init\<close>: the options of the OTLP exporter are a list, empty without an endpoint.\<close>

definition tracing_Init :: "boot_env \<Rightarrow> boot_error + unit" where
  "tracing_Init e =
     (let exporter = bo_Exporter e;
          finish = (\<lambda>built. if \<not> built then Inl (BadTracing ''tracing: build exporter'')
                            else if \<not> bo_resource e then Inl (BadTracing ''tracing: resource'')
                            else Inr ())
      in if exporter \<in> set [[], ''none'', ''off'', ''disabled''] then Inr ()
         else if exporter = ''stdout'' then finish (bo_stdouttrace e)
         else if exporter = ''otlp'' then finish (bo_otlptrace e (if bo_Endpoint e \<noteq> [] then [bo_Endpoint e] else []))
         else Inl (BadTracing ''tracing: unknown exporter''))"

definition NewPostgres :: "boot_env \<Rightarrow> string \<Rightarrow> boot_error + unit" where
  "NewPostgres e dsn =
     (if \<not> bo_pgxpool e dsn then Inl (BadPostgres ''postgres: new pool'')
      else if \<not> bo_pgPing e then Inl (BadPostgres ''postgres: ping'') else Inr ())"

definition NewRedis :: "boot_env \<Rightarrow> string \<Rightarrow> boot_error + unit" where
  "NewRedis e url =
     (if \<not> bo_ParseURL e url then Inl (BadRedis ''redis: parse url'')
      else if \<not> bo_redisPing e then Inl (BadRedis ''redis: ping'') else Inr ())"

definition boot :: "boot_env \<Rightarrow> Config \<Rightarrow> boot_error + admin_config" where
  "boot e cf =
     bindE (tracing_Init e) (\<lambda>_.
     bindE (NewPostgres e (cf_DatabaseURL cf)) (\<lambda>_.
     bindE (NewRedis e (cf_RedisURL cf)) (\<lambda>_.
     bindE (boot_keyring (bo_crypto e) (bo_drawn e) cf) (\<lambda>(k, s).
     bindE (boot_policy (bo_crypto e) (bo_readFile e) cf) (\<lambda>pol.
     bindE (boot_encryptor (bo_aead e) cf) (\<lambda>enc.
       Inr \<lparr>ac_prod = \<lparr>pc_mac = bo_mac e, pc_crypto = bo_crypto e, pc_auth = boot_authn cf, pc_tiers = DefaultTiers,
              pc_engine = boot_engine pol s cf (bo_provider e), pc_keyring = k, pc_enc = enc,
              pc_retention = RetentionFor cf, pc_holdTTL = cf_HoldTTL cf\<rparr>,
            ac_schema = bo_schema e, ac_signer = s, ac_token = cf_ProvisionToken cf, ac_read = bo_read e,
            ac_requests = bo_requests e\<rparr>))))))"

text \<open>Without the control plane the policy endpoints, the provider and the simulator are not installed.\<close>

definition boot_admin :: "Config \<Rightarrow> admin_config \<Rightarrow> admin_env \<Rightarrow> admin_world Admin" where
  "boot_admin cf cfg env =
     (if cf_ControlPlaneEnabled cf then prod_admin cfg env
      else (prod_admin cfg env)\<lparr>ad_policySvc := None, ad_bundleInvalidator := None, ad_simulator := None\<rparr>)"

section \<open>Key texts\<close>

lemma b64rawstd_decode_encode: "b64rawstd_decode (b64rawstd_encode s) = Some s"
proof -
  have all: "\<forall>c \<in> set (b64_encode s). url_char (std_char c) = Some c"
    using std_char_alphabet b64_encode_alphabet by blast
  then have "map (\<lambda>c. the (url_char c)) (b64rawstd_encode s) = b64_encode s"
    by (simp add: b64rawstd_encode_def map_idI)
  with all show ?thesis by (auto simp: b64rawstd_decode_def b64rawstd_encode_def list_all_iff)
qed

lemma length_b64_encode: "length (b64_encode s) = (4 * length s + 2) div 3"
  by (induction s rule: b64_encode.induct) simp_all

lemma length_b64_groups: "b64_groups ns = Some b \<Longrightarrow> length b = 3 * length ns div 4"
  by (induction ns arbitrary: b rule: b64_groups.induct) auto

lemma length_b64_vals: "b64_vals s = Some ns \<Longrightarrow> \<forall>c \<in> set s. graphic c \<Longrightarrow> length ns = length s"
proof (induction s arbitrary: ns)
  case (Cons c s)
  then have "byte_val c \<noteq> 10" "byte_val c \<noteq> 13" by (auto simp: graphic_def)
  with Cons show ?case by (auto split: option.splits)
qed simp

lemma length_b64_decode: "b64_decode s = Some b \<Longrightarrow> \<forall>c \<in> set s. graphic c \<Longrightarrow> length b = 3 * length s div 4"
  unfolding b64_decode_def bind_eq_Some_conv using length_b64_vals length_b64_groups by metis

text \<open>A text of graphic characters without \<open>=\<close> is refused by the padded decoder when groups are incomplete.\<close>

lemma b64std_decode_short:
  assumes "\<forall>c \<in> set s. c \<noteq> CHR 0x0A \<and> c \<noteq> CHR 0x0D" and "length s mod 4 \<noteq> 0"
  shows "b64std_decode s = None"
proof -
  have "filter (\<lambda>c. c \<noteq> CHR 0x0A \<and> c \<noteq> CHR 0x0D) s = s" using assms(1) by simp
  with assms(2) show ?thesis by (simp add: b64std_decode_def Let_def)
qed

lemma alphabet_char: "c \<in> set b64_alphabet \<Longrightarrow> c \<noteq> CHR 0x0A \<and> c \<noteq> CHR 0x0D \<and> (url_char c \<noteq> None \<longrightarrow> url_char c = Some c)"
  by (auto simp: b64_alphabet_def url_char_def)

text \<open>Hexadecimal digits are in every alphabet, but 64 of them make 48 bytes.\<close>

lemma hex_char: "c \<in> set (hex_encode s) \<Longrightarrow> url_char c = Some c \<and> graphic c \<and> c \<noteq> CHR ''='' \<and> c \<noteq> CHR 0x0A \<and> c \<noteq> CHR 0x0D"
proof -
  assume "c \<in> set (hex_encode s)"
  then obtain n where "c = hex_digit n" "n < 16"
    using high_bits(1) by (auto simp: hex_encode_def hex_byte_def intro: that)
  then show ?thesis by (auto simp: hex_digit_def url_char_def graphic_def less_Suc_eq numeral_eq_Suc)
qed

lemma dropWhile_absent: "x \<notin> set xs \<Longrightarrow> dropWhile (\<lambda>c. c = x) xs = xs"
  by (cases xs) auto

lemma hex_not_b64:
  assumes "length s = 32"
  shows "b64_decode (hex_encode s) = Some b \<Longrightarrow> length b \<noteq> 32" "b64rawstd_decode (hex_encode s) = b64_decode (hex_encode s)"
    "b64std_decode (hex_encode s) = b64_decode (hex_encode s)"
proof -
  show "length b \<noteq> 32" if "b64_decode (hex_encode s) = Some b"
    using length_b64_decode [OF that] hex_char assms by simp
  have m: "map (\<lambda>c. the (url_char c)) (hex_encode s) = hex_encode s" and l: "list_all (\<lambda>c. url_char c \<noteq> None) (hex_encode s)"
    using hex_char by (simp_all add: map_idI list_all_iff)
  then show "b64rawstd_decode (hex_encode s) = b64_decode (hex_encode s)" by (simp add: b64rawstd_decode_def)
  have f: "filter (\<lambda>c. c \<noteq> CHR 0x0A \<and> c \<noteq> CHR 0x0D) (hex_encode s) = hex_encode s"
    using hex_char by (intro filter_True) blast
  have "dropWhile (\<lambda>c. c = CHR ''='') (rev (hex_encode s)) = rev (hex_encode s)"
    using hex_char by (intro dropWhile_absent) auto
  then show "b64std_decode (hex_encode s) = b64_decode (hex_encode s)"
    using assms l by (simp add: b64std_decode_def Let_def f m)
qed

lemma first_32_length: "first_32 ds s = Some b \<Longrightarrow> length b = 32"
  by (induction ds) (auto split: option.splits if_splits)

lemma decodeSeed_texts:
  assumes "length seed = 32"
  shows "decodeSeed (b64std_encode seed) = Some seed" "decodeSeed (b64rawstd_encode seed) = Some seed"
    "decodeSeed (b64_encode seed) = Some seed" "decodeSeed (hex_encode seed) = Some seed"
proof -
  show "decodeSeed (b64std_encode seed) = Some seed" by (simp add: decodeSeed_def b64std_decode_encode assms)
  have c: "c \<in> set (b64_encode seed) \<Longrightarrow> c \<in> set b64_alphabet" for c by (rule b64_encode_alphabet)
  have "b64std_decode (b64rawstd_encode seed) = None"
    using c std_char_alphabet by (intro b64std_decode_short) (auto simp: b64rawstd_encode_def length_b64_encode assms)
  then show "decodeSeed (b64rawstd_encode seed) = Some seed"
    by (simp add: decodeSeed_def b64rawstd_decode_encode assms)
  have "b64std_decode (b64_encode seed) = None"
    using c alphabet_char by (intro b64std_decode_short) (auto simp: length_b64_encode assms)
  moreover have "b64rawstd_decode (b64_encode seed) \<in> {None, Some seed}"
  proof (cases "list_all (\<lambda>c. url_char c \<noteq> None) (b64_encode seed)")
    case True
    then have "map (\<lambda>c. the (url_char c)) (b64_encode seed) = b64_encode seed"
      using c alphabet_char by (intro map_idI) (fastforce simp: list_all_iff)
    with True show ?thesis by (simp add: b64rawstd_decode_def)
  qed (simp add: b64rawstd_decode_def)
  ultimately show "decodeSeed (b64_encode seed) = Some seed" by (auto simp: decodeSeed_def assms)
  show "decodeSeed (hex_encode seed) = Some seed"
    using hex_not_b64 [OF assms] by (auto simp: decodeSeed_def assms split: option.split)
qed

section \<open>What a started process has\<close>

lemma bindE_cases: "bindE x f = Inr y \<longleftrightarrow> (\<exists>a. x = Inr a \<and> f a = Inr y)"
  by (cases x) auto

lemma map_sum_Inr: "map_sum f g x = Inr y \<longleftrightarrow> (\<exists>a. x = Inr a \<and> y = g a)"
  by (cases x) auto

lemma decodeSeed_length: "decodeSeed s = Some b \<Longrightarrow> length b = 32"
  unfolding decodeSeed_def by (rule first_32_length)

lemma Keyring_Signer_install: "Keyring_Signer (install_active k i pub priv) = Inr \<lparr>sgn_keyID = i, sgn_priv = priv\<rparr>"
  by (simp add: Keyring_Signer_def install_active_def)

definition signing_key_ok :: "boot_env \<Rightarrow> Config \<Rightarrow> bool" where
  "signing_key_ok e cf \<longleftrightarrow> (if cf_SigningPrivateKey cf \<noteq> [] then decodeSeed (cf_SigningPrivateKey cf) \<noteq> None else bo_drawn e \<noteq> None)"

text \<open>Tracing is off, or a known exporter can be built; both stores take their connection string and
  answer.\<close>

definition tracing_ok :: "boot_env \<Rightarrow> bool" where
  "tracing_ok e \<longleftrightarrow> bo_Exporter e \<in> {[], ''none'', ''off'', ''disabled''} \<or>
     bo_resource e \<and> (bo_Exporter e = ''stdout'' \<and> bo_stdouttrace e
       \<or> bo_Exporter e = ''otlp'' \<and> bo_otlptrace e (if bo_Endpoint e = [] then [] else [bo_Endpoint e]))"

definition stores_ok :: "boot_env \<Rightarrow> Config \<Rightarrow> bool" where
  "stores_ok e cf \<longleftrightarrow> bo_pgxpool e (cf_DatabaseURL cf) \<and> bo_pgPing e \<and> bo_ParseURL e (cf_RedisURL cf) \<and> bo_redisPing e"

text \<open>A policy document the engine can run: an id, a known local type, and what that type
  needs. The policy is usable when its source is readable JSON without unknown or mistyped members, its
  documents are usable, their ids are distinct, and it names its version or can be canonicalized for one.\<close>

definition doc_usable :: "predicateDoc \<Rightarrow> bool" where
  "doc_usable d \<longleftrightarrow> pd_ID d \<noteq> [] \<and>
     (pd_Type d = ''per_transaction_limit'' \<and> pd_Max d \<noteq> []
      \<or> pd_Type d = ''vendor_allowlist'' \<and> pd_Vendors d \<noteq> []
      \<or> pd_Type d = ''vendor_blocklist''
      \<or> pd_Type d = ''agent_permission'' \<and> (pd_AllowedActions d \<noteq> [] \<or> pd_AllowedTargets d \<noteq> [])
      \<or> pd_Type d = ''time_window'' \<and> list_all (\<lambda>wd. 0 \<le> wd \<and> wd \<le> 6) (pd_Weekdays d) \<and>
          (\<exists>s\<in>{0..1439}. \<exists>t\<in>{0..1439}. pd_StartMinute d = Some s \<and> pd_EndMinute d = Some t)
      \<or> pd_Type d = ''jurisdiction_currency'' \<and> pd_Allowed d \<noteq> [])"

definition boot_policy_ok :: "boot_env \<Rightarrow> Config \<Rightarrow> bool" where
  "boot_policy_ok e cf \<longleftrightarrow>
     (\<exists>doc f. (if cf_PolicyFile cf = [] then doc = default_policy_json else bo_readFile e (cf_PolicyFile cf) = Inr (Inr doc)) \<and>
        dec_file doc = Inr f \<and> list_all doc_usable (of_nil (fi_Predicates f)) \<and>
        distinct (map pd_ID (of_nil (fi_Predicates f))) \<and>
        (fi_Version f = [] \<longrightarrow> jcs_Transform (bo_crypto e)
           (case fi_Predicates f of None \<Rightarrow> JsonNull | Some ds \<Rightarrow> JsonArr (map (\<lambda>d. JsonObj (doc_members d)) ds)) \<noteq> None))"

definition audit_key_ok :: "Config \<Rightarrow> bool" where
  "audit_key_ok cf \<longleftrightarrow> cf_AuditEncryptionKey cf = [] \<or> decodeSeed (cf_AuditEncryptionKey cf) \<noteq> None"

lemma boot_keyring_Inr:
  "boot_keyring c drawn cf = Inr (k, s) \<longleftrightarrow>
     (\<exists>i pub priv. k = install_active NewKeyring i pub priv \<and> s = \<lparr>sgn_keyID = i, sgn_priv = priv\<rparr> \<and>
        (if cf_SigningPrivateKey cf \<noteq> []
         then i = cf_SigningKeyID cf \<and> (\<exists>seed. decodeSeed (cf_SigningPrivateKey cf) = Some seed \<and>
            priv = ed_NewKeyFromSeed c seed \<and> pub = ed_Public c priv)
         else drawn = Some (pub, priv) \<and> i = deriveKeyID c pub))"
proof (cases "cf_SigningPrivateKey cf = []")
  case True
  then show ?thesis
    by (auto simp: boot_keyring_def GenerateActive_def Let_def Keyring_Signer_install split: option.splits)
next
  case False
  show ?thesis
  proof (cases "decodeSeed (cf_SigningPrivateKey cf)")
    case (Some seed)
    then have "length seed = SeedSize" by (rule decodeSeed_length)
    with False Some show ?thesis by (auto simp: boot_keyring_def SetActive_def Let_def Keyring_Signer_install)
  qed (use False in \<open>auto simp: boot_keyring_def\<close>)
qed

lemma boot_keyring_reach:
  assumes "boot_keyring c drawn cf = Inr (k, s)" and "\<And>pub priv. drawn = Some (pub, priv) \<Longrightarrow> ed25519_pair c pub priv"
  shows "keyring_reach c k" and "Keyring_Signer k = Inr s"
proof -
  from assms(1) obtain i pub priv where k: "k = install_active NewKeyring i pub priv" "s = \<lparr>sgn_keyID = i, sgn_priv = priv\<rparr>"
    and src: "if cf_SigningPrivateKey cf \<noteq> []
         then i = cf_SigningKeyID cf \<and> (\<exists>seed. decodeSeed (cf_SigningPrivateKey cf) = Some seed \<and>
            priv = ed_NewKeyFromSeed c seed \<and> pub = ed_Public c priv)
         else drawn = Some (pub, priv) \<and> i = deriveKeyID c pub"
    by (auto simp: boot_keyring_Inr)
  show "Keyring_Signer k = Inr s" by (simp add: k Keyring_Signer_install)
  show "keyring_reach c k"
  proof (cases "cf_SigningPrivateKey cf = []")
    case True
    with src have "GenerateActive c pub priv NewKeyring = (i, k)" by (simp add: GenerateActive_def Let_def k)
    with True src show ?thesis by (intro keyring_reach.generate [OF keyring_reach.new]) (auto intro: assms(2))
  next
    case False
    with src obtain seed where "decodeSeed (cf_SigningPrivateKey cf) = Some seed" and "SetActive c NewKeyring i seed = Inr k"
      using decodeSeed_length by (auto simp: SetActive_def Let_def k)
    then show ?thesis by (intro keyring_reach.set_active [OF keyring_reach.new])
  qed
qed

lemma boot_policy_wf: "boot_policy c rf cf = Inr pol \<Longrightarrow> policy_wf pol"
  by (auto simp: boot_policy_def map_sum_Inr Policy_File.Load_def Default_def Parse_wf split: if_splits sum.splits)

lemma doc_usable_build: "doc_usable d \<longleftrightarrow> pd_ID d \<noteq> [] \<and> (\<exists>p. build d = Inr p)"
  by (auto simp: doc_usable_def build_def Let_def validMinute_def validWeekday_def find_None_iff find_Some_iff list_all_iff not_less
      split: option.splits)

lemma build_all: "list_all (\<lambda>d. \<exists>p. build d = Inr p) ds \<longleftrightarrow> (\<exists>ps. list_all2 (\<lambda>d p. build d = Inr p) ds ps)"
proof (induction ds)
  case (Cons d ds)
  then show ?case by (auto simp: list_all2_Cons1)
qed simp

lemma Parse_usable:
  "(\<exists>pol. Parse c raw = Inr pol) \<longleftrightarrow>
     (\<exists>doc f. raw = Inr doc \<and> dec_file doc = Inr f \<and> list_all doc_usable (of_nil (fi_Predicates f)) \<and>
        distinct (map pd_ID (of_nil (fi_Predicates f))) \<and>
        (fi_Version f = [] \<longrightarrow> jcs_Transform c
           (case fi_Predicates f of None \<Rightarrow> JsonNull | Some ds \<Rightarrow> JsonArr (map (\<lambda>d. JsonObj (doc_members d)) ds)) \<noteq> None))"
proof -
  have loop: "(\<exists>ps. build_loop 0 [] ds = Inr ps) \<longleftrightarrow> list_all doc_usable ds \<and> distinct (map pd_ID ds)" for ds
    using build_all [of ds] by (auto simp: build_loop_Inr doc_usable_build list_all_iff)
  have ver: "(\<exists>v. (if fi_Version f = [] then contentVersion c (fi_Predicates f) else Inr (fi_Version f)) = Inr v) \<longleftrightarrow>
      (fi_Version f = [] \<longrightarrow> jcs_Transform c
         (case fi_Predicates f of None \<Rightarrow> JsonNull | Some ds \<Rightarrow> JsonArr (map (\<lambda>d. JsonObj (doc_members d)) ds)) \<noteq> None)" for f
    by (auto simp: contentVersion_def split: option.splits)
  have "(\<exists>pol. Parse c raw = Inr pol) \<longleftrightarrow> (\<exists>f. bindE raw dec_file = Inr f \<and> (\<exists>ps. build_loop 0 [] (of_nil (fi_Predicates f)) = Inr ps)
      \<and> (\<exists>v. (if fi_Version f = [] then contentVersion c (fi_Predicates f) else Inr (fi_Version f)) = Inr v))"
    unfolding Parse_Inr by (metis Policy.select_convs)
  then show ?thesis unfolding loop ver bindE_cases by blast
qed

lemma boot_policy_starts: "(\<exists>pol. boot_policy (bo_crypto e) (bo_readFile e) cf = Inr pol) \<longleftrightarrow> boot_policy_ok e cf"
proof (cases "cf_PolicyFile cf = []")
  case True
  then show ?thesis
    using Parse_usable [of "bo_crypto e" "Inr default_policy_json"]
    by (simp add: boot_policy_def boot_policy_ok_def Default_def map_sum_Inr)
next
  case False
  then have "(\<exists>pol. boot_policy (bo_crypto e) (bo_readFile e) cf = Inr pol) \<longleftrightarrow>
      (\<exists>raw. bo_readFile e (cf_PolicyFile cf) = Inr raw \<and> (\<exists>pol. Parse (bo_crypto e) raw = Inr pol))"
    by (auto simp: boot_policy_def Policy_File.Load_def map_sum_Inr split: sum.splits)
  with False show ?thesis unfolding boot_policy_ok_def Parse_usable by auto
qed

lemma boot_encryptor_Inr:
  "boot_encryptor g cf = Inr enc \<longleftrightarrow>
     (if cf_AuditEncryptionKey cf = [] then enc = NopEncryptor
      else \<exists>key. decodeSeed (cf_AuditEncryptionKey cf) = Some key \<and> NewAESGCM g key = Inr enc)"
  by (auto simp: boot_encryptor_def map_sum_Inr split: option.splits)

lemma boot_Inr:
  "boot e cf = Inr cfg \<longleftrightarrow> tracing_ok e \<and> stores_ok e cf \<and>
     (\<exists>k s pol enc. boot_keyring (bo_crypto e) (bo_drawn e) cf = Inr (k, s) \<and>
        boot_policy (bo_crypto e) (bo_readFile e) cf = Inr pol \<and> boot_encryptor (bo_aead e) cf = Inr enc \<and>
        cfg = \<lparr>ac_prod = \<lparr>pc_mac = bo_mac e, pc_crypto = bo_crypto e, pc_auth = boot_authn cf, pc_tiers = DefaultTiers,
              pc_engine = boot_engine pol s cf (bo_provider e), pc_keyring = k, pc_enc = enc,
              pc_retention = RetentionFor cf, pc_holdTTL = cf_HoldTTL cf\<rparr>,
            ac_schema = bo_schema e, ac_signer = s, ac_token = cf_ProvisionToken cf, ac_read = bo_read e,
            ac_requests = bo_requests e\<rparr>)"
proof -
  have t: "tracing_Init e = Inr () \<longleftrightarrow> tracing_ok e" by (auto simp: tracing_Init_def tracing_ok_def Let_def)
  have p: "NewPostgres e dsn = Inr () \<longleftrightarrow> bo_pgxpool e dsn \<and> bo_pgPing e" for dsn by (simp add: NewPostgres_def)
  have r: "NewRedis e url = Inr () \<longleftrightarrow> bo_ParseURL e url \<and> bo_redisPing e" for url by (simp add: NewRedis_def)
  show ?thesis unfolding boot_def bindE_cases by (auto simp: bindE_cases t p r stores_ok_def)
qed

lemma boot_engine_parts:
  "eng_Signer (boot_engine pol s cf prov t) = Some s" "eng_Policy (boot_engine pol s cf prov t) = pol"
  "eng_Provider (boot_engine pol s cf prov t) = (if cf_ControlPlaneEnabled cf then Some (prov t) else None)"
  by (simp_all add: boot_engine_def Let_def WithProvider_def WithReserver_def WithHoldTTL_def WithSigner_def NewEngine_def)

definition node_ready :: "boot_env \<Rightarrow> Config \<Rightarrow> admin_config \<Rightarrow> bool" where
  "node_ready e cf cfg \<longleftrightarrow>
     pc_crypto (ac_prod cfg) = bo_crypto e \<and>
     keyring_reach (bo_crypto e) (pc_keyring (ac_prod cfg)) \<and> Keyring_Signer (pc_keyring (ac_prod cfg)) = Inr (ac_signer cfg) \<and>
     (\<forall>t. eng_Signer (pc_engine (ac_prod cfg) t) = Some (ac_signer cfg) \<and> policy_wf (eng_Policy (pc_engine (ac_prod cfg) t))) \<and>
     au_keys (pc_auth (ac_prod cfg)) = CachedKeyStore_LookupByID Postgres_LookupByID (cf_KeyCacheTTL cf) \<and>
     wrap64 (2 * au_maxSkew (pc_auth (ac_prod cfg))) \<le> au_nonceTTL (pc_auth (ac_prod cfg)) \<and>
     (if cf_AuditEncryptionKey cf = [] then pc_enc (ac_prod cfg) = NopEncryptor
      else \<exists>key. NewAESGCM (bo_aead e) key = Inr (pc_enc (ac_prod cfg)))"

lemma boot_ready:
  assumes "boot e cf = Inr cfg"
    and "\<And>pub priv. bo_drawn e = Some (pub, priv) \<Longrightarrow> ed25519_pair (bo_crypto e) pub priv"
  shows "node_ready e cf cfg"
proof -
  from assms(1) obtain k s pol enc where k: "boot_keyring (bo_crypto e) (bo_drawn e) cf = Inr (k, s)"
    and pol: "boot_policy (bo_crypto e) (bo_readFile e) cf = Inr pol" and enc: "boot_encryptor (bo_aead e) cf = Inr enc"
    and cfg: "cfg = \<lparr>ac_prod = \<lparr>pc_mac = bo_mac e, pc_crypto = bo_crypto e, pc_auth = boot_authn cf, pc_tiers = DefaultTiers,
              pc_engine = boot_engine pol s cf (bo_provider e), pc_keyring = k, pc_enc = enc,
              pc_retention = RetentionFor cf, pc_holdTTL = cf_HoldTTL cf\<rparr>,
            ac_schema = bo_schema e, ac_signer = s, ac_token = cf_ProvisionToken cf, ac_read = bo_read e,
            ac_requests = bo_requests e\<rparr>"
    unfolding boot_Inr by blast
  from boot_keyring_reach [OF k assms(2)] boot_policy_wf [OF pol] enc show ?thesis
    by (auto simp: node_ready_def cfg boot_engine_parts boot_authn_def NewAuthenticator_def boot_encryptor_Inr split: if_splits)
qed

lemma boot_starts:
  "(\<exists>cfg. boot e cf = Inr cfg) \<longleftrightarrow>
     tracing_ok e \<and> stores_ok e cf \<and> signing_key_ok e cf \<and> boot_policy_ok e cf \<and> audit_key_ok cf"
proof -
  have "(\<exists>k s. boot_keyring (bo_crypto e) (bo_drawn e) cf = Inr (k, s)) \<longleftrightarrow> signing_key_ok e cf"
    by (auto simp: boot_keyring_Inr signing_key_ok_def)
  moreover note boot_policy_starts [of e cf]
  moreover have "(\<exists>enc. boot_encryptor (bo_aead e) cf = Inr enc) \<longleftrightarrow> audit_key_ok cf"
    using decodeSeed_length by (auto simp: boot_encryptor_Inr audit_key_ok_def NewAESGCM_def)
  ultimately show ?thesis unfolding boot_Inr by blast
qed

section \<open>The padded URL alphabet\<close>

lemma hex_decode_bad: "c \<in> set s \<Longrightarrow> hex_val c = None \<Longrightarrow> hex_decode s = None"
  by (induction s rule: hex_decode.induct) (auto split: option.splits)

lemma b64_vals_bad: "c \<in> set s \<Longrightarrow> byte_val c \<noteq> 10 \<Longrightarrow> byte_val c \<noteq> 13 \<Longrightarrow> b64_val c = None \<Longrightarrow> b64_vals s = None"
  by (induction s) (auto split: option.splits)

text \<open>\<open>base64.URLEncoding\<close>, with padding, is not among the decoders: a key so written is refused as soon as its text
  uses one of the two characters that set the alphabets apart.\<close>

lemma padded_url_refused:
  assumes "c \<in> set (b64_encode seed)" and "c = CHR ''-'' \<or> c = CHR ''_''"
  shows "decodeSeed (b64_encode seed @ ''='') = None"
proof -
  let ?s = "b64_encode seed @ ''=''"
  have u: "url_char c = None" and cs: "c \<in> set ?s" using assms by (auto simp: url_char_def)
  have "CHR ''='' \<notin> set (rev (b64_encode seed))" using b64_encode_alphabet by (fastforce simp: b64_alphabet_def)
  then have drop: "dropWhile (\<lambda>c. c = CHR ''='') (rev (b64_encode seed)) = rev (b64_encode seed)" by (rule dropWhile_absent)
  have "filter (\<lambda>c. c \<noteq> CHR 0x0A \<and> c \<noteq> CHR 0x0D) ?s = ?s"
    using b64_encode_alphabet alphabet_char by (intro filter_True) auto
  then have "b64std_decode ?s = None" using assms(1) u by (auto simp: b64std_decode_def Let_def drop list_all_iff)
  moreover have "b64rawstd_decode ?s = None" using cs u by (auto simp: b64rawstd_decode_def list_all_iff)
  moreover have "b64_decode ?s = None"
    using b64_vals_bad [of "CHR ''=''" ?s] by (simp add: b64_decode_def b64_val_def b64_alphabet_def)
  moreover have "hex_decode ?s = None" using assms(2) by (intro hex_decode_bad [OF cs]) (auto simp: hex_val_def)
  ultimately show ?thesis by (simp add: decodeSeed_def)
qed

section \<open>Properties\<close>

text \<open>Keys in text. A 32-byte key written in hexadecimal, in standard base64 with or without padding, or in unpadded
  URL base64 is read back exactly, although the decoders are tried in turn and accept each
  other's texts; and whatever is accepted has 32 bytes.\<close>

theorem key_texts:
  assumes "length seed = 32"
  shows "(\<forall>txt \<in> {b64std_encode seed, b64rawstd_encode seed, b64_encode seed, hex_encode seed}. decodeSeed txt = Some seed)
    \<and> (\<forall>txt b. decodeSeed txt = Some b \<longrightarrow> length b = 32)"
  using decodeSeed_texts [OF assms] decodeSeed_length by auto

theorem key_texts_witness:
  "decodeSeed (b64std_encode demo_seed) = Some demo_seed \<and> decodeSeed (hex_encode demo_seed) = Some demo_seed"
  using key_texts [of demo_seed] by (simp add: demo_seed_def)


definition demo_boot_env :: boot_env where
  "demo_boot_env = \<lparr>bo_crypto = demo_crypto, bo_mac = demo_mac, bo_aead = \<lparr>gcm_Seal = (\<lambda>k n p. p), gcm_Open = (\<lambda>k n c. Some c)\<rparr>,
     bo_drawn = None, bo_readFile = (\<lambda>_. Inl ''no such file''), bo_schema = demo_validator, bo_read = (\<lambda>_. ReadEOF),
     bo_requests = (\<lambda>_. Inr []), bo_provider = (\<lambda>_ _ w. (Inl ErrNoActiveBundle, w)),
     bo_Exporter = ''stdout'', bo_Endpoint = [], bo_stdouttrace = True, bo_otlptrace = (\<lambda>_. False), bo_resource = True,
     bo_pgxpool = (\<lambda>dsn. dsn \<noteq> []), bo_pgPing = True, bo_ParseURL = (\<lambda>url. url \<noteq> []), bo_redisPing = True\<rparr>"

definition demo_config :: Config where
  "demo_config = Load_config (\<lambda>_ _ _. 0) [''AUTHZ_SIGNING_PRIVATE_KEY'' \<mapsto> hex_encode demo_seed,
     ''AUTHZ_AUDIT_ENCRYPTION_KEY'' \<mapsto> b64std_encode demo_seed]"

lemma demo_config_keys: "cf_SigningPrivateKey demo_config = hex_encode demo_seed"
  "cf_AuditEncryptionKey demo_config = b64std_encode demo_seed" "cf_PolicyFile demo_config = []"
  by (simp_all add: demo_config_def Load_config_def env_str_def demo_seed_def hex_encode_def hex_byte_def b64std_encode_def Let_def)

lemma demo_boot_starts: "tracing_ok demo_boot_env" "stores_ok demo_boot_env demo_config"
  "signing_key_ok demo_boot_env demo_config" "boot_policy_ok demo_boot_env demo_config" "audit_key_ok demo_config"
proof -
  show "tracing_ok demo_boot_env" by (simp add: tracing_ok_def demo_boot_env_def)
  show "stores_ok demo_boot_env demo_config" by (simp add: stores_ok_def demo_boot_env_def demo_config_def Load_config_def env_str_def Let_def)
  have d: "decodeSeed (hex_encode demo_seed) = Some demo_seed" "decodeSeed (b64std_encode demo_seed) = Some demo_seed"
    by (rule decodeSeed_texts; simp add: demo_seed_def)+
  moreover have "demo_seed \<noteq> []" by (simp add: demo_seed_def)
  ultimately show "signing_key_ok demo_boot_env demo_config" "audit_key_ok demo_config"
    by (auto simp: signing_key_ok_def audit_key_ok_def demo_config_keys demo_boot_env_def)
  show "boot_policy_ok demo_boot_env demo_config"
    using Default_loads by (auto simp: boot_policy_starts [symmetric] boot_policy_def demo_config_keys demo_boot_env_def)
qed


end
