(* ===== verification/Commands.thy ===== *)
theory Commands
  imports Boot
begin

text \<open>
  The two command-line tools. \<open>cmd/authz-verify\<close> checks the signature of a decision with public
  information only; \<open>cmd/authz-keygen\<close> mints an API key and may insert it. Flags are arguments; standard input, files and
  HTTP answers are functions of their names, as are the JSON decoders on their texts. Shown: the
  verdict of the tool on the published key set is the verdict of the service, every decision of a
  service started by \<open>boot\<close> passes it, and a minted key is usable as printed.
\<close>

section \<open>authz-verify\<close>

record verify_io =
  vio_stdin :: "string option"
  vio_file :: "string \<Rightarrow> string option"
  vio_get :: "string \<Rightarrow> (int \<times> string) option"
  vio_decision :: "string \<Rightarrow> Decision option"
  vio_jwks :: "string \<Rightarrow> JWK list option"
  vio_jwks_first :: "string \<Rightarrow> JWK list option"

datatype verify_error =
    ReadDecision | ParseDecision | DecodePubkey | PubkeySize nat | ReadJwks | ParseJwks | FetchJwks
  | JwksStatus int | NoKeySource | NoKeyWithId string | BadKey sign_error | NotVerified sign_error

definition loadDecision :: "verify_io \<Rightarrow> string \<Rightarrow> verify_error + Decision" where
  "loadDecision io path =
     (case (if path = ''-'' then vio_stdin io else vio_file io path) of
        None \<Rightarrow> Inl ReadDecision
      | Some raw \<Rightarrow> (case vio_decision io raw of None \<Rightarrow> Inl ParseDecision | Some d \<Rightarrow> Inr d))"

text \<open>The key set: a file is decoded as a whole, of an HTTP answer the first value.\<close>

definition key_set :: "verify_io \<Rightarrow> string \<Rightarrow> string \<Rightarrow> verify_error + JWK list" where
  "key_set io jwksPath jwksURL =
     (if jwksPath \<noteq> [] then
        (case vio_file io jwksPath of
           None \<Rightarrow> Inl ReadJwks
         | Some b \<Rightarrow> (case vio_jwks io b of None \<Rightarrow> Inl ParseJwks | Some js \<Rightarrow> Inr js))
      else if jwksURL \<noteq> [] then
        (case vio_get io jwksURL of
           None \<Rightarrow> Inl FetchJwks
         | Some (status, b) \<Rightarrow>
             if status \<noteq> 200 then Inl (JwksStatus status)
             else (case vio_jwks_first io b of None \<Rightarrow> Inl ParseJwks | Some js \<Rightarrow> Inr js))
      else Inl NoKeySource)"

definition resolveKey :: "verify_io \<Rightarrow> string \<Rightarrow> string \<Rightarrow> string \<Rightarrow> string \<Rightarrow> verify_error + string" where
  "resolveKey io keyID jwksPath jwksURL pubKeyB64 =
     (if pubKeyB64 \<noteq> [] then
        (case b64_decode pubKeyB64 of
           None \<Rightarrow> Inl DecodePubkey
         | Some raw \<Rightarrow> if length raw \<noteq> PublicKeySize then Inl (PubkeySize (length raw)) else Inr raw)
      else bindE (key_set io jwksPath jwksURL) (\<lambda>js.
        case find (\<lambda>j. jwk_Kid j = keyID) js of
          None \<Rightarrow> Inl (NoKeyWithId keyID)
        | Some j \<Rightarrow> map_sum BadKey id (PublicKeyFromJWK j)))"

text \<open>\<open>None\<close> is a valid signature and exit code 0.\<close>

definition run_verify :: "crypto \<Rightarrow> verify_io \<Rightarrow> string \<Rightarrow> string \<Rightarrow> string \<Rightarrow> string \<Rightarrow> verify_error option" where
  "run_verify c io decisionPath jwksPath jwksURL pubKeyB64 =
     (case loadDecision io decisionPath of
        Inl e \<Rightarrow> Some e
      | Inr d \<Rightarrow>
          (case resolveKey io (sig_KeyID (dec_Signature d)) jwksPath jwksURL pubKeyB64 of
             Inl e \<Rightarrow> Some e
           | Inr pub \<Rightarrow> map_option NotVerified (Verify c d pub)))"

section \<open>authz-keygen\<close>

record keygen_flags =
  kf_env :: string
  kf_org :: string
  kf_tier :: string
  kf_insert :: bool
  kf_enforce :: bool

text \<open>The output: the key, shown once, with its record, and either the statement to run or the confirmation.\<close>

datatype keygen_output =
    PrintKey string KeyRecord | PrintInsert KeyRecord | PrintInserted | PrintError string

text \<open>The exit code, the output and the table. \<open>dsn\<close> is \<open>DATABASE_URL\<close>, \<open>reachable\<close> the outcome of connecting.\<close>

definition keygen :: "mac_crypto \<Rightarrow> string option \<Rightarrow> string \<Rightarrow> bool \<Rightarrow> gotime \<Rightarrow> keygen_flags \<Rightarrow> PostgresKeyStore
    \<Rightarrow> nat \<times> keygen_output list \<times> PostgresKeyStore" where
  "keygen mc entropy dsn reachable db_now fl s =
     (if kf_org fl = [] then (2, [PrintError ''error: -org is required''], s)
      else case NewKey mc entropy (kf_env fl) (kf_org fl) (kf_tier fl) of
        Inl err \<Rightarrow> (1, [PrintError (''error: '' @ err)], s)
      | Inr gk \<Rightarrow>
          let rec = (gk_Record gk)\<lparr>kr_Shadow := \<not> kf_enforce fl\<rparr>;
              shown = PrintKey (gk_Plaintext gk) rec
          in if \<not> kf_insert fl then (0, [shown, PrintInsert rec], s)
             else if dsn = [] then (2, [shown, PrintError ''error: -insert requires DATABASE_URL''], s)
             else if \<not> reachable then (1, [shown, PrintError ''error: connect''], s)
             else (case Postgres_Insert db_now rec s of
                     (Some e, s1) \<Rightarrow> (1, [shown, PrintError ''error: insert''], s1)
                   | (None, s1) \<Rightarrow> (0, [shown, PrintInserted], s1)))"

section \<open>The verdict of the tool\<close>

lemma find_JWKS:
  assumes "keyring_ok c k"
  shows "case PublicKey k i of
      None \<Rightarrow> find (\<lambda>j. jwk_Kid j = i) (JWKS k) = None
    | Some pub \<Rightarrow> \<exists>j. find (\<lambda>j. jwk_Kid j = i) (JWKS k) = Some j \<and> PublicKeyFromJWK j = Inr pub"
proof -
  have ids: "set (map jwk_Kid (JWKS k)) = set (map fst (kr_keys k))"
    using JWKS_ids [OF assms] by (metis set_mset_mset)
  have "distinct (map jwk_Kid (JWKS k))"
    using JWKS_ids [OF assms] assms by (metis keyring_ok_def mset_eq_imp_distinct_iff)
  then have inj: "j = j'" if "j \<in> set (JWKS k)" "j' \<in> set (JWKS k)" "jwk_Kid j = jwk_Kid j'" for j j'
    using that by (simp add: distinct_map inj_on_def)
  show ?thesis
  proof (cases "PublicKey k i")
    case None
    then have "i \<notin> set (map jwk_Kid (JWKS k))"
      unfolding ids by (simp add: PublicKey_def map_of_eq_None_iff)
    with None show ?thesis by (auto simp: find_None_iff)
  next
    case (Some pub)
    then obtain j where j: "j \<in> set (JWKS k)" "jwk_Kid j = i" "PublicKeyFromJWK j = Inr pub"
      using JWKS_entry [OF assms] by blast
    then obtain j' where f: "find (\<lambda>j. jwk_Kid j = i) (JWKS k) = Some j'"
      by (cases "find (\<lambda>j. jwk_Kid j = i) (JWKS k)") (auto simp: find_None_iff)
    then have "j' \<in> set (JWKS k)" "jwk_Kid j' = i" by (auto simp: find_Some_iff)
    with j inj have "j' = j" by blast
    with f j(3) Some show ?thesis by simp
  qed
qed

lemma run_verify_published:
  assumes "keyring_ok c k" and "loadDecision io path = Inr d" and "key_set io jp url = Inr (JWKS k)"
  shows "run_verify c io path jp url [] = None \<longleftrightarrow> VerifyDecision c k d = None"
  using find_JWKS [OF assms(1), of "sig_KeyID (dec_Signature d)"] assms(2,3)
  by (cases "PublicKey k (sig_KeyID (dec_Signature d))")
     (auto simp: run_verify_def resolveKey_def VerifyDecision_def)

lemma run_verify_pubkey:
  assumes "keyring_ok c k" and "loadDecision io path = Inr d" and "PublicKey k (sig_KeyID (dec_Signature d)) = Some pub"
  shows "run_verify c io path jp url (b64_encode pub) = None \<longleftrightarrow> VerifyDecision c k d = None"
proof -
  have len: "length pub = PublicKeySize" using assms(1,3) by (auto simp: keyring_ok_def PublicKey_def)
  then have "b64_encode pub \<noteq> []" using length_b64_encode [of pub] by auto
  with len assms(2,3) show ?thesis by (simp add: run_verify_def resolveKey_def VerifyDecision_def)
qed

section \<open>The minted key\<close>

lemma pk_insert_None:
  "pk_insert what rec t s = (None, s') \<longleftrightarrow>
     pk_up s \<and> row_ok rec \<and> map_of (pk_rows s) (kr_KeyID rec) = None
     \<and> \<not> list_ex (\<lambda>(_, row). kr_KeyHashHex (row_rec row) = kr_KeyHashHex rec) (pk_rows s)
     \<and> s' = s\<lparr>pk_rows := pk_rows s @ [(kr_KeyID rec, \<lparr>row_rec = rec, row_created = t, row_revoked = None\<rparr>)]\<rparr>"
  by (auto simp: pk_insert_def)

lemma Insert_lookup:
  assumes "Postgres_Insert t rec s = (None, s')"
  shows "Postgres_LookupByID (kr_KeyID rec) s' = Inr rec"
    and "k \<noteq> kr_KeyID rec \<Longrightarrow> Postgres_LookupByID k s' = Postgres_LookupByID k s"
  using assms by (auto simp: Postgres_Insert_def pk_insert_None Postgres_LookupByID_def map_add_def split: option.split)

lemma Insert_fails: "Postgres_Insert t rec s = (Some e, s') \<Longrightarrow> s' = s"
  by (auto simp: Postgres_Insert_def pk_insert_def split: if_splits)

lemma NewKey_parse:
  assumes "NewKey mc entropy env org tier = Inr g"
  shows "parseKey mc (gk_Plaintext g) = Inr (kr_KeyID (gk_Record g), kr_KeyHashHex (gk_Record g))"
    and "kr_OrgID (gk_Record g) = org \<and> kr_Tier (gk_Record g) = tier \<and> kr_Env (gk_Record g) = env
      \<and> kr_Status (gk_Record g) = KeyStatusActive"
  using assms by (auto simp: NewKey_def parseKey_def Let_def split: if_splits option.splits)

section \<open>Properties\<close>

text \<open>C17: offline verification. On the key set the service publishes, from a file or an address, and on
  the single key the decision names, the tool accepts a decision exactly when the service's own keyring
  verifies it, whatever decision it is given.\<close>

theorem offline_verification:
  assumes "ed25519_ok c" and "keyring_reach c k" and "loadDecision io path = Inr d" and "key_set io jp url = Inr (JWKS k)"
  shows "(run_verify c io path jp url [] = None \<longleftrightarrow> VerifyDecision c k d = None)
    \<and> (\<forall>pub. PublicKey k (sig_KeyID (dec_Signature d)) = Some pub \<longrightarrow>
         (run_verify c io path jp url (b64_encode pub) = None \<longleftrightarrow> VerifyDecision c k d = None))"
  using run_verify_published run_verify_pubkey keyring_reach_ok [OF assms(1,2)] assms(3,4) by blast

text \<open>C5: from the configuration to the auditor. Take a process started from any configuration and any decision its engine
  returns, at any time and for any request. The decision, also as it is read back
  later with its latency, record hash and verification flag filled in, is accepted by the verification tool
  on the key set that the process publishes.\<close>

theorem booted_decisions_verify:
  assumes "boot e cf = Inr cfg" and "ed25519_ok (bo_crypto e)"
    and "\<And>pub priv. bo_drawn e = Some (pub, priv) \<Longrightarrow> ed25519_pair (bo_crypto e) pub priv"
    and "Authorize (bo_crypto e) start now elapsed decID (pc_engine (ac_prod cfg) t) org req shadow w = (Inr d, w')"
    and "loadDecision io path = Inr (d\<lparr>dec_LatencyMs := l, dec_RecordHash := h, dec_SignatureVerified := v\<rparr>)"
    and "key_set io jp url = Inr (JWKS (pc_keyring (ac_prod cfg)))"
  shows "run_verify (bo_crypto e) io path jp url [] = None"
proof -
  have r: "node_ready e cf cfg" using assms(1,3) by (rule boot_ready)
  let ?k = "pc_keyring (ac_prod cfg)" and ?d = "d\<lparr>dec_LatencyMs := l, dec_RecordHash := h, dec_SignatureVerified := v\<rparr>"
  have k: "keyring_reach (bo_crypto e) ?k" "Keyring_Signer ?k = Inr (ac_signer cfg)" "eng_Signer (pc_engine (ac_prod cfg) t) = Some (ac_signer cfg)"
    using r by (simp_all add: node_ready_def)
  have "VerifyDecision (bo_crypto e) ?k ?d = None"
    using assms(2) k assms(4) by (rule receipt_verifies) simp_all
  with run_verify_published [OF keyring_reach_ok [OF assms(2) k(1)] assms(5,6)] show ?thesis by blast
qed

text \<open>A minted key works as printed. When \<open>authz-keygen -insert\<close> ends well, the key it printed parses to the id
  and hash of a stored record of the given organisation, tier and environment, active and advisory
  unless \<open>-enforce\<close> was given, and every other key resolves as before; on any other outcome the table is
  untouched.\<close>

theorem keygen_key_usable:
  assumes "keygen mc entropy dsn reachable t fl s = (code, out, s')"
  shows "(code = 0 \<and> kf_insert fl \<longrightarrow>
      (\<exists>raw rec. out = [PrintKey raw rec, PrintInserted] \<and> parseKey mc raw = Inr (kr_KeyID rec, kr_KeyHashHex rec)
         \<and> Postgres_LookupByID (kr_KeyID rec) s' = Inr rec \<and> kr_OrgID rec = kf_org fl \<and> kr_Tier rec = kf_tier fl
         \<and> kr_Env rec = kf_env fl \<and> kr_Status rec = KeyStatusActive \<and> kr_Shadow rec = (\<not> kf_enforce fl)
         \<and> (\<forall>k. k \<noteq> kr_KeyID rec \<longrightarrow> Postgres_LookupByID k s' = Postgres_LookupByID k s)))
    \<and> (code \<noteq> 0 \<or> \<not> kf_insert fl \<longrightarrow> s' = s)"
proof (cases "kf_org fl = [] \<or> isl (NewKey mc entropy (kf_env fl) (kf_org fl) (kf_tier fl))")
  case True
  then show ?thesis using assms by (auto simp: keygen_def split: if_splits sum.splits)
next
  case False
  then obtain g where org: "kf_org fl \<noteq> []" and g: "NewKey mc entropy (kf_env fl) (kf_org fl) (kf_tier fl) = Inr g"
    by (cases "NewKey mc entropy (kf_env fl) (kf_org fl) (kf_tier fl)") auto
  define rec where "rec = (gk_Record g)\<lparr>kr_Shadow := \<not> kf_enforce fl\<rparr>"
  have p: "parseKey mc (gk_Plaintext g) = Inr (kr_KeyID rec, kr_KeyHashHex rec)"
    "kr_OrgID rec = kf_org fl \<and> kr_Tier rec = kf_tier fl \<and> kr_Env rec = kf_env fl \<and> kr_Status rec = KeyStatusActive
     \<and> kr_Shadow rec = (\<not> kf_enforce fl)"
    using NewKey_parse [OF g] by (simp_all add: rec_def)
  show ?thesis
  proof (cases "kf_insert fl \<and> dsn \<noteq> [] \<and> reachable")
    case True
    obtain r s1 where i: "Postgres_Insert t rec s = (r, s1)" by fastforce
    show ?thesis
      using assms True i Insert_lookup [of t rec s s1] Insert_fails [of t rec s _ s1] p
      by (cases r) (auto simp: keygen_def org g rec_def [symmetric] Let_def)
  qed (use assms in \<open>auto simp: keygen_def org g rec_def [symmetric] Let_def split: if_splits\<close>)
qed

section \<open>Examples\<close>

definition demo_verify_io :: "Decision \<Rightarrow> JWK list \<Rightarrow> verify_io" where
  "demo_verify_io d js = \<lparr>vio_stdin = Some ''decision'', vio_file = (\<lambda>_. None), vio_get = (\<lambda>_. Some (200, ''keys'')),
     vio_decision = (\<lambda>_. Some d), vio_jwks = (\<lambda>_. None), vio_jwks_first = (\<lambda>_. Some js)\<rparr>"

lemma demo_verify_io_facts [simp]:
  "loadDecision (demo_verify_io d js) ''-'' = Inr d" "key_set (demo_verify_io d js) [] ''http://host'' = Inr js"
  by (simp_all add: loadDecision_def key_set_def demo_verify_io_def)

theorem offline_verification_witness:
  "run_verify demo_crypto (demo_verify_io demo_signed (JWKS demo_keyring)) ''-'' [] ''http://host'' [] = None"
proof -
  have "VerifyDecision demo_crypto demo_keyring demo_signed = None"
    using sign_then_verify [OF keyring_reach_ok [OF demo_crypto_laws(1) demo_facts(2)] demo_facts(3,4) refl refl]
    by (metis VerifyDecision_def option.simps(5))
  with offline_verification [OF demo_crypto_laws(1) demo_facts(2) demo_verify_io_facts] show ?thesis by blast
qed

text \<open>The process of the example in \<open>Boot\<close> decides a request.\<close>

lemma demo_boot_decides:
  assumes "boot demo_boot_env demo_config = Inr cfg"
  shows "\<exists>d w'. Authorize demo_crypto 0 0 0 ''d1'' (pc_engine (ac_prod cfg) 0) ''org'' (demo_request ''shop'') True w = (Inr d, w')"
proof -
  have r: "node_ready demo_boot_env demo_config cfg" using assms by (rule boot_ready) (simp add: demo_boot_env_def)
  then have s: "eng_Signer (pc_engine (ac_prod cfg) 0) = Some (ac_signer cfg)" by (simp add: node_ready_def)
  have p: "eng_Provider (pc_engine (ac_prod cfg) 0) = Some (\<lambda>_ w. (Inl ErrNoActiveBundle, w))"
    using assms by (auto simp: boot_Inr boot_engine_parts demo_config_def Load_config_def envBool_def env_parsed_def demo_boot_env_def)
  have "pol_Predicates (eng_Policy (pc_engine (ac_prod cfg) 0)) \<noteq> []"
    using assms Default_loads
    by (auto simp: boot_Inr boot_engine_parts boot_policy_def demo_config_keys demo_boot_env_def)
  with p have "resolve_policy (pc_engine (ac_prod cfg) 0) ''org'' w = (Inr (eng_Policy (pc_engine (ac_prod cfg) 0)), w)"
    by (simp add: resolve_policy_def)
  then show ?thesis
    by (rule Authorize_returns) (simp add: s sign_decision_def Signer_Sign_def demo_message)
qed

theorem booted_decisions_verify_witness:
  "\<exists>cfg d. boot demo_boot_env demo_config = Inr cfg \<and>
     run_verify demo_crypto (demo_verify_io (d\<lparr>dec_LatencyMs := 7, dec_RecordHash := ''h'', dec_SignatureVerified := Some True\<rparr>)
       (JWKS (pc_keyring (ac_prod cfg)))) ''-'' [] ''http://host'' [] = None"
proof -
  from demo_boot_starts obtain cfg where b: "boot demo_boot_env demo_config = Inr cfg" using boot_starts by blast
  obtain d w' where "Authorize demo_crypto 0 0 0 ''d1'' (pc_engine (ac_prod cfg) 0) ''org'' (demo_request ''shop'') True
      (pw_budget demo_pw) = (Inr d, w')"
    using demo_boot_decides [OF b] by blast
  then have "Authorize (bo_crypto demo_boot_env) 0 0 0 ''d1'' (pc_engine (ac_prod cfg) 0) ''org'' (demo_request ''shop'') True
      (pw_budget demo_pw) = (Inr d, w')" by (simp add: demo_boot_env_def)
  from booted_decisions_verify [OF b _ _ this demo_verify_io_facts] b show ?thesis
    using demo_crypto_laws(1) by (auto simp: demo_boot_env_def)
qed

theorem keygen_key_usable_witness:
  "\<exists>raw rec. keygen demo_mac (Some ''entropy'') ''postgres://db'' True 0
      \<lparr>kf_env = ''live'', kf_org = ''org'', kf_tier = ''pro'', kf_insert = True, kf_enforce = True\<rparr> \<lparr>pk_up = True, pk_rows = []\<rparr>
      = (0, [PrintKey raw rec, PrintInserted], \<lparr>pk_up = True, pk_rows = [(kr_KeyID rec, \<lparr>row_rec = rec, row_created = 0, row_revoked = None\<rparr>)]\<rparr>)
    \<and> parseKey demo_mac raw = Inr (kr_KeyID rec, kr_KeyHashHex rec) \<and> kr_OrgID rec = ''org'' \<and> \<not> kr_Shadow rec"
proof -
  let ?fl = "\<lparr>kf_env = ''live'', kf_org = ''org'', kf_tier = ''pro'', kf_insert = True, kf_enforce = True\<rparr>"
  obtain g where g: "NewKey demo_mac (Some ''entropy'') ''live'' ''org'' ''pro'' = Inr g"
    by (simp add: NewKey_def EnvLive_def EnvTest_def Let_def)
  let ?rec = "(gk_Record g)\<lparr>kr_Shadow := False\<rparr>"
  have "row_ok ?rec" using NewKey_parse(2) [OF g] by (simp add: row_ok_def EnvLive_def)
  then have k: "keygen demo_mac (Some ''entropy'') ''postgres://db'' True 0 ?fl \<lparr>pk_up = True, pk_rows = []\<rparr>
      = (0, [PrintKey (gk_Plaintext g) ?rec, PrintInserted],
         \<lparr>pk_up = True, pk_rows = [(kr_KeyID ?rec, \<lparr>row_rec = ?rec, row_created = 0, row_revoked = None\<rparr>)]\<rparr>)"
    using g by (simp add: keygen_def Postgres_Insert_def pk_insert_def Let_def)
  from keygen_key_usable [OF this] k show ?thesis by auto
qed

end
