(* ===== verification/Spec2Isabelle.thy ===== *)
theory Spec2Isabelle
  imports Reconcile Rate_Limit Ulid Audit_History Audit_Writer Commands
begin

text \<open>
  A verification of \<open>services/authorize-svc\<close>, the Go service that decides whether an agent may carry
  out a payment-like action, signs the decision, reserves budget for it and keeps a tamper-evident
  log. Paths below are relative to \<open>services/authorize-svc/internal\<close>.

  \<^bold>\<open>The parts and how they interact.\<close> A request to \<open>POST /v1/authorize\<close> is authenticated
  (\<open>auth\<close>: API key, HMAC over a canonical string, nonce), rate limited (\<open>ratelimit\<close>), answered from
  the idempotency cache when its key was used before (\<open>idempotency\<close>), and otherwise decided by the
  engine (\<open>engine\<close>): the policy of the caller's organisation is resolved from the bundle provider
  (\<open>bundle\<close>), its predicates are evaluated and combined, an approved enforcing call reserves budget
  (\<open>budget\<close>, \<open>hold\<close>), and the decision is signed (\<open>signing\<close>) under a fresh id (\<open>ulid\<close>). The handler
  (\<open>server\<close>) saves it for retries and hands it to the asynchronous writer of the hash-chained log
  (\<open>audit\<close>). Policies come from a file (\<open>policy\<close>) or from the control plane (\<open>policyctl\<close>), where
  they are validated, versioned by content hash, signed, published and rolled back. The process is put
  together from environment variables (\<open>config\<close>) by \<open>cmd/authorize-svc\<close>; \<open>cmd/authz-verify\<close> checks decisions
  from the published keys alone and \<open>cmd/authz-keygen\<close> mints API keys.

  \<^bold>\<open>Conventions.\<close> A component's state is a record, its operations are functions that take and return
  it; errors are values of sums and options; time is an integer number of nanoseconds and a clock
  reading, a random value or a fresh id is an argument of the operation that draws it; an interface
  of the code is a record of operations with a locale for its laws, interpreted on every
  implementation the repository has. A Go string is the list of its bytes. Integers that can
  overflow carry the bound or the wrap-around of \<open>int64\<close> (\<open>in_int64\<close>, \<open>wrap64\<close>) or are words.
  Redis and Postgres are modelled by the effect of the statements and scripts the code sends; each
  store has a switch or a schedule that says which of the coming statements fail, and the theorems
  hold for every schedule. SHA-256, HMAC, Ed25519, AES-GCM, the JSON canonicalizer and the JSON
  schema validator are parameters with named assumptions (\<open>ed25519_pair\<close>, \<open>policy_hash_sound\<close>,
  \<open>validates_schema\<close> and the like); each assumption is witnessed by a concrete instance.

  \<^bold>\<open>Theories, in the order of the code.\<close>
  \<^item> \<open>Authz_Prelude\<close>, \<open>Go_Std\<close>, \<open>Go_Time\<close>, \<open>Go_Text\<close>, \<open>Go_Base64\<close>: shared lemmas and collections; the
    parts of Go's standard library that the sources use (integers, decimal and exact rationals,
    calendar time and RFC 3339, quoting, hexadecimal, base64).
  \<^item> \<open>Contracts\<close>: the wire types of \<open>contracts/gen/go/contractsv1\<close>.
  \<^item> \<open>Verdict\<close>, \<open>Predicates\<close> (\<open>engine/verdict.go\<close>, \<open>predicate.go\<close>, \<open>predicates.go\<close>, \<open>construct.go\<close>):
    the verdict algebra equals its documented specification over the multiset of outcomes; the six
    rule types and their exact conditions.
  \<^item> \<open>Signing\<close> (\<open>signing\<close>): what a signature covers, verification by a third party from the published
    key set, rotation.
  \<^item> \<open>Engine\<close> (\<open>engine/engine.go\<close>, \<open>authorize.go\<close>): the whole of \<open>Authorize\<close>; soundness of verdict
    and explanation, no side effect in shadow mode, the budget gate, failures, receipts.
  \<^item> \<open>Hold\<close>, \<open>Budget\<close> (\<open>hold\<close>, \<open>budget\<close>): the hold ledger as a state machine over both stores, with
    lazy expiry and racing updates; reservation steps over Redis and Postgres and the invariant that
    no window is oversold; the reserver refines the steps. Capture and void retry when they lose a race:
    the depth is bounded by the races left in the schedule, and two attempts suffice without one.
  \<^item> \<open>Reconcile\<close> (\<open>budget/reconcile.go\<close>): the loop of the reconciler catches up with the holds that are due.
  \<^item> \<open>Rate_Limit\<close> (\<open>ratelimit\<close>): both limiters refine a reference limiter with counters that never expire.
  \<^item> \<open>Auth_Stores\<close>, \<open>Auth\<close> (\<open>auth\<close>): key stores, key cache, nonce stores; the authenticator accepts
    exactly the requests the protocol admits, and refuses replays.
  \<^item> \<open>Ulid\<close> (\<open>ulid\<close>): identifiers as words; order and injectivity.
  \<^item> \<open>Audit_Log\<close>, \<open>Audit_History\<close>, \<open>Audit_Writer\<close> (\<open>audit\<close>): records, hash chain, field encryption, both
    stores, paging; the writer with its channel as a step relation, and its fair runs.
  \<^item> \<open>Idempotency\<close>, \<open>Server\<close>, \<open>Server_Api\<close> (\<open>idempotency\<close>, \<open>server\<close>): caches, middleware, handlers, the
    production wiring, and what a client may rely on.
  \<^item> \<open>Policy_File\<close> (\<open>policy/policy.go\<close>): strict decoding of a policy document and what a loaded policy
    satisfies.
  \<^item> \<open>Policy_Validate\<close> (\<open>policyctl/validate.go\<close> and \<open>policy.schema.json\<close>): the schema as a predicate;
    validation accepts exactly the valid documents.
  \<^item> \<open>Policy_Ctl\<close>, \<open>Policy_Stores\<close>, \<open>Policy_Content\<close>, \<open>Policy_Service\<close> (\<open>policyctl\<close>): the service and both
    stores behind the locale \<open>policy_store\<close>; content addressing; the invariant over all sequences of
    calls, publishing and rollback.
  \<^item> \<open>Bundle\<close>, \<open>Bundle_Serving\<close> (\<open>bundle\<close>): compilation, the provider's cache, refresh and dry runs;
    nodes that interleave control-plane calls with serving, and what decisions on them cite.
  \<^item> \<open>Server_Admin\<close> (\<open>server/policies.go\<close>, \<open>keys_admin.go\<close>, \<open>provision.go\<close>, \<open>keys.go\<close>): the control plane
    over HTTP, with the strict decoding of its bodies, the mapping of errors to problems, the routes
    and their wiring in \<open>cmd/authorize-svc\<close>.
  \<^item> \<open>Policy_Tenancy\<close>, \<open>Server_Tenancy\<close>: what the services and then the routes do to other
    organisations, which is nothing; every route is a sequence of steps of the node.
  \<^item> \<open>Server_Keys\<close>: the life of an API key over HTTP, from provisioning to revocation, over any
    interleaving of requests, key management and outages.
  \<^item> \<open>Metrics\<close> (\<open>metrics\<close>): the counters and the histogram count the recorded events exactly, as long as
    sums stay below \<open>2^53\<close> and counts below \<open>2^63\<close>.
  \<^item> \<open>Go_Mux\<close>: path cleaning, pattern matching and precedence of \<open>net/http\<close>'s multiplexer, for the patterns
    the service registers (literal segments and single wildcards).
  \<^item> \<open>Server_Mux\<close> (\<open>server/server.go\<close>, \<open>middleware.go\<close>, \<open>metrics.go\<close>): the whole HTTP handler, from the
    bytes of the path to the headers of the answer. No unauthenticated request has an effect or
    reads anything but public data, and every answer is hardened.
  \<^item> \<open>Config\<close> (\<open>config\<close>, \<open>logging\<close>): environment variables, their defaults and parsers, with
    \<open>time.ParseDuration\<close>.
  \<^item> \<open>Boot\<close> (\<open>cmd/authorize-svc\<close>): when the process starts, and that the node it builds satisfies what
    the theories above assume of keyring, signer, engine, authenticator and encryptor.
  \<^item> \<open>Commands\<close> (\<open>cmd/authz-verify\<close>, \<open>cmd/authz-keygen\<close>): the tools, and the way of a decision from the
    configuration of the process to an auditor.

  \<^bold>\<open>Loops and bounds.\<close> Loops over lists are structural recursions. Loops that run until the process
  ends (the audit worker, the reconciler, the bundle refresher) are step relations or take the
  number of ticks. The retry of capture and void takes its fuel from the schedule of races and is
  shown to return with it. The refresh of a bundle is one step per organisation, so that other calls
  may interleave.

  \<^bold>\<open>Not modelled.\<close> Log lines and trace spans, on which no decision depends, beyond the choice of the log
  level; opening the database pool and the Redis client (\<open>store\<close>), which is I/O; signals and the
  graceful shutdown of the process; the decoding of JSON text into trees and of authorize requests,
  which is an argument where it occurs; the dashboard and the client libraries of the repository,
  written in other languages.
\<close>

end
